(* ===== verification/NCF_Prelude.thy ===== *)
theory NCF_Prelude
  imports Main "HOL-Library.Word" "HOL-Library.Product_Lexorder"
begin

text \<open>
  Shared vocabulary of the development: the machine integers of the C++ sources, the ordered
  associative container (\<^verbatim>\<open>std::map\<close>, \<^verbatim>\<open>std::set\<close>) with the contract its clients rely on,
  \<^verbatim>\<open>std::sort\<close> followed by \<^verbatim>\<open>std::unique\<close>, the little-endian byte layout used by every binary
  format, and the lemma collections the component theories extend.
\<close>

unbundle bit_operations_syntax

section \<open>Machine integers\<close>

type_synonym u8 = "8 word"
type_synonym u16 = "16 word"
type_synonym u32 = "32 word"
type_synonym u64 = "64 word"
type_synonym bytes = "u8 list"

named_theorems codec_simps \<open>one rewrite step of a writer or a reader on canonical states\<close>
named_theorems omap_simps \<open>lookups in an ordered map after an update\<close>
named_theorems ncf_defs \<open>definitions that only name a constant of the sources\<close>

lemma unat_64_less: "unat (x :: u64) < 18446744073709551616"
  using unsigned_less [of x, where 'a = nat] by simp

lemma u64_le_max: "(x :: u64) \<le> 18446744073709551615"
proof -
  have "unat x \<le> unat (18446744073709551615 :: u64)"
    using unat_64_less [of x] by simp
  then show ?thesis by (simp only: word_le_nat_alt)
qed

lemma unat_add_no_overflow:
  fixes a b :: u64
  assumes "unat a + unat b < 2 ^ 64"
  shows "unat (a + b) = unat a + unat b"
  using assms by (simp add: unat_word_ariths)

lemma unat_mult_no_overflow:
  fixes a b :: u64
  assumes "unat a * unat b < 2 ^ 64"
  shows "unat (a * b) = unat a * unat b"
  using assms by (simp add: unat_word_ariths)

lemma unat_sub_le:
  fixes a b :: u64
  assumes "b \<le> a"
  shows "unat (a - b) = unat a - unat b"
  using assms by (simp add: unat_sub)

section \<open>Ordered associative containers\<close>

text \<open>
  \<^verbatim>\<open>std::map<K, V>\<close> is an association list kept strictly ascending in its keys, which is also
  the order in which the sources iterate over it.
\<close>

type_synonym ('k, 'v) omap = "('k \<times> 'v) list"

definition om_inv :: "('k::linorder, 'v) omap \<Rightarrow> bool" where
  "om_inv m \<longleftrightarrow> sorted_wrt (<) (map fst m)"

fun om_put :: "'k::linorder \<Rightarrow> 'v \<Rightarrow> ('k, 'v) omap \<Rightarrow> ('k, 'v) omap" where
  "om_put k v [] = [(k, v)]"
| "om_put k v (e # m) =
     (if k < fst e then (k, v) # e # m
      else if fst e < k then e # om_put k v m
      else (k, v) # m)"

definition om_erase :: "'k::linorder \<Rightarrow> ('k, 'v) omap \<Rightarrow> ('k, 'v) omap" where
  "om_erase k m = filter (\<lambda>e. fst e \<noteq> k) m"

text \<open>What a client of \<^verbatim>\<open>std::map\<close> relies on.\<close>

locale std_map =
  fixes empty_map :: 'm
    and find :: "'m \<Rightarrow> 'k \<Rightarrow> 'v option"
    and put :: "'k \<Rightarrow> 'v \<Rightarrow> 'm \<Rightarrow> 'm"
    and erase :: "'k \<Rightarrow> 'm \<Rightarrow> 'm"
    and invar :: "'m \<Rightarrow> bool"
  assumes invar_empty: "invar empty_map"
    and invar_put: "invar m \<Longrightarrow> invar (put k v m)"
    and invar_erase: "invar m \<Longrightarrow> invar (erase k m)"
    and find_empty: "find empty_map k = None"
    and find_put: "invar m \<Longrightarrow> find (put k v m) k' = (if k' = k then Some v else find m k')"
    and find_erase: "invar m \<Longrightarrow> find (erase k m) k' = (if k' = k then None else find m k')"
begin

lemma find_put_same: "invar m \<Longrightarrow> find (put k v m) k = Some v"
  by (simp add: find_put)

lemma find_put_other: "invar m \<Longrightarrow> k' \<noteq> k \<Longrightarrow> find (put k v m) k' = find m k'"
  by (simp add: find_put)

lemma invar_fold_put: "invar m \<Longrightarrow> invar (fold (\<lambda>(k, v). put k v) es m)"
  by (induction es arbitrary: m) (auto simp: invar_put)

lemma find_fold_put:
  "invar m \<Longrightarrow> find (fold (\<lambda>(k, v). put k v) es m) k' =
     (case map_of (rev es) k' of None \<Rightarrow> find m k' | Some v \<Rightarrow> Some v)"
proof (induction es arbitrary: m)
  case Nil
  then show ?case by simp
next
  case (Cons e es)
  obtain k v where e: "e = (k, v)" by (cases e)
  from Cons.IH [of "put k v m"] Cons.prems show ?case
    by (simp add: e invar_put find_put map_add_def split: option.splits)
qed

lemma find_fold_put_const:
  assumes "invar m" and "\<And>e. e \<in> set es \<Longrightarrow> fst e \<noteq> k"
  shows "find (fold (\<lambda>(k, v). put k v) es m) k = find m k"
proof -
  have "map_of (rev es) k = None"
    using assms(2) by (auto simp: map_of_eq_None_iff)
  with find_fold_put [OF assms(1)] show ?thesis by simp
qed

end

text \<open>A client that iterates relies on the entries being in strictly ascending key order.\<close>

locale ordered_std_map = std_map empty_map find put erase invar
  for empty_map :: 'm
    and find :: "'m \<Rightarrow> 'k::linorder \<Rightarrow> 'v option"
    and put :: "'k \<Rightarrow> 'v \<Rightarrow> 'm \<Rightarrow> 'm"
    and erase :: "'k \<Rightarrow> 'm \<Rightarrow> 'm"
    and invar :: "'m \<Rightarrow> bool" +
  fixes entries :: "'m \<Rightarrow> ('k \<times> 'v) list"
  assumes entries_sorted: "invar m \<Longrightarrow> sorted_wrt (<) (map fst (entries m))"
    and find_entries: "invar m \<Longrightarrow> find m k = map_of (entries m) k"
begin

lemma entries_distinct: "invar m \<Longrightarrow> distinct (map fst (entries m))"
  by (metis entries_sorted strict_sorted_iff)

lemma find_iff_entry: "invar m \<Longrightarrow> find m k = Some v \<longleftrightarrow> (k, v) \<in> set (entries m)"
  by (simp add: find_entries entries_distinct)

lemma find_None_iff: "invar m \<Longrightarrow> find m k = None \<longleftrightarrow> k \<notin> fst ` set (entries m)"
  by (simp add: find_entries map_of_eq_None_iff)

end

lemma om_put_keys: "fst ` set (om_put k v m) = insert k (fst ` set m)"
  by (induction m) auto

lemma om_inv_Nil [simp]: "om_inv []"
  by (simp add: om_inv_def)

lemma om_inv_Cons: "om_inv (e # m) \<longleftrightarrow> (\<forall>x \<in> set m. fst e < fst x) \<and> om_inv m"
  by (auto simp: om_inv_def)

lemma om_inv_put: "om_inv m \<Longrightarrow> om_inv (om_put k v m)"
proof (induction m)
  case Nil
  then show ?case by (simp add: om_inv_def)
next
  case (Cons e m)
  have keys: "x \<in> set (om_put k v m) \<Longrightarrow> fst x = k \<or> fst x \<in> fst ` set m" for x
    using om_put_keys [of k v m] by (auto simp: image_iff)
  show ?case
  proof (cases "fst e < k")
    case True
    have "fst e < fst x" if "x \<in> set (om_put k v m)" for x
      using keys [OF that] True Cons.prems by (auto simp: om_inv_Cons)
    with True Cons show ?thesis
      by (auto simp: om_inv_Cons)
  next
    case False
    with Cons.prems show ?thesis
      by (cases "k < fst e") (force simp: om_inv_Cons)+
  qed
qed

lemma om_inv_filter: "om_inv m \<Longrightarrow> om_inv (filter P m)"
  by (induction m) (auto simp: om_inv_Cons)

lemma om_inv_erase: "om_inv m \<Longrightarrow> om_inv (om_erase k m)"
  by (simp add: om_erase_def om_inv_filter)

lemma om_inv_map_value: "om_inv (map (\<lambda>e. (fst e, f e)) m) = om_inv m"
  by (simp add: om_inv_def comp_def)

lemma om_find_put: "om_inv m \<Longrightarrow> map_of (om_put k v m) k' = (if k' = k then Some v else map_of m k')"
proof (induction m)
  case Nil
  then show ?case by simp
next
  case (Cons e m)
  then show ?case by (cases e) (auto simp: om_inv_Cons)
qed

lemma om_find_erase: "map_of (om_erase k m) k' = (if k' = k then None else map_of m k')"
  by (induction m) (auto simp: om_erase_def)

interpretation omap: ordered_std_map "[]" map_of om_put om_erase om_inv "\<lambda>m. m"
  by unfold_locales
    (simp_all add: om_inv_put om_inv_erase om_find_put om_find_erase, simp add: om_inv_def)

lemmas om_rules [omap_simps] =
  omap.find_put omap.find_erase omap.find_empty

lemma om_put_length:
  "om_inv m \<Longrightarrow> length (om_put k v m) = (if map_of m k = None then Suc (length m) else length m)"
proof (induction m)
  case Nil
  then show ?case by simp
next
  case (Cons e m)
  have "k < fst e \<Longrightarrow> map_of m k = None"
    using Cons.prems by (force simp: om_inv_Cons map_of_eq_None_iff)
  with Cons show ?case by (cases e) (auto simp: om_inv_Cons)
qed

lemma om_ext:
  assumes a: "om_inv a" and b: "om_inv b" and eq: "map_of a = map_of b"
  shows "a = b"
proof -
  have set: "set a = set b"
    using omap.find_iff_entry [OF a] omap.find_iff_entry [OF b] eq by auto
  have "inj_on fst (set a \<union> set b)"
    using omap.entries_distinct [OF a] by (simp add: set distinct_map)
  then show ?thesis
    by (rule map_sorted_distinct_set_unique)
      (use a b set in \<open>simp_all add: om_inv_def strict_sorted_iff\<close>)
qed

lemma om_erase_length: "length (om_erase k m) \<le> length m"
  by (simp add: om_erase_def)

section \<open>Sorting and removing duplicates\<close>

text \<open>\<^verbatim>\<open>std::sort(v); v.erase(std::unique(v), v.end())\<close>.\<close>

definition sort_unique :: "'a::linorder list \<Rightarrow> 'a list" where
  "sort_unique xs = remdups_adj (sort xs)"

lemma set_sort_unique [simp]: "set (sort_unique xs) = set xs"
  by (simp add: sort_unique_def)

lemma sorted_sort_unique: "sorted_wrt (<) (sort_unique xs)"
proof -
  have "sorted ys \<Longrightarrow> distinct (remdups_adj ys)" for ys :: "'a list"
    by (induction ys rule: remdups_adj.induct) auto
  then show ?thesis
    by (simp add: sort_unique_def strict_sorted_iff sorted_remdups_adj)
qed

lemma distinct_sort_unique [simp]: "distinct (sort_unique xs)"
  using sorted_sort_unique strict_sorted_iff by blast

lemma sort_unique_Nil [simp]: "sort_unique [] = []"
  by (simp add: sort_unique_def)

lemma sort_unique_eq_Nil [simp]: "sort_unique xs = [] \<longleftrightarrow> xs = []"
  by (metis set_empty set_sort_unique)

section \<open>Little-endian layout\<close>

text \<open>
  Every format of the sources writes an integer byte by byte, least significant first,
  \<^verbatim>\<open>(value >> shift) & 0xFF\<close> for \<open>shift = 0, 8, ...\<close>, and reads it back by or-ing each byte at
  its shift.
\<close>

definition put_le :: "nat \<Rightarrow> 'a::len word \<Rightarrow> bytes" where
  "put_le n v = map (\<lambda>i. ucast (drop_bit (8 * i) v)) [0..<n]"

definition get_le :: "bytes \<Rightarrow> 'a::len word" where
  "get_le bs = foldl (\<lambda>acc (i, b). acc OR push_bit (8 * i) (ucast b)) 0 (enumerate 0 bs)"

lemma length_put_le [simp]: "length (put_le n v) = n"
  by (simp add: put_le_def)

lemma bit_or_bytes:
  "bit (foldl (\<lambda>acc (i, b). acc OR push_bit (8 * i) (ucast (b :: u8))) (a :: 'a::len word)
      (enumerate k bs)) n \<longleftrightarrow>
   bit a n \<or> (n < LENGTH('a) \<and> k \<le> n div 8 \<and> n div 8 < k + length bs \<and>
     bit (bs ! (n div 8 - k)) (n mod 8))"
proof (induction bs arbitrary: a k)
  case Nil
  then show ?case by auto
next
  case (Cons b bs)
  have head: "bit (push_bit (8 * k) (ucast b) :: 'a word) n \<longleftrightarrow>
      n < LENGTH('a) \<and> n div 8 = k \<and> bit b (n mod 8)"
  proof (cases "n div 8 = k")
    case True
    then have "8 * k \<le> n" and "n - 8 * k = n mod 8" by (auto simp: minus_div_mult_eq_mod [symmetric])
    with True show ?thesis by (auto simp: bit_simps)
  next
    case False
    then have "\<not> (8 * k \<le> n \<and> n - 8 * k < 8)" by auto
    with False show ?thesis by (auto simp: bit_simps dest: bit_imp_le_length)
  qed
  have tail: "bit ((b # bs) ! (n div 8 - k)) (n mod 8) \<longleftrightarrow>
      (if n div 8 = k then bit b (n mod 8) else bit (bs ! (n div 8 - Suc k)) (n mod 8))"
    if "k \<le> n div 8"
    using that by (auto simp: nth_Cons' )
  show ?case
  proof (cases "k \<le> n div 8")
    case True
    with head tail show ?thesis
      by (cases "n div 8 = k") (auto simp: Cons.IH bit_or_iff)
  next
    case False
    with head show ?thesis by (auto simp: Cons.IH bit_or_iff)
  qed
qed

lemma bit_get_le:
  "bit (get_le bs :: 'a::len word) n \<longleftrightarrow>
     n < LENGTH('a) \<and> n div 8 < length bs \<and> bit (bs ! (n div 8)) (n mod 8)"
  by (simp add: get_le_def bit_or_bytes)

lemma get_put_le: "get_le (put_le n v) = take_bit (8 * n) (v :: 'a::len word)"
proof (rule bit_eqI)
  fix k :: nat
  have "8 * (k div 8) + k mod 8 = k" by simp
  then show "bit (get_le (put_le n v) :: 'a word) k \<longleftrightarrow> bit (take_bit (8 * n) v) k"
    by (auto simp: bit_get_le put_le_def bit_simps ac_simps dest: bit_imp_le_length)
qed

lemma get_put_le_8 [simp]: "get_le (put_le 8 v) = (v :: u64)"
  by (simp add: get_put_le take_bit_word_eq_self)

lemma get_put_le_4 [simp]: "get_le (put_le 4 v) = (v :: u32)"
  by (simp add: get_put_le take_bit_word_eq_self)

lemma get_put_le_2 [simp]: "get_le (put_le 2 v) = (v :: u16)"
  by (simp add: get_put_le take_bit_word_eq_self)

lemma get_put_le_1 [simp]: "get_le (put_le 1 v) = (v :: u8)"
  by (simp add: get_put_le take_bit_word_eq_self)

lemma put_le_Suc_0: "put_le (Suc 0) (v :: u8) = [v]"
  by (simp add: put_le_def)

end
