(* ===== verification/NCF_Core.thy ===== *)
theory NCF_Core
  imports NCF_Prelude
begin

text \<open>
  The core layer, \<^verbatim>\<open>src/include/ncf/core\<close> and \<^verbatim>\<open>src/src/core\<close>: error codes and \<^verbatim>\<open>Result\<close>, the hard
  limits, checked and saturating arithmetic, logical ticks, the CRC-32C and FNV-1a digests, and
  the textual form of strong identities.

  An \<^verbatim>\<open>enum class E : std::uintN_t\<close> has a fixed underlying type, so every \<^verbatim>\<open>uintN_t\<close> is a value
  of it and a \<^verbatim>\<open>static_cast\<close> from the wire may produce one that is no enumerator. Such an enum is a
  one-constructor datatype around the underlying integer, its enumerators are abbreviations, and
  its order is the order of the integers.

  A \<^verbatim>\<open>Result<T>\<close> is \<open>Inl\<close> of the error code or \<open>Inr\<close> of the value. The message and the detail text
  of a \<^verbatim>\<open>Status\<close> are not kept: \<^verbatim>\<open>result.hpp\<close> says callers branch on the code, never on the text.
\<close>

unbundle bit_operations_syntax

section \<open>Error codes and results\<close>

datatype ErrCode = ErrCode (err_u16: u16)

abbreviation Err_Ok :: ErrCode where "Err_Ok \<equiv> ErrCode 0"
abbreviation Err_InvalidArgument :: ErrCode where "Err_InvalidArgument \<equiv> ErrCode 1"
abbreviation Err_OutOfRange :: ErrCode where "Err_OutOfRange \<equiv> ErrCode 2"
abbreviation Err_NotFound :: ErrCode where "Err_NotFound \<equiv> ErrCode 3"
abbreviation Err_AlreadyExists :: ErrCode where "Err_AlreadyExists \<equiv> ErrCode 4"
abbreviation Err_Stale :: ErrCode where "Err_Stale \<equiv> ErrCode 5"
abbreviation Err_Unauthorized :: ErrCode where "Err_Unauthorized \<equiv> ErrCode 6"
abbreviation Err_Conflict :: ErrCode where "Err_Conflict \<equiv> ErrCode 7"
abbreviation Err_Contradictory :: ErrCode where "Err_Contradictory \<equiv> ErrCode 8"
abbreviation Err_Malformed :: ErrCode where "Err_Malformed \<equiv> ErrCode 9"
abbreviation Err_Truncated :: ErrCode where "Err_Truncated \<equiv> ErrCode 10"
abbreviation Err_Corrupt :: ErrCode where "Err_Corrupt \<equiv> ErrCode 11"
abbreviation Err_Oversized :: ErrCode where "Err_Oversized \<equiv> ErrCode 12"
abbreviation Err_LimitExceeded :: ErrCode where "Err_LimitExceeded \<equiv> ErrCode 13"
abbreviation Err_Cancelled :: ErrCode where "Err_Cancelled \<equiv> ErrCode 14"
abbreviation Err_Unavailable :: ErrCode where "Err_Unavailable \<equiv> ErrCode 15"
abbreviation Err_NotReady :: ErrCode where "Err_NotReady \<equiv> ErrCode 16"
abbreviation Err_Closed :: ErrCode where "Err_Closed \<equiv> ErrCode 17"
abbreviation Err_Internal :: ErrCode where "Err_Internal \<equiv> ErrCode 18"
abbreviation Err_EpochMismatch :: ErrCode where "Err_EpochMismatch \<equiv> ErrCode 19"
abbreviation Err_GenerationMismatch :: ErrCode where "Err_GenerationMismatch \<equiv> ErrCode 20"
abbreviation Err_BootMismatch :: ErrCode where "Err_BootMismatch \<equiv> ErrCode 21"
abbreviation Err_AttemptMismatch :: ErrCode where "Err_AttemptMismatch \<equiv> ErrCode 22"
abbreviation Err_Fenced :: ErrCode where "Err_Fenced \<equiv> ErrCode 23"
abbreviation Err_Duplicate :: ErrCode where "Err_Duplicate \<equiv> ErrCode 24"
abbreviation Err_Unsupported :: ErrCode where "Err_Unsupported \<equiv> ErrCode 25"
abbreviation Err_IoError :: ErrCode where "Err_IoError \<equiv> ErrCode 26"
abbreviation Err_IntegrityFailure :: ErrCode where "Err_IntegrityFailure \<equiv> ErrCode 27"
abbreviation Err_PolicyRejected :: ErrCode where "Err_PolicyRejected \<equiv> ErrCode 28"

type_synonym 'a result = "ErrCode + 'a"
type_synonym void_result = "unit result"

section \<open>Hard limits\<close>

definition kMaxU64 :: u64 where [ncf_defs]: "kMaxU64 = 0xFFFFFFFFFFFFFFFF"
definition kMaxDomains :: nat where [ncf_defs]: "kMaxDomains = 65536"
definition kMaxResourcesPerFabric :: nat where [ncf_defs]: "kMaxResourcesPerFabric = 4194304"
definition kMaxResourcesPerDomain :: nat where [ncf_defs]: "kMaxResourcesPerDomain = 1048576"
definition kMaxResourceDepth :: nat where [ncf_defs]: "kMaxResourceDepth = 64"
definition kMaxLinksPerTopology :: nat where [ncf_defs]: "kMaxLinksPerTopology = 4194304"
definition kMaxPathsPerTopology :: nat where [ncf_defs]: "kMaxPathsPerTopology = 1048576"
definition kMaxResourcesPerPath :: nat where [ncf_defs]: "kMaxResourcesPerPath = 4096"
definition kMaxMetricReadings :: nat where [ncf_defs]: "kMaxMetricReadings = 64"
definition kMaxEvidencePerBatch :: nat where [ncf_defs]: "kMaxEvidencePerBatch = 65536"
definition kMaxPublishers :: nat where [ncf_defs]: "kMaxPublishers = 4096"
definition kMaxContradictionPeers :: nat where [ncf_defs]: "kMaxContradictionPeers = 64"
definition kMaxThresholdRules :: nat where [ncf_defs]: "kMaxThresholdRules = 128"
definition kMaxInterventionRules :: nat where [ncf_defs]: "kMaxInterventionRules = 64"
definition kMaxHysteresisSamples :: u32 where [ncf_defs]: "kMaxHysteresisSamples = 1048576"
definition kMaxDwellTicks :: u64 where [ncf_defs]: "kMaxDwellTicks = 1099511627776"
definition kMaxExplanationEntries :: nat where [ncf_defs]: "kMaxExplanationEntries = 4096"
definition kMaxPropagationEdges :: nat where [ncf_defs]: "kMaxPropagationEdges = 1048576"
definition kMaxInterventionsPerPlan :: nat where [ncf_defs]: "kMaxInterventionsPerPlan = 1024"
definition kMaxInterventionHistory :: nat where [ncf_defs]: "kMaxInterventionHistory = 65536"
definition kMaxFramePayload :: nat where [ncf_defs]: "kMaxFramePayload = 1048576"
definition kMaxSequenceGap :: u64 where [ncf_defs]: "kMaxSequenceGap = 1048576"
definition kReplayWindow :: nat where [ncf_defs]: "kReplayWindow = 4096"
definition kMaxJournalRecordBytes :: u64 where [ncf_defs]: "kMaxJournalRecordBytes = 4194304"
definition kMaxJournalBytes :: u64 where [ncf_defs]: "kMaxJournalBytes = 17179869184"
definition kMaxSnapshotBytes :: u64 where [ncf_defs]: "kMaxSnapshotBytes = 2147483648"
definition kMaxDurableHistoryEntries :: u64 where [ncf_defs]: "kMaxDurableHistoryEntries = 16777216"

section \<open>Checked and saturating arithmetic\<close>

definition checked_add :: "u64 \<Rightarrow> u64 \<Rightarrow> u64 result" where
  "checked_add a b = (if a > kMaxU64 - b then Inl Err_OutOfRange else Inr (a + b))"

definition checked_sub :: "u64 \<Rightarrow> u64 \<Rightarrow> u64 result" where
  "checked_sub a b = (if b > a then Inl Err_OutOfRange else Inr (a - b))"

definition checked_mul :: "u64 \<Rightarrow> u64 \<Rightarrow> u64 result" where
  "checked_mul a b = (if a \<noteq> 0 \<and> b > kMaxU64 div a then Inl Err_OutOfRange else Inr (a * b))"

definition checked_div :: "u64 \<Rightarrow> u64 \<Rightarrow> u64 result" where
  "checked_div a b = (if b = 0 then Inl Err_InvalidArgument else Inr (a div b))"

text \<open>The signed overloads; \<^verbatim>\<open>std::int64_t\<close> is a word read with \<^const>\<open>sint\<close>.\<close>

definition kLo64 :: int where [ncf_defs]: "kLo64 = - 9223372036854775808"
definition kHi64 :: int where [ncf_defs]: "kHi64 = 9223372036854775807"

definition checked_add_i64 :: "u64 \<Rightarrow> u64 \<Rightarrow> u64 result" where
  "checked_add_i64 a b =
     (if sint b > 0 \<and> sint a > kHi64 - sint b then Inl Err_OutOfRange
      else if sint b < 0 \<and> sint a < kLo64 - sint b then Inl Err_OutOfRange
      else Inr (a + b))"

definition checked_sub_i64 :: "u64 \<Rightarrow> u64 \<Rightarrow> u64 result" where
  "checked_sub_i64 a b =
     (if sint b < 0 \<and> sint a > kHi64 + sint b then Inl Err_OutOfRange
      else if sint b > 0 \<and> sint a < kLo64 + sint b then Inl Err_OutOfRange
      else Inr (a - b))"

definition saturating_add :: "u64 \<Rightarrow> u64 \<Rightarrow> u64" where
  "saturating_add a b = (if a > kMaxU64 - b then kMaxU64 else a + b)"

definition saturating_sub :: "u64 \<Rightarrow> u64 \<Rightarrow> u64" where
  "saturating_sub a b = (if b > a then 0 else a - b)"

definition saturating_mul :: "u64 \<Rightarrow> u64 \<Rightarrow> u64" where
  "saturating_mul a b =
     (if a = 0 \<or> b = 0 then 0 else if a > kMaxU64 div b then kMaxU64 else a * b)"

definition clamp_u64 :: "u64 \<Rightarrow> u64 \<Rightarrow> u64 \<Rightarrow> u64" where
  "clamp_u64 v lo hi = (if v < lo then lo else if v > hi then hi else v)"

definition narrow_u32 :: "u64 \<Rightarrow> u32 result" where
  "narrow_u32 v = (if v > ucast (0xFFFFFFFF :: u32) then Inl Err_OutOfRange else Inr (ucast v))"

definition require_range :: "u64 \<Rightarrow> u64 \<Rightarrow> u64 \<Rightarrow> void_result" where
  "require_range v lo hi = (if v < lo \<or> v > hi then Inl Err_LimitExceeded else Inr ())"

definition apply_ppm :: "u64 \<Rightarrow> u32 \<Rightarrow> u64" where
  "apply_ppm magnitude ppm =
     (let whole = magnitude div 1000000; rem = magnitude mod 1000000
      in saturating_add (saturating_mul whole (ucast ppm)) (rem * ucast ppm div 1000000))"

section \<open>Logical time\<close>

type_synonym Tick = u64

definition kNoTick :: Tick where [ncf_defs]: "kNoTick = 0"

record TickAge =
  ta_age :: Tick
  ta_from_future :: bool

definition ta_within :: "TickAge \<Rightarrow> Tick \<Rightarrow> bool" where
  "ta_within a max_age \<longleftrightarrow> \<not> ta_from_future a \<and> ta_age a \<le> max_age"

definition ta_is_stale :: "TickAge \<Rightarrow> Tick \<Rightarrow> bool" where
  "ta_is_stale a max_age \<longleftrightarrow> ta_from_future a \<or> ta_age a > max_age"

definition tick_age :: "Tick \<Rightarrow> Tick \<Rightarrow> TickAge" where
  "tick_age now observed =
     (if observed > now then \<lparr>ta_age = observed - now, ta_from_future = True\<rparr>
      else \<lparr>ta_age = now - observed, ta_from_future = False\<rparr>)"

definition tick_newer :: "Tick \<Rightarrow> Tick \<Rightarrow> bool" where
  "tick_newer observed reference \<longleftrightarrow> observed > reference"

text \<open>\<^verbatim>\<open>ManualClock\<close>: the deterministic tick source.\<close>

definition manual_clock_start :: "Tick \<Rightarrow> Tick" where
  "manual_clock_start start = (if start = kNoTick then 1 else start)"

definition manual_clock_advance :: "Tick \<Rightarrow> Tick \<Rightarrow> Tick" where
  "manual_clock_advance now delta = saturating_add now delta"

definition manual_clock_set :: "Tick \<Rightarrow> Tick" where
  "manual_clock_set v = (if v = kNoTick then 1 else v)"

section \<open>Digests\<close>

subsection \<open>CRC-32C\<close>

fun crc32c_bits :: "nat \<Rightarrow> u32 \<Rightarrow> u32" where
  "crc32c_bits 0 c = c"
| "crc32c_bits (Suc n) c =
     crc32c_bits n (if c AND 1 \<noteq> 0 then 0x82F63B78 XOR drop_bit 1 c else drop_bit 1 c)"

definition crc32c_entry :: "u32 \<Rightarrow> u32" where
  "crc32c_entry index = crc32c_bits 8 index"

definition kCrc32cTable :: "u32 list" where
  "kCrc32cTable = map (\<lambda>i. crc32c_entry (word_of_nat i)) [0..<256]"

definition crc32c_step :: "u32 \<Rightarrow> u8 \<Rightarrow> u32" where
  "crc32c_step crc b =
     (let index = (crc XOR ucast b) AND 0xFF in kCrc32cTable ! unat index XOR drop_bit 8 crc)"

definition crc32c_continue :: "u32 \<Rightarrow> bytes \<Rightarrow> u32" where
  "crc32c_continue seed data = NOT (foldl crc32c_step (NOT seed) data)"

definition crc32c :: "bytes \<Rightarrow> u32" where
  "crc32c data = crc32c_continue 0 data"

subsection \<open>FNV-1a\<close>

type_synonym Hash64 = u64

definition kFnvOffset :: u64 where "kFnvOffset = 0xCBF29CE484222325"
definition kFnvPrime :: u64 where "kFnvPrime = 0x100000001B3"

definition hash_u8 :: "u8 \<Rightarrow> u64 \<Rightarrow> u64" where
  "hash_u8 v state = (state XOR ucast v) * kFnvPrime"

definition hash_update :: "bytes \<Rightarrow> u64 \<Rightarrow> u64" where
  "hash_update data state = fold hash_u8 data state"

definition hash_u16 :: "u16 \<Rightarrow> u64 \<Rightarrow> u64" where
  "hash_u16 v state = hash_u8 (ucast (drop_bit 8 v)) (hash_u8 (ucast v) state)"

definition hash_u32 :: "u32 \<Rightarrow> u64 \<Rightarrow> u64" where
  "hash_u32 v state = hash_update (put_le 4 v) state"

definition hash_u64 :: "u64 \<Rightarrow> u64 \<Rightarrow> u64" where
  "hash_u64 v state = hash_update (put_le 8 v) state"

definition hash_bool :: "bool \<Rightarrow> u64 \<Rightarrow> u64" where
  "hash_bool v state = hash_u8 (if v then 1 else 0) state"

definition char_byte :: "char \<Rightarrow> u8" where
  "char_byte c = of_char c"

definition hash_text :: "string \<Rightarrow> u64 \<Rightarrow> u64" where
  "hash_text text state = hash_update (map char_byte text) state"

definition hash_text_framed :: "string \<Rightarrow> u64 \<Rightarrow> u64" where
  "hash_text_framed text state = hash_text text (hash_u64 (of_nat (length text)) state)"

definition hash_finish :: "u64 \<Rightarrow> Hash64" where
  "hash_finish state0 =
     (let state1 = (state0 XOR 0xA5A5A5A5A5A5A5A5) * kFnvPrime;
          state2 = (state1 XOR drop_bit 29 state1) * 0xBF58476D1CE4E5B9;
          state3 = state2 XOR drop_bit 32 state2
      in if state3 = 0 then kFnvOffset else state3)"

section \<open>Strong identities as text\<close>

definition id_valid :: "u64 \<Rightarrow> bool" where
  "id_valid i \<longleftrightarrow> i \<noteq> 0"

definition kDigits :: string where
  "kDigits = ''0123456789abcdef''"

text \<open>
  The digits are collected least significant first and then reversed; a 64-bit value has at most
  sixteen of them, so the loop counter of the sources is the fuel here.
\<close>

fun hex_digits_rev :: "nat \<Rightarrow> u64 \<Rightarrow> string" where
  "hex_digits_rev 0 v = []"
| "hex_digits_rev (Suc n) v =
     (if v = 0 then [] else kDigits ! unat (v AND 0xF) # hex_digits_rev n (drop_bit 4 v))"

definition to_hex :: "u64 \<Rightarrow> string" where
  "to_hex v = (if v = 0 then ''0'' else rev (hex_digits_rev 16 v))"

definition id_to_string :: "string \<Rightarrow> u64 \<Rightarrow> string" where
  "id_to_string tag i = tag @ '':'' @ to_hex i"

definition hex_digit_value :: "char \<Rightarrow> u32 option" where
  "hex_digit_value c =
     (let n = of_char c :: nat in
      if 48 \<le> n \<and> n \<le> 57 then Some (of_nat (n - 48))
      else if 97 \<le> n \<and> n \<le> 102 then Some (of_nat (n - 97) + 10)
      else if 65 \<le> n \<and> n \<le> 70 then Some (of_nat (n - 65) + 10)
      else None)"

fun hex_value :: "string \<Rightarrow> u64 \<Rightarrow> u64 option" where
  "hex_value [] acc = Some acc"
| "hex_value (c # cs) acc =
     (case hex_digit_value c of
        None \<Rightarrow> None
      | Some d \<Rightarrow> hex_value cs (push_bit 4 acc OR ucast d))"

definition strip_tag :: "string \<Rightarrow> string \<Rightarrow> string" where
  "strip_tag name view =
     (if length view > length name + 1 \<and> take (length name) view = name \<and>
         view ! length name = CHR '':''
      then drop (length name + 1) view else view)"

definition strip_0x :: "string \<Rightarrow> string" where
  "strip_0x view =
     (if length view > 2 \<and> view ! 0 = CHR ''0'' \<and> (view ! 1 = CHR ''x'' \<or> view ! 1 = CHR ''X'')
      then drop 2 view else view)"

text \<open>\<^verbatim>\<open>parse_id\<close> at the 64-bit representation every identity of the model has.\<close>

definition parse_id :: "string \<Rightarrow> string \<Rightarrow> u64 option" where
  "parse_id name text =
     (let view = strip_0x (strip_tag name text) in
      if view = [] \<or> length view > 16 then None else hex_value view 0)"

section \<open>Correctness of the arithmetic helpers\<close>

lemma checked_add_exact:
  "checked_add a b = (if unat a + unat b < 2 ^ 64 then Inr (a + b) else Inl Err_OutOfRange)"
proof -
  have "unat (kMaxU64 - b) = 18446744073709551615 - unat b"
    unfolding kMaxU64_def by (subst unat_sub_le) (use u64_le_max in auto)
  then have "a > kMaxU64 - b \<longleftrightarrow> \<not> unat a + unat b < 2 ^ 64"
    using unat_64_less [of b] unfolding word_less_nat_alt by simp arith
  then show ?thesis by (simp add: checked_add_def)
qed

lemma checked_mul_exact:
  "checked_mul a b = (if unat a * unat b < 2 ^ 64 then Inr (a * b) else Inl Err_OutOfRange)"
proof -
  have "a \<noteq> 0 \<and> b > kMaxU64 div a \<longleftrightarrow> \<not> unat a * unat b < 2 ^ 64"
  proof (cases "a = 0")
    case True
    then show ?thesis by simp
  next
    case False
    then have pos: "0 < unat a" by (simp add: unat_gt_0)
    have "b > kMaxU64 div a \<longleftrightarrow> 18446744073709551615 div unat a < unat b"
      by (simp add: word_less_nat_alt unat_div kMaxU64_def)
    also have "\<dots> \<longleftrightarrow> 18446744073709551615 < unat b * unat a"
      using div_less_iff_less_mult [OF pos] .
    finally show ?thesis using False by (auto simp: mult.commute)
  qed
  then show ?thesis by (simp add: checked_mul_def)
qed

lemma checked_sub_exact:
  "checked_sub a b = (if unat b \<le> unat a then Inr (a - b) else Inl Err_OutOfRange)"
  by (simp add: checked_sub_def word_less_nat_alt linorder_not_le)

lemma saturating_add_exact:
  "unat (saturating_add a b) = min (unat a + unat b) (2 ^ 64 - 1)"
proof (cases "a > kMaxU64 - b")
  case True
  then have "\<not> unat a + unat b < 2 ^ 64"
    using checked_add_exact [of a b] by (auto simp: checked_add_def split: if_splits)
  with True show ?thesis by (simp add: saturating_add_def kMaxU64_def)
next
  case False
  then have "unat a + unat b < 2 ^ 64"
    using checked_add_exact [of a b] by (auto simp: checked_add_def split: if_splits)
  moreover from this have "unat (a + b) = unat a + unat b" by (rule unat_add_no_overflow)
  ultimately show ?thesis using False by (simp add: saturating_add_def)
qed

lemma saturating_mul_exact:
  "unat (saturating_mul a b) = min (unat a * unat b) (2 ^ 64 - 1)"
proof (cases "a = 0 \<or> b = 0")
  case True
  then show ?thesis by (auto simp: saturating_mul_def)
next
  case False
  have eq: "a > kMaxU64 div b \<longleftrightarrow> \<not> unat a * unat b < 2 ^ 64"
    using checked_mul_exact [of b a] False
    by (auto simp: checked_mul_def mult.commute split: if_splits)
  show ?thesis
  proof (cases "unat a * unat b < 2 ^ 64")
    case True
    then have "unat (a * b) = unat a * unat b" by (rule unat_mult_no_overflow)
    with True False eq show ?thesis by (simp add: saturating_mul_def)
  next
    case False
    with eq \<open>\<not> (a = 0 \<or> b = 0)\<close> show ?thesis by (simp add: saturating_mul_def kMaxU64_def)
  qed
qed

lemma saturating_sub_exact: "unat (saturating_sub a b) = unat a - unat b"
  by (simp add: saturating_sub_def word_less_nat_alt unat_sub_le word_le_nat_alt)

lemma saturating_add_ge: "a \<le> saturating_add a b"
  using unat_64_less [of a] by (simp add: word_le_nat_alt saturating_add_exact)

lemma unat_ucast_32_64 [simp]: "unat (ucast (x :: u32) :: u64) = unat x"
  by (rule unsigned_ucast_eq [THEN trans], rule take_bit_nat_eq_self)
    (rule order.strict_trans2 [OF unsigned_less], simp)

text \<open>C37: \<^verbatim>\<open>apply_ppm\<close> scales a magnitude by a parts-per-million ratio exactly: the result is the floor of
  the unbounded product divided by a million, saturated at the largest 64-bit value. Splitting the
  magnitude loses no precision and no intermediate product wraps.\<close>

theorem apply_ppm_exact:
  "unat (apply_ppm magnitude ppm) = min (unat magnitude * unat ppm div 1000000) (2 ^ 64 - 1)"
proof -
  define m p where "m = unat magnitude" and "p = unat ppm"
  have p: "p < 4294967296"
    using unsigned_less [of ppm, where 'a = nat] by (simp add: p_def)
  have "m mod 1000000 * p \<le> 1000000 * 4294967296"
    using p by (intro mult_le_mono) simp_all
  then have small: "unat (magnitude mod 1000000) * unat (ucast ppm :: u64) < 2 ^ 64"
    by (simp add: unat_mod m_def p_def)
  have rem: "unat (magnitude mod 1000000 * ucast ppm) = m mod 1000000 * p"
    by (simp only: unat_mult_no_overflow [OF small]) (simp add: unat_mod m_def p_def)
  have "m * p = (m div 1000000 * 1000000 + m mod 1000000) * p"
    by simp
  also have "\<dots> = m mod 1000000 * p + (m div 1000000 * p) * 1000000"
    by (simp only: add_mult_distrib add_mult_distrib2 mult_ac add_ac)
  finally have "m * p div 1000000 = m div 1000000 * p + m mod 1000000 * p div 1000000"
    by simp
  then show ?thesis
    by (simp add: apply_ppm_def Let_def saturating_add_exact saturating_mul_exact unat_div rem
        m_def [symmetric] p_def [symmetric]) arith
qed

section \<open>Correctness of the checksum\<close>

text \<open>
  The table-driven step equals eight steps of the bit-serial register, which is linear and
  injective; so the checksum of a longer prefix determines the register state.
\<close>

lemma bit_u32_imp_less: "bit (w :: u32) k \<Longrightarrow> k < 32"
  using bit_imp_le_length [of w k] by simp

abbreviation crc32c_shift :: "u32 \<Rightarrow> u32" where
  "crc32c_shift c \<equiv> (if c AND 1 \<noteq> 0 then 0x82F63B78 XOR drop_bit 1 c else drop_bit 1 c)"

lemma and_1_eq_0_iff: "(c :: u32) AND 1 = 0 \<longleftrightarrow> even c"
  by (simp add: and_one_eq mod_2_eq_odd)

lemma even_xor_u32: "even ((x :: u32) XOR y) \<longleftrightarrow> (even x \<longleftrightarrow> even y)"
  using bit_xor_iff [of x y 0] by (auto simp: bit_0)

lemma crc32c_shift_xor: "crc32c_shift (x XOR y) = crc32c_shift x XOR crc32c_shift y"
  by (cases "even x"; cases "even y") (simp_all add: and_1_eq_0_iff even_xor_u32 xor.assoc xor.commute xor.left_commute)

lemma crc32c_bits_xor: "crc32c_bits n (x XOR y) = crc32c_bits n x XOR crc32c_bits n y"
  by (induction n arbitrary: x y) (simp_all only: crc32c_bits.simps crc32c_shift_xor)

lemma crc32c_bits_add: "crc32c_bits (m + n) c = crc32c_bits n (crc32c_bits m c)"
  by (induction m arbitrary: c) simp_all

lemma crc32c_bits_high:
  "take_bit n c = 0 \<Longrightarrow> crc32c_bits n c = drop_bit n c"
proof (induction n arbitrary: c)
  case 0
  then show ?case by simp
next
  case (Suc n)
  have "\<not> bit c 0" using Suc.prems by (metis bit_take_bit_iff bit_0_eq zero_less_Suc bot_apply bot_bool_def)
  then have even: "c AND 1 = 0" by (simp add: and_1_eq_0_iff bit_0)
  have "take_bit n (drop_bit 1 c) = 0"
    using Suc.prems by (metis drop_bit_of_0 drop_bit_take_bit diff_Suc_1 One_nat_def)
  from Suc.IH [OF this] even show ?case by simp
qed

lemma crc32c_bits_inj: "crc32c_bits n x = crc32c_bits n y \<Longrightarrow> x = y"
proof (induction n arbitrary: x y)
  case 0
  then show ?case by simp
next
  case (Suc n)
  have top: "bit (crc32c_shift c) 31 \<longleftrightarrow> odd c" for c
    by (auto simp: and_1_eq_0_iff bit_simps dest: bit_u32_imp_less)
  have rest: "drop_bit 1 c = (if odd c then 0x82F63B78 XOR crc32c_shift c else crc32c_shift c)" for c
    by (simp add: and_1_eq_0_iff xor.assoc [symmetric])
  have eq: "crc32c_shift x = crc32c_shift y"
    by (rule Suc.IH) (use Suc.prems in \<open>simp only: crc32c_bits.simps\<close>)
  with top [of x] top [of y] have "odd x = odd y" by simp
  moreover from this rest [of x] rest [of y] have "drop_bit 1 x = drop_bit 1 y" by (simp only: eq)
  moreover have "take_bit 1 c = of_bool (odd c)" for c :: u32
    by (simp add: mod_2_eq_odd)
  ultimately have "push_bit 1 (drop_bit 1 x) + take_bit 1 x = push_bit 1 (drop_bit 1 y) + take_bit 1 y"
    by (simp only:)
  then show "x = y" by (simp only: bits_ident)
qed

lemma crc32c_step_bitwise: "crc32c_step crc b = crc32c_bits 8 (crc XOR ucast b)"
proof -
  define x where "x = crc XOR ucast b"
  have mask: "x AND 0xFF = take_bit 8 x" by (simp add: take_bit_eq_mask mask_eq_exp_minus_1)
  have low: "crc32c_entry (x AND 0xFF) = kCrc32cTable ! unat (x AND 0xFF)"
  proof -
    have "unat (x AND 0xFF) < 256"
      using take_bit_nat_less_exp [of 8 "unat x"] by (simp add: mask unsigned_take_bit_eq)
    then show ?thesis by (simp add: kCrc32cTable_def)
  qed
  have "drop_bit 8 x = drop_bit 8 crc"
    by (rule bit_word_eqI) (auto simp: x_def bit_simps dest: bit_imp_le_length)
  moreover have "x = (x AND 0xFF) XOR push_bit 8 (drop_bit 8 x)"
    unfolding mask by (rule bit_word_eqI) (auto simp: bit_simps)
  moreover have "crc32c_bits 8 (push_bit 8 (drop_bit 8 x)) = drop_bit 8 x"
    by (subst crc32c_bits_high)
      (auto intro!: bit_word_eqI simp: bit_simps, drule bit_u32_imp_less, simp)
  ultimately show ?thesis
    using low crc32c_bits_xor [of 8 "x AND 0xFF" "push_bit 8 (drop_bit 8 x)"]
    by (simp add: crc32c_step_def Let_def crc32c_entry_def x_def [symmetric])
qed

lemma crc32c_continue_append:
  "crc32c_continue seed (xs @ ys) = crc32c_continue (crc32c_continue seed xs) ys"
  by (simp add: crc32c_continue_def)

lemma xor_right_cancel_u32: "(x :: u32) XOR z = y XOR z \<Longrightarrow> x = y"
  by (metis xor.assoc xor_self_eq xor.right_neutral)

lemma crc32c_state_inj: "foldl crc32c_step s xs = foldl crc32c_step t xs \<Longrightarrow> s = t"
  by (induction xs rule: rev_induct)
    (auto simp: crc32c_step_bitwise dest!: crc32c_bits_inj xor_right_cancel_u32)

lemma crc32c_bits_byte_shift: "crc32c_bits (8 * k) (push_bit (8 * k) (ucast (b :: u8))) = ucast b"
  if "k \<le> 3"
proof -
  have "take_bit (8 * k) (push_bit (8 * k) (ucast b :: u32)) = 0"
    by (rule bit_word_eqI) (simp add: bit_simps)
  moreover have "drop_bit (8 * k) (push_bit (8 * k) (ucast b :: u32)) = ucast b"
    using that by (intro bit_word_eqI) (auto simp: bit_simps dest: bit_imp_le_length)
  ultimately show ?thesis by (simp add: crc32c_bits_high)
qed

text \<open>The bytes of a burst enter the register at consecutive byte positions.\<close>

lemma get_le_snoc:
  "(get_le (bs @ [b]) :: u32) = get_le bs XOR push_bit (8 * length bs) (ucast b)"
proof (rule bit_word_eqI)
  fix n :: nat
  assume n: "n < LENGTH(32)"
  consider "n div 8 < length bs" | "n div 8 = length bs" | "n div 8 > length bs" by linarith
  then show "bit (get_le (bs @ [b]) :: u32) n \<longleftrightarrow>
      bit (get_le bs XOR push_bit (8 * length bs) (ucast b) :: u32) n"
  proof cases
    case 1
    with n show ?thesis by (auto simp: bit_get_le bit_simps nth_append)
  next
    case 2
    then have "8 * length bs \<le> n" and "n - 8 * length bs = n mod 8"
      by (auto simp: minus_div_mult_eq_mod [symmetric])
    with n 2 show ?thesis by (auto simp: bit_get_le bit_simps nth_append)
  next
    case 3
    then have "\<not> n - 8 * length bs < 8" by auto
    with n 3 show ?thesis by (auto simp: bit_get_le bit_simps nth_append dest: bit_imp_le_length)
  qed
qed

lemma get_le_inj:
  assumes len: "length xs = length ys" "length xs \<le> 4"
    and eq: "(get_le xs :: u32) = get_le ys"
  shows "xs = ys"
proof (rule nth_equalityI [OF len(1)])
  fix i
  assume i: "i < length xs"
  show "xs ! i = ys ! i"
  proof (rule bit_word_eqI)
    fix n :: nat
    assume n: "n < LENGTH(8)"
    have "bit (get_le xs :: u32) (8 * i + n) \<longleftrightarrow> bit (get_le ys :: u32) (8 * i + n)"
      by (simp only: eq)
    with i n len show "bit (xs ! i) n \<longleftrightarrow> bit (ys ! i) n"
      by (simp add: bit_get_le)
  qed
qed

lemma crc32c_burst:
  "length bs \<le> 4 \<Longrightarrow> foldl crc32c_step s bs = crc32c_bits (8 * length bs) (s XOR get_le bs)"
proof (induction bs rule: rev_induct)
  case Nil
  then show ?case by (simp add: get_le_def)
next
  case (snoc b bs)
  then have byte: "crc32c_bits (8 * length bs) (push_bit (8 * length bs) (ucast b)) = ucast b"
    by (intro crc32c_bits_byte_shift) simp
  have "foldl crc32c_step s (bs @ [b]) =
      crc32c_bits 8 (crc32c_bits (8 * length bs) (s XOR get_le bs) XOR ucast b)"
    using snoc.IH snoc.prems crc32c_step_bitwise [of _ b] by simp
  also have "\<dots> = crc32c_bits 8 (crc32c_bits (8 * length bs) (s XOR get_le (bs @ [b])))"
    by (simp only: get_le_snoc crc32c_bits_xor byte xor.assoc)
  finally show ?case by (simp add: crc32c_bits_add [symmetric] add.commute)
qed

lemma crc32c_burst_inj:
  assumes len: "length xs = length ys" "length xs \<le> 4"
    and eq: "crc32c (pre @ xs @ post) = crc32c (pre @ ys @ post)"
  shows "xs = ys"
proof -
  define s where "s = foldl crc32c_step (NOT 0) pre"
  have "foldl crc32c_step (foldl crc32c_step s xs) post =
      foldl crc32c_step (foldl crc32c_step s ys) post"
    using eq by (simp add: crc32c_def crc32c_continue_def s_def)
  then have "foldl crc32c_step s xs = foldl crc32c_step s ys"
    by (rule crc32c_state_inj)
  then have "s XOR get_le xs = s XOR get_le ys"
    using len by (simp add: crc32c_burst) (rule crc32c_bits_inj)
  then have "(get_le xs :: u32) = get_le ys"
    by (metis xor.commute xor_right_cancel_u32)
  then show ?thesis by (rule get_le_inj [OF len])
qed

text \<open>C23: changing the bytes inside a window of at most four consecutive bytes, wherever it falls,
  always changes the CRC-32C: the checksum of every durable record and transport frame detects
  every error burst confined to such a window.\<close>

theorem crc32c_burst_detected:
  assumes "length xs = length ys" and "length xs \<le> 4" and "xs \<noteq> ys"
  shows "crc32c (pre @ xs @ post) \<noteq> crc32c (pre @ ys @ post)"
  using assms crc32c_burst_inj by blast

theorem crc32c_burst_detected_witness:
  "crc32c ([1] @ [2, 3] @ [4]) \<noteq> crc32c ([1] @ [2, 5] @ [4])"
  by (rule crc32c_burst_detected) simp_all

section \<open>Fingerprints are never the unset value\<close>

lemma hash_finish_nonzero: "hash_finish s \<noteq> 0"
  by (simp add: hash_finish_def Let_def kFnvOffset_def)

section \<open>Round trip of identities as text\<close>

text \<open>The sixteen digits, one by one.\<close>

lemma digit_cases:
  "n < (16::nat) \<Longrightarrow> n \<in> {0,1,2,3,4,5,6,7,8,9,10,11,12,13,14,15}"
  unfolding insert_iff empty_iff by arith

lemma digit_char_all:
  "\<forall>n \<in> {0,1,2,3,4,5,6,7,8,9,10,11,12,13,14,15 :: nat}.
     hex_digit_value (kDigits ! n) = Some (of_nat n) \<and> kDigits ! n \<noteq> CHR '':'' \<and>
     kDigits ! n \<noteq> CHR ''x'' \<and> kDigits ! n \<noteq> CHR ''X''"
  by (simp add: kDigits_def hex_digit_value_def Let_def)

lemma digit_char:
  assumes "n < 16"
  shows "hex_digit_value (kDigits ! n) = Some (of_nat n)" and "kDigits ! n \<noteq> CHR '':''"
    and "kDigits ! n \<noteq> CHR ''x''" and "kDigits ! n \<noteq> CHR ''X''"
  using bspec [OF digit_char_all digit_cases [OF assms]] by blast+

lemma u64_nibble: "v AND 0xF = take_bit 4 (v :: u64)" and unat_nibble: "unat (take_bit 4 (v :: u64)) < 16"
proof -
  show "v AND 0xF = take_bit 4 v" by (simp add: take_bit_eq_mask mask_eq_exp_minus_1)
  show "unat (take_bit 4 v) < 16"
    using take_bit_nat_less_exp [of 4 "unat v"] by (simp add: unsigned_take_bit_eq)
qed

lemma hex_digits_rev_chars: "c \<in> set (hex_digits_rev n v) \<Longrightarrow> \<exists>k < 16. c = kDigits ! k"
  by (induction n arbitrary: v) (auto simp: u64_nibble intro: unat_nibble split: if_splits)

lemma length_hex_digits_rev: "length (hex_digits_rev n v) \<le> n"
  by (induction n arbitrary: v) auto

lemma hex_value_append:
  "hex_value (xs @ ys) acc = (case hex_value xs acc of None \<Rightarrow> None | Some a \<Rightarrow> hex_value ys a)"
  by (induction xs arbitrary: acc) (auto split: option.splits)

lemma hex_value_digits:
  "drop_bit (4 * n) v = 0 \<Longrightarrow> hex_value (rev (hex_digits_rev n v)) 0 = Some v"
proof (induction n arbitrary: v)
  case 0
  then show ?case by simp
next
  case (Suc n)
  have "drop_bit (4 * n) (drop_bit 4 v) = 0"
    using Suc.prems by (simp add: add.commute)
  note IH = Suc.IH [OF this]
  have "push_bit 4 (drop_bit 4 v) OR take_bit 4 v = v"
    by (rule bit_word_eqI) (auto simp: bit_simps)
  moreover have "(ucast (ucast (take_bit 4 v) :: u32) :: u64) = take_bit 4 v"
    by (rule bit_word_eqI) (auto simp: bit_simps)
  ultimately show ?case
    by (simp add: hex_value_append IH u64_nibble digit_char(1) unat_nibble)
qed

lemma to_hex_value: "hex_value (to_hex v) 0 = Some v"
proof (cases "v = 0")
  case True
  have "hex_digit_value (CHR ''0'') = Some 0" by (simp add: hex_digit_value_def)
  with True show ?thesis by (simp add: to_hex_def)
next
  case False
  have "drop_bit (4 * 16) v = 0" by (rule bit_word_eqI) (auto simp: bit_simps dest: bit_imp_le_length)
  with False show ?thesis by (simp only: to_hex_def if_False hex_value_digits)
qed

lemma to_hex_chars: "c \<in> set (to_hex v) \<Longrightarrow> \<exists>k < 16. c = kDigits ! k"
proof (cases "v = 0")
  case True
  assume "c \<in> set (to_hex v)"
  with True have "c = kDigits ! 0" by (simp add: to_hex_def kDigits_def)
  then show ?thesis by (intro exI [of _ 0]) simp
qed (simp add: to_hex_def hex_digits_rev_chars)

lemma to_hex_length: "to_hex v \<noteq> []" "length (to_hex v) \<le> 16"
proof -
  show "to_hex v \<noteq> []" by (simp add: to_hex_def numeral_eq_Suc)
  show "length (to_hex v) \<le> 16" using length_hex_digits_rev [of 16 v] by (simp add: to_hex_def)
qed

lemma strip_0x_to_hex: "strip_0x (to_hex v) = to_hex v"
proof -
  have "to_hex v ! 1 \<noteq> CHR ''x'' \<and> to_hex v ! 1 \<noteq> CHR ''X''" if "length (to_hex v) > 2"
    using to_hex_chars [of "to_hex v ! 1" v] that by (auto simp: digit_char digit_char(2-4) [THEN not_sym])
  then show ?thesis by (auto simp: strip_0x_def)
qed

lemma strip_tag_to_hex: "strip_tag name (to_hex v) = to_hex v"
proof -
  have "to_hex v ! length name \<noteq> CHR '':''" if "length (to_hex v) > length name + 1"
    using to_hex_chars [of "to_hex v ! length name" v] that by (auto simp: digit_char digit_char(2-4) [THEN not_sym])
  then show ?thesis by (auto simp: strip_tag_def)
qed

lemma strip_tag_id_to_string: "strip_tag name (id_to_string name i) = to_hex i"
  using to_hex_length(1) [of i] by (simp add: strip_tag_def id_to_string_def)

text \<open>Every identity is recovered by \<^verbatim>\<open>parse_id\<close> from its canonical text \<^verbatim>\<open><tag>:<hex>\<close> and from
  the bare digits, whatever the tag is.\<close>

theorem parse_id_roundtrip:
  "parse_id name (id_to_string name i) = Some i \<and> parse_id name (to_hex i) = Some i"
  using to_hex_length [of i]
  by (simp add: parse_id_def Let_def strip_tag_id_to_string strip_tag_to_hex strip_0x_to_hex to_hex_value)

end
