(* ===== verification/NCF_Enums.thy ===== *)
theory NCF_Enums
  imports NCF_Core
begin

text \<open>
  The closed vocabularies of the model, \<^verbatim>\<open>include/ncf/model/enums.hpp\<close> and
  \<^verbatim>\<open>src/model/enums.cpp\<close>: severities, congestion states, metric kinds with their descriptor
  table, intervention kinds, suppression and fence reasons, capabilities, provenance kinds and
  attempt states, with their names and the parsers of those names.
\<close>

text \<open>An enumerator name: a table entry, or the fallback after a \<^verbatim>\<open>switch\<close> or a range check.\<close>

definition enum_name :: "string list \<Rightarrow> string \<Rightarrow> nat \<Rightarrow> string" where
  "enum_name names fallback i = (if i < length names then names ! i else fallback)"

text \<open>\<^verbatim>\<open>lookup\<close>: the first table entry with the given name.\<close>

fun name_lookup :: "string \<Rightarrow> (string \<times> u32) list \<Rightarrow> u32 option" where
  "name_lookup text [] = None"
| "name_lookup text (e # es) = (if fst e = text then Some (snd e) else name_lookup text es)"

section \<open>Severity and state\<close>

datatype Severity = Severity (sev_u8: u8)

abbreviation Sev_Clear :: Severity where "Sev_Clear \<equiv> Severity 0"
abbreviation Sev_Watch :: Severity where "Sev_Watch \<equiv> Severity 1"
abbreviation Sev_Congested :: Severity where "Sev_Congested \<equiv> Severity 2"
abbreviation Sev_Severe :: Severity where "Sev_Severe \<equiv> Severity 3"

instantiation Severity :: linorder
begin

definition less_eq_Severity :: "Severity \<Rightarrow> Severity \<Rightarrow> bool" where
  "less_eq_Severity a b \<longleftrightarrow> sev_u8 a \<le> sev_u8 b"

definition less_Severity :: "Severity \<Rightarrow> Severity \<Rightarrow> bool" where
  "less_Severity a b \<longleftrightarrow> sev_u8 a < sev_u8 b"

instance
  by standard (auto simp: less_eq_Severity_def less_Severity_def Severity.expand)

end

datatype CongestionState = CongestionState (st_u8: u8)

abbreviation St_Unknown :: CongestionState where "St_Unknown \<equiv> CongestionState 0"
abbreviation St_Clear :: CongestionState where "St_Clear \<equiv> CongestionState 1"
abbreviation St_Watch :: CongestionState where "St_Watch \<equiv> CongestionState 2"
abbreviation St_Congested :: CongestionState where "St_Congested \<equiv> CongestionState 3"
abbreviation St_Severe :: CongestionState where "St_Severe \<equiv> CongestionState 4"
abbreviation St_Recovering :: CongestionState where "St_Recovering \<equiv> CongestionState 5"
abbreviation St_Stale :: CongestionState where "St_Stale \<equiv> CongestionState 6"
abbreviation St_Conflict :: CongestionState where "St_Conflict \<equiv> CongestionState 7"

definition is_authoritative :: "CongestionState \<Rightarrow> bool" where
  "is_authoritative s \<longleftrightarrow>
     s = St_Clear \<or> s = St_Watch \<or> s = St_Congested \<or> s = St_Severe \<or> s = St_Recovering"

definition is_indeterminate :: "CongestionState \<Rightarrow> bool" where
  "is_indeterminate s \<longleftrightarrow> s = St_Unknown \<or> s = St_Stale \<or> s = St_Conflict"

definition severity_of :: "CongestionState \<Rightarrow> Severity option" where
  "severity_of s =
     (if s = St_Clear then Some Sev_Clear
      else if s = St_Watch then Some Sev_Watch
      else if s = St_Congested then Some Sev_Congested
      else if s = St_Severe then Some Sev_Severe
      else if s = St_Recovering then Some Sev_Watch
      else None)"

definition state_of :: "Severity \<Rightarrow> CongestionState" where
  "state_of s =
     (if s = Sev_Clear then St_Clear
      else if s = Sev_Watch then St_Watch
      else if s = Sev_Congested then St_Congested
      else if s = Sev_Severe then St_Severe
      else St_Unknown)"

definition kSeverityNames :: "(string \<times> u32) list" where
  "kSeverityNames = [(''clear'', 0), (''watch'', 1), (''congested'', 2), (''severe'', 3)]"

definition kStateNames :: "(string \<times> u32) list" where
  "kStateNames =
     [(''unknown'', 0), (''clear'', 1), (''watch'', 2), (''congested'', 3), (''severe'', 4),
      (''recovering'', 5), (''stale'', 6), (''conflict'', 7)]"

definition severity_name :: "Severity \<Rightarrow> string" where
  "severity_name s = enum_name (map fst kSeverityNames) ''unknown'' (unat (sev_u8 s))"

definition state_name :: "CongestionState \<Rightarrow> string" where
  "state_name s = enum_name (map fst kStateNames) ''unknown'' (unat (st_u8 s))"

definition parse_severity :: "string \<Rightarrow> Severity option" where
  "parse_severity text = map_option (\<lambda>v. Severity (ucast v)) (name_lookup text kSeverityNames)"

definition parse_state :: "string \<Rightarrow> CongestionState option" where
  "parse_state text = map_option (\<lambda>v. CongestionState (ucast v)) (name_lookup text kStateNames)"

section \<open>Metrics\<close>

datatype MetricKind = MetricKind (mk_u16: u16)

abbreviation MK_Unknown :: MetricKind where "MK_Unknown \<equiv> MetricKind 0"
abbreviation MK_QueueOccupancyPpm :: MetricKind where "MK_QueueOccupancyPpm \<equiv> MetricKind 1"
abbreviation MK_BufferUtilizationPpm :: MetricKind where "MK_BufferUtilizationPpm \<equiv> MetricKind 2"
abbreviation MK_UtilizationPpm :: MetricKind where "MK_UtilizationPpm \<equiv> MetricKind 3"
abbreviation MK_LossRatePpm :: MetricKind where "MK_LossRatePpm \<equiv> MetricKind 4"
abbreviation MK_MarkedFractionPpm :: MetricKind where "MK_MarkedFractionPpm \<equiv> MetricKind 5"
abbreviation MK_DeliveryRatioPpm :: MetricKind where "MK_DeliveryRatioPpm \<equiv> MetricKind 6"
abbreviation MK_QueueDepthPackets :: MetricKind where "MK_QueueDepthPackets \<equiv> MetricKind 7"
abbreviation MK_DiscardCount :: MetricKind where "MK_DiscardCount \<equiv> MetricKind 8"
abbreviation MK_IngressRateBps :: MetricKind where "MK_IngressRateBps \<equiv> MetricKind 9"
abbreviation MK_EgressRateBps :: MetricKind where "MK_EgressRateBps \<equiv> MetricKind 10"
abbreviation MK_AdmissibleRateBps :: MetricKind where "MK_AdmissibleRateBps \<equiv> MetricKind 11"
abbreviation MK_ResidualCapacityBps :: MetricKind where "MK_ResidualCapacityBps \<equiv> MetricKind 12"
abbreviation MK_LinkCapacityBps :: MetricKind where "MK_LinkCapacityBps \<equiv> MetricKind 13"
abbreviation MK_PathCapacityBps :: MetricKind where "MK_PathCapacityBps \<equiv> MetricKind 14"
abbreviation MK_LatencyMicros :: MetricKind where "MK_LatencyMicros \<equiv> MetricKind 15"
abbreviation MK_JitterMicros :: MetricKind where "MK_JitterMicros \<equiv> MetricKind 16"
abbreviation MK_QueueDelayMicros :: MetricKind where "MK_QueueDelayMicros \<equiv> MetricKind 17"
abbreviation MK_TopologyVersion :: MetricKind where "MK_TopologyVersion \<equiv> MetricKind 18"
abbreviation MK_CapacityVersion :: MetricKind where "MK_CapacityVersion \<equiv> MetricKind 19"
abbreviation MK_Count :: MetricKind where "MK_Count \<equiv> MetricKind 20"

instantiation MetricKind :: linorder
begin

definition less_eq_MetricKind :: "MetricKind \<Rightarrow> MetricKind \<Rightarrow> bool" where
  "less_eq_MetricKind a b \<longleftrightarrow> mk_u16 a \<le> mk_u16 b"

definition less_MetricKind :: "MetricKind \<Rightarrow> MetricKind \<Rightarrow> bool" where
  "less_MetricKind a b \<longleftrightarrow> mk_u16 a < mk_u16 b"

instance
  by standard (auto simp: less_eq_MetricKind_def less_MetricKind_def MetricKind.expand)

end

definition is_ratio_metric :: "MetricKind \<Rightarrow> bool" where
  "is_ratio_metric k \<longleftrightarrow>
     k = MK_QueueOccupancyPpm \<or> k = MK_BufferUtilizationPpm \<or> k = MK_UtilizationPpm \<or>
     k = MK_LossRatePpm \<or> k = MK_MarkedFractionPpm \<or> k = MK_DeliveryRatioPpm"

definition higher_is_worse :: "MetricKind \<Rightarrow> bool" where
  "higher_is_worse k \<longleftrightarrow>
     k \<notin> {MK_DeliveryRatioPpm, MK_ResidualCapacityBps, MK_AdmissibleRateBps, MK_LinkCapacityBps,
        MK_PathCapacityBps, MK_TopologyVersion, MK_CapacityVersion, MK_Unknown, MK_Count}"

record MetricDescriptor =
  md_kind :: MetricKind
  md_name :: string
  md_unit :: string
  md_plausible_max :: u64
  md_ratio :: bool

definition metric_row :: "MetricKind \<Rightarrow> string \<Rightarrow> string \<Rightarrow> u64 \<Rightarrow> bool \<Rightarrow> MetricDescriptor" where
  "metric_row k n u m r =
     \<lparr>md_kind = k, md_name = n, md_unit = u, md_plausible_max = m, md_ratio = r\<rparr>"

definition kMaxRatioPpm :: u64 where [ncf_defs]: "kMaxRatioPpm = 1500000"
definition kMaxRateBps :: u64 where [ncf_defs]: "kMaxRateBps = 1000000000000000"
definition kMaxLatencyMicros :: u64 where [ncf_defs]: "kMaxLatencyMicros = 3600000000"
definition kMaxCount :: u64 where [ncf_defs]: "kMaxCount = 1000000000000000"

definition kMetricTable :: "MetricDescriptor list" where
  "kMetricTable =
     [metric_row MK_Unknown ''unknown'' '''' 0 False,
      metric_row MK_QueueOccupancyPpm ''queue-occupancy-ppm'' ''ppm'' kMaxRatioPpm True,
      metric_row MK_BufferUtilizationPpm ''buffer-utilization-ppm'' ''ppm'' kMaxRatioPpm True,
      metric_row MK_UtilizationPpm ''utilization-ppm'' ''ppm'' kMaxRatioPpm True,
      metric_row MK_LossRatePpm ''loss-rate-ppm'' ''ppm'' kMaxRatioPpm True,
      metric_row MK_MarkedFractionPpm ''marked-fraction-ppm'' ''ppm'' kMaxRatioPpm True,
      metric_row MK_DeliveryRatioPpm ''delivery-ratio-ppm'' ''ppm'' kMaxRatioPpm True,
      metric_row MK_QueueDepthPackets ''queue-depth-packets'' ''packets'' kMaxCount False,
      metric_row MK_DiscardCount ''discard-count'' ''packets'' kMaxCount False,
      metric_row MK_IngressRateBps ''ingress-rate-bps'' ''bps'' kMaxRateBps False,
      metric_row MK_EgressRateBps ''egress-rate-bps'' ''bps'' kMaxRateBps False,
      metric_row MK_AdmissibleRateBps ''admissible-rate-bps'' ''bps'' kMaxRateBps False,
      metric_row MK_ResidualCapacityBps ''residual-capacity-bps'' ''bps'' kMaxRateBps False,
      metric_row MK_LinkCapacityBps ''link-capacity-bps'' ''bps'' kMaxRateBps False,
      metric_row MK_PathCapacityBps ''path-capacity-bps'' ''bps'' kMaxRateBps False,
      metric_row MK_LatencyMicros ''latency-micros'' ''us'' kMaxLatencyMicros False,
      metric_row MK_JitterMicros ''jitter-micros'' ''us'' kMaxLatencyMicros False,
      metric_row MK_QueueDelayMicros ''queue-delay-micros'' ''us'' kMaxLatencyMicros False,
      metric_row MK_TopologyVersion ''topology-version'' ''generation'' kMaxCount False,
      metric_row MK_CapacityVersion ''capacity-version'' ''generation'' kMaxCount False,
      metric_row MK_Count ''count'' '''' 0 False]"

definition metric_descriptor :: "MetricKind \<Rightarrow> MetricDescriptor" where
  "metric_descriptor k =
     (let index = unat (mk_u16 k) in
      if index \<ge> length kMetricTable then kMetricTable ! 0 else kMetricTable ! index)"

definition metric_kind_name :: "MetricKind \<Rightarrow> string" where
  "metric_kind_name k = md_name (metric_descriptor k)"

definition metric_unit :: "MetricKind \<Rightarrow> string" where
  "metric_unit k = md_unit (metric_descriptor k)"

definition metric_plausible_max :: "MetricKind \<Rightarrow> u64" where
  "metric_plausible_max k = md_plausible_max (metric_descriptor k)"

definition parse_metric_kind :: "string \<Rightarrow> MetricKind option" where
  "parse_metric_kind text = map_option md_kind (find (\<lambda>d. md_name d = text) kMetricTable)"

text \<open>The verdict of \<^verbatim>\<open>validate_metric_value\<close>; its reason is static text.\<close>

definition validate_metric_value :: "MetricKind \<Rightarrow> u64 \<Rightarrow> bool" where
  "validate_metric_value k v =
     (if k = MK_Unknown \<or> k = MK_Count then False
      else if v > md_plausible_max (metric_descriptor k) then False
      else True)"

section \<open>Error codes\<close>

definition err_name :: "ErrCode \<Rightarrow> string" where
  "err_name code = enum_name
     [''ok'', ''invalid-argument'', ''out-of-range'', ''not-found'', ''already-exists'', ''stale'', ''unauthorized'', ''conflict'',
      ''contradictory'', ''malformed'', ''truncated'', ''corrupt'', ''oversized'', ''limit-exceeded'', ''cancelled'',
      ''unavailable'', ''not-ready'', ''closed'', ''internal'', ''epoch-mismatch'', ''generation-mismatch'', ''boot-mismatch'',
      ''attempt-mismatch'', ''fenced'', ''duplicate'', ''unsupported'', ''io-error'', ''integrity-failure'', ''policy-rejected'']
     ''unknown'' (unat (err_u16 code))"

text \<open>\<^verbatim>\<open>Status::describe\<close>, of a message and its detail.\<close>

definition describe_status :: "string \<Rightarrow> string \<Rightarrow> string" where
  "describe_status message detail = (if detail = [] then message else message @ '': '' @ detail)"

section \<open>Topology and interventions\<close>

datatype ResourceKind = ResourceKind (rk_u8: u8)

abbreviation RK_Unknown :: ResourceKind where "RK_Unknown \<equiv> ResourceKind 0"
abbreviation RK_Fabric :: ResourceKind where "RK_Fabric \<equiv> ResourceKind 1"
abbreviation RK_Node :: ResourceKind where "RK_Node \<equiv> ResourceKind 2"
abbreviation RK_Port :: ResourceKind where "RK_Port \<equiv> ResourceKind 3"
abbreviation RK_LinkEndpoint :: ResourceKind where "RK_LinkEndpoint \<equiv> ResourceKind 4"
abbreviation RK_QueueGroup :: ResourceKind where "RK_QueueGroup \<equiv> ResourceKind 5"
abbreviation RK_ClassLane :: ResourceKind where "RK_ClassLane \<equiv> ResourceKind 6"
abbreviation RK_PathGroup :: ResourceKind where "RK_PathGroup \<equiv> ResourceKind 7"
abbreviation RK_Count :: ResourceKind where "RK_Count \<equiv> ResourceKind 8"

definition resource_kind_name :: "ResourceKind \<Rightarrow> string" where
  "resource_kind_name k = enum_name [''unknown'', ''fabric'', ''node'', ''port'',
     ''link-endpoint'', ''queue-group'', ''class-lane'', ''path-group'', ''count''] ''unknown''
     (unat (rk_u8 k))"

datatype ResourceCoverage = Cov_None | Cov_Partial | Cov_Full

fun coverage_name :: "ResourceCoverage \<Rightarrow> string" where
  "coverage_name Cov_None = ''none''"
| "coverage_name Cov_Partial = ''partial''"
| "coverage_name Cov_Full = ''full''"

datatype InterventionKind = InterventionKind (ik_u8: u8)

abbreviation IK_None :: InterventionKind where "IK_None \<equiv> InterventionKind 0"
abbreviation IK_ReduceAdmissibleBudget :: InterventionKind where "IK_ReduceAdmissibleBudget \<equiv> InterventionKind 1"
abbreviation IK_RequestRateReduction :: InterventionKind where "IK_RequestRateReduction \<equiv> InterventionKind 2"
abbreviation IK_RequestPacing :: InterventionKind where "IK_RequestPacing \<equiv> InterventionKind 3"
abbreviation IK_RequestReroute :: InterventionKind where "IK_RequestReroute \<equiv> InterventionKind 4"
abbreviation IK_RequestRebalance :: InterventionKind where "IK_RequestRebalance \<equiv> InterventionKind 5"
abbreviation IK_RequestBackpressure :: InterventionKind where "IK_RequestBackpressure \<equiv> InterventionKind 6"
abbreviation IK_ProtectCriticalClasses :: InterventionKind where "IK_ProtectCriticalClasses \<equiv> InterventionKind 7"
abbreviation IK_EnterDegradedMode :: InterventionKind where "IK_EnterDegradedMode \<equiv> InterventionKind 8"
abbreviation IK_MakeRecoveryPlanEligible :: InterventionKind where "IK_MakeRecoveryPlanEligible \<equiv> InterventionKind 9"
abbreviation IK_Count :: InterventionKind where "IK_Count \<equiv> InterventionKind 10"

instantiation InterventionKind :: linorder
begin

definition less_eq_InterventionKind :: "InterventionKind \<Rightarrow> InterventionKind \<Rightarrow> bool" where
  "less_eq_InterventionKind a b \<longleftrightarrow> ik_u8 a \<le> ik_u8 b"

definition less_InterventionKind :: "InterventionKind \<Rightarrow> InterventionKind \<Rightarrow> bool" where
  "less_InterventionKind a b \<longleftrightarrow> ik_u8 a < ik_u8 b"

instance
  by standard (auto simp: less_eq_InterventionKind_def less_InterventionKind_def InterventionKind.expand)

end

definition intervention_kind_name :: "InterventionKind \<Rightarrow> string" where
  "intervention_kind_name k = enum_name [''none'', ''reduce-admissible-budget'',
     ''request-rate-reduction'', ''request-pacing'', ''request-reroute'',
     ''request-rebalance'', ''request-backpressure'', ''protect-critical-classes'',
     ''enter-degraded-mode'', ''make-recovery-plan-eligible'', ''count''] ''none'' (unat (ik_u8
     k))"

definition kInterventionNames :: "(string \<times> u32) list" where
  "kInterventionNames =
     [(''none'', 0),
      (''reduce-admissible-budget'', 1),
      (''request-rate-reduction'', 2),
      (''request-pacing'', 3),
      (''request-reroute'', 4),
      (''request-rebalance'', 5),
      (''request-backpressure'', 6),
      (''protect-critical-classes'', 7),
      (''enter-degraded-mode'', 8),
      (''make-recovery-plan-eligible'', 9)]"

definition parse_intervention_kind :: "string \<Rightarrow> InterventionKind option" where
  "parse_intervention_kind text =
     map_option (\<lambda>v. InterventionKind (ucast v)) (name_lookup text kInterventionNames)"

text \<open>Why an intervention the policy asked for was not emitted; it never crosses a wire.\<close>

datatype SuppressionReason =
    SR_None
  | SR_NonAuthoritativeState
  | SR_StaleEvidence
  | SR_MissingEvidence
  | SR_FutureEvidence
  | SR_AuthorityDenied
  | SR_AuthorityExpired
  | SR_GenerationInvalidated
  | SR_EpochFenced
  | SR_PolicyDisabled
  | SR_ConflictPresent
  | SR_ParameterOutOfBounds
  | SR_TargetNotPresent
  | SR_LimitExceeded
  | SR_AlreadyActive
  | SR_Cancelled
  | SR_Count

fun suppression_reason_name :: "SuppressionReason \<Rightarrow> string" where
  "suppression_reason_name SR_None = ''none''"
| "suppression_reason_name SR_NonAuthoritativeState = ''non-authoritative-state''"
| "suppression_reason_name SR_StaleEvidence = ''stale-evidence''"
| "suppression_reason_name SR_MissingEvidence = ''missing-evidence''"
| "suppression_reason_name SR_FutureEvidence = ''future-evidence''"
| "suppression_reason_name SR_AuthorityDenied = ''authority-denied''"
| "suppression_reason_name SR_AuthorityExpired = ''authority-expired''"
| "suppression_reason_name SR_GenerationInvalidated = ''generation-invalidated''"
| "suppression_reason_name SR_EpochFenced = ''epoch-fenced''"
| "suppression_reason_name SR_PolicyDisabled = ''policy-disabled''"
| "suppression_reason_name SR_ConflictPresent = ''conflict-present''"
| "suppression_reason_name SR_ParameterOutOfBounds = ''parameter-out-of-bounds''"
| "suppression_reason_name SR_TargetNotPresent = ''target-not-present''"
| "suppression_reason_name SR_LimitExceeded = ''limit-exceeded''"
| "suppression_reason_name SR_AlreadyActive = ''already-active''"
| "suppression_reason_name SR_Cancelled = ''cancelled''"
| "suppression_reason_name SR_Count = ''count''"

datatype FenceReason = FenceReason (fr_u8: u8)

abbreviation FR_None :: FenceReason where "FR_None \<equiv> FenceReason 0"
abbreviation FR_CoordinatorRestart :: FenceReason where "FR_CoordinatorRestart \<equiv> FenceReason 1"
abbreviation FR_EpochAdvance :: FenceReason where "FR_EpochAdvance \<equiv> FenceReason 2"
abbreviation FR_AuthorityChange :: FenceReason where "FR_AuthorityChange \<equiv> FenceReason 3"
abbreviation FR_PolicyChange :: FenceReason where "FR_PolicyChange \<equiv> FenceReason 4"
abbreviation FR_TopologyChange :: FenceReason where "FR_TopologyChange \<equiv> FenceReason 5"
abbreviation FR_PublisherDeath :: FenceReason where "FR_PublisherDeath \<equiv> FenceReason 6"
abbreviation FR_IntegrityFailure :: FenceReason where "FR_IntegrityFailure \<equiv> FenceReason 7"
abbreviation FR_RevalidationTimeout :: FenceReason where "FR_RevalidationTimeout \<equiv> FenceReason 8"
abbreviation FR_Manual :: FenceReason where "FR_Manual \<equiv> FenceReason 9"
abbreviation FR_Count :: FenceReason where "FR_Count \<equiv> FenceReason 10"

definition fence_reason_name :: "FenceReason \<Rightarrow> string" where
  "fence_reason_name k = enum_name [''none'', ''coordinator-restart'', ''epoch-advance'',
     ''authority-change'', ''policy-change'', ''topology-change'', ''publisher-death'',
     ''integrity-failure'', ''revalidation-timeout'', ''manual'', ''count''] ''none'' (unat
     (fr_u8 k))"

section \<open>Capabilities\<close>

datatype Authority = Authority (auth_u32: u32)

abbreviation Auth_None :: Authority where "Auth_None \<equiv> Authority 0"
abbreviation Auth_Observe :: Authority where "Auth_Observe \<equiv> Authority 1"
abbreviation Auth_Evaluate :: Authority where "Auth_Evaluate \<equiv> Authority 2"
abbreviation Auth_PlanInterventions :: Authority where "Auth_PlanInterventions \<equiv> Authority 4"
abbreviation Auth_ReduceAdmissibleBudget :: Authority where "Auth_ReduceAdmissibleBudget \<equiv> Authority 8"
abbreviation Auth_RequestRateReduction :: Authority where "Auth_RequestRateReduction \<equiv> Authority 16"
abbreviation Auth_RequestPacing :: Authority where "Auth_RequestPacing \<equiv> Authority 32"
abbreviation Auth_RequestReroute :: Authority where "Auth_RequestReroute \<equiv> Authority 64"
abbreviation Auth_RequestRebalance :: Authority where "Auth_RequestRebalance \<equiv> Authority 128"
abbreviation Auth_RequestBackpressure :: Authority where "Auth_RequestBackpressure \<equiv> Authority 256"
abbreviation Auth_ProtectCriticalClasses :: Authority where "Auth_ProtectCriticalClasses \<equiv> Authority 512"
abbreviation Auth_EnterDegradedMode :: Authority where "Auth_EnterDegradedMode \<equiv> Authority 1024"
abbreviation Auth_MakeRecoveryPlanEligible :: Authority where "Auth_MakeRecoveryPlanEligible \<equiv> Authority 2048"
abbreviation Auth_DurabilityWrite :: Authority where "Auth_DurabilityWrite \<equiv> Authority 4096"
abbreviation Auth_Fence :: Authority where "Auth_Fence \<equiv> Authority 8192"
abbreviation Auth_AdvanceEpoch :: Authority where "Auth_AdvanceEpoch \<equiv> Authority 16384"
abbreviation Auth_MutatePolicy :: Authority where "Auth_MutatePolicy \<equiv> Authority 32768"

definition kAuthorityAllBits :: u32 where [ncf_defs]: "kAuthorityAllBits = 0x0000FFFF"

definition authority_bit :: "Authority \<Rightarrow> u32" where
  "authority_bit a = auth_u32 a"

definition required_authority :: "InterventionKind \<Rightarrow> Authority" where
  "required_authority k =
     (if k = IK_ReduceAdmissibleBudget then Auth_ReduceAdmissibleBudget
      else if k = IK_RequestRateReduction then Auth_RequestRateReduction
      else if k = IK_RequestPacing then Auth_RequestPacing
      else if k = IK_RequestReroute then Auth_RequestReroute
      else if k = IK_RequestRebalance then Auth_RequestRebalance
      else if k = IK_RequestBackpressure then Auth_RequestBackpressure
      else if k = IK_ProtectCriticalClasses then Auth_ProtectCriticalClasses
      else if k = IK_EnterDegradedMode then Auth_EnterDegradedMode
      else if k = IK_MakeRecoveryPlanEligible then Auth_MakeRecoveryPlanEligible
      else Auth_None)"

section \<open>Provenance and attempts\<close>

datatype ProvenanceKind = ProvenanceKind (pk_u8: u8)

abbreviation PK_Unknown :: ProvenanceKind where "PK_Unknown \<equiv> ProvenanceKind 0"
abbreviation PK_LocalIngest :: ProvenanceKind where "PK_LocalIngest \<equiv> ProvenanceKind 1"
abbreviation PK_LocalEvaluation :: ProvenanceKind where "PK_LocalEvaluation \<equiv> ProvenanceKind 2"
abbreviation PK_LocalPolicy :: ProvenanceKind where "PK_LocalPolicy \<equiv> ProvenanceKind 3"
abbreviation PK_RemotePublisher :: ProvenanceKind where "PK_RemotePublisher \<equiv> ProvenanceKind 4"
abbreviation PK_DurableReplay :: ProvenanceKind where "PK_DurableReplay \<equiv> ProvenanceKind 5"
abbreviation PK_Recovery :: ProvenanceKind where "PK_Recovery \<equiv> ProvenanceKind 6"
abbreviation PK_Fence :: ProvenanceKind where "PK_Fence \<equiv> ProvenanceKind 7"
abbreviation PK_CoordinatorBoot :: ProvenanceKind where "PK_CoordinatorBoot \<equiv> ProvenanceKind 8"
abbreviation PK_EpochAdvance :: ProvenanceKind where "PK_EpochAdvance \<equiv> ProvenanceKind 9"
abbreviation PK_Count :: ProvenanceKind where "PK_Count \<equiv> ProvenanceKind 10"

definition provenance_kind_name :: "ProvenanceKind \<Rightarrow> string" where
  "provenance_kind_name k = enum_name [''unknown'', ''local-ingest'', ''local-evaluation'',
     ''local-policy'', ''remote-publisher'', ''durable-replay'', ''recovery'', ''fence'',
     ''coordinator-boot'', ''epoch-advance'', ''count''] ''unknown'' (unat (pk_u8 k))"

datatype AttemptState = AttemptState (as_u8: u8)

abbreviation AS_Unknown :: AttemptState where "AS_Unknown \<equiv> AttemptState 0"
abbreviation AS_Planned :: AttemptState where "AS_Planned \<equiv> AttemptState 1"
abbreviation AS_Reserved :: AttemptState where "AS_Reserved \<equiv> AttemptState 2"
abbreviation AS_Journaled :: AttemptState where "AS_Journaled \<equiv> AttemptState 3"
abbreviation AS_Performed :: AttemptState where "AS_Performed \<equiv> AttemptState 4"
abbreviation AS_Verified :: AttemptState where "AS_Verified \<equiv> AttemptState 5"
abbreviation AS_Committed :: AttemptState where "AS_Committed \<equiv> AttemptState 6"
abbreviation AS_Aborted :: AttemptState where "AS_Aborted \<equiv> AttemptState 7"
abbreviation AS_Ambiguous :: AttemptState where "AS_Ambiguous \<equiv> AttemptState 8"
abbreviation AS_Count :: AttemptState where "AS_Count \<equiv> AttemptState 9"

definition attempt_state_name :: "AttemptState \<Rightarrow> string" where
  "attempt_state_name k = enum_name [''unknown'', ''planned'', ''reserved'', ''journaled'',
     ''performed'', ''verified'', ''committed'', ''aborted'', ''ambiguous'', ''count'']
     ''unknown'' (unat (as_u8 k))"

section \<open>Theorems\<close>

lemma Severity_le_iff [simp]: "Severity a \<le> Severity b \<longleftrightarrow> unat a \<le> unat b"
  by (simp add: less_eq_Severity_def word_le_nat_alt)

lemma Severity_less_iff [simp]: "Severity a < Severity b \<longleftrightarrow> unat a < unat b"
  by (simp add: less_Severity_def word_less_nat_alt)

lemma authoritative_or_indeterminate:
  "st_u8 s < 8 \<Longrightarrow> is_authoritative s \<longleftrightarrow> \<not> is_indeterminate s"
proof (cases s)
  case (CongestionState x)
  assume "st_u8 s < 8"
  with CongestionState have "unat x < 8" by (simp add: word_less_nat_alt)
  then have "unat x \<in> {0, 1, 2, 3, 4, 5, 6, 7}" unfolding insert_iff empty_iff by arith
  then show ?thesis
    unfolding CongestionState is_authoritative_def is_indeterminate_def
    by (auto simp: word_unat_eq_iff)
qed

lemma severity_of_state_of: "sev_u8 s < 4 \<Longrightarrow> severity_of (state_of s) = Some s"
proof (cases s)
  case (Severity x)
  assume "sev_u8 s < 4"
  with Severity have "unat x < 4" by (simp add: word_less_nat_alt)
  then have "unat x \<in> {0, 1, 2, 3}" unfolding insert_iff empty_iff by arith
  then show ?thesis
    unfolding Severity severity_of_def state_of_def by (auto simp: word_unat_eq_iff)
qed

lemma severity_of_iff_authoritative: "severity_of s = None \<longleftrightarrow> \<not> is_authoritative s"
  by (simp add: severity_of_def is_authoritative_def)

lemma required_authority_inj:
  assumes "required_authority k = required_authority k'" and "required_authority k \<noteq> Auth_None"
  shows "k = k'"
  using assms unfolding required_authority_def by (auto split: if_splits)

end
