(* ===== verification/NCF_Evidence.thy ===== *)
theory NCF_Evidence
  imports NCF_Enums
begin

text \<open>
  Evidence, \<^verbatim>\<open>include/ncf/model/{ids,evidence}.hpp\<close> and \<^verbatim>\<open>src/model/evidence.cpp\<close>: the strong
  identities, metric readings and the sorted metric set, evidence samples and batches, provenance,
  and the content identities derived from them.

  The C++ identity types are distinct only at compile time; here they are synonyms of \<^typ>\<open>u64\<close>
  whose names document the role.
\<close>

unbundle bit_operations_syntax

section \<open>Identities\<close>

type_synonym DomainId = u64
type_synonym ResourceId = u64
type_synonym QueueId = u64
type_synonym PathId = u64
type_synonym LinkId = u64
type_synonym TopologyId = u64
type_synonym EvidenceSnapshotId = u64
type_synonym EvidenceBatchId = u64
type_synonym PolicyId = u64
type_synonym InterventionId = u64
type_synonym EvaluationId = u64
type_synonym EpochId = u64
type_synonym PublisherId = u64
type_synonym BootId = u64
type_synonym AttemptId = u64
type_synonym ProvenanceId = u64
type_synonym FenceId = u64
type_synonym ClassId = u64
type_synonym ConnectionId = u64
type_synonym AuthorityGeneration = u64
type_synonym RecordGeneration = u64
type_synonym TransactionId = u64
type_synonym TopologyGeneration = u64
type_synonym CapacityGeneration = u64
type_synonym PolicyGeneration = u64
type_synonym EvidenceGeneration = u64

section \<open>Metric readings\<close>

record MetricReading =
  mr_kind :: MetricKind
  mr_value :: u64

type_synonym MetricSet = "MetricReading list"

text \<open>
  \<^verbatim>\<open>std::lower_bound\<close> by kind: the number of readings before the first one whose kind is not
  below the probe. The container is private and kept sorted, which the invariant below states.
\<close>

definition ms_lower_bound :: "MetricKind \<Rightarrow> MetricSet \<Rightarrow> nat" where
  "ms_lower_bound k rs = length (takeWhile (\<lambda>r. mr_kind r < k) rs)"

definition ms_set :: "MetricKind \<Rightarrow> u64 \<Rightarrow> MetricSet \<Rightarrow> MetricSet result" where
  "ms_set k v rs =
     (if \<not> validate_metric_value k v then Inl Err_InvalidArgument
      else if length rs \<ge> kMaxMetricReadings then Inl Err_LimitExceeded
      else let p = ms_lower_bound k rs in
        if p \<noteq> length rs \<and> mr_kind (rs ! p) = k then Inl Err_Duplicate
        else Inr (take p rs @ \<lparr>mr_kind = k, mr_value = v\<rparr> # drop p rs))"

definition ms_has :: "MetricSet \<Rightarrow> MetricKind \<Rightarrow> bool" where
  "ms_has rs k = (let p = ms_lower_bound k rs in p \<noteq> length rs \<and> mr_kind (rs ! p) = k)"

definition ms_get :: "MetricSet \<Rightarrow> MetricKind \<Rightarrow> u64 option" where
  "ms_get rs k =
     (let p = ms_lower_bound k rs in
      if p = length rs \<or> mr_kind (rs ! p) \<noteq> k then None else Some (mr_value (rs ! p)))"

definition ms_fingerprint :: "MetricSet \<Rightarrow> Hash64" where
  "ms_fingerprint rs =
     hash_finish
       (fold (\<lambda>r h. hash_u64 (mr_value r) (hash_u16 (mk_u16 (mr_kind r)) h)) rs
         (hash_u64 (of_nat (length rs)) kFnvOffset))"

definition select_metrics :: "MetricSet \<Rightarrow> MetricKind list \<Rightarrow> MetricReading list" where
  "select_metrics rs kinds =
     concat (map (\<lambda>k. case ms_get rs k of None \<Rightarrow> []
                       | Some v \<Rightarrow> [\<lparr>mr_kind = k, mr_value = v\<rparr>]) kinds)"

section \<open>Samples, batches and provenance\<close>

definition kEvidenceFlagNone :: u32 where [ncf_defs]: "kEvidenceFlagNone = 0"
definition kEvidenceFlagResync :: u32 where [ncf_defs]: "kEvidenceFlagResync = 1"
definition kEvidenceFlagHeartbeat :: u32 where [ncf_defs]: "kEvidenceFlagHeartbeat = 2"
definition kEvidenceFlagPartial :: u32 where [ncf_defs]: "kEvidenceFlagPartial = 4"
definition kEvidenceFlagDegraded :: u32 where [ncf_defs]: "kEvidenceFlagDegraded = 8"

record EvidenceSample =
  es_resource :: ResourceId
  es_queue :: QueueId
  es_metrics :: MetricSet
  es_publisher :: PublisherId
  es_publisher_boot :: BootId
  es_epoch :: EpochId
  es_generation :: EvidenceGeneration
  es_sequence :: u64
  es_observed_tick :: Tick
  es_received_tick :: Tick
  es_provenance :: ProvenanceId
  es_snapshot :: EvidenceSnapshotId
  es_flags :: u32

definition es_is_heartbeat :: "EvidenceSample \<Rightarrow> bool" where
  "es_is_heartbeat s \<longleftrightarrow> es_flags s AND kEvidenceFlagHeartbeat \<noteq> 0"

definition es_is_partial :: "EvidenceSample \<Rightarrow> bool" where
  "es_is_partial s \<longleftrightarrow> es_flags s AND kEvidenceFlagPartial \<noteq> 0"

definition es_is_degraded :: "EvidenceSample \<Rightarrow> bool" where
  "es_is_degraded s \<longleftrightarrow> es_flags s AND kEvidenceFlagDegraded \<noteq> 0"

definition compute_snapshot_id :: "EvidenceSample \<Rightarrow> EvidenceSnapshotId" where
  "compute_snapshot_id s =
     (let h1 = hash_u64 (es_resource s) kFnvOffset;
          h2 = hash_u64 (es_queue s) h1;
          h3 = hash_u64 (es_publisher s) h2;
          h4 = hash_u64 (es_publisher_boot s) h3;
          h5 = hash_u64 (es_epoch s) h4;
          h6 = hash_u64 (es_generation s) h5;
          h7 = hash_u64 (es_sequence s) h6;
          h8 = hash_u64 (es_observed_tick s) h7;
          h9 = hash_u32 (es_flags s) h8;
          metrics = ms_fingerprint (es_metrics s)
      in hash_finish (hash_u64 metrics h9))"

record EvidenceBatch =
  eb_id :: EvidenceBatchId
  eb_epoch :: EpochId
  eb_provenance :: ProvenanceId
  eb_submitted_tick :: Tick
  eb_samples :: "EvidenceSample list"

definition compute_batch_id :: "EvidenceBatch \<Rightarrow> EvidenceBatchId" where
  "compute_batch_id b =
     (let h1 = hash_u64 (eb_epoch b) kFnvOffset;
          h2 = hash_u64 (eb_provenance b) h1;
          h3 = hash_u64 (eb_submitted_tick b) h2;
          h4 = hash_u64 (of_nat (length (eb_samples b))) h3
      in hash_finish (fold (\<lambda>s. hash_u64 (es_snapshot s)) (eb_samples b) h4))"

text \<open>\<^verbatim>\<open>WallStamp\<close> is the signed nanosecond count, kept as the 64 bits that are stored.\<close>

type_synonym WallStamp = u64

definition wall_valid :: "WallStamp \<Rightarrow> bool" where
  "wall_valid w \<longleftrightarrow> sint w > 0"

record Provenance =
  pv_id :: ProvenanceId
  pv_kind :: ProvenanceKind
  pv_publisher :: PublisherId
  pv_boot :: BootId
  pv_epoch :: EpochId
  pv_attempt :: AttemptId
  pv_recorded_tick :: Tick
  pv_wall :: WallStamp
  pv_note :: string

definition compute_provenance_id ::
  "ProvenanceKind \<Rightarrow> PublisherId \<Rightarrow> BootId \<Rightarrow> EpochId \<Rightarrow> Tick \<Rightarrow> ProvenanceId" where
  "compute_provenance_id kind publisher boot epoch recorded_tick =
     (let h1 = hash_u16 (ucast (pk_u8 kind)) kFnvOffset;
          h2 = hash_u64 publisher h1;
          h3 = hash_u64 boot h2;
          h4 = hash_u64 epoch h3
      in hash_finish (hash_u64 recorded_tick h4))"

section \<open>The metric set is a sorted map\<close>

text \<open>The loop of every producer of samples: insert one reading after the other.\<close>

definition ms_build :: "(MetricKind \<times> u64) list \<Rightarrow> MetricSet result" where
  "ms_build es =
     foldl (\<lambda>r (k, v). case r of Inl e \<Rightarrow> Inl e | Inr s \<Rightarrow> ms_set k v s) (Inr []) es"

text \<open>Readings are strictly ascending by kind, each plausible, and within the hard bound.\<close>

definition ms_inv :: "MetricSet \<Rightarrow> bool" where
  "ms_inv rs \<longleftrightarrow> sorted_wrt (\<lambda>a b. mr_kind a < mr_kind b) rs \<and>
     (\<forall>r \<in> set rs. validate_metric_value (mr_kind r) (mr_value r)) \<and>
     length rs \<le> kMaxMetricReadings"

text \<open>The abstract view of a metric set: a finite partial map from kinds to values.\<close>

definition ms_abs :: "MetricSet \<Rightarrow> MetricKind \<Rightarrow> u64 option" where
  "ms_abs rs = map_of (map (\<lambda>r. (mr_kind r, mr_value r)) rs)"

lemma ms_split:
  assumes "sorted_wrt (\<lambda>a b. mr_kind a < mr_kind b) rs"
  obtains lo hi where "rs = lo @ hi" and "ms_lower_bound k rs = length lo"
    and "\<forall>r \<in> set lo. mr_kind r < k" and "hi = [] \<or> k \<le> mr_kind (hd hi)"
    and "\<forall>r \<in> set (tl hi). k < mr_kind r"
proof -
  define lo hi where "lo = takeWhile (\<lambda>r. mr_kind r < k) rs"
    and "hi = dropWhile (\<lambda>r. mr_kind r < k) rs"
  have split: "rs = lo @ hi" by (simp add: lo_def hi_def)
  have hd: "hi = [] \<or> k \<le> mr_kind (hd hi)"
    unfolding hi_def using hd_dropWhile [of "\<lambda>r. mr_kind r < k" rs] by force
  have "sorted_wrt (\<lambda>a b. mr_kind a < mr_kind b) hi"
    using assms by (simp add: split sorted_wrt_append)
  with hd have tl: "\<forall>r \<in> set (tl hi). k < mr_kind r"
    by (cases hi) auto
  have "ms_lower_bound k rs = length lo" and "\<forall>r \<in> set lo. mr_kind r < k"
    by (auto simp: ms_lower_bound_def lo_def dest: set_takeWhileD)
  with split hd tl show ?thesis by (intro that)
qed

lemma ms_abs_append_lower:
  "\<forall>r \<in> set lo. mr_kind r < k \<Longrightarrow> map_of (map (\<lambda>r. (mr_kind r, mr_value r)) lo) k = None"
  by (force simp: map_of_eq_None_iff)

lemma ms_abs_upper:
  "\<forall>r \<in> set hi. k < mr_kind r \<Longrightarrow> map_of (map (\<lambda>r. (mr_kind r, mr_value r)) hi) k = None"
  by (force simp: map_of_eq_None_iff)

lemma ms_get_abs:
  assumes "ms_inv rs"
  shows "ms_get rs k = ms_abs rs k"
proof -
  from assms have "sorted_wrt (\<lambda>a b. mr_kind a < mr_kind b) rs" by (simp add: ms_inv_def)
  then obtain lo hi where s: "rs = lo @ hi" "ms_lower_bound k rs = length lo"
    "\<forall>r \<in> set lo. mr_kind r < k" "hi = [] \<or> k \<le> mr_kind (hd hi)"
    "\<forall>r \<in> set (tl hi). k < mr_kind r"
    by (rule ms_split)
  show ?thesis
    using s ms_abs_upper [of "tl hi" k]
    by (cases hi) (auto simp: ms_get_def ms_abs_def Let_def map_add_def ms_abs_append_lower)
qed

lemma ms_has_get: "ms_has rs k \<longleftrightarrow> ms_get rs k \<noteq> None"
  by (auto simp: ms_has_def ms_get_def Let_def)

lemma ms_inv_Nil [simp]: "ms_inv []"
  by (simp add: ms_inv_def)

lemma ms_set_Inr:
  assumes inv: "ms_inv rs" and ok: "ms_set k v rs = Inr rs'"
  shows "ms_inv rs'" and "ms_abs rs' = (ms_abs rs)(k \<mapsto> v)" and "ms_abs rs k = None"
    and "validate_metric_value k v"
proof -
  from inv have sorted: "sorted_wrt (\<lambda>a b. mr_kind a < mr_kind b) rs" by (simp add: ms_inv_def)
  then obtain lo hi where s: "rs = lo @ hi" "ms_lower_bound k rs = length lo"
    "\<forall>r \<in> set lo. mr_kind r < k" "hi = [] \<or> k \<le> mr_kind (hd hi)"
    "\<forall>r \<in> set (tl hi). k < mr_kind r"
    by (rule ms_split)
  from ok have v: "validate_metric_value k v" and len: "length rs < kMaxMetricReadings"
    and new: "\<not> (length lo \<noteq> length rs \<and> mr_kind (rs ! length lo) = k)"
    and rs': "rs' = lo @ \<lparr>mr_kind = k, mr_value = v\<rparr> # hi"
    unfolding ms_set_def Let_def s(2) by (simp_all add: s(1) linorder_not_le split: if_splits)
  have hi: "\<forall>r \<in> set hi. k < mr_kind r"
    using s new by (cases hi) auto
  show "validate_metric_value k v" by (fact v)
  show "ms_inv rs'"
    using inv len v s(3) hi by (force simp: ms_inv_def rs' s(1) sorted_wrt_append)
  show "ms_abs rs k = None"
    using s(3) hi by (simp add: ms_abs_def s(1) map_add_def ms_abs_append_lower ms_abs_upper)
  show "ms_abs rs' = (ms_abs rs)(k \<mapsto> v)"
    using s(3) hi
    by (auto simp: ms_abs_def rs' s(1) fun_eq_iff map_add_def ms_abs_append_lower split: option.splits)
qed

lemma ms_set_Inl:
  assumes inv: "ms_inv rs"
  shows "ms_set k v rs = Inl e \<longleftrightarrow>
    (\<not> validate_metric_value k v \<and> e = Err_InvalidArgument) \<or>
    (validate_metric_value k v \<and> length rs = kMaxMetricReadings \<and> e = Err_LimitExceeded) \<or>
    (validate_metric_value k v \<and> length rs < kMaxMetricReadings \<and> ms_abs rs k \<noteq> None \<and> e = Err_Duplicate)"
proof -
  have "(ms_lower_bound k rs \<noteq> length rs \<and> mr_kind (rs ! ms_lower_bound k rs) = k) \<longleftrightarrow> ms_abs rs k \<noteq> None"
    unfolding ms_get_abs [OF inv, symmetric] by (simp add: ms_get_def Let_def)
  moreover have "length rs \<le> kMaxMetricReadings" using inv by (simp add: ms_inv_def)
  ultimately show ?thesis by (auto simp: ms_set_def Let_def)
qed

lemma ms_ext:
  assumes "ms_inv a" "ms_inv b" "ms_abs a = ms_abs b"
  shows "a = b"
proof -
  let ?f = "\<lambda>r. (mr_kind r, mr_value r)"
  have sorted: "om_inv (map ?f s)" if "ms_inv s" for s
    using that by (simp add: ms_inv_def om_inv_def sorted_wrt_map comp_def)
  have "map ?f a = map ?f b"
    using assms by (intro om_ext sorted) (simp_all add: ms_abs_def)
  then show ?thesis
    by (rule map_injective) (auto intro!: injI)
qed

section \<open>Properties of the metric set\<close>

text \<open>On a well-formed metric set, \<^verbatim>\<open>MetricSet::set\<close> either succeeds, and then the kind was absent,
  the set stays well formed and every later \<^verbatim>\<open>get\<close> returns the new value for that kind and the old
  value for every other kind; or it refuses with exactly one of the three documented causes: an
  implausible reading, a full set, or a kind that is already present. A reading is never merged
  over another.\<close>

theorem ms_set_correct:
  assumes "ms_inv rs"
  shows "case ms_set k v rs of
      Inr rs' \<Rightarrow> ms_inv rs' \<and> validate_metric_value k v \<and> ms_get rs k = None \<and>
        (\<forall>k'. ms_get rs' k' = (if k' = k then Some v else ms_get rs k'))
    | Inl e \<Rightarrow>
        (\<not> validate_metric_value k v \<and> e = Err_InvalidArgument) \<or>
        (validate_metric_value k v \<and> length rs = kMaxMetricReadings \<and> e = Err_LimitExceeded) \<or>
        (validate_metric_value k v \<and> length rs < kMaxMetricReadings \<and> ms_get rs k \<noteq> None \<and>
          e = Err_Duplicate)"
proof (cases "ms_set k v rs")
  case (Inl e)
  then show ?thesis
    using ms_set_Inl [OF assms, of k v e] by (simp add: ms_get_abs [OF assms])
next
  case (Inr rs')
  note ok = ms_set_Inr [OF assms Inr]
  then show ?thesis
    by (simp add: Inr ms_get_abs [OF assms] ms_get_abs [OF ok(1)])
qed

theorem ms_set_correct_witness:
  "ms_set MK_LossRatePpm 7 [\<lparr>mr_kind = MK_UtilizationPpm, mr_value = 5\<rparr>] =
     Inr [\<lparr>mr_kind = MK_UtilizationPpm, mr_value = 5\<rparr>, \<lparr>mr_kind = MK_LossRatePpm, mr_value = 7\<rparr>] \<and>
   ms_get [\<lparr>mr_kind = MK_UtilizationPpm, mr_value = 5\<rparr>, \<lparr>mr_kind = MK_LossRatePpm, mr_value = 7\<rparr>]
     MK_LossRatePpm = Some 7"
proof -
  let ?rs = "[\<lparr>mr_kind = MK_UtilizationPpm, mr_value = 5\<rparr>]"
  have "ms_inv ?rs"
    by (simp add: ms_inv_def validate_metric_value_def metric_descriptor_def kMetricTable_def
        metric_row_def ncf_defs)
  moreover have "ms_set MK_LossRatePpm 7 ?rs =
      Inr [\<lparr>mr_kind = MK_UtilizationPpm, mr_value = 5\<rparr>, \<lparr>mr_kind = MK_LossRatePpm, mr_value = 7\<rparr>]"
    by (simp add: ms_set_def ms_lower_bound_def validate_metric_value_def metric_descriptor_def
        kMetricTable_def metric_row_def ncf_defs less_MetricKind_def)
  ultimately show ?thesis
    using ms_set_correct [of ?rs MK_LossRatePpm 7] by simp
qed

text \<open>The content of a metric set does not depend on the order in which its readings were
  inserted: two sequences of successful insertions with the same readings end in the same set,
  and so in the same fingerprint and the same content identity of the sample.\<close>

theorem ms_set_order_independent:
  assumes "ms_build xs = Inr a"
    and "ms_build ys = Inr b"
    and "set xs = set ys"
  shows "a = b \<and> ms_fingerprint a = ms_fingerprint b"
proof -
  have run: "ms_inv s \<and> (\<forall>k v. ms_abs s k = Some v \<longleftrightarrow> (k, v) \<in> set zs)"
    if "ms_build zs = Inr s" for zs s
    using that
  proof (induction zs arbitrary: s rule: rev_induct)
    case Nil
    then show ?case by (simp add: ms_build_def ms_abs_def)
  next
    case (snoc z zs)
    obtain k v where z: "z = (k, v)" by (cases z)
    from snoc.prems obtain s0 where s0: "ms_build zs = Inr s0" and "ms_set k v s0 = Inr s"
      by (auto simp: ms_build_def z split: sum.splits)
    note ok = ms_set_Inr [OF conjunct1 [OF snoc.IH [OF s0]] \<open>ms_set k v s0 = Inr s\<close>]
    have "(k, w) \<notin> set zs" for w
      using snoc.IH [OF s0] ok(3) by (metis option.distinct(1))
    then show ?case
      using snoc.IH [OF s0] ok by (auto simp: z)
  qed
  have "ms_abs a = ms_abs b"
  proof
    fix k
    show "ms_abs a k = ms_abs b k"
      using run [OF assms(1)] run [OF assms(2)] assms(3) by (metis option.exhaust)
  qed
  then have "a = b"
    using run [OF assms(1)] run [OF assms(2)] by (intro ms_ext) simp_all
  then show ?thesis by simp
qed

theorem ms_set_order_independent_witness:
  "ms_build
     [(MK_LossRatePpm, 7), (MK_UtilizationPpm, 5)] =
   ms_build
     [(MK_UtilizationPpm, 5), (MK_LossRatePpm, 7)]"
proof -
  let ?s = "[\<lparr>mr_kind = MK_UtilizationPpm, mr_value = 5\<rparr>, \<lparr>mr_kind = MK_LossRatePpm, mr_value = 7\<rparr>]"
  have one: "ms_build [(MK_LossRatePpm, 7), (MK_UtilizationPpm, 5)] = Inr ?s"
    by (simp add: ms_build_def ms_set_def ms_lower_bound_def validate_metric_value_def metric_descriptor_def
        kMetricTable_def metric_row_def ncf_defs less_MetricKind_def)
  have two: "ms_build [(MK_UtilizationPpm, 5), (MK_LossRatePpm, 7)] = Inr ?s"
    by (simp add: ms_build_def ms_set_def ms_lower_bound_def validate_metric_value_def metric_descriptor_def
        kMetricTable_def metric_row_def ncf_defs less_MetricKind_def)
  have "set [(MK_LossRatePpm, 7 :: u64), (MK_UtilizationPpm, 5)] =
      set [(MK_UtilizationPpm, 5), (MK_LossRatePpm, 7)]"
    by auto
  from ms_set_order_independent [OF one two this] one two show ?thesis by simp
qed

end
