(* ===== verification/NCF_Authority.thy ===== *)
theory NCF_Authority
  imports NCF_Evidence
begin

text \<open>
  Capabilities and fences, \<^verbatim>\<open>include/ncf/model/{authority,fence}.hpp\<close> and
  \<^verbatim>\<open>src/model/authority.cpp\<close>: the capability bit set, the authority vector every decision is
  bound to, the authority check with the reason of a refusal, publisher registrations, fence and
  revalidation records.
\<close>

unbundle bit_operations_syntax

section \<open>Capability sets\<close>

type_synonym AuthoritySet = u32

definition aset_none :: AuthoritySet where "aset_none = 0"
definition aset_all :: AuthoritySet where "aset_all = kAuthorityAllBits"

definition aset_of :: "Authority \<Rightarrow> AuthoritySet" where
  "aset_of a = authority_bit a"

definition aset_grant :: "Authority \<Rightarrow> AuthoritySet \<Rightarrow> AuthoritySet" where
  "aset_grant a bits = bits OR authority_bit a"

definition aset_revoke :: "Authority \<Rightarrow> AuthoritySet \<Rightarrow> AuthoritySet" where
  "aset_revoke a bits = bits AND NOT (authority_bit a)"

definition aset_grants :: "AuthoritySet \<Rightarrow> Authority \<Rightarrow> bool" where
  "aset_grants bits a \<longleftrightarrow> bits AND authority_bit a \<noteq> 0"

definition aset_empty :: "AuthoritySet \<Rightarrow> bool" where
  "aset_empty bits \<longleftrightarrow> bits = 0"

definition kAuthorityNames :: "(Authority \<times> string) list" where
  "kAuthorityNames =
     [(Auth_Observe, ''observe''),
      (Auth_Evaluate, ''evaluate''),
      (Auth_PlanInterventions, ''plan-interventions''),
      (Auth_ReduceAdmissibleBudget, ''reduce-admissible-budget''),
      (Auth_RequestRateReduction, ''request-rate-reduction''),
      (Auth_RequestPacing, ''request-pacing''),
      (Auth_RequestReroute, ''request-reroute''),
      (Auth_RequestRebalance, ''request-rebalance''),
      (Auth_RequestBackpressure, ''request-backpressure''),
      (Auth_ProtectCriticalClasses, ''protect-critical-classes''),
      (Auth_EnterDegradedMode, ''enter-degraded-mode''),
      (Auth_MakeRecoveryPlanEligible, ''make-recovery-plan-eligible''),
      (Auth_DurabilityWrite, ''durability-write''),
      (Auth_Fence, ''fence''),
      (Auth_AdvanceEpoch, ''advance-epoch''),
      (Auth_MutatePolicy, ''mutate-policy'')]"

definition aset_describe :: "AuthoritySet \<Rightarrow> string" where
  "aset_describe bits =
     (if bits = 0 then ''none''
      else
        let out = fold (\<lambda>(a, name) out.
                    if bits AND authority_bit a = 0 then out
                    else (if out \<noteq> [] then out @ '','' else out) @ name) kAuthorityNames []
        in if out = [] then ''none'' else out)"

section \<open>Authority vectors\<close>

record AuthorityVector =
  av_epoch :: EpochId
  av_generation :: AuthorityGeneration
  av_policy :: PolicyId
  av_policy_fingerprint :: Hash64
  av_coordinator_boot :: BootId
  av_granted :: AuthoritySet
  av_denied :: AuthoritySet
  av_issued_tick :: Tick
  av_expires_tick :: Tick
  av_provenance :: ProvenanceId

definition empty_av :: AuthorityVector where
  "empty_av = \<lparr>av_epoch = 0, av_generation = 0, av_policy = 0, av_policy_fingerprint = 0,
     av_coordinator_boot = 0, av_granted = 0, av_denied = 0, av_issued_tick = kNoTick,
     av_expires_tick = 0, av_provenance = 0\<rparr>"

definition av_expired_at :: "AuthorityVector \<Rightarrow> Tick \<Rightarrow> bool" where
  "av_expired_at v now \<longleftrightarrow> av_expires_tick v \<noteq> 0 \<and> now > av_expires_tick v"

definition av_valid_at :: "AuthorityVector \<Rightarrow> Tick \<Rightarrow> bool" where
  "av_valid_at v now \<longleftrightarrow> id_valid (av_epoch v) \<and> \<not> av_expired_at v now"

definition av_allows :: "AuthorityVector \<Rightarrow> Authority \<Rightarrow> bool" where
  "av_allows v a \<longleftrightarrow> aset_grants (av_granted v) a \<and> \<not> aset_grants (av_denied v) a"

definition av_allows_kind :: "AuthorityVector \<Rightarrow> InterventionKind \<Rightarrow> bool" where
  "av_allows_kind v k =
     (let required = required_authority k in required \<noteq> Auth_None \<and> av_allows v required)"

record AuthorityDecision =
  ad_allowed :: bool
  ad_reason :: SuppressionReason
  ad_detail :: string

definition check_authority :: "AuthorityVector \<Rightarrow> Tick \<Rightarrow> Authority \<Rightarrow> AuthorityDecision" where
  "check_authority v now required =
     (if required = Auth_None then
        \<lparr>ad_allowed = False, ad_reason = SR_AuthorityDenied, ad_detail = ''intervention class maps to no authority bit''\<rparr>
      else if \<not> id_valid (av_epoch v) then
        \<lparr>ad_allowed = False, ad_reason = SR_EpochFenced, ad_detail = ''authority vector is not bound to an epoch''\<rparr>
      else if av_expired_at v now then
        \<lparr>ad_allowed = False, ad_reason = SR_AuthorityExpired, ad_detail = ''authority vector expired before the decision tick''\<rparr>
      else if aset_grants (av_denied v) required then
        \<lparr>ad_allowed = False, ad_reason = SR_AuthorityDenied, ad_detail = ''capability is explicitly withheld''\<rparr>
      else if \<not> aset_grants (av_granted v) required then
        \<lparr>ad_allowed = False, ad_reason = SR_AuthorityDenied, ad_detail = ''capability was never granted''\<rparr>
      else \<lparr>ad_allowed = True, ad_reason = SR_None, ad_detail = []\<rparr>)"

section \<open>Publishers, fences and revalidation\<close>

record PublisherRegistration =
  pr_publisher :: PublisherId
  pr_boot :: BootId
  pr_epoch :: EpochId
  pr_connection :: ConnectionId
  pr_registered_tick :: Tick
  pr_last_seen_tick :: Tick
  pr_last_generation :: EvidenceGeneration
  pr_last_sequence :: u64
  pr_granted :: AuthoritySet
  pr_alive :: bool
  pr_fenced :: bool
  pr_fence_reason :: FenceReason
  pr_provenance :: ProvenanceId

record FenceRecord =
  fe_id :: FenceId
  fe_epoch :: EpochId
  fe_publisher :: PublisherId
  fe_boot :: BootId
  fe_last_generation :: EvidenceGeneration
  fe_reason :: FenceReason
  fe_issued_tick :: Tick
  fe_provenance :: ProvenanceId
  fe_detail :: string

record RevalidationRecord =
  rv_domain :: DomainId
  rv_previous_epoch :: EpochId
  rv_epoch :: EpochId
  rv_restored_state :: CongestionState
  rv_effective_state :: CongestionState
  rv_state_restored :: bool
  rv_authority_restored :: bool
  rv_freshness_restored :: bool
  rv_recorded_tick :: Tick
  rv_provenance :: ProvenanceId
  rv_detail :: string

section \<open>What an authority check promises\<close>

lemma check_authority_allowed:
  "ad_allowed (check_authority v now required) \<longleftrightarrow>
     required \<noteq> Auth_None \<and> av_valid_at v now \<and> av_allows v required"
  by (auto simp: check_authority_def av_valid_at_def av_allows_def)

lemma aset_grants_revoke: "\<not> aset_grants (aset_revoke a bits) a"
proof -
  have "(bits AND NOT (authority_bit a)) AND authority_bit a = 0"
    by (rule bit_word_eqI) (simp add: bit_simps)
  then show ?thesis by (simp add: aset_grants_def aset_revoke_def)
qed

lemma aset_grants_grant: "authority_bit a \<noteq> 0 \<Longrightarrow> aset_grants (aset_grant a bits) a"
proof -
  have "(bits OR authority_bit a) AND authority_bit a = authority_bit a"
    by (rule bit_word_eqI) (auto simp: bit_simps)
  then show "authority_bit a \<noteq> 0 \<Longrightarrow> ?thesis" by (simp add: aset_grants_def aset_grant_def)
qed

lemma denied_not_allowed:
  "\<not> ad_allowed (check_authority (v\<lparr>av_denied := aset_grant a (av_denied v)\<rparr>) now a)"
  using aset_grants_grant [of a "av_denied v"]
  by (cases "authority_bit a = 0")
    (auto simp: check_authority_allowed av_allows_def aset_grants_def authority_bit_def)

text \<open>An authority check allows a capability exactly when the capability exists, the vector is
  bound to an epoch and unexpired at the decision tick, and the capability is granted and not
  withheld; every refusal carries the reason of the first failing condition, and withholding a
  capability beats granting it, whatever else the vector holds.\<close>

theorem check_authority_exact:
  "check_authority v now required =
     (if required \<noteq> Auth_None \<and> av_valid_at v now \<and> av_allows v required
      then \<lparr>ad_allowed = True, ad_reason = SR_None, ad_detail = []\<rparr>
      else \<lparr>ad_allowed = False,
             ad_reason =
               (if required \<noteq> Auth_None \<and> av_epoch v = 0 then SR_EpochFenced
                else if required \<noteq> Auth_None \<and> av_expired_at v now then SR_AuthorityExpired
                else SR_AuthorityDenied),
             ad_detail =
               (if required = Auth_None then ''intervention class maps to no authority bit''
                else if av_epoch v = 0 then ''authority vector is not bound to an epoch''
                else if av_expired_at v now then ''authority vector expired before the decision tick''
                else if aset_grants (av_denied v) required then ''capability is explicitly withheld''
                else ''capability was never granted'')\<rparr>) \<and>
   \<not> ad_allowed (check_authority (v\<lparr>av_denied := aset_grant a (av_denied v)\<rparr>) now a)"
  by (simp add: denied_not_allowed)
    (auto simp: check_authority_def av_valid_at_def av_allows_def id_valid_def)

end
