(* ===== verification/NCF_Policy.thy ===== *)
theory NCF_Policy
  imports NCF_Authority
begin

text \<open>
  Congestion policies, \<^verbatim>\<open>include/ncf/model/policy.hpp\<close> and \<^verbatim>\<open>src/model/policy.cpp\<close>: threshold
  rules and their classification with and without the downgrade margin, the hysteresis, recovery,
  propagation, freshness, contradiction and intervention policies, the fingerprint of a policy,
  its validation and the default policy.

  A \<^verbatim>\<open>std::size_t\<close> field of a policy is a 64-bit word and is compared with a container size
  through its value.
\<close>

section \<open>The policy data model\<close>

datatype ThresholdOp = ThresholdOp (op_u8: u8)

abbreviation Op_AtLeast :: ThresholdOp where "Op_AtLeast \<equiv> ThresholdOp 0"
abbreviation Op_AtMost :: ThresholdOp where "Op_AtMost \<equiv> ThresholdOp 1"

record ThresholdRule =
  tr_metric :: MetricKind
  tr_op :: ThresholdOp
  tr_watch :: u64
  tr_congested :: u64
  tr_severe :: u64
  tr_required :: bool
  tr_max_age_ticks :: Tick
  tr_weight :: u32

record HysteresisPolicy =
  hp_escalate_samples :: u32
  hp_deescalate_samples :: u32
  hp_min_dwell_ticks :: Tick
  hp_downgrade_margin_ppm :: u32
  hp_require_all_rules_agree_on_downgrade :: bool
  hp_apply_dwell_on_escalation :: bool

record RecoveryPolicy =
  rp_enabled :: bool
  rp_min_improved_samples :: u32
  rp_allow_single_sample :: bool
  rp_clear_samples :: u32
  rp_recovering_hold_ticks :: Tick

record PropagationPolicy =
  pp_enabled :: bool
  pp_max_depth :: u32
  pp_decay_ppm :: u32
  pp_max_induced_severity :: Severity
  pp_follow_links :: bool
  pp_follow_paths :: bool
  pp_min_pressure_ppm :: u32

record FreshnessPolicy =
  fp_default_max_age_ticks :: Tick
  fp_max_future_skew_ticks :: Tick
  fp_heartbeat_refreshes_freshness :: bool

datatype ContradictionMode = ContradictionMode (cm_u8: u8)

abbreviation CM_Reject :: ContradictionMode where "CM_Reject \<equiv> ContradictionMode 0"
abbreviation CM_PreferHighestPriority :: ContradictionMode where
  "CM_PreferHighestPriority \<equiv> ContradictionMode 1"
abbreviation CM_PreferNewest :: ContradictionMode where "CM_PreferNewest \<equiv> ContradictionMode 2"

record ContradictionPolicy =
  cp_mode :: ContradictionMode
  cp_absolute_tolerance :: u64
  cp_relative_tolerance_ppm :: u32
  cp_min_distinct_publishers :: u64
  cp_priority_order :: "PublisherId list"

record InterventionRule =
  ir_at_least :: Severity
  ir_kind :: InterventionKind
  ir_target_class :: ClassId
  ir_target_domain :: DomainId
  ir_require_fresh_evidence :: bool
  ir_require_authoritative_state :: bool
  ir_parameter_min :: u64
  ir_parameter_max :: u64
  ir_parameter_default :: u64
  ir_priority :: u32
  ir_min_repeat_interval_ticks :: Tick

record PolicyLimits =
  pl_max_resources_per_domain :: u64
  pl_max_metrics_per_sample :: u64
  pl_max_paths_considered :: u64
  pl_max_domain_depth :: u32
  pl_max_explanation_entries :: u64
  pl_max_interventions_per_plan :: u64
  pl_max_conflict_reports :: u64
  pl_max_stale_reports :: u64

record CongestionPolicy =
  po_id :: PolicyId
  po_version :: u32
  po_name :: string
  po_rules :: "ThresholdRule list"
  po_hysteresis :: HysteresisPolicy
  po_recovery :: RecoveryPolicy
  po_propagation :: PropagationPolicy
  po_freshness :: FreshnessPolicy
  po_contradiction :: ContradictionPolicy
  po_interventions :: "InterventionRule list"
  po_limits :: PolicyLimits
  po_min_agreeing_rules_for_watch :: u32
  po_min_agreeing_rules_for_congested :: u32
  po_min_agreeing_rules_for_severe :: u32
  po_fingerprint :: Hash64

definition kMaxPolicyNameBytes :: nat where [ncf_defs]: "kMaxPolicyNameBytes = 256"

section \<open>Classification\<close>

definition scale_down_by_margin :: "u64 \<Rightarrow> u32 \<Rightarrow> u64" where
  "scale_down_by_margin threshold margin_ppm =
     (let drop = (threshold div 1000000) * ucast margin_ppm +
                 ((threshold mod 1000000) * ucast margin_ppm) div 1000000
      in if threshold > drop then threshold - drop else 0)"

definition scale_up_by_margin :: "u64 \<Rightarrow> u32 \<Rightarrow> u64" where
  "scale_up_by_margin threshold margin_ppm =
     (let rise = (threshold div 1000000) * ucast margin_ppm +
                 ((threshold mod 1000000) * ucast margin_ppm) div 1000000
      in saturating_add threshold rise)"

record RuleShape =
  rs_watch :: u64
  rs_congested :: u64
  rs_severe :: u64

definition plain_shape :: "ThresholdRule \<Rightarrow> RuleShape" where
  "plain_shape rule =
     \<lparr>rs_watch = tr_watch rule, rs_congested = tr_congested rule, rs_severe = tr_severe rule\<rparr>"

definition rule_shape :: "ThresholdRule \<Rightarrow> u32 \<Rightarrow> RuleShape" where
  "rule_shape rule margin_ppm =
     (if margin_ppm = 0 then plain_shape rule
      else if tr_op rule = Op_AtLeast then
        \<lparr>rs_watch = scale_down_by_margin (tr_watch rule) margin_ppm,
         rs_congested = scale_down_by_margin (tr_congested rule) margin_ppm,
         rs_severe = scale_down_by_margin (tr_severe rule) margin_ppm\<rparr>
      else
        \<lparr>rs_watch = scale_up_by_margin (tr_watch rule) margin_ppm,
         rs_congested = scale_up_by_margin (tr_congested rule) margin_ppm,
         rs_severe = scale_up_by_margin (tr_severe rule) margin_ppm\<rparr>)"

definition classify_shape :: "ThresholdRule \<Rightarrow> RuleShape \<Rightarrow> u64 \<Rightarrow> Severity" where
  "classify_shape rule bounds value =
     (if tr_op rule = Op_AtLeast then
        if value \<ge> rs_severe bounds then Sev_Severe
        else if value \<ge> rs_congested bounds then Sev_Congested
        else if value \<ge> rs_watch bounds then Sev_Watch
        else Sev_Clear
      else if value \<le> rs_severe bounds then Sev_Severe
      else if value \<le> rs_congested bounds then Sev_Congested
      else if value \<le> rs_watch bounds then Sev_Watch
      else Sev_Clear)"

definition classify :: "ThresholdRule \<Rightarrow> u64 \<Rightarrow> Severity" where
  "classify rule value =
     (if tr_weight rule = 0 then Sev_Clear else classify_shape rule (plain_shape rule) value)"

definition classify_rule_with_margin :: "ThresholdRule \<Rightarrow> u64 \<Rightarrow> u32 \<Rightarrow> Severity" where
  "classify_rule_with_margin rule value margin_ppm =
     (if tr_weight rule = 0 then Sev_Clear
      else classify_shape rule (rule_shape rule margin_ppm) value)"

fun max_age_for_rules :: "ThresholdRule list \<Rightarrow> MetricKind \<Rightarrow> Tick \<Rightarrow> Tick" where
  "max_age_for_rules [] kind dflt = dflt"
| "max_age_for_rules (rule # rules) kind dflt =
     (if tr_metric rule = kind \<and> tr_max_age_ticks rule \<noteq> 0 then tr_max_age_ticks rule
      else max_age_for_rules rules kind dflt)"

definition max_age_for :: "CongestionPolicy \<Rightarrow> MetricKind \<Rightarrow> Tick" where
  "max_age_for policy kind =
     max_age_for_rules (po_rules policy) kind (fp_default_max_age_ticks (po_freshness policy))"

section \<open>Fingerprint\<close>

definition hash_threshold_rule :: "ThresholdRule \<Rightarrow> u64 \<Rightarrow> u64" where
  "hash_threshold_rule r h0 =
     (let h1 = hash_u16 (mk_u16 (tr_metric r)) h0;
          h2 = hash_u8 (op_u8 (tr_op r)) h1;
          h3 = hash_u64 (tr_watch r) h2;
          h4 = hash_u64 (tr_congested r) h3;
          h5 = hash_u64 (tr_severe r) h4;
          h6 = hash_bool (tr_required r) h5;
          h7 = hash_u64 (tr_max_age_ticks r) h6
      in hash_u32 (tr_weight r) h7)"

definition hash_hysteresis :: "HysteresisPolicy \<Rightarrow> u64 \<Rightarrow> u64" where
  "hash_hysteresis p h0 =
     (let h1 = hash_u32 (hp_escalate_samples p) h0;
          h2 = hash_u32 (hp_deescalate_samples p) h1;
          h3 = hash_u64 (hp_min_dwell_ticks p) h2;
          h4 = hash_u32 (hp_downgrade_margin_ppm p) h3;
          h5 = hash_bool (hp_require_all_rules_agree_on_downgrade p) h4
      in hash_bool (hp_apply_dwell_on_escalation p) h5)"

definition hash_recovery :: "RecoveryPolicy \<Rightarrow> u64 \<Rightarrow> u64" where
  "hash_recovery p h0 =
     (let h1 = hash_bool (rp_enabled p) h0;
          h2 = hash_u32 (rp_min_improved_samples p) h1;
          h3 = hash_bool (rp_allow_single_sample p) h2;
          h4 = hash_u32 (rp_clear_samples p) h3
      in hash_u64 (rp_recovering_hold_ticks p) h4)"

definition hash_propagation :: "PropagationPolicy \<Rightarrow> u64 \<Rightarrow> u64" where
  "hash_propagation p h0 =
     (let h1 = hash_bool (pp_enabled p) h0;
          h2 = hash_u32 (pp_max_depth p) h1;
          h3 = hash_u32 (pp_decay_ppm p) h2;
          h4 = hash_u8 (sev_u8 (pp_max_induced_severity p)) h3;
          h5 = hash_bool (pp_follow_links p) h4;
          h6 = hash_bool (pp_follow_paths p) h5
      in hash_u32 (pp_min_pressure_ppm p) h6)"

definition hash_freshness :: "FreshnessPolicy \<Rightarrow> u64 \<Rightarrow> u64" where
  "hash_freshness p h0 =
     (let h1 = hash_u64 (fp_default_max_age_ticks p) h0;
          h2 = hash_u64 (fp_max_future_skew_ticks p) h1
      in hash_bool (fp_heartbeat_refreshes_freshness p) h2)"

definition hash_contradiction :: "ContradictionPolicy \<Rightarrow> u64 \<Rightarrow> u64" where
  "hash_contradiction p h0 =
     (let h1 = hash_u8 (cm_u8 (cp_mode p)) h0;
          h2 = hash_u64 (cp_absolute_tolerance p) h1;
          h3 = hash_u32 (cp_relative_tolerance_ppm p) h2;
          h4 = hash_u64 (cp_min_distinct_publishers p) h3;
          h5 = hash_u64 (of_nat (length (cp_priority_order p))) h4
      in fold hash_u64 (cp_priority_order p) h5)"

definition hash_intervention_rule :: "InterventionRule \<Rightarrow> u64 \<Rightarrow> u64" where
  "hash_intervention_rule r h0 =
     (let h1 = hash_u8 (sev_u8 (ir_at_least r)) h0;
          h2 = hash_u8 (ik_u8 (ir_kind r)) h1;
          h3 = hash_u64 (ir_target_class r) h2;
          h4 = hash_u64 (ir_target_domain r) h3;
          h5 = hash_bool (ir_require_fresh_evidence r) h4;
          h6 = hash_bool (ir_require_authoritative_state r) h5;
          h7 = hash_u64 (ir_parameter_min r) h6;
          h8 = hash_u64 (ir_parameter_max r) h7;
          h9 = hash_u64 (ir_parameter_default r) h8;
          h10 = hash_u32 (ir_priority r) h9
      in hash_u64 (ir_min_repeat_interval_ticks r) h10)"

definition hash_limits :: "PolicyLimits \<Rightarrow> u64 \<Rightarrow> u64" where
  "hash_limits p h0 =
     (let h1 = hash_u64 (pl_max_resources_per_domain p) h0;
          h2 = hash_u64 (pl_max_metrics_per_sample p) h1;
          h3 = hash_u64 (pl_max_paths_considered p) h2;
          h4 = hash_u32 (pl_max_domain_depth p) h3;
          h5 = hash_u64 (pl_max_explanation_entries p) h4;
          h6 = hash_u64 (pl_max_interventions_per_plan p) h5;
          h7 = hash_u64 (pl_max_conflict_reports p) h6
      in hash_u64 (pl_max_stale_reports p) h7)"

definition fingerprint_policy :: "CongestionPolicy \<Rightarrow> Hash64" where
  "fingerprint_policy p =
     (let h1 = hash_u64 (po_id p) kFnvOffset;
          h2 = hash_u32 (po_version p) h1;
          h3 = hash_text_framed (po_name p) h2;
          h4 = hash_u64 (of_nat (length (po_rules p))) h3;
          h5 = fold hash_threshold_rule (po_rules p) h4;
          h6 = hash_hysteresis (po_hysteresis p) h5;
          h7 = hash_recovery (po_recovery p) h6;
          h8 = hash_propagation (po_propagation p) h7;
          h9 = hash_freshness (po_freshness p) h8;
          h10 = hash_contradiction (po_contradiction p) h9;
          h11 = hash_u64 (of_nat (length (po_interventions p))) h10;
          h12 = fold hash_intervention_rule (po_interventions p) h11;
          h13 = hash_limits (po_limits p) h12;
          h14 = hash_u32 (po_min_agreeing_rules_for_watch p) h13;
          h15 = hash_u32 (po_min_agreeing_rules_for_congested p) h14;
          h16 = hash_u32 (po_min_agreeing_rules_for_severe p) h15
      in hash_finish h16)"

section \<open>Validation\<close>

text \<open>The body of the loop over threshold rules, with the kinds already seen.\<close>

fun validate_rules :: "FreshnessPolicy \<Rightarrow> MetricKind list \<Rightarrow> ThresholdRule list \<Rightarrow> void_result" where
  "validate_rules fresh seen [] = Inr ()"
| "validate_rules fresh seen (rule # rules) =
     (if tr_metric rule = MK_Unknown \<or> tr_metric rule = MK_Count then Inl Err_PolicyRejected
      else if tr_metric rule \<in> set seen then Inl Err_PolicyRejected
      else if tr_weight rule = 0 then Inl Err_PolicyRejected
      else
        let plausible = metric_plausible_max (tr_metric rule) in
        if tr_watch rule > plausible \<or> tr_congested rule > plausible \<or> tr_severe rule > plausible
        then Inl Err_PolicyRejected
        else if tr_op rule = Op_AtLeast \<and>
          \<not> (tr_watch rule \<le> tr_congested rule \<and> tr_congested rule \<le> tr_severe rule)
        then Inl Err_PolicyRejected
        else if tr_op rule \<noteq> Op_AtLeast \<and>
          \<not> (tr_severe rule \<le> tr_congested rule \<and> tr_congested rule \<le> tr_watch rule)
        then Inl Err_PolicyRejected
        else if tr_max_age_ticks rule > fp_default_max_age_ticks fresh * 1000 + 1
        then Inl Err_PolicyRejected
        else validate_rules fresh (seen @ [tr_metric rule]) rules)"

definition validate_hysteresis :: "HysteresisPolicy \<Rightarrow> void_result" where
  "validate_hysteresis h =
     (if hp_escalate_samples h = 0 \<or> hp_escalate_samples h > kMaxHysteresisSamples
      then Inl Err_PolicyRejected
      else if hp_deescalate_samples h = 0 \<or> hp_deescalate_samples h > kMaxHysteresisSamples
      then Inl Err_PolicyRejected
      else if hp_min_dwell_ticks h > kMaxDwellTicks then Inl Err_PolicyRejected
      else if hp_downgrade_margin_ppm h > 1000000 then Inl Err_PolicyRejected
      else Inr ())"

definition validate_recovery :: "RecoveryPolicy \<Rightarrow> void_result" where
  "validate_recovery r =
     (if rp_min_improved_samples r = 0 \<or> rp_min_improved_samples r > kMaxHysteresisSamples
      then Inl Err_PolicyRejected
      else if \<not> rp_allow_single_sample r \<and> rp_min_improved_samples r < 2
      then Inl Err_PolicyRejected
      else if rp_clear_samples r = 0 \<or> rp_clear_samples r > kMaxHysteresisSamples
      then Inl Err_PolicyRejected
      else Inr ())"

definition validate_propagation :: "PropagationPolicy \<Rightarrow> void_result" where
  "validate_propagation p =
     (if pp_decay_ppm p > 1000000 then Inl Err_PolicyRejected
      else if unat (pp_max_depth p) > kMaxResourceDepth then Inl Err_PolicyRejected
      else if sev_u8 (pp_max_induced_severity p) > sev_u8 Sev_Severe then Inl Err_PolicyRejected
      else Inr ())"

definition validate_freshness :: "FreshnessPolicy \<Rightarrow> void_result" where
  "validate_freshness f =
     (if fp_default_max_age_ticks f = 0 then Inl Err_PolicyRejected
      else if fp_default_max_age_ticks f > 3600000000 then Inl Err_PolicyRejected
      else if fp_max_future_skew_ticks f > fp_default_max_age_ticks f then Inl Err_PolicyRejected
      else Inr ())"

definition validate_contradiction :: "ContradictionPolicy \<Rightarrow> void_result" where
  "validate_contradiction c =
     (if cp_relative_tolerance_ppm c > 1000000 then Inl Err_PolicyRejected
      else if cp_min_distinct_publishers c < 2 then Inl Err_PolicyRejected
      else if length (cp_priority_order c) > kMaxPublishers then Inl Err_PolicyRejected
      else Inr ())"

fun validate_interventions :: "InterventionRule list \<Rightarrow> void_result" where
  "validate_interventions [] = Inr ()"
| "validate_interventions (rule # rules) =
     (if ir_kind rule = IK_None \<or> ir_kind rule = IK_Count then Inl Err_PolicyRejected
      else if required_authority (ir_kind rule) = Auth_None then Inl Err_PolicyRejected
      else if ir_parameter_min rule > ir_parameter_max rule then Inl Err_PolicyRejected
      else if ir_parameter_default rule < ir_parameter_min rule \<or>
        ir_parameter_default rule > ir_parameter_max rule then Inl Err_PolicyRejected
      else if ir_min_repeat_interval_ticks rule > kMaxDwellTicks then Inl Err_PolicyRejected
      else validate_interventions rules)"

definition validate_limits :: "PolicyLimits \<Rightarrow> void_result" where
  "validate_limits l =
     (if pl_max_resources_per_domain l = 0 \<or>
        unat (pl_max_resources_per_domain l) > kMaxResourcesPerDomain then Inl Err_PolicyRejected
      else if pl_max_metrics_per_sample l = 0 \<or>
        unat (pl_max_metrics_per_sample l) > kMaxMetricReadings then Inl Err_PolicyRejected
      else if unat (pl_max_paths_considered l) > kMaxPathsPerTopology then Inl Err_PolicyRejected
      else if pl_max_domain_depth l = 0 \<or> unat (pl_max_domain_depth l) > kMaxResourceDepth
      then Inl Err_PolicyRejected
      else if pl_max_explanation_entries l = 0 \<or>
        unat (pl_max_explanation_entries l) > kMaxExplanationEntries then Inl Err_PolicyRejected
      else if pl_max_interventions_per_plan l = 0 \<or>
        unat (pl_max_interventions_per_plan l) > kMaxInterventionsPerPlan
      then Inl Err_PolicyRejected
      else if unat (pl_max_conflict_reports l) > kMaxExplanationEntries then Inl Err_PolicyRejected
      else if unat (pl_max_stale_reports l) > kMaxExplanationEntries then Inl Err_PolicyRejected
      else Inr ())"

definition validate_gates :: "CongestionPolicy \<Rightarrow> void_result" where
  "validate_gates p =
     (if po_min_agreeing_rules_for_watch p = 0 then Inl Err_PolicyRejected
      else
        let rule_count = (of_nat (length (po_rules p)) :: u32) in
        if po_min_agreeing_rules_for_congested p > rule_count \<or>
           po_min_agreeing_rules_for_severe p > rule_count then Inl Err_PolicyRejected
        else if po_min_agreeing_rules_for_watch p > rule_count then Inl Err_PolicyRejected
        else if po_min_agreeing_rules_for_severe p < po_min_agreeing_rules_for_congested p
        then Inl Err_PolicyRejected
        else Inr ())"

text \<open>Early return: the first failing check decides.\<close>

definition andThen :: "void_result \<Rightarrow> 'a result \<Rightarrow> 'a result" where
  "andThen r k = (case r of Inl e \<Rightarrow> Inl e | Inr _ \<Rightarrow> k)"

text \<open>\<^verbatim>\<open>validate_policy\<close> updates the fingerprint of its argument on success only.\<close>

definition validate_policy :: "CongestionPolicy \<Rightarrow> CongestionPolicy result" where
  "validate_policy p =
     (if \<not> id_valid (po_id p) then Inl Err_PolicyRejected
      else if po_version p = 0 then Inl Err_PolicyRejected
      else if length (po_name p) > kMaxPolicyNameBytes then Inl Err_PolicyRejected
      else if length (po_rules p) > kMaxThresholdRules then Inl Err_PolicyRejected
      else if length (po_interventions p) > kMaxInterventionRules then Inl Err_PolicyRejected
      else if po_rules p = [] then Inl Err_PolicyRejected
      else
        andThen (validate_rules (po_freshness p) [] (po_rules p)) (
        andThen (validate_hysteresis (po_hysteresis p)) (
        andThen (validate_recovery (po_recovery p)) (
        andThen (validate_propagation (po_propagation p)) (
        andThen (validate_freshness (po_freshness p)) (
        andThen (validate_contradiction (po_contradiction p)) (
        andThen (validate_interventions (po_interventions p)) (
        andThen (validate_limits (po_limits p)) (
        andThen (validate_gates p) (
        Inr (p\<lparr>po_fingerprint := fingerprint_policy p\<rparr>)))))))))))"

section \<open>The default policy\<close>

definition default_rule :: "MetricKind \<Rightarrow> u64 \<Rightarrow> u64 \<Rightarrow> u64 \<Rightarrow> bool \<Rightarrow> ThresholdRule" where
  "default_rule metric watch congested severe required =
     \<lparr>tr_metric = metric, tr_op = Op_AtLeast, tr_watch = watch, tr_congested = congested,
      tr_severe = severe, tr_required = required, tr_max_age_ticks = 0, tr_weight = 1\<rparr>"

definition default_intervention ::
  "Severity \<Rightarrow> InterventionKind \<Rightarrow> u64 \<Rightarrow> u64 \<Rightarrow> u64 \<Rightarrow> u32 \<Rightarrow> InterventionRule" where
  "default_intervention at_least kind pmin pmax pdefault priority =
     \<lparr>ir_at_least = at_least, ir_kind = kind, ir_target_class = 0, ir_target_domain = 0,
      ir_require_fresh_evidence = True, ir_require_authoritative_state = True,
      ir_parameter_min = pmin, ir_parameter_max = pmax, ir_parameter_default = pdefault,
      ir_priority = priority, ir_min_repeat_interval_ticks = 0\<rparr>"

definition default_policy_body :: CongestionPolicy where
  "default_policy_body =
     \<lparr>po_id = 0x4E43465F44454631, po_version = 1, po_name = ''ncf-default-v1'',
      po_rules =
        [default_rule MK_UtilizationPpm 700000 850000 950000 True,
         default_rule MK_QueueOccupancyPpm 150000 500000 850000 False,
         default_rule MK_LossRatePpm 1000 20000 200000 False,
         default_rule MK_LatencyMicros 2000 10000 50000 False],
      po_hysteresis =
        \<lparr>hp_escalate_samples = 1, hp_deescalate_samples = 3, hp_min_dwell_ticks = 0,
         hp_downgrade_margin_ppm = 50000, hp_require_all_rules_agree_on_downgrade = True,
         hp_apply_dwell_on_escalation = False\<rparr>,
      po_recovery =
        \<lparr>rp_enabled = True, rp_min_improved_samples = 2, rp_allow_single_sample = False,
         rp_clear_samples = 2, rp_recovering_hold_ticks = 0\<rparr>,
      po_propagation =
        \<lparr>pp_enabled = True, pp_max_depth = 1, pp_decay_ppm = 500000,
         pp_max_induced_severity = Sev_Watch, pp_follow_links = True, pp_follow_paths = True,
         pp_min_pressure_ppm = 1\<rparr>,
      po_freshness =
        \<lparr>fp_default_max_age_ticks = 1000000, fp_max_future_skew_ticks = 1000,
         fp_heartbeat_refreshes_freshness = False\<rparr>,
      po_contradiction =
        \<lparr>cp_mode = CM_Reject, cp_absolute_tolerance = 0, cp_relative_tolerance_ppm = 10000,
         cp_min_distinct_publishers = 2, cp_priority_order = []\<rparr>,
      po_interventions =
        [default_intervention Sev_Congested IK_ReduceAdmissibleBudget 100000 900000 500000 10,
         default_intervention Sev_Congested IK_RequestReroute 1 100 25 20,
         default_intervention Sev_Severe IK_ProtectCriticalClasses 100000 1000000 500000 5,
         default_intervention Sev_Severe IK_EnterDegradedMode 1 1 1 1,
         default_intervention Sev_Watch IK_MakeRecoveryPlanEligible 1 1 1 200],
      po_limits =
        \<lparr>pl_max_resources_per_domain = 4096, pl_max_metrics_per_sample = 64,
         pl_max_paths_considered = 1024, pl_max_domain_depth = 8,
         pl_max_explanation_entries = 1024, pl_max_interventions_per_plan = 64,
         pl_max_conflict_reports = 32, pl_max_stale_reports = 64\<rparr>,
      po_min_agreeing_rules_for_watch = 1, po_min_agreeing_rules_for_congested = 2,
      po_min_agreeing_rules_for_severe = 2, po_fingerprint = 0\<rparr>"

definition make_default_policy :: CongestionPolicy where
  "make_default_policy =
     default_policy_body\<lparr>po_fingerprint := fingerprint_policy default_policy_body\<rparr>"

section \<open>Properties of classification\<close>

lemma scale_down_le: "scale_down_by_margin t m \<le> t"
  by (simp add: scale_down_by_margin_def Let_def word_sub_le)

lemma scale_up_ge: "t \<le> scale_up_by_margin t m"
  by (simp add: scale_up_by_margin_def Let_def saturating_add_ge)

lemma classify_shape_mono_bounds:
  assumes "tr_op r = Op_AtLeast \<Longrightarrow>
      rs_watch b' \<le> rs_watch b \<and> rs_congested b' \<le> rs_congested b \<and> rs_severe b' \<le> rs_severe b"
    and "tr_op r \<noteq> Op_AtLeast \<Longrightarrow>
      rs_watch b \<le> rs_watch b' \<and> rs_congested b \<le> rs_congested b' \<and> rs_severe b \<le> rs_severe b'"
  shows "classify_shape r b v \<le> classify_shape r b' v"
  using assms by (cases "tr_op r = Op_AtLeast") (auto simp: classify_shape_def)

lemma classify_margin_ge:
  "classify rule value \<le> classify_rule_with_margin rule value margin_ppm"
proof (cases "tr_weight rule = 0")
  case True
  then show ?thesis by (simp add: classify_def classify_rule_with_margin_def)
next
  case False
  have "classify_shape rule (plain_shape rule) value \<le>
      classify_shape rule (rule_shape rule margin_ppm) value"
    by (rule classify_shape_mono_bounds)
      (auto simp: plain_shape_def rule_shape_def scale_down_le scale_up_ge)
  with False show ?thesis by (simp add: classify_def classify_rule_with_margin_def)
qed

text \<open>The exit classification is never below the entry classification: for every rule, reading
  and margin, relaxing the thresholds by the downgrade margin classifies the reading at or above
  the severity the plain thresholds give it, even where the margin arithmetic saturates or wraps.\<close>

theorem classify_margin_at_or_above:
  "classify rule value \<le> classify_rule_with_margin rule value margin_ppm"
  by (rule classify_margin_ge)

text \<open>The side of a threshold on which a reading counts against the rule.\<close>

definition crosses :: "ThresholdRule \<Rightarrow> u64 \<Rightarrow> u64 \<Rightarrow> bool" where
  "crosses rule value threshold \<longleftrightarrow>
     (if tr_op rule = Op_AtLeast then threshold \<le> value else value \<le> threshold)"

definition rule_monotone :: "ThresholdRule \<Rightarrow> bool" where
  "rule_monotone r \<longleftrightarrow> tr_weight r \<noteq> 0 \<and>
     (if tr_op r = Op_AtLeast then tr_watch r \<le> tr_congested r \<and> tr_congested r \<le> tr_severe r
      else tr_severe r \<le> tr_congested r \<and> tr_congested r \<le> tr_watch r)"

lemma classify_crosses:
  assumes "rule_monotone r"
  shows "Sev_Watch \<le> classify r v \<longleftrightarrow> crosses r v (tr_watch r)"
    and "Sev_Congested \<le> classify r v \<longleftrightarrow> crosses r v (tr_congested r)"
    and "Sev_Severe \<le> classify r v \<longleftrightarrow> crosses r v (tr_severe r)"
proof -
  have chain: "crosses r v (tr_severe r) \<Longrightarrow> crosses r v (tr_congested r)"
    "crosses r v (tr_congested r) \<Longrightarrow> crosses r v (tr_watch r)"
    using assms by (auto simp: rule_monotone_def crosses_def split: if_splits)
  have eq: "classify r v =
      (if crosses r v (tr_severe r) then Sev_Severe
       else if crosses r v (tr_congested r) then Sev_Congested
       else if crosses r v (tr_watch r) then Sev_Watch else Sev_Clear)"
    using assms
    by (simp add: rule_monotone_def classify_def classify_shape_def plain_shape_def crosses_def)
  show "Sev_Watch \<le> classify r v \<longleftrightarrow> crosses r v (tr_watch r)"
    "Sev_Congested \<le> classify r v \<longleftrightarrow> crosses r v (tr_congested r)"
    "Sev_Severe \<le> classify r v \<longleftrightarrow> crosses r v (tr_severe r)"
    using chain unfolding eq by (auto split: if_splits)
qed

section \<open>Properties of validation\<close>

lemma andThen_Inr [simp]: "andThen r k = Inr x \<longleftrightarrow> r = Inr () \<and> k = Inr x"
  by (cases r) (simp_all add: andThen_def)

lemma validate_rules_Cons:
  assumes "validate_rules f seen (r # rules) = Inr ()"
  shows "validate_rules f (seen @ [tr_metric r]) rules = Inr ()" and "tr_metric r \<notin> set seen"
    and "rule_monotone r" and "tr_metric r \<noteq> MK_Unknown \<and> tr_metric r \<noteq> MK_Count"
  using assms by (auto simp: Let_def rule_monotone_def split: if_splits)

lemma validate_rules_Inr:
  assumes "validate_rules f seen rules = Inr ()"
  shows "distinct (map tr_metric rules) \<and> set seen \<inter> tr_metric ` set rules = {} \<and>
    (\<forall>r \<in> set rules. rule_monotone r \<and> tr_metric r \<noteq> MK_Unknown \<and> tr_metric r \<noteq> MK_Count)"
  using assms
proof (induction rules arbitrary: seen)
  case Nil
  then show ?case by simp
next
  case (Cons r rules)
  note step = validate_rules_Cons [OF Cons.prems]
  from Cons.IH [OF step(1)] step(2-4) show ?case by auto
qed

lemma validate_interventions_Inr:
  "validate_interventions rules = Inr () \<Longrightarrow> r \<in> set rules \<Longrightarrow>
     required_authority (ir_kind r) \<noteq> Auth_None \<and>
     ir_parameter_min r \<le> ir_parameter_default r \<and> ir_parameter_default r \<le> ir_parameter_max r"
  by (induction rules) (auto simp: linorder_not_less split: if_splits)

lemma fingerprint_policy_update [simp]:
  "fingerprint_policy (p\<lparr>po_fingerprint := h\<rparr>) = fingerprint_policy p"
  by (simp add: fingerprint_policy_def)

lemma validate_gates_update [simp]:
  "validate_gates (p\<lparr>po_fingerprint := h\<rparr>) = validate_gates p"
  by (simp add: validate_gates_def Let_def)

lemma validate_policy_Inr:
  "validate_policy p = Inr p' \<longleftrightarrow>
     id_valid (po_id p) \<and> po_version p \<noteq> 0 \<and> length (po_name p) \<le> kMaxPolicyNameBytes \<and>
     length (po_rules p) \<le> kMaxThresholdRules \<and>
     length (po_interventions p) \<le> kMaxInterventionRules \<and> po_rules p \<noteq> [] \<and>
     validate_rules (po_freshness p) [] (po_rules p) = Inr () \<and>
     validate_hysteresis (po_hysteresis p) = Inr () \<and>
     validate_recovery (po_recovery p) = Inr () \<and>
     validate_propagation (po_propagation p) = Inr () \<and>
     validate_freshness (po_freshness p) = Inr () \<and>
     validate_contradiction (po_contradiction p) = Inr () \<and>
     validate_interventions (po_interventions p) = Inr () \<and>
     validate_limits (po_limits p) = Inr () \<and> validate_gates p = Inr () \<and>
     p' = p\<lparr>po_fingerprint := fingerprint_policy p\<rparr>"
  unfolding validate_policy_def andThen_Inr [symmetric] by (auto simp: linorder_not_less)

lemma validate_gates_Inr:
  "validate_gates p = Inr () \<Longrightarrow> length (po_rules p) \<le> kMaxThresholdRules \<Longrightarrow>
     0 < unat (po_min_agreeing_rules_for_watch p) \<and>
     unat (po_min_agreeing_rules_for_watch p) \<le> length (po_rules p) \<and>
     unat (po_min_agreeing_rules_for_congested p) \<le> unat (po_min_agreeing_rules_for_severe p) \<and>
     unat (po_min_agreeing_rules_for_severe p) \<le> length (po_rules p)"
  by (auto simp: validate_gates_def Let_def word_less_nat_alt word_le_nat_alt linorder_not_less
      unat_gt_0 unat_of_nat kMaxThresholdRules_def split: if_splits)

text \<open>What a rule, an intervention and the sub-policies of an accepted policy satisfy, one inequality for every check.\<close>

definition rule_bounds :: "FreshnessPolicy \<Rightarrow> ThresholdRule \<Rightarrow> bool" where
  "rule_bounds fresh r \<longleftrightarrow>
     tr_metric r \<noteq> MK_Unknown \<and> tr_metric r \<noteq> MK_Count \<and> tr_weight r \<noteq> 0 \<and>
     tr_watch r \<le> metric_plausible_max (tr_metric r) \<and> tr_congested r \<le> metric_plausible_max (tr_metric r) \<and>
     tr_severe r \<le> metric_plausible_max (tr_metric r) \<and>
     tr_max_age_ticks r \<le> fp_default_max_age_ticks fresh * 1000 + 1"

lemma validate_rules_bounds:
  "validate_rules fresh seen rules = Inr () \<Longrightarrow> r \<in> set rules \<Longrightarrow> rule_bounds fresh r"
  by (induction fresh seen rules rule: validate_rules.induct)
    (auto simp: rule_bounds_def Let_def linorder_not_less split: if_splits)

lemma validate_interventions_bounds:
  "validate_interventions rules = Inr () \<Longrightarrow> r \<in> set rules \<Longrightarrow>
     ir_kind r \<noteq> IK_None \<and> ir_kind r \<noteq> IK_Count \<and> ir_min_repeat_interval_ticks r \<le> kMaxDwellTicks"
  by (induction rules) (auto simp: linorder_not_less split: if_splits)

definition dynamics_bounds :: "CongestionPolicy \<Rightarrow> bool" where
  "dynamics_bounds p \<longleftrightarrow>
     (let h = po_hysteresis p; r = po_recovery p in
      1 \<le> hp_escalate_samples h \<and> hp_escalate_samples h \<le> kMaxHysteresisSamples \<and>
      1 \<le> hp_deescalate_samples h \<and> hp_deescalate_samples h \<le> kMaxHysteresisSamples \<and>
      hp_min_dwell_ticks h \<le> kMaxDwellTicks \<and> hp_downgrade_margin_ppm h \<le> 1000000 \<and>
      1 \<le> rp_min_improved_samples r \<and> rp_min_improved_samples r \<le> kMaxHysteresisSamples \<and>
      (rp_allow_single_sample r \<or> 2 \<le> rp_min_improved_samples r) \<and>
      1 \<le> rp_clear_samples r \<and> rp_clear_samples r \<le> kMaxHysteresisSamples)"

definition evidence_bounds :: "CongestionPolicy \<Rightarrow> bool" where
  "evidence_bounds p \<longleftrightarrow>
     (let g = po_propagation p; f = po_freshness p; c = po_contradiction p in
      pp_decay_ppm g \<le> 1000000 \<and> unat (pp_max_depth g) \<le> kMaxResourceDepth \<and> pp_max_induced_severity g \<le> Sev_Severe \<and>
      1 \<le> fp_default_max_age_ticks f \<and> fp_default_max_age_ticks f \<le> 3600000000 \<and>
      fp_max_future_skew_ticks f \<le> fp_default_max_age_ticks f \<and>
      cp_relative_tolerance_ppm c \<le> 1000000 \<and> 2 \<le> cp_min_distinct_publishers c \<and>
      length (cp_priority_order c) \<le> kMaxPublishers)"

definition limit_bounds :: "PolicyLimits \<Rightarrow> bool" where
  "limit_bounds l \<longleftrightarrow>
     1 \<le> unat (pl_max_resources_per_domain l) \<and> unat (pl_max_resources_per_domain l) \<le> kMaxResourcesPerDomain \<and>
     1 \<le> unat (pl_max_metrics_per_sample l) \<and> unat (pl_max_metrics_per_sample l) \<le> kMaxMetricReadings \<and>
     unat (pl_max_paths_considered l) \<le> kMaxPathsPerTopology \<and>
     1 \<le> unat (pl_max_domain_depth l) \<and> unat (pl_max_domain_depth l) \<le> kMaxResourceDepth \<and>
     1 \<le> unat (pl_max_explanation_entries l) \<and> unat (pl_max_explanation_entries l) \<le> kMaxExplanationEntries \<and>
     1 \<le> unat (pl_max_interventions_per_plan l) \<and> unat (pl_max_interventions_per_plan l) \<le> kMaxInterventionsPerPlan \<and>
     unat (pl_max_conflict_reports l) \<le> kMaxExplanationEntries \<and> unat (pl_max_stale_reports l) \<le> kMaxExplanationEntries"

lemma nonzero_word_ge: "(x :: 'a::len word) \<noteq> 0 \<Longrightarrow> 1 \<le> x"
  by (simp add: word_le_nat_alt Suc_le_eq unat_gt_0)

lemma validate_dynamics_bounds:
  "validate_hysteresis (po_hysteresis p) = Inr () \<Longrightarrow> validate_recovery (po_recovery p) = Inr () \<Longrightarrow> dynamics_bounds p"
  by (auto simp: validate_hysteresis_def validate_recovery_def dynamics_bounds_def Let_def linorder_not_less nonzero_word_ge
      split: if_splits)

lemma validate_evidence_bounds:
  "validate_propagation (po_propagation p) = Inr () \<Longrightarrow> validate_freshness (po_freshness p) = Inr () \<Longrightarrow>
     validate_contradiction (po_contradiction p) = Inr () \<Longrightarrow> evidence_bounds p"
  by (auto simp: validate_propagation_def validate_freshness_def validate_contradiction_def evidence_bounds_def Let_def
      linorder_not_less nonzero_word_ge less_eq_Severity_def split: if_splits)

lemma validate_limits_bounds: "validate_limits l = Inr () \<Longrightarrow> limit_bounds l"
  by (auto simp: validate_limits_def limit_bounds_def linorder_not_less unat_gt_0 Suc_le_eq split: if_splits)

text \<open>C30: a policy that \<^verbatim>\<open>validate_policy\<close> accepts is returned unchanged except for its recomputed
  fingerprint, and validating the result again changes nothing. Its identity, version, name and list lengths are in
  range. Its rules name distinct known metric kinds with thresholds that are plausible for the metric, a weight and an
  age bound, and classify monotonically: a reading reaches a level exactly when it crosses the
  threshold of that level. Every intervention rule names a kind that needs a capability, with its
  default parameter inside its envelope and a bounded repeat interval. The hysteresis, recovery, propagation,
  freshness, contradiction and limit sections are within every bound they are checked against, and the corroboration
  gates are ordered and satisfiable.\<close>

theorem validate_policy_sound:
  assumes "validate_policy p = Inr p'"
  shows "p' = p\<lparr>po_fingerprint := fingerprint_policy p\<rparr> \<and> validate_policy p' = Inr p' \<and>
    id_valid (po_id p) \<and> po_version p \<noteq> 0 \<and> length (po_name p) \<le> kMaxPolicyNameBytes \<and>
    po_rules p \<noteq> [] \<and> length (po_rules p) \<le> kMaxThresholdRules \<and> length (po_interventions p) \<le> kMaxInterventionRules \<and>
    distinct (map tr_metric (po_rules p)) \<and>
    (\<forall>r \<in> set (po_rules p). rule_bounds (po_freshness p) r \<and> (\<forall>v.
      (Sev_Watch \<le> classify r v \<longleftrightarrow> crosses r v (tr_watch r)) \<and>
      (Sev_Congested \<le> classify r v \<longleftrightarrow> crosses r v (tr_congested r)) \<and>
      (Sev_Severe \<le> classify r v \<longleftrightarrow> crosses r v (tr_severe r)))) \<and>
    (\<forall>r \<in> set (po_interventions p). required_authority (ir_kind r) \<noteq> Auth_None \<and>
      ir_kind r \<noteq> IK_None \<and> ir_kind r \<noteq> IK_Count \<and> ir_min_repeat_interval_ticks r \<le> kMaxDwellTicks \<and>
      ir_parameter_min r \<le> ir_parameter_default r \<and> ir_parameter_default r \<le> ir_parameter_max r) \<and>
    dynamics_bounds p \<and> evidence_bounds p \<and> limit_bounds (po_limits p) \<and>
    0 < unat (po_min_agreeing_rules_for_watch p) \<and>
    unat (po_min_agreeing_rules_for_watch p) \<le> length (po_rules p) \<and>
    unat (po_min_agreeing_rules_for_congested p) \<le> unat (po_min_agreeing_rules_for_severe p) \<and>
    unat (po_min_agreeing_rules_for_severe p) \<le> length (po_rules p)"
proof -
  note v = assms [unfolded validate_policy_Inr]
  have p': "p' = p\<lparr>po_fingerprint := fingerprint_policy p\<rparr>" using v by blast
  have again: "validate_policy p' = Inr p'"
    using v unfolding validate_policy_Inr by (simp add: p')
  have rules: "validate_rules (po_freshness p) [] (po_rules p) = Inr ()" using v by blast
  have ivs: "validate_interventions (po_interventions p) = Inr ()" using v by blast
  have gates: "validate_gates p = Inr ()" "length (po_rules p) \<le> kMaxThresholdRules"
    using v by blast+
  have bounds: "dynamics_bounds p" "evidence_bounds p" "limit_bounds (po_limits p)"
    using v validate_dynamics_bounds validate_evidence_bounds validate_limits_bounds by blast+
  have sizes: "id_valid (po_id p)" "po_version p \<noteq> 0" "length (po_name p) \<le> kMaxPolicyNameBytes" "po_rules p \<noteq> []"
    "length (po_interventions p) \<le> kMaxInterventionRules"
    using v by blast+
  have known: "\<forall>r \<in> set (po_rules p). rule_bounds (po_freshness p) r" using validate_rules_bounds [OF rules] by blast
  have repeats: "\<forall>r \<in> set (po_interventions p). ir_kind r \<noteq> IK_None \<and> ir_kind r \<noteq> IK_Count \<and>
      ir_min_repeat_interval_ticks r \<le> kMaxDwellTicks" using validate_interventions_bounds [OF ivs] by blast
  from validate_gates_Inr [OF gates] show ?thesis
    using p' again bounds sizes known repeats gates(2) validate_rules_Inr [OF rules] validate_interventions_Inr [OF ivs]
      classify_crosses
    by blast
qed

lemma default_policy_valid: "validate_policy make_default_policy = Inr make_default_policy"
proof -
  have "validate_rules (po_freshness default_policy_body) [] (po_rules default_policy_body) = Inr ()"
    by (simp add: default_policy_body_def default_rule_def metric_plausible_max_def
        metric_descriptor_def kMetricTable_def metric_row_def ncf_defs)
  moreover have "validate_interventions (po_interventions default_policy_body) = Inr ()"
    by (simp add: default_policy_body_def default_intervention_def required_authority_def ncf_defs)
  moreover have "validate_gates default_policy_body = Inr ()"
    by (simp add: validate_gates_def default_policy_body_def)
  ultimately show ?thesis
    unfolding validate_policy_Inr
    by (simp add: make_default_policy_def)
      (simp add: default_policy_body_def id_valid_def validate_hysteresis_def
        validate_recovery_def validate_propagation_def validate_freshness_def
        validate_contradiction_def validate_limits_def ncf_defs)
qed

theorem validate_policy_sound_witness:
  "validate_policy make_default_policy = Inr make_default_policy \<and>
   distinct (map tr_metric (po_rules make_default_policy)) \<and> evidence_bounds make_default_policy \<and>
   hp_escalate_samples (po_hysteresis make_default_policy) \<le> kMaxHysteresisSamples"
proof -
  from validate_policy_sound [OF default_policy_valid]
  have "distinct (map tr_metric (po_rules make_default_policy))" "evidence_bounds make_default_policy"
    "dynamics_bounds make_default_policy" by blast+
  with default_policy_valid show ?thesis by (simp add: dynamics_bounds_def Let_def)
qed

end
