(* ===== verification/NCF_Topology.thy ===== *)
theory NCF_Topology
  imports NCF_Policy
begin

text \<open>
  Topology and capacity, \<^verbatim>\<open>include/ncf/model/topology.hpp\<close> and \<^verbatim>\<open>src/model/topology.cpp\<close>: resource,
  link and path records, snapshots and their fingerprints, structural validation and the adjacency
  index every evaluation reads.

  A \<^verbatim>\<open>std::unordered_map\<close> that is only looked up is a partial function; its \<^verbatim>\<open>emplace\<close> keeps an
  existing entry.
\<close>

unbundle bit_operations_syntax

section \<open>Records\<close>

record ResourceRecord =
  rr_id :: ResourceId
  rr_domain :: DomainId
  rr_parent :: ResourceId
  rr_serving_class :: ClassId
  rr_kind :: ResourceKind
  rr_depth :: u32
  rr_nominal_capacity_bps :: u64
  rr_flags :: u32

record LinkRecord =
  lk_id :: LinkId
  lk_from :: ResourceId
  lk_to :: ResourceId
  lk_capacity_bps :: u64
  lk_latency_micros :: u64
  lk_weight :: u32

record PathRecord =
  pa_id :: PathId
  pa_hops :: "ResourceId list"
  pa_capacity_bps :: u64
  pa_flags :: u32

definition pa_has_flag :: "PathRecord \<Rightarrow> u32 \<Rightarrow> bool" where
  "pa_has_flag p flag \<longleftrightarrow> pa_flags p AND flag \<noteq> 0"

record TopologySnapshot =
  ts_id :: TopologyId
  ts_generation :: TopologyGeneration
  ts_epoch :: EpochId
  ts_observed_tick :: Tick
  ts_resources :: "ResourceRecord list"
  ts_links :: "LinkRecord list"
  ts_paths :: "PathRecord list"
  ts_fingerprint :: Hash64

record CapacityEntry =
  ce_resource :: ResourceId
  ce_capacity_bps :: u64
  ce_residual_bps :: u64
  ce_admissible_bps :: u64

record CapacitySnapshot =
  cs_id :: u64
  cs_generation :: CapacityGeneration
  cs_epoch :: EpochId
  cs_observed_tick :: Tick
  cs_entries :: "CapacityEntry list"
  cs_fingerprint :: Hash64

definition capacity_find :: "CapacitySnapshot \<Rightarrow> ResourceId \<Rightarrow> CapacityEntry option" where
  "capacity_find snapshot resource =
     (let rest = dropWhile (\<lambda>e. ce_resource e < resource) (cs_entries snapshot) in
      if rest = [] \<or> ce_resource (hd rest) \<noteq> resource then None else Some (hd rest))"

section \<open>Fingerprints\<close>

definition hash_resource :: "ResourceRecord \<Rightarrow> u64 \<Rightarrow> u64" where
  "hash_resource r h0 =
     (let h1 = hash_u64 (rr_id r) h0;
          h2 = hash_u64 (rr_domain r) h1;
          h3 = hash_u64 (rr_parent r) h2;
          h4 = hash_u64 (rr_serving_class r) h3;
          h5 = hash_u16 (ucast (rk_u8 (rr_kind r))) h4;
          h6 = hash_u32 (rr_depth r) h5;
          h7 = hash_u64 (rr_nominal_capacity_bps r) h6
      in hash_u32 (rr_flags r) h7)"

definition hash_link :: "LinkRecord \<Rightarrow> u64 \<Rightarrow> u64" where
  "hash_link l h0 =
     (let h1 = hash_u64 (lk_id l) h0;
          h2 = hash_u64 (lk_from l) h1;
          h3 = hash_u64 (lk_to l) h2;
          h4 = hash_u64 (lk_capacity_bps l) h3;
          h5 = hash_u64 (lk_latency_micros l) h4
      in hash_u32 (lk_weight l) h5)"

definition hash_path :: "PathRecord \<Rightarrow> u64 \<Rightarrow> u64" where
  "hash_path p h0 =
     (let h1 = hash_u64 (pa_id p) h0;
          h2 = hash_u64 (pa_capacity_bps p) h1;
          h3 = hash_u32 (pa_flags p) h2;
          h4 = hash_u64 (of_nat (length (pa_hops p))) h3
      in fold hash_u64 (pa_hops p) h4)"

definition fingerprint_topology :: "TopologySnapshot \<Rightarrow> Hash64" where
  "fingerprint_topology s =
     (let h1 = hash_u64 (ts_id s) kFnvOffset;
          h2 = hash_u64 (ts_generation s) h1;
          h3 = hash_u64 (ts_epoch s) h2;
          h4 = hash_u64 (of_nat (length (ts_resources s))) h3;
          h5 = fold hash_resource (ts_resources s) h4;
          h6 = hash_u64 (of_nat (length (ts_links s))) h5;
          h7 = fold hash_link (ts_links s) h6;
          h8 = hash_u64 (of_nat (length (ts_paths s))) h7;
          h9 = fold hash_path (ts_paths s) h8
      in hash_finish h9)"

definition hash_capacity_entry :: "CapacityEntry \<Rightarrow> u64 \<Rightarrow> u64" where
  "hash_capacity_entry e h0 =
     (let h1 = hash_u64 (ce_resource e) h0;
          h2 = hash_u64 (ce_capacity_bps e) h1;
          h3 = hash_u64 (ce_residual_bps e) h2
      in hash_u64 (ce_admissible_bps e) h3)"

definition fingerprint_capacity :: "CapacitySnapshot \<Rightarrow> Hash64" where
  "fingerprint_capacity s =
     (let h1 = hash_u64 (cs_id s) kFnvOffset;
          h2 = hash_u64 (cs_generation s) h1;
          h3 = hash_u64 (cs_epoch s) h2;
          h4 = hash_u64 (of_nat (length (cs_entries s))) h3
      in hash_finish (fold hash_capacity_entry (cs_entries s) h4))"

section \<open>Validation\<close>

text \<open>The first loop of \<^verbatim>\<open>validate_topology\<close>; it returns the set of known resource ids.\<close>

fun validate_resources :: "ResourceId list \<Rightarrow> ResourceRecord list \<Rightarrow> ResourceId list result" where
  "validate_resources seen [] = Inr seen"
| "validate_resources seen (r # rs) =
     (if \<not> id_valid (rr_id r) then Inl Err_InvalidArgument
      else if \<not> id_valid (rr_domain r) then Inl Err_InvalidArgument
      else if unat (rr_depth r) > kMaxResourceDepth then Inl Err_LimitExceeded
      else if rr_nominal_capacity_bps r > metric_plausible_max MK_LinkCapacityBps
      then Inl Err_OutOfRange
      else if rr_id r \<in> set seen then Inl Err_Duplicate
      else validate_resources (rr_id r # seen) rs)"

definition emplace :: "'k \<Rightarrow> 'v \<Rightarrow> ('k \<Rightarrow> 'v option) \<Rightarrow> 'k \<Rightarrow> 'v option" where
  "emplace k v m = (case m k of None \<Rightarrow> m(k := Some v) | Some _ \<Rightarrow> m)"

definition by_id_map :: "ResourceRecord list \<Rightarrow> ResourceId \<Rightarrow> ResourceRecord option" where
  "by_id_map rs = foldl (\<lambda>m r. emplace (rr_id r) r m) (\<lambda>_. None) rs"

text \<open>The walk up the containment parents of one record.\<close>

function containment_walk ::
  "(ResourceId \<Rightarrow> ResourceRecord option) \<Rightarrow> ResourceId \<Rightarrow> ResourceId \<Rightarrow> nat \<Rightarrow> void_result" where
  "containment_walk by_id self cursor steps =
     (if cursor = 0 then Inr ()
      else case by_id cursor of
          None \<Rightarrow> Inl Err_NotFound
        | Some found \<Rightarrow>
            if rr_id found = self then Inl Err_InvalidArgument
            else if steps + 1 > kMaxResourceDepth then Inl Err_LimitExceeded
            else containment_walk by_id self (rr_parent found) (steps + 1))"
  by pat_completeness auto
termination
  by (relation "measure (\<lambda>(_, _, _, steps). kMaxResourceDepth - steps)") (auto simp: kMaxResourceDepth_def)

declare containment_walk.simps [simp del]

fun validate_containment ::
  "(ResourceId \<Rightarrow> ResourceRecord option) \<Rightarrow> ResourceRecord list \<Rightarrow> void_result" where
  "validate_containment by_id [] = Inr ()"
| "validate_containment by_id (r # rs) =
     (if \<not> id_valid (rr_parent r) then validate_containment by_id rs
      else if rr_parent r = rr_id r then Inl Err_InvalidArgument
      else andThen (containment_walk by_id (rr_id r) (rr_parent r) 0) (validate_containment by_id rs))"

fun validate_links :: "ResourceId list \<Rightarrow> LinkId list \<Rightarrow> LinkRecord list \<Rightarrow> void_result" where
  "validate_links ids seen [] = Inr ()"
| "validate_links ids seen (l # ls) =
     (if \<not> id_valid (lk_from l) \<or> \<not> id_valid (lk_to l) then Inl Err_InvalidArgument
      else if lk_from l \<notin> set ids then Inl Err_NotFound
      else if lk_to l \<notin> set ids then Inl Err_NotFound
      else if lk_capacity_bps l > metric_plausible_max MK_LinkCapacityBps then Inl Err_OutOfRange
      else if lk_latency_micros l > metric_plausible_max MK_LatencyMicros then Inl Err_OutOfRange
      else if id_valid (lk_id l) \<and> lk_id l \<in> set seen then Inl Err_Duplicate
      else validate_links ids (if id_valid (lk_id l) then lk_id l # seen else seen) ls)"

fun validate_paths :: "ResourceId list \<Rightarrow> PathId list \<Rightarrow> PathRecord list \<Rightarrow> void_result" where
  "validate_paths ids seen [] = Inr ()"
| "validate_paths ids seen (p # ps) =
     (if \<not> id_valid (pa_id p) then Inl Err_InvalidArgument
      else if pa_id p \<in> set seen then Inl Err_Duplicate
      else if pa_hops p = [] then Inl Err_InvalidArgument
      else if length (pa_hops p) > kMaxResourcesPerPath then Inl Err_LimitExceeded
      else if pa_capacity_bps p > metric_plausible_max MK_PathCapacityBps then Inl Err_OutOfRange
      else if \<exists>hop \<in> set (pa_hops p). hop \<notin> set ids then Inl Err_NotFound
      else validate_paths ids (pa_id p # seen) ps)"

definition validate_topology :: "TopologySnapshot \<Rightarrow> void_result" where
  "validate_topology s =
     (if length (ts_resources s) > kMaxResourcesPerFabric then Inl Err_LimitExceeded
      else if length (ts_links s) > kMaxLinksPerTopology then Inl Err_LimitExceeded
      else if length (ts_paths s) > kMaxPathsPerTopology then Inl Err_LimitExceeded
      else if ts_resources s = [] then Inl Err_InvalidArgument
      else case validate_resources [] (ts_resources s) of
          Inl e \<Rightarrow> Inl e
        | Inr ids \<Rightarrow>
            andThen (validate_containment (by_id_map (ts_resources s)) (ts_resources s)) (
            andThen (validate_links ids [] (ts_links s))
              (validate_paths ids [] (ts_paths s))))"

fun strictly_ordered :: "CapacityEntry list \<Rightarrow> bool" where
  "strictly_ordered (a # b # es) \<longleftrightarrow> ce_resource a < ce_resource b \<and> strictly_ordered (b # es)"
| "strictly_ordered _ \<longleftrightarrow> True"

fun validate_capacity_entries :: "CapacityEntry list \<Rightarrow> void_result" where
  "validate_capacity_entries [] = Inr ()"
| "validate_capacity_entries (e # es) =
     (if \<not> id_valid (ce_resource e) then Inl Err_InvalidArgument
      else if ce_capacity_bps e > metric_plausible_max MK_LinkCapacityBps then Inl Err_OutOfRange
      else if ce_residual_bps e > ce_capacity_bps e then Inl Err_OutOfRange
      else if ce_admissible_bps e > ce_capacity_bps e then Inl Err_OutOfRange
      else validate_capacity_entries es)"

definition validate_capacity :: "CapacitySnapshot \<Rightarrow> void_result" where
  "validate_capacity s =
     (if length (cs_entries s) > kMaxResourcesPerFabric then Inl Err_LimitExceeded
      else if \<not> strictly_ordered (cs_entries s) then Inl Err_InvalidArgument
      else validate_capacity_entries (cs_entries s))"

section \<open>The adjacency index\<close>

record TopologyIndex =
  ti_snapshot :: TopologySnapshot
  ti_resource_slot :: "u64 \<Rightarrow> nat option"
  ti_path_slot :: "u64 \<Rightarrow> nat option"
  ti_domain_slot :: "u64 \<Rightarrow> nat option"
  ti_out_edges :: "ResourceId list list"
  ti_in_edges :: "ResourceId list list"
  ti_domain_resources :: "ResourceId list list"
  ti_resource_paths :: "PathId list list"
  ti_domains :: "DomainId list"

definition ti_resource :: "TopologyIndex \<Rightarrow> ResourceId \<Rightarrow> ResourceRecord option" where
  "ti_resource ix i =
     (case ti_resource_slot ix i of None \<Rightarrow> None | Some slot \<Rightarrow> Some (ts_resources (ti_snapshot ix) ! slot))"

definition ti_path :: "TopologyIndex \<Rightarrow> PathId \<Rightarrow> PathRecord option" where
  "ti_path ix i =
     (case ti_path_slot ix i of None \<Rightarrow> None | Some slot \<Rightarrow> Some (ts_paths (ti_snapshot ix) ! slot))"

definition ti_contains :: "TopologyIndex \<Rightarrow> ResourceId \<Rightarrow> bool" where
  "ti_contains ix i \<longleftrightarrow> ti_resource ix i \<noteq> None"

definition ti_successors :: "TopologyIndex \<Rightarrow> ResourceId \<Rightarrow> ResourceId list" where
  "ti_successors ix i =
     (case ti_resource_slot ix i of None \<Rightarrow> [] | Some slot \<Rightarrow> ti_out_edges ix ! slot)"

definition ti_predecessors :: "TopologyIndex \<Rightarrow> ResourceId \<Rightarrow> ResourceId list" where
  "ti_predecessors ix i =
     (case ti_resource_slot ix i of None \<Rightarrow> [] | Some slot \<Rightarrow> ti_in_edges ix ! slot)"

definition ti_domain_members :: "TopologyIndex \<Rightarrow> DomainId \<Rightarrow> ResourceId list" where
  "ti_domain_members ix d =
     (case ti_domain_slot ix d of None \<Rightarrow> [] | Some slot \<Rightarrow> ti_domain_resources ix ! slot)"

definition ti_paths_of :: "TopologyIndex \<Rightarrow> ResourceId \<Rightarrow> PathId list" where
  "ti_paths_of ix i =
     (case ti_resource_slot ix i of None \<Rightarrow> [] | Some slot \<Rightarrow> ti_resource_paths ix ! slot)"

definition slot_map :: "('a \<Rightarrow> u64) \<Rightarrow> 'a list \<Rightarrow> u64 \<Rightarrow> nat option" where
  "slot_map key xs = foldl (\<lambda>m (slot, x). emplace (key x) slot m) (\<lambda>_. None) (enumerate 0 xs)"

definition push_at :: "nat \<Rightarrow> 'a \<Rightarrow> 'a list list \<Rightarrow> 'a list list" where
  "push_at slot x xss = xss[slot := xss ! slot @ [x]]"

text \<open>
  The edge loop reads both slots with \<^verbatim>\<open>at\<close>, which throws on a missing key; validation has
  already refused dangling endpoints, which \<open>index_link_slots\<close> below proves.
\<close>

definition index_links ::
  "(u64 \<Rightarrow> nat option) \<Rightarrow> LinkRecord list \<Rightarrow> ResourceId list list \<times> ResourceId list list \<Rightarrow>
     ResourceId list list \<times> ResourceId list list" where
  "index_links slot links edges =
     foldl (\<lambda>(outs, ins) l.
       (push_at (the (slot (lk_from l))) (lk_to l) outs,
        push_at (the (slot (lk_to l))) (lk_from l) ins)) edges links"

definition index_path_hops ::
  "(u64 \<Rightarrow> nat option) \<Rightarrow> PathRecord list \<Rightarrow> PathId list list \<Rightarrow> PathId list list" where
  "index_path_hops slot paths xss =
     foldl (\<lambda>acc p.
       foldl (\<lambda>acc hop. case slot hop of None \<Rightarrow> acc | Some s \<Rightarrow> push_at s (pa_id p) acc) acc (pa_hops p))
       xss paths"

record DomainIndex =
  di_slot :: "u64 \<Rightarrow> nat option"
  di_domains :: "DomainId list"
  di_members :: "ResourceId list list"

definition index_domain_step :: "DomainIndex \<Rightarrow> ResourceRecord \<Rightarrow> DomainIndex" where
  "index_domain_step ix r =
     (let ix' = (case di_slot ix (rr_domain r) of
                   Some _ \<Rightarrow> ix
                 | None \<Rightarrow> ix\<lparr>di_slot := (di_slot ix)(rr_domain r := Some (length (di_domains ix))),
                              di_domains := di_domains ix @ [rr_domain r],
                              di_members := di_members ix @ [[]]\<rparr>)
      in ix'\<lparr>di_members := push_at (the (di_slot ix' (rr_domain r))) (rr_id r) (di_members ix')\<rparr>)"

definition index_domains :: "ResourceRecord list \<Rightarrow> DomainIndex" where
  "index_domains rs =
     foldl index_domain_step \<lparr>di_slot = (\<lambda>_. None), di_domains = [], di_members = []\<rparr> rs"

definition topology_build :: "TopologySnapshot \<Rightarrow> TopologyIndex result" where
  "topology_build snapshot =
     (case validate_topology snapshot of
        Inl e \<Rightarrow> Inl e
      | Inr _ \<Rightarrow>
        let kept = filter (\<lambda>p. id_valid (pa_id p)) (ts_paths snapshot);
            snap = snapshot\<lparr>ts_fingerprint := fingerprint_topology snapshot, ts_paths := kept\<rparr>;
            rs = ts_resources snapshot;
            slot = slot_map rr_id rs;
            (outs, ins) = index_links slot (ts_links snapshot)
                            (replicate (length rs) [], replicate (length rs) []);
            rpaths = index_path_hops slot kept (replicate (length rs) []);
            doms = index_domains rs
        in Inr \<lparr>ti_snapshot = snap, ti_resource_slot = slot, ti_path_slot = slot_map pa_id kept,
                ti_domain_slot = di_slot doms,
                ti_out_edges = map sort_unique outs, ti_in_edges = map sort_unique ins,
                ti_domain_resources = map sort (di_members doms),
                ti_resource_paths = map sort_unique rpaths,
                ti_domains = take (length (di_members doms)) (di_domains doms)\<rparr>)"

section \<open>Lookup tables\<close>

lemma foldl_emplace:
  "foldl (\<lambda>m (k, v). emplace k v m) m es k' =
     (case m k' of Some v \<Rightarrow> Some v | None \<Rightarrow> map_of es k')"
  by (induction es arbitrary: m) (auto simp: emplace_def split: option.splits)

lemma slot_map_eq: "slot_map key xs k = map_of (map (\<lambda>(i, x). (key x, i)) (enumerate 0 xs)) k"
proof -
  have "foldl (\<lambda>m (slot, x). emplace (key x) slot m) m (enumerate n xs) =
      foldl (\<lambda>m (k, v). emplace k v m) m (map (\<lambda>(i, x). (key x, i)) (enumerate n xs))" for m n
    by (induction xs arbitrary: m n) auto
  then show ?thesis by (simp add: slot_map_def foldl_emplace)
qed

lemma by_id_map_eq: "by_id_map rs k = map_of (map (\<lambda>r. (rr_id r, r)) rs) k"
proof -
  have "foldl (\<lambda>m r. emplace (rr_id r) r m) m rs =
      foldl (\<lambda>m (k, v). emplace k v m) m (map (\<lambda>r. (rr_id r, r)) rs)" for m
    by (induction rs arbitrary: m) auto
  then show ?thesis by (simp add: by_id_map_def foldl_emplace)
qed

lemma slot_map_Some:
  "slot_map key xs k = Some i \<Longrightarrow> i < length xs \<and> key (xs ! i) = k"
  by (auto simp: slot_map_eq in_set_enumerate_eq dest!: map_of_SomeD)

lemma slot_map_None: "slot_map key xs k = None \<longleftrightarrow> k \<notin> key ` set xs"
proof -
  have "fst ` set (map (\<lambda>(i, x). (key x, i)) (enumerate 0 xs)) = key ` snd ` set (enumerate 0 xs)"
    by (force simp: image_image)
  also have "snd ` set (enumerate 0 xs) = set xs"
    by (metis map_snd_enumerate set_map)
  finally show ?thesis by (simp add: slot_map_eq map_of_eq_None_iff)
qed

lemma slot_map_find:
  "(case slot_map key xs k of None \<Rightarrow> None | Some i \<Rightarrow> Some (xs ! i)) = find (\<lambda>x. key x = k) xs"
proof -
  have "(case map_of (map (\<lambda>(i, x). (key x, i)) (enumerate n xs)) k of
      None \<Rightarrow> None | Some i \<Rightarrow> Some ((ys @ xs) ! i)) = find (\<lambda>x. key x = k) xs" if "length ys = n" for n ys
    using that
  proof (induction xs arbitrary: n ys)
    case Nil
    then show ?case by simp
  next
    case (Cons x xs)
    from Cons.prems have "(ys @ x # xs) ! n = x" by (simp add: nth_append)
    moreover from Cons.IH [of "ys @ [x]" "Suc n", unfolded append_assoc append_Cons append_Nil]
    have "key x \<noteq> k \<longrightarrow> (case map_of (map (\<lambda>(i, x). (key x, i)) (enumerate (Suc n) xs)) k of
        None \<Rightarrow> None | Some i \<Rightarrow> Some ((ys @ x # xs) ! i)) = find (\<lambda>x. key x = k) xs"
      using Cons.prems by simp
    ultimately show ?case by simp
  qed
  from this [of "[]" 0] show ?thesis unfolding slot_map_eq append_Nil by simp
qed

lemma slot_map_inj:
  "slot_map key xs a = Some i \<Longrightarrow> slot_map key xs b = Some i \<Longrightarrow> a = b"
  using slot_map_Some by metis

section \<open>What validation establishes\<close>

lemma validate_resources_Inr:
  "validate_resources seen rs = Inr ids \<Longrightarrow>
     set ids = set seen \<union> rr_id ` set rs \<and> distinct (map rr_id rs) \<and> set seen \<inter> rr_id ` set rs = {} \<and>
     (\<forall>r \<in> set rs. rr_id r \<noteq> 0 \<and> rr_domain r \<noteq> 0)"
proof (induction rs arbitrary: seen)
  case Nil
  then show ?case by simp
next
  case (Cons r rs)
  then have "validate_resources (rr_id r # seen) rs = Inr ids" and "rr_id r \<notin> set seen"
    and "rr_id r \<noteq> 0" and "rr_domain r \<noteq> 0"
    by (auto simp: id_valid_def split: if_splits)
  with Cons.IH [of "rr_id r # seen"] show ?case by auto
qed

lemma validate_links_Inr:
  "validate_links ids seen ls = Inr () \<Longrightarrow> l \<in> set ls \<Longrightarrow> lk_from l \<in> set ids \<and> lk_to l \<in> set ids"
  by (induction ls arbitrary: seen) (auto split: if_splits)

lemma validate_paths_Inr:
  "validate_paths ids seen ps = Inr () \<Longrightarrow> p \<in> set ps \<Longrightarrow> pa_id p \<noteq> 0 \<and> set (pa_hops p) \<subseteq> set ids"
  by (induction ps arbitrary: seen) (auto simp: id_valid_def split: if_splits)

lemma validate_topology_Inr:
  assumes "validate_topology s = Inr ()"
  obtains ids where "validate_resources [] (ts_resources s) = Inr ids"
    and "validate_containment (by_id_map (ts_resources s)) (ts_resources s) = Inr ()"
    and "validate_links ids [] (ts_links s) = Inr ()"
    and "validate_paths ids [] (ts_paths s) = Inr ()"
  using assms by (auto simp: validate_topology_def split: if_splits sum.splits)

text \<open>Containment: every chain of parents ends.\<close>

inductive reaches_root :: "(ResourceId \<Rightarrow> ResourceRecord option) \<Rightarrow> ResourceId \<Rightarrow> bool" for by_id where
  root: "reaches_root by_id 0"
| step: "by_id c = Some r \<Longrightarrow> reaches_root by_id (rr_parent r) \<Longrightarrow> reaches_root by_id c"

lemma containment_walk_reaches:
  "containment_walk by_id self cursor steps = Inr () \<Longrightarrow> reaches_root by_id cursor"
proof (induction by_id self cursor steps rule: containment_walk.induct)
  case (1 by_id self cursor steps)
  show ?case
  proof (cases "cursor = 0")
    case True
    then show ?thesis by (simp add: reaches_root.root)
  next
    case False
    with "1.prems" obtain r where r: "by_id cursor = Some r" "rr_id r \<noteq> self"
      "\<not> kMaxResourceDepth < steps + 1"
      "containment_walk by_id self (rr_parent r) (steps + 1) = Inr ()"
      by (subst (asm) containment_walk.simps) (auto split: option.splits if_splits)
    from "1.IH" [OF False r(1,2,3,4)] r(1) show ?thesis by (rule reaches_root.step [rotated])
  qed
qed

lemma validate_containment_reaches:
  "validate_containment by_id rs = Inr () \<Longrightarrow> r \<in> set rs \<Longrightarrow> reaches_root by_id (rr_parent r)"
  by (induction rs)
    (auto simp: id_valid_def intro: reaches_root.root dest: containment_walk_reaches split: if_splits)

definition parent_edges :: "ResourceRecord list \<Rightarrow> (ResourceId \<times> ResourceId) set" where
  "parent_edges rs = {(rr_id r, rr_parent r) | r. r \<in> set rs \<and> rr_parent r \<noteq> 0}"

lemma reaches_root_acyclic:
  assumes ids: "distinct (map rr_id rs)" "\<forall>r \<in> set rs. rr_id r \<noteq> 0"
    and "reaches_root (by_id_map rs) c"
  shows "(c, c) \<notin> (parent_edges rs)\<^sup>+"
  using assms(3)
proof induction
  case root
  have "(0, y) \<notin> parent_edges rs" for y using ids(2) by (auto simp: parent_edges_def)
  then show ?case by (meson tranclD)
next
  case (step c r)
  from step.hyps(1) have r: "r \<in> set rs" "rr_id r = c"
    by (auto simp: by_id_map_eq dest!: map_of_SomeD)
  show ?case
  proof
    assume "(c, c) \<in> (parent_edges rs)\<^sup>+"
    then obtain y where y: "(c, y) \<in> parent_edges rs" "(y, c) \<in> (parent_edges rs)\<^sup>*"
      by (meson tranclD)
    then obtain r' where "r' \<in> set rs" "rr_id r' = c" "y = rr_parent r'"
      by (auto simp: parent_edges_def)
    with r ids(1) have "y = rr_parent r" by (metis distinct_map inj_onD)
    with y have "(rr_parent r, rr_parent r) \<in> (parent_edges rs)\<^sup>+"
      by (simp add: rtrancl_into_trancl1)
    with step.IH show False by blast
  qed
qed

section \<open>The index agrees with the snapshot\<close>

lemma length_push_at [simp]: "length (push_at s x xss) = length xss"
  by (simp add: push_at_def)

lemma push_at_nth:
  "s < length xss \<Longrightarrow> i < length xss \<Longrightarrow> push_at s x xss ! i = (if i = s then xss ! i @ [x] else xss ! i)"
  by (simp add: push_at_def)

lemma sort_unique_eq: "sort_unique xs = sorted_list_of_set (set xs)"
  by (metis set_sort_unique sorted_sort_unique sorted_list_of_set.idem_if_sorted_distinct
      strict_sorted_iff)

lemma set_map_filter: "set (map f (filter P xs)) = {f x | x. x \<in> set xs \<and> P x}"
  by auto

lemma index_links_nth:
  assumes "\<forall>l \<in> set links. \<exists>a b. slot (lk_from l) = Some a \<and> a < n \<and> slot (lk_to l) = Some b \<and> b < n"
    and "length outs = n" "length ins = n" "i < n"
  shows "fst (index_links slot links (outs, ins)) ! i =
      outs ! i @ map lk_to (filter (\<lambda>l. slot (lk_from l) = Some i) links)"
    and "snd (index_links slot links (outs, ins)) ! i =
      ins ! i @ map lk_from (filter (\<lambda>l. slot (lk_to l) = Some i) links)"
  using assms unfolding index_links_def
  by (induction links arbitrary: outs ins) (auto simp: push_at_nth)

lemma length_index_links:
  "length (fst (index_links slot links (outs, ins))) = length outs"
  "length (snd (index_links slot links (outs, ins))) = length ins"
  unfolding index_links_def by (induction links arbitrary: outs ins) auto

lemma index_hops_set:
  assumes "\<And>hop s. slot hop = Some s \<Longrightarrow> s < n" and "length acc = n" and "i < n"
  shows "length (foldl (\<lambda>acc hop. case slot hop of None \<Rightarrow> acc | Some s \<Rightarrow> push_at s x acc) acc hops) = n"
    and "set (foldl (\<lambda>acc hop. case slot hop of None \<Rightarrow> acc | Some s \<Rightarrow> push_at s x acc) acc hops ! i) =
      set (acc ! i) \<union> (if \<exists>hop \<in> set hops. slot hop = Some i then {x} else {})"
  using assms by (induction hops arbitrary: acc) (auto simp: push_at_nth split: option.splits)

lemma index_path_hops_set:
  assumes "\<And>hop s. slot hop = Some s \<Longrightarrow> s < n" and "length acc = n" and "i < n"
  shows "length (index_path_hops slot ps acc) = n"
    and "set (index_path_hops slot ps acc ! i) =
      set (acc ! i) \<union> {pa_id p | p. p \<in> set ps \<and> (\<exists>hop \<in> set (pa_hops p). slot hop = Some i)}"
proof -
  have "length (index_path_hops slot ps acc) = n \<and> set (index_path_hops slot ps acc ! i) =
      set (acc ! i) \<union> {pa_id p | p. p \<in> set ps \<and> (\<exists>hop \<in> set (pa_hops p). slot hop = Some i)}"
    using assms(2)
  proof (induction ps arbitrary: acc)
    case Nil
    then show ?case by (simp add: index_path_hops_def)
  next
    case (Cons p ps)
    let ?acc = "foldl (\<lambda>acc hop. case slot hop of None \<Rightarrow> acc | Some s \<Rightarrow> push_at s (pa_id p) acc) acc (pa_hops p)"
    note hops = index_hops_set [OF assms(1) Cons.prems assms(3), where x = "pa_id p" and hops = "pa_hops p"]
    have "index_path_hops slot (p # ps) acc = index_path_hops slot ps ?acc"
      by (simp add: index_path_hops_def)
    with Cons.IH [OF hops(1)] hops(2) show ?case by auto
  qed
  then show "length (index_path_hops slot ps acc) = n"
    and "set (index_path_hops slot ps acc ! i) =
      set (acc ! i) \<union> {pa_id p | p. p \<in> set ps \<and> (\<exists>hop \<in> set (pa_hops p). slot hop = Some i)}"
    by blast+
qed

definition domain_index_inv :: "ResourceRecord list \<Rightarrow> DomainIndex \<Rightarrow> bool" where
  "domain_index_inv rs ix \<longleftrightarrow> length (di_members ix) = length (di_domains ix) \<and>
     (\<forall>d. di_slot ix d = None \<longrightarrow> filter (\<lambda>r. rr_domain r = d) rs = []) \<and>
     (\<forall>d s. di_slot ix d = Some s \<longrightarrow> s < length (di_domains ix) \<and> di_domains ix ! s = d \<and>
        di_members ix ! s = map rr_id (filter (\<lambda>r. rr_domain r = d) rs))"

lemma index_domain_step_inv:
  assumes "domain_index_inv rs ix"
  shows "domain_index_inv (rs @ [r]) (index_domain_step ix r)"
proof (cases "di_slot ix (rr_domain r)")
  case None
  with assms show ?thesis
    by (auto simp: domain_index_inv_def index_domain_step_def Let_def push_at_def nth_append
        nth_list_update list_update_append intro: less_SucI)
next
  case (Some s)
  with assms have uniq: "\<And>d. di_slot ix d = Some s \<Longrightarrow> d = rr_domain r"
    unfolding domain_index_inv_def by metis
  from Some assms show ?thesis
    by (auto simp: domain_index_inv_def index_domain_step_def Let_def push_at_nth dest: uniq)
qed

lemma index_domains_inv: "domain_index_inv rs (index_domains rs)"
proof (induction rs rule: rev_induct)
  case Nil
  then show ?case by (simp add: index_domains_def domain_index_inv_def)
next
  case (snoc r rs)
  then show ?case using index_domain_step_inv by (simp add: index_domains_def)
qed

text \<open>The index of an accepted snapshot, with the lookups it relies on.\<close>

abbreviation raw_edges :: "TopologySnapshot \<Rightarrow> ResourceId list list \<times> ResourceId list list" where
  "raw_edges s \<equiv> index_links (slot_map rr_id (ts_resources s)) (ts_links s)
     (replicate (length (ts_resources s)) [], replicate (length (ts_resources s)) [])"

lemma topology_build_Inr:
  assumes "topology_build s = Inr ix"
  shows "validate_topology s = Inr ()"
    and "ts_resources (ti_snapshot ix) = ts_resources s"
    and "ti_resource_slot ix = slot_map rr_id (ts_resources s)"
    and "ti_domain_slot ix = di_slot (index_domains (ts_resources s))"
    and "ti_out_edges ix = map sort_unique (fst (raw_edges s))"
    and "ti_in_edges ix = map sort_unique (snd (raw_edges s))"
    and "ti_domain_resources ix = map sort (di_members (index_domains (ts_resources s)))"
    and "ti_resource_paths ix = map sort_unique (index_path_hops (slot_map rr_id (ts_resources s))
           (filter (\<lambda>p. id_valid (pa_id p)) (ts_paths s)) (replicate (length (ts_resources s)) []))"
  using assms by (auto simp: topology_build_def Let_def case_prod_beta split: sum.splits)

lemma slot_map_less: "slot_map key xs k = Some a \<Longrightarrow> a < length xs"
  using slot_map_Some by metis

lemma index_link_slots:
  assumes "validate_topology s = Inr ()" and "l \<in> set (ts_links s)"
  shows "\<exists>a b. slot_map rr_id (ts_resources s) (lk_from l) = Some a \<and> a < length (ts_resources s) \<and>
    slot_map rr_id (ts_resources s) (lk_to l) = Some b \<and> b < length (ts_resources s)"
proof -
  from assms(1) obtain ids where v: "validate_resources [] (ts_resources s) = Inr ids"
    "validate_links ids [] (ts_links s) = Inr ()"
    by (rule validate_topology_Inr)
  have "lk_from l \<in> rr_id ` set (ts_resources s)" "lk_to l \<in> rr_id ` set (ts_resources s)"
    using validate_links_Inr [OF v(2) assms(2)] validate_resources_Inr [OF v(1)] by auto
  then show ?thesis
    by (metis not_None_eq slot_map_None slot_map_less)
qed

lemma index_edges:
  assumes "topology_build s = Inr ix"
  shows "ti_successors ix i = sorted_list_of_set {lk_to l | l. l \<in> set (ts_links s) \<and> lk_from l = i}"
    and "ti_predecessors ix i = sorted_list_of_set {lk_from l | l. l \<in> set (ts_links s) \<and> lk_to l = i}"
proof -
  note b = topology_build_Inr [OF assms]
  let ?slot = "slot_map rr_id (ts_resources s)" and ?n = "length (ts_resources s)"
  have ends: "\<forall>l \<in> set (ts_links s). \<exists>a b. ?slot (lk_from l) = Some a \<and> a < ?n \<and>
      ?slot (lk_to l) = Some b \<and> b < ?n"
    using index_link_slots [OF b(1)] by blast
  show "ti_successors ix i = sorted_list_of_set {lk_to l | l. l \<in> set (ts_links s) \<and> lk_from l = i}"
  proof (cases "?slot i")
    case None
    with ends have "{lk_to l | l. l \<in> set (ts_links s) \<and> lk_from l = i} = {}" by force
    then show ?thesis using None by (simp only: ti_successors_def b option.case sorted_list_of_set.sorted_key_list_of_set_empty)
  next
    case (Some a)
    then have eq: "?slot k = Some a \<longleftrightarrow> k = i" for k using slot_map_inj [of rr_id] by metis
    have "fst (raw_edges s) ! a = map lk_to (filter (\<lambda>l. ?slot (lk_from l) = Some a) (ts_links s))"
      using slot_map_less [OF Some] by (subst index_links_nth(1) [OF ends]) simp_all
    then have "set (fst (raw_edges s) ! a) = {lk_to l | l. l \<in> set (ts_links s) \<and> lk_from l = i}"
      by (auto simp: eq)
    moreover have "ti_successors ix i = sort_unique (fst (raw_edges s) ! a)"
      using slot_map_less [OF Some] by (simp add: ti_successors_def b Some length_index_links)
    ultimately show ?thesis by (simp only: sort_unique_eq)
  qed
  show "ti_predecessors ix i = sorted_list_of_set {lk_from l | l. l \<in> set (ts_links s) \<and> lk_to l = i}"
  proof (cases "?slot i")
    case None
    with ends have "{lk_from l | l. l \<in> set (ts_links s) \<and> lk_to l = i} = {}" by force
    then show ?thesis using None by (simp only: ti_predecessors_def b option.case sorted_list_of_set.sorted_key_list_of_set_empty)
  next
    case (Some a)
    then have eq: "?slot k = Some a \<longleftrightarrow> k = i" for k using slot_map_inj [of rr_id] by metis
    have "snd (raw_edges s) ! a = map lk_from (filter (\<lambda>l. ?slot (lk_to l) = Some a) (ts_links s))"
      using slot_map_less [OF Some] by (subst index_links_nth(2) [OF ends]) simp_all
    then have "set (snd (raw_edges s) ! a) = {lk_from l | l. l \<in> set (ts_links s) \<and> lk_to l = i}"
      by (auto simp: eq)
    moreover have "ti_predecessors ix i = sort_unique (snd (raw_edges s) ! a)"
      using slot_map_less [OF Some] by (simp add: ti_predecessors_def b Some length_index_links)
    ultimately show ?thesis by (simp only: sort_unique_eq)
  qed
qed

lemma index_domain_members:
  assumes "topology_build s = Inr ix"
  shows "ti_domain_members ix d =
    sorted_list_of_set {rr_id r | r. r \<in> set (ts_resources s) \<and> rr_domain r = d}"
proof -
  note b = topology_build_Inr [OF assms]
  let ?ids = "map rr_id (filter (\<lambda>r. rr_domain r = d) (ts_resources s))"
  have set: "set ?ids = {rr_id r | r. r \<in> set (ts_resources s) \<and> rr_domain r = d}" by auto
  have dist: "distinct ?ids"
    using b(1) validate_resources_Inr [of "[]" "ts_resources s"]
    by (elim validate_topology_Inr) (auto simp: distinct_map_filter)
  have "ti_domain_members ix d = sort ?ids"
    using index_domains_inv [of "ts_resources s"]
    by (auto simp: ti_domain_members_def b domain_index_inv_def split: option.splits)
  also have "\<dots> = sorted_list_of_set (set ?ids)"
    using dist by (metis distinct_sort set_sort sorted_list_of_set.idem_if_sorted_distinct sorted_sort)
  finally show ?thesis by (simp only: set)
qed

lemma index_paths:
  assumes "topology_build s = Inr ix"
  shows "ti_paths_of ix i = sorted_list_of_set {pa_id p | p. p \<in> set (ts_paths s) \<and> i \<in> set (pa_hops p)}"
proof -
  note b = topology_build_Inr [OF assms]
  let ?slot = "slot_map rr_id (ts_resources s)"
  from b(1) obtain ids where v: "validate_resources [] (ts_resources s) = Inr ids"
    "validate_paths ids [] (ts_paths s) = Inr ()"
    by (rule validate_topology_Inr)
  have kept: "filter (\<lambda>p. id_valid (pa_id p)) (ts_paths s) = ts_paths s"
    using validate_paths_Inr [OF v(2)] by (auto simp: id_valid_def filter_id_conv)
  show ?thesis
  proof (cases "?slot i")
    case None
    then have "i \<notin> set ids"
      using validate_resources_Inr [OF v(1)] by (simp add: slot_map_None)
    then have "{pa_id p | p. p \<in> set (ts_paths s) \<and> i \<in> set (pa_hops p)} = {}"
      using validate_paths_Inr [OF v(2)] by blast
    then show ?thesis using None by (simp only: ti_paths_of_def b option.case sorted_list_of_set.sorted_key_list_of_set_empty)
  next
    case (Some a)
    then have eq: "?slot k = Some a \<longleftrightarrow> k = i" for k using slot_map_inj [of rr_id] by metis
    let ?xss = "index_path_hops ?slot (ts_paths s) (replicate (length (ts_resources s)) [])"
    have "length ?xss = length (ts_resources s)" and
      set: "set (?xss ! a) = {pa_id p | p. p \<in> set (ts_paths s) \<and> i \<in> set (pa_hops p)}"
      using index_path_hops_set [OF slot_map_less [of rr_id "ts_resources s"], where
          acc = "replicate (length (ts_resources s)) []" and i = a and ps = "ts_paths s"]
        slot_map_less [OF Some] by (simp_all add: eq)
    then have "ti_paths_of ix i = sort_unique (?xss ! a)"
      using slot_map_less [OF Some] by (simp add: ti_paths_of_def b kept Some)
    then show ?thesis by (simp only: sort_unique_eq set)
  qed
qed

text \<open>A two-resource fabric, on which the theorems are instantiated.\<close>

definition two_node_topology :: TopologySnapshot where
  "two_node_topology =
     \<lparr>ts_id = 1, ts_generation = 1, ts_epoch = 1, ts_observed_tick = 1,
      ts_resources =
        [\<lparr>rr_id = 5, rr_domain = 7, rr_parent = 0, rr_serving_class = 0, rr_kind = RK_Node,
          rr_depth = 0, rr_nominal_capacity_bps = 100, rr_flags = 0\<rparr>,
         \<lparr>rr_id = 3, rr_domain = 7, rr_parent = 5, rr_serving_class = 0, rr_kind = RK_Port,
          rr_depth = 1, rr_nominal_capacity_bps = 100, rr_flags = 0\<rparr>],
      ts_links = [\<lparr>lk_id = 1, lk_from = 5, lk_to = 3, lk_capacity_bps = 100,
                   lk_latency_micros = 10, lk_weight = 1\<rparr>],
      ts_paths = [\<lparr>pa_id = 9, pa_hops = [5, 3], pa_capacity_bps = 100, pa_flags = 0\<rparr>],
      ts_fingerprint = 0\<rparr>"

lemma two_node_topology_valid: "validate_topology two_node_topology = Inr ()"
  by (simp add: validate_topology_def two_node_topology_def id_valid_def metric_plausible_max_def
      metric_descriptor_def kMetricTable_def metric_row_def ncf_defs containment_walk.simps
      by_id_map_def emplace_def andThen_def)

text \<open>C28: \<^verbatim>\<open>validate_topology\<close> accepts only snapshots whose resource identities are unique and non-null,
  whose links and path hops end at known resources, and whose containment forest is acyclic: no
  chain of parents ever returns to its start, so scope expansion along containment is bounded.\<close>

theorem validate_topology_acyclic:
  assumes "validate_topology s = Inr ()"
  shows "acyclic (parent_edges (ts_resources s)) \<and> distinct (map rr_id (ts_resources s)) \<and>
    (\<forall>r \<in> set (ts_resources s). rr_id r \<noteq> 0 \<and> rr_domain r \<noteq> 0) \<and>
    (\<forall>l \<in> set (ts_links s). {lk_from l, lk_to l} \<subseteq> rr_id ` set (ts_resources s)) \<and>
    (\<forall>p \<in> set (ts_paths s). set (pa_hops p) \<subseteq> rr_id ` set (ts_resources s))"
proof -
  from assms obtain ids where v: "validate_resources [] (ts_resources s) = Inr ids"
    "validate_containment (by_id_map (ts_resources s)) (ts_resources s) = Inr ()"
    "validate_links ids [] (ts_links s) = Inr ()" "validate_paths ids [] (ts_paths s) = Inr ()"
    by (rule validate_topology_Inr)
  note res = validate_resources_Inr [OF v(1)]
  have "acyclic (parent_edges (ts_resources s))"
  proof (rule acyclicI, rule allI, rule notI)
    fix x assume cyc: "(x, x) \<in> (parent_edges (ts_resources s))\<^sup>+"
    then obtain y where "(x, y) \<in> parent_edges (ts_resources s)" "(y, x) \<in> (parent_edges (ts_resources s))\<^sup>*"
      by (meson tranclD)
    then obtain r where r: "r \<in> set (ts_resources s)" "y = rr_parent r"
      "(y, y) \<in> (parent_edges (ts_resources s))\<^sup>+"
      by (auto simp: parent_edges_def intro: rtrancl_into_trancl1)
    from reaches_root_acyclic [OF _ _ validate_containment_reaches [OF v(2) r(1)]] res r show False
      by auto
  qed
  with res validate_links_Inr [OF v(3)] validate_paths_Inr [OF v(4)] show ?thesis by auto
qed

theorem validate_topology_acyclic_witness:
  "validate_topology two_node_topology = Inr () \<and>
   acyclic (parent_edges (ts_resources two_node_topology))"
  using validate_topology_acyclic [OF two_node_topology_valid] two_node_topology_valid by blast

text \<open>C29: the adjacency index built from an accepted snapshot answers exactly what the snapshot says:
  a lookup returns the record with that identity, successors and predecessors are the endpoints of
  the links leaving and entering a resource, domain members the resources assigned to the domain
  and resource paths the paths that visit the resource, each in ascending order without
  duplicates.\<close>

theorem topology_index_exact:
  assumes "topology_build s = Inr ix"
  shows "ti_resource ix i = find (\<lambda>r. rr_id r = i) (ts_resources s) \<and>
    ti_successors ix i = sorted_list_of_set {lk_to l | l. l \<in> set (ts_links s) \<and> lk_from l = i} \<and>
    ti_predecessors ix i = sorted_list_of_set {lk_from l | l. l \<in> set (ts_links s) \<and> lk_to l = i} \<and>
    ti_domain_members ix d = sorted_list_of_set {rr_id r | r. r \<in> set (ts_resources s) \<and> rr_domain r = d} \<and>
    ti_paths_of ix i = sorted_list_of_set {pa_id p | p. p \<in> set (ts_paths s) \<and> i \<in> set (pa_hops p)}"
proof -
  have "ti_resource ix i = find (\<lambda>r. rr_id r = i) (ts_resources s)"
    unfolding ti_resource_def topology_build_Inr(2,3) [OF assms] by (rule slot_map_find)
  with index_edges [OF assms] index_domain_members [OF assms] index_paths [OF assms]
  show ?thesis by blast
qed


theorem topology_index_exact_witness:
  "ti_successors (projr (topology_build two_node_topology)) 5 = [3] \<and>
   ti_domain_members (projr (topology_build two_node_topology)) 7 = [3, 5]"
proof -
  obtain ix where ix: "topology_build two_node_topology = Inr ix"
    using two_node_topology_valid by (auto simp: topology_build_def Let_def case_prod_beta)
  have "{lk_to l | l. l \<in> set (ts_links two_node_topology) \<and> lk_from l = 5} = {3}"
    "{rr_id r | r. r \<in> set (ts_resources two_node_topology) \<and> rr_domain r = 7} = {3, 5}"
    unfolding set_map_filter [symmetric] by (auto simp: two_node_topology_def)
  with topology_index_exact [OF ix, of 5 7] ix show ?thesis by simp
qed

end
