(* ===== verification/NCF_Hysteresis.thy ===== *)
theory NCF_Hysteresis
  imports NCF_Policy
begin

text \<open>
  The hysteresis state machine of one congestion domain, \<^verbatim>\<open>include/ncf/model/state.hpp\<close>,
  \<^verbatim>\<open>include/ncf/eval/hysteresis.hpp\<close> and \<^verbatim>\<open>src/eval/hysteresis.cpp\<close>: the durable state of a
  domain, the severity proposal of one evaluation, and the step that folds a proposal into the
  state. The lemmas show what the rest of the runtime relies on: refusing to decide is immediate,
  a backwards tick changes nothing, and a change of severity is committed only after the number of
  consecutive evaluations the policy asks for.
\<close>

section \<open>Domain state\<close>

record DomainState =
  ds_domain :: DomainId
  ds_state :: CongestionState
  ds_candidate :: CongestionState
  ds_candidate_streak :: u32
  ds_last_change_tick :: Tick
  ds_last_authoritative_tick :: Tick
  ds_last_evaluated_tick :: Tick
  ds_last_evaluation :: EvaluationId
  ds_last_evidence :: EvidenceSnapshotId
  ds_epoch :: EpochId
  ds_topology_generation :: TopologyGeneration
  ds_capacity_generation :: CapacityGeneration
  ds_policy :: PolicyId
  ds_policy_fingerprint :: Hash64
  ds_authority_generation :: AuthorityGeneration
  ds_last_committed_severity :: Severity
  ds_transition_count :: u64
  ds_evaluation_count :: u64
  ds_requires_revalidation :: bool

definition initial_domain_state :: DomainState where
  "initial_domain_state =
     \<lparr>ds_domain = 0, ds_state = St_Unknown, ds_candidate = St_Unknown, ds_candidate_streak = 0,
      ds_last_change_tick = kNoTick, ds_last_authoritative_tick = kNoTick,
      ds_last_evaluated_tick = kNoTick, ds_last_evaluation = 0, ds_last_evidence = 0,
      ds_epoch = 0, ds_topology_generation = 0, ds_capacity_generation = 0, ds_policy = 0,
      ds_policy_fingerprint = 0, ds_authority_generation = 0,
      ds_last_committed_severity = Sev_Clear, ds_transition_count = 0, ds_evaluation_count = 0,
      ds_requires_revalidation = False\<rparr>"

definition ds_authoritative :: "DomainState \<Rightarrow> bool" where
  "ds_authoritative d \<longleftrightarrow> is_authoritative (ds_state d) \<and> \<not> ds_requires_revalidation d"

record SeverityProposal =
  sp_upward :: Severity
  sp_downward :: Severity
  sp_has_value :: bool
  sp_indeterminate :: CongestionState

text \<open>The reason codes of a step, with the text the sources use.\<close>

datatype StepReason =
    HR_TickRegression
  | HR_InvalidProposal
  | HR_Indeterminate
  | HR_Steady
  | HR_HoldDwell
  | HR_HoldRecovering
  | HR_EscalatePending
  | HR_DowngradePending
  | HR_RecoveryStarted
  | HR_Escalated
  | HR_RecoveryComplete
  | HR_Downgraded

fun step_reason_text :: "StepReason \<Rightarrow> string" where
  "step_reason_text HR_TickRegression = ''tick-regression''"
| "step_reason_text HR_InvalidProposal = ''invalid-proposal''"
| "step_reason_text HR_Indeterminate = ''indeterminate''"
| "step_reason_text HR_Steady = ''steady''"
| "step_reason_text HR_HoldDwell = ''hold-dwell''"
| "step_reason_text HR_HoldRecovering = ''hold-recovering''"
| "step_reason_text HR_EscalatePending = ''escalate-pending''"
| "step_reason_text HR_DowngradePending = ''downgrade-pending''"
| "step_reason_text HR_RecoveryStarted = ''recovery-started''"
| "step_reason_text HR_Escalated = ''escalated''"
| "step_reason_text HR_RecoveryComplete = ''recovery-complete''"
| "step_reason_text HR_Downgraded = ''downgraded''"

record HysteresisStep =
  hs_committed :: CongestionState
  hs_transitioned :: bool
  hs_reason :: StepReason

section \<open>The step\<close>

definition at_least_one :: "u32 \<Rightarrow> u32" where
  "at_least_one v = (if v = 0 then 1 else v)"

definition elapsed_since :: "Tick \<Rightarrow> Tick \<Rightarrow> Tick" where
  "elapsed_since now since = (if now \<ge> since then now - since else 0)"

definition tick_regression :: "DomainState \<Rightarrow> Tick \<Rightarrow> bool" where
  "tick_regression d now \<longleftrightarrow>
     (ds_last_change_tick d \<noteq> kNoTick \<and> now < ds_last_change_tick d) \<or>
     (ds_last_evaluated_tick d \<noteq> kNoTick \<and> now < ds_last_evaluated_tick d)"

text \<open>
  The refusal branch: no severity could be derived. Losing an authoritative state to missing
  evidence is stale, not unknown.
\<close>

definition indeterminate_target :: "DomainState \<Rightarrow> CongestionState \<Rightarrow> CongestionState" where
  "indeterminate_target d t =
     (if t = St_Unknown \<and> ds_last_authoritative_tick d \<noteq> kNoTick then St_Stale else t)"

definition refuse_step ::
  "DomainState \<Rightarrow> SeverityProposal \<Rightarrow> Tick \<Rightarrow> DomainState \<times> HysteresisStep" where
  "refuse_step d p now =
     (if \<not> is_indeterminate (sp_indeterminate p)
      then (d, \<lparr>hs_committed = ds_state d, hs_transitioned = False, hs_reason = HR_InvalidProposal\<rparr>)
      else
        let target = indeterminate_target d (sp_indeterminate p);
            d1 = d\<lparr>ds_candidate := St_Unknown, ds_candidate_streak := 0\<rparr>;
            moved = ds_state d \<noteq> target;
            d2 = (if moved then d1\<lparr>ds_state := target, ds_last_change_tick := now,
                                   ds_transition_count := ds_transition_count d + 1\<rparr> else d1)
        in (d2, \<lparr>hs_committed = ds_state d2, hs_transitioned = moved, hs_reason = HR_Indeterminate\<rparr>))"

text \<open>Where the authoritative ladder wants to go: target, required samples, escalation.\<close>

record LadderTarget =
  lt_target :: CongestionState
  lt_required :: u32
  lt_escalation :: bool

definition recovery_samples :: "RecoveryPolicy \<Rightarrow> u32" where
  "recovery_samples r = (if rp_allow_single_sample r then 1 else max 2 (rp_min_improved_samples r))"

definition ladder_target ::
  "DomainState \<Rightarrow> SeverityProposal \<Rightarrow> HysteresisPolicy \<Rightarrow> RecoveryPolicy \<Rightarrow> LadderTarget option" where
  "ladder_target d p h r =
     (let current_severity = (case severity_of (ds_state d) of None \<Rightarrow> Sev_Clear | Some s \<Rightarrow> s) in
      if \<not> is_authoritative (ds_state d) then
        if sp_upward p \<ge> Sev_Congested then
          Some \<lparr>lt_target = state_of (sp_upward p),
                lt_required = at_least_one (hp_escalate_samples h), lt_escalation = True\<rparr>
        else if rp_enabled r \<and> ds_last_committed_severity d \<ge> Sev_Congested then
          Some \<lparr>lt_target = St_Recovering, lt_required = recovery_samples r, lt_escalation = False\<rparr>
        else
          Some \<lparr>lt_target = state_of (sp_upward p), lt_required = 1, lt_escalation = False\<rparr>
      else if sp_upward p > current_severity then
        Some \<lparr>lt_target = state_of (sp_upward p),
              lt_required = at_least_one (hp_escalate_samples h), lt_escalation = True\<rparr>
      else if sp_downward p < current_severity then
        if ds_state d = St_Recovering then
          if sp_downward p = Sev_Clear then
            Some \<lparr>lt_target = St_Clear, lt_required = at_least_one (rp_clear_samples r),
                  lt_escalation = False\<rparr>
          else
            Some \<lparr>lt_target = state_of (sp_downward p),
                  lt_required = at_least_one (hp_deescalate_samples h), lt_escalation = False\<rparr>
        else if rp_enabled r \<and> sp_downward p = Sev_Clear \<and> current_severity \<ge> Sev_Congested then
          Some \<lparr>lt_target = St_Recovering, lt_required = recovery_samples r, lt_escalation = False\<rparr>
        else
          Some \<lparr>lt_target = state_of (sp_downward p),
                lt_required = at_least_one (hp_deescalate_samples h), lt_escalation = False\<rparr>
      else None)"

definition advance_streak :: "CongestionState \<Rightarrow> DomainState \<Rightarrow> DomainState" where
  "advance_streak target d =
     (if ds_candidate d = target \<and> ds_candidate_streak d > 0 then
        if ds_candidate_streak d < kMaxHysteresisSamples
        then d\<lparr>ds_candidate_streak := ds_candidate_streak d + 1\<rparr> else d
      else d\<lparr>ds_candidate := target, ds_candidate_streak := 1\<rparr>)"

definition dwell_holds :: "DomainState \<Rightarrow> HysteresisPolicy \<Rightarrow> bool \<Rightarrow> Tick \<Rightarrow> bool" where
  "dwell_holds d h escalation now \<longleftrightarrow>
     (if escalation then hp_apply_dwell_on_escalation h else True) \<and>
     hp_min_dwell_ticks h > 0 \<and> ds_last_change_tick d \<noteq> kNoTick \<and>
     elapsed_since now (ds_last_change_tick d) < hp_min_dwell_ticks h"

definition recovering_holds :: "DomainState \<Rightarrow> RecoveryPolicy \<Rightarrow> Tick \<Rightarrow> bool" where
  "recovering_holds d r now \<longleftrightarrow>
     ds_state d = St_Recovering \<and> rp_recovering_hold_ticks r > 0 \<and>
     ds_last_change_tick d \<noteq> kNoTick \<and>
     elapsed_since now (ds_last_change_tick d) < rp_recovering_hold_ticks r"

definition commit_reason :: "CongestionState \<Rightarrow> bool \<Rightarrow> StepReason" where
  "commit_reason target escalation =
     (if target = St_Recovering then HR_RecoveryStarted
      else if escalation then HR_Escalated
      else if target = St_Clear then HR_RecoveryComplete
      else HR_Downgraded)"

definition commit_state :: "CongestionState \<Rightarrow> Tick \<Rightarrow> DomainState \<Rightarrow> DomainState" where
  "commit_state target now d =
     (let d1 = d\<lparr>ds_state := target, ds_candidate := St_Unknown, ds_candidate_streak := 0,
                 ds_last_change_tick := now, ds_transition_count := ds_transition_count d + 1\<rparr>
      in if is_authoritative target
         then d1\<lparr>ds_last_authoritative_tick := now,
                 ds_last_committed_severity :=
                   (case severity_of target of None \<Rightarrow> Sev_Clear | Some s \<Rightarrow> s),
                 ds_requires_revalidation := False\<rparr>
         else d1)"

definition ladder_step ::
  "DomainState \<Rightarrow> SeverityProposal \<Rightarrow> HysteresisPolicy \<Rightarrow> RecoveryPolicy \<Rightarrow> Tick \<Rightarrow>
     DomainState \<times> HysteresisStep" where
  "ladder_step d p h r now =
     (case ladder_target d p h r of
        None \<Rightarrow>
          (d\<lparr>ds_candidate := ds_state d, ds_candidate_streak := 0, ds_last_authoritative_tick := now,
             ds_last_committed_severity :=
               (case severity_of (ds_state d) of None \<Rightarrow> Sev_Clear | Some s \<Rightarrow> s)\<rparr>,
           \<lparr>hs_committed = ds_state d, hs_transitioned = False, hs_reason = HR_Steady\<rparr>)
      | Some t \<Rightarrow>
          let required = (if lt_required t > kMaxHysteresisSamples then kMaxHysteresisSamples
                          else lt_required t)
          in if lt_target t = ds_state d then
            (d\<lparr>ds_candidate := ds_state d, ds_candidate_streak := 0, ds_last_authoritative_tick := now\<rparr>,
             \<lparr>hs_committed = ds_state d, hs_transitioned = False, hs_reason = HR_Steady\<rparr>)
          else
            let d1 = advance_streak (lt_target t) d in
            if dwell_holds d1 h (lt_escalation t) now then
              (d1, \<lparr>hs_committed = ds_state d1, hs_transitioned = False, hs_reason = HR_HoldDwell\<rparr>)
            else if recovering_holds d1 r now then
              (d1, \<lparr>hs_committed = ds_state d1, hs_transitioned = False, hs_reason = HR_HoldRecovering\<rparr>)
            else if ds_candidate_streak d1 < required then
              (d1, \<lparr>hs_committed = ds_state d1, hs_transitioned = False,
                    hs_reason = (if lt_escalation t then HR_EscalatePending else HR_DowngradePending)\<rparr>)
            else
              (commit_state (lt_target t) now d1,
               \<lparr>hs_committed = lt_target t, hs_transitioned = True,
                hs_reason = commit_reason (lt_target t) (lt_escalation t)\<rparr>))"

definition hysteresis_step ::
  "DomainState \<Rightarrow> SeverityProposal \<Rightarrow> HysteresisPolicy \<Rightarrow> RecoveryPolicy \<Rightarrow> Tick \<Rightarrow>
     DomainState \<times> HysteresisStep" where
  "hysteresis_step d p h r now =
     (if tick_regression d now
      then (d, \<lparr>hs_committed = ds_state d, hs_transitioned = False, hs_reason = HR_TickRegression\<rparr>)
      else if \<not> sp_has_value p then refuse_step d p now
      else ladder_step d p h r now)"

section \<open>Well-formedness\<close>

definition ds_wf :: "DomainState \<Rightarrow> bool" where
  "ds_wf d \<longleftrightarrow> st_u8 (ds_state d) < 8 \<and> sev_u8 (ds_last_committed_severity d) < 4 \<and>
     ds_candidate_streak d \<le> kMaxHysteresisSamples"

lemmas hysteresis_defs = hysteresis_step_def refuse_step_def ladder_step_def Let_def

lemma state_of_less_8 [simp]: "st_u8 (state_of s) < 8"
  by (simp add: state_of_def)

lemma severity_of_less_4: "severity_of s = Some v \<Longrightarrow> sev_u8 v < 4"
  by (auto simp: severity_of_def split: if_splits)

lemma current_severity_less_4:
  "sev_u8 (case severity_of s of None \<Rightarrow> Sev_Clear | Some v \<Rightarrow> v) < 4"
  by (auto dest: severity_of_less_4 split: option.splits)

lemma is_indeterminate_less_8: "is_indeterminate s \<Longrightarrow> st_u8 s < 8"
  by (auto simp: is_indeterminate_def)

lemma is_authoritative_less_8: "is_authoritative s \<Longrightarrow> st_u8 s < 8"
  by (auto simp: is_authoritative_def)

lemma indeterminate_target_ok: "is_indeterminate t \<Longrightarrow> is_indeterminate (indeterminate_target d t)"
  by (simp add: indeterminate_target_def is_indeterminate_def)

lemma indeterminate_not_authoritative: "is_indeterminate s \<Longrightarrow> \<not> is_authoritative s"
  by (auto simp: is_indeterminate_def is_authoritative_def)

lemma advance_streak_fields [simp]:
  "ds_state (advance_streak t d) = ds_state d"
  "ds_last_change_tick (advance_streak t d) = ds_last_change_tick d"
  "ds_last_evaluated_tick (advance_streak t d) = ds_last_evaluated_tick d"
  "ds_last_committed_severity (advance_streak t d) = ds_last_committed_severity d"
  "ds_requires_revalidation (advance_streak t d) = ds_requires_revalidation d"
  "ds_candidate (advance_streak t d) = t"
  by (auto simp: advance_streak_def)

lemma u32_inc: "(x :: u32) < kMaxHysteresisSamples \<Longrightarrow> unat (x + 1) = unat x + 1"
  by (simp add: kMaxHysteresisSamples_def word_less_nat_alt unat_word_ariths)

lemma advance_streak_bound:
  "ds_candidate_streak d \<le> kMaxHysteresisSamples \<Longrightarrow>
   ds_candidate_streak (advance_streak t d) \<le> kMaxHysteresisSamples"
  by (auto simp: advance_streak_def word_le_nat_alt word_less_nat_alt u32_inc)
    (simp_all add: kMaxHysteresisSamples_def)

lemma commit_state_fields [simp]:
  "ds_state (commit_state t now d) = t"
  "ds_candidate_streak (commit_state t now d) = 0"
  by (auto simp: commit_state_def Let_def)

text \<open>The target of the ladder is always one of the named states.\<close>

lemma ladder_target_less_8: "ladder_target d p h r = Some t \<Longrightarrow> st_u8 (lt_target t) < 8"
  by (auto simp: ladder_target_def Let_def split: if_splits)

lemma hysteresis_step_wf:
  assumes "ds_wf d"
  shows "ds_wf (fst (hysteresis_step d p h r now))"
proof -
  have zero: "(0 :: u32) \<le> kMaxHysteresisSamples" by simp
  have refuse: "ds_wf (fst (refuse_step d p now))"
    using assms indeterminate_target_ok [THEN is_indeterminate_less_8]
    by (auto simp: refuse_step_def Let_def ds_wf_def)
  have ladder: "ds_wf (fst (ladder_step d p h r now))"
  proof (cases "ladder_target d p h r")
    case None
    then show ?thesis
      using assms current_severity_less_4 by (simp add: ladder_step_def ds_wf_def)
  next
    case (Some t)
    have "ds_wf (advance_streak (lt_target t) d)"
      using assms by (simp add: ds_wf_def advance_streak_bound)
    moreover have "ds_wf (commit_state (lt_target t) now (advance_streak (lt_target t) d))"
      using assms ladder_target_less_8 [OF Some] current_severity_less_4
      by (auto simp: ds_wf_def commit_state_def Let_def)
    ultimately show ?thesis
      using Some assms by (auto simp: ladder_step_def Let_def ds_wf_def)
  qed
  from refuse ladder assms show ?thesis by (simp add: hysteresis_step_def)
qed

section \<open>Runs\<close>

text \<open>
  What one evaluation asks the machine for: nothing when the tick went backwards or the proposal
  is inconsistent, \<^const>\<open>None\<close> when it refuses to decide or confirms the committed state, and the
  target state otherwise.
\<close>

definition asked :: "DomainState \<Rightarrow> SeverityProposal \<Rightarrow> HysteresisPolicy \<Rightarrow> RecoveryPolicy \<Rightarrow> Tick \<Rightarrow>
    CongestionState option list" where
  "asked d p h r now =
     (if tick_regression d now then []
      else if \<not> sp_has_value p then if is_indeterminate (sp_indeterminate p) then [None] else []
      else case ladder_target d p h r of
          None \<Rightarrow> [None]
        | Some t \<Rightarrow> if lt_target t = ds_state d then [None] else [Some (lt_target t)])"

text \<open>
  A run of one domain: hysteresis steps, and between them any bookkeeping of the surrounding
  runtime that leaves the committed state and the pending candidate alone.
\<close>

inductive hyst_run :: "HysteresisPolicy \<Rightarrow> RecoveryPolicy \<Rightarrow> DomainState \<Rightarrow>
    CongestionState option list \<Rightarrow> DomainState \<Rightarrow> bool" for h r d0 where
  start: "hyst_run h r d0 [] d0"
| step: "hyst_run h r d0 ts d \<Longrightarrow>
    hyst_run h r d0 (ts @ asked d p h r now) (fst (hysteresis_step d p h r now))"
| other: "hyst_run h r d0 ts d \<Longrightarrow> ds_state d' = ds_state d \<Longrightarrow> ds_candidate d' = ds_candidate d \<Longrightarrow>
    ds_candidate_streak d' = ds_candidate_streak d \<Longrightarrow> hyst_run h r d0 ts d'"

definition streak_ok :: "CongestionState option list \<Rightarrow> DomainState \<Rightarrow> bool" where
  "streak_ok ts d \<longleftrightarrow> unat (ds_candidate_streak d) \<le> length ts \<and>
     (\<forall>x \<in> set (drop (length ts - unat (ds_candidate_streak d)) ts). x = Some (ds_candidate d))"

lemma streak_ok_zero: "ds_candidate_streak d = 0 \<Longrightarrow> streak_ok ts d"
  by (simp add: streak_ok_def)

lemma streak_ok_advance:
  assumes "streak_ok ts d"
  shows "streak_ok (ts @ [Some t]) (advance_streak t d)"
proof (cases "ds_candidate d = t \<and> ds_candidate_streak d > 0")
  case False
  then have "ds_candidate_streak (advance_streak t d) = 1" by (auto simp: advance_streak_def)
  then show ?thesis by (simp add: streak_ok_def)
next
  case True
  let ?n = "unat (ds_candidate_streak d)"
  have n: "0 < ?n" using True by (simp add: word_less_nat_alt)
  show ?thesis
  proof (cases "ds_candidate_streak d < kMaxHysteresisSamples")
    case inc: True
    with True have "unat (ds_candidate_streak (advance_streak t d)) = Suc ?n"
      by (simp add: advance_streak_def u32_inc)
    with assms True show ?thesis by (auto simp: streak_ok_def)
  next
    case False
    with True have "unat (ds_candidate_streak (advance_streak t d)) = ?n"
      by (simp add: advance_streak_def)
    moreover have "set (drop (Suc (length ts) - ?n) ts) \<subseteq> set (drop (length ts - ?n) ts)"
      by (rule set_drop_subset_set_drop) simp
    ultimately show ?thesis using assms True n by (auto simp: streak_ok_def)
  qed
qed

lemma streak_ok_step:
  assumes "streak_ok ts d"
  shows "streak_ok (ts @ asked d p h r now) (fst (hysteresis_step d p h r now))"
proof (cases "tick_regression d now \<or> \<not> sp_has_value p")
  case True
  then show ?thesis
    using assms by (auto simp: asked_def hysteresis_step_def refuse_step_def Let_def streak_ok_zero)
next
  case False
  show ?thesis
  proof (cases "ladder_target d p h r")
    case None
    with False show ?thesis
      by (simp add: asked_def hysteresis_step_def ladder_step_def streak_ok_zero)
  next
    case (Some t)
    with False streak_ok_advance [OF assms, of "lt_target t"] show ?thesis
      by (auto simp: asked_def hysteresis_step_def ladder_step_def Let_def streak_ok_zero)
  qed
qed

lemma hyst_run_streak_ok:
  "hyst_run h r d0 ts d \<Longrightarrow> ds_candidate_streak d0 = 0 \<Longrightarrow> streak_ok ts d"
proof (induction rule: hyst_run.induct)
  case start
  then show ?case by (rule streak_ok_zero)
next
  case (step ts d p now)
  then show ?case by (simp add: streak_ok_step)
next
  case (other ts d d')
  then show ?case by (simp add: streak_ok_def)
qed

text \<open>The number of consecutive evaluations a target needs, as the code caps it.\<close>

definition needed :: "LadderTarget \<Rightarrow> nat" where
  "needed t = min (unat (lt_required t)) (unat kMaxHysteresisSamples)"

lemma ladder_commit:
  assumes "snd (ladder_step d p h r now) = s" and "hs_transitioned s"
  obtains t where "ladder_target d p h r = Some t" and "lt_target t \<noteq> ds_state d"
    and "hs_committed s = lt_target t"
    and "needed t \<le> unat (ds_candidate_streak (advance_streak (lt_target t) d))"
  using assms
  by (auto simp: ladder_step_def Let_def needed_def word_less_nat_alt linorder_not_less
      split: option.splits if_splits)

lemma ladder_recovery_required:
  assumes "ladder_target d p h r = Some t" and "lt_target t = St_Recovering"
  shows "lt_required t = recovery_samples r"
  using assms by (auto simp: ladder_target_def Let_def state_of_def split: if_splits)

lemma needed_recovery:
  "ladder_target d p h r = Some t \<Longrightarrow> lt_target t = St_Recovering \<Longrightarrow> \<not> rp_allow_single_sample r \<Longrightarrow>
   2 \<le> needed t"
  by (drule (1) ladder_recovery_required)
    (auto simp: needed_def recovery_samples_def kMaxHysteresisSamples_def max_def word_le_nat_alt)
section \<open>Properties\<close>

text \<open>C7: a severity change is committed only after as many consecutive evaluations as the policy asks
  for. Whenever a run that started without a pending candidate commits an authoritative state, the
  evaluation that commits it and the accepted evaluations just before it, together the required
  number, all asked for that very state; and entering recovery takes at least two of them unless
  the policy opts in to single-sample recovery.\<close>

theorem hysteresis_debounce:
  assumes "hyst_run h r d0 ts d" and "ds_candidate_streak d0 = 0"
    and "\<not> tick_regression d now" and "sp_has_value p"
    and "hs_transitioned (snd (hysteresis_step d p h r now))"
  shows "\<exists>t. ladder_target d p h r = Some t \<and>
    hs_committed (snd (hysteresis_step d p h r now)) = lt_target t \<and>
    needed t \<le> length ts + 1 \<and>
    (\<forall>x \<in> set (drop (length ts + 1 - needed t) (ts @ asked d p h r now)). x = Some (lt_target t)) \<and>
    (lt_target t = St_Recovering \<and> \<not> rp_allow_single_sample r \<longrightarrow> 2 \<le> needed t)"
proof -
  from assms have "snd (ladder_step d p h r now) = snd (hysteresis_step d p h r now)"
    by (simp add: hysteresis_step_def)
  from ladder_commit [OF this assms(5)] obtain t where t: "ladder_target d p h r = Some t"
    "lt_target t \<noteq> ds_state d" "hs_committed (snd (hysteresis_step d p h r now)) = lt_target t"
    "needed t \<le> unat (ds_candidate_streak (advance_streak (lt_target t) d))" .
  have ok: "streak_ok (ts @ [Some (lt_target t)]) (advance_streak (lt_target t) d)"
    by (rule streak_ok_advance [OF hyst_run_streak_ok [OF assms(1,2)]])
  have ask: "asked d p h r now = [Some (lt_target t)]"
    using assms(3,4) t(1,2) by (simp add: asked_def)
  let ?n = "unat (ds_candidate_streak (advance_streak (lt_target t) d))"
  have "set (drop (length ts + 1 - needed t) (ts @ [Some (lt_target t)])) \<subseteq>
      set (drop (length ts + 1 - ?n) (ts @ [Some (lt_target t)]))"
    using t(4) by (intro set_drop_subset_set_drop) simp
  with ok t needed_recovery [OF t(1)] show ?thesis
    by (intro exI [of _ t]) (auto simp: streak_ok_def ask)
qed

theorem hysteresis_debounce_witness:
  "needed \<lparr>lt_target = St_Severe, lt_required = 1, lt_escalation = True\<rparr> \<le> length [] + 1 \<and>
   hs_committed (snd (hysteresis_step (initial_domain_state\<lparr>ds_state := St_Watch\<rparr>)
     \<lparr>sp_upward = Sev_Severe, sp_downward = Sev_Severe, sp_has_value = True, sp_indeterminate = St_Unknown\<rparr>
     (po_hysteresis make_default_policy) (po_recovery make_default_policy) 9)) = St_Severe"
proof -
  let ?h = "po_hysteresis make_default_policy" and ?r = "po_recovery make_default_policy"
  let ?d = "initial_domain_state\<lparr>ds_state := St_Watch\<rparr>"
  let ?p = "\<lparr>sp_upward = Sev_Severe, sp_downward = Sev_Severe, sp_has_value = True, sp_indeterminate = St_Unknown\<rparr>"
  have lt: "ladder_target ?d ?p ?h ?r = Some \<lparr>lt_target = St_Severe, lt_required = 1, lt_escalation = True\<rparr>"
    by (simp add: ladder_target_def is_authoritative_def severity_of_def state_of_def at_least_one_def
        make_default_policy_def default_policy_body_def)
  have ok: "\<not> tick_regression ?d 9"
    by (simp add: tick_regression_def initial_domain_state_def kNoTick_def)
  have "hs_transitioned (snd (hysteresis_step ?d ?p ?h ?r 9))"
    using ok lt by (simp add: hysteresis_step_def ladder_step_def Let_def dwell_holds_def
        recovering_holds_def advance_streak_def kMaxHysteresisSamples_def initial_domain_state_def
        make_default_policy_def default_policy_body_def)
  from hysteresis_debounce [OF hyst_run.start _ ok _ this] lt show ?thesis
    by (auto simp: initial_domain_state_def)
qed

text \<open>Refusing to decide is immediate and a backwards tick is refused. When no severity could be
  derived, the very next step puts the domain into an indeterminate state, which is stale rather
  than unknown if anything authoritative was known before, drops any pending candidate, and leaves
  nothing that could authorise an intervention; a tick older than the last change or evaluation
  leaves the state untouched.\<close>

theorem hysteresis_refusal_immediate:
  assumes "\<not> sp_has_value p" and "is_indeterminate (sp_indeterminate p)"
  shows "let d' = fst (hysteresis_step d p h r now) in
    if tick_regression d now then d' = d
    else is_indeterminate (ds_state d') \<and> \<not> ds_authoritative d' \<and> ds_candidate_streak d' = 0 \<and>
      hs_committed (snd (hysteresis_step d p h r now)) = ds_state d' \<and>
      (ds_last_authoritative_tick d \<noteq> kNoTick \<longrightarrow> ds_state d' \<noteq> St_Unknown)"
proof -
  let ?t = "indeterminate_target d (sp_indeterminate p)"
  have "is_indeterminate ?t" by (rule indeterminate_target_ok [OF assms(2)])
  moreover from this have "\<not> is_authoritative ?t" by (rule indeterminate_not_authoritative)
  moreover have "ds_last_authoritative_tick d \<noteq> kNoTick \<longrightarrow> ?t \<noteq> St_Unknown"
    by (simp add: indeterminate_target_def)
  ultimately show ?thesis
    using assms
    by (cases "ds_state d = ?t")
      (simp_all add: hysteresis_step_def refuse_step_def Let_def ds_authoritative_def)
qed

theorem hysteresis_refusal_immediate_witness:
  "is_indeterminate (ds_state (fst (hysteresis_step (initial_domain_state\<lparr>ds_state := St_Severe\<rparr>)
     \<lparr>sp_upward = Sev_Clear, sp_downward = Sev_Clear, sp_has_value = False,
      sp_indeterminate = St_Conflict\<rparr>
     (po_hysteresis make_default_policy) (po_recovery make_default_policy) 5)))"
  using hysteresis_refusal_immediate [of "\<lparr>sp_upward = Sev_Clear, sp_downward = Sev_Clear,
      sp_has_value = False, sp_indeterminate = St_Conflict\<rparr>" "initial_domain_state\<lparr>ds_state := St_Severe\<rparr>"
      "po_hysteresis make_default_policy" "po_recovery make_default_policy" 5]
  by (simp add: is_indeterminate_def Let_def tick_regression_def initial_domain_state_def kNoTick_def)

text \<open>Folding a sequence of observations.\<close>

definition hysteresis_run ::
  "HysteresisPolicy \<Rightarrow> RecoveryPolicy \<Rightarrow> (SeverityProposal \<times> Tick) list \<Rightarrow> DomainState \<Rightarrow> DomainState" where
  "hysteresis_run h r obs d = foldl (\<lambda>d (p, now). fst (hysteresis_step d p h r now)) d obs"

definition escalation_cap :: "HysteresisPolicy \<Rightarrow> u32" where
  "escalation_cap h = (if at_least_one (hp_escalate_samples h) > kMaxHysteresisSamples
     then kMaxHysteresisSamples else at_least_one (hp_escalate_samples h))"

text \<open>An evaluation that argues for the same higher severity.\<close>

definition argues_for :: "Severity \<Rightarrow> DomainState \<Rightarrow> SeverityProposal \<times> Tick \<Rightarrow> bool" where
  "argues_for s d o1 \<longleftrightarrow> sp_has_value (fst o1) \<and> sp_upward (fst o1) = s \<and>
     ds_last_change_tick d \<le> snd o1 \<and> ds_last_evaluated_tick d \<le> snd o1"

definition may_rise :: "HysteresisPolicy \<Rightarrow> RecoveryPolicy \<Rightarrow> Severity \<Rightarrow> DomainState \<Rightarrow> bool" where
  "may_rise h r s d \<longleftrightarrow> is_authoritative (ds_state d) \<and> sev_u8 s < 4 \<and>
     (case severity_of (ds_state d) of None \<Rightarrow> False | Some c \<Rightarrow> c < s) \<and>
     \<not> hp_apply_dwell_on_escalation h \<and> (ds_state d = St_Recovering \<longrightarrow> rp_recovering_hold_ticks r = 0)"

lemma state_of_higher:
  assumes "sev_u8 s < 4" and "severity_of c = Some v" and "v < s"
  shows "state_of s \<noteq> c"
  using assms severity_of_state_of [of s] by auto

lemma escalate_step:
  assumes "may_rise h r s d" and "argues_for s d (p, now)"
  shows "hysteresis_step d p h r now =
    (let d1 = advance_streak (state_of s) d in
     if ds_candidate_streak d1 < escalation_cap h
     then (d1, \<lparr>hs_committed = ds_state d, hs_transitioned = False, hs_reason = HR_EscalatePending\<rparr>)
     else (commit_state (state_of s) now d1,
           \<lparr>hs_committed = state_of s, hs_transitioned = True,
            hs_reason = commit_reason (state_of s) True\<rparr>))"
proof -
  from assms(1) obtain c where c: "severity_of (ds_state d) = Some c" "c < s"
    by (auto simp: may_rise_def split: option.splits)
  have ne: "state_of s \<noteq> ds_state d"
    using assms(1) c state_of_higher by (auto simp: may_rise_def)
  have "\<not> tick_regression d now"
    using assms(2) by (auto simp: tick_regression_def argues_for_def)
  moreover have "ladder_target d p h r = Some \<lparr>lt_target = state_of s,
      lt_required = at_least_one (hp_escalate_samples h), lt_escalation = True\<rparr>"
    using assms(1,2) c by (simp add: ladder_target_def may_rise_def argues_for_def)
  ultimately show ?thesis
    using assms(1,2) ne
    by (auto simp: hysteresis_step_def ladder_step_def Let_def escalation_cap_def argues_for_def
        may_rise_def dwell_holds_def recovering_holds_def)
qed

lemma escalation_cap_pos: "0 < unat (escalation_cap h)"
  by (auto simp: escalation_cap_def at_least_one_def kMaxHysteresisSamples_def unat_gt_0)

lemma escalation_cap_le: "unat (escalation_cap h) \<le> unat kMaxHysteresisSamples"
  by (auto simp: escalation_cap_def word_le_nat_alt word_less_nat_alt)

lemma advance_streak_count:
  assumes "unat (ds_candidate_streak d) < unat kMaxHysteresisSamples"
    and "ds_candidate_streak d = 0 \<or> ds_candidate d = t"
  shows "unat (ds_candidate_streak (advance_streak t d)) = unat (ds_candidate_streak d) + 1"
  using assms
  by (cases "ds_candidate_streak d = 0")
    (auto simp: advance_streak_def word_less_nat_alt u32_inc unat_gt_0)

lemma escalate_pending:
  assumes "may_rise h r s d" and "\<forall>o1 \<in> set obs. argues_for s d o1"
    and "ds_candidate_streak d = 0 \<or> ds_candidate d = state_of s"
    and "unat (ds_candidate_streak d) + length obs < unat (escalation_cap h)"
  shows "let d' = hysteresis_run h r obs d in
    ds_state d' = ds_state d \<and> may_rise h r s d' \<and> (\<forall>o1. argues_for s d o1 \<longrightarrow> argues_for s d' o1) \<and>
    unat (ds_candidate_streak d') = unat (ds_candidate_streak d) + length obs \<and>
    (ds_candidate_streak d' = 0 \<or> ds_candidate d' = state_of s)"
  using assms
proof (induction obs arbitrary: d)
  case Nil
  then show ?case by (simp add: hysteresis_run_def)
next
  case (Cons o1 obs)
  obtain p now where o1: "o1 = (p, now)" by (cases o1)
  let ?d1 = "advance_streak (state_of s) d"
  have lt: "unat (ds_candidate_streak d) < unat kMaxHysteresisSamples"
    using Cons.prems(4) escalation_cap_le [of h] by linarith
  note cnt = advance_streak_count [OF lt Cons.prems(3)]
  have "ds_candidate_streak ?d1 < escalation_cap h"
    using Cons.prems(4) cnt by (simp add: word_less_nat_alt)
  with escalate_step [OF Cons.prems(1), of p now] Cons.prems(2)
  have one: "fst (hysteresis_step d p h r now) = ?d1" by (simp add: o1 Let_def)
  have keep: "argues_for s ?d1 x = argues_for s d x" "may_rise h r s ?d1 = may_rise h r s d" for x
    by (simp_all add: argues_for_def may_rise_def)
  have "hysteresis_run h r (o1 # obs) d = hysteresis_run h r obs ?d1"
    by (simp add: hysteresis_run_def o1 one)
  moreover from Cons.IH [of ?d1] Cons.prems cnt keep
  have "let d' = hysteresis_run h r obs ?d1 in
    ds_state d' = ds_state ?d1 \<and> may_rise h r s d' \<and> (\<forall>o1. argues_for s ?d1 o1 \<longrightarrow> argues_for s d' o1) \<and>
    unat (ds_candidate_streak d') = unat (ds_candidate_streak ?d1) + length obs \<and>
    (ds_candidate_streak d' = 0 \<or> ds_candidate d' = state_of s)" by simp
  ultimately show ?case using cnt keep by (simp add: Let_def)
qed

text \<open>C20: escalation is live and exact, where nothing holds it back. The conditions: the domain is at an authoritative level
  below the supported severity, no candidate is pending (its streak is zero), the policy does not apply the dwell to
  escalations, and the domain is not recovering under a recovery hold; and every evaluation has a value, supports exactly that
  severity, and is not before the last change or the last evaluation. Then the domain stays where it is for all
  but the last of the required number of evaluations and commits exactly that severity with the last. (Under the dwell or the recovery
  hold it may wait longer; \<^verbatim>\<open>recovering_hold_blocks_escalation\<close> shows that a hold suppresses it.)\<close>

theorem hysteresis_escalation_live:
  assumes "may_rise h r s d" and "ds_candidate_streak d = 0"
    and "length obs = unat (escalation_cap h)" and "\<forall>o1 \<in> set obs. argues_for s d o1"
  shows "ds_state (hysteresis_run h r obs d) = state_of s \<and>
    (\<forall>n < length obs. ds_state (hysteresis_run h r (take n obs) d) = ds_state d)"
proof
  from assms(3) escalation_cap_pos [of h] have "obs \<noteq> []" by auto
  then obtain pre p now where obs: "obs = pre @ [(p, now)]" by (metis rev_exhaust surj_pair)
  let ?d = "hysteresis_run h r pre d"
  have pend: "ds_state ?d = ds_state d \<and> may_rise h r s ?d \<and> (\<forall>o1. argues_for s d o1 \<longrightarrow> argues_for s ?d o1) \<and>
    unat (ds_candidate_streak ?d) = length pre \<and> (ds_candidate_streak ?d = 0 \<or> ds_candidate ?d = state_of s)"
    using escalate_pending [of h r s d pre] assms by (simp add: obs Let_def)
  have lt: "unat (ds_candidate_streak ?d) < unat kMaxHysteresisSamples"
    using pend assms(3) escalation_cap_le [of h] by (simp add: obs)
  have "unat (ds_candidate_streak (advance_streak (state_of s) ?d)) = unat (escalation_cap h)"
    using advance_streak_count [OF lt] pend assms(3) by (simp add: obs)
  then have "\<not> ds_candidate_streak (advance_streak (state_of s) ?d) < escalation_cap h"
    by (simp add: word_less_nat_alt)
  moreover have "argues_for s ?d (p, now)" using pend assms(4) by (simp add: obs)
  ultimately have "ds_state (fst (hysteresis_step ?d p h r now)) = state_of s"
    using escalate_step [of h r s ?d p now] pend by (simp add: Let_def)
  then show "ds_state (hysteresis_run h r obs d) = state_of s"
    by (simp add: hysteresis_run_def obs)
  show "\<forall>n < length obs. ds_state (hysteresis_run h r (take n obs) d) = ds_state d"
  proof (intro allI impI)
    fix n assume "n < length obs"
    then show "ds_state (hysteresis_run h r (take n obs) d) = ds_state d"
      using escalate_pending [of h r s d "take n obs"] assms by (auto simp: Let_def dest: in_set_takeD)
  qed
qed

theorem hysteresis_escalation_live_witness:
  "ds_state (hysteresis_run (po_hysteresis make_default_policy) (po_recovery make_default_policy)
     [(\<lparr>sp_upward = Sev_Severe, sp_downward = Sev_Severe, sp_has_value = True,
        sp_indeterminate = St_Unknown\<rparr>, 9)] (initial_domain_state\<lparr>ds_state := St_Watch\<rparr>)) = St_Severe"
proof -
  let ?h = "po_hysteresis make_default_policy" and ?r = "po_recovery make_default_policy"
  let ?d = "initial_domain_state\<lparr>ds_state := St_Watch\<rparr>"
  let ?o = "(\<lparr>sp_upward = Sev_Severe, sp_downward = Sev_Severe, sp_has_value = True,
      sp_indeterminate = St_Unknown\<rparr>, 9)"
  have "may_rise ?h ?r Sev_Severe ?d"
    by (simp add: may_rise_def is_authoritative_def severity_of_def make_default_policy_def
        default_policy_body_def)
  moreover have "length [?o] = unat (escalation_cap ?h)"
    by (simp add: escalation_cap_def at_least_one_def make_default_policy_def default_policy_body_def
        kMaxHysteresisSamples_def)
  moreover have "argues_for Sev_Severe ?d ?o"
    by (simp add: argues_for_def initial_domain_state_def kNoTick_def)
  ultimately show ?thesis
    using hysteresis_escalation_live [of ?h ?r Sev_Severe ?d "[?o]"]
    by (simp add: initial_domain_state_def state_of_def)
qed

text \<open>An evaluation that confirms the committed level.\<close>

definition confirms :: "Severity \<Rightarrow> SeverityProposal \<Rightarrow> bool" where
  "confirms c p \<longleftrightarrow> sp_has_value p \<and> sp_upward p \<le> c \<and> c \<le> sp_downward p"

lemma confirm_step:
  assumes "severity_of (ds_state d) = Some c" and "confirms c p"
  shows "ds_state (fst (hysteresis_step d p h r now)) = ds_state d"
    and "ds_requires_revalidation (fst (hysteresis_step d p h r now)) = ds_requires_revalidation d"
proof -
  have "\<not> c < sp_upward p" and "\<not> sp_downward p < c"
    using assms(2) by (auto simp: confirms_def linorder_not_less)
  then have "ladder_target d p h r = None"
    using assms(1) severity_of_iff_authoritative [of "ds_state d"]
    by (simp add: ladder_target_def)
  with assms(2) show "ds_state (fst (hysteresis_step d p h r now)) = ds_state d"
    "ds_requires_revalidation (fst (hysteresis_step d p h r now)) = ds_requires_revalidation d"
    by (simp_all add: hysteresis_step_def ladder_step_def confirms_def)
qed

text \<open>A domain whose state was invalidated and whose fresh evidence keeps confirming the level it is
  at is never authoritative again: confirming evaluations, however many, keep the level but leave
  the revalidation flag set, because only a committed transition clears it.\<close>

theorem revalidation_never_cleared_by_confirmation:
  assumes "severity_of (ds_state d) = Some c" and "ds_requires_revalidation d"
    and "\<forall>o1 \<in> set obs. confirms c (fst o1)"
  shows "ds_state (hysteresis_run h r obs d) = ds_state d \<and> \<not> ds_authoritative (hysteresis_run h r obs d)"
proof -
  have "ds_state (hysteresis_run h r obs d) = ds_state d \<and>
      ds_requires_revalidation (hysteresis_run h r obs d)"
    using assms
  proof (induction obs rule: rev_induct)
    case Nil
    then show ?case by (simp add: hysteresis_run_def)
  next
    case (snoc o1 obs)
    then show ?case
      using confirm_step [of "hysteresis_run h r obs d" c "fst o1" h r "snd o1"]
      by (simp add: hysteresis_run_def case_prod_beta)
  qed
  then show ?thesis by (simp add: ds_authoritative_def)
qed

theorem revalidation_never_cleared_by_confirmation_witness:
  "\<not> ds_authoritative (hysteresis_run (po_hysteresis make_default_policy) (po_recovery make_default_policy)
     (replicate 1000 (\<lparr>sp_upward = Sev_Watch, sp_downward = Sev_Watch, sp_has_value = True,
        sp_indeterminate = St_Unknown\<rparr>, 9))
     (initial_domain_state\<lparr>ds_state := St_Watch, ds_requires_revalidation := True\<rparr>))"
  using revalidation_never_cleared_by_confirmation [of
      "initial_domain_state\<lparr>ds_state := St_Watch, ds_requires_revalidation := True\<rparr>" Sev_Watch
      "replicate 1000 (\<lparr>sp_upward = Sev_Watch, sp_downward = Sev_Watch, sp_has_value = True,
        sp_indeterminate = St_Unknown\<rparr>, 9)"
      "po_hysteresis make_default_policy" "po_recovery make_default_policy"]
  by (simp add: severity_of_def confirms_def)

text \<open>While the recovery hold of a recovering domain is running, no evaluation can raise it again: even
  a reading that supports the highest severity leaves the domain in recovery until the hold is
  over, also under a policy that exempts escalation from the dwell.\<close>

theorem recovering_hold_blocks_escalation:
  assumes "ds_state d = St_Recovering" and "ds_last_change_tick d \<noteq> kNoTick"
    and "elapsed_since now (ds_last_change_tick d) < rp_recovering_hold_ticks r"
    and "sp_has_value p" and "sp_upward p = Sev_Severe"
  shows "ds_state (fst (hysteresis_step d p h r now)) = St_Recovering \<and>
    \<not> hs_transitioned (snd (hysteresis_step d p h r now))"
proof (cases "tick_regression d now")
  case True
  then show ?thesis using assms by (simp add: hysteresis_step_def)
next
  case False
  have "ladder_target d p h r = Some \<lparr>lt_target = St_Severe,
      lt_required = at_least_one (hp_escalate_samples h), lt_escalation = True\<rparr>"
    using assms by (simp add: ladder_target_def is_authoritative_def severity_of_def state_of_def)
  moreover have "recovering_holds (advance_streak St_Severe d) r now"
    using assms by (auto simp: recovering_holds_def word_less_nat_alt)
  ultimately show ?thesis
    using False assms by (auto simp: hysteresis_step_def ladder_step_def Let_def)
qed

theorem recovering_hold_blocks_escalation_witness:
  "ds_state (fst (hysteresis_step
     (initial_domain_state\<lparr>ds_state := St_Recovering, ds_last_change_tick := 10\<rparr>)
     \<lparr>sp_upward = Sev_Severe, sp_downward = Sev_Severe, sp_has_value = True, sp_indeterminate = St_Unknown\<rparr>
     (po_hysteresis make_default_policy)
     ((po_recovery make_default_policy)\<lparr>rp_recovering_hold_ticks := 100\<rparr>) 20)) = St_Recovering"
  using recovering_hold_blocks_escalation [of
      "initial_domain_state\<lparr>ds_state := St_Recovering, ds_last_change_tick := 10\<rparr>" 20
      "(po_recovery make_default_policy)\<lparr>rp_recovering_hold_ticks := 100\<rparr>"
      "\<lparr>sp_upward = Sev_Severe, sp_downward = Sev_Severe, sp_has_value = True, sp_indeterminate = St_Unknown\<rparr>"
      "po_hysteresis make_default_policy"]
  by (simp add: kNoTick_def elapsed_since_def)

end
