(* ===== verification/NCF_Propagation.thy ===== *)
theory NCF_Propagation
  imports NCF_Topology
begin

text \<open>
  Bounded propagation reasoning, \<^verbatim>\<open>include/ncf/eval/propagation.hpp\<close> and
  \<^verbatim>\<open>src/eval/propagation.cpp\<close>: from every congested source a breadth-first walk over links and
  paths, at most \<^verbatim>\<open>max_depth\<close> levels deep, marks neighbours with decaying pressure; the best mark of
  each resource becomes an induced severity and an explainable edge.

  \<^verbatim>\<open>std::set\<close> of visited resources is a list used as a set; \<^verbatim>\<open>std::map\<close> of best targets is an
  ordered map.
\<close>

section \<open>Pressure\<close>

definition severity_pressure_ppm :: "Severity \<Rightarrow> u32" where
  "severity_pressure_ppm s =
     (if s = Sev_Clear then 0
      else if s = Sev_Watch then 333333
      else if s = Sev_Congested then 666666
      else if s = Sev_Severe then 1000000
      else 0)"

definition pressure_to_severity :: "u32 \<Rightarrow> Severity" where
  "pressure_to_severity p =
     (if p \<ge> 1000000 then Sev_Severe
      else if p \<ge> 666666 then Sev_Congested
      else if p \<ge> 333333 then Sev_Watch
      else Sev_Clear)"

record PropagationEdge =
  pe_from :: ResourceId
  pe_to :: ResourceId
  pe_via_path :: PathId
  pe_hops :: u32
  pe_pressure_ppm :: u32
  pe_induced :: Severity
  pe_applied :: bool

record PropagationResult =
  px_induced :: "(ResourceId \<times> Severity) list"
  px_edges :: "PropagationEdge list"
  px_truncated :: bool

record PropSource =
  so_resource :: ResourceId
  so_severity :: Severity

record PropTarget =
  tg_pressure_ppm :: u32
  tg_hops :: u32
  tg_from :: ResourceId
  tg_via_path :: PathId

section \<open>Neighbours\<close>

definition path_next_hop :: "PathRecord \<Rightarrow> ResourceId \<Rightarrow> ResourceId option" where
  "path_next_hop rec node =
     (case dropWhile (\<lambda>h. h \<noteq> node) (pa_hops rec) of
        [] \<Rightarrow> None
      | _ # [] \<Rightarrow> None
      | _ # nxt # _ \<Rightarrow> Some nxt)"

definition link_neighbours :: "TopologyIndex \<Rightarrow> ResourceId \<Rightarrow> (ResourceId \<times> PathId) list" where
  "link_neighbours topology node = map (\<lambda>s. (s, 0)) (ti_successors topology node)"

definition path_neighbours :: "TopologyIndex \<Rightarrow> ResourceId \<Rightarrow> (ResourceId \<times> PathId) list" where
  "path_neighbours topology node =
     concat (map (\<lambda>path_id.
       case ti_path topology path_id of
         None \<Rightarrow> []
       | Some rec \<Rightarrow> (case path_next_hop rec node of None \<Rightarrow> [] | Some nxt \<Rightarrow> [(nxt, path_id)]))
       (ti_paths_of topology node))"

definition neighbours :: "TopologyIndex \<Rightarrow> ResourceId \<Rightarrow> PropagationPolicy \<Rightarrow> (ResourceId \<times> PathId) list" where
  "neighbours topology node policy =
     sort_unique
       ((if pp_follow_links policy then link_neighbours topology node else []) @
        (if pp_follow_paths policy then path_neighbours topology node else []))"

section \<open>The walk\<close>

record WalkState =
  ws_visited :: "ResourceId list"
  ws_best :: "(ResourceId, PropTarget) omap"
  ws_next :: "(ResourceId \<times> u32) list"

definition replaces :: "u32 \<Rightarrow> ResourceId \<Rightarrow> PathId \<Rightarrow> PropTarget option \<Rightarrow> bool" where
  "replaces pressure from via found =
     (case found of
        None \<Rightarrow> True
      | Some t \<Rightarrow> pressure > tg_pressure_ppm t \<or>
          (pressure = tg_pressure_ppm t \<and> (from, via) < (tg_from t, tg_via_path t)))"

definition decay :: "PropagationPolicy \<Rightarrow> u32 \<Rightarrow> u32" where
  "decay policy pressure =
     ucast ((ucast pressure * ucast (pp_decay_ppm policy)) div (1000000 :: u64))"

definition visit_neighbour ::
  "PropagationPolicy \<Rightarrow> u32 \<Rightarrow> ResourceId \<times> u32 \<Rightarrow> ResourceId \<times> PathId \<Rightarrow> WalkState \<Rightarrow> WalkState" where
  "visit_neighbour policy depth node nb w =
     (if fst nb \<in> set (ws_visited w) then w
      else
        let w1 = w\<lparr>ws_visited := fst nb # ws_visited w\<rparr>;
            pressure = decay policy (snd node)
        in if pressure < pp_min_pressure_ppm policy then w1
           else if pressure_to_severity pressure = Sev_Clear then w1
           else
             let w2 = (if replaces pressure (fst node) (snd nb) (map_of (ws_best w1) (fst nb))
                       then w1\<lparr>ws_best := om_put (fst nb)
                              \<lparr>tg_pressure_ppm = pressure, tg_hops = depth, tg_from = fst node,
                               tg_via_path = snd nb\<rparr> (ws_best w1)\<rparr>
                       else w1)
             in w2\<lparr>ws_next := ws_next w2 @ [(fst nb, pressure)]\<rparr>)"

definition visit_node ::
  "TopologyIndex \<Rightarrow> PropagationPolicy \<Rightarrow> u32 \<Rightarrow> ResourceId \<times> u32 \<Rightarrow> WalkState \<Rightarrow> WalkState" where
  "visit_node topology policy depth node w =
     fold (visit_neighbour policy depth node) (neighbours topology (fst node) policy) w"

text \<open>
  The loop over depths: \<open>levels\<close> counts the iterations that remain, so \<open>levels = max_depth\<close> at the
  start and the depth of the current level is the 32-bit loop variable.
\<close>

fun walk_levels ::
  "TopologyIndex \<Rightarrow> PropagationPolicy \<Rightarrow> nat \<Rightarrow> u32 \<Rightarrow> (ResourceId \<times> u32) list \<Rightarrow> ResourceId list \<Rightarrow>
     (ResourceId, PropTarget) omap \<Rightarrow> (ResourceId, PropTarget) omap" where
  "walk_levels topology policy 0 depth frontier visited best = best"
| "walk_levels topology policy (Suc levels) depth frontier visited best =
     (if frontier = [] then best
      else
        let w = fold (visit_node topology policy depth) frontier
                  \<lparr>ws_visited = visited, ws_best = best, ws_next = []\<rparr>
        in walk_levels topology policy levels (depth + 1) (ws_next w) (ws_visited w) (ws_best w))"

definition walk_source ::
  "TopologyIndex \<Rightarrow> PropagationPolicy \<Rightarrow> PropSource \<Rightarrow> (ResourceId, PropTarget) omap \<Rightarrow>
     (ResourceId, PropTarget) omap" where
  "walk_source topology policy source best =
     (if so_severity source = Sev_Clear \<or> \<not> ti_contains topology (so_resource source) then best
      else walk_levels topology policy (unat (pp_max_depth policy)) 1
             [(so_resource source, severity_pressure_ppm (so_severity source))]
             [so_resource source] best)"

text \<open>
  Sources are sorted by resource and deduplicated; the evaluator passes each resource once, so the
  instability of \<^verbatim>\<open>std::sort\<close> on equal keys is not observable.
\<close>

fun unique_sources :: "PropSource list \<Rightarrow> PropSource list" where
  "unique_sources (a # b # xs) =
     (if so_resource a = so_resource b then unique_sources (a # xs) else a # unique_sources (b # xs))"
| "unique_sources xs = xs"

definition emit_target ::
  "PropagationPolicy \<Rightarrow> nat \<Rightarrow> ResourceId \<times> PropTarget \<Rightarrow> PropagationResult \<Rightarrow> PropagationResult" where
  "emit_target policy max_edges entry out =
     (let raw = pressure_to_severity (tg_pressure_ppm (snd entry));
          induced = (if sev_u8 raw > sev_u8 (pp_max_induced_severity policy)
                     then pp_max_induced_severity policy else raw)
      in if induced = Sev_Clear then out
         else
           let out1 = out\<lparr>px_induced := px_induced out @ [(fst entry, induced)]\<rparr> in
           if length (px_edges out1) \<ge> max_edges then out1\<lparr>px_truncated := True\<rparr>
           else out1\<lparr>px_edges := px_edges out1 @
                  [\<lparr>pe_from = tg_from (snd entry), pe_to = fst entry,
                    pe_via_path = tg_via_path (snd entry), pe_hops = tg_hops (snd entry),
                    pe_pressure_ppm = tg_pressure_ppm (snd entry), pe_induced = induced,
                    pe_applied = False\<rparr>]\<rparr>)"

definition propagate ::
  "TopologyIndex \<Rightarrow> PropSource list \<Rightarrow> PropagationPolicy \<Rightarrow> nat \<Rightarrow> PropagationResult result" where
  "propagate topology sources policy max_edges =
     (let out = \<lparr>px_induced = [], px_edges = [], px_truncated = False\<rparr> in
      if \<not> pp_enabled policy \<or> pp_max_depth policy = 0 \<or> sources = [] then Inr out
      else if max_edges = 0 \<or> max_edges > kMaxPropagationEdges then Inl Err_LimitExceeded
      else
        let ordered = unique_sources (sort_key so_resource sources);
            best = fold (walk_source topology policy) ordered []
        in Inr (fold (emit_target policy max_edges) best out))"

section \<open>Bounds and faithfulness of the walk\<close>

text \<open>
  Pressure after a number of hops is at most the pressure of some source, reduced to the configured parts per million at
  every hop.
\<close>

definition decayed :: "PropSource list \<Rightarrow> PropagationPolicy \<Rightarrow> nat \<Rightarrow> u32 \<Rightarrow> bool" where
  "decayed sources policy hops pressure \<longleftrightarrow>
     (\<exists>x \<in> set sources. so_severity x \<noteq> Sev_Clear \<and>
        unat pressure * 1000000 ^ hops \<le> unat (severity_pressure_ppm (so_severity x)) * unat (pp_decay_ppm policy) ^ hops)"

lemma decay_le: "unat (decay policy p) * 1000000 \<le> unat p * unat (pp_decay_ppm policy)"
proof -
  have "unat p < 2 ^ 32" "unat (pp_decay_ppm policy) < 2 ^ 32"
    using unsigned_less [of p, where 'a = nat] unsigned_less [of "pp_decay_ppm policy", where 'a = nat] by simp_all
  then have "unat p * unat (pp_decay_ppm policy) < 2 ^ 32 * 2 ^ 32" by (intro mult_strict_mono) auto
  then have "unat ((ucast p :: u64) * ucast (pp_decay_ppm policy)) = unat p * unat (pp_decay_ppm policy)"
    by (simp add: unat_word_ariths)
  then have "unat (decay policy p) = (unat p * unat (pp_decay_ppm policy) div 1000000) mod 2 ^ 32"
    by (simp add: decay_def unat_div unsigned_ucast_eq take_bit_eq_mod unsigned_take_bit_eq)
  also have "\<dots> \<le> unat p * unat (pp_decay_ppm policy) div 1000000" by simp
  finally have "unat (decay policy p) * 1000000 \<le> (unat p * unat (pp_decay_ppm policy) div 1000000) * 1000000" by simp
  also have "\<dots> \<le> unat p * unat (pp_decay_ppm policy)" by simp
  finally show ?thesis .
qed

lemma decayed_Suc: "decayed sources policy h p \<Longrightarrow> decayed sources policy (Suc h) (decay policy p)"
proof -
  assume "decayed sources policy h p"
  then obtain x where x: "x \<in> set sources" "so_severity x \<noteq> Sev_Clear"
    "unat p * 1000000 ^ h \<le> unat (severity_pressure_ppm (so_severity x)) * unat (pp_decay_ppm policy) ^ h"
    by (auto simp: decayed_def)
  have "unat (decay policy p) * 1000000 ^ Suc h = (unat (decay policy p) * 1000000) * 1000000 ^ h" by simp
  also have "\<dots> \<le> (unat p * unat (pp_decay_ppm policy)) * 1000000 ^ h" using decay_le by (intro mult_right_mono) auto
  also have "\<dots> = (unat p * 1000000 ^ h) * unat (pp_decay_ppm policy)" by simp
  also have "\<dots> \<le> (unat (severity_pressure_ppm (so_severity x)) * unat (pp_decay_ppm policy) ^ h) * unat (pp_decay_ppm policy)"
    using x(3) by (intro mult_right_mono) auto
  also have "\<dots> = unat (severity_pressure_ppm (so_severity x)) * unat (pp_decay_ppm policy) ^ Suc h" by simp
  finally show ?thesis using x(1,2) by (auto simp: decayed_def)
qed

text \<open>
  Every best target is a real neighbour of the resource it came from, lies within the depth bound,
  carries decayed pressure, and enough of it to be marked at all.
\<close>

definition target_ok :: "TopologyIndex \<Rightarrow> PropagationPolicy \<Rightarrow> PropSource list \<Rightarrow> ResourceId \<times> PropTarget \<Rightarrow> bool" where
  "target_ok topology policy sources e \<longleftrightarrow>
     (fst e, tg_via_path (snd e)) \<in> set (neighbours topology (tg_from (snd e)) policy) \<and>
     1 \<le> unat (tg_hops (snd e)) \<and> unat (tg_hops (snd e)) \<le> unat (pp_max_depth policy) \<and>
     decayed sources policy (unat (tg_hops (snd e))) (tg_pressure_ppm (snd e)) \<and>
     pp_min_pressure_ppm policy \<le> tg_pressure_ppm (snd e) \<and>
     pressure_to_severity (tg_pressure_ppm (snd e)) \<noteq> Sev_Clear"

definition best_ok :: "TopologyIndex \<Rightarrow> PropagationPolicy \<Rightarrow> PropSource list \<Rightarrow> (ResourceId, PropTarget) omap \<Rightarrow> bool" where
  "best_ok topology policy sources best \<longleftrightarrow> om_inv best \<and> (\<forall>e \<in> set best. target_ok topology policy sources e)"

lemma om_put_set: "set (om_put k v m) \<subseteq> insert (k, v) (set m)"
  by (induction m) auto

lemma best_ok_put:
  "best_ok topology policy sources best \<Longrightarrow> target_ok topology policy sources (k, v) \<Longrightarrow>
   best_ok topology policy sources (om_put k v best)"
  using om_put_set [of k v best] by (auto simp: best_ok_def om_inv_put)

text \<open>The targets of the walk so far, and the next frontier, one hop further than the node they were reached from.\<close>

definition walk_ok :: "TopologyIndex \<Rightarrow> PropagationPolicy \<Rightarrow> PropSource list \<Rightarrow> u32 \<Rightarrow> WalkState \<Rightarrow> bool" where
  "walk_ok topology policy sources depth w \<longleftrightarrow>
     best_ok topology policy sources (ws_best w) \<and> (\<forall>(n, p) \<in> set (ws_next w). decayed sources policy (unat depth) p)"

lemma visit_neighbour_ok:
  assumes "walk_ok topology policy sources depth w" and "nb \<in> set (neighbours topology (fst node) policy)"
    and "1 \<le> unat depth" and "unat depth \<le> unat (pp_max_depth policy)"
    and "decayed sources policy (unat depth - 1) (snd node)"
  shows "walk_ok topology policy sources depth (visit_neighbour policy depth node nb w)"
proof -
  have d: "decayed sources policy (unat depth) (decay policy (snd node))"
    using decayed_Suc [OF assms(5)] assms(3) by simp
  have "target_ok topology policy sources (fst nb, \<lparr>tg_pressure_ppm = decay policy (snd node), tg_hops = depth,
      tg_from = fst node, tg_via_path = snd nb\<rparr>)"
    if "\<not> decay policy (snd node) < pp_min_pressure_ppm policy"
      "pressure_to_severity (decay policy (snd node)) \<noteq> Sev_Clear"
    using assms that d by (simp add: target_ok_def)
  with assms(1) d show ?thesis
    by (simp add: visit_neighbour_def Let_def best_ok_put walk_ok_def)
qed

lemma fold_invariant_set:
  "(\<And>x s. x \<in> set xs \<Longrightarrow> P s \<Longrightarrow> P (f x s)) \<Longrightarrow> P s \<Longrightarrow> P (fold f xs s)"
  by (induction xs arbitrary: s) auto

lemma visit_node_ok:
  assumes "walk_ok topology policy sources depth w"
    and "1 \<le> unat depth" and "unat depth \<le> unat (pp_max_depth policy)"
    and "decayed sources policy (unat depth - 1) (snd node)"
  shows "walk_ok topology policy sources depth (visit_node topology policy depth node w)"
  unfolding visit_node_def
  by (rule fold_invariant_set [where P = "walk_ok topology policy sources depth"])
    (use assms visit_neighbour_ok in auto)

lemma walk_levels_ok:
  assumes "best_ok topology policy sources best" and "1 \<le> unat depth"
    and "unat depth + levels \<le> unat (pp_max_depth policy) + 1"
    and "\<forall>(n, p) \<in> set frontier. decayed sources policy (unat depth - 1) p"
  shows "best_ok topology policy sources (walk_levels topology policy levels depth frontier visited best)"
  using assms
proof (induction levels arbitrary: depth frontier visited best)
  case 0
  then show ?case by simp
next
  case (Suc levels)
  let ?w = "fold (visit_node topology policy depth) frontier
      \<lparr>ws_visited = visited, ws_best = best, ws_next = []\<rparr>"
  have w: "walk_ok topology policy sources depth ?w"
  proof (rule fold_invariant_set [where P = "walk_ok topology policy sources depth"])
    fix node w assume "node \<in> set frontier" "walk_ok topology policy sources depth w"
    with Suc.prems show "walk_ok topology policy sources depth (visit_node topology policy depth node w)"
      by (intro visit_node_ok) auto
  qed (use Suc.prems(1) in \<open>simp add: walk_ok_def\<close>)
  show ?case
  proof (cases "levels = 0 \<or> frontier = []")
    case True
    with w Suc.prems(1) show ?thesis by (auto simp: Let_def walk_ok_def)
  next
    case False
    have "unat (pp_max_depth policy) < 2 ^ 32"
      using unsigned_less [of "pp_max_depth policy", where 'a = nat] by simp
    with False Suc.prems(3) have "unat depth + 1 < 2 ^ 32" by simp
    then have next_depth: "unat (depth + 1) = unat depth + 1" by (simp add: unat_word_ariths)
    have "best_ok topology policy sources
        (walk_levels topology policy levels (depth + 1) (ws_next ?w) (ws_visited ?w) (ws_best ?w))"
      by (rule Suc.IH) (use w Suc.prems next_depth in \<open>auto simp: walk_ok_def\<close>)
    with False show ?thesis by (simp add: Let_def)
  qed
qed

lemma walk_source_ok:
  assumes "best_ok topology policy sources best" and "source \<in> set sources"
  shows "best_ok topology policy sources (walk_source topology policy source best)"
proof (cases "so_severity source = Sev_Clear \<or> \<not> ti_contains topology (so_resource source)")
  case False
  then have "decayed sources policy 0 (severity_pressure_ppm (so_severity source))"
    using assms(2) by (auto simp: decayed_def)
  with False assms(1) show ?thesis by (simp add: walk_source_def walk_levels_ok)
qed (use assms(1) in \<open>simp add: walk_source_def\<close>)

lemma unique_sources_subset: "set (unique_sources xs) \<subseteq> set xs"
  by (induction xs rule: unique_sources.induct) auto

text \<open>What the result promises, edge by edge and mark by mark.\<close>

definition edge_ok :: "TopologyIndex \<Rightarrow> PropagationPolicy \<Rightarrow> PropSource list \<Rightarrow> PropagationEdge \<Rightarrow> bool" where
  "edge_ok topology policy sources e \<longleftrightarrow>
     (pe_to e, pe_via_path e) \<in> set (neighbours topology (pe_from e) policy) \<and>
     1 \<le> unat (pe_hops e) \<and> unat (pe_hops e) \<le> unat (pp_max_depth policy) \<and>
     decayed sources policy (unat (pe_hops e)) (pe_pressure_ppm e) \<and>
     pp_min_pressure_ppm policy \<le> pe_pressure_ppm e \<and>
     pe_induced e \<noteq> Sev_Clear \<and> pe_induced e \<le> pressure_to_severity (pe_pressure_ppm e) \<and>
     pe_induced e \<le> pp_max_induced_severity policy"

definition mark_ok :: "PropagationPolicy \<Rightarrow> PropSource list \<Rightarrow> ResourceId \<times> Severity \<Rightarrow> bool" where
  "mark_ok policy sources m \<longleftrightarrow>
     snd m \<noteq> Sev_Clear \<and> snd m \<le> pp_max_induced_severity policy \<and>
     (\<exists>hops pressure. 1 \<le> hops \<and> hops \<le> unat (pp_max_depth policy) \<and> decayed sources policy hops pressure \<and>
        snd m \<le> pressure_to_severity pressure)"

definition result_ok :: "TopologyIndex \<Rightarrow> PropagationPolicy \<Rightarrow> PropSource list \<Rightarrow> nat \<Rightarrow> PropagationResult \<Rightarrow> bool" where
  "result_ok topology policy sources max_edges out \<longleftrightarrow>
     (\<forall>e \<in> set (px_edges out). edge_ok topology policy sources e) \<and> length (px_edges out) \<le> max_edges \<and>
     (\<forall>m \<in> set (px_induced out). mark_ok policy sources m)"

lemma emit_target_ok:
  assumes "result_ok topology policy sources max_edges out" and "target_ok topology policy sources e"
  shows "result_ok topology policy sources max_edges (emit_target policy max_edges e out)"
proof -
  let ?raw = "pressure_to_severity (tg_pressure_ppm (snd e))"
  define induced where "induced = (if sev_u8 ?raw > sev_u8 (pp_max_induced_severity policy)
    then pp_max_induced_severity policy else ?raw)"
  have le: "induced \<le> ?raw" "induced \<le> pp_max_induced_severity policy"
    by (auto simp: induced_def less_eq_Severity_def)
  have "mark_ok policy sources (fst e, induced)" if "induced \<noteq> Sev_Clear"
    using assms(2) le that unfolding mark_ok_def target_ok_def by auto
  with assms le show ?thesis
    by (auto simp: emit_target_def Let_def result_ok_def edge_ok_def target_ok_def induced_def [symmetric])
qed

lemma emit_induced_keys:
  "\<exists>ks. map fst (px_induced (fold (emit_target policy m) best out)) = map fst (px_induced out) @ ks \<and>
     set ks \<subseteq> fst ` set best \<and> (sorted_wrt (<) (map fst best) \<longrightarrow> sorted_wrt (<) ks)"
proof (induction best arbitrary: out)
  case Nil
  then show ?case by simp
next
  case (Cons e best)
  let ?out = "emit_target policy m e out"
  have one: "map fst (px_induced ?out) = map fst (px_induced out) \<or>
      map fst (px_induced ?out) = map fst (px_induced out) @ [fst e]"
    by (auto simp: emit_target_def Let_def)
  from Cons.IH [of ?out] obtain ks where ks: "map fst (px_induced (fold (emit_target policy m) best ?out)) =
      map fst (px_induced ?out) @ ks" "set ks \<subseteq> fst ` set best"
      "sorted_wrt (<) (map fst best) \<longrightarrow> sorted_wrt (<) ks" by blast
  from one show ?case
  proof
    assume "map fst (px_induced ?out) = map fst (px_induced out)"
    with ks show ?thesis by (intro exI [of _ ks]) auto
  next
    assume "map fst (px_induced ?out) = map fst (px_induced out) @ [fst e]"
    with ks show ?thesis by (intro exI [of _ "fst e # ks"]) auto
  qed
qed

text \<open>A walk on the two-resource fabric, evaluated.\<close>

definition two_node_index :: TopologyIndex where
  "two_node_index =
     \<lparr>ti_snapshot = two_node_topology, ti_resource_slot = [5 \<mapsto> 0, 3 \<mapsto> 1], ti_path_slot = [9 \<mapsto> 0],
      ti_domain_slot = [7 \<mapsto> 0], ti_out_edges = [[3], []], ti_in_edges = [[], [5]],
      ti_domain_resources = [[3, 5]], ti_resource_paths = [[9], [9]], ti_domains = [7]\<rparr>"

lemma two_node_neighbours:
  "neighbours two_node_index 5 (po_propagation default_policy_body) = [(3, 0), (3, 9)]"
  by (simp add: neighbours_def link_neighbours_def path_neighbours_def ti_successors_def ti_paths_of_def
     ti_path_def path_next_hop_def two_node_index_def two_node_topology_def sort_unique_def default_policy_body_def)
lemma two_node_decay:
  "decay (po_propagation default_policy_body) 1000000 = 500000"
  by (simp add: decay_def default_policy_body_def)
lemma default_propagation_fields:
  "pp_enabled (po_propagation default_policy_body)"
  "pp_max_depth (po_propagation default_policy_body) = 1"
  "pp_max_induced_severity (po_propagation default_policy_body) = Sev_Watch"
  "pp_min_pressure_ppm (po_propagation default_policy_body) = 1"
  by (simp_all add: default_policy_body_def)

lemma two_node_walk:
  "walk_source two_node_index (po_propagation default_policy_body)
     \<lparr>so_resource = 5, so_severity = Sev_Severe\<rparr> [] =
   [(3, \<lparr>tg_pressure_ppm = 500000, tg_hops = 1, tg_from = 5, tg_via_path = 0\<rparr>)]"
proof -
  have "ti_contains two_node_index 5"
    by (simp add: ti_contains_def ti_resource_def two_node_index_def)
  then show ?thesis
    by (simp add: walk_source_def default_propagation_fields severity_pressure_ppm_def visit_node_def
        two_node_neighbours two_node_decay visit_neighbour_def Let_def pressure_to_severity_def replaces_def)
qed

lemma two_node_propagate:
  "propagate two_node_index [\<lparr>so_resource = 5, so_severity = Sev_Severe\<rparr>]
   (po_propagation default_policy_body) 64 =
   Inr \<lparr>px_induced = [(3, Sev_Watch)], px_edges = [\<lparr>pe_from = 5, pe_to = 3, pe_via_path = 0, pe_hops = 1,
     pe_pressure_ppm = 500000, pe_induced = Sev_Watch, pe_applied = False\<rparr>], px_truncated = False\<rparr>"
  by (simp add: propagate_def default_propagation_fields kMaxPropagationEdges_def two_node_walk
      emit_target_def pressure_to_severity_def Let_def)

text \<open>C27: propagation is bounded, never re-raises pressure and stays inside the topology and the policy. Every reported edge
  leads from a resource to one of its link or path neighbours, within the configured hop count and above the pressure
  floor; its pressure is at most that of some source, reduced by the configured parts per million at each of its
  hops; the severity it induces is no more than that pressure amounts to, is not clear and does not exceed the severity the
  policy authorises, and so it is for every mark. Marks are reported once per resource in ascending order, and the number
  of edges never exceeds the bound. It fails only when the edge bound itself is out of range.\<close>

theorem propagate_bounded:
  "case propagate topology sources policy max_edges of
     Inl e \<Rightarrow> e = Err_LimitExceeded \<and> (max_edges = 0 \<or> max_edges > kMaxPropagationEdges)
   | Inr out \<Rightarrow>
       (\<forall>e \<in> set (px_edges out).
          (pe_to e, pe_via_path e) \<in> set (neighbours topology (pe_from e) policy) \<and>
          1 \<le> unat (pe_hops e) \<and> unat (pe_hops e) \<le> unat (pp_max_depth policy) \<and>
          (\<exists>x \<in> set sources. so_severity x \<noteq> Sev_Clear \<and>
             unat (pe_pressure_ppm e) * 1000000 ^ unat (pe_hops e) \<le>
               unat (severity_pressure_ppm (so_severity x)) * unat (pp_decay_ppm policy) ^ unat (pe_hops e)) \<and>
          pp_min_pressure_ppm policy \<le> pe_pressure_ppm e \<and>
          pe_induced e \<noteq> Sev_Clear \<and> pe_induced e \<le> pressure_to_severity (pe_pressure_ppm e) \<and>
          pe_induced e \<le> pp_max_induced_severity policy) \<and>
       (\<forall>(r, s) \<in> set (px_induced out). s \<noteq> Sev_Clear \<and> s \<le> pp_max_induced_severity policy \<and>
          (\<exists>hops pressure. 1 \<le> hops \<and> hops \<le> unat (pp_max_depth policy) \<and> s \<le> pressure_to_severity pressure \<and>
             (\<exists>x \<in> set sources. so_severity x \<noteq> Sev_Clear \<and>
                unat pressure * 1000000 ^ hops \<le>
                  unat (severity_pressure_ppm (so_severity x)) * unat (pp_decay_ppm policy) ^ hops))) \<and>
       sorted_wrt (<) (map fst (px_induced out)) \<and> length (px_edges out) \<le> max_edges"
proof -
  let ?out = "\<lparr>px_induced = [], px_edges = [], px_truncated = False\<rparr>"
  let ?b = "fold (walk_source topology policy) (unique_sources (sort_key so_resource sources)) []"
  have best: "best_ok topology policy sources ?b"
  proof (rule fold_invariant_set)
    fix x b assume "x \<in> set (unique_sources (sort_key so_resource sources))" "best_ok topology policy sources b"
    with unique_sources_subset [of "sort_key so_resource sources"]
    show "best_ok topology policy sources (walk_source topology policy x b)" by (intro walk_source_ok) auto
  qed (simp add: best_ok_def)
  have res: "result_ok topology policy sources max_edges (fold (emit_target policy max_edges) ?b ?out)"
  proof (rule fold_invariant_set [where P = "result_ok topology policy sources max_edges"])
    show "result_ok topology policy sources max_edges ?out" by (simp add: result_ok_def)
    show "result_ok topology policy sources max_edges (emit_target policy max_edges e s)"
      if "e \<in> set ?b" and "result_ok topology policy sources max_edges s" for e s
      using that best by (intro emit_target_ok) (simp_all add: best_ok_def)
  qed
  have sorted: "sorted_wrt (<) (map fst (px_induced (fold (emit_target policy max_edges) ?b ?out)))"
    using emit_induced_keys [of policy max_edges ?b ?out] best by (auto simp: best_ok_def om_inv_def)
  let ?off = "\<not> pp_enabled policy \<or> pp_max_depth policy = 0 \<or> sources = []"
  let ?bad = "max_edges = 0 \<or> max_edges > kMaxPropagationEdges"
  consider "?off" | "\<not> ?off" "?bad" | "\<not> ?off" "\<not> ?bad" by blast
  then show ?thesis
  proof cases
    case 3
    then have "propagate topology sources policy max_edges = Inr (fold (emit_target policy max_edges) ?b ?out)"
      unfolding propagate_def Let_def by (simp only: if_False)
    then show ?thesis
      using res sorted unfolding result_ok_def edge_ok_def mark_ok_def decayed_def by fastforce
  qed (simp_all add: propagate_def)
qed

theorem propagate_bounded_witness:
  "case propagate two_node_index [\<lparr>so_resource = 5, so_severity = Sev_Severe\<rparr>]
     (po_propagation default_policy_body) 64 of
     Inl e \<Rightarrow> False
   | Inr out \<Rightarrow> length (px_edges out) = 1 \<and>
      (pe_to (hd (px_edges out)), pe_via_path (hd (px_edges out))) \<in>
        set (neighbours two_node_index (pe_from (hd (px_edges out))) (po_propagation default_policy_body))"
  using propagate_bounded [where topology = two_node_index and sources = "[\<lparr>so_resource = 5, so_severity = Sev_Severe\<rparr>]"
    and policy = "po_propagation default_policy_body" and max_edges = 64] by (simp add: two_node_propagate)

end
