(* ===== verification/NCF_Evaluator.thy ===== *)
theory NCF_Evaluator
  imports NCF_Hysteresis NCF_Propagation
begin

text \<open>
  The congestion evaluator, \<^verbatim>\<open>include/ncf/model/{state,evaluation}.hpp\<close>,
  \<^verbatim>\<open>include/ncf/eval/evaluator.hpp\<close> and \<^verbatim>\<open>CongestionEvaluator::evaluate\<close> in
  \<^verbatim>\<open>src/eval/evaluator.cpp\<close>. One evaluation is a pipeline: fix the resource scope, admit fresh
  samples, detect contradictory publishers, classify every resource against the rules, propagate,
  aggregate to a severity proposal, and fold the proposal into the domain state. Each stage is one
  group of definitions below.

  A \<^verbatim>\<open>const T*\<close> that may be null is an option; \<^verbatim>\<open>std::size_t\<close> counters are natural numbers.
\<close>

section \<open>Reports and outcomes\<close>

record ConflictReport =
  cr_resource :: ResourceId
  cr_queue :: QueueId
  cr_metric :: MetricKind
  cr_low_value :: u64
  cr_high_value :: u64
  cr_spread :: u64
  cr_low_publisher :: PublisherId
  cr_high_publisher :: PublisherId
  cr_low_observed_tick :: Tick
  cr_high_observed_tick :: Tick
  cr_resolved :: bool
  cr_selected_publisher :: PublisherId

record StaleReport =
  sr_resource :: ResourceId
  sr_queue :: QueueId
  sr_metric :: MetricKind
  sr_publisher :: PublisherId
  sr_observed_tick :: Tick
  sr_age_ticks :: Tick
  sr_allowed_age_ticks :: Tick
  sr_from_future :: bool
  sr_beyond_future_skew :: bool

record ThresholdBinding =
  tb_resource :: ResourceId
  tb_queue :: QueueId
  tb_metric :: MetricKind
  tb_op :: ThresholdOp
  tb_value :: u64
  tb_watch :: u64
  tb_congested :: u64
  tb_severe :: u64
  tb_level :: Severity
  tb_required :: bool
  tb_stale :: bool
  tb_future :: bool
  tb_degraded_source :: bool
  tb_publisher :: PublisherId
  tb_observed_tick :: Tick

record ResourceAssessment =
  ra_resource :: ResourceId
  ra_raw_severity :: Severity
  ra_coverage :: ResourceCoverage
  ra_stale :: bool
  ra_contradictory :: bool
  ra_degraded_source :: bool
  ra_samples_considered :: nat
  ra_stale_samples :: nat
  ra_future_samples :: nat
  ra_conflict_samples :: nat
  ra_newest_snapshot :: EvidenceSnapshotId
  ra_newest_observed_tick :: Tick

definition new_assessment :: "ResourceId \<Rightarrow> ResourceAssessment" where
  "new_assessment r =
     \<lparr>ra_resource = r, ra_raw_severity = Sev_Clear, ra_coverage = Cov_None, ra_stale = False,
      ra_contradictory = False, ra_degraded_source = False, ra_samples_considered = 0,
      ra_stale_samples = 0, ra_future_samples = 0, ra_conflict_samples = 0,
      ra_newest_snapshot = 0, ra_newest_observed_tick = kNoTick\<rparr>"

record EvidenceVector =
  ev_batch :: EvidenceBatchId
  ev_epoch :: EpochId
  ev_samples_seen :: nat
  ev_samples_accepted :: nat
  ev_samples_rejected :: nat
  ev_samples_duplicate :: nat
  ev_stale_samples :: nat
  ev_future_samples :: nat
  ev_unknown_metric_samples :: nat
  ev_heartbeats :: nat
  ev_newest_observed_tick :: Tick
  ev_oldest_accepted_tick :: Tick
  ev_resources :: "ResourceAssessment list"
  ev_bindings :: "ThresholdBinding list"
  ev_conflicts :: "ConflictReport list"
  ev_stale :: "StaleReport list"
  ev_propagation :: "PropagationEdge list"
  ev_truncated_sections :: nat

text \<open>The sentences of \<^verbatim>\<open>reason_detail\<close>, with the text the sources build.\<close>

datatype EvalNote =
    Note_PublishersDisagreed
  | Note_NoUsableEvidence
  | Note_GateReduced Severity Severity
  | Note_IncompleteCoverage

fun note_text :: "EvalNote \<Rightarrow> string" where
  "note_text Note_PublishersDisagreed = ''publishers disagreed beyond the configured tolerance''"
| "note_text Note_NoUsableEvidence = ''no usable evidence for any resource in the domain''"
| "note_text (Note_GateReduced a b) =
     ''corroboration gate reduced severity from '' @ severity_name a @ '' to '' @ severity_name b"
| "note_text Note_IncompleteCoverage = ''at least one resource has incomplete required coverage''"

record EvaluationOutcome =
  eo_id :: EvaluationId
  eo_domain :: DomainId
  eo_state :: CongestionState
  eo_previous_state :: CongestionState
  eo_severity :: Severity
  eo_transitioned :: bool
  eo_authoritative :: bool
  eo_requires_revalidation :: bool
  eo_evidence :: EvidenceVector
  eo_updated :: DomainState
  eo_authority :: AuthorityVector
  eo_policy :: PolicyId
  eo_policy_fingerprint :: Hash64
  eo_topology_generation :: TopologyGeneration
  eo_capacity_generation :: CapacityGeneration
  eo_evaluated_tick :: Tick
  eo_reason_code :: string
  eo_reason_detail :: "EvalNote list"

record EvaluationRequest =
  rq_domain :: DomainId
  rq_evidence :: EvidenceBatch
  rq_epoch :: EpochId
  rq_authority :: AuthorityVector
  rq_now :: Tick
  rq_only_resource :: ResourceId

record EvaluationContext =
  cx_policy :: "CongestionPolicy option"
  cx_topology :: "TopologyIndex option"
  cx_capacity :: "CapacitySnapshot option"
  cx_epoch :: EpochId
  cx_authority :: AuthorityVector
  cx_now :: Tick
  cx_max_samples_per_batch :: u64

section \<open>Readings\<close>

type_synonym ReadingKey = "ResourceId \<times> QueueId \<times> MetricKind"

record Reading =
  rg_value :: u64
  rg_publisher :: PublisherId
  rg_boot :: BootId
  rg_generation :: EvidenceGeneration
  rg_snapshot :: EvidenceSnapshotId
  rg_observed_tick :: Tick
  rg_degraded :: bool
  rg_future :: bool

definition reading_better :: "Reading \<Rightarrow> Reading \<Rightarrow> bool" where
  "reading_better candidate incumbent =
     (if rg_observed_tick candidate \<noteq> rg_observed_tick incumbent
      then rg_observed_tick candidate > rg_observed_tick incumbent
      else if rg_publisher candidate \<noteq> rg_publisher incumbent
      then rg_publisher candidate < rg_publisher incumbent
      else rg_generation candidate > rg_generation incumbent)"

definition gate_severity :: "u32 \<Rightarrow> u32 \<Rightarrow> u32 \<Rightarrow> CongestionPolicy \<Rightarrow> Severity" where
  "gate_severity agree_watch agree_congested agree_severe policy =
     (if po_min_agreeing_rules_for_severe policy \<noteq> 0 \<and>
         agree_severe \<ge> po_min_agreeing_rules_for_severe policy then Sev_Severe
      else if po_min_agreeing_rules_for_congested policy \<noteq> 0 \<and>
         agree_congested \<ge> po_min_agreeing_rules_for_congested policy then Sev_Congested
      else if po_min_agreeing_rules_for_watch policy \<noteq> 0 \<and>
         agree_watch \<ge> po_min_agreeing_rules_for_watch policy then Sev_Watch
      else Sev_Clear)"

section \<open>Scope\<close>

definition eval_scope ::
  "EvaluationRequest \<Rightarrow> EvaluationContext \<Rightarrow> CongestionPolicy \<Rightarrow> ResourceId list result" where
  "eval_scope request context policy =
     (let base =
        (case cx_topology context of
           Some topology \<Rightarrow>
             let members = ti_domain_members topology (rq_domain request) in
             if members = [] then Inl Err_NotFound
             else if length members > unat (pl_max_resources_per_domain (po_limits policy))
             then Inl Err_LimitExceeded
             else Inr members
         | None \<Rightarrow>
             let resources = sort_unique (filter id_valid
                   (map es_resource (eb_samples (rq_evidence request)))) in
             if length resources > unat (pl_max_resources_per_domain (po_limits policy))
             then Inl Err_LimitExceeded
             else Inr resources)
      in case base of
          Inl e \<Rightarrow> Inl e
        | Inr resources \<Rightarrow>
            if id_valid (rq_only_resource request) then
              if rq_only_resource request \<notin> set resources then Inl Err_NotFound
              else Inr [rq_only_resource request]
            else if resources = [] then Inl Err_NotFound
            else Inr resources)"

definition rule_metrics :: "CongestionPolicy \<Rightarrow> MetricKind list" where
  "rule_metrics policy = sort_unique (map tr_metric (po_rules policy))"

definition has_required_rules :: "CongestionPolicy \<Rightarrow> bool" where
  "has_required_rules policy = foldl (\<lambda>b rule. b \<or> tr_required rule) False (po_rules policy)"

section \<open>Sample admission\<close>

record AdmitState =
  am_evidence :: EvidenceVector
  am_readings :: "(ReadingKey, Reading list) omap"
  am_seen :: "u64 list"

definition beyond_skew :: "CongestionPolicy \<Rightarrow> TickAge \<Rightarrow> bool" where
  "beyond_skew policy age \<longleftrightarrow>
     ta_from_future age \<and> ta_age age > fp_max_future_skew_ticks (po_freshness policy)"

definition too_old :: "CongestionPolicy \<Rightarrow> MetricKind \<Rightarrow> TickAge \<Rightarrow> bool" where
  "too_old policy metric age \<longleftrightarrow> \<not> ta_from_future age \<and> ta_age age > max_age_for policy metric"

definition stale_report ::
  "CongestionPolicy \<Rightarrow> EvidenceSample \<Rightarrow> MetricKind \<Rightarrow> TickAge \<Rightarrow> StaleReport" where
  "stale_report policy sample metric age =
     \<lparr>sr_resource = es_resource sample, sr_queue = es_queue sample, sr_metric = metric,
      sr_publisher = es_publisher sample, sr_observed_tick = es_observed_tick sample,
      sr_age_ticks = ta_age age, sr_allowed_age_ticks = max_age_for policy metric,
      sr_from_future = ta_from_future age, sr_beyond_future_skew = beyond_skew policy age\<rparr>"

definition sample_reading :: "EvidenceSample \<Rightarrow> EvidenceSnapshotId \<Rightarrow> u64 \<Rightarrow> Tick \<Rightarrow> Reading" where
  "sample_reading sample snapshot value now =
     (let future = ta_from_future (tick_age now (es_observed_tick sample)) in
      \<lparr>rg_value = value, rg_publisher = es_publisher sample, rg_boot = es_publisher_boot sample,
       rg_generation = es_generation sample, rg_snapshot = snapshot,
       rg_observed_tick = (if future then now else es_observed_tick sample),
       rg_degraded = es_is_degraded sample, rg_future = future\<rparr>)"

text \<open>One metric of one sample; the two flags are \<^verbatim>\<open>accepted_any\<close> and \<^verbatim>\<open>refused_any\<close>.\<close>

definition admit_metric ::
  "CongestionPolicy \<Rightarrow> Tick \<Rightarrow> EvidenceSample \<Rightarrow> EvidenceSnapshotId \<Rightarrow> MetricKind \<Rightarrow>
     AdmitState \<times> bool \<times> bool \<Rightarrow> AdmitState \<times> bool \<times> bool" where
  "admit_metric policy now sample snapshot metric st =
     (case st of (am, accepted, refused) \<Rightarrow>
       (case ms_get (es_metrics sample) metric of
          None \<Rightarrow> (am, accepted, refused)
        | Some value \<Rightarrow>
          let age = tick_age now (es_observed_tick sample);
              ev0 = am_evidence am;
              ev1 = (if ta_from_future age then ev0\<lparr>ev_future_samples := ev_future_samples ev0 + 1\<rparr> else ev0)
          in if beyond_skew policy age \<or> too_old policy metric age then
               let ev2 = ev1\<lparr>ev_stale_samples := ev_stale_samples ev1 + 1\<rparr>;
                   ev3 = (if length (ev_stale ev2) < unat (pl_max_stale_reports (po_limits policy))
                          then ev2\<lparr>ev_stale := ev_stale ev2 @ [stale_report policy sample metric age]\<rparr>
                          else ev2\<lparr>ev_truncated_sections := ev_truncated_sections ev2 + 1\<rparr>)
               in (am\<lparr>am_evidence := ev3\<rparr>, accepted, True)
             else
               let key = (es_resource sample, es_queue sample, metric);
                   bucket = (case map_of (am_readings am) key of None \<Rightarrow> [] | Some b \<Rightarrow> b)
               in if length bucket \<ge> kMaxContradictionPeers then
                    (am\<lparr>am_evidence := ev1\<lparr>ev_truncated_sections := ev_truncated_sections ev1 + 1\<rparr>,
                        am_readings := om_put key bucket (am_readings am)\<rparr>, accepted, refused)
                  else
                    (am\<lparr>am_evidence := ev1,
                        am_readings := om_put key
                          (bucket @ [sample_reading sample snapshot value now]) (am_readings am)\<rparr>,
                     True, refused)))"

definition note_accepted :: "Tick \<Rightarrow> EvidenceVector \<Rightarrow> EvidenceVector" where
  "note_accepted candidate ev =
     (let ev1 = ev\<lparr>ev_samples_accepted := ev_samples_accepted ev + 1\<rparr>;
          ev2 = (if ev_newest_observed_tick ev1 = kNoTick \<or> candidate > ev_newest_observed_tick ev1
                 then ev1\<lparr>ev_newest_observed_tick := candidate\<rparr> else ev1)
      in if ev_oldest_accepted_tick ev2 = kNoTick \<or> candidate < ev_oldest_accepted_tick ev2
         then ev2\<lparr>ev_oldest_accepted_tick := candidate\<rparr> else ev2)"

definition bump_rejected :: "AdmitState \<Rightarrow> AdmitState" where
  "bump_rejected am =
     am\<lparr>am_evidence := (am_evidence am)\<lparr>ev_samples_rejected := ev_samples_rejected (am_evidence am) + 1\<rparr>\<rparr>"

definition admit_sample ::
  "CongestionPolicy \<Rightarrow> EvaluationContext \<Rightarrow> Tick \<Rightarrow> ResourceId list \<Rightarrow> EvidenceSample \<Rightarrow>
     AdmitState \<Rightarrow> AdmitState" where
  "admit_sample policy context now domain_set sample am =
     (if \<not> id_valid (es_resource sample) then bump_rejected am
      else if es_resource sample \<notin> set domain_set then am
      else if es_is_heartbeat sample then
        am\<lparr>am_evidence := (am_evidence am)\<lparr>ev_heartbeats := ev_heartbeats (am_evidence am) + 1\<rparr>\<rparr>
      else if id_valid (cx_epoch context) \<and> es_epoch sample \<noteq> cx_epoch context then bump_rejected am
      else if (case cx_topology context of None \<Rightarrow> False
               | Some topology \<Rightarrow> \<not> ti_contains topology (es_resource sample)) then bump_rejected am
      else
        let snapshot = (if id_valid (es_snapshot sample) then es_snapshot sample
                        else compute_snapshot_id sample)
        in if snapshot \<in> set (am_seen am) then
             am\<lparr>am_evidence := (am_evidence am)\<lparr>ev_samples_duplicate := ev_samples_duplicate (am_evidence am) + 1\<rparr>\<rparr>
           else
             let (am1, accepted, refused) =
                   fold (admit_metric policy now sample snapshot) (rule_metrics policy)
                     (am\<lparr>am_seen := snapshot # am_seen am\<rparr>, False, False)
             in if accepted then
                  am1\<lparr>am_evidence := note_accepted (es_observed_tick sample) (am_evidence am1)\<rparr>
                else if \<not> refused then
                  am1\<lparr>am_evidence := (am_evidence am1)\<lparr>ev_unknown_metric_samples :=
                        ev_unknown_metric_samples (am_evidence am1) + 1\<rparr>\<rparr>
                else am1)"

definition admit_all ::
  "CongestionPolicy \<Rightarrow> EvaluationContext \<Rightarrow> Tick \<Rightarrow> ResourceId list \<Rightarrow> EvidenceSample list \<Rightarrow>
     EvidenceVector \<Rightarrow> AdmitState" where
  "admit_all policy context now domain_set samples ev =
     fold (admit_sample policy context now domain_set) samples
       \<lparr>am_evidence = ev, am_readings = [], am_seen = []\<rparr>"

section \<open>Contradiction detection\<close>

definition per_publisher_best :: "Reading list \<Rightarrow> (PublisherId, Reading) omap" where
  "per_publisher_best bucket =
     foldl (\<lambda>m reading.
       case map_of m (rg_publisher reading) of
         None \<Rightarrow> om_put (rg_publisher reading) reading m
       | Some found \<Rightarrow> if reading_better reading found then om_put (rg_publisher reading) reading m else m)
       [] bucket"

definition newest_reading :: "(PublisherId, Reading) omap \<Rightarrow> Reading" where
  "newest_reading m =
     foldl (\<lambda>winner candidate. if reading_better (snd candidate) winner then snd candidate else winner)
       (snd (hd m)) m"

record SpanState =
  sn_low :: u64
  sn_high :: u64
  sn_low_publisher :: PublisherId
  sn_high_publisher :: PublisherId
  sn_low_tick :: Tick
  sn_high_tick :: Tick

definition span_first :: "PublisherId \<times> Reading \<Rightarrow> SpanState" where
  "span_first c =
     \<lparr>sn_low = rg_value (snd c), sn_high = rg_value (snd c), sn_low_publisher = fst c,
      sn_high_publisher = fst c, sn_low_tick = rg_observed_tick (snd c),
      sn_high_tick = rg_observed_tick (snd c)\<rparr>"

definition span_step :: "SpanState \<Rightarrow> PublisherId \<times> Reading \<Rightarrow> SpanState" where
  "span_step s c =
     (let s1 = (if rg_value (snd c) < sn_low s
                then s\<lparr>sn_low := rg_value (snd c), sn_low_publisher := fst c,
                       sn_low_tick := rg_observed_tick (snd c)\<rparr> else s)
      in if rg_value (snd c) > sn_high s1
         then s1\<lparr>sn_high := rg_value (snd c), sn_high_publisher := fst c,
                 sn_high_tick := rg_observed_tick (snd c)\<rparr> else s1)"

definition reading_span :: "(PublisherId, Reading) omap \<Rightarrow> SpanState" where
  "reading_span m = foldl span_step (span_first (hd m)) (tl m)"

definition contradiction_tolerance :: "ContradictionPolicy \<Rightarrow> u64 \<Rightarrow> u64" where
  "contradiction_tolerance c high =
     max (cp_absolute_tolerance c) (apply_ppm high (cp_relative_tolerance_ppm c))"

text \<open>\<^verbatim>\<open>std::find\<close> over the priority order: the index of the publisher, or the size of the order.\<close>

definition priority_rank :: "PublisherId list \<Rightarrow> PublisherId \<Rightarrow> nat" where
  "priority_rank order p = length (takeWhile (\<lambda>q. q \<noteq> p) order)"

definition prefer_priority ::
  "PublisherId list \<Rightarrow> (PublisherId, Reading) omap \<Rightarrow> Reading \<Rightarrow> Reading \<times> PublisherId" where
  "prefer_priority order m winner0 =
     (let (best_rank, winner, selected) =
        foldl (\<lambda>(best_rank, winner, selected) c.
          let index = priority_rank order (fst c) in
          if index < best_rank then (index, snd c, fst c) else (best_rank, winner, selected))
          (length order, winner0, 0) m
      in if best_rank = length order then (winner, rg_publisher winner) else (winner, selected))"

record DetectState =
  dt_evidence :: EvidenceVector
  dt_chosen :: "(ReadingKey, Reading) omap"
  dt_unresolved :: "(ResourceId \<times> MetricKind) list"
  dt_degraded :: "ResourceId list"

definition conflict_report ::
  "ReadingKey \<Rightarrow> SpanState \<Rightarrow> bool \<Rightarrow> PublisherId \<Rightarrow> ConflictReport" where
  "conflict_report key s resolved selected =
     \<lparr>cr_resource = fst key, cr_queue = fst (snd key), cr_metric = snd (snd key),
      cr_low_value = sn_low s, cr_high_value = sn_high s, cr_spread = sn_high s - sn_low s,
      cr_low_publisher = sn_low_publisher s, cr_high_publisher = sn_high_publisher s,
      cr_low_observed_tick = sn_low_tick s, cr_high_observed_tick = sn_high_tick s,
      cr_resolved = resolved, cr_selected_publisher = selected\<rparr>"

definition disagreement :: "ContradictionPolicy \<Rightarrow> (PublisherId, Reading) omap \<Rightarrow> bool" where
  "disagreement c m \<longleftrightarrow>
     length m \<ge> unat (cp_min_distinct_publishers c) \<and>
     sn_high (reading_span m) - sn_low (reading_span m) >
       contradiction_tolerance c (sn_high (reading_span m))"

definition detect_key ::
  "CongestionPolicy \<Rightarrow> DetectState \<Rightarrow> ReadingKey \<times> Reading list \<Rightarrow> DetectState" where
  "detect_key policy dt entry =
     (let key = fst entry;
          m = per_publisher_best (snd entry);
          c = po_contradiction policy
      in if m = [] then dt
         else
           let newest = newest_reading m;
               (winner, dt1) =
                 (if disagreement c m then
                    let resolved = cp_mode c \<noteq> CM_Reject;
                        (winner, selected) =
                          (if cp_mode c = CM_PreferHighestPriority
                           then prefer_priority (cp_priority_order c) m newest
                           else if cp_mode c = CM_PreferNewest then (newest, rg_publisher newest)
                           else (newest, 0));
                        report = conflict_report key (reading_span m) resolved selected;
                        ev = dt_evidence dt;
                        ev1 = (if length (ev_conflicts ev) < unat (pl_max_conflict_reports (po_limits policy))
                               then ev\<lparr>ev_conflicts := ev_conflicts ev @ [report]\<rparr>
                               else ev\<lparr>ev_truncated_sections := ev_truncated_sections ev + 1\<rparr>)
                    in (winner,
                        dt\<lparr>dt_evidence := ev1,
                           dt_unresolved := (if resolved then dt_unresolved dt
                              else (fst key, snd (snd key)) # dt_unresolved dt)\<rparr>)
                  else (newest, dt))
           in dt1\<lparr>dt_degraded := (if rg_degraded winner then fst key # dt_degraded dt1 else dt_degraded dt1),
                  dt_chosen := om_put key winner (dt_chosen dt1)\<rparr>)"

definition detect_all :: "CongestionPolicy \<Rightarrow> AdmitState \<Rightarrow> DetectState" where
  "detect_all policy am =
     foldl (detect_key policy)
       \<lparr>dt_evidence = am_evidence am, dt_chosen = [], dt_unresolved = [], dt_degraded = []\<rparr>
       (am_readings am)"

section \<open>Per-resource classification\<close>

definition readings_of :: "DetectState \<Rightarrow> ResourceId \<Rightarrow> MetricKind \<Rightarrow> (QueueId \<times> Reading) list" where
  "readings_of dt resource metric =
     map (\<lambda>e. (fst (snd (fst e)), snd e))
       (filter (\<lambda>e. fst (fst e) = resource \<and> snd (snd (fst e)) = metric) (dt_chosen dt))"

record RuleOutcome =
  ro_upward :: Severity
  ro_downward :: Severity
  ro_queue :: QueueId
  ro_reading :: Reading

definition rule_better :: "Severity \<Rightarrow> QueueId \<times> Reading \<Rightarrow> RuleOutcome option \<Rightarrow> bool" where
  "rule_better up c r =
     (case r of
        None \<Rightarrow> True
      | Some o1 \<Rightarrow>
          up > ro_upward o1 \<or>
          (up = ro_upward o1 \<and>
            (rg_observed_tick (snd c) > rg_observed_tick (ro_reading o1) \<or>
             (rg_observed_tick (snd c) = rg_observed_tick (ro_reading o1) \<and> fst c < ro_queue o1))))"

definition rule_outcome ::
  "CongestionPolicy \<Rightarrow> ThresholdRule \<Rightarrow> (QueueId \<times> Reading) list \<Rightarrow> RuleOutcome option" where
  "rule_outcome policy rule candidates =
     foldl (\<lambda>r c.
       let up = classify_rule_with_margin rule (rg_value (snd c)) 0;
           down = classify_rule_with_margin rule (rg_value (snd c))
                    (hp_downgrade_margin_ppm (po_hysteresis policy))
       in if rule_better up c r
          then Some \<lparr>ro_upward = up, ro_downward = down, ro_queue = fst c, ro_reading = snd c\<rparr>
          else r) None candidates"

record ClassState =
  cl_evidence :: EvidenceVector
  cl_assessment :: ResourceAssessment
  cl_any_present :: bool
  cl_required_total :: nat
  cl_required_present :: nat
  cl_agree_watch :: u32
  cl_agree_congested :: u32
  cl_agree_severe :: u32
  cl_down_watch :: u32
  cl_down_congested :: u32
  cl_down_severe :: u32
  cl_strictest_down :: Severity
  cl_ungated_up :: Severity

definition bump_level :: "Severity \<Rightarrow> Severity \<Rightarrow> u32 \<Rightarrow> u32" where
  "bump_level level bound n = (if sev_u8 level \<ge> sev_u8 bound then n + 1 else n)"

definition threshold_binding :: "ResourceId \<Rightarrow> ThresholdRule \<Rightarrow> RuleOutcome \<Rightarrow> ThresholdBinding" where
  "threshold_binding resource rule o1 =
     \<lparr>tb_resource = resource, tb_queue = ro_queue o1, tb_metric = tr_metric rule, tb_op = tr_op rule,
      tb_value = rg_value (ro_reading o1), tb_watch = tr_watch rule,
      tb_congested = tr_congested rule, tb_severe = tr_severe rule, tb_level = ro_upward o1,
      tb_required = tr_required rule, tb_stale = False, tb_future = False,
      tb_degraded_source = rg_degraded (ro_reading o1), tb_publisher = rg_publisher (ro_reading o1),
      tb_observed_tick = rg_observed_tick (ro_reading o1)\<rparr>"

definition note_reading :: "bool \<Rightarrow> Reading \<Rightarrow> ResourceAssessment \<Rightarrow> ResourceAssessment" where
  "note_reading degraded reading a0 =
     (let a1 = a0\<lparr>ra_samples_considered := ra_samples_considered a0 + 1\<rparr>;
          a2 = (if rg_future reading then a1\<lparr>ra_future_samples := ra_future_samples a1 + 1\<rparr> else a1);
          a3 = (if ra_newest_observed_tick a2 = kNoTick \<or>
                   rg_observed_tick reading > ra_newest_observed_tick a2
                then a2\<lparr>ra_newest_observed_tick := rg_observed_tick reading,
                        ra_newest_snapshot := rg_snapshot reading\<rparr> else a2);
          a4 = (if \<not> id_valid (ra_newest_snapshot a3)
                then a3\<lparr>ra_newest_snapshot := rg_snapshot reading\<rparr> else a3)
      in if degraded then a4\<lparr>ra_degraded_source := True\<rparr> else a4)"

definition classify_rule ::
  "CongestionPolicy \<Rightarrow> DetectState \<Rightarrow> ResourceId \<Rightarrow> ThresholdRule \<Rightarrow> ClassState \<Rightarrow> ClassState" where
  "classify_rule policy dt resource rule cl0 =
     (let cl = (if tr_required rule then cl0\<lparr>cl_required_total := cl_required_total cl0 + 1\<rparr> else cl0) in
      if (resource, tr_metric rule) \<in> set (dt_unresolved dt) then
        cl\<lparr>cl_assessment := (cl_assessment cl)\<lparr>ra_contradictory := True, ra_coverage := Cov_Partial\<rparr>\<rparr>
      else case rule_outcome policy rule (readings_of dt resource (tr_metric rule)) of
          None \<Rightarrow> cl
        | Some o1 \<Rightarrow>
            let ev = cl_evidence cl;
                ev1 = (if length (ev_bindings ev) < unat (pl_max_explanation_entries (po_limits policy))
                       then ev\<lparr>ev_bindings := ev_bindings ev @ [threshold_binding resource rule o1]\<rparr>
                       else ev\<lparr>ev_truncated_sections := ev_truncated_sections ev + 1\<rparr>)
            in cl\<lparr>cl_any_present := True,
                  cl_required_present := (if tr_required rule then cl_required_present cl + 1
                                          else cl_required_present cl),
                  cl_assessment := note_reading (resource \<in> set (dt_degraded dt)) (ro_reading o1)
                                     (cl_assessment cl),
                  cl_agree_watch := bump_level (ro_upward o1) Sev_Watch (cl_agree_watch cl),
                  cl_agree_congested := bump_level (ro_upward o1) Sev_Congested (cl_agree_congested cl),
                  cl_agree_severe := bump_level (ro_upward o1) Sev_Severe (cl_agree_severe cl),
                  cl_down_watch := bump_level (ro_downward o1) Sev_Watch (cl_down_watch cl),
                  cl_down_congested := bump_level (ro_downward o1) Sev_Congested (cl_down_congested cl),
                  cl_down_severe := bump_level (ro_downward o1) Sev_Severe (cl_down_severe cl),
                  cl_strictest_down := max (ro_downward o1) (cl_strictest_down cl),
                  cl_ungated_up := max (ro_upward o1) (cl_ungated_up cl),
                  cl_evidence := ev1\<rparr>)"

definition new_class_state :: "ResourceId \<Rightarrow> EvidenceVector \<Rightarrow> ClassState" where
  "new_class_state resource ev =
     \<lparr>cl_evidence = ev, cl_assessment = new_assessment resource, cl_any_present = False,
      cl_required_total = 0, cl_required_present = 0, cl_agree_watch = 0, cl_agree_congested = 0,
      cl_agree_severe = 0, cl_down_watch = 0, cl_down_congested = 0, cl_down_severe = 0,
      cl_strictest_down = Sev_Clear, cl_ungated_up = Sev_Clear\<rparr>"

definition class_up :: "CongestionPolicy \<Rightarrow> ClassState \<Rightarrow> Severity" where
  "class_up policy cl =
     gate_severity (cl_agree_watch cl) (cl_agree_congested cl) (cl_agree_severe cl) policy"

definition class_down :: "CongestionPolicy \<Rightarrow> ClassState \<Rightarrow> Severity" where
  "class_down policy cl =
     (let up = class_up policy cl;
          down = (if hp_require_all_rules_agree_on_downgrade (po_hysteresis policy)
                  then cl_strictest_down cl
                  else max up (gate_severity (cl_down_watch cl) (cl_down_congested cl)
                                 (cl_down_severe cl) policy))
      in if down < up then up else down)"

record AssessState =
  at_evidence :: EvidenceVector
  at_assessments :: "(ResourceId, ResourceAssessment) omap"
  at_up :: "(ResourceId, Severity) omap"
  at_down :: "(ResourceId, Severity) omap"
  at_ungated :: Severity

definition assess_resource ::
  "CongestionPolicy \<Rightarrow> DetectState \<Rightarrow> ResourceId \<Rightarrow> AssessState \<Rightarrow> AssessState" where
  "assess_resource policy dt resource a =
     (let cl = fold (classify_rule policy dt resource) (po_rules policy)
                 (new_class_state resource (at_evidence a));
          up = class_up policy cl;
          a1 = cl_assessment cl;
          coverage = (if \<not> cl_any_present cl
                      then if ra_contradictory a1 then Cov_Partial else Cov_None
                      else if cl_required_present cl = cl_required_total cl then Cov_Full
                      else Cov_Partial)
      in a\<lparr>at_evidence := cl_evidence cl,
           at_assessments := om_put resource (a1\<lparr>ra_raw_severity := up, ra_coverage := coverage\<rparr>)
                               (at_assessments a),
           at_up := om_put resource up (at_up a),
           at_down := om_put resource (class_down policy cl) (at_down a),
           at_ungated := max (cl_ungated_up cl) (at_ungated a)\<rparr>)"

text \<open>
  The loop that creates an empty assessment per resource first is folded into the loop that fills
  it: each resource is visited once and no stage reads an assessment of another resource.
\<close>

definition assess_all :: "CongestionPolicy \<Rightarrow> DetectState \<Rightarrow> ResourceId list \<Rightarrow> AssessState" where
  "assess_all policy dt resources =
     fold (assess_resource policy dt) resources
       \<lparr>at_evidence = dt_evidence dt, at_assessments = [], at_up = [], at_down = [],
        at_ungated = Sev_Clear\<rparr>"

section \<open>Propagation inside the domain\<close>

definition sev_at :: "(ResourceId, Severity) omap \<Rightarrow> ResourceId \<Rightarrow> Severity" where
  "sev_at m r = (case map_of m r of None \<Rightarrow> Sev_Clear | Some s \<Rightarrow> s)"

definition raise_edge :: "ResourceId list \<Rightarrow> PropagationEdge \<Rightarrow> AssessState \<Rightarrow> AssessState" where
  "raise_edge domain_set edge a =
     (if pe_to edge \<notin> set domain_set then a
      else
        let up = (if pe_induced edge > sev_at (at_up a) (pe_to edge) then pe_induced edge
                  else sev_at (at_up a) (pe_to edge));
            down = (if pe_induced edge > sev_at (at_down a) (pe_to edge) then pe_induced edge
                    else sev_at (at_down a) (pe_to edge));
            asm = (case map_of (at_assessments a) (pe_to edge) of
                     None \<Rightarrow> new_assessment 0 | Some x \<Rightarrow> x)
        in a\<lparr>at_up := om_put (pe_to edge) up (at_up a),
             at_down := om_put (pe_to edge) down (at_down a),
             at_assessments := om_put (pe_to edge) (asm\<lparr>ra_raw_severity := up\<rparr>) (at_assessments a)\<rparr>)"

definition mark_applied ::
  "ResourceId list \<Rightarrow> (ResourceId, Severity) omap \<Rightarrow> PropagationEdge \<Rightarrow> PropagationEdge" where
  "mark_applied domain_set before edge =
     (if pe_to edge \<notin> set domain_set then edge\<lparr>pe_applied := False\<rparr>
      else edge\<lparr>pe_applied := (case map_of before (pe_to edge) of
                                 None \<Rightarrow> False | Some s \<Rightarrow> pe_induced edge > s)\<rparr>)"

definition propagate_domain ::
  "CongestionPolicy \<Rightarrow> EvaluationContext \<Rightarrow> ResourceId list \<Rightarrow> AssessState \<Rightarrow> AssessState result" where
  "propagate_domain policy context resources a =
     (let sources = map (\<lambda>r. \<lparr>so_resource = r, so_severity = sev_at (at_up a) r\<rparr>)
            (filter (\<lambda>r. sev_at (at_up a) r \<noteq> Sev_Clear) resources)
      in case cx_topology context of
          None \<Rightarrow> Inr a
        | Some topology \<Rightarrow>
            if \<not> pp_enabled (po_propagation policy) \<or> sources = [] then Inr a
            else case propagate topology sources (po_propagation policy)
                        (unat (pl_max_explanation_entries (po_limits policy))) of
                Inl e \<Rightarrow> Inl e
              | Inr px \<Rightarrow>
                  let ev = at_evidence a;
                      ev1 = ev\<lparr>ev_propagation := map (mark_applied resources (at_up a)) (px_edges px)\<rparr>;
                      ev2 = (if px_truncated px
                             then ev1\<lparr>ev_truncated_sections := ev_truncated_sections ev1 + 1\<rparr> else ev1);
                      a1 = fold (raise_edge resources) (px_edges px) a
                  in Inr (a1\<lparr>at_evidence := ev2\<rparr>))"

section \<open>Aggregation\<close>

record Aggregate =
  ag_any_evidence :: bool
  ag_any_partial :: bool
  ag_any_conflict :: bool
  ag_up :: Severity
  ag_down :: Severity

definition aggregate_resource :: "AssessState \<Rightarrow> ResourceId \<Rightarrow> Aggregate \<Rightarrow> Aggregate" where
  "aggregate_resource a resource g0 =
     (let asm = (case map_of (at_assessments a) resource of None \<Rightarrow> new_assessment 0 | Some x \<Rightarrow> x);
          g = (if ra_contradictory asm then g0\<lparr>ag_any_conflict := True\<rparr> else g0)
      in if ra_coverage asm = Cov_None then g
         else g\<lparr>ag_any_evidence := True,
                ag_any_partial := ag_any_partial g \<or> ra_coverage asm \<noteq> Cov_Full,
                ag_up := max (sev_at (at_up a) resource) (ag_up g),
                ag_down := max (sev_at (at_down a) resource) (ag_down g)\<rparr>)"

definition aggregate :: "AssessState \<Rightarrow> ResourceId list \<Rightarrow> Aggregate" where
  "aggregate a resources =
     fold (aggregate_resource a) resources
       \<lparr>ag_any_evidence = False, ag_any_partial = False, ag_any_conflict = False,
        ag_up = Sev_Clear, ag_down = Sev_Clear\<rparr>"

definition no_value_proposal :: "CongestionState \<Rightarrow> SeverityProposal" where
  "no_value_proposal st =
     \<lparr>sp_upward = Sev_Clear, sp_downward = Sev_Clear, sp_has_value = False, sp_indeterminate = st\<rparr>"

definition make_proposal ::
  "CongestionPolicy \<Rightarrow> DomainState \<Rightarrow> Severity \<Rightarrow> Aggregate \<Rightarrow> SeverityProposal \<times> EvalNote list" where
  "make_proposal policy prior ungated g =
     (if ag_any_conflict g then (no_value_proposal St_Conflict, [Note_PublishersDisagreed])
      else if \<not> ag_any_evidence g then
        (no_value_proposal
           (if ds_last_authoritative_tick prior \<noteq> kNoTick then St_Stale else St_Unknown),
         [Note_NoUsableEvidence])
      else
        let notes = (if ungated > ag_up g then [Note_GateReduced ungated (ag_up g)] else []);
            p = \<lparr>sp_upward = ag_up g, sp_downward = ag_down g, sp_has_value = True,
                 sp_indeterminate = St_Unknown\<rparr>
        in if has_required_rules policy \<and> ag_any_partial g then
             (p\<lparr>sp_upward := (if sp_upward p < Sev_Watch then Sev_Watch else sp_upward p),
                sp_downward := (if sp_downward p < Sev_Watch then Sev_Watch else sp_downward p)\<rparr>,
              notes @ [Note_IncompleteCoverage])
           else (p, notes))"

section \<open>The evaluation\<close>

definition reason_code :: "StepReason \<Rightarrow> CongestionState \<Rightarrow> string" where
  "reason_code reason st =
     (case reason of
        HR_Indeterminate \<Rightarrow>
          (if st = St_Conflict then ''contradictory-evidence''
           else if st = St_Stale then ''evidence-stale'' else ''no-evidence'')
      | HR_Escalated \<Rightarrow> ''severity-escalated''
      | HR_Downgraded \<Rightarrow> ''severity-downgraded''
      | HR_RecoveryStarted \<Rightarrow> ''recovery-started''
      | HR_RecoveryComplete \<Rightarrow> ''recovery-complete''
      | HR_EscalatePending \<Rightarrow> ''hysteresis-pending''
      | HR_DowngradePending \<Rightarrow> ''hysteresis-pending''
      | HR_HoldDwell \<Rightarrow> ''hysteresis-hold''
      | HR_HoldRecovering \<Rightarrow> ''hysteresis-hold''
      | HR_TickRegression \<Rightarrow> ''tick-regression''
      | HR_InvalidProposal \<Rightarrow> ''invalid-proposal''
      | HR_Steady \<Rightarrow> ''steady'')"

definition rebind_state ::
  "EvaluationRequest \<Rightarrow> EvaluationContext \<Rightarrow> CongestionPolicy \<Rightarrow> DomainState \<Rightarrow> DomainState" where
  "rebind_state request context policy prior =
     prior\<lparr>ds_domain := rq_domain request, ds_epoch := cx_epoch context, ds_policy := po_id policy,
           ds_policy_fingerprint := po_fingerprint policy,
           ds_authority_generation := av_generation (rq_authority request),
           ds_topology_generation :=
             (case cx_topology context of None \<Rightarrow> 0 | Some t \<Rightarrow> ts_generation (ti_snapshot t)),
           ds_capacity_generation :=
             (case cx_capacity context of None \<Rightarrow> 0 | Some c \<Rightarrow> cs_generation c),
           ds_evaluation_count :=
             (if ds_evaluation_count prior < kMaxU64 then ds_evaluation_count prior + 1
              else ds_evaluation_count prior)\<rparr>"

definition initial_evidence :: "EvaluationRequest \<Rightarrow> EvidenceVector" where
  "initial_evidence request =
     \<lparr>ev_batch = eb_id (rq_evidence request), ev_epoch = rq_epoch request,
      ev_samples_seen = length (eb_samples (rq_evidence request)), ev_samples_accepted = 0,
      ev_samples_rejected = 0, ev_samples_duplicate = 0, ev_stale_samples = 0,
      ev_future_samples = 0, ev_unknown_metric_samples = 0, ev_heartbeats = 0,
      ev_newest_observed_tick = kNoTick, ev_oldest_accepted_tick = kNoTick, ev_resources = [],
      ev_bindings = [], ev_conflicts = [], ev_stale = [], ev_propagation = [],
      ev_truncated_sections = 0\<rparr>"

definition list_assessments ::
  "CongestionPolicy \<Rightarrow> AssessState \<Rightarrow> ResourceId list \<Rightarrow> EvidenceVector \<Rightarrow> EvidenceVector" where
  "list_assessments policy a resources ev =
     (let bound = unat (pl_max_explanation_entries (po_limits policy));
          listed = map (\<lambda>r. case map_of (at_assessments a) r of None \<Rightarrow> new_assessment 0 | Some x \<Rightarrow> x)
                     (take bound resources)
      in if length resources > bound
         then ev\<lparr>ev_resources := listed, ev_truncated_sections := ev_truncated_sections ev + 1\<rparr>
         else ev\<lparr>ev_resources := listed\<rparr>)"

definition evaluation_identity ::
  "EvaluationRequest \<Rightarrow> EvaluationContext \<Rightarrow> CongestionPolicy \<Rightarrow> CongestionState \<Rightarrow> u64 \<Rightarrow> EvaluationId" where
  "evaluation_identity request context policy st count =
     (let h1 = hash_u64 (rq_domain request) kFnvOffset;
          h2 = hash_u64 (cx_epoch context) h1;
          h3 = hash_u64 (rq_now request) h2;
          h4 = hash_u64 (eb_id (rq_evidence request)) h3;
          h5 = hash_u64 (po_fingerprint policy) h4;
          h6 = hash_u8 (st_u8 st) h5
      in hash_finish (hash_u64 count h6))"

text \<open>What the evidence alone says: assessments and the proposal, before hysteresis.\<close>

definition assess_domain ::
  "EvaluationRequest \<Rightarrow> EvaluationContext \<Rightarrow> CongestionPolicy \<Rightarrow> ResourceId list \<Rightarrow> AssessState result" where
  "assess_domain request context policy resources =
     (let am = admit_all policy context (rq_now request) resources (eb_samples (rq_evidence request))
                 (initial_evidence request);
          dt = detect_all policy am
      in propagate_domain policy context resources (assess_all policy dt resources))"

definition conclude ::
  "EvaluationRequest \<Rightarrow> EvaluationContext \<Rightarrow> CongestionPolicy \<Rightarrow> DomainState \<Rightarrow> ResourceId list \<Rightarrow>
     AssessState \<Rightarrow> EvaluationOutcome" where
  "conclude request context policy prior resources a =
     (let g = aggregate a resources;
          (proposal, notes) = make_proposal policy prior (at_ungated a) g;
          (stepped, step) = hysteresis_step (rebind_state request context policy prior) proposal
                              (po_hysteresis policy) (po_recovery policy) (rq_now request);
          updated = stepped\<lparr>ds_last_evaluated_tick := rq_now request\<rparr>
      in \<lparr>eo_id = evaluation_identity request context policy (ds_state updated) (ds_evaluation_count prior),
          eo_domain = rq_domain request,
          eo_state = ds_state updated,
          eo_previous_state = ds_state prior,
          eo_severity = (case severity_of (ds_state updated) of None \<Rightarrow> Sev_Clear | Some s \<Rightarrow> s),
          eo_transitioned = hs_transitioned step,
          eo_authoritative = ds_authoritative updated \<and> sp_has_value proposal \<and> \<not> ag_any_conflict g,
          eo_requires_revalidation = ds_requires_revalidation updated,
          eo_evidence = list_assessments policy a resources (at_evidence a),
          eo_updated = updated,
          eo_authority = rq_authority request,
          eo_policy = po_id policy,
          eo_policy_fingerprint = po_fingerprint policy,
          eo_topology_generation = ds_topology_generation updated,
          eo_capacity_generation = ds_capacity_generation updated,
          eo_evaluated_tick = rq_now request,
          eo_reason_code = reason_code (hs_reason step) (ds_state updated),
          eo_reason_detail = notes\<rparr>)"

definition evaluate ::
  "EvaluationRequest \<Rightarrow> DomainState \<Rightarrow> EvaluationContext \<Rightarrow> EvaluationOutcome result" where
  "evaluate request prior context =
     (case cx_policy context of
        None \<Rightarrow> Inl Err_NotReady
      | Some policy \<Rightarrow>
          if \<not> id_valid (rq_domain request) then Inl Err_InvalidArgument
          else if rq_now request = kNoTick then Inl Err_InvalidArgument
          else if length (eb_samples (rq_evidence request)) > unat (cx_max_samples_per_batch context)
          then Inl Err_LimitExceeded
          else case eval_scope request context policy of
              Inl e \<Rightarrow> Inl e
            | Inr resources \<Rightarrow>
                (case assess_domain request context policy resources of
                   Inl e \<Rightarrow> Inl e
                 | Inr a \<Rightarrow> Inr (conclude request context policy prior resources a)))"

section \<open>Only fresh readings are bound\<close>

definition reading_fresh :: "CongestionPolicy \<Rightarrow> Tick \<Rightarrow> MetricKind \<Rightarrow> Reading \<Rightarrow> bool" where
  "reading_fresh policy now metric r \<longleftrightarrow>
     ta_within (tick_age now (rg_observed_tick r)) (max_age_for policy metric)"

definition readings_fresh :: "CongestionPolicy \<Rightarrow> Tick \<Rightarrow> (ReadingKey, Reading list) omap \<Rightarrow> bool" where
  "readings_fresh policy now m \<longleftrightarrow>
     (\<forall>(key, bucket) \<in> set m. \<forall>r \<in> set bucket. reading_fresh policy now (snd (snd key)) r)"

lemma om_put_mem: "x \<in> set (om_put k v m) \<Longrightarrow> x = (k, v) \<or> x \<in> set m"
  using om_put_set by fastforce

lemma readings_fresh_put:
  assumes "readings_fresh policy now m" and "\<forall>r \<in> set b. reading_fresh policy now (snd (snd key)) r"
  shows "readings_fresh policy now (om_put key b m)"
  using assms om_put_mem by (fastforce simp: readings_fresh_def)

lemma readings_fresh_lookup:
  "readings_fresh policy now m \<Longrightarrow> map_of m key = Some b \<Longrightarrow> r \<in> set b \<Longrightarrow>
   reading_fresh policy now (snd (snd key)) r"
  by (auto simp: readings_fresh_def dest!: map_of_SomeD)

lemma sample_reading_fresh:
  assumes "\<not> beyond_skew policy (tick_age now (es_observed_tick sample))"
    and "\<not> too_old policy metric (tick_age now (es_observed_tick sample))"
  shows "reading_fresh policy now metric (sample_reading sample snapshot value now)"
proof (cases "ta_from_future (tick_age now (es_observed_tick sample))")
  case True
  then have "rg_observed_tick (sample_reading sample snapshot value now) = now"
    by (simp add: sample_reading_def)
  then show ?thesis by (simp add: reading_fresh_def ta_within_def tick_age_def)
next
  case False
  with assms(2) show ?thesis
    by (simp add: reading_fresh_def sample_reading_def ta_within_def too_old_def linorder_not_less)
qed

lemma admit_metric_fresh:
  assumes "readings_fresh policy now (am_readings (fst st))"
  shows "readings_fresh policy now (am_readings (fst (admit_metric policy now sample snapshot metric st)))"
proof -
  obtain am accepted refused where st: "st = (am, accepted, refused)" by (cases st)
  let ?key = "(es_resource sample, es_queue sample, metric)"
  let ?bucket = "case map_of (am_readings am) ?key of None \<Rightarrow> [] | Some b \<Rightarrow> b"
  have bucket: "\<forall>r \<in> set ?bucket. reading_fresh policy now metric r"
  proof (cases "map_of (am_readings am) ?key")
    case (Some b)
    with assms readings_fresh_lookup [of policy now "am_readings am" ?key b] show ?thesis
      by (simp add: st)
  qed simp
  have put: "readings_fresh policy now (om_put ?key b (am_readings am))"
    if "\<forall>r \<in> set b. reading_fresh policy now metric r" for b
    using assms that by (intro readings_fresh_put) (simp_all add: st)
  show ?thesis
    using assms bucket put sample_reading_fresh
    by (auto simp: admit_metric_def st Let_def split: option.splits)
qed

lemma fold_admit_metric_fresh:
  "readings_fresh policy now (am_readings (fst st)) \<Longrightarrow>
   readings_fresh policy now (am_readings (fst (fold (admit_metric policy now sample snapshot) ms st)))"
  by (rule fold_invariant_set [where P = "\<lambda>st. readings_fresh policy now (am_readings (fst st))"])
    (simp_all add: admit_metric_fresh)

lemma admit_sample_fresh:
  assumes "readings_fresh policy now (am_readings am)"
  shows "readings_fresh policy now (am_readings (admit_sample policy context now scope sample am))"
proof -
  have "readings_fresh policy now (am_readings (fst (fold (admit_metric policy now sample snapshot)
      (rule_metrics policy) (am\<lparr>am_seen := snapshot # am_seen am\<rparr>, False, False))))" for snapshot
    by (rule fold_admit_metric_fresh) (simp add: assms)
  then show ?thesis
    using assms by (auto simp: admit_sample_def bump_rejected_def Let_def case_prod_beta)
qed

lemma admit_all_fresh:
  "readings_fresh policy now (am_readings (admit_all policy context now scope samples ev))"
  unfolding admit_all_def
  by (rule fold_invariant_set [where P = "\<lambda>am. readings_fresh policy now (am_readings am)"])
    (simp_all add: admit_sample_fresh, simp add: readings_fresh_def)

text \<open>Selecting a reading never invents one.\<close>

lemma per_publisher_best_sub:
  "\<forall>e \<in> set (per_publisher_best bucket). snd e \<in> set bucket \<and> fst e = rg_publisher (snd e)"
proof -
  let ?f = "\<lambda>m reading. case map_of m (rg_publisher reading) of
      None \<Rightarrow> om_put (rg_publisher reading) reading m
    | Some found \<Rightarrow> if reading_better reading found then om_put (rg_publisher reading) reading m else m"
  have "\<forall>e \<in> set (foldl ?f m xs). e \<in> set m \<or> (snd e \<in> set xs \<and> fst e = rg_publisher (snd e))" for m xs
  proof (induction xs rule: rev_induct)
    case Nil
    then show ?case by simp
  next
    case (snoc x xs)
    then show ?case by (auto split: option.splits dest!: om_put_mem)
  qed
  from this [of "[]" bucket] show ?thesis by (auto simp: per_publisher_best_def)
qed

lemma foldl_choose:
  assumes "\<And>st c. sel (f st c) = sel st \<or> sel (f st c) = snd c"
  shows "sel (foldl f st m) = sel st \<or> sel (foldl f st m) \<in> snd ` set m"
proof (induction m arbitrary: st)
  case Nil
  then show ?case by simp
next
  case (Cons c m)
  from Cons.IH [of "f st c"] show ?case
  proof
    assume "sel (foldl f (f st c) m) = sel (f st c)"
    with assms [of st c] show ?thesis by (elim disjE) simp_all
  qed simp
qed

lemma newest_reading_mem: "m \<noteq> [] \<Longrightarrow> newest_reading m \<in> snd ` set m"
proof -
  assume "m \<noteq> []"
  then have "snd (hd m) \<in> snd ` set m" by simp
  moreover have "newest_reading m = snd (hd m) \<or> newest_reading m \<in> snd ` set m"
    unfolding newest_reading_def by (rule foldl_choose [where sel = "\<lambda>x. x"]) simp
  ultimately show ?thesis by (elim disjE) simp_all
qed

lemma prefer_priority_mem:
  assumes "w \<in> snd ` set m"
  shows "fst (prefer_priority order m w) \<in> snd ` set m"
proof -
  let ?f = "\<lambda>(best_rank, winner, selected) c. let index = priority_rank order (fst c) in
      if index < best_rank then (index, snd c, fst c) else (best_rank, winner, selected)"
  have "fst (snd (foldl ?f st xs)) = fst (snd st) \<or> fst (snd (foldl ?f st xs)) \<in> snd ` set xs" for st xs
    by (rule foldl_choose [where sel = "\<lambda>st. fst (snd st)"]) (simp add: Let_def split: prod.splits)
  note mem = this [of "(length order, w, 0)" m]
  have "fst (prefer_priority order m w) = fst (snd (foldl ?f (length order, w, 0) m))"
    by (simp add: prefer_priority_def Let_def split: prod.splits)
  with mem assms show ?thesis by (elim disjE) simp_all
qed

definition chosen_fresh :: "CongestionPolicy \<Rightarrow> Tick \<Rightarrow> DetectState \<Rightarrow> bool" where
  "chosen_fresh policy now dt \<longleftrightarrow>
     (\<forall>(key, r) \<in> set (dt_chosen dt). reading_fresh policy now (snd (snd key)) r)"

definition key_winner :: "CongestionPolicy \<Rightarrow> (PublisherId, Reading) omap \<Rightarrow> Reading" where
  "key_winner policy m =
     (if disagreement (po_contradiction policy) m \<and>
         cp_mode (po_contradiction policy) = CM_PreferHighestPriority
      then fst (prefer_priority (cp_priority_order (po_contradiction policy)) m (newest_reading m))
      else newest_reading m)"

lemma key_winner_mem: "m \<noteq> [] \<Longrightarrow> key_winner policy m \<in> snd ` set m"
  by (simp add: key_winner_def newest_reading_mem prefer_priority_mem)

lemma detect_key_chosen:
  "dt_chosen (detect_key policy dt entry) =
     (if per_publisher_best (snd entry) = [] then dt_chosen dt
      else om_put (fst entry) (key_winner policy (per_publisher_best (snd entry))) (dt_chosen dt))"
  by (auto simp: detect_key_def Let_def key_winner_def split: prod.splits)

lemma detect_key_fresh:
  assumes "chosen_fresh policy now dt"
    and "\<forall>r \<in> set (snd entry). reading_fresh policy now (snd (snd (fst entry))) r"
  shows "chosen_fresh policy now (detect_key policy dt entry)"
proof (cases "per_publisher_best (snd entry) = []")
  case True
  with assms(1) show ?thesis by (simp add: chosen_fresh_def detect_key_chosen)
next
  case False
  have "key_winner policy (per_publisher_best (snd entry)) \<in> set (snd entry)"
    using key_winner_mem [OF False] per_publisher_best_sub by force
  with assms False show ?thesis
    by (auto simp: chosen_fresh_def detect_key_chosen dest!: om_put_mem)
qed

lemma foldl_invariant_set:
  "(\<And>x s. x \<in> set xs \<Longrightarrow> P s \<Longrightarrow> P (f s x)) \<Longrightarrow> P s \<Longrightarrow> P (foldl f s xs)"
  by (induction xs arbitrary: s) auto

lemma detect_all_fresh:
  assumes "readings_fresh policy now (am_readings am)"
  shows "chosen_fresh policy now (detect_all policy am)"
  unfolding detect_all_def
proof (rule foldl_invariant_set [where P = "chosen_fresh policy now"])
  show "chosen_fresh policy now (detect_key policy s x)"
    if "x \<in> set (am_readings am)" "chosen_fresh policy now s" for x s
    using that assms by (intro detect_key_fresh) (auto simp: readings_fresh_def)
qed (simp add: chosen_fresh_def)

lemma rule_outcome_Some:
  assumes "rule_outcome policy rule cs = Some o1"
  shows "(ro_queue o1, ro_reading o1) \<in> set cs"
    and "ro_upward o1 = classify rule (rg_value (ro_reading o1))"
    and "ro_upward o1 \<le> ro_downward o1"
proof -
  let ?f = "\<lambda>r c. let up = classify_rule_with_margin rule (rg_value (snd c)) 0;
           down = classify_rule_with_margin rule (rg_value (snd c)) (hp_downgrade_margin_ppm (po_hysteresis policy))
       in if rule_better up c r
          then Some \<lparr>ro_upward = up, ro_downward = down, ro_queue = fst c, ro_reading = snd c\<rparr> else r"
  let ?P = "\<lambda>r. \<forall>o1. r = Some o1 \<longrightarrow> (ro_queue o1, ro_reading o1) \<in> set cs \<and>
      ro_upward o1 = classify rule (rg_value (ro_reading o1)) \<and> ro_upward o1 \<le> ro_downward o1"
  have margin0: "classify_rule_with_margin rule v 0 = classify rule v" for v
    by (simp add: classify_rule_with_margin_def classify_def rule_shape_def)
  have "?P (foldl ?f None cs)"
    by (rule foldl_invariant_set [where P = ?P])
      (auto simp: Let_def margin0 classify_margin_ge)
  with assms show "(ro_queue o1, ro_reading o1) \<in> set cs"
    "ro_upward o1 = classify rule (rg_value (ro_reading o1))" "ro_upward o1 \<le> ro_downward o1"
    by (auto simp: rule_outcome_def)
qed

text \<open>Bindings: every one is a fresh reading classified by a rule of the policy.\<close>

definition binding_ok :: "CongestionPolicy \<Rightarrow> Tick \<Rightarrow> ThresholdBinding \<Rightarrow> bool" where
  "binding_ok policy now b \<longleftrightarrow>
     (\<exists>rule \<in> set (po_rules policy). tb_metric b = tr_metric rule \<and>
        tb_level b = classify rule (tb_value b)) \<and>
     ta_within (tick_age now (tb_observed_tick b)) (max_age_for policy (tb_metric b))"

definition bindings_ok :: "CongestionPolicy \<Rightarrow> Tick \<Rightarrow> EvidenceVector \<Rightarrow> bool" where
  "bindings_ok policy now ev \<longleftrightarrow> (\<forall>b \<in> set (ev_bindings ev). binding_ok policy now b) \<and>
     length (ev_bindings ev) \<le> unat (pl_max_explanation_entries (po_limits policy))"

lemma classify_rule_bindings:
  assumes "bindings_ok policy now (cl_evidence cl)" and "chosen_fresh policy now dt"
    and "rule \<in> set (po_rules policy)"
  shows "bindings_ok policy now (cl_evidence (classify_rule policy dt resource rule cl))"
proof -
  have "binding_ok policy now (threshold_binding resource rule o1)"
    if "rule_outcome policy rule (readings_of dt resource (tr_metric rule)) = Some o1" for o1
  proof -
    note ro = rule_outcome_Some [OF that]
    from ro(1) obtain q where "((resource, q, tr_metric rule), ro_reading o1) \<in> set (dt_chosen dt)"
      by (auto simp: readings_of_def)
    with assms(2) have "reading_fresh policy now (tr_metric rule) (ro_reading o1)"
      by (auto simp: chosen_fresh_def)
    with ro(2) assms(3) show ?thesis
      by (auto simp: binding_ok_def threshold_binding_def reading_fresh_def)
  qed
  with assms(1) show ?thesis
    by (auto simp: classify_rule_def Let_def bindings_ok_def split: option.splits)
qed

lemma assess_all_bindings:
  assumes "chosen_fresh policy now dt" and "ev_bindings (dt_evidence dt) = []"
  shows "bindings_ok policy now (at_evidence (assess_all policy dt resources))"
  unfolding assess_all_def
proof (rule fold_invariant_set [where P = "\<lambda>a. bindings_ok policy now (at_evidence a)"])
  fix resource and a :: AssessState
  assume "bindings_ok policy now (at_evidence a)"
  then have "bindings_ok policy now (cl_evidence (fold (classify_rule policy dt resource) (po_rules policy)
      (new_class_state resource (at_evidence a))))"
    by (intro fold_invariant_set [where P = "\<lambda>cl. bindings_ok policy now (cl_evidence cl)"])
      (auto intro: classify_rule_bindings assms simp: new_class_state_def)
  then show "bindings_ok policy now (at_evidence (assess_resource policy dt resource a))"
    by (simp add: assess_resource_def Let_def)
qed (simp add: bindings_ok_def assms(2))

lemma raise_edge_evidence [simp]: "at_evidence (fold (raise_edge scope) es a) = at_evidence a"
  by (rule fold_invariant_set [where P = "\<lambda>s. at_evidence s = at_evidence a"])
    (simp_all add: raise_edge_def Let_def)

lemma propagate_domain_bindings:
  "propagate_domain policy context resources a = Inr a' \<Longrightarrow>
   ev_bindings (at_evidence a') = ev_bindings (at_evidence a)"
  by (auto simp: propagate_domain_def Let_def split: option.splits if_splits sum.splits)

lemma admit_metric_bindings [simp]:
  "ev_bindings (am_evidence (fst (admit_metric policy now sample snapshot metric st))) =
   ev_bindings (am_evidence (fst st))"
  by (cases st) (auto simp: admit_metric_def Let_def split: option.splits)

lemma fold_admit_metric_bindings [simp]:
  "ev_bindings (am_evidence (fst (fold (admit_metric policy now sample snapshot) ms st))) =
   ev_bindings (am_evidence (fst st))"
  by (induction ms arbitrary: st) simp_all

lemma note_accepted_bindings [simp]: "ev_bindings (note_accepted t ev) = ev_bindings ev"
  by (simp add: note_accepted_def Let_def)

lemma admit_all_bindings: "ev_bindings (am_evidence (admit_all policy context now scope samples ev)) = ev_bindings ev"
  unfolding admit_all_def
  by (rule fold_invariant_set [where P = "\<lambda>am. ev_bindings (am_evidence am) = ev_bindings ev"])
    (auto simp: admit_sample_def bump_rejected_def Let_def case_prod_beta)

lemma detect_all_bindings: "ev_bindings (dt_evidence (detect_all policy am)) = ev_bindings (am_evidence am)"
  unfolding detect_all_def
  by (rule foldl_invariant_set [where P = "\<lambda>dt. ev_bindings (dt_evidence dt) = ev_bindings (am_evidence am)"])
    (auto simp: detect_key_def Let_def split: prod.splits)

lemma evaluate_Inr:
  assumes "evaluate request prior context = Inr outcome"
  obtains policy resources a where "cx_policy context = Some policy"
    and "eval_scope request context policy = Inr resources"
    and "assess_domain request context policy resources = Inr a"
    and "outcome = conclude request context policy prior resources a"
  using assms by (auto simp: evaluate_def split: option.splits if_splits sum.splits)

lemma conclude_bindings [simp]:
  "ev_bindings (eo_evidence (conclude request context policy prior resources a)) = ev_bindings (at_evidence a)"
  by (simp add: conclude_def Let_def list_assessments_def split: prod.splits)

lemma assess_domain_bindings:
  assumes "assess_domain request context policy resources = Inr a"
  shows "bindings_ok policy (rq_now request) (at_evidence a)"
proof -
  let ?am = "admit_all policy context (rq_now request) resources (eb_samples (rq_evidence request))
      (initial_evidence request)"
  have "bindings_ok policy (rq_now request) (at_evidence (assess_all policy (detect_all policy ?am) resources))"
    by (rule assess_all_bindings)
      (simp_all add: detect_all_fresh admit_all_fresh detect_all_bindings admit_all_bindings initial_evidence_def)
  with assms show ?thesis
    by (auto simp: assess_domain_def Let_def bindings_ok_def dest!: propagate_domain_bindings)
qed

text \<open>C10: no stale reading ever reaches a threshold. Every binding an evaluation reports comes from a rule
  of the installed policy, at the level that rule classifies the value, and the observation tick it records is
  not after the evaluation's tick and not older than the age the policy allows for that metric; and the number
  of bindings stays within the explanation bound. (A sample whose tick is ahead of the evaluation by no more than the allowed
  skew is admitted with its tick clamped to the evaluation's.)\<close>

theorem evaluate_binds_fresh_readings:
  assumes "evaluate request prior context = Inr outcome" and "cx_policy context = Some policy"
  shows "(\<forall>b \<in> set (ev_bindings (eo_evidence outcome)).
      (\<exists>rule \<in> set (po_rules policy). tb_metric b = tr_metric rule \<and>
         tb_level b = classify rule (tb_value b)) \<and>
      ta_within (tick_age (rq_now request) (tb_observed_tick b)) (max_age_for policy (tb_metric b))) \<and>
    length (ev_bindings (eo_evidence outcome)) \<le> unat (pl_max_explanation_entries (po_limits policy))"
proof -
  from assms(1) obtain policy' resources a where e: "cx_policy context = Some policy'"
    "eval_scope request context policy' = Inr resources"
    "assess_domain request context policy' resources = Inr a"
    "outcome = conclude request context policy' prior resources a"
    by (rule evaluate_Inr)
  with assms(2) assess_domain_bindings [OF e(3)] show ?thesis
    by (auto simp: bindings_ok_def binding_ok_def)
qed

section \<open>Corroboration\<close>

text \<open>A rule supports a level on a resource when its selected reading classifies at or above it.\<close>

definition supports :: "CongestionPolicy \<Rightarrow> DetectState \<Rightarrow> ResourceId \<Rightarrow> Severity \<Rightarrow> ThresholdRule \<Rightarrow> bool" where
  "supports policy dt resource level rule \<longleftrightarrow>
     (resource, tr_metric rule) \<notin> set (dt_unresolved dt) \<and>
     (case rule_outcome policy rule (readings_of dt resource (tr_metric rule)) of
        None \<Rightarrow> False | Some o1 \<Rightarrow> level \<le> ro_upward o1)"

definition support_count :: "CongestionPolicy \<Rightarrow> DetectState \<Rightarrow> ResourceId \<Rightarrow> Severity \<Rightarrow> ThresholdRule list \<Rightarrow> nat" where
  "support_count policy dt resource level rules = length (filter (supports policy dt resource level) rules)"

lemma classify_rule_tally:
  "cl_agree_watch (classify_rule policy dt resource rule cl) =
     cl_agree_watch cl + of_bool (supports policy dt resource Sev_Watch rule)"
  "cl_agree_congested (classify_rule policy dt resource rule cl) =
     cl_agree_congested cl + of_bool (supports policy dt resource Sev_Congested rule)"
  "cl_agree_severe (classify_rule policy dt resource rule cl) =
     cl_agree_severe cl + of_bool (supports policy dt resource Sev_Severe rule)"
  by (auto simp: classify_rule_def supports_def Let_def bump_level_def less_eq_Severity_def
      split: option.splits)

lemma fold_classify_tally:
  "cl_agree_watch (fold (classify_rule policy dt resource) rules cl) =
     cl_agree_watch cl + of_nat (support_count policy dt resource Sev_Watch rules)"
  "cl_agree_congested (fold (classify_rule policy dt resource) rules cl) =
     cl_agree_congested cl + of_nat (support_count policy dt resource Sev_Congested rules)"
  "cl_agree_severe (fold (classify_rule policy dt resource) rules cl) =
     cl_agree_severe cl + of_nat (support_count policy dt resource Sev_Severe rules)"
  by (induction rules arbitrary: cl) (auto simp: classify_rule_tally support_count_def)

text \<open>The gated severity of a resource, as a function of the support counts alone.\<close>

definition gated :: "CongestionPolicy \<Rightarrow> DetectState \<Rightarrow> ResourceId \<Rightarrow> Severity" where
  "gated policy dt resource =
     gate_severity (of_nat (support_count policy dt resource Sev_Watch (po_rules policy)))
       (of_nat (support_count policy dt resource Sev_Congested (po_rules policy)))
       (of_nat (support_count policy dt resource Sev_Severe (po_rules policy))) policy"

lemma class_up_gated:
  "class_up policy (fold (classify_rule policy dt resource) (po_rules policy) (new_class_state resource ev)) =
   gated policy dt resource"
  by (simp add: class_up_def gated_def fold_classify_tally new_class_state_def)

lemma class_up_le_down: "class_up policy cl \<le> class_down policy cl"
  by (auto simp: class_down_def Let_def)

definition assess_inv :: "CongestionPolicy \<Rightarrow> DetectState \<Rightarrow> ResourceId list \<Rightarrow> AssessState \<Rightarrow> bool" where
  "assess_inv policy dt done a \<longleftrightarrow>
     om_inv (at_assessments a) \<and> om_inv (at_up a) \<and> om_inv (at_down a) \<and>
     (\<forall>r. map_of (at_up a) r = (if r \<in> set done then Some (gated policy dt r) else None)) \<and>
     (\<forall>r. sev_at (at_up a) r \<le> sev_at (at_down a) r) \<and>
     (\<forall>r \<in> set done. \<forall>rule \<in> set (po_rules policy). (r, tr_metric rule) \<in> set (dt_unresolved dt) \<longrightarrow>
        (\<exists>asm. map_of (at_assessments a) r = Some asm \<and> ra_contradictory asm))"

lemma note_reading_contradictory [simp]:
  "ra_contradictory (note_reading b reading asm) = ra_contradictory asm"
  by (simp add: note_reading_def Let_def)

lemma classify_rule_contradictory:
  "ra_contradictory (cl_assessment (classify_rule policy dt resource rule cl)) \<longleftrightarrow>
   ra_contradictory (cl_assessment cl) \<or> (resource, tr_metric rule) \<in> set (dt_unresolved dt)"
  by (auto simp: classify_rule_def Let_def split: option.splits)

lemma fold_classify_contradictory:
  "ra_contradictory (cl_assessment (fold (classify_rule policy dt resource) rules cl)) \<longleftrightarrow>
   ra_contradictory (cl_assessment cl) \<or>
   (\<exists>rule \<in> set rules. (resource, tr_metric rule) \<in> set (dt_unresolved dt))"
  by (induction rules arbitrary: cl) (auto simp: classify_rule_contradictory)

lemma assess_resource_inv:
  assumes "assess_inv policy dt done a"
  shows "assess_inv policy dt (done @ [r]) (assess_resource policy dt r a)"
proof -
  let ?cl = "fold (classify_rule policy dt r) (po_rules policy) (new_class_state r (at_evidence a))"
  have up: "at_up (assess_resource policy dt r a) = om_put r (gated policy dt r) (at_up a)"
    by (simp add: assess_resource_def Let_def class_up_gated)
  have down: "at_down (assess_resource policy dt r a) = om_put r (class_down policy ?cl) (at_down a)"
    by (simp add: assess_resource_def Let_def)
  have le: "gated policy dt r \<le> class_down policy ?cl"
    using class_up_le_down [of policy ?cl] by (simp add: class_up_gated)
  obtain asm where asm: "at_assessments (assess_resource policy dt r a) = om_put r asm (at_assessments a)"
    "ra_contradictory asm = ra_contradictory (cl_assessment ?cl)"
    by (simp add: assess_resource_def Let_def)
  have contra: "\<And>rule. rule \<in> set (po_rules policy) \<Longrightarrow> (r, tr_metric rule) \<in> set (dt_unresolved dt) \<Longrightarrow>
      ra_contradictory asm"
    by (auto simp: asm(2) fold_classify_contradictory)
  note inv = assms [unfolded assess_inv_def]
  have maps: "om_inv (at_assessments a)" "om_inv (at_up a)" "om_inv (at_down a)" using inv by blast+
  have "sev_at (at_up a) x \<le> sev_at (at_down a) x" for x using inv by blast
  then have "sev_at (om_put r (gated policy dt r) (at_up a)) x \<le>
      sev_at (om_put r (class_down policy ?cl) (at_down a)) x" for x
    using le unfolding sev_at_def by (cases "x = r") (simp_all add: om_find_put maps)
  with inv contra show ?thesis
    unfolding assess_inv_def up down asm(1) by (auto simp: om_inv_put om_find_put maps)
qed

lemma assess_all_inv: "assess_inv policy dt resources (assess_all policy dt resources)"
proof (induction resources rule: rev_induct)
  case Nil
  then show ?case by (simp add: assess_all_def assess_inv_def sev_at_def)
next
  case (snoc r resources)
  then show ?case by (simp add: assess_all_def assess_resource_inv)
qed

lemma support_count_le: "support_count policy dt r level rules \<le> length rules"
  by (simp add: support_count_def)

lemma support_count_antimono:
  "level \<le> level' \<Longrightarrow> support_count policy dt r level' rules \<le> support_count policy dt r level rules"
  unfolding support_count_def supports_def
  by (induction rules) (auto split: option.splits)

text \<open>C9: corroboration. On a validated policy, a resource is raised to a congested or severe level by the
  evidence only if at least one rule, and at least as many distinct rules as the gate of that level
  asks for, each independently classify their selected reading at or above it. No single metric
  can exceed what its gate permits.\<close>

theorem severity_is_corroborated:
  assumes "validate_policy policy = Inr policy" and "r \<in> set resources"
  shows "(Sev_Congested \<le> sev_at (at_up (assess_all policy dt resources)) r \<longrightarrow>
      max 1 (unat (po_min_agreeing_rules_for_congested policy)) \<le>
        support_count policy dt r Sev_Congested (po_rules policy)) \<and>
    (Sev_Severe \<le> sev_at (at_up (assess_all policy dt resources)) r \<longrightarrow>
      max 1 (unat (po_min_agreeing_rules_for_severe policy)) \<le>
        support_count policy dt r Sev_Severe (po_rules policy))"
proof -
  let ?n = "\<lambda>level. support_count policy dt r level (po_rules policy)"
  have len: "length (po_rules policy) \<le> kMaxThresholdRules" and gates: "validate_gates policy = Inr ()"
    using assms(1) unfolding validate_policy_Inr by blast+
  have n: "unat (of_nat (?n level) :: u32) = ?n level" for level
    using support_count_le [of policy dt r level "po_rules policy"] len
    by (simp add: unat_of_nat kMaxThresholdRules_def)
  have up: "sev_at (at_up (assess_all policy dt resources)) r = gated policy dt r"
    using assess_all_inv [of policy dt resources] assms(2) by (simp add: assess_inv_def sev_at_def)
  have anti: "?n Sev_Severe \<le> ?n Sev_Congested" by (rule support_count_antimono) simp
  show ?thesis
    unfolding up gated_def gate_severity_def
    using validate_gates_Inr [OF gates len] anti
    by (auto simp: word_le_nat_alt word_less_nat_alt word_neq_0_conv n)
qed

section \<open>Contradictions and the proposal\<close>

text \<open>What the propagation stage keeps: contradictions, and the order of the two severities.\<close>

definition domain_inv :: "AssessState \<Rightarrow> bool" where
  "domain_inv a \<longleftrightarrow> om_inv (at_assessments a) \<and> om_inv (at_up a) \<and> om_inv (at_down a) \<and>
     (\<forall>r. sev_at (at_up a) r \<le> sev_at (at_down a) r)"

definition contradicted :: "AssessState \<Rightarrow> ResourceId \<Rightarrow> bool" where
  "contradicted a r \<longleftrightarrow> (\<exists>asm. map_of (at_assessments a) r = Some asm \<and> ra_contradictory asm)"

lemma raise_edge_inv:
  assumes "domain_inv a"
  shows "domain_inv (raise_edge scope edge a)" and "contradicted a r \<Longrightarrow> contradicted (raise_edge scope edge a) r"
proof -
  note inv = assms [unfolded domain_inv_def]
  have maps: "om_inv (at_assessments a)" "om_inv (at_up a)" "om_inv (at_down a)" using inv by blast+
  have le: "sev_at (at_up a) x \<le> sev_at (at_down a) x" for x using inv by blast
  have "sev_at (om_put k u (at_up a)) x \<le> sev_at (om_put k v (at_down a)) x" if "u \<le> v" for k u v x
    using le [of x] that unfolding sev_at_def by (cases "x = k") (simp_all add: om_find_put maps)
  moreover have "(if sev_at (at_up a) x < i then i else sev_at (at_up a) x) \<le>
      (if sev_at (at_down a) x < i then i else sev_at (at_down a) x)" for x i
    using le [of x] by (auto simp: not_less intro: order.trans less_imp_le)
  ultimately show "domain_inv (raise_edge scope edge a)"
    using inv by (simp add: raise_edge_def Let_def domain_inv_def om_inv_put)
  show "contradicted (raise_edge scope edge a) r" if "contradicted a r"
    using that by (auto simp: contradicted_def raise_edge_def Let_def om_find_put maps split: option.splits)
qed

lemma raise_edge_ungated [simp]: "at_ungated (raise_edge scope edge a) = at_ungated a"
  by (simp add: raise_edge_def Let_def)

lemma propagate_domain_inv:
  assumes "propagate_domain policy context resources a = Inr a'" and "domain_inv a"
  shows "domain_inv a'" and "contradicted a r \<Longrightarrow> contradicted a' r" and "at_ungated a' = at_ungated a"
proof -
  have fold: "domain_inv (fold (raise_edge resources) es a) \<and>
      (contradicted a r \<longrightarrow> contradicted (fold (raise_edge resources) es a) r) \<and>
      at_ungated (fold (raise_edge resources) es a) = at_ungated a" for es
    by (rule fold_invariant_set [where P = "\<lambda>s. domain_inv s \<and> (contradicted a r \<longrightarrow> contradicted s r) \<and>
        at_ungated s = at_ungated a"])
      (use assms(2) in \<open>auto simp: raise_edge_inv\<close>)
  have ev: "domain_inv (s\<lparr>at_evidence := e\<rparr>) = domain_inv s" "contradicted (s\<lparr>at_evidence := e\<rparr>) r = contradicted s r"
    for s e by (simp_all add: domain_inv_def contradicted_def)
  from assms show "domain_inv a'" "contradicted a r \<Longrightarrow> contradicted a' r" "at_ungated a' = at_ungated a"
    using fold
    by (auto simp: propagate_domain_def Let_def ev split: option.splits if_splits sum.splits)
qed

lemma aggregate_conflict:
  assumes "contradicted a r" and "r \<in> set resources"
  shows "ag_any_conflict (aggregate a resources)"
proof -
  have keep: "ag_any_conflict g \<Longrightarrow> ag_any_conflict (fold (aggregate_resource a) rs g)" for g rs
    by (rule fold_invariant_set [where P = ag_any_conflict]) (auto simp: aggregate_resource_def Let_def)
  from assms(2) obtain xs ys where "resources = xs @ r # ys" by (meson split_list)
  moreover have "ag_any_conflict (aggregate_resource a r g)" for g
    using assms(1) by (auto simp: aggregate_resource_def Let_def contradicted_def)
  ultimately show ?thesis by (simp add: aggregate_def keep)
qed

lemma aggregate_ordered:
  assumes "domain_inv a"
  shows "ag_up (aggregate a resources) \<le> ag_down (aggregate a resources)"
  unfolding aggregate_def
  by (rule fold_invariant_set [where P = "\<lambda>g. ag_up g \<le> ag_down g"])
    (use assms in \<open>auto simp: aggregate_resource_def Let_def domain_inv_def max_def intro: order.trans\<close>)

lemma assess_all_domain_inv:
  "domain_inv (assess_all policy dt resources)"
  "r \<in> set resources \<Longrightarrow> rule \<in> set (po_rules policy) \<Longrightarrow> (r, tr_metric rule) \<in> set (dt_unresolved dt) \<Longrightarrow>
   contradicted (assess_all policy dt resources) r"
  using assess_all_inv [of policy dt resources]
  by (auto simp: assess_inv_def domain_inv_def contradicted_def)

lemma detect_key_unresolved:
  "set (dt_unresolved (detect_key policy dt entry)) =
     set (dt_unresolved dt) \<union>
     (if per_publisher_best (snd entry) \<noteq> [] \<and> cp_mode (po_contradiction policy) = CM_Reject \<and>
         disagreement (po_contradiction policy) (per_publisher_best (snd entry))
      then {(fst (fst entry), snd (snd (fst entry)))} else {})"
  by (auto simp: detect_key_def Let_def split: prod.splits)

lemma detect_all_unresolved:
  assumes "entry \<in> set (am_readings am)" and "per_publisher_best (snd entry) \<noteq> []"
    and "cp_mode (po_contradiction policy) = CM_Reject"
    and "disagreement (po_contradiction policy) (per_publisher_best (snd entry))"
  shows "(fst (fst entry), snd (snd (fst entry))) \<in> set (dt_unresolved (detect_all policy am))"
proof -
  let ?x = "(fst (fst entry), snd (snd (fst entry)))"
  have keep: "?x \<in> set (dt_unresolved dt) \<Longrightarrow> ?x \<in> set (dt_unresolved (foldl (detect_key policy) dt es))" for dt es
    by (rule foldl_invariant_set [where P = "\<lambda>dt. ?x \<in> set (dt_unresolved dt)"])
      (simp_all add: detect_key_unresolved)
  from assms(1) obtain xs ys where "am_readings am = xs @ entry # ys" by (meson split_list)
  then show ?thesis
    unfolding detect_all_def using assms(2-4) by (simp add: keep detect_key_unresolved)
qed

lemma per_publisher_best_nonempty:
  assumes "bucket \<noteq> []"
  shows "per_publisher_best bucket \<noteq> []"
proof -
  let ?f = "\<lambda>m reading. case map_of m (rg_publisher reading) of
      None \<Rightarrow> om_put (rg_publisher reading) reading m
    | Some found \<Rightarrow> if reading_better reading found then om_put (rg_publisher reading) reading m else m"
  have put: "om_put k v m \<noteq> []" for k :: u64 and v :: Reading and m by (cases m) auto
  from assms obtain xs x where "bucket = xs @ [x]" by (metis rev_exhaust)
  moreover have "?f m x \<noteq> []" for m using put by (auto split: option.splits)
  ultimately show ?thesis by (simp add: per_publisher_best_def)
qed

text \<open>Every admitted bucket belongs to a rule metric of a resource in scope and holds a reading.\<close>

definition key_ok :: "CongestionPolicy \<Rightarrow> ResourceId list \<Rightarrow> ReadingKey \<times> Reading list \<Rightarrow> bool" where
  "key_ok policy scope e \<longleftrightarrow> snd (snd (fst e)) \<in> tr_metric ` set (po_rules policy) \<and>
     fst (fst e) \<in> set scope \<and> snd e \<noteq> []"

lemma admit_metric_keys:
  assumes "\<forall>e \<in> set (am_readings (fst st)). key_ok policy scope e"
    and "metric \<in> set (rule_metrics policy)" and "es_resource sample \<in> set scope"
  shows "\<forall>e \<in> set (am_readings (fst (admit_metric policy now sample snapshot metric st))). key_ok policy scope e"
proof -
  let ?key = "(es_resource sample, es_queue sample, metric)"
  have ok: "key_ok policy scope (?key, b)" if "b \<noteq> []" for b
    using assms(2,3) that by (simp add: key_ok_def rule_metrics_def)
  have full: "key_ok policy scope (?key, b)" if "kMaxContradictionPeers \<le> length b" for b
    using that by (intro ok) (auto simp: kMaxContradictionPeers_def)
  have full0: "\<not> kMaxContradictionPeers \<le> length ([] :: Reading list)"
    by (simp add: kMaxContradictionPeers_def)
  show ?thesis
    using assms(1) full full0
    by (cases st) (auto simp: admit_metric_def Let_def ok split: option.splits dest!: om_put_mem)
qed

lemma admit_sample_keys:
  assumes "\<forall>e \<in> set (am_readings am). key_ok policy scope e"
  shows "\<forall>e \<in> set (am_readings (admit_sample policy context now scope sample am)). key_ok policy scope e"
proof -
  have "\<forall>e \<in> set (am_readings (fst (fold (admit_metric policy now sample x) (rule_metrics policy)
      (am\<lparr>am_seen := x # am_seen am\<rparr>, False, False)))). key_ok policy scope e"
    if "es_resource sample \<in> set scope" for x
    by (rule fold_invariant_set [where P = "\<lambda>st. \<forall>e \<in> set (am_readings (fst st)). key_ok policy scope e"])
      (use assms that admit_metric_keys in \<open>blast, simp\<close>)
  with assms show ?thesis
    by (auto simp: admit_sample_def bump_rejected_def Let_def case_prod_beta)
qed

lemma admit_all_keys:
  "\<forall>e \<in> set (am_readings (admit_all policy context now scope samples ev)). key_ok policy scope e"
  unfolding admit_all_def
  by (rule fold_invariant_set [where P = "\<lambda>am. \<forall>e \<in> set (am_readings am). key_ok policy scope e"])
    (use admit_sample_keys in blast, simp)

lemma assess_domain_inv:
  assumes "assess_domain request context policy resources = Inr a"
  shows "domain_inv a"
  using assms propagate_domain_inv(1) assess_all_domain_inv(1) by (auto simp: assess_domain_def Let_def)

lemma assess_domain_contradicted:
  assumes "assess_domain request context policy resources = Inr a"
    and "entry \<in> set (am_readings (admit_all policy context (rq_now request) resources
           (eb_samples (rq_evidence request)) (initial_evidence request)))"
    and "cp_mode (po_contradiction policy) = CM_Reject"
    and "disagreement (po_contradiction policy) (per_publisher_best (snd entry))"
  shows "\<exists>r \<in> set resources. contradicted a r"
proof -
  let ?am = "admit_all policy context (rq_now request) resources (eb_samples (rq_evidence request))
      (initial_evidence request)"
  have ok: "key_ok policy resources entry" using assms(2) admit_all_keys by blast
  then have "per_publisher_best (snd entry) \<noteq> []"
    by (simp add: key_ok_def per_publisher_best_nonempty)
  from detect_all_unresolved [OF assms(2) this assms(3,4)]
  have un: "(fst (fst entry), snd (snd (fst entry))) \<in> set (dt_unresolved (detect_all policy ?am))" .
  from ok obtain rule where rule: "rule \<in> set (po_rules policy)" "snd (snd (fst entry)) = tr_metric rule"
    and r: "fst (fst entry) \<in> set resources" by (auto simp: key_ok_def)
  have c: "contradicted (assess_all policy (detect_all policy ?am) resources) (fst (fst entry))"
    using assess_all_domain_inv(2) [OF r rule(1)] un rule(2) by simp
  have pd: "propagate_domain policy context resources
      (assess_all policy (detect_all policy ?am) resources) = Inr a"
    using assms(1) by (simp add: assess_domain_def Let_def)
  show ?thesis
    by (rule bexI [OF _ r]) (rule propagate_domain_inv(2) [OF pd assess_all_domain_inv(1) c])
qed

text \<open>C8: contradictory evidence is never merged away. Under the rejecting contradiction policy, if the
  admitted readings of any metric on any resource in scope disagree between publishers beyond the
  tolerance, the outcome is not authoritative. If the clock has not gone back behind the last evaluation or the last change
  of the domain, the evaluation puts the domain into the conflict state and reports contradictory evidence; if it has,
  the state stays as it was, without a transition, and the reported reason is the tick regression.\<close>

theorem contradiction_yields_conflict:
  assumes "evaluate request prior context = Inr outcome" and "cx_policy context = Some policy"
    and "eval_scope request context policy = Inr resources"
    and "cp_mode (po_contradiction policy) = CM_Reject"
    and "entry \<in> set (am_readings (admit_all policy context (rq_now request) resources
           (eb_samples (rq_evidence request)) (initial_evidence request)))"
    and "disagreement (po_contradiction policy) (per_publisher_best (snd entry))"
  shows "\<not> eo_authoritative outcome \<and>
    (if tick_regression prior (rq_now request)
     then eo_state outcome = ds_state prior \<and> \<not> eo_transitioned outcome \<and> eo_reason_code outcome = ''tick-regression''
     else eo_state outcome = St_Conflict \<and> eo_reason_code outcome = ''contradictory-evidence'')"
proof -
  from assms(1-3) obtain a where a: "assess_domain request context policy resources = Inr a"
    "outcome = conclude request context policy prior resources a"
    by (auto elim!: evaluate_Inr)
  from assess_domain_contradicted [OF a(1) assms(5,4,6)] obtain r where
    "r \<in> set resources" "contradicted a r" by blast
  then have conflict: "ag_any_conflict (aggregate a resources)" by (intro aggregate_conflict)
  have same: "tick_regression (rebind_state request context policy prior) (rq_now request) \<longleftrightarrow>
      tick_regression prior (rq_now request)" "ds_state (rebind_state request context policy prior) = ds_state prior"
    by (simp_all add: tick_regression_def rebind_state_def)
  show ?thesis
  proof (cases "tick_regression prior (rq_now request)")
    case True
    with conflict same show ?thesis
      by (auto simp: a(2) conclude_def hysteresis_step_def Let_def reason_code_def split: prod.splits)
  next
    case False
    with conflict same(1) show ?thesis
      by (auto simp: a(2) conclude_def make_proposal_def no_value_proposal_def hysteresis_step_def
          refuse_step_def Let_def indeterminate_target_def is_indeterminate_def reason_code_def
          split: prod.splits)
  qed
qed

text \<open>The severity that must be cleared before a downgrade is never below the severity that supports an
  escalation: every proposal the evaluator hands to the hysteresis has its downward severity at or
  above its upward one, after gating, propagation, aggregation and the coverage floor. One proposal
  therefore never argues for a rise and a fall at once.\<close>

theorem proposal_ordered:
  assumes "assess_domain request context policy resources = Inr a"
  shows "sp_upward (fst (make_proposal policy prior (at_ungated a) (aggregate a resources))) \<le>
    sp_downward (fst (make_proposal policy prior (at_ungated a) (aggregate a resources)))"
  using aggregate_ordered [OF assess_domain_inv [OF assms], of resources]
  by (auto simp: make_proposal_def no_value_proposal_def Let_def not_less intro: order.trans)

section \<open>A worked evaluation\<close>

text \<open>One resource, one rule metric, two publishers; the second reports the utilization given.\<close>

definition demo_sample :: "PublisherId \<Rightarrow> u64 \<Rightarrow> EvidenceSample" where
  "demo_sample publisher value =
     \<lparr>es_resource = 5, es_queue = 0,
      es_metrics = [\<lparr>mr_kind = MK_UtilizationPpm, mr_value = value\<rparr>],
      es_publisher = publisher, es_publisher_boot = 1, es_epoch = 1, es_generation = 1,
      es_sequence = 1, es_observed_tick = 90, es_received_tick = 95, es_provenance = 1,
      es_snapshot = publisher, es_flags = 0\<rparr>"

definition demo_authority :: AuthorityVector where
  "demo_authority =
     \<lparr>av_epoch = 1, av_generation = 1, av_policy = 1, av_policy_fingerprint = 1,
      av_coordinator_boot = 1, av_granted = 0xFF, av_denied = 0, av_issued_tick = 1,
      av_expires_tick = 1000, av_provenance = 1\<rparr>"

definition demo_request :: "u64 \<Rightarrow> EvaluationRequest" where
  "demo_request v =
     \<lparr>rq_domain = 7,
      rq_evidence = \<lparr>eb_id = 1, eb_epoch = 1, eb_provenance = 1, eb_submitted_tick = 95,
                     eb_samples = [demo_sample 1 700000, demo_sample 2 v]\<rparr>,
      rq_epoch = 1, rq_authority = demo_authority, rq_now = 100, rq_only_resource = 0\<rparr>"

definition demo_context :: EvaluationContext where
  "demo_context =
     \<lparr>cx_policy = Some default_policy_body, cx_topology = None, cx_capacity = None, cx_epoch = 1,
      cx_authority = demo_authority, cx_now = 100, cx_max_samples_per_batch = 10\<rparr>"

lemma demo_scope: "eval_scope (demo_request v) demo_context default_policy_body = Inr [5]"
  by code_simp

definition demo_assessed :: "u64 \<Rightarrow> AssessState" where
  "demo_assessed v =
     assess_all default_policy_body
       (detect_all default_policy_body
         (admit_all default_policy_body demo_context 100 [5] (eb_samples (rq_evidence (demo_request v)))
           (initial_evidence (demo_request v)))) [5]"

lemma demo_assess: "assess_domain (demo_request v) demo_context default_policy_body [5] = Inr (demo_assessed v)"
  by (simp add: assess_domain_def demo_assessed_def propagate_domain_def Let_def demo_context_def
      demo_request_def)

lemma demo_evaluate:
  "evaluate (demo_request v) initial_domain_state demo_context =
     Inr (conclude (demo_request v) demo_context default_policy_body initial_domain_state [5] (demo_assessed v))"
  using demo_scope demo_assess
  by (simp add: evaluate_def demo_context_def demo_request_def id_valid_def kNoTick_def)

lemma demo_readings:
  "am_readings (admit_all default_policy_body demo_context 100 [5] (eb_samples (rq_evidence (demo_request 900000)))
     (initial_evidence (demo_request 900000))) =
   [((5, 0, MK_UtilizationPpm),
     [sample_reading (demo_sample 1 700000) 1 700000 100, sample_reading (demo_sample 2 900000) 2 900000 100])]"
  by code_simp

lemma demo_disagreement:
  "disagreement (po_contradiction default_policy_body) (per_publisher_best
     [sample_reading (demo_sample 1 700000) 1 700000 100, sample_reading (demo_sample 2 900000) 2 900000 100])"
  by code_simp


theorem evaluate_binds_fresh_readings_witness:
  "\<exists>outcome. evaluate (demo_request 705000) initial_domain_state demo_context = Inr outcome \<and>
     map tb_value (ev_bindings (eo_evidence outcome)) = [700000] \<and>
     (\<forall>b \<in> set (ev_bindings (eo_evidence outcome)).
        ta_within (tick_age 100 (tb_observed_tick b)) (max_age_for default_policy_body (tb_metric b)))"
proof -
  have "map tb_value (ev_bindings (at_evidence (demo_assessed 705000))) = [700000]"
    by code_simp
  moreover have "cx_policy demo_context = Some default_policy_body" by (simp add: demo_context_def)
  moreover have "rq_now (demo_request 705000) = 100" by (simp add: demo_request_def)
  ultimately show ?thesis
    using evaluate_binds_fresh_readings [OF demo_evaluate [of 705000]] by (auto simp: demo_evaluate)
qed

theorem contradiction_yields_conflict_witness:
  "\<exists>outcome. evaluate (demo_request 900000) initial_domain_state demo_context = Inr outcome \<and>
     eo_state outcome = St_Conflict \<and> \<not> eo_authoritative outcome"
proof -
  have "\<not> tick_regression initial_domain_state (rq_now (demo_request 900000))"
    by (simp add: tick_regression_def initial_domain_state_def)
  moreover have "cp_mode (po_contradiction default_policy_body) = CM_Reject"
    by (simp add: default_policy_body_def)
  ultimately show ?thesis
    using contradiction_yields_conflict [OF demo_evaluate _ demo_scope,
        where entry = "((5, 0, MK_UtilizationPpm),
          [sample_reading (demo_sample 1 700000) 1 700000 100, sample_reading (demo_sample 2 900000) 2 900000 100])"]
      demo_disagreement demo_readings demo_evaluate
    by (simp add: demo_context_def demo_request_def)
qed

theorem proposal_ordered_witness:
  "sp_upward (fst (make_proposal default_policy_body initial_domain_state (at_ungated (demo_assessed 705000))
     (aggregate (demo_assessed 705000) [5]))) = Sev_Watch \<and>
   Sev_Watch \<le> sp_downward (fst (make_proposal default_policy_body initial_domain_state
     (at_ungated (demo_assessed 705000)) (aggregate (demo_assessed 705000) [5])))"
proof -
  have "sp_upward (fst (make_proposal default_policy_body initial_domain_state (at_ungated (demo_assessed 705000))
     (aggregate (demo_assessed 705000) [5]))) = Sev_Watch"
    by code_simp
  with proposal_ordered [OF demo_assess [of 705000], of initial_domain_state] show ?thesis by simp
qed

definition demo_detected :: DetectState where
  "demo_detected =
     \<lparr>dt_evidence = initial_evidence (demo_request 900000),
      dt_chosen =
        [((5, 0, MK_UtilizationPpm), sample_reading (demo_sample 1 960000) 1 960000 100),
         ((5, 0, MK_LatencyMicros), sample_reading (demo_sample 1 960000) 1 60000 100)],
      dt_unresolved = [], dt_degraded = []\<rparr>"

lemma assess_all_fingerprint [simp]:
  "assess_all (p\<lparr>po_fingerprint := f\<rparr>) dt resources = assess_all p dt resources"
proof -
  have "classify_rule (p\<lparr>po_fingerprint := f\<rparr>) dt r = classify_rule p dt r" for r
    by (intro ext) (simp add: classify_rule_def rule_outcome_def cong: option.case_cong)
  moreover have "gate_severity w c s (p\<lparr>po_fingerprint := f\<rparr>) = gate_severity w c s p" for w c s
    by (simp add: gate_severity_def)
  then have "class_up (p\<lparr>po_fingerprint := f\<rparr>) = class_up p" and
    "class_down (p\<lparr>po_fingerprint := f\<rparr>) = class_down p"
    by (simp_all add: class_up_def class_down_def Let_def fun_eq_iff)
  ultimately have "assess_resource (p\<lparr>po_fingerprint := f\<rparr>) dt = assess_resource p dt"
    by (intro ext) (simp add: assess_resource_def)
  then show ?thesis by (simp add: assess_all_def)
qed

theorem severity_is_corroborated_witness:
  "sev_at (at_up (assess_all make_default_policy demo_detected [5])) 5 = Sev_Severe \<and>
   2 \<le> support_count make_default_policy demo_detected 5 Sev_Severe (po_rules make_default_policy)"
proof -
  have "sev_at (at_up (assess_all default_policy_body demo_detected [5])) 5 = Sev_Severe"
    by code_simp
  then have up: "sev_at (at_up (assess_all make_default_policy demo_detected [5])) 5 = Sev_Severe"
    by (simp add: make_default_policy_def)
  have "unat (po_min_agreeing_rules_for_severe make_default_policy) = 2"
    by (simp add: make_default_policy_def default_policy_body_def)
  with up show ?thesis
    using severity_is_corroborated [OF default_policy_valid, of 5 "[5]" demo_detected] by simp
qed
end
