(* ===== verification/NCF_Planner.thy ===== *)
theory NCF_Planner
  imports NCF_Evaluator
begin

text \<open>
  Interventions: \<^verbatim>\<open>include/ncf/model/intervention.hpp\<close>, \<^verbatim>\<open>src/model/intervention.cpp\<close> and, from
  \<^verbatim>\<open>src/eval/evaluator.cpp\<close>, the freshness check, the restart demotion and
  \<^verbatim>\<open>InterventionPlanner::plan\<close>. The guards of the planner's inner loop are one function,
  \<open>target_verdict\<close>, whose three results are the three ways its body ends: an intent is
  emitted, a suppression is recorded, or the target is passed over silently.
\<close>

section \<open>Intents and plans\<close>

record InterventionIntent =
  in_id :: InterventionId
  in_kind :: InterventionKind
  in_domain :: DomainId
  in_resource :: ResourceId
  in_traffic_class :: ClassId
  in_basis_severity :: Severity
  in_basis_state :: CongestionState
  in_evidence :: EvidenceSnapshotId
  in_evaluation :: EvaluationId
  in_epoch :: EpochId
  in_authority_generation :: AuthorityGeneration
  in_policy :: PolicyId
  in_policy_fingerprint :: Hash64
  in_provenance :: ProvenanceId
  in_issued_tick :: Tick
  in_expires_tick :: Tick
  in_parameter :: u64
  in_priority :: u32
  in_parameter_clamped :: bool
  in_rationale :: string

definition in_expired_at :: "InterventionIntent \<Rightarrow> Tick \<Rightarrow> bool" where
  "in_expired_at i now \<longleftrightarrow> in_expires_tick i \<noteq> 0 \<and> now > in_expires_tick i"

definition in_bound_to :: "InterventionIntent \<Rightarrow> AuthorityVector \<Rightarrow> bool" where
  "in_bound_to i v \<longleftrightarrow>
     in_epoch i = av_epoch v \<and> in_authority_generation i = av_generation v \<and>
     in_policy i = av_policy v \<and> in_policy_fingerprint i = av_policy_fingerprint v"

record SuppressedIntervention =
  si_kind :: InterventionKind
  si_domain :: DomainId
  si_resource :: ResourceId
  si_traffic_class :: ClassId
  si_reason :: SuppressionReason
  si_detail :: string

record InterventionPlan =
  ip_evaluation :: EvaluationId
  ip_domain :: DomainId
  ip_epoch :: EpochId
  ip_authority_generation :: AuthorityGeneration
  ip_policy :: PolicyId
  ip_policy_fingerprint :: Hash64
  ip_planned_tick :: Tick
  ip_authorized :: "InterventionIntent list"
  ip_suppressed :: "SuppressedIntervention list"

definition kMaxRationaleBytes :: nat where [ncf_defs]: "kMaxRationaleBytes = 512"

definition compute_intervention_id :: "InterventionIntent \<Rightarrow> InterventionId" where
  "compute_intervention_id i =
     (let h1 = hash_u8 (ik_u8 (in_kind i)) kFnvOffset;
          h2 = hash_u64 (in_domain i) h1;
          h3 = hash_u64 (in_resource i) h2;
          h4 = hash_u64 (in_traffic_class i) h3;
          h5 = hash_u8 (sev_u8 (in_basis_severity i)) h4;
          h6 = hash_u8 (st_u8 (in_basis_state i)) h5;
          h7 = hash_u64 (in_evidence i) h6;
          h8 = hash_u64 (in_evaluation i) h7;
          h9 = hash_u64 (in_epoch i) h8;
          h10 = hash_u64 (in_authority_generation i) h9;
          h11 = hash_u64 (in_policy i) h10;
          h12 = hash_u64 (in_policy_fingerprint i) h11;
          h13 = hash_u64 (in_parameter i) h12
      in hash_finish (hash_u64 (in_issued_tick i) h13))"

definition validate_intent :: "InterventionIntent \<Rightarrow> unit result" where
  "validate_intent i =
     (if in_kind i = IK_None \<or> in_kind i = IK_Count then Inl Err_InvalidArgument
      else if \<not> id_valid (in_domain i) then Inl Err_InvalidArgument
      else if \<not> is_authoritative (in_basis_state i) then Inl Err_Unauthorized
      else if \<not> id_valid (in_evidence i) then Inl Err_InvalidArgument
      else if \<not> id_valid (in_evaluation i) then Inl Err_InvalidArgument
      else if \<not> id_valid (in_epoch i) then Inl Err_InvalidArgument
      else if \<not> id_valid (in_authority_generation i) then Inl Err_InvalidArgument
      else if \<not> id_valid (in_policy i) \<or> \<not> id_valid (in_policy_fingerprint i) then Inl Err_InvalidArgument
      else if in_issued_tick i = kNoTick then Inl Err_InvalidArgument
      else if in_expires_tick i \<noteq> 0 \<and> in_expires_tick i < in_issued_tick i then Inl Err_InvalidArgument
      else if length (in_rationale i) > kMaxRationaleBytes then Inl Err_LimitExceeded
      else Inr ())"

text \<open>The message of the status that validation returns.\<close>

definition intent_fault :: "InterventionIntent \<Rightarrow> string" where
  "intent_fault i =
     (if in_kind i = IK_None \<or> in_kind i = IK_Count then ''intervention intent has no kind''
      else if \<not> id_valid (in_domain i) then ''intervention intent has no domain''
      else if \<not> is_authoritative (in_basis_state i) then ''intervention intent is based on a non-authoritative state''
      else if \<not> id_valid (in_evidence i) then ''intervention intent is not bound to an evidence snapshot''
      else if \<not> id_valid (in_evaluation i) then ''intervention intent is not bound to an evaluation''
      else if \<not> id_valid (in_epoch i) then ''intervention intent is not bound to an epoch''
      else if \<not> id_valid (in_authority_generation i) then ''intervention intent is not bound to an authority generation''
      else if \<not> id_valid (in_policy i) \<or> \<not> id_valid (in_policy_fingerprint i) then ''intervention intent is not bound to a policy''
      else if in_issued_tick i = kNoTick then ''intervention intent has no issue tick''
      else if in_expires_tick i \<noteq> 0 \<and> in_expires_tick i < in_issued_tick i then ''intervention intent expires before it was issued''
      else ''intervention rationale exceeds its bound'')"

section \<open>Freshness of the evidence behind an outcome\<close>

definition evidence_within_freshness :: "EvidenceVector \<Rightarrow> CongestionPolicy \<Rightarrow> Tick \<Rightarrow> bool" where
  "evidence_within_freshness vector policy now =
     (if ev_samples_accepted vector = 0 then False
      else if ev_newest_observed_tick vector = kNoTick then False
      else
        let age = tick_age now (ev_newest_observed_tick vector) in
        if ta_from_future age then ta_age age \<le> fp_max_future_skew_ticks (po_freshness policy)
        else ta_age age \<le> fp_default_max_age_ticks (po_freshness policy))"

text \<open>The second component is \<^verbatim>\<open>out_requires_revalidation\<close>. Policy and clock are not consulted.\<close>

definition demote_after_recovery ::
  "CongestionState \<Rightarrow> Tick \<Rightarrow> CongestionPolicy \<Rightarrow> Tick \<Rightarrow> CongestionState \<times> bool" where
  "demote_after_recovery restored last_authoritative_tick policy now =
     (if \<not> is_authoritative restored then (restored, True)
      else if last_authoritative_tick = kNoTick then (St_Unknown, True)
      else (St_Stale, True))"

section \<open>Planning\<close>

record PlanningContext =
  pc_policy :: "CongestionPolicy option"
  pc_topology :: "TopologyIndex option"
  pc_now :: Tick
  pc_epoch :: EpochId
  pc_authority :: AuthorityVector

definition outcome_authoritative :: "EvaluationOutcome \<Rightarrow> bool" where
  "outcome_authoritative outcome \<longleftrightarrow> eo_authoritative outcome \<and> is_authoritative (eo_state outcome)"

definition plan_targets ::
  "PlanningContext \<Rightarrow> EvaluationOutcome \<Rightarrow> InterventionRule \<Rightarrow> ResourceId list" where
  "plan_targets context outcome rule =
     (case pc_topology context of
        Some topology \<Rightarrow>
          filter (\<lambda>member.
            if id_valid (ir_target_class rule) then
              (case ti_resource topology member of
                 None \<Rightarrow> False
               | Some r \<Rightarrow> rr_serving_class r = ir_target_class rule)
            else True) (ti_domain_members topology (eo_domain outcome))
      | None \<Rightarrow> map ra_resource (ev_resources (eo_evidence outcome)))"

definition target_covered :: "EvaluationOutcome \<Rightarrow> ResourceId \<Rightarrow> bool" where
  "target_covered outcome target =
     list_ex (\<lambda>a. ra_resource a = target \<and> ra_coverage a \<noteq> Cov_None) (ev_resources (eo_evidence outcome))"

definition already_active ::
  "PlanningContext \<Rightarrow> EvaluationOutcome \<Rightarrow> InterventionIntent list \<Rightarrow> InterventionRule \<Rightarrow> ResourceId \<Rightarrow> bool" where
  "already_active context outcome active rule target =
     list_ex (\<lambda>i.
       in_kind i = ir_kind rule \<and> in_domain i = eo_domain outcome \<and> in_resource i = target \<and>
       \<not> in_expired_at i (pc_now context) \<and>
       (if ir_min_repeat_interval_ticks rule = 0 then True
        else (if pc_now context \<ge> in_issued_tick i then pc_now context - in_issued_tick i else 0)
               < ir_min_repeat_interval_ticks rule)) active"

text \<open>The parameter and whether it was clamped; the two comparisons run one after the other.\<close>

definition clamp_parameter :: "InterventionRule \<Rightarrow> u64 \<times> bool" where
  "clamp_parameter rule =
     (let (p1, c1) = (if ir_parameter_default rule < ir_parameter_min rule
                      then (ir_parameter_min rule, True) else (ir_parameter_default rule, False))
      in if p1 > ir_parameter_max rule then (ir_parameter_max rule, True) else (p1, c1))"

definition intent_evidence :: "EvaluationOutcome \<Rightarrow> EvidenceSnapshotId" where
  "intent_evidence outcome =
     (let e = (case ev_resources (eo_evidence outcome) of [] \<Rightarrow> 0 | a # _ \<Rightarrow> ra_newest_snapshot a)
      in if id_valid e then e
         else if ev_batch (eo_evidence outcome) \<noteq> 0 then ev_batch (eo_evidence outcome)
         else eo_id outcome)"

definition make_intent ::
  "CongestionPolicy \<Rightarrow> PlanningContext \<Rightarrow> EvaluationOutcome \<Rightarrow> InterventionRule \<Rightarrow> ResourceId \<Rightarrow>
     Severity \<Rightarrow> InterventionIntent" where
  "make_intent policy context outcome rule target severity =
     \<lparr>in_id = 0, in_kind = ir_kind rule, in_domain = eo_domain outcome, in_resource = target,
      in_traffic_class = ir_target_class rule, in_basis_severity = severity,
      in_basis_state = eo_state outcome, in_evidence = intent_evidence outcome,
      in_evaluation = eo_id outcome, in_epoch = pc_epoch context,
      in_authority_generation = av_generation (pc_authority context), in_policy = po_id policy,
      in_policy_fingerprint = po_fingerprint policy, in_provenance = 0,
      in_issued_tick = pc_now context, in_expires_tick = 0,
      in_parameter = fst (clamp_parameter rule), in_priority = ir_priority rule,
      in_parameter_clamped = snd (clamp_parameter rule),
      in_rationale = intervention_kind_name (ir_kind rule) @ '' for '' @
        id_to_string ''domain'' (eo_domain outcome)\<rparr>"

datatype TargetVerdict = Authorize InterventionIntent | Suppress SuppressionReason string | PassOver

definition target_verdict ::
  "CongestionPolicy \<Rightarrow> PlanningContext \<Rightarrow> EvaluationOutcome \<Rightarrow> InterventionIntent list \<Rightarrow>
     InterventionRule \<Rightarrow> ResourceId \<Rightarrow> TargetVerdict" where
  "target_verdict policy context outcome active rule target =
     (if ir_require_authoritative_state rule \<and> \<not> outcome_authoritative outcome
      then Suppress SR_NonAuthoritativeState ''domain state is not authoritative at this evaluation''
      else case severity_of (eo_state outcome) of
        None \<Rightarrow> PassOver
      | Some severity \<Rightarrow>
          if severity < ir_at_least rule then PassOver
          else if ir_require_fresh_evidence rule \<and>
            \<not> evidence_within_freshness (eo_evidence outcome) policy (pc_now context)
          then Suppress SR_StaleEvidence ''no fresh accepted evidence supports this intervention''
          else if \<not> target_covered outcome target \<and> pc_topology context \<noteq> None
          then Suppress SR_MissingEvidence ''target resource produced no usable evidence in this evaluation''
          else
            let decision = check_authority (pc_authority context) (pc_now context)
                             (required_authority (ir_kind rule))
            in if \<not> ad_allowed decision then Suppress (ad_reason decision) (ad_detail decision)
               else if already_active context outcome active rule target then Suppress SR_AlreadyActive
                 ''an equivalent intervention is already outstanding for this target''
               else
                 let intent = make_intent policy context outcome rule target severity
                 in case validate_intent intent of
                     Inl e \<Rightarrow> Suppress SR_LimitExceeded (intent_fault intent)
                   | Inr u \<Rightarrow> Authorize (intent\<lparr>in_id := compute_intervention_id intent\<rparr>))"

definition plan_target ::
  "CongestionPolicy \<Rightarrow> PlanningContext \<Rightarrow> EvaluationOutcome \<Rightarrow> InterventionIntent list \<Rightarrow>
     InterventionRule \<Rightarrow> ResourceId \<Rightarrow> InterventionPlan \<Rightarrow> InterventionPlan" where
  "plan_target policy context outcome active rule target plan =
     (case target_verdict policy context outcome active rule target of
        PassOver \<Rightarrow> plan
      | Authorize intent \<Rightarrow> plan\<lparr>ip_authorized := ip_authorized plan @ [intent]\<rparr>
      | Suppress reason detail \<Rightarrow>
          if length (ip_suppressed plan) \<ge> unat (pl_max_interventions_per_plan (po_limits policy) * 4)
          then plan
          else plan\<lparr>ip_suppressed := ip_suppressed plan @
                 [\<lparr>si_kind = ir_kind rule, si_domain = eo_domain outcome, si_resource = target,
                   si_traffic_class = ir_target_class rule, si_reason = reason, si_detail = detail\<rparr>]\<rparr>)"

definition rule_suppressed :: "EvaluationOutcome \<Rightarrow> InterventionRule \<Rightarrow> SuppressionReason \<Rightarrow> string \<Rightarrow> SuppressedIntervention" where
  "rule_suppressed outcome rule reason detail =
     \<lparr>si_kind = ir_kind rule, si_domain = eo_domain outcome, si_resource = 0, si_traffic_class = 0,
      si_reason = reason, si_detail = detail\<rparr>"

definition plan_rule ::
  "CongestionPolicy \<Rightarrow> PlanningContext \<Rightarrow> EvaluationOutcome \<Rightarrow> InterventionIntent list \<Rightarrow>
     InterventionRule \<Rightarrow> InterventionPlan \<Rightarrow> InterventionPlan" where
  "plan_rule policy context outcome active rule plan =
     (if length (ip_authorized plan) \<ge> unat (pl_max_interventions_per_plan (po_limits policy))
      then plan\<lparr>ip_suppressed := ip_suppressed plan @ [rule_suppressed outcome rule SR_LimitExceeded
        ''intervention plan reached its configured bound'']\<rparr>
      else if id_valid (ir_target_domain rule) \<and> ir_target_domain rule \<noteq> eo_domain outcome then plan
      else
        let targets = plan_targets context outcome rule
        in if targets = []
           then plan\<lparr>ip_suppressed := ip_suppressed plan @ [rule_suppressed outcome rule SR_TargetNotPresent
             ''no resource in the domain matches the rule target'']\<rparr>
           else fold (plan_target policy context outcome active rule) targets plan)"

definition new_plan :: "CongestionPolicy \<Rightarrow> PlanningContext \<Rightarrow> EvaluationOutcome \<Rightarrow> InterventionPlan" where
  "new_plan policy context outcome =
     \<lparr>ip_evaluation = eo_id outcome, ip_domain = eo_domain outcome, ip_epoch = pc_epoch context,
      ip_authority_generation = av_generation (pc_authority context), ip_policy = po_id policy,
      ip_policy_fingerprint = po_fingerprint policy, ip_planned_tick = pc_now context,
      ip_authorized = [], ip_suppressed = []\<rparr>"

definition plan ::
  "EvaluationOutcome \<Rightarrow> PlanningContext \<Rightarrow> InterventionIntent list \<Rightarrow> InterventionPlan result" where
  "plan outcome context active =
     (case pc_policy context of
        None \<Rightarrow> Inl Err_NotReady
      | Some policy \<Rightarrow>
          Inr (fold (plan_rule policy context outcome active) (po_interventions policy)
                 (new_plan policy context outcome)))"

section \<open>What an authorized intent guarantees\<close>

text \<open>The justification of an intent: the rule that asked for it and every check it passed.\<close>

definition intent_justified ::
  "CongestionPolicy \<Rightarrow> PlanningContext \<Rightarrow> EvaluationOutcome \<Rightarrow> InterventionIntent \<Rightarrow> bool" where
  "intent_justified policy context outcome i \<longleftrightarrow>
     (\<exists>rule \<in> set (po_interventions policy).
        in_kind i = ir_kind rule \<and> in_resource i \<in> set (plan_targets context outcome rule) \<and>
        severity_of (in_basis_state i) = Some (in_basis_severity i) \<and>
        ir_at_least rule \<le> in_basis_severity i \<and>
        (ir_require_authoritative_state rule \<longrightarrow> outcome_authoritative outcome) \<and>
        (ir_require_fresh_evidence rule \<longrightarrow>
           evidence_within_freshness (eo_evidence outcome) policy (pc_now context)) \<and>
        (ir_parameter_min rule \<le> ir_parameter_max rule \<longrightarrow>
           ir_parameter_min rule \<le> in_parameter i \<and> in_parameter i \<le> ir_parameter_max rule)) \<and>
     ad_allowed (check_authority (pc_authority context) (pc_now context) (required_authority (in_kind i))) \<and>
     validate_intent i = Inr () \<and> in_id i = compute_intervention_id i \<and>
     in_domain i = eo_domain outcome \<and> in_basis_state i = eo_state outcome \<and>
     in_evaluation i = eo_id outcome \<and> in_epoch i = pc_epoch context \<and>
     in_authority_generation i = av_generation (pc_authority context) \<and>
     in_policy i = po_id policy \<and> in_policy_fingerprint i = po_fingerprint policy"

lemma clamp_parameter_bounds:
  "ir_parameter_min rule \<le> ir_parameter_max rule \<Longrightarrow>
   ir_parameter_min rule \<le> fst (clamp_parameter rule) \<and> fst (clamp_parameter rule) \<le> ir_parameter_max rule"
  by (auto simp: clamp_parameter_def not_less)

lemma compute_intervention_id_update [simp]:
  "compute_intervention_id (i\<lparr>in_id := x\<rparr>) = compute_intervention_id i"
  by (simp add: compute_intervention_id_def)

lemma validate_intent_update [simp]: "validate_intent (i\<lparr>in_id := x\<rparr>) = validate_intent i"
  by (simp add: validate_intent_def)

lemma target_verdict_Authorize:
  assumes "target_verdict policy context outcome active rule target = Authorize i"
  obtains severity where "severity_of (eo_state outcome) = Some severity" and "ir_at_least rule \<le> severity"
    and "ir_require_authoritative_state rule \<longrightarrow> outcome_authoritative outcome"
    and "ir_require_fresh_evidence rule \<longrightarrow>
      evidence_within_freshness (eo_evidence outcome) policy (pc_now context)"
    and "ad_allowed (check_authority (pc_authority context) (pc_now context) (required_authority (ir_kind rule)))"
    and "\<not> already_active context outcome active rule target"
    and "validate_intent (make_intent policy context outcome rule target severity) = Inr ()"
    and "i = (make_intent policy context outcome rule target severity)
      \<lparr>in_id := compute_intervention_id (make_intent policy context outcome rule target severity)\<rparr>"
  using assms
  by (auto simp: target_verdict_def Let_def not_less split: if_splits option.splits sum.splits)

lemma target_verdict_justified:
  assumes "target_verdict policy context outcome active rule target = Authorize i"
    and "rule \<in> set (po_interventions policy)" and "target \<in> set (plan_targets context outcome rule)"
  shows "intent_justified policy context outcome i"
proof -
  from assms(1) obtain severity where s: "severity_of (eo_state outcome) = Some severity"
    "ir_at_least rule \<le> severity"
    "ir_require_authoritative_state rule \<longrightarrow> outcome_authoritative outcome"
    "ir_require_fresh_evidence rule \<longrightarrow>
      evidence_within_freshness (eo_evidence outcome) policy (pc_now context)"
    "ad_allowed (check_authority (pc_authority context) (pc_now context) (required_authority (ir_kind rule)))"
    "validate_intent (make_intent policy context outcome rule target severity) = Inr ()"
    and i: "i = (make_intent policy context outcome rule target severity)
      \<lparr>in_id := compute_intervention_id (make_intent policy context outcome rule target severity)\<rparr>"
    by (rule target_verdict_Authorize)
  have fields: "in_kind i = ir_kind rule" "in_resource i = target" "in_basis_severity i = severity"
    "in_basis_state i = eo_state outcome" "in_parameter i = fst (clamp_parameter rule)"
    "in_domain i = eo_domain outcome" "in_evaluation i = eo_id outcome" "in_epoch i = pc_epoch context"
    "in_authority_generation i = av_generation (pc_authority context)" "in_policy i = po_id policy"
    "in_policy_fingerprint i = po_fingerprint policy"
    by (simp_all add: i make_intent_def)
  have "validate_intent i = Inr ()" "in_id i = compute_intervention_id i"
    using s(6) by (simp_all add: i)
  moreover have "\<exists>rule \<in> set (po_interventions policy).
        in_kind i = ir_kind rule \<and> in_resource i \<in> set (plan_targets context outcome rule) \<and>
        severity_of (in_basis_state i) = Some (in_basis_severity i) \<and>
        ir_at_least rule \<le> in_basis_severity i \<and>
        (ir_require_authoritative_state rule \<longrightarrow> outcome_authoritative outcome) \<and>
        (ir_require_fresh_evidence rule \<longrightarrow>
           evidence_within_freshness (eo_evidence outcome) policy (pc_now context)) \<and>
        (ir_parameter_min rule \<le> ir_parameter_max rule \<longrightarrow>
           ir_parameter_min rule \<le> in_parameter i \<and> in_parameter i \<le> ir_parameter_max rule)"
    by (rule bexI [OF _ assms(2)]) (use fields s assms(3) clamp_parameter_bounds in simp)
  ultimately show ?thesis
    using s(5) fields by (simp add: intent_justified_def)
qed

lemma plan_target_invariant:
  assumes "\<forall>i \<in> set (ip_authorized p). Q i"
    and "\<And>i. target_verdict policy context outcome active rule target = Authorize i \<Longrightarrow> Q i"
  shows "\<forall>i \<in> set (ip_authorized (plan_target policy context outcome active rule target p)). Q i"
  using assms by (auto simp: plan_target_def split: TargetVerdict.splits)

lemma plan_rule_invariant:
  assumes "\<forall>i \<in> set (ip_authorized p). Q i"
    and "\<And>target i. target \<in> set (plan_targets context outcome rule) \<Longrightarrow>
      target_verdict policy context outcome active rule target = Authorize i \<Longrightarrow> Q i"
  shows "\<forall>i \<in> set (ip_authorized (plan_rule policy context outcome active rule p)). Q i"
proof -
  have "\<forall>i \<in> set (ip_authorized (fold (plan_target policy context outcome active rule)
      (plan_targets context outcome rule) p)). Q i"
    by (rule fold_invariant_set [where P = "\<lambda>p. \<forall>i \<in> set (ip_authorized p). Q i"])
      (use assms plan_target_invariant in \<open>blast+\<close>)
  with assms(1) show ?thesis by (simp add: plan_rule_def Let_def)
qed

text \<open>Anything every authorizing verdict guarantees holds of every intent of a plan.\<close>

lemma plan_authorized_invariant:
  assumes "plan outcome context active = Inr p" and "pc_policy context = Some policy"
    and "\<And>rule target i. rule \<in> set (po_interventions policy) \<Longrightarrow>
      target \<in> set (plan_targets context outcome rule) \<Longrightarrow>
      target_verdict policy context outcome active rule target = Authorize i \<Longrightarrow> Q i"
  shows "\<forall>i \<in> set (ip_authorized p). Q i"
proof -
  have "\<forall>i \<in> set (ip_authorized (fold (plan_rule policy context outcome active) (po_interventions policy)
      (new_plan policy context outcome))). Q i"
    by (rule fold_invariant_set [where P = "\<lambda>p. \<forall>i \<in> set (ip_authorized p). Q i"])
      (use assms(3) plan_rule_invariant in blast, simp add: new_plan_def)
  with assms(1,2) show ?thesis by (auto simp: plan_def)
qed

text \<open>C1: every intent that leaves the planner is justified. It comes from a rule of the installed policy
  whose severity it reaches, for a resource that rule targets; the authority vector grants and does
  not deny the authority the kind requires, at the planning tick; where the rule asks for an
  authoritative state or fresh evidence, the outcome has it; the parameter lies in the rule's
  envelope; and the intent is valid, carries its content identity, and names the evaluation, epoch,
  authority generation and policy it depends on.\<close>

theorem authorized_intents_justified:
  assumes "plan outcome context active = Inr p" and "pc_policy context = Some policy"
    and "i \<in> set (ip_authorized p)"
  shows "intent_justified policy context outcome i"
  using plan_authorized_invariant [OF assms(1,2), where Q = "intent_justified policy context outcome"]
    target_verdict_justified assms(3) by blast

text \<open>C11: a refusal to decide authorizes nothing. When the state of the domain is indeterminate the plan
  authorizes no intent whatever the rules say, and when the outcome is not authoritative it
  authorizes none under any policy whose rules all ask for an authoritative state.\<close>

theorem nonauthoritative_authorizes_nothing:
  assumes "plan outcome context active = Inr p" and "pc_policy context = Some policy"
    and "is_indeterminate (eo_state outcome) \<or>
      \<not> outcome_authoritative outcome \<and>
        list_all ir_require_authoritative_state (po_interventions policy)"
  shows "ip_authorized p = []"
proof -
  have none: "is_indeterminate (eo_state outcome) \<Longrightarrow> severity_of (eo_state outcome) = None"
    by (auto simp: is_indeterminate_def severity_of_def)
  have "\<forall>i \<in> set (ip_authorized p). False"
    by (rule plan_authorized_invariant [OF assms(1,2)], erule target_verdict_Authorize)
      (use assms(3) none in \<open>auto simp: list_all_iff\<close>)
  then show ?thesis by simp
qed

section \<open>Plan sizes\<close>

lemma plan_target_sizes:
  "length (ip_authorized (plan_target policy context outcome active rule target p)) \<le> length (ip_authorized p) + 1"
  "length (ip_suppressed (plan_target policy context outcome active rule target p)) \<le>
     max (length (ip_suppressed p)) (unat (pl_max_interventions_per_plan (po_limits policy) * 4))"
  by (auto simp: plan_target_def split: TargetVerdict.splits)

lemma plan_targets_sizes:
  "length (ip_authorized (fold (plan_target policy context outcome active rule) targets p)) \<le>
     length (ip_authorized p) + length targets \<and>
   length (ip_suppressed (fold (plan_target policy context outcome active rule) targets p)) \<le>
     max (length (ip_suppressed p)) (unat (pl_max_interventions_per_plan (po_limits policy) * 4))"
proof (induction targets arbitrary: p)
  case (Cons target targets)
  from Cons.IH [of "plan_target policy context outcome active rule target p"]
    plan_target_sizes [of policy "context" outcome active rule target p]
  show ?case by auto
qed simp

lemma plan_rule_sizes:
  assumes "length (plan_targets context outcome rule) \<le> n"
  shows "length (ip_authorized (plan_rule policy context outcome active rule p)) \<le>
      max (length (ip_authorized p)) (unat (pl_max_interventions_per_plan (po_limits policy)) - 1 + n)"
    and "length (ip_suppressed (plan_rule policy context outcome active rule p)) \<le>
      max (length (ip_suppressed p) + 1) (unat (pl_max_interventions_per_plan (po_limits policy) * 4))"
  using plan_targets_sizes [of policy "context" outcome active rule "plan_targets context outcome rule" p] assms
  by (auto simp: plan_rule_def Let_def)

text \<open>Plans are bounded. A plan never holds more suppressions than four times the configured bound plus
  one per rule. Its authorized intents may pass the configured bound, which is compared only when a
  rule is entered: they stay below the bound plus the number of targets of the largest rule.\<close>

theorem plan_sizes_bounded:
  assumes "plan outcome context active = Inr p" and "pc_policy context = Some policy"
    and "\<forall>rule \<in> set (po_interventions policy). length (plan_targets context outcome rule) \<le> n"
  shows "length (ip_authorized p) \<le> unat (pl_max_interventions_per_plan (po_limits policy)) - 1 + n \<and>
    length (ip_suppressed p) \<le>
      unat (pl_max_interventions_per_plan (po_limits policy) * 4) + length (po_interventions policy)"
proof -
  let ?m = "unat (pl_max_interventions_per_plan (po_limits policy))"
  let ?m4 = "unat (pl_max_interventions_per_plan (po_limits policy) * 4)"
  have "length (ip_authorized (fold (plan_rule policy context outcome active) rules q)) \<le>
        max (length (ip_authorized q)) (?m - 1 + n) \<and>
      length (ip_suppressed (fold (plan_rule policy context outcome active) rules q)) \<le>
        max (length (ip_suppressed q)) ?m4 + length rules"
    if "\<forall>rule \<in> set rules. length (plan_targets context outcome rule) \<le> n" for rules q
    using that
  proof (induction rules arbitrary: q)
    case (Cons rule rules)
    from Cons.prems have "length (plan_targets context outcome rule) \<le> n" by simp
    note step = plan_rule_sizes [OF this, of policy active q]
    from Cons.IH [of "plan_rule policy context outcome active rule q"] Cons.prems step
    show ?case by auto
  qed simp
  from this [OF assms(3), of "new_plan policy context outcome"] assms(1,2) show ?thesis
    by (auto simp: plan_def new_plan_def)
qed

text \<open>The per-plan bound does not bound a single rule. Under a policy with one rule that applies to the
  domain, every target whose checks pass is authorized, however small the (nonzero) bound is.\<close>

theorem single_rule_ignores_plan_bound:
  assumes "pc_policy context = Some policy" and "po_interventions policy = [rule]"
    and "\<not> id_valid (ir_target_domain rule)" and "pl_max_interventions_per_plan (po_limits policy) \<noteq> 0"
    and "\<forall>target \<in> set (plan_targets context outcome rule).
      \<exists>i. target_verdict policy context outcome active rule target = Authorize i"
  shows "\<exists>p. plan outcome context active = Inr p \<and>
    length (ip_authorized p) = length (plan_targets context outcome rule)"
proof -
  have "length (ip_authorized (fold (plan_target policy context outcome active rule) targets q)) =
      length (ip_authorized q) + length targets"
    if "\<forall>target \<in> set targets. \<exists>i. target_verdict policy context outcome active rule target = Authorize i"
    for targets q
    using that by (induction targets arbitrary: q) (auto simp: plan_target_def)
  from this [OF assms(5), of "new_plan policy context outcome"] assms(1-4) show ?thesis
    by (simp add: plan_def plan_rule_def Let_def new_plan_def unat_eq_0)
qed

text \<open>All intents of a plan name the same evidence: the newest snapshot of the first resource the
  evaluation assessed (or the batch, or the evaluation), also for targets whose severity rests on
  other snapshots.\<close>

theorem intents_share_first_snapshot:
  assumes "plan outcome context active = Inr p" and "i \<in> set (ip_authorized p)"
    and "ev_resources (eo_evidence outcome) = first # others" and "ra_newest_snapshot first \<noteq> 0"
  shows "in_evidence i = ra_newest_snapshot first"
proof -
  from assms(1) obtain policy where "pc_policy context = Some policy"
    by (auto simp: plan_def split: option.splits)
  then have "\<forall>i \<in> set (ip_authorized p). in_evidence i = intent_evidence outcome"
    by (rule plan_authorized_invariant [OF assms(1)]) (auto simp: make_intent_def elim!: target_verdict_Authorize)
  with assms(2-4) show ?thesis by (simp add: intent_evidence_def id_valid_def)
qed

section \<open>A worked plan\<close>

definition demo_assessment :: "ResourceId \<Rightarrow> EvidenceSnapshotId \<Rightarrow> ResourceAssessment" where
  "demo_assessment r s =
     (new_assessment r)\<lparr>ra_raw_severity := Sev_Severe, ra_coverage := Cov_Full, ra_newest_snapshot := s,
        ra_newest_observed_tick := 90\<rparr>"

definition demo_outcome :: EvaluationOutcome where
  "demo_outcome =
     \<lparr>eo_id = 77, eo_domain = 7, eo_state = St_Severe, eo_previous_state = St_Watch,
      eo_severity = Sev_Severe, eo_transitioned = True, eo_authoritative = True,
      eo_requires_revalidation = False,
      eo_evidence = (initial_evidence (demo_request 960000))
        \<lparr>ev_samples_accepted := 2, ev_newest_observed_tick := 90, ev_oldest_accepted_tick := 90,
         ev_resources := [demo_assessment 5 11, demo_assessment 6 12]\<rparr>,
      eo_updated = initial_domain_state, eo_authority = demo_authority, eo_policy = 1,
      eo_policy_fingerprint = 99, eo_topology_generation = 0, eo_capacity_generation = 0,
      eo_evaluated_tick = 100, eo_reason_code = ''severity-escalated'', eo_reason_detail = []\<rparr>"

definition demo_rule :: InterventionRule where
  "demo_rule = default_intervention Sev_Congested IK_ReduceAdmissibleBudget 100000 900000 500000 10"

definition demo_plan_policy :: CongestionPolicy where
  "demo_plan_policy =
     default_policy_body\<lparr>po_fingerprint := 99, po_interventions := [demo_rule],
       po_limits := (po_limits default_policy_body)\<lparr>pl_max_interventions_per_plan := 1\<rparr>\<rparr>"

definition demo_planning :: PlanningContext where
  "demo_planning =
     \<lparr>pc_policy = Some demo_plan_policy, pc_topology = None, pc_now = 100, pc_epoch = 1,
      pc_authority = demo_authority\<lparr>av_granted := kAuthorityAllBits\<rparr>\<rparr>"

lemma demo_targets: "plan_targets demo_planning demo_outcome demo_rule = [5, 6]"
  by (simp add: plan_targets_def demo_planning_def demo_outcome_def demo_assessment_def new_assessment_def)

lemma demo_intent_valid: "validate_intent (make_intent demo_plan_policy demo_planning demo_outcome demo_rule r Sev_Severe) = Inr ()"
  by code_simp

lemma demo_verdict:
  "target_verdict demo_plan_policy demo_planning demo_outcome [] demo_rule r =
     Authorize ((make_intent demo_plan_policy demo_planning demo_outcome demo_rule r Sev_Severe)
       \<lparr>in_id := compute_intervention_id (make_intent demo_plan_policy demo_planning demo_outcome demo_rule r Sev_Severe)\<rparr>)"
proof -
  have "outcome_authoritative demo_outcome" "severity_of (eo_state demo_outcome) = Some Sev_Severe"
    "\<not> Sev_Severe < ir_at_least demo_rule"
    "evidence_within_freshness (eo_evidence demo_outcome) demo_plan_policy (pc_now demo_planning)"
    "pc_topology demo_planning = None"
    "ad_allowed (check_authority (pc_authority demo_planning) (pc_now demo_planning)
       (required_authority (ir_kind demo_rule)))"
    by code_simp+
  then show ?thesis
    by (simp add: target_verdict_def demo_intent_valid already_active_def Let_def)
qed

lemma demo_policy: "pc_policy demo_planning = Some demo_plan_policy" "po_interventions demo_plan_policy = [demo_rule]"
  by (simp_all add: demo_planning_def demo_plan_policy_def)

theorem single_rule_ignores_plan_bound_witness:
  "\<exists>p. plan demo_outcome demo_planning [] = Inr p \<and>
     pl_max_interventions_per_plan (po_limits demo_plan_policy) = 1 \<and> length (ip_authorized p) = 2"
proof -
  have "\<not> id_valid (ir_target_domain demo_rule)" "pl_max_interventions_per_plan (po_limits demo_plan_policy) = 1"
    by (simp_all add: demo_rule_def default_intervention_def demo_plan_policy_def id_valid_def)
  then show ?thesis
    using single_rule_ignores_plan_bound [OF demo_policy, of demo_outcome "[]"]
    by (simp add: demo_targets demo_verdict numeral_2_eq_2)
qed

lemma demo_plan_exists:
  "\<exists>p i others. plan demo_outcome demo_planning [] = Inr p \<and> ip_authorized p = i # others"
proof -
  have "\<not> id_valid (ir_target_domain demo_rule)" "pl_max_interventions_per_plan (po_limits demo_plan_policy) = 1"
    by (simp_all add: demo_rule_def default_intervention_def demo_plan_policy_def id_valid_def)
  then show ?thesis
    by (simp add: plan_def demo_policy plan_rule_def demo_targets plan_target_def demo_verdict new_plan_def)
qed

theorem authorized_intents_justified_witness:
  "\<exists>p i. plan demo_outcome demo_planning [] = Inr p \<and> i \<in> set (ip_authorized p) \<and>
     intent_justified demo_plan_policy demo_planning demo_outcome i"
  using demo_plan_exists authorized_intents_justified [OF _ demo_policy(1), of demo_outcome "[]"] by fastforce

theorem intents_share_first_snapshot_witness:
  "\<exists>p i. plan demo_outcome demo_planning [] = Inr p \<and> i \<in> set (ip_authorized p) \<and> in_evidence i = 11"
proof -
  have r: "ev_resources (eo_evidence demo_outcome) = demo_assessment 5 11 # [demo_assessment 6 12]"
    and n: "ra_newest_snapshot (demo_assessment 5 11) = 11"
    by (simp_all add: demo_outcome_def demo_assessment_def)
  obtain p i others where "plan demo_outcome demo_planning [] = Inr p" "ip_authorized p = i # others"
    using demo_plan_exists by blast
  with intents_share_first_snapshot [OF _ _ r, of demo_planning "[]" p i] n show ?thesis by fastforce
qed

theorem plan_sizes_bounded_witness:
  "\<exists>p. plan demo_outcome demo_planning [] = Inr p \<and> length (ip_authorized p) \<le> 2 \<and> length (ip_suppressed p) \<le> 5"
proof -
  obtain p where p: "plan demo_outcome demo_planning [] = Inr p" using demo_plan_exists by blast
  have "pl_max_interventions_per_plan (po_limits demo_plan_policy) = 1" by (simp add: demo_plan_policy_def)
  with plan_sizes_bounded [OF p demo_policy(1), of 2] p show ?thesis by (simp add: demo_policy demo_targets)
qed

theorem nonauthoritative_authorizes_nothing_witness:
  "\<exists>p. plan (demo_outcome\<lparr>eo_state := St_Conflict\<rparr>) demo_planning [] = Inr p \<and> ip_authorized p = []"
proof -
  obtain p where p: "plan (demo_outcome\<lparr>eo_state := St_Conflict\<rparr>) demo_planning [] = Inr p"
    by (simp add: plan_def demo_policy)
  with nonauthoritative_authorizes_nothing [OF p demo_policy(1)] show ?thesis
    by (simp add: is_indeterminate_def)
qed

end
