(* ===== verification/NCF_Codec.thy ===== *)
theory NCF_Codec
  imports NCF_Core "HOL-Library.State_Monad"
begin

text \<open>
  The binary codec of the durable payloads and transport frames,
  \<^verbatim>\<open>include/ncf/durability/codec.hpp\<close> and \<^verbatim>\<open>src/durability/codec.cpp\<close>. A writer and a reader
  are state-monad actions on the two classes' fields; the status keeps the first error code. The
  contract every record format relies on is the locale \<open>codec\<close>: what the writer appends
  is a layout, and the reader, standing before that layout, returns the value and stands after it.
  The primitive fields are interpretations of it; the formats of the frame and store theories
  build on their rewrite rules.
\<close>

section \<open>Writer\<close>

record ByteWriter =
  wr_buffer :: bytes
  wr_status :: "ErrCode option"

definition new_writer :: ByteWriter where
  "new_writer = \<lparr>wr_buffer = [], wr_status = None\<rparr>"

definition w_fail :: "ErrCode \<Rightarrow> (ByteWriter, unit) state" where
  "w_fail code = State (\<lambda>w. ((), if wr_status w = None then w\<lparr>wr_status := Some code\<rparr> else w))"

definition w_u8 :: "u8 \<Rightarrow> (ByteWriter, unit) state" where
  "w_u8 v = State (\<lambda>w. ((), w\<lparr>wr_buffer := wr_buffer w @ [v]\<rparr>))"

text \<open>The shift loops of the wider integers: one byte after the other, whatever the status.\<close>

fun w_bytes :: "bytes \<Rightarrow> (ByteWriter, unit) state" where
  "w_bytes [] = State_Monad.return ()"
| "w_bytes (b # bs) = do { w_u8 b; w_bytes bs }"

definition w_u16 :: "u16 \<Rightarrow> (ByteWriter, unit) state" where
  "w_u16 v = w_bytes (put_le 2 v)"

definition w_u32 :: "u32 \<Rightarrow> (ByteWriter, unit) state" where
  "w_u32 v = w_bytes (put_le 4 v)"

definition w_u64 :: "u64 \<Rightarrow> (ByteWriter, unit) state" where
  "w_u64 v = w_bytes (put_le 8 v)"

text \<open>A signed value is written and read as its two's complement bits.\<close>

definition w_i64 :: "u64 \<Rightarrow> (ByteWriter, unit) state" where
  "w_i64 v = w_u64 v"

definition w_boolean :: "bool \<Rightarrow> (ByteWriter, unit) state" where
  "w_boolean v = w_u8 (if v then 1 else 0)"

definition w_raw :: "bytes \<Rightarrow> (ByteWriter, unit) state" where
  "w_raw bs = State (\<lambda>w. ((), if wr_status w \<noteq> None then w else w\<lparr>wr_buffer := wr_buffer w @ bs\<rparr>))"

definition w_blob :: "bytes \<Rightarrow> nat \<Rightarrow> (ByteWriter, unit) state" where
  "w_blob bs max_len = do {
     w \<leftarrow> State_Monad.get;
     if wr_status w \<noteq> None then State_Monad.return ()
     else if length bs > max_len \<or> length bs > 0xFFFFFFFF then w_fail Err_Oversized
     else do { w_u32 (of_nat (length bs)); w_raw bs }
   }"

definition w_text :: "string \<Rightarrow> nat \<Rightarrow> (ByteWriter, unit) state" where
  "w_text s max_len = do {
     w \<leftarrow> State_Monad.get;
     if wr_status w \<noteq> None then State_Monad.return ()
     else if length s > max_len \<or> length s > 0xFFFFFFFF then w_fail Err_Oversized
     else do { w_u32 (of_nat (length s)); w_raw (map char_byte s) }
   }"

text \<open>\<^verbatim>\<open>if (!writer.ok()) return writer.status(); return std::move(writer).take();\<close>\<close>

definition take_writer :: "(ByteWriter, unit) state \<Rightarrow> bytes result" where
  "take_writer m =
     (let w = snd (run_state m new_writer)
      in case wr_status w of None \<Rightarrow> Inr (wr_buffer w) | Some e \<Rightarrow> Inl e)"

section \<open>Reader\<close>

record ByteReader =
  rd_data :: bytes
  rd_offset :: nat
  rd_status :: "ErrCode option"

definition new_reader :: "bytes \<Rightarrow> ByteReader" where
  "new_reader data = \<lparr>rd_data = data, rd_offset = 0, rd_status = None\<rparr>"

definition rd_ok :: "ByteReader \<Rightarrow> bool" where
  "rd_ok r \<longleftrightarrow> rd_status r = None"

definition rd_exhausted :: "ByteReader \<Rightarrow> bool" where
  "rd_exhausted r \<longleftrightarrow> rd_offset r = length (rd_data r)"

definition r_fail :: "ErrCode \<Rightarrow> (ByteReader, unit) state" where
  "r_fail code = State (\<lambda>r. ((), if rd_status r = None then r\<lparr>rd_status := Some code\<rparr> else r))"

definition r_ok :: "(ByteReader, bool) state" where
  "r_ok = State (\<lambda>r. (rd_ok r, r))"

definition r_need :: "nat \<Rightarrow> (ByteReader, bool) state" where
  "r_need count = State (\<lambda>r.
     if rd_status r \<noteq> None then (False, r)
     else if count > length (rd_data r) - rd_offset r
     then (False, r\<lparr>rd_status := Some Err_Truncated\<rparr>)
     else (True, r))"

definition r_u8 :: "(ByteReader, u8) state" where
  "r_u8 = do {
     enough \<leftarrow> r_need 1;
     if \<not> enough then State_Monad.return 0
     else State (\<lambda>r. (rd_data r ! rd_offset r, r\<lparr>rd_offset := rd_offset r + 1\<rparr>))
   }"

text \<open>\<^verbatim>\<open>value |= u8() << shift\<close>: \<open>n\<close> more bytes, the next one at byte position \<open>i\<close>.\<close>

primrec r_le :: "nat \<Rightarrow> nat \<Rightarrow> 'a::len word \<Rightarrow> (ByteReader, 'a word) state" where
  "r_le 0 i acc = State_Monad.return acc"
| "r_le (Suc n) i acc = do { b \<leftarrow> r_u8; r_le n (Suc i) (acc OR push_bit (8 * i) (ucast b)) }"

definition r_u16 :: "(ByteReader, u16) state" where
  "r_u16 = r_le 2 0 0"

definition r_u32 :: "(ByteReader, u32) state" where
  "r_u32 = r_le 4 0 0"

definition r_u64 :: "(ByteReader, u64) state" where
  "r_u64 = r_le 8 0 0"

definition r_i64 :: "(ByteReader, u64) state" where
  "r_i64 = r_u64"

definition r_boolean :: "(ByteReader, bool) state" where
  "r_boolean = do { v \<leftarrow> r_u8; State_Monad.return (v \<noteq> 0) }"

definition r_take :: "nat \<Rightarrow> (ByteReader, bytes) state" where
  "r_take n = State (\<lambda>r. (take n (drop (rd_offset r) (rd_data r)), r\<lparr>rd_offset := rd_offset r + n\<rparr>))"

text \<open>\<^verbatim>\<open>ByteReader::raw\<close> fills a caller's buffer of \<open>n\<close> bytes or leaves it alone.\<close>

definition r_raw :: "nat \<Rightarrow> (ByteReader, bytes option) state" where
  "r_raw n = do {
     enough \<leftarrow> r_need n;
     if \<not> enough then State_Monad.return None
     else do { bs \<leftarrow> r_take n; State_Monad.return (Some bs) }
   }"

definition r_blob :: "nat \<Rightarrow> (ByteReader, bytes) state" where
  "r_blob max_len = do {
     size \<leftarrow> r_u32;
     good \<leftarrow> r_ok;
     if \<not> good then State_Monad.return []
     else if unat size > max_len then do { r_fail Err_Oversized; State_Monad.return [] }
     else do {
       enough \<leftarrow> r_need (unat size);
       if \<not> enough then State_Monad.return [] else r_take (unat size)
     }
   }"

definition byte_char :: "u8 \<Rightarrow> char" where
  "byte_char b = char_of (unat b)"

definition r_text :: "nat \<Rightarrow> (ByteReader, string) state" where
  "r_text max_len = do {
     size \<leftarrow> r_u32;
     good \<leftarrow> r_ok;
     if \<not> good then State_Monad.return []
     else if unat size > max_len then do { r_fail Err_Oversized; State_Monad.return [] }
     else do {
       enough \<leftarrow> r_need (unat size);
       if \<not> enough then State_Monad.return []
       else do { bs \<leftarrow> r_take (unat size); State_Monad.return (map byte_char bs) }
     }
   }"

text \<open>The format version all framings share and the bounds of the durable text fields.\<close>

definition kMaxDurableText :: nat where [ncf_defs]: "kMaxDurableText = 4096"
definition kFormatVersion :: u16 where [ncf_defs]: "kFormatVersion = 1"
definition kMaxDurableNote :: nat where [ncf_defs]: "kMaxDurableNote = 1024"

text \<open>\<^verbatim>\<open>if (!reader.ok()) return reader.status();\<close> after all fields, then the checks on the message.\<close>

definition finish_reader :: "(ByteReader, 'a) state \<Rightarrow> ('a \<Rightarrow> 'a result) \<Rightarrow> bytes \<Rightarrow> 'a result" where
  "finish_reader m check payload =
     (let (a, r) = run_state m (new_reader payload)
      in case rd_status r of Some e \<Rightarrow> Inl e | None \<Rightarrow> check a)"

section \<open>Canonical states\<close>

text \<open>A writer that has written \<open>buf\<close>, and a reader between the bytes read and the bytes to come.\<close>

definition writing :: "bytes \<Rightarrow> ByteWriter" where
  "writing buf = \<lparr>wr_buffer = buf, wr_status = None\<rparr>"

definition reading :: "bytes \<Rightarrow> bytes \<Rightarrow> ByteReader" where
  "reading pre rest = \<lparr>rd_data = pre @ rest, rd_offset = length pre, rd_status = None\<rparr>"

lemma new_writer_writing: "new_writer = writing []"
  by (simp add: new_writer_def writing_def)

lemma new_reader_reading: "new_reader data = reading [] data"
  by (simp add: new_reader_def reading_def)

lemma writing_simps [simp]: "wr_buffer (writing buf) = buf" "wr_status (writing buf) = None"
  by (simp_all add: writing_def)

lemma reading_simps [simp]:
  "rd_data (reading pre rest) = pre @ rest" "rd_offset (reading pre rest) = length pre"
  "rd_status (reading pre rest) = None" "rd_ok (reading pre rest)"
  by (simp_all add: reading_def rd_ok_def)

lemma reading_exhausted [simp]: "rd_exhausted (reading pre rest) \<longleftrightarrow> rest = []"
  by (simp add: rd_exhausted_def)

lemma run_w_u8 [codec_simps]: "run_state (w_u8 v) (writing buf) = ((), writing (buf @ [v]))"
  by (simp add: w_u8_def writing_def)

lemma run_w_bytes [codec_simps]: "run_state (w_bytes bs) (writing buf) = ((), writing (buf @ bs))"
  by (induction bs arbitrary: buf) (simp_all add: run_w_u8)

lemma run_w_raw [codec_simps]: "run_state (w_raw bs) (writing buf) = ((), writing (buf @ bs))"
  by (simp add: w_raw_def writing_def)

lemma run_r_need [codec_simps]:
  "n \<le> length rest \<Longrightarrow> run_state (r_need n) (reading pre rest) = (True, reading pre rest)"
  by (simp add: r_need_def)

lemma run_r_ok [codec_simps]: "run_state r_ok (reading pre rest) = (True, reading pre rest)"
  by (simp add: r_ok_def)

lemma run_r_u8 [codec_simps]: "run_state r_u8 (reading pre (b # rest)) = (b, reading (pre @ [b]) rest)"
  by (simp add: r_u8_def run_r_need)

lemma run_r_le:
  "run_state (r_le (length bs) i acc) (reading pre (bs @ rest)) =
     (foldl (\<lambda>acc (i, b). acc OR push_bit (8 * i) (ucast b)) acc (enumerate i bs), reading (pre @ bs) rest)"
  by (induction bs arbitrary: i acc pre) (simp_all add: run_r_u8)

lemma run_r_le_put:
  "run_state (r_le n 0 (0 :: 'a::len word)) (reading pre (put_le n v @ rest)) =
     (take_bit (8 * n) v, reading (pre @ put_le n v) rest)"
  using run_r_le [of "put_le n v" 0 "0 :: 'a word" pre rest]
  by (simp add: get_put_le flip: get_le_def)

lemma run_r_take: "n = length bs \<Longrightarrow> run_state (r_take n) (reading pre (bs @ rest)) = (bs, reading (pre @ bs) rest)"
  by (simp add: r_take_def reading_def)

lemma byte_char_char_byte [simp]: "byte_char (char_byte c) = c"
proof -
  have "unat (of_char c :: u8) = of_char c"
  proof -
    have "(of_char c :: u8) = of_nat (of_char c)" by (simp add: of_nat_of_char)
    moreover have "of_char c < (256 :: nat)" by (metis of_char_mod_256 mod_less_divisor zero_less_numeral)
    ultimately show ?thesis by (simp add: unat_of_nat)
  qed
  then show ?thesis by (simp add: byte_char_def char_byte_def)
qed

text \<open>The first error stays: no later field repairs a writer that has failed.\<close>

definition sticky :: "(ByteWriter, unit) state \<Rightarrow> bool" where
  "sticky m \<longleftrightarrow> (\<forall>w. wr_status w \<noteq> None \<longrightarrow> wr_status (snd (run_state m w)) = wr_status w)"

named_theorems sticky_intros

lemma sticky_return [sticky_intros]: "sticky (State_Monad.return ())"
  by (simp add: sticky_def)

lemma sticky_bind [sticky_intros]: "sticky m \<Longrightarrow> sticky m' \<Longrightarrow> sticky (do { m; m' })"
  by (simp add: sticky_def split: prod.splits) (metis snd_conv)

lemma sticky_u8 [sticky_intros]: "sticky (w_u8 v)"
  by (simp add: sticky_def w_u8_def)

lemma sticky_bytes [sticky_intros]: "sticky (w_bytes bs)"
  by (induction bs) (simp_all add: sticky_intros)

lemma sticky_fields [sticky_intros]:
  "sticky (w_u16 a)" "sticky (w_u32 b)" "sticky (w_u64 c)" "sticky (w_i64 c)" "sticky (w_boolean d)"
  "sticky (w_raw bs)" "sticky (w_blob bs n)" "sticky (w_text s n)"
  by (simp_all add: w_u16_def w_u32_def w_u64_def w_i64_def w_boolean_def sticky_intros)
    (simp_all add: sticky_def w_raw_def w_blob_def w_text_def)

section \<open>The codec contract\<close>

locale codec =
  fixes valid :: "'a \<Rightarrow> bool" and layout :: "'a \<Rightarrow> bytes"
    and enc :: "'a \<Rightarrow> (ByteWriter, unit) state" and dec :: "(ByteReader, 'a) state"
  assumes enc_layout: "valid a \<Longrightarrow> run_state (enc a) (writing buf) = ((), writing (buf @ layout a))"
    and dec_layout: "valid a \<Longrightarrow>
      run_state dec (reading pre (layout a @ rest)) = (a, reading (pre @ layout a) rest)"
begin

lemma take_writer_enc: "valid a \<Longrightarrow> take_writer (enc a) = Inr (layout a)"
  by (simp add: take_writer_def new_writer_writing enc_layout Let_def)

lemma dec_new_reader: "valid a \<Longrightarrow> run_state dec (new_reader (layout a)) = (a, reading (layout a) [])"
  using dec_layout [of a "[]" "[]"] by (simp add: new_reader_reading)

text \<open>No layout is a proper prefix of another: a stream of fields splits in one way only.\<close>

lemma layout_prefix_free:
  assumes "valid a" and "valid b" and "layout a @ x = layout b @ y"
  shows "a = b \<and> x = y"
proof -
  have "run_state dec (reading [] (layout a @ x)) = run_state dec (reading [] (layout b @ y))"
    using assms(3) by simp
  then have "a = b" using dec_layout [OF assms(1), of "[]" x] dec_layout [OF assms(2), of "[]" y] by simp
  with assms(3) show ?thesis by simp
qed

end

text \<open>The loops of the record formats: write every element, read a counted number of them.\<close>

fun w_each :: "('a \<Rightarrow> (ByteWriter, unit) state) \<Rightarrow> 'a list \<Rightarrow> (ByteWriter, unit) state" where
  "w_each enc [] = State_Monad.return ()"
| "w_each enc (a # as) = do { enc a; w_each enc as }"

fun r_times :: "nat \<Rightarrow> (ByteReader, 'a) state \<Rightarrow> (ByteReader, 'a list) state" where
  "r_times 0 dec = State_Monad.return []"
| "r_times (Suc n) dec = do {
     good \<leftarrow> r_ok;
     if \<not> good then State_Monad.return []
     else do { a \<leftarrow> dec; as \<leftarrow> r_times n dec; State_Monad.return (a # as) }
   }"

lemma sticky_each [sticky_intros]: "(\<And>a. sticky (enc a)) \<Longrightarrow> sticky (w_each enc as)"
  by (induction as) (simp_all add: sticky_intros)

context codec
begin

lemma run_w_each:
  "list_all valid as \<Longrightarrow> run_state (w_each enc as) (writing buf) = ((), writing (buf @ concat (map layout as)))"
  by (induction as arbitrary: buf) (simp_all add: enc_layout)

lemma run_r_times:
  "list_all valid as \<Longrightarrow> run_state (r_times (length as) dec) (reading pre (concat (map layout as) @ rest)) =
     (as, reading (pre @ concat (map layout as)) rest)"
  by (induction as arbitrary: pre) (simp_all add: dec_layout run_r_ok)

end

section \<open>Primitive fields\<close>

interpretation u8: codec "\<lambda>_. True" "\<lambda>v. [v]" w_u8 r_u8
  by unfold_locales (simp_all add: codec_simps)

interpretation u16: codec "\<lambda>_. True" "put_le 2" w_u16 r_u16
  by unfold_locales (simp_all add: w_u16_def r_u16_def run_w_bytes run_r_le_put take_bit_word_eq_self)

interpretation u32: codec "\<lambda>_. True" "put_le 4" w_u32 r_u32
  by unfold_locales (simp_all add: w_u32_def r_u32_def run_w_bytes run_r_le_put take_bit_word_eq_self)

interpretation u64: codec "\<lambda>_. True" "put_le 8" w_u64 r_u64
  by unfold_locales (simp_all add: w_u64_def r_u64_def run_w_bytes run_r_le_put take_bit_word_eq_self)

interpretation i64: codec "\<lambda>_. True" "put_le 8" w_i64 r_i64
  by unfold_locales (simp_all add: w_i64_def r_i64_def u64.enc_layout u64.dec_layout)

definition bool_byte :: "bool \<Rightarrow> u8" where
  "bool_byte v = (if v then 1 else 0)"

interpretation boolean: codec "\<lambda>_. True" "\<lambda>v. [bool_byte v]" w_boolean r_boolean
  by unfold_locales (simp_all add: w_boolean_def r_boolean_def bool_byte_def codec_simps)

definition blob_layout :: "bytes \<Rightarrow> bytes" where
  "blob_layout bs = put_le 4 (of_nat (length bs) :: u32) @ bs"

definition text_layout :: "string \<Rightarrow> bytes" where
  "text_layout s = blob_layout (map char_byte s)"

lemma unat_length_u32: "n \<le> 0xFFFFFFFF \<Longrightarrow> unat (of_nat n :: u32) = n"
  by (simp add: unat_of_nat)

interpretation blob: codec "\<lambda>bs. length bs \<le> min m 0xFFFFFFFF" blob_layout "\<lambda>bs. w_blob bs m" "r_blob m"
  by unfold_locales
    (simp_all add: w_blob_def r_blob_def blob_layout_def u32.enc_layout u32.dec_layout codec_simps
      unat_length_u32 run_r_take)

interpretation str: codec "\<lambda>s. length s \<le> min m 0xFFFFFFFF" text_layout "\<lambda>s. w_text s m" "r_text m"
  by unfold_locales
    (simp_all add: w_text_def r_text_def text_layout_def blob_layout_def u32.enc_layout u32.dec_layout
      codec_simps unat_length_u32 run_r_take map_idI)

text \<open>A field beyond its bound fails the writer and leaves the bytes alone.\<close>

lemma run_w_blob_oversized [codec_simps]:
  "\<not> length bs \<le> min m 0xFFFFFFFF \<Longrightarrow>
   run_state (w_blob bs m) (writing buf) = ((), (writing buf)\<lparr>wr_status := Some Err_Oversized\<rparr>)"
  by (auto simp: w_blob_def w_fail_def)

lemma run_w_text_oversized [codec_simps]:
  "\<not> length s \<le> min m 0xFFFFFFFF \<Longrightarrow>
   run_state (w_text s m) (writing buf) = ((), (writing buf)\<lparr>wr_status := Some Err_Oversized\<rparr>)"
  by (auto simp: w_text_def w_fail_def)

lemmas field_simps_enc [codec_simps] =
  u16.enc_layout u32.enc_layout u64.enc_layout i64.enc_layout boolean.enc_layout blob.enc_layout str.enc_layout

lemmas field_simps_dec [codec_simps] =
  u16.dec_layout u32.dec_layout u64.dec_layout i64.dec_layout boolean.dec_layout blob.dec_layout str.dec_layout
  boolean.dec_layout [simplified]

text \<open>A last field, with nothing behind it.\<close>

lemmas field_simps_dec_last [codec_simps] =
  u16.dec_layout [where rest = "[]", simplified] u32.dec_layout [where rest = "[]", simplified]
  u64.dec_layout [where rest = "[]", simplified] i64.dec_layout [where rest = "[]", simplified] boolean.dec_layout [where rest = "[]", simplified]
  blob.dec_layout [where rest = "[]", simplified] str.dec_layout [where rest = "[]", simplified]

lemmas encode_simps = take_writer_def new_writer_writing codec_simps Let_def
lemmas decode_simps = finish_reader_def new_reader_reading codec_simps Let_def

section \<open>Fixed headers\<close>

text \<open>Headers of fixed size are arrays with fields at fixed offsets.\<close>

definition field_at :: "nat \<Rightarrow> nat \<Rightarrow> bytes \<Rightarrow> 'a::len word" where
  "field_at off n bs = get_le (take n (drop off bs))"

lemma put_get_le:
  assumes "length bs = n" and "LENGTH('a) = 8 * n"
  shows "put_le n (get_le bs :: 'a::len word) = bs"
proof (rule nth_equalityI)
  show "length (put_le n (get_le bs :: 'a word)) = length bs" by (simp add: assms(1))
  fix i assume "i < length (put_le n (get_le bs :: 'a word))"
  then have i: "i < n" by simp
  have "bit (ucast (drop_bit (8 * i) (get_le bs :: 'a word)) :: u8) k = bit (bs ! i) k" for k
  proof (cases "k < 8")
    case True
    then have "(8 * i + k) div 8 = i" "(8 * i + k) mod 8 = k" by auto
    with True i assms show ?thesis by (simp add: bit_simps bit_get_le)
  next
    case False
    then show ?thesis using bit_imp_le_length [of "bs ! i" k] by (auto simp: bit_simps)
  qed
  then have "ucast (drop_bit (8 * i) (get_le bs :: 'a word)) = bs ! i" by (rule bit_eqI)
  with i show "put_le n (get_le bs :: 'a word) ! i = bs ! i" by (simp add: put_le_def)
qed

lemma put_field_at:
  assumes "off + n \<le> length bs" and "LENGTH('a) = 8 * n"
  shows "put_le n (field_at off n bs :: 'a::len word) = take n (drop off bs)"
  unfolding field_at_def using assms by (intro put_get_le) simp_all

lemma take_drop_glue: "take n (drop k bs) @ drop (k + n) bs = drop k bs"
  by (metis append_take_drop_id drop_drop add.commute)

text \<open>
  A header that carries its own checksum: the decoder reads the fields and, when the checksum of what
  it read differs from the stored one, returns a header no caller accepts.
\<close>

locale checksummed =
  fixes layout :: "'h \<Rightarrow> bytes" and fields :: "bytes \<Rightarrow> 'h" and stored computed :: "'h \<Rightarrow> u32"
    and reject :: "'h \<Rightarrow> 'h" and decode :: "bytes \<Rightarrow> 'h"
  assumes fields_layout: "fields (layout h) = h"
    and decode_fields: "decode bs =
      (if computed (fields bs) \<noteq> stored (fields bs) then reject (fields bs) else fields bs)"
begin

lemma decode_sealed: "stored h = computed h \<Longrightarrow> decode (layout h) = h"
  by (simp add: decode_fields fields_layout)

lemma decode_accepted: "decode bs = h \<Longrightarrow> \<forall>h'. h \<noteq> reject h' \<Longrightarrow> fields bs = h \<and> stored h = computed h"
  by (auto simp: decode_fields split: if_splits)

end

section \<open>The message contract\<close>

text \<open>
  What a whole message promises: whatever it encodes to, decoding gives the message back, up to the
  fields the receiver recomputes.
\<close>

locale message_codec =
  fixes ok :: "'a \<Rightarrow> bool" and norm :: "'a \<Rightarrow> 'a"
    and encode :: "'a \<Rightarrow> bytes result" and decode :: "bytes \<Rightarrow> 'a result"
  assumes decode_encode: "encode m = Inr bs \<Longrightarrow> ok m \<Longrightarrow> decode bs = Inr (norm m)"
begin

lemma encode_determines:
  assumes "encode m = Inr bs" and "encode m' = Inr bs" and "ok m" and "ok m'"
  shows "norm m = norm m'"
  using decode_encode [OF assms(1,3)] decode_encode [OF assms(2,4)] by simp

end

text \<open>
  A payload that is one codec followed by the decoder's checks: what the checks accept comes back. A
  value the writer refuses never becomes bytes.
\<close>

locale checked_codec = codec valid layout enc dec
  for valid :: "'a \<Rightarrow> bool" and layout :: "'a \<Rightarrow> bytes" and enc :: "'a \<Rightarrow> (ByteWriter, unit) state"
    and dec :: "(ByteReader, 'a) state" +
  fixes check :: "'a \<Rightarrow> 'a result"
  assumes enc_invalid: "\<not> valid a \<Longrightarrow> \<exists>e. take_writer (enc a) = Inl e"
begin

lemma finish_layout: "valid a \<Longrightarrow> finish_reader dec check (layout a) = check a"
  by (simp add: finish_reader_def dec_new_reader)

lemma enc_Inr: "take_writer (enc a) = Inr bs \<longleftrightarrow> valid a \<and> bs = layout a"
  using enc_invalid [of a] take_writer_enc [of a] by (cases "valid a") auto

end

sublocale checked_codec \<subseteq> message: message_codec "\<lambda>a. \<not> isl (check a)" "\<lambda>a. projr (check a)"
    "\<lambda>a. take_writer (enc a)" "finish_reader dec check"
proof
  show "finish_reader dec check bs = Inr (projr (check m))"
    if "take_writer (enc m) = Inr bs" and "\<not> isl (check m)" for m bs
    using that by (cases "check m") (simp_all add: enc_Inr finish_layout)
qed

end
