(* ===== verification/NCF_Frame.thy ===== *)
theory NCF_Frame
  imports NCF_Codec NCF_Authority
begin

text \<open>
  The framed transport, \<^verbatim>\<open>include/ncf/transport/frame.hpp\<close> and \<^verbatim>\<open>src/transport/frame.cpp\<close>:
  the eighty-byte checksummed header, the frame codec, the streaming decoder, the replay window
  and the payload codecs of the control messages.
\<close>

section \<open>Frames\<close>

datatype FrameType = FrameType (ft_u16: u16)

abbreviation Ft_Invalid :: FrameType where "Ft_Invalid \<equiv> FrameType 0"
abbreviation Ft_Hello :: FrameType where "Ft_Hello \<equiv> FrameType 1"
abbreviation Ft_HelloAck :: FrameType where "Ft_HelloAck \<equiv> FrameType 2"
abbreviation Ft_Evidence :: FrameType where "Ft_Evidence \<equiv> FrameType 3"
abbreviation Ft_EvidenceAck :: FrameType where "Ft_EvidenceAck \<equiv> FrameType 4"
abbreviation Ft_Heartbeat :: FrameType where "Ft_Heartbeat \<equiv> FrameType 5"
abbreviation Ft_HeartbeatAck :: FrameType where "Ft_HeartbeatAck \<equiv> FrameType 6"
abbreviation Ft_Resync :: FrameType where "Ft_Resync \<equiv> FrameType 7"
abbreviation Ft_FenceNotice :: FrameType where "Ft_FenceNotice \<equiv> FrameType 8"
abbreviation Ft_PolicyNotice :: FrameType where "Ft_PolicyNotice \<equiv> FrameType 9"
abbreviation Ft_ErrorNotice :: FrameType where "Ft_ErrorNotice \<equiv> FrameType 10"
abbreviation Ft_Goodbye :: FrameType where "Ft_Goodbye \<equiv> FrameType 11"
abbreviation Ft_Count :: FrameType where "Ft_Count \<equiv> FrameType 12"

definition frame_type_name :: "FrameType \<Rightarrow> string" where
  "frame_type_name t =
     enum_name [''invalid'', ''hello'', ''hello-ack'', ''evidence'', ''evidence-ack'', ''heartbeat'',
       ''heartbeat-ack'', ''resync'', ''fence-notice'', ''policy-notice'', ''error-notice'',
       ''goodbye'', ''count''] ''invalid'' (unat (ft_u16 t))"

definition is_valid_frame_type :: "FrameType \<Rightarrow> bool" where
  "is_valid_frame_type t \<longleftrightarrow> ft_u16 t > ft_u16 Ft_Invalid \<and> ft_u16 t < ft_u16 Ft_Count"

definition kFrameFlagReply :: u16 where [ncf_defs]: "kFrameFlagReply = 1"
definition kFrameFlagFinal :: u16 where [ncf_defs]: "kFrameFlagFinal = 2"
definition kFrameFlagCompressed :: u16 where [ncf_defs]: "kFrameFlagCompressed = 4"
definition kFrameFlagExtended :: u16 where [ncf_defs]: "kFrameFlagExtended = 8"

definition kFrameMagic :: u32 where [ncf_defs]: "kFrameMagic = 0x4E434644"
definition kFrameHeaderSize :: nat where [ncf_defs]: "kFrameHeaderSize = 80"

record FrameHeader =
  fh_magic :: u32
  fh_format :: u16
  fh_type :: u16
  fh_flags :: u16
  fh_reserved :: u16
  fh_payload_len :: u32
  fh_header_crc :: u32
  fh_payload_crc :: u32
  fh_epoch :: u64
  fh_boot :: u64
  fh_publisher :: u64
  fh_connection :: u64
  fh_sequence :: u64
  fh_nonce :: u64
  fh_reserved2 :: u32
  fh_reserved3 :: u32

text \<open>The \<^verbatim>\<open>put_u*\<close> calls fill the array at consecutive offsets without a gap.\<close>

definition encode_frame_header :: "FrameHeader \<Rightarrow> bytes" where
  "encode_frame_header h =
     put_le 4 (fh_magic h) @ put_le 2 (fh_format h) @ put_le 2 (fh_type h) @ put_le 2 (fh_flags h) @
     put_le 2 (fh_reserved h) @ put_le 4 (fh_payload_len h) @ put_le 4 (fh_header_crc h) @
     put_le 4 (fh_payload_crc h) @ put_le 8 (fh_epoch h) @ put_le 8 (fh_boot h) @
     put_le 8 (fh_publisher h) @ put_le 8 (fh_connection h) @ put_le 8 (fh_sequence h) @
     put_le 8 (fh_nonce h) @ put_le 4 (fh_reserved2 h) @ put_le 4 (fh_reserved3 h)"

definition computed_header_crc :: "FrameHeader \<Rightarrow> u32" where
  "computed_header_crc h = crc32c (encode_frame_header (h\<lparr>fh_header_crc := 0\<rparr>))"

definition decode_frame_header :: "bytes \<Rightarrow> FrameHeader" where
  "decode_frame_header bs =
     (let h = \<lparr>fh_magic = field_at 0 4 bs, fh_format = field_at 4 2 bs, fh_type = field_at 6 2 bs,
               fh_flags = field_at 8 2 bs, fh_reserved = field_at 10 2 bs,
               fh_payload_len = field_at 12 4 bs, fh_header_crc = field_at 16 4 bs,
               fh_payload_crc = field_at 20 4 bs, fh_epoch = field_at 24 8 bs,
               fh_boot = field_at 32 8 bs, fh_publisher = field_at 40 8 bs,
               fh_connection = field_at 48 8 bs, fh_sequence = field_at 56 8 bs,
               fh_nonce = field_at 64 8 bs, fh_reserved2 = field_at 72 4 bs,
               fh_reserved3 = field_at 76 4 bs\<rparr>
      in if computed_header_crc h \<noteq> fh_header_crc h then h\<lparr>fh_magic := 0\<rparr> else h)"

record Frame =
  fm_header :: FrameHeader
  fm_payload :: bytes

definition fm_type :: "Frame \<Rightarrow> FrameType" where
  "fm_type f = FrameType (fh_type (fm_header f))"

definition sets_reserved_flag :: "u16 \<Rightarrow> bool" where
  "sets_reserved_flag flags \<longleftrightarrow> flags AND kFrameFlagCompressed \<noteq> 0 \<or> flags AND kFrameFlagExtended \<noteq> 0"

definition sealed_header :: "Frame \<Rightarrow> FrameHeader" where
  "sealed_header f =
     (let h = (fm_header f)\<lparr>fh_magic := kFrameMagic, fh_format := kFormatVersion,
                fh_type := ft_u16 (fm_type f), fh_payload_len := of_nat (length (fm_payload f)),
                fh_payload_crc := crc32c (fm_payload f), fh_reserved2 := 0, fh_reserved3 := 0\<rparr>
      in h\<lparr>fh_header_crc := computed_header_crc h\<rparr>)"

text \<open>Appends to \<open>out\<close>.\<close>

definition frame_encode :: "Frame \<Rightarrow> bytes \<Rightarrow> bytes result" where
  "frame_encode f out =
     (if \<not> is_valid_frame_type (fm_type f) then Inl Err_InvalidArgument
      else if length (fm_payload f) > kMaxFramePayload then Inl Err_Oversized
      else if sets_reserved_flag (fh_flags (fm_header f)) then Inl Err_Unsupported
      else Inr (out @ encode_frame_header (sealed_header f) @ fm_payload f))"

definition frame_decode :: "bytes \<Rightarrow> Frame result" where
  "frame_decode bs =
     (if length bs < kFrameHeaderSize then Inl Err_Truncated
      else
        let h = decode_frame_header (take kFrameHeaderSize bs)
        in if fh_magic h \<noteq> kFrameMagic then Inl Err_IntegrityFailure
           else if fh_format h \<noteq> kFormatVersion then Inl Err_Unsupported
           else if \<not> is_valid_frame_type (FrameType (fh_type h)) then Inl Err_Malformed
           else if sets_reserved_flag (fh_flags h) then Inl Err_Unsupported
           else if unat (fh_payload_len h) > kMaxFramePayload then Inl Err_Oversized
           else if length bs \<noteq> kFrameHeaderSize + unat (fh_payload_len h) then Inl Err_Malformed
           else
             let payload = take (unat (fh_payload_len h)) (drop kFrameHeaderSize bs)
             in if crc32c payload \<noteq> fh_payload_crc h then Inl Err_IntegrityFailure
                else Inr \<lparr>fm_header = h, fm_payload = payload\<rparr>)"

section \<open>The streaming decoder\<close>

record FrameDecoder =
  fd_buffer :: bytes
  fd_consumed :: nat
  fd_max_payload :: nat
  fd_max_buffered :: nat
  fd_failed :: bool

definition default_decoder :: FrameDecoder where
  "default_decoder =
     \<lparr>fd_buffer = [], fd_consumed = 0, fd_max_payload = kMaxFramePayload,
      fd_max_buffered = kMaxFramePayload * 4, fd_failed = False\<rparr>"

definition decoder_push :: "bytes \<Rightarrow> FrameDecoder \<Rightarrow> void_result \<times> FrameDecoder" where
  "decoder_push bs d0 =
     (if fd_failed d0 then (Inl Err_Malformed, d0)
      else
        let d = (if fd_consumed d0 > 0 \<and> fd_consumed d0 = length (fd_buffer d0)
                 then d0\<lparr>fd_buffer := [], fd_consumed := 0\<rparr> else d0)
        in if length (fd_buffer d) + length bs > fd_max_buffered d
           then (Inl Err_Oversized, d\<lparr>fd_failed := True\<rparr>)
           else (Inr (), d\<lparr>fd_buffer := fd_buffer d @ bs\<rparr>))"

definition decoder_next :: "FrameDecoder \<Rightarrow> Frame option result \<times> FrameDecoder" where
  "decoder_next d =
     (if fd_failed d then (Inl Err_Malformed, d)
      else
        let available = length (fd_buffer d) - fd_consumed d
        in if available < kFrameHeaderSize then (Inr None, d)
           else
             let rest = drop (fd_consumed d) (fd_buffer d);
                 h = decode_frame_header (take kFrameHeaderSize rest)
             in if fh_magic h \<noteq> kFrameMagic then (Inl Err_IntegrityFailure, d\<lparr>fd_failed := True\<rparr>)
                else if fh_format h \<noteq> kFormatVersion then (Inl Err_Unsupported, d\<lparr>fd_failed := True\<rparr>)
                else if \<not> is_valid_frame_type (FrameType (fh_type h))
                then (Inl Err_Malformed, d\<lparr>fd_failed := True\<rparr>)
                else if unat (fh_payload_len h) > fd_max_payload d
                then (Inl Err_Oversized, d\<lparr>fd_failed := True\<rparr>)
                else
                  let total = kFrameHeaderSize + unat (fh_payload_len h)
                  in if available < total then (Inr None, d)
                     else case frame_decode (take total rest) of
                         Inl e \<Rightarrow> (Inl e, d\<lparr>fd_failed := True\<rparr>)
                       | Inr f \<Rightarrow> (Inr (Some f), d\<lparr>fd_consumed := fd_consumed d + total\<rparr>))"

definition decoder_reset :: "FrameDecoder \<Rightarrow> FrameDecoder" where
  "decoder_reset d = d\<lparr>fd_buffer := [], fd_consumed := 0, fd_failed := False\<rparr>"

section \<open>The replay window\<close>

record SequenceWindow =
  sw_window :: nat
  sw_highest :: u64
  sw_started :: bool
  sw_recent :: "u64 list"

definition new_window :: "nat \<Rightarrow> SequenceWindow" where
  "new_window window =
     \<lparr>sw_window = (if window \<noteq> 0 then window else 1), sw_highest = 0, sw_started = False, sw_recent = []\<rparr>"

datatype Verdict = Vd_Accept | Vd_Duplicate | Vd_Regressed | Vd_TooFarAhead

definition observe :: "u64 \<Rightarrow> SequenceWindow \<Rightarrow> Verdict \<times> SequenceWindow" where
  "observe sequence w =
     (if \<not> sw_started w then
        (Vd_Accept, w\<lparr>sw_started := True, sw_highest := sequence, sw_recent := [sequence]\<rparr>)
      else if sequence \<le> sw_highest w then
        if sequence + of_nat (sw_window w) < sw_highest w then (Vd_Regressed, w)
        else if sequence \<in> set (sw_recent w) then (Vd_Duplicate, w)
        else (Vd_Regressed, w)
      else if sequence - sw_highest w > kMaxSequenceGap then (Vd_TooFarAhead, w)
      else
        let recent = sw_recent w @ [sequence]
        in (Vd_Accept,
            w\<lparr>sw_highest := sequence,
              sw_recent := (if length recent > sw_window w
                            then drop (length recent - sw_window w) recent else recent)\<rparr>))"

definition make_nonce :: "u64 \<Rightarrow> u64 \<Rightarrow> u64" where
  "make_nonce a b =
     (let v1 = a * 0x9E3779B97F4A7C15;
          v2 = v1 XOR (b + 0x165667B19E3779F9 + push_bit 6 v1 + drop_bit 2 v1);
          v3 = v2 XOR drop_bit 29 v2;
          v4 = v3 * 0xBF58476D1CE4E5B9
      in v4 XOR drop_bit 32 v4)"

section \<open>Control payloads\<close>

record HelloMessage =
  hm_publisher :: PublisherId
  hm_boot :: BootId
  hm_generation :: EvidenceGeneration
  hm_start_sequence :: u64
  hm_requested :: AuthoritySet
  hm_agent :: string

record HelloAckMessage =
  ha_epoch :: EpochId
  ha_authority_generation :: AuthorityGeneration
  ha_coordinator_boot :: BootId
  ha_granted :: AuthoritySet
  ha_coordinator_tick :: Tick
  ha_accepted :: bool
  ha_reason :: string

record EvidenceAckMessage =
  ea_epoch :: EpochId
  ea_accepted :: u64
  ea_rejected :: u64
  ea_duplicate :: u64
  ea_fenced :: u64

record ErrorMessage =
  em_code :: ErrCode
  em_message :: string

record FenceMessage =
  fn_epoch :: EpochId
  fn_reason :: FenceReason
  fn_detail :: string

record PolicyMessage =
  pm_policy :: PolicyId
  pm_version :: u32
  pm_fingerprint :: Hash64

definition encode_hello :: "HelloMessage \<Rightarrow> bytes result" where
  "encode_hello m = take_writer (do {
     w_u64 (hm_publisher m); w_u64 (hm_boot m); w_u64 (hm_generation m); w_u64 (hm_start_sequence m);
     w_u32 (hm_requested m); w_text (hm_agent m) 128 })"

definition decode_hello :: "bytes \<Rightarrow> HelloMessage result" where
  "decode_hello = finish_reader (do {
     publisher \<leftarrow> r_u64; boot \<leftarrow> r_u64; generation \<leftarrow> r_u64; start_sequence \<leftarrow> r_u64;
     requested \<leftarrow> r_u32; agent \<leftarrow> r_text 128;
     State_Monad.return \<lparr>hm_publisher = publisher, hm_boot = boot, hm_generation = generation,
       hm_start_sequence = start_sequence, hm_requested = requested, hm_agent = agent\<rparr> })
     (\<lambda>m. if \<not> id_valid (hm_publisher m) \<or> \<not> id_valid (hm_boot m) then Inl Err_Malformed
          else if hm_requested m AND NOT kAuthorityAllBits \<noteq> 0 then Inl Err_Malformed
          else Inr m)"

definition encode_hello_ack :: "HelloAckMessage \<Rightarrow> bytes result" where
  "encode_hello_ack m = take_writer (do {
     w_u64 (ha_epoch m); w_u64 (ha_authority_generation m); w_u64 (ha_coordinator_boot m);
     w_u32 (ha_granted m); w_u64 (ha_coordinator_tick m); w_boolean (ha_accepted m);
     w_text (ha_reason m) 256 })"

definition decode_hello_ack :: "bytes \<Rightarrow> HelloAckMessage result" where
  "decode_hello_ack = finish_reader (do {
     epoch \<leftarrow> r_u64; generation \<leftarrow> r_u64; boot \<leftarrow> r_u64; granted \<leftarrow> r_u32; tick \<leftarrow> r_u64;
     accepted \<leftarrow> r_boolean; reason \<leftarrow> r_text 256;
     State_Monad.return \<lparr>ha_epoch = epoch, ha_authority_generation = generation,
       ha_coordinator_boot = boot, ha_granted = granted, ha_coordinator_tick = tick,
       ha_accepted = accepted, ha_reason = reason\<rparr> }) Inr"

definition w_metric :: "MetricReading \<Rightarrow> (ByteWriter, unit) state" where
  "w_metric r = do { w_u16 (mk_u16 (mr_kind r)); w_u64 (mr_value r) }"

definition w_sample :: "EvidenceSample \<Rightarrow> (ByteWriter, unit) state" where
  "w_sample s = do {
     w_u64 (es_resource s); w_u64 (es_queue s); w_u64 (es_publisher s); w_u64 (es_publisher_boot s);
     w_u64 (es_epoch s); w_u64 (es_generation s); w_u64 (es_sequence s); w_u64 (es_observed_tick s);
     w_u32 (es_flags s); w_u64 (of_nat (length (es_metrics s))); w_each w_metric (es_metrics s) }"

definition encode_evidence :: "EvidenceBatch \<Rightarrow> bytes result" where
  "encode_evidence b =
     (if length (eb_samples b) > kMaxEvidencePerBatch then Inl Err_Oversized
      else take_writer (do {
        w_u64 (eb_epoch b); w_u64 (eb_provenance b); w_u64 (eb_submitted_tick b);
        w_u64 (of_nat (length (eb_samples b))); w_each w_sample (eb_samples b) }))"

text \<open>The metric loop of \<^verbatim>\<open>decode_evidence\<close>; a refused reading ends the whole decode.\<close>

primrec r_metrics :: "nat \<Rightarrow> MetricSet \<Rightarrow> (ByteReader, MetricSet result) state" where
  "r_metrics 0 ms = State_Monad.return (Inr ms)"
| "r_metrics (Suc n) ms = do {
     good \<leftarrow> r_ok;
     if \<not> good then State_Monad.return (Inr ms)
     else do {
       kind \<leftarrow> r_u16;
       value \<leftarrow> r_u64;
       case ms_set (MetricKind kind) value ms of
         Inl e \<Rightarrow> State_Monad.return (Inl e)
       | Inr ms' \<Rightarrow> r_metrics n ms'
     }
   }"

definition received :: "EvidenceSample \<Rightarrow> EvidenceSample" where
  "received s =
     (let s1 = s\<lparr>es_received_tick := 0\<rparr> in s1\<lparr>es_snapshot := compute_snapshot_id s1\<rparr>)"

definition r_sample :: "(ByteReader, EvidenceSample result) state" where
  "r_sample = do {
     resource \<leftarrow> r_u64; queue \<leftarrow> r_u64; publisher \<leftarrow> r_u64; boot \<leftarrow> r_u64; epoch \<leftarrow> r_u64;
     generation \<leftarrow> r_u64; sequence \<leftarrow> r_u64; observed \<leftarrow> r_u64; flags \<leftarrow> r_u32;
     metric_count \<leftarrow> r_u64;
     if unat metric_count > kMaxMetricReadings then State_Monad.return (Inl Err_Oversized)
     else do {
       metrics \<leftarrow> r_metrics (unat metric_count) [];
       r \<leftarrow> State_Monad.get;
       State_Monad.return (case metrics of
         Inl e \<Rightarrow> Inl e
       | Inr ms \<Rightarrow>
           (case rd_status r of
              Some e \<Rightarrow> Inl e
            | None \<Rightarrow>
                if \<not> id_valid resource then Inl Err_Malformed
                else Inr (received
                  \<lparr>es_resource = resource, es_queue = queue, es_metrics = ms, es_publisher = publisher,
                   es_publisher_boot = boot, es_epoch = epoch, es_generation = generation,
                   es_sequence = sequence, es_observed_tick = observed, es_received_tick = kNoTick,
                   es_provenance = 0, es_snapshot = 0, es_flags = flags\<rparr>)))
     }
   }"

primrec r_samples :: "nat \<Rightarrow> EvidenceSample list \<Rightarrow> (ByteReader, EvidenceSample list result) state" where
  "r_samples 0 acc = State_Monad.return (Inr acc)"
| "r_samples (Suc n) acc = do {
     good \<leftarrow> r_ok;
     if \<not> good then State_Monad.return (Inr acc)
     else do {
       sample \<leftarrow> r_sample;
       case sample of
         Inl e \<Rightarrow> State_Monad.return (Inl e)
       | Inr s \<Rightarrow> r_samples n (acc @ [s])
     }
   }"

definition decode_evidence :: "bytes \<Rightarrow> EvidenceBatch result" where
  "decode_evidence payload =
     (let (res, r) = run_state (do {
        epoch \<leftarrow> r_u64; provenance \<leftarrow> r_u64; submitted \<leftarrow> r_u64; count \<leftarrow> r_u64;
        if unat count > kMaxEvidencePerBatch then State_Monad.return (Inl Err_Oversized)
        else do {
          samples \<leftarrow> r_samples (unat count) [];
          State_Monad.return (case samples of
            Inl e \<Rightarrow> Inl e
          | Inr ss \<Rightarrow> Inr \<lparr>eb_id = 0, eb_epoch = epoch, eb_provenance = provenance,
                            eb_submitted_tick = submitted, eb_samples = ss\<rparr>)
        } }) (new_reader payload)
      in case res of
          Inl e \<Rightarrow> Inl e
        | Inr b \<Rightarrow> (case rd_status r of
                      Some e \<Rightarrow> Inl e
                    | None \<Rightarrow> Inr (b\<lparr>eb_id := compute_batch_id b\<rparr>)))"

definition encode_evidence_ack :: "EvidenceAckMessage \<Rightarrow> bytes result" where
  "encode_evidence_ack m = take_writer (do {
     w_u64 (ea_epoch m); w_u64 (ea_accepted m); w_u64 (ea_rejected m); w_u64 (ea_duplicate m);
     w_u64 (ea_fenced m) })"

definition decode_evidence_ack :: "bytes \<Rightarrow> EvidenceAckMessage result" where
  "decode_evidence_ack = finish_reader (do {
     epoch \<leftarrow> r_u64; accepted \<leftarrow> r_u64; rejected \<leftarrow> r_u64; duplicate \<leftarrow> r_u64; fenced \<leftarrow> r_u64;
     State_Monad.return \<lparr>ea_epoch = epoch, ea_accepted = accepted, ea_rejected = rejected,
       ea_duplicate = duplicate, ea_fenced = fenced\<rparr> }) Inr"

definition encode_error :: "ErrorMessage \<Rightarrow> bytes result" where
  "encode_error m = take_writer (do { w_u16 (err_u16 (em_code m)); w_text (em_message m) 512 })"

definition decode_error :: "bytes \<Rightarrow> ErrorMessage result" where
  "decode_error = finish_reader (do {
     code \<leftarrow> r_u16; text \<leftarrow> r_text 512;
     State_Monad.return \<lparr>em_code = ErrCode code, em_message = text\<rparr> }) Inr"

definition encode_fence_notice :: "FenceMessage \<Rightarrow> bytes result" where
  "encode_fence_notice m = take_writer (do {
     w_u64 (fn_epoch m); w_u8 (fr_u8 (fn_reason m)); w_text (fn_detail m) 512 })"

definition decode_fence_notice :: "bytes \<Rightarrow> FenceMessage result" where
  "decode_fence_notice = finish_reader (do {
     epoch \<leftarrow> r_u64; reason \<leftarrow> r_u8; detail \<leftarrow> r_text 512;
     State_Monad.return \<lparr>fn_epoch = epoch, fn_reason = FenceReason reason, fn_detail = detail\<rparr> }) Inr"

definition encode_policy_notice :: "PolicyMessage \<Rightarrow> bytes result" where
  "encode_policy_notice m = take_writer (do {
     w_u64 (pm_policy m); w_u32 (pm_version m); w_u64 (pm_fingerprint m) })"

definition decode_policy_notice :: "bytes \<Rightarrow> PolicyMessage result" where
  "decode_policy_notice = finish_reader (do {
     policy \<leftarrow> r_u64; version \<leftarrow> r_u32; fingerprint \<leftarrow> r_u64;
     State_Monad.return \<lparr>pm_policy = policy, pm_version = version, pm_fingerprint = fingerprint\<rparr> }) Inr"

section \<open>The header is a bijection\<close>

lemma length_encode_frame_header [simp]: "length (encode_frame_header h) = 80"
  by (simp add: encode_frame_header_def)

definition header_fields :: "bytes \<Rightarrow> FrameHeader" where
  "header_fields bs =
     \<lparr>fh_magic = field_at 0 4 bs, fh_format = field_at 4 2 bs, fh_type = field_at 6 2 bs,
      fh_flags = field_at 8 2 bs, fh_reserved = field_at 10 2 bs,
      fh_payload_len = field_at 12 4 bs, fh_header_crc = field_at 16 4 bs,
      fh_payload_crc = field_at 20 4 bs, fh_epoch = field_at 24 8 bs,
      fh_boot = field_at 32 8 bs, fh_publisher = field_at 40 8 bs,
      fh_connection = field_at 48 8 bs, fh_sequence = field_at 56 8 bs,
      fh_nonce = field_at 64 8 bs, fh_reserved2 = field_at 72 4 bs, fh_reserved3 = field_at 76 4 bs\<rparr>"

lemma decode_frame_header_fields:
  "decode_frame_header bs =
     (if computed_header_crc (header_fields bs) \<noteq> fh_header_crc (header_fields bs)
      then (header_fields bs)\<lparr>fh_magic := 0\<rparr> else header_fields bs)"
  by (simp add: decode_frame_header_def header_fields_def Let_def)

lemma header_fields_encode: "header_fields (encode_frame_header h) = h"
  by (cases h) (simp add: header_fields_def encode_frame_header_def field_at_def)

lemma encode_header_fields:
  assumes "length bs = 80"
  shows "encode_frame_header (header_fields bs) = bs"
    and "encode_frame_header ((header_fields bs)\<lparr>fh_header_crc := 0\<rparr>) = take 16 bs @ [0, 0, 0, 0] @ drop 20 bs"
proof -
  have zero: "put_le 4 (0 :: u32) = [0, 0, 0, 0]" by (simp add: put_le_def upt_conv_Cons)
  note glue = take_drop_glue [of _ _ bs, simplified]
  let ?f = "\<lambda>off n. take n (drop off bs)"
  have tail: "?f 20 4 @ ?f 24 8 @ ?f 32 8 @ ?f 40 8 @ ?f 48 8 @ ?f 56 8 @ ?f 64 8 @ ?f 72 4 @ ?f 76 4 = drop 20 bs"
    using glue [of 4 20] glue [of 8 24] glue [of 8 32] glue [of 8 40] glue [of 8 48] glue [of 8 56]
      glue [of 8 64] glue [of 4 72] assms by simp
  have head: "?f 0 4 @ ?f 4 2 @ ?f 6 2 @ ?f 8 2 @ ?f 10 2 @ ?f 12 4 = take 16 bs"
    using take_add [of 4 2 bs] take_add [of 6 2 bs] take_add [of 8 2 bs] take_add [of 10 2 bs] take_add [of 12 4 bs]
    by simp
  have crc: "take 16 bs @ ?f 16 4 @ drop 20 bs = bs"
    using glue [of 4 16] by simp
  have puts: "encode_frame_header ((header_fields bs)\<lparr>fh_header_crc := c\<rparr>) =
      take 16 bs @ put_le 4 c @ drop 20 bs" for c
  proof -
    have "encode_frame_header ((header_fields bs)\<lparr>fh_header_crc := c\<rparr>) =
        (?f 0 4 @ ?f 4 2 @ ?f 6 2 @ ?f 8 2 @ ?f 10 2 @ ?f 12 4) @ put_le 4 c @
        (?f 20 4 @ ?f 24 8 @ ?f 32 8 @ ?f 40 8 @ ?f 48 8 @ ?f 56 8 @ ?f 64 8 @ ?f 72 4 @ ?f 76 4)"
      using assms by (simp add: encode_frame_header_def header_fields_def put_field_at)
    then show ?thesis by (simp only: head tail)
  qed
  show "encode_frame_header ((header_fields bs)\<lparr>fh_header_crc := 0\<rparr>) = take 16 bs @ [0, 0, 0, 0] @ drop 20 bs"
    by (simp add: puts zero)
  have "header_fields bs = (header_fields bs)\<lparr>fh_header_crc := field_at 16 4 bs\<rparr>"
    by (simp add: header_fields_def)
  then have "encode_frame_header (header_fields bs) = take 16 bs @ put_le 4 (field_at 16 4 bs :: u32) @ drop 20 bs"
    using puts [of "field_at 16 4 bs"] by simp
  also have "\<dots> = bs" using crc assms by (simp add: put_field_at)
  finally show "encode_frame_header (header_fields bs) = bs" .
qed

interpretation frame_header: checksummed encode_frame_header header_fields fh_header_crc computed_header_crc
  "fh_magic_update (\<lambda>_. 0)" decode_frame_header
  by unfold_locales (simp_all add: decode_frame_header_fields header_fields_encode)

lemmas computed_crc_sealed = frame_header.decode_sealed

lemma sealed_header_simps:
  "fh_header_crc (sealed_header f) = computed_header_crc (sealed_header f)"
  "fh_magic (sealed_header f) = kFrameMagic" "fh_format (sealed_header f) = kFormatVersion"
  "fh_type (sealed_header f) = fh_type (fm_header f)" "fh_flags (sealed_header f) = fh_flags (fm_header f)"
  "fh_payload_len (sealed_header f) = of_nat (length (fm_payload f))"
  "fh_payload_crc (sealed_header f) = crc32c (fm_payload f)"
  by (simp_all add: sealed_header_def computed_header_crc_def fm_type_def Let_def)

definition frame_ok :: "Frame \<Rightarrow> bool" where
  "frame_ok f \<longleftrightarrow> is_valid_frame_type (fm_type f) \<and> length (fm_payload f) \<le> kMaxFramePayload \<and>
     \<not> sets_reserved_flag (fh_flags (fm_header f))"

definition wire :: "Frame \<Rightarrow> bytes" where
  "wire f = encode_frame_header (sealed_header f) @ fm_payload f"

definition sealed :: "Frame \<Rightarrow> Frame" where
  "sealed f = \<lparr>fm_header = sealed_header f, fm_payload = fm_payload f\<rparr>"

lemma frame_encode_Inr: "frame_encode f out = Inr bs \<longleftrightarrow> frame_ok f \<and> bs = out @ wire f"
  by (auto simp: frame_encode_def frame_ok_def wire_def)

lemma length_wire: "length (wire f) = 80 + length (fm_payload f)"
  by (simp add: wire_def)

lemma payload_len_unat: "frame_ok f \<Longrightarrow> unat (of_nat (length (fm_payload f)) :: u32) = length (fm_payload f)"
  by (simp add: frame_ok_def unat_of_nat kMaxFramePayload_def)

lemma frame_decode_wire: "frame_ok f \<Longrightarrow> frame_decode (wire f) = Inr (sealed f)"
  unfolding frame_decode_def
  by (simp add: length_wire kFrameHeaderSize_def Let_def)
    (simp add: wire_def computed_crc_sealed sealed_header_simps payload_len_unat sealed_def,
      simp add: frame_ok_def fm_type_def)

text \<open>A frame survives the wire. Whatever \<^verbatim>\<open>FrameCodec::encode\<close> accepts, \<^verbatim>\<open>FrameCodec::decode\<close> reads
  back: the same payload under the same type, flags and identities, with the magic, version, length
  and checksums the encoder sealed it with; and the bytes are the eighty of the header and the payload.\<close>

theorem frame_roundtrip:
  assumes "frame_encode f out = Inr bs"
  shows "\<exists>w. bs = out @ w \<and> length w = kFrameHeaderSize + length (fm_payload f) \<and>
    frame_decode w = Inr \<lparr>fm_header = sealed_header f, fm_payload = fm_payload f\<rparr>"
  using assms frame_decode_wire [of f] length_wire [of f]
  by (auto simp: frame_encode_Inr sealed_def kFrameHeaderSize_def)

section \<open>Corruption\<close>

text \<open>Where a burst may fall: on one side of the header checksum, on it, or in the payload.\<close>

definition burst_place :: "nat \<Rightarrow> nat \<Rightarrow> bool" where
  "burst_place off n \<longleftrightarrow> off + n \<le> 16 \<or> (16 \<le> off \<and> off + n \<le> 20) \<or> (20 \<le> off \<and> off + n \<le> 80) \<or> 80 \<le> off"

lemma header_magic_accepted:
  assumes "length bs = 80" and "fh_magic (decode_frame_header bs) = kFrameMagic"
  shows "crc32c (take 16 bs @ [0, 0, 0, 0] @ drop 20 bs) = get_le (take 4 (drop 16 bs))"
proof -
  have "computed_header_crc (header_fields bs) = fh_header_crc (header_fields bs)"
    using assms(2) by (auto simp: decode_frame_header_fields kFrameMagic_def split: if_splits)
  moreover have "fh_header_crc (header_fields bs) = get_le (take 4 (drop 16 bs))"
    by (simp add: header_fields_def field_at_def)
  ultimately show ?thesis
    by (simp add: computed_header_crc_def encode_header_fields(2) [OF assms(1)])
qed

lemma header_burst_rejected:
  assumes len: "length (pre @ xs @ post) = 80" "length xs = length ys" "length xs \<le> 4" and "xs \<noteq> ys"
    and place: "burst_place (length pre) (length xs)"
    and good: "fh_magic (decode_frame_header (pre @ xs @ post)) = kFrameMagic"
  shows "fh_magic (decode_frame_header (pre @ ys @ post)) \<noteq> kFrameMagic"
proof
  assume bad: "fh_magic (decode_frame_header (pre @ ys @ post)) = kFrameMagic"
  have len': "length (pre @ ys @ post) = 80" using len by simp
  note x = header_magic_accepted [OF len(1) good] and y = header_magic_accepted [OF len' bad]
  consider (before) "length pre + length xs \<le> 16" | (crc) "16 \<le> length pre" "length pre + length xs \<le> 20"
    | (after) "20 \<le> length pre"
    using place len(1) by (fastforce simp: burst_place_def)
  then show False
  proof cases
    case before
    let ?post = "take (16 - length pre - length xs) post @ [0, 0, 0, 0] @ drop (20 - length pre - length xs) post"
    have "crc32c (pre @ xs @ ?post) = crc32c (pre @ ys @ ?post)"
      using x y before len(2) by simp
    with crc32c_burst_inj [OF len(2,3)] \<open>xs \<noteq> ys\<close> show False by blast
  next
    case crc
    have stored: "(get_le (take 4 (drop 16 (pre @ xs @ post))) :: u32) = get_le (take 4 (drop 16 (pre @ ys @ post)))"
      using x y crc len(2) by simp
    have "take 4 (drop 16 (pre @ xs @ post)) = take 4 (drop 16 (pre @ ys @ post))"
    proof (rule get_le_inj [OF _ _ stored])
      show "length (take 4 (drop 16 (pre @ xs @ post))) = length (take 4 (drop 16 (pre @ ys @ post)))"
        using len(2) by simp
      show "length (take 4 (drop 16 (pre @ xs @ post))) \<le> 4" by (simp only: length_take min.cobounded2)
    qed
    with crc len(2) \<open>xs \<noteq> ys\<close> show False
      by (simp add: min_def split: if_splits)
  next
    case after
    let ?pre = "take 16 pre @ [0, 0, 0, 0] @ drop 20 pre"
    have "crc32c (?pre @ xs @ post) = crc32c (?pre @ ys @ post)"
      using x y after len(2) by simp
    with crc32c_burst_inj [OF len(2,3)] \<open>xs \<noteq> ys\<close> show False by blast
  qed
qed

text \<open>C24: corruption on the wire is refused. Take any encoded frame and change the bytes inside a window of
  at most four consecutive bytes that lies in the payload, in the header on one side of the header
  checksum, or on that checksum: decoding the result is an integrity failure.\<close>

theorem frame_burst_refused:
  assumes "frame_encode f [] = Inr (pre @ xs @ post)"
    and "length xs = length ys" and "length xs \<le> 4" and "xs \<noteq> ys"
    and "burst_place (length pre) (length xs)"
  shows "frame_decode (pre @ ys @ post) = Inl Err_IntegrityFailure"
proof (cases "80 \<le> length pre")
  case True
  have ok: "frame_ok f" and w: "wire f = pre @ xs @ post" using assms(1) by (auto simp: frame_encode_Inr)
  have header: "take 80 pre = encode_frame_header (sealed_header f)"
    using w True by (auto simp: wire_def append_eq_append_conv_if)
  have payload: "fm_payload f = drop 80 pre @ xs @ post"
    using w True by (auto simp: wire_def append_eq_append_conv_if)
  have "crc32c (drop 80 pre @ ys @ post) \<noteq> crc32c (fm_payload f)"
    unfolding payload using crc32c_burst_inj [OF assms(2,3)] assms(4) by metis
  moreover have "length (fm_payload f) = length pre - 80 + length ys + length post"
    using payload assms(2) by simp
  ultimately show ?thesis
    using True ok header payload_len_unat [OF ok]
    by (simp add: frame_decode_def kFrameHeaderSize_def Let_def computed_crc_sealed sealed_header_simps
        frame_ok_def fm_type_def)
next
  case False
  have ok: "frame_ok f" and w: "wire f = pre @ xs @ post" using assms(1) by (auto simp: frame_encode_Inr)
  have fits: "length pre + length xs \<le> 80" using assms(3,5) False by (auto simp: burst_place_def)
  let ?post = "take (80 - length pre - length xs) post"
  have split: "take 80 (wire f) = pre @ xs @ ?post" using fits by (simp add: w)
  have enc: "pre @ xs @ ?post = encode_frame_header (sealed_header f)"
    unfolding split [symmetric] by (simp add: wire_def)
  have "fh_magic (decode_frame_header (pre @ xs @ ?post)) = kFrameMagic" "length (pre @ xs @ ?post) = 80"
    unfolding enc by (simp_all add: computed_crc_sealed sealed_header_simps)
  then have "fh_magic (decode_frame_header (pre @ ys @ ?post)) \<noteq> kFrameMagic"
    using header_burst_rejected assms(2-5) by blast
  moreover have "take 80 (pre @ ys @ post) = pre @ ys @ ?post" using fits assms(2) by simp
  moreover have "80 \<le> length (pre @ ys @ post)"
    using length_wire [of f] assms(2) by (simp add: w)
  ultimately show ?thesis by (simp add: frame_decode_def kFrameHeaderSize_def Let_def)
qed

section \<open>The stream decoder under any interleaving\<close>

datatype DecoderOp = Push bytes | Next

text \<open>What a caller sees: the frames pulled so far, and whether any call has failed.\<close>

definition decoder_op :: "DecoderOp \<Rightarrow> FrameDecoder \<times> Frame list \<times> bool \<Rightarrow> FrameDecoder \<times> Frame list \<times> bool" where
  "decoder_op op st =
     (case st of (d, pulled, bad) \<Rightarrow>
       (case op of
          Push bs \<Rightarrow>
            (case decoder_push bs d of
               (Inl _, d') \<Rightarrow> (d', pulled, True)
             | (Inr _, d') \<Rightarrow> (d', pulled, bad))
        | Next \<Rightarrow>
            (case decoder_next d of
               (Inl _, d') \<Rightarrow> (d', pulled, True)
             | (Inr None, d') \<Rightarrow> (d', pulled, bad)
             | (Inr (Some f), d') \<Rightarrow> (d', pulled @ [f], bad))))"

definition pushed :: "DecoderOp list \<Rightarrow> bytes" where
  "pushed ops = concat (map (\<lambda>op. case op of Push bs \<Rightarrow> bs | Next \<Rightarrow> []) ops)"

definition unread :: "FrameDecoder \<Rightarrow> bytes" where
  "unread d = drop (fd_consumed d) (fd_buffer d)"

text \<open>
  What should have been delivered: a pull is due the next frame as soon as all of its bytes have been pushed, and then takes
  it. The number of frames out after some operations, from the number of bytes pushed and of frames out before.
\<close>

definition frame_due :: "Frame list \<Rightarrow> nat \<Rightarrow> nat \<Rightarrow> bool" where
  "frame_due fs n k \<longleftrightarrow> k < length fs \<and> length (concat (map wire (take (Suc k) fs))) \<le> n"

fun frames_due :: "Frame list \<Rightarrow> DecoderOp list \<Rightarrow> nat \<Rightarrow> nat \<Rightarrow> nat" where
  "frames_due fs [] n k = k"
| "frames_due fs (Push bs # ops) n k = frames_due fs ops (n + length bs) k"
| "frames_due fs (Next # ops) n k = frames_due fs ops n (if frame_due fs n k then Suc k else k)"

text \<open>Enough pulls, once everything has been pushed, take everything.\<close>

lemma frames_due_append:
  "frames_due fs (ops @ ops') n k = frames_due fs ops' (n + length (pushed ops)) (frames_due fs ops n k)"
  by (induction fs ops n k rule: frames_due.induct) (simp_all add: pushed_def add.assoc)

lemma wire_prefix_length: "length (concat (map wire (take k fs))) \<le> length (concat (map wire fs))"
proof -
  have "concat (map wire fs) = concat (map wire (take k fs)) @ concat (map wire (drop k fs))"
    by (metis append_take_drop_id concat_append map_append)
  then show ?thesis by simp
qed

lemma frames_due_all:
  "length (concat (map wire fs)) \<le> n \<Longrightarrow> k \<le> length fs \<Longrightarrow> length fs \<le> k + m \<Longrightarrow>
     frames_due fs (replicate m Next) n k = length fs"
proof (induction m arbitrary: k)
  case (Suc m)
  show ?case
  proof (cases "k < length fs")
    case True
    have "frame_due fs n k" using True Suc.prems(1) wire_prefix_length [of "Suc k" fs] by (simp add: frame_due_def)
    with True Suc show ?thesis by simp
  next
    case False
    with Suc have "k = length fs" by simp
    then have "\<not> frame_due fs n k" by (simp add: frame_due_def)
    with Suc.IH [of k] Suc.prems \<open>k = length fs\<close> show ?thesis by simp
  qed
qed simp

text \<open>The first \<open>k\<close> frames are out, the rest of the stream is unread or still to come.\<close>

definition stream_inv :: "Frame list \<Rightarrow> nat \<Rightarrow> bytes \<Rightarrow> bytes \<Rightarrow> nat \<Rightarrow> FrameDecoder \<times> Frame list \<times> bool \<Rightarrow> bool" where
  "stream_inv fs bound sofar coming k st \<longleftrightarrow>
     (case st of (d, pulled, bad) \<Rightarrow>
       \<not> bad \<and> \<not> fd_failed d \<and> fd_consumed d \<le> length (fd_buffer d) \<and>
       length (fd_buffer d) \<le> length sofar \<and> fd_max_buffered d = bound \<and>
       fd_max_payload d = kMaxFramePayload \<and>
       k \<le> length fs \<and> pulled = map sealed (take k fs) \<and>
       sofar = concat (map wire (take k fs)) @ unread d \<and>
       unread d @ coming = concat (map wire (drop k fs)))"

lemma decoder_push_unread:
  assumes "\<not> fd_failed d" and "fd_consumed d \<le> length (fd_buffer d)"
    and "length (fd_buffer d) + length bs \<le> fd_max_buffered d"
  shows "\<exists>d'. decoder_push bs d = (Inr (), d') \<and> unread d' = unread d @ bs \<and> \<not> fd_failed d' \<and>
    fd_consumed d' \<le> length (fd_buffer d') \<and> length (fd_buffer d') \<le> length (fd_buffer d) + length bs \<and>
    fd_max_buffered d' = fd_max_buffered d \<and> fd_max_payload d' = fd_max_payload d"
  using assms by (auto simp: decoder_push_def Let_def unread_def)

lemma decoder_next_frame:
  assumes "\<not> fd_failed d" and "unread d = wire f @ rest" and "frame_ok f"
    and "fd_max_payload d = kMaxFramePayload"
  shows "decoder_next d = (Inr (Some (sealed f)), d\<lparr>fd_consumed := fd_consumed d + length (wire f)\<rparr>)"
proof -
  have len: "length (fd_buffer d) - fd_consumed d = length (wire f) + length rest"
    using arg_cong [OF assms(2), of length] by (simp add: unread_def)
  have header: "take 80 (wire f) = encode_frame_header (sealed_header f)" by (simp add: wire_def)
  have long: "80 \<le> length (wire f)" by (simp add: length_wire)
  have total: "80 + unat (fh_payload_len (sealed_header f)) = length (wire f)"
    using payload_len_unat [OF assms(3)] by (simp add: sealed_header_simps length_wire)
  have payload: "unat (fh_payload_len (sealed_header f)) \<le> kMaxFramePayload"
    using payload_len_unat [OF assms(3)] assms(3) by (simp add: sealed_header_simps frame_ok_def)
  have t: "is_valid_frame_type (FrameType (fh_type (sealed_header f)))"
    using assms(3) by (simp add: sealed_header_simps frame_ok_def fm_type_def)
  show ?thesis
    unfolding decoder_next_def assms(2) [unfolded unread_def]
    using assms(1,4) len total payload t long
    by (simp add: kFrameHeaderSize_def Let_def header computed_crc_sealed sealed_header_simps(1-3)
        frame_decode_wire [OF assms(3)])
qed

lemma decoder_next_partial:
  assumes "\<not> fd_failed d" and "unread d @ coming = wire f @ rest" and "length (unread d) < length (wire f)"
    and "frame_ok f" and "fd_max_payload d = kMaxFramePayload"
  shows "decoder_next d = (Inr None, d)"
proof (cases "length (unread d) < 80")
  case True
  with assms(1) show ?thesis by (simp add: decoder_next_def unread_def kFrameHeaderSize_def)
next
  case False
  have "take 80 (unread d) = take 80 (unread d @ coming)" using False by simp
  also have "\<dots> = encode_frame_header (sealed_header f)" by (simp add: assms(2)) (simp add: wire_def)
  finally have header: "take 80 (unread d) = encode_frame_header (sealed_header f)" .
  have payload: "unat (fh_payload_len (sealed_header f)) = length (fm_payload f)"
    using payload_len_unat [OF assms(4)] by (simp add: sealed_header_simps)
  have t: "is_valid_frame_type (FrameType (fh_type (sealed_header f)))"
    using assms(4) by (simp add: sealed_header_simps frame_ok_def fm_type_def)
  have "length (fm_payload f) \<le> kMaxFramePayload" using assms(4) by (simp add: frame_ok_def)
  with False assms(1,3,5) header payload t show ?thesis
    by (simp add: decoder_next_def unread_def kFrameHeaderSize_def Let_def computed_crc_sealed
        sealed_header_simps(1-3) length_wire)
qed

lemma stream_inv_push:
  assumes "stream_inv fs bound sofar (bs @ coming) k st" and "length sofar + length bs \<le> bound"
  shows "stream_inv fs bound (sofar @ bs) coming k (decoder_op (Push bs) st)"
proof -
  obtain d pulled bad where st: "st = (d, pulled, bad)" by (cases st)
  note inv = assms(1) [unfolded st stream_inv_def prod.case]
  obtain d' where d': "decoder_push bs d = (Inr (), d')" "unread d' = unread d @ bs" "\<not> fd_failed d'"
    "fd_consumed d' \<le> length (fd_buffer d')" "length (fd_buffer d') \<le> length (fd_buffer d) + length bs"
    "fd_max_buffered d' = fd_max_buffered d" "fd_max_payload d' = fd_max_payload d"
    using decoder_push_unread [of d bs] inv assms(2) by auto
  show ?thesis
    using inv d' by (auto simp: stream_inv_def st decoder_op_def)
qed

lemma stream_inv_next:
  assumes "stream_inv fs bound sofar coming k st" and "list_all frame_ok fs"
  shows "stream_inv fs bound sofar coming (if frame_due fs (length sofar) k then Suc k else k) (decoder_op Next st)"
proof -
  obtain d pulled bad where st: "st = (d, pulled, bad)" by (cases st)
  note inv = assms(1) [unfolded st stream_inv_def prod.case]
  then have k: "k \<le> length fs" "pulled = map sealed (take k fs)"
    "sofar = concat (map wire (take k fs)) @ unread d" "unread d @ coming = concat (map wire (drop k fs))"
    by blast+
  show ?thesis
  proof (cases "drop k fs")
    case Nil
    then have "decoder_next d = (Inr None, d)"
      using k(4) inv by (simp add: decoder_next_def unread_def kFrameHeaderSize_def)
    moreover have "\<not> frame_due fs (length sofar) k" using Nil by (simp add: frame_due_def)
    ultimately show ?thesis using assms(1) by (simp add: st decoder_op_def)
  next
    case (Cons f rest)
    have ok: "frame_ok f" using assms(2) Cons by (metis in_set_dropD list.set_intros(1) list_all_iff)
    have stream: "unread d @ coming = wire f @ concat (map wire rest)" using k(4) Cons by simp
    have less: "k < length fs" using Cons by (metis drop_all linorder_not_less list.distinct(1))
    then have "drop k fs = fs ! k # drop (Suc k) fs" by (simp add: Cons_nth_drop_Suc)
    then have suc: "take (Suc k) fs = take k fs @ [f]" "drop (Suc k) fs = rest" "Suc k \<le> length fs"
      using Cons less by (simp_all add: take_Suc_conv_app_nth)
    have due: "frame_due fs (length sofar) k \<longleftrightarrow> length (wire f) \<le> length (unread d)"
      using less suc(1) arg_cong [OF k(3), of length] by (simp add: frame_due_def)
    show ?thesis
    proof (cases "length (unread d) < length (wire f)")
      case True
      then have "decoder_next d = (Inr None, d)"
        using decoder_next_partial [OF _ stream _ ok] inv by blast
      with assms(1) True due show ?thesis by (simp add: st decoder_op_def)
    next
      case False
      define tl where "tl = drop (length (wire f)) (unread d)"
      have tl1: "unread d = wire f @ tl"
        unfolding tl_def using stream False by (metis append_eq_append_conv_if append_take_drop_id not_less)
      have tl2: "tl @ coming = concat (map wire rest)"
        using stream tl1 by simp
      note tl = tl1 tl2
      have next1: "decoder_next d = (Inr (Some (sealed f)), d\<lparr>fd_consumed := fd_consumed d + length (wire f)\<rparr>)"
        using decoder_next_frame [OF _ tl(1) ok] inv by blast
      have "unread (d\<lparr>fd_consumed := fd_consumed d + length (wire f)\<rparr>) = tl"
        using arg_cong [OF tl(1), of "drop (length (wire f))"] by (simp add: unread_def add.commute)
      moreover have "fd_consumed d + length (wire f) \<le> length (fd_buffer d)"
        using arg_cong [OF tl(1), of length] inv by (simp add: unread_def del: append_eq_append_conv) linarith
      moreover have "(if frame_due fs (length sofar) k then Suc k else k) = Suc k" using due False by simp
      ultimately show ?thesis
        using inv k suc tl next1 by (simp add: stream_inv_def st decoder_op_def)
    qed
  qed
qed

lemma stream_inv_run:
  "stream_inv fs bound sofar (pushed ops @ coming) k st \<Longrightarrow> list_all frame_ok fs \<Longrightarrow>
   length sofar + length (pushed ops) \<le> bound \<Longrightarrow>
   stream_inv fs bound (sofar @ pushed ops) coming (frames_due fs ops (length sofar) k) (fold decoder_op ops st)"
proof (induction ops arbitrary: sofar k st)
  case Nil
  then show ?case by (simp add: pushed_def)
next
  case (Cons op ops)
  show ?case
  proof (cases op)
    case (Push bs)
    have "stream_inv fs bound (sofar @ bs) (pushed ops @ coming) k (decoder_op (Push bs) st)"
      by (rule stream_inv_push) (use Cons.prems in \<open>simp_all add: Push pushed_def\<close>)
    with Cons.IH [of "sofar @ bs" k "decoder_op (Push bs) st"] Cons.prems show ?thesis
      by (simp add: Push pushed_def)
  next
    case Next
    let ?k = "if frame_due fs (length sofar) k then Suc k else k"
    have "stream_inv fs bound sofar (pushed ops @ coming) ?k (decoder_op Next st)"
      by (rule stream_inv_next) (use Cons.prems in \<open>simp_all add: Next pushed_def\<close>)
    with Cons.IH [of sofar ?k "decoder_op Next st"] Cons.prems show ?thesis
      by (simp add: Next pushed_def)
  qed
qed

lemma fresh_stream_inv: "stream_inv fs (fd_max_buffered default_decoder) [] (concat (map wire fs)) 0 (default_decoder, [], False)"
  by (simp add: stream_inv_def default_decoder_def unread_def)

lemma stream_run:
  assumes "list_all frame_ok fs" and "concat (map wire fs) = pushed ops @ coming"
    and "length (pushed ops) \<le> fd_max_buffered default_decoder"
  shows "\<exists>d. fold decoder_op ops (default_decoder, [], False) = (d, map sealed (take (frames_due fs ops 0 0) fs), False) \<and>
    frames_due fs ops 0 0 \<le> length fs \<and>
    pushed ops = concat (map wire (take (frames_due fs ops 0 0) fs)) @ unread d \<and> \<not> fd_failed d"
proof -
  have "stream_inv fs (fd_max_buffered default_decoder) ([] @ pushed ops) coming (frames_due fs ops (length ([] :: bytes)) 0)
      (fold decoder_op ops (default_decoder, [], False))"
    by (rule stream_inv_run) (use assms fresh_stream_inv [of fs] in simp_all)
  then show ?thesis
    by (cases "fold decoder_op ops (default_decoder, [], False)") (auto simp: stream_inv_def)
qed

text \<open>C16: the stream decoder delivers exactly the frames that were sent, in order and without delay, however the bytes are cut
  into pushes and however pulls are interleaved with them. As long as no more bytes than the buffer bound have been
  pushed in all, no call fails; a pull delivers the next frame exactly when all of its bytes have been pushed, so that the
  frames pulled so far are as many of the first frames sent as \<^verbatim>\<open>frames_due\<close> counts; and every byte pushed is either part of a
  delivered frame or still unread. When the whole stream has been pushed, as many pulls as there are frames deliver
  them all.\<close>

theorem decoder_delivers_frames_in_order:
  assumes "list_all frame_ok fs" and "concat (map wire fs) = pushed ops @ coming"
    and "length (pushed ops) \<le> fd_max_buffered default_decoder"
  shows "(\<exists>d. fold decoder_op ops (default_decoder, [], False) = (d, map sealed (take (frames_due fs ops 0 0) fs), False) \<and>
      frames_due fs ops 0 0 \<le> length fs \<and>
      pushed ops = concat (map wire (take (frames_due fs ops 0 0) fs)) @ unread d \<and> \<not> fd_failed d) \<and>
    (coming = [] \<longrightarrow>
      (\<exists>d. fold decoder_op (ops @ replicate (length fs) Next) (default_decoder, [], False) = (d, map sealed fs, False)))"
proof (intro conjI impI)
  show "\<exists>d. fold decoder_op ops (default_decoder, [], False) = (d, map sealed (take (frames_due fs ops 0 0) fs), False) \<and>
      frames_due fs ops 0 0 \<le> length fs \<and>
      pushed ops = concat (map wire (take (frames_due fs ops 0 0) fs)) @ unread d \<and> \<not> fd_failed d"
    by (rule stream_run [OF assms])
  assume "coming = []"
  let ?ops = "ops @ replicate (length fs) Next"
  have all: "pushed ?ops = pushed ops" by (simp add: pushed_def)
  have le: "frames_due fs ops 0 0 \<le> length fs" using stream_run [OF assms] by blast
  have "length (concat (map wire fs)) \<le> length (pushed ops)" using assms(2) \<open>coming = []\<close> by simp
  then have "frames_due fs ?ops 0 0 = length fs" using le by (simp add: frames_due_append frames_due_all)
  with stream_run [of fs ?ops coming] assms all
  show "\<exists>d. fold decoder_op ?ops (default_decoder, [], False) = (d, map sealed fs, False)" by auto
qed

section \<open>Replay window\<close>

definition observe_all :: "u64 list \<Rightarrow> SequenceWindow \<times> u64 list \<Rightarrow> SequenceWindow \<times> u64 list" where
  "observe_all = fold (\<lambda>s (w, accepted).
     case observe s w of (v, w') \<Rightarrow> (w', if v = Vd_Accept then accepted @ [s] else accepted))"

definition window_inv :: "SequenceWindow \<times> u64 list \<Rightarrow> bool" where
  "window_inv st \<longleftrightarrow>
     (case st of (w, accepted) \<Rightarrow>
       sw_window w > 0 \<and> sorted_wrt (<) accepted \<and> (sw_started w \<longleftrightarrow> accepted \<noteq> []) \<and>
       (accepted \<noteq> [] \<longrightarrow> sw_highest w = last accepted) \<and>
       length (sw_recent w) \<le> sw_window w \<and> set (sw_recent w) \<subseteq> set accepted)"

lemma sorted_wrt_le_last: "sorted_wrt (<) xs \<Longrightarrow> y \<in> set xs \<Longrightarrow> y \<le> last (xs :: u64 list)"
  by (induction xs rule: rev_induct) (auto simp: sorted_wrt_append intro: less_imp_le)

lemma sorted_wrt_snoc_last:
  "sorted_wrt (<) xs \<Longrightarrow> last xs < (x :: u64) \<Longrightarrow> sorted_wrt (<) (xs @ [x])"
  by (auto simp: sorted_wrt_append dest!: sorted_wrt_le_last intro: le_less_trans)

lemma observe_inv:
  assumes "window_inv (w, accepted)"
  shows "window_inv (observe_all [s] (w, accepted))"
proof -
  note inv = assms [unfolded window_inv_def prod.case]
  have "sorted_wrt (<) (accepted @ [s])" if "\<not> s \<le> sw_highest w" "sw_started w"
    using sorted_wrt_snoc_last [of accepted s] inv that by simp
  then show ?thesis
    using inv by (auto simp: window_inv_def observe_all_def observe_def Let_def dest!: in_set_dropD)
qed

text \<open>A sequence number is accepted at most once. Over any run of the replay window the accepted numbers
  are strictly increasing, and the window remembers only accepted numbers, never more than its size.\<close>

theorem window_accepts_strictly_increasing:
  shows "case observe_all ss (new_window n, []) of (w, accepted) \<Rightarrow>
    sorted_wrt (<) accepted \<and> length (sw_recent w) \<le> max 1 n \<and> set (sw_recent w) \<subseteq> set accepted"
proof -
  have "window_inv (observe_all ss st) \<and> sw_window (fst (observe_all ss st)) = sw_window (fst st)"
    if "window_inv st" for st
    using that
  proof (induction ss arbitrary: st)
    case Nil
    then show ?case by (simp add: observe_all_def)
  next
    case (Cons s ss)
    have "observe_all (s # ss) st = observe_all ss (observe_all [s] st)" by (simp add: observe_all_def)
    moreover have "window_inv (observe_all [s] st)" using Cons.prems observe_inv by (cases st) blast
    moreover have "sw_window (fst (observe_all [s] st)) = sw_window (fst st)"
      by (cases st) (simp add: observe_all_def observe_def Let_def)
    ultimately show ?case using Cons.IH by metis
  qed
  from this [of "(new_window n, [])"] show ?thesis
    by (auto simp: window_inv_def new_window_def split: prod.splits)
qed

section \<open>Message round trips\<close>

definition hello_ok :: "HelloMessage \<Rightarrow> bool" where
  "hello_ok m \<longleftrightarrow> id_valid (hm_publisher m) \<and> id_valid (hm_boot m) \<and> hm_requested m AND NOT kAuthorityAllBits = 0"

lemma decode_encoded_hello:
  assumes enc: "encode_hello m = Inr bs"
  shows "decode_hello bs = (if hello_ok m then Inr m else Inl Err_Malformed)"
proof -
  have len: "length (hm_agent m) \<le> 128"
    using enc by (rule contrapos_pp) (simp add: encode_hello_def encode_simps)
  then have bs: "bs = put_le 8 (hm_publisher m) @ put_le 8 (hm_boot m) @ put_le 8 (hm_generation m) @
      put_le 8 (hm_start_sequence m) @ put_le 4 (hm_requested m) @ text_layout (hm_agent m)"
    using enc by (simp add: encode_hello_def encode_simps)
  show ?thesis
    using len by (simp add: decode_hello_def bs decode_simps hello_ok_def)
qed

interpretation hello: message_codec
  "\<lambda>m. id_valid (hm_publisher m) \<and> id_valid (hm_boot m) \<and> hm_requested m AND NOT kAuthorityAllBits = 0"
  "\<lambda>m. m" encode_hello decode_hello
  by unfold_locales (simp add: decode_encoded_hello hello_ok_def)

interpretation hello_ack: message_codec "\<lambda>_. True" "\<lambda>m. m" encode_hello_ack decode_hello_ack
proof
  fix m bs
  assume enc: "encode_hello_ack m = Inr bs"
  have len: "length (ha_reason m) \<le> 256"
    using enc by (rule contrapos_pp) (simp add: encode_hello_ack_def encode_simps)
  then have bs: "bs = put_le 8 (ha_epoch m) @ put_le 8 (ha_authority_generation m) @
      put_le 8 (ha_coordinator_boot m) @ put_le 4 (ha_granted m) @ put_le 8 (ha_coordinator_tick m) @
      [bool_byte (ha_accepted m)] @ text_layout (ha_reason m)"
    using enc by (simp add: encode_hello_ack_def encode_simps)
  show "decode_hello_ack bs = Inr m"
    using len by (simp add: decode_hello_ack_def bs decode_simps del: append_Cons)
qed

interpretation evidence_ack: message_codec "\<lambda>_. True" "\<lambda>m. m" encode_evidence_ack decode_evidence_ack
proof
  fix m bs
  assume "encode_evidence_ack m = Inr bs"
  then have bs: "bs = put_le 8 (ea_epoch m) @ put_le 8 (ea_accepted m) @ put_le 8 (ea_rejected m) @
      put_le 8 (ea_duplicate m) @ put_le 8 (ea_fenced m)"
    by (simp add: encode_evidence_ack_def encode_simps)
  show "decode_evidence_ack bs = Inr m"
    by (simp add: decode_evidence_ack_def bs decode_simps)
qed

interpretation error: message_codec "\<lambda>_. True" "\<lambda>m. m" encode_error decode_error
proof
  fix m bs
  assume enc: "encode_error m = Inr bs"
  have len: "length (em_message m) \<le> 512"
    using enc by (rule contrapos_pp) (simp add: encode_error_def encode_simps)
  then have bs: "bs = put_le 2 (err_u16 (em_code m)) @ text_layout (em_message m)"
    using enc by (simp add: encode_error_def encode_simps)
  show "decode_error bs = Inr m"
    using len by (simp add: decode_error_def bs decode_simps)
qed

interpretation fence_notice: message_codec "\<lambda>_. True" "\<lambda>m. m" encode_fence_notice decode_fence_notice
proof
  fix m bs
  assume enc: "encode_fence_notice m = Inr bs"
  have len: "length (fn_detail m) \<le> 512"
    using enc by (rule contrapos_pp) (simp add: encode_fence_notice_def encode_simps)
  then have bs: "bs = put_le 8 (fn_epoch m) @ fr_u8 (fn_reason m) # text_layout (fn_detail m)"
    using enc by (simp add: encode_fence_notice_def encode_simps)
  show "decode_fence_notice bs = Inr m"
    using len by (simp add: decode_fence_notice_def bs decode_simps)
qed

interpretation policy_notice: message_codec "\<lambda>_. True" "\<lambda>m. m" encode_policy_notice decode_policy_notice
proof
  fix m bs
  assume "encode_policy_notice m = Inr bs"
  then have bs: "bs = put_le 8 (pm_policy m) @ put_le 4 (pm_version m) @ put_le 8 (pm_fingerprint m)"
    by (simp add: encode_policy_notice_def encode_simps)
  show "decode_policy_notice bs = Inr m"
    by (simp add: decode_policy_notice_def bs decode_simps)
qed

subsection \<open>Evidence batches\<close>

definition metric_layout :: "MetricReading \<Rightarrow> bytes" where
  "metric_layout r = put_le 2 (mk_u16 (mr_kind r)) @ put_le 8 (mr_value r)"

definition sample_layout :: "EvidenceSample \<Rightarrow> bytes" where
  "sample_layout s =
     put_le 8 (es_resource s) @ put_le 8 (es_queue s) @ put_le 8 (es_publisher s) @
     put_le 8 (es_publisher_boot s) @ put_le 8 (es_epoch s) @ put_le 8 (es_generation s) @
     put_le 8 (es_sequence s) @ put_le 8 (es_observed_tick s) @ put_le 4 (es_flags s) @
     put_le 8 (of_nat (length (es_metrics s)) :: u64) @ concat (map metric_layout (es_metrics s))"

text \<open>What arrives of a sample: the local fields are not sent, the identity is recomputed.\<close>

definition arrived :: "EvidenceSample \<Rightarrow> EvidenceSample" where
  "arrived s = received (s\<lparr>es_received_tick := kNoTick, es_provenance := 0, es_snapshot := 0\<rparr>)"

definition sample_ok :: "EvidenceSample \<Rightarrow> bool" where
  "sample_ok s \<longleftrightarrow> id_valid (es_resource s) \<and> ms_inv (es_metrics s)"

definition batch_ok :: "EvidenceBatch \<Rightarrow> bool" where
  "batch_ok b \<longleftrightarrow> list_all sample_ok (eb_samples b)"

definition arrived_batch :: "EvidenceBatch \<Rightarrow> EvidenceBatch" where
  "arrived_batch b =
     (let b1 = b\<lparr>eb_id := 0, eb_samples := map arrived (eb_samples b)\<rparr>
      in b1\<lparr>eb_id := compute_batch_id b1\<rparr>)"

lemma run_w_each_metric:
  "run_state (w_each w_metric rs) (writing buf) = ((), writing (buf @ concat (map metric_layout rs)))"
  by (induction rs arbitrary: buf) (simp_all add: w_metric_def metric_layout_def codec_simps)

lemma run_w_each_sample:
  "run_state (w_each w_sample ss) (writing buf) = ((), writing (buf @ concat (map sample_layout ss)))"
  by (induction ss arbitrary: buf)
    (simp_all add: w_sample_def sample_layout_def codec_simps run_w_each_metric)

lemma ms_inv_appendD: "ms_inv (a @ b) \<Longrightarrow> ms_inv a"
  by (auto simp: ms_inv_def sorted_wrt_append)

lemma ms_set_greatest:
  assumes "ms_inv (ms @ r # rs)"
  shows "ms_set (mr_kind r) (mr_value r) ms = Inr (ms @ [r])"
proof -
  have "takeWhile (\<lambda>x. mr_kind x < mr_kind r) ms = ms"
    using assms by (auto simp: ms_inv_def sorted_wrt_append takeWhile_eq_all_conv)
  then have "ms_lower_bound (mr_kind r) ms = length ms" by (simp only: ms_lower_bound_def)
  with assms show ?thesis by (simp add: ms_set_def ms_inv_def)
qed

lemma run_r_metrics:
  "ms_inv (ms @ rs) \<Longrightarrow>
   run_state (r_metrics (length rs) ms) (reading pre (concat (map metric_layout rs) @ rest)) =
     (Inr (ms @ rs), reading (pre @ concat (map metric_layout rs)) rest)"
proof (induction rs arbitrary: ms pre)
  case (Cons r rs)
  have "MetricKind (mk_u16 (mr_kind r)) = mr_kind r" by simp
  with Cons.IH [of "ms @ [r]"] Cons.prems ms_set_greatest [OF Cons.prems] show ?case
    by (simp add: metric_layout_def codec_simps)
qed simp

lemma unat_metric_count: "ms_inv rs \<Longrightarrow> unat (of_nat (length rs) :: u64) = length rs"
  by (simp add: ms_inv_def kMaxMetricReadings_def unat_of_nat)

lemma run_r_sample:
  assumes "sample_ok s"
  shows "run_state r_sample (reading pre (sample_layout s @ rest)) =
    (Inr (arrived s), reading (pre @ sample_layout s) rest)"
proof -
  have inv: "ms_inv ([] @ es_metrics s)" and n: "length (es_metrics s) \<le> kMaxMetricReadings"
    and res: "id_valid (es_resource s)"
    using assms by (simp_all add: sample_ok_def ms_inv_def)
  note count = unat_metric_count [OF inv [simplified]]
  show ?thesis
    using n res
    by (simp add: r_sample_def sample_layout_def codec_simps count run_r_metrics [OF inv, simplified]
        arrived_def received_def Let_def)
      (cases s, simp)
qed

lemma run_r_samples:
  "list_all sample_ok ss \<Longrightarrow>
   run_state (r_samples (length ss) acc) (reading pre (concat (map sample_layout ss) @ rest)) =
     (Inr (acc @ map arrived ss), reading (pre @ concat (map sample_layout ss)) rest)"
  by (induction ss arbitrary: acc pre) (simp_all add: run_r_sample codec_simps)

interpretation evidence: message_codec batch_ok arrived_batch encode_evidence decode_evidence
proof
  fix b bs
  assume enc: "encode_evidence b = Inr bs" and ok: "batch_ok b"
  have n: "length (eb_samples b) \<le> kMaxEvidencePerBatch"
    using enc by (simp add: encode_evidence_def split: if_splits)
  then have count: "unat (of_nat (length (eb_samples b)) :: u64) = length (eb_samples b)"
    by (simp add: kMaxEvidencePerBatch_def unat_of_nat)
  have bs: "bs = put_le 8 (eb_epoch b) @ put_le 8 (eb_provenance b) @ put_le 8 (eb_submitted_tick b) @
      put_le 8 (of_nat (length (eb_samples b)) :: u64) @ concat (map sample_layout (eb_samples b))"
    using enc n by (simp add: encode_evidence_def encode_simps run_w_each_sample)
  note samples = run_r_samples [of "eb_samples b" "[]" _ "[]", simplified]
  have arrived: "arrived_batch b = (let b1 = \<lparr>eb_id = 0, eb_epoch = eb_epoch b, eb_provenance = eb_provenance b,
      eb_submitted_tick = eb_submitted_tick b, eb_samples = map arrived (eb_samples b)\<rparr>
      in b1\<lparr>eb_id := compute_batch_id b1\<rparr>)"
    by (cases b) (simp add: arrived_batch_def)
  show "decode_evidence bs = Inr (arrived_batch b)"
    using ok n
    by (simp add: decode_evidence_def bs decode_simps count samples batch_ok_def arrived)
qed

text \<open>C32: evidence survives the wire. Whatever batch of well-formed samples \<^verbatim>\<open>encode_evidence\<close> accepts,
  \<^verbatim>\<open>decode_evidence\<close> returns the same batch: every transmitted field and reading, in order, with the
  receive tick cleared and the content identities of the samples and of the batch recomputed.\<close>

theorem evidence_roundtrip:
  assumes "encode_evidence b = Inr bs" and "batch_ok b"
  shows "decode_evidence bs = Inr (arrived_batch b)"
  by (rule evidence.decode_encode [OF assms])

text \<open>C33: the control messages survive the wire. What encodes decodes to the same message, for the acknowledgement of a
  hello, the acknowledgement of evidence, and the error, fence and policy notices; a hello that encodes decodes to the same message if
  it names a publisher and a boot and asks only for known authorities, and is refused as malformed otherwise.\<close>

theorem control_messages_roundtrip:
  "encode_hello h = Inr b1 \<Longrightarrow> encode_hello_ack a = Inr b2 \<Longrightarrow> encode_evidence_ack e = Inr b3 \<Longrightarrow> encode_error r = Inr b4 \<Longrightarrow>
   encode_fence_notice f = Inr b5 \<Longrightarrow> encode_policy_notice p = Inr b6 \<Longrightarrow>
   decode_hello b1 =
     (if id_valid (hm_publisher h) \<and> id_valid (hm_boot h) \<and> hm_requested h AND NOT kAuthorityAllBits = 0
      then Inr h else Inl Err_Malformed) \<and>
   decode_hello_ack b2 = Inr a \<and> decode_evidence_ack b3 = Inr e \<and>
   decode_error b4 = Inr r \<and> decode_fence_notice b5 = Inr f \<and> decode_policy_notice b6 = Inr p"
  using decode_encoded_hello [unfolded hello_ok_def] hello_ack.decode_encode evidence_ack.decode_encode error.decode_encode
    fence_notice.decode_encode policy_notice.decode_encode by simp

section \<open>Worked frames\<close>

definition demo_frame :: Frame where
  "demo_frame =
     \<lparr>fm_header = \<lparr>fh_magic = 0, fh_format = 0, fh_type = 5, fh_flags = 0, fh_reserved = 0, fh_payload_len = 0,
        fh_header_crc = 0, fh_payload_crc = 0, fh_epoch = 1, fh_boot = 2, fh_publisher = 3,
        fh_connection = 4, fh_sequence = 5, fh_nonce = 6, fh_reserved2 = 0, fh_reserved3 = 0\<rparr>,
      fm_payload = [1, 2, 3, 4, 5]\<rparr>"

lemma demo_frame_ok: "frame_ok demo_frame"
  by (simp add: frame_ok_def demo_frame_def fm_type_def is_valid_frame_type_def sets_reserved_flag_def ncf_defs)

lemma demo_frame_encode: "frame_encode demo_frame [] = Inr (wire demo_frame)"
  by (simp add: frame_encode_Inr demo_frame_ok)

theorem frame_roundtrip_witness:
  "\<exists>w. frame_encode demo_frame [] = Inr w \<and> length w = 85 \<and>
     frame_decode w = Inr \<lparr>fm_header = sealed_header demo_frame, fm_payload = [1, 2, 3, 4, 5]\<rparr>"
  using frame_roundtrip [OF demo_frame_encode] demo_frame_encode
  by (simp add: demo_frame_def kFrameHeaderSize_def)

theorem frame_burst_refused_witness:
  "frame_decode (encode_frame_header (sealed_header demo_frame) @ [1, 9, 9, 9, 9]) = Inl Err_IntegrityFailure"
proof -
  let ?h = "encode_frame_header (sealed_header demo_frame)"
  have "wire demo_frame = (?h @ [1]) @ [2, 3, 4, 5] @ []" by (simp add: wire_def demo_frame_def)
  then have "frame_encode demo_frame [] = Inr ((?h @ [1]) @ [2, 3, 4, 5] @ [])" using demo_frame_encode by simp
  from frame_burst_refused [OF this, of "[9, 9, 9, 9]"] show ?thesis by (simp add: burst_place_def)
qed

theorem decoder_delivers_frames_in_order_witness:
  "\<exists>d d'. fold decoder_op [Push (take 30 (wire demo_frame)), Next] (default_decoder, [], False) = (d, [], False) \<and>
     fold decoder_op [Push (take 30 (wire demo_frame)), Next, Push (drop 30 (wire demo_frame)), Next]
       (default_decoder, [], False) = (d', [sealed demo_frame], False)"
proof -
  let ?one = "[Push (take 30 (wire demo_frame)), Next]"
  let ?ops = "[Push (take 30 (wire demo_frame)), Next, Push (drop 30 (wire demo_frame)), Next]"
  have len: "length (wire demo_frame) = 85" by (simp add: length_wire demo_frame_def)
  have "85 \<le> fd_max_buffered default_decoder" by (simp add: default_decoder_def kMaxFramePayload_def)
  then have fits: "length (pushed ?one) \<le> fd_max_buffered default_decoder" "length (pushed ?ops) \<le> fd_max_buffered default_decoder"
    by (simp_all add: pushed_def len)
  have whole: "concat (map wire [demo_frame]) = pushed ?one @ drop 30 (wire demo_frame)"
    "concat (map wire [demo_frame]) = pushed ?ops @ []" by (simp_all add: pushed_def)
  have due: "frames_due [demo_frame] ?one 0 0 = 0" "frames_due [demo_frame] ?ops 0 0 = 1"
    by (simp_all add: frame_due_def len)
  have ok: "list_all frame_ok [demo_frame]" by (simp add: demo_frame_ok)
  from decoder_delivers_frames_in_order [OF ok whole(1) fits(1)]
  have "\<exists>d. fold decoder_op ?one (default_decoder, [], False) = (d, [], False)" unfolding due(1) by auto
  moreover from decoder_delivers_frames_in_order [OF ok whole(2) fits(2)]
  have "\<exists>d. fold decoder_op ?ops (default_decoder, [], False) = (d, [sealed demo_frame], False)" unfolding due(2) by auto
  ultimately show ?thesis by blast
qed

definition demo_batch :: EvidenceBatch where
  "demo_batch =
     \<lparr>eb_id = 0, eb_epoch = 1, eb_provenance = 2, eb_submitted_tick = 3,
      eb_samples =
        [\<lparr>es_resource = 5, es_queue = 0,
          es_metrics = [\<lparr>mr_kind = MK_UtilizationPpm, mr_value = 700000\<rparr>],
          es_publisher = 1, es_publisher_boot = 1, es_epoch = 1, es_generation = 1,
          es_sequence = 1, es_observed_tick = 90, es_received_tick = 95, es_provenance = 1,
          es_snapshot = 4, es_flags = 0\<rparr>]\<rparr>"

theorem evidence_roundtrip_witness:
  "\<exists>bs. encode_evidence demo_batch = Inr bs \<and> decode_evidence bs = Inr (arrived_batch demo_batch)"
proof -
  have "batch_ok demo_batch"
    by (simp add: batch_ok_def sample_ok_def demo_batch_def ms_inv_def id_valid_def validate_metric_value_def
        metric_plausible_max_def metric_descriptor_def kMetricTable_def metric_row_def ncf_defs)
  moreover obtain bs where "encode_evidence demo_batch = Inr bs"
    by (simp add: encode_evidence_def encode_simps w_sample_def w_metric_def demo_batch_def kMaxEvidencePerBatch_def)
  ultimately show ?thesis using evidence_roundtrip by blast
qed

theorem control_messages_roundtrip_witness:
  "\<exists>b1 b2 b3 b4 b5 b6 h a e r f p. encode_hello h = Inr b1 \<and> decode_hello b1 = Inr h \<and> hm_agent h = ''a'' \<and>
     encode_hello_ack a = Inr b2 \<and> decode_hello_ack b2 = Inr a \<and> ha_reason a = ''ok'' \<and>
     encode_evidence_ack e = Inr b3 \<and> decode_evidence_ack b3 = Inr e \<and>
     encode_error r = Inr b4 \<and> decode_error b4 = Inr r \<and> em_message r = ''late'' \<and>
     encode_fence_notice f = Inr b5 \<and> decode_fence_notice b5 = Inr f \<and> fn_detail f = ''x'' \<and>
     encode_policy_notice p = Inr b6 \<and> decode_policy_notice b6 = Inr p"
proof -
  let ?h = "\<lparr>hm_publisher = 1, hm_boot = 2, hm_generation = 3, hm_start_sequence = 4, hm_requested = 1, hm_agent = ''a''\<rparr>"
  let ?a = "\<lparr>ha_epoch = 1, ha_authority_generation = 1, ha_coordinator_boot = 1, ha_granted = 1,
      ha_coordinator_tick = 1, ha_accepted = True, ha_reason = ''ok''\<rparr>"
  let ?e = "\<lparr>ea_epoch = 1, ea_accepted = 1, ea_rejected = 0, ea_duplicate = 0, ea_fenced = 0\<rparr>"
  let ?r = "\<lparr>em_code = Err_Stale, em_message = ''late''\<rparr>"
  let ?f = "\<lparr>fn_epoch = 1, fn_reason = FenceReason 1, fn_detail = ''x''\<rparr>"
  let ?p = "\<lparr>pm_policy = 1, pm_version = 1, pm_fingerprint = 1\<rparr>"
  obtain b1 b2 b3 b4 b5 b6 where b: "encode_hello ?h = Inr b1" "encode_hello_ack ?a = Inr b2"
    "encode_evidence_ack ?e = Inr b3" "encode_error ?r = Inr b4" "encode_fence_notice ?f = Inr b5"
    "encode_policy_notice ?p = Inr b6"
    by (simp add: encode_hello_def encode_hello_ack_def encode_evidence_ack_def encode_error_def
        encode_fence_notice_def encode_policy_notice_def encode_simps)
  have "id_valid (hm_publisher ?h) \<and> id_valid (hm_boot ?h) \<and> hm_requested ?h AND NOT kAuthorityAllBits = 0"
    by (simp add: id_valid_def kAuthorityAllBits_def)
  with control_messages_roundtrip [OF b]
  have "decode_hello b1 = Inr ?h" "decode_hello_ack b2 = Inr ?a" "decode_evidence_ack b3 = Inr ?e"
    "decode_error b4 = Inr ?r" "decode_fence_notice b5 = Inr ?f" "decode_policy_notice b6 = Inr ?p" by simp_all
  with b show ?thesis
    by (intro exI [of _ b1] exI [of _ b2] exI [of _ b3] exI [of _ b4] exI [of _ b5] exI [of _ b6]
        exI [of _ ?h] exI [of _ ?a] exI [of _ ?e] exI [of _ ?r] exI [of _ ?f] exI [of _ ?p]) simp
qed
end
