(* ===== verification/NCF_Io.thy ===== *)
theory NCF_Io
  imports NCF_Core
begin

text \<open>
  File access, \<^verbatim>\<open>src/internal/io.cpp\<close>, over a model of the C stdio and file-system calls it uses.
  The world holds the files by path and a script of outcomes: each call takes the next outcome, so a
  script decides which call fails, which write is short, and (by failing every later call) where the
  process dies; an exhausted script means that everything succeeds. A file knows how much of it has
  reached stable storage: a crash may cut what lies behind. The stdio buffer is transparent: written
  bytes are in the file at once, and \<^verbatim>\<open>fsync\<close> decides what a crash cannot take away.
\<close>

section \<open>Files and outcomes\<close>

datatype IoOutcome = Io_Ok | Io_Fail | Io_Short nat

record File =
  fl_bytes :: bytes
  fl_synced :: nat

record World =
  wd_files :: "string \<Rightarrow> File option"
  wd_script :: "IoOutcome list"

record Stream =
  sm_path :: string
  sm_pos :: nat

datatype FileMode = Mode_rb | Mode_rb_plus | Mode_wb | Mode_wb_plus

definition take_outcome :: "World \<Rightarrow> IoOutcome \<times> World" where
  "take_outcome w =
     (case wd_script w of
        [] \<Rightarrow> (Io_Ok, w)
      | out # rest \<Rightarrow> (out, w\<lparr>wd_script := rest\<rparr>))"

definition file_bytes :: "string \<Rightarrow> World \<Rightarrow> bytes" where
  "file_bytes p w = (case wd_files w p of None \<Rightarrow> [] | Some f \<Rightarrow> fl_bytes f)"

definition put_file :: "string \<Rightarrow> File option \<Rightarrow> World \<Rightarrow> World" where
  "put_file p f w = w\<lparr>wd_files := (wd_files w)(p := f)\<rparr>"

section \<open>The C library calls\<close>

definition fopen :: "string \<Rightarrow> FileMode \<Rightarrow> World \<Rightarrow> Stream option \<times> World" where
  "fopen p mode w0 =
     (let (out, w) = take_outcome w0
      in if out \<noteq> Io_Ok then (None, w)
         else if mode \<in> {Mode_rb, Mode_rb_plus} then
           (if wd_files w p = None then None else Some \<lparr>sm_path = p, sm_pos = 0\<rparr>, w)
         else (Some \<lparr>sm_path = p, sm_pos = 0\<rparr>, put_file p (Some \<lparr>fl_bytes = [], fl_synced = 0\<rparr>) w))"

text \<open>\<^verbatim>\<open>None\<close> for a negative result; \<^verbatim>\<open>SEEK_END\<close> and \<^verbatim>\<open>SEEK_SET\<close> return the stream moved.\<close>

definition ftell :: "Stream \<Rightarrow> World \<Rightarrow> nat option \<times> World" where
  "ftell sm w0 = (let (out, w) = take_outcome w0 in (if out \<noteq> Io_Ok then None else Some (sm_pos sm), w))"

definition fseek_end :: "Stream \<Rightarrow> World \<Rightarrow> Stream option \<times> World" where
  "fseek_end sm w0 =
     (let (out, w) = take_outcome w0
      in (if out \<noteq> Io_Ok then None else Some (sm\<lparr>sm_pos := length (file_bytes (sm_path sm) w)\<rparr>), w))"

definition fseek_set :: "nat \<Rightarrow> Stream \<Rightarrow> World \<Rightarrow> Stream option \<times> World" where
  "fseek_set pos sm w0 =
     (let (out, w) = take_outcome w0 in (if out \<noteq> Io_Ok then None else Some (sm\<lparr>sm_pos := pos\<rparr>), w))"

definition transferred :: "IoOutcome \<Rightarrow> nat \<Rightarrow> nat" where
  "transferred out n = (case out of Io_Ok \<Rightarrow> n | Io_Fail \<Rightarrow> 0 | Io_Short k \<Rightarrow> min k n)"

definition fread :: "nat \<Rightarrow> Stream \<Rightarrow> World \<Rightarrow> bytes \<times> World" where
  "fread n sm w0 =
     (let (out, w) = take_outcome w0
      in (take (transferred out n) (drop (sm_pos sm) (file_bytes (sm_path sm) w)), w))"

definition write_at :: "nat \<Rightarrow> bytes \<Rightarrow> bytes \<Rightarrow> bytes" where
  "write_at pos data bs =
     take pos bs @ replicate (pos - length bs) 0 @ data @ drop (pos + length data) bs"

definition fwrite :: "bytes \<Rightarrow> Stream \<Rightarrow> World \<Rightarrow> nat \<times> Stream \<times> World" where
  "fwrite data sm w0 =
     (let (out, w) = take_outcome w0;
          n = transferred out (length data)
      in case wd_files w (sm_path sm) of
          None \<Rightarrow> (0, sm, w)
        | Some f \<Rightarrow>
            (n, sm\<lparr>sm_pos := sm_pos sm + n\<rparr>,
             put_file (sm_path sm)
               (Some \<lparr>fl_bytes = write_at (sm_pos sm) (take n data) (fl_bytes f),
                      fl_synced = min (fl_synced f) (sm_pos sm)\<rparr>) w))"

definition fflush :: "Stream \<Rightarrow> World \<Rightarrow> bool \<times> World" where
  "fflush sm w0 = (let (out, w) = take_outcome w0 in (out = Io_Ok, w))"

definition fsync :: "Stream \<Rightarrow> World \<Rightarrow> bool \<times> World" where
  "fsync sm w0 =
     (let (out, w) = take_outcome w0
      in if out \<noteq> Io_Ok then (False, w)
         else (True, put_file (sm_path sm)
           (map_option (\<lambda>f. f\<lparr>fl_synced := length (fl_bytes f)\<rparr>) (wd_files w (sm_path sm))) w))"

definition ftruncate :: "nat \<Rightarrow> Stream \<Rightarrow> World \<Rightarrow> bool \<times> World" where
  "ftruncate n sm w0 =
     (let (out, w) = take_outcome w0
      in if out \<noteq> Io_Ok then (False, w)
         else (True, put_file (sm_path sm)
           (map_option (\<lambda>f. \<lparr>fl_bytes = take n (fl_bytes f) @ replicate (n - length (fl_bytes f)) 0,
                              fl_synced = min n (fl_synced f)\<rparr>) (wd_files w (sm_path sm))) w))"

text \<open>The \<^verbatim>\<open>std::filesystem\<close> calls, \<open>False\<close> and \<open>None\<close> when they set the error code.\<close>

definition fs_exists :: "string \<Rightarrow> World \<Rightarrow> bool option \<times> World" where
  "fs_exists p w0 = (let (out, w) = take_outcome w0 in (if out \<noteq> Io_Ok then None else Some (wd_files w p \<noteq> None), w))"

definition fs_create_directories :: "World \<Rightarrow> bool \<times> World" where
  "fs_create_directories w0 = (let (out, w) = take_outcome w0 in (out = Io_Ok, w))"

text \<open>
  A rename is durable when it returns, as with \<^verbatim>\<open>MOVEFILE_WRITE_THROUGH\<close>, the Windows branch of \<^verbatim>\<open>atomic_replace\<close>. The
  POSIX branch does not flush the directory; what a crash can leave of a rename there is not modelled.
\<close>

definition fs_rename :: "string \<Rightarrow> string \<Rightarrow> World \<Rightarrow> bool \<times> World" where
  "fs_rename source destination w0 =
     (let (out, w) = take_outcome w0
      in if out \<noteq> Io_Ok \<or> wd_files w source = None then (False, w)
         else (True, put_file source None (put_file destination (wd_files w source) w)))"

definition fs_remove :: "string \<Rightarrow> World \<Rightarrow> bool \<times> World" where
  "fs_remove p w0 =
     (let (out, w) = take_outcome w0 in if out \<noteq> Io_Ok then (False, w) else (True, put_file p None w))"

section \<open>Operations\<close>

definition flush_stream :: "Stream option \<Rightarrow> bool \<Rightarrow> World \<Rightarrow> void_result \<times> World" where
  "flush_stream file sync w0 =
     (case file of
        None \<Rightarrow> (Inl Err_InvalidArgument, w0)
      | Some sm \<Rightarrow>
          (let (flushed, w1) = fflush sm w0
           in if \<not> flushed then (Inl Err_IoError, w1)
              else if \<not> sync then (Inr (), w1)
              else let (synced, w2) = fsync sm w1
                   in (if synced then Inr () else Inl Err_IoError, w2)))"

definition flush_path :: "string \<Rightarrow> bool \<Rightarrow> World \<Rightarrow> void_result \<times> World" where
  "flush_path p sync w0 =
     (let (file, w1) = fopen p Mode_rb w0
      in if file = None then (Inl Err_IoError, w1) else flush_stream file sync w1)"

text \<open>Success leaves the position where it was; every caller drops the stream on failure.\<close>

definition stream_size :: "Stream option \<Rightarrow> World \<Rightarrow> u64 result \<times> World" where
  "stream_size file w0 =
     (case file of
        None \<Rightarrow> (Inl Err_InvalidArgument, w0)
      | Some sm \<Rightarrow>
          (case ftell sm w0 of
             (None, w1) \<Rightarrow> (Inl Err_IoError, w1)
           | (Some current, w1) \<Rightarrow>
               (case fseek_end sm w1 of
                  (None, w2) \<Rightarrow> (Inl Err_IoError, w2)
                | (Some sm2, w2) \<Rightarrow>
                    (case ftell sm2 w2 of
                       (None, w3) \<Rightarrow> (Inl Err_IoError, w3)
                     | (Some end_pos, w3) \<Rightarrow>
                         (case fseek_set current sm2 w3 of
                            (None, w4) \<Rightarrow> (Inl Err_IoError, w4)
                          | (Some _, w4) \<Rightarrow> (Inr (of_nat end_pos), w4))))))"

definition seek_stream :: "Stream option \<Rightarrow> u64 \<Rightarrow> World \<Rightarrow> Stream result \<times> World" where
  "seek_stream file offset w0 =
     (case file of
        None \<Rightarrow> (Inl Err_InvalidArgument, w0)
      | Some sm \<Rightarrow>
          (case fseek_set (unat offset) sm w0 of
             (None, w1) \<Rightarrow> (Inl Err_IoError, w1)
           | (Some sm1, w1) \<Rightarrow> (Inr sm1, w1)))"

definition read_file :: "string \<Rightarrow> u64 \<Rightarrow> World \<Rightarrow> bytes result \<times> World" where
  "read_file p max_bytes w0 =
     (case fopen p Mode_rb w0 of
        (None, w1) \<Rightarrow> (Inl Err_NotFound, w1)
      | (Some sm, w1) \<Rightarrow>
          (case stream_size (Some sm) w1 of
             (Inl e, w2) \<Rightarrow> (Inl e, w2)
           | (Inr sz, w2) \<Rightarrow>
               if sz > max_bytes then (Inl Err_Oversized, w2)
               else if sz = 0 then (Inr [], w2)
               else let (bs, w3) = fread (unat sz) sm w2
                    in if length bs \<noteq> unat sz then (Inl Err_Truncated, w3) else (Inr bs, w3)))"

definition write_file :: "string \<Rightarrow> bytes \<Rightarrow> bool \<Rightarrow> World \<Rightarrow> void_result \<times> World" where
  "write_file p bs sync w0 =
     (case fopen p Mode_wb w0 of
        (None, w1) \<Rightarrow> (Inl Err_IoError, w1)
      | (Some sm, w1) \<Rightarrow>
          if bs = [] then flush_stream (Some sm) sync w1
          else let (written, sm2, w2) = fwrite bs sm w1
               in if written \<noteq> length bs then (Inl Err_IoError, w2)
                  else flush_stream (Some sm2) sync w2)"

section \<open>Crashes\<close>

text \<open>A crash keeps of every file at least what was synced, and nothing that was not written.\<close>

definition file_cut :: "File \<Rightarrow> File \<Rightarrow> bool" where
  "file_cut f f' \<longleftrightarrow>
     (\<exists>k. fl_synced f \<le> k \<and> k \<le> length (fl_bytes f) \<and> f' = \<lparr>fl_bytes = take k (fl_bytes f), fl_synced = k\<rparr>)"

definition crashes_to :: "World \<Rightarrow> World \<Rightarrow> bool" where
  "crashes_to w w' \<longleftrightarrow> wd_script w' = [] \<and> (\<forall>p. rel_option file_cut (wd_files w p) (wd_files w' p))"

section \<open>Calls that succeed\<close>

named_theorems io_simps

lemma take_outcome_Nil [io_simps]: "wd_script w = [] \<Longrightarrow> take_outcome w = (Io_Ok, w)"
  by (simp add: take_outcome_def)

lemma put_file_simps [simp]:
  "wd_files (put_file p f w) q = (if q = p then f else wd_files w q)" "wd_script (put_file p f w) = wd_script w"
  by (simp_all add: put_file_def)

lemma put_file_same [simp]: "put_file p f (put_file p g w) = put_file p f w"
  by (simp add: put_file_def)

lemma file_bytes_put_file [simp]:
  "file_bytes q (put_file p f w) = (if q = p then (case f of None \<Rightarrow> [] | Some f \<Rightarrow> fl_bytes f) else file_bytes q w)"
  by (simp add: file_bytes_def)

lemma file_bytes_Some: "wd_files w p = Some f \<Longrightarrow> file_bytes p w = fl_bytes f"
  by (simp add: file_bytes_def)

lemma write_at_end [simp]: "write_at (length bs) data bs = bs @ data"
  by (simp add: write_at_def)

lemma stream_size_ok [io_simps]:
  "wd_script w = [] \<Longrightarrow> stream_size (Some sm) w = (Inr (of_nat (length (file_bytes (sm_path sm) w))), w)"
  by (simp add: stream_size_def ftell_def fseek_end_def fseek_set_def take_outcome_Nil)

lemma read_file_ok:
  assumes "wd_script w = []" and "wd_files w p = Some f" and "length (fl_bytes f) \<le> unat max_bytes"
  shows "read_file p max_bytes w = (Inr (fl_bytes f), w)"
proof -
  have size: "unat (of_nat (length (fl_bytes f)) :: u64) = length (fl_bytes f)"
    using assms(3) unat_64_less [of max_bytes] by (simp add: unat_of_nat)
  have "of_nat (length (fl_bytes f)) \<le> max_bytes"
    using assms(3) size by (simp add: word_le_nat_alt)
  moreover have "of_nat (length (fl_bytes f)) = (0 :: u64) \<longleftrightarrow> fl_bytes f = []"
    unfolding unat_eq_0 [symmetric] size by simp
  ultimately show ?thesis
    using assms(1,2) size
    by (simp add: read_file_def fopen_def fread_def transferred_def io_simps file_bytes_def not_less)
qed

lemma read_file_missing: "wd_files w p = None \<Longrightarrow> \<exists>w'. read_file p m w = (Inl Err_NotFound, w') \<and> wd_files w' = wd_files w"
  by (cases "wd_script w") (auto simp: read_file_def fopen_def take_outcome_def)

lemma flush_stream_ok [io_simps]:
  "wd_script w = [] \<Longrightarrow> flush_stream (Some sm) True w =
     (Inr (), put_file (sm_path sm)
        (map_option (\<lambda>f. f\<lparr>fl_synced := length (fl_bytes f)\<rparr>) (wd_files w (sm_path sm))) w)"
  by (simp add: flush_stream_def fflush_def fsync_def take_outcome_Nil)

lemma write_file_ok:
  "wd_script w = [] \<Longrightarrow>
   write_file p bs True w = (Inr (), put_file p (Some \<lparr>fl_bytes = bs, fl_synced = length bs\<rparr>) w)"
  by (simp add: write_file_def fopen_def fwrite_def transferred_def io_simps write_at_def Let_def)

end
