(* ===== verification/NCF_Journal.thy ===== *)
theory NCF_Journal
  imports NCF_Evidence NCF_Codec NCF_Io
begin

text \<open>
  The append-only record log, \<^verbatim>\<open>include/ncf/durability/journal.hpp\<close> and \<^verbatim>\<open>src/durability/journal.cpp\<close>:
  the sixty-four-byte checksummed record header, \<^verbatim>\<open>append\<close>, \<^verbatim>\<open>sync\<close>, \<^verbatim>\<open>replay\<close>, \<^verbatim>\<open>truncate_to\<close>,
  \<^verbatim>\<open>rebase\<close> and \<^verbatim>\<open>open\<close> over the file model, with every I/O failure a branch. A journal refines a list
  of records: what was acknowledged is replayed after any crash.
\<close>

section \<open>Records\<close>

datatype RecordType = RecordType (rt_u16: u16)

abbreviation Rt_Unknown :: RecordType where "Rt_Unknown \<equiv> RecordType 0"
abbreviation Rt_Intent :: RecordType where "Rt_Intent \<equiv> RecordType 1"
abbreviation Rt_Payload :: RecordType where "Rt_Payload \<equiv> RecordType 2"
abbreviation Rt_Commit :: RecordType where "Rt_Commit \<equiv> RecordType 3"
abbreviation Rt_Abort :: RecordType where "Rt_Abort \<equiv> RecordType 4"
abbreviation Rt_Rebase :: RecordType where "Rt_Rebase \<equiv> RecordType 5"
abbreviation Rt_Count :: RecordType where "Rt_Count \<equiv> RecordType 6"

definition record_type_name :: "RecordType \<Rightarrow> string" where
  "record_type_name t =
     enum_name [''unknown'', ''intent'', ''payload'', ''commit'', ''abort'', ''rebase'', ''count''] ''unknown''
       (unat (rt_u16 t))"

definition kRecordMagic :: u32 where [ncf_defs]: "kRecordMagic = 0x4E434652"
definition kRecordHeaderSize :: nat where [ncf_defs]: "kRecordHeaderSize = 64"

record RecordHeader =
  rh_magic :: u32
  rh_format :: u16
  rh_type :: u16
  rh_header_crc :: u32
  rh_payload_len :: u32
  rh_payload_crc :: u32
  rh_reserved :: u32
  rh_sequence :: u64
  rh_epoch :: u64
  rh_generation :: u64
  rh_transaction :: u64
  rh_reserved2 :: u32
  rh_reserved3 :: u32

definition default_record_header :: RecordHeader where
  "default_record_header =
     \<lparr>rh_magic = kRecordMagic, rh_format = 0, rh_type = 0, rh_header_crc = 0, rh_payload_len = 0,
      rh_payload_crc = 0, rh_reserved = 0, rh_sequence = 0, rh_epoch = 0, rh_generation = 0,
      rh_transaction = 0, rh_reserved2 = 0, rh_reserved3 = 0\<rparr>"

text \<open>The \<^verbatim>\<open>put_u*\<close> calls fill the array at consecutive offsets without a gap.\<close>

definition encode_header :: "RecordHeader \<Rightarrow> bytes" where
  "encode_header h =
     put_le 4 (rh_magic h) @ put_le 2 (rh_format h) @ put_le 2 (rh_type h) @ put_le 4 (rh_header_crc h) @
     put_le 4 (rh_payload_len h) @ put_le 4 (rh_payload_crc h) @ put_le 4 (rh_reserved h) @
     put_le 8 (rh_sequence h) @ put_le 8 (rh_epoch h) @ put_le 8 (rh_generation h) @
     put_le 8 (rh_transaction h) @ put_le 4 (rh_reserved2 h) @ put_le 4 (rh_reserved3 h)"

definition record_header_crc :: "RecordHeader \<Rightarrow> u32" where
  "record_header_crc h = crc32c (encode_header (h\<lparr>rh_header_crc := 0\<rparr>))"

definition decode_header :: "bytes \<Rightarrow> RecordHeader" where
  "decode_header bs =
     (let h = \<lparr>rh_magic = field_at 0 4 bs, rh_format = field_at 4 2 bs, rh_type = field_at 6 2 bs,
               rh_header_crc = field_at 8 4 bs, rh_payload_len = field_at 12 4 bs,
               rh_payload_crc = field_at 16 4 bs, rh_reserved = field_at 20 4 bs,
               rh_sequence = field_at 24 8 bs, rh_epoch = field_at 32 8 bs,
               rh_generation = field_at 40 8 bs, rh_transaction = field_at 48 8 bs,
               rh_reserved2 = field_at 56 4 bs, rh_reserved3 = field_at 60 4 bs\<rparr>
      in if record_header_crc h \<noteq> rh_header_crc h then h\<lparr>rh_magic := 0\<rparr> else h)"

record JournalRecord =
  jrec_header :: RecordHeader
  jrec_payload :: bytes

datatype ReplayStatus = Rs_Empty | Rs_Complete | Rs_TruncatedTail | Rs_Corrupt

definition replay_status_name :: "ReplayStatus \<Rightarrow> string" where
  "replay_status_name s =
     (case s of
        Rs_Empty \<Rightarrow> ''empty''
      | Rs_Complete \<Rightarrow> ''complete''
      | Rs_TruncatedTail \<Rightarrow> ''truncated-tail''
      | Rs_Corrupt \<Rightarrow> ''corrupt'')"

text \<open>The explanatory text of a replay is not kept.\<close>

record JournalReplay =
  jr_records :: "JournalRecord list"
  jr_file_bytes :: nat
  jr_valid_bytes :: nat
  jr_dropped_bytes :: nat
  jr_rejected_records :: u64
  jr_status :: ReplayStatus
  jr_last_header :: RecordHeader
  jr_has_last :: bool

definition new_replay :: JournalReplay where
  "new_replay =
     \<lparr>jr_records = [], jr_file_bytes = 0, jr_valid_bytes = 0, jr_dropped_bytes = 0, jr_rejected_records = 0,
      jr_status = Rs_Empty, jr_last_header = default_record_header, jr_has_last = False\<rparr>"

record JournalOptions =
  jo_max_record_bytes :: u64
  jo_max_journal_bytes :: u64
  jo_sync_on_append :: bool
  jo_read_only :: bool

record Journal =
  jn_path :: string
  jn_options :: JournalOptions
  jn_file :: "Stream option"
  jn_size :: u64
  jn_next_sequence :: u64

section \<open>Operations\<close>

definition journal_close :: "Journal \<Rightarrow> Journal" where
  "journal_close j = j\<lparr>jn_file := None\<rparr>"

definition resume_sequence :: "u64 \<Rightarrow> Journal \<Rightarrow> Journal" where
  "resume_sequence n j = (if n > jn_next_sequence j then j\<lparr>jn_next_sequence := n\<rparr> else j)"

text \<open>The seek after \<^verbatim>\<open>stream_size\<close> happens only when there is something to seek over.\<close>

definition journal_open :: "string \<Rightarrow> JournalOptions \<Rightarrow> World \<Rightarrow> Journal result \<times> World" where
  "journal_open p opts w0 =
     (if p = [] then (Inl Err_InvalidArgument, w0)
      else
        let (made, w1) = (if CHR ''/'' \<in> set p then fs_create_directories w0 else (True, w0))
        in if \<not> made then (Inl Err_IoError, w1)
           else case fs_exists p w1 of
               (None, w2) \<Rightarrow> (Inl Err_IoError, w2)
             | (Some ex, w2) \<Rightarrow>
                 let mode = (if jo_read_only opts then Mode_rb else if ex then Mode_rb_plus else Mode_wb_plus);
                     (file1, w3) = fopen p mode w2;
                     (file, w4) = (if file1 = None \<and> \<not> ex \<and> \<not> jo_read_only opts
                                   then fopen p Mode_wb_plus w3 else (file1, w3))
                 in case file of
                     None \<Rightarrow> (Inl Err_IoError, w4)
                   | Some sm \<Rightarrow>
                       (case stream_size file w4 of
                          (Inl e, w5) \<Rightarrow> (Inl e, w5)
                        | (Inr sz, w5) \<Rightarrow>
                            let j = \<lparr>jn_path = p, jn_options = opts, jn_file = file, jn_size = sz,
                                     jn_next_sequence = 1\<rparr>
                            in if \<not> jo_read_only opts \<and> sz > 0 then
                                 (case fseek_end sm w5 of
                                    (None, w6) \<Rightarrow> (Inl Err_IoError, w6)
                                  | (Some sm', w6) \<Rightarrow> (Inr (j\<lparr>jn_file := Some sm'\<rparr>), w6))
                               else (Inr j, w5)))"

definition write_all :: "bytes \<Rightarrow> Journal \<Rightarrow> World \<Rightarrow> void_result \<times> Journal \<times> World" where
  "write_all bs j w0 =
     (case jn_file j of
        None \<Rightarrow> (Inl Err_Closed, j, w0)
      | Some sm \<Rightarrow>
          if bs = [] then (Inr (), j, w0)
          else let (written, sm', w1) = fwrite bs sm w0;
                   j1 = j\<lparr>jn_file := Some sm'\<rparr>
               in if written \<noteq> length bs then (Inl Err_IoError, j1, w1) else (Inr (), j1, w1))"

definition journal_sync :: "Journal \<Rightarrow> World \<Rightarrow> void_result \<times> World" where
  "journal_sync j w =
     (if jn_file j = None then (Inl Err_Closed, w) else flush_stream (jn_file j) True w)"

definition append_header :: "RecordType \<Rightarrow> EpochId \<Rightarrow> u64 \<Rightarrow> TransactionId \<Rightarrow> bytes \<Rightarrow> u64 \<Rightarrow> RecordHeader" where
  "append_header type epoch generation transaction payload sequence =
     (let h = default_record_header\<lparr>rh_magic := kRecordMagic, rh_format := kFormatVersion,
                rh_type := rt_u16 type, rh_payload_len := of_nat (length payload),
                rh_payload_crc := crc32c payload, rh_sequence := sequence, rh_epoch := epoch,
                rh_generation := generation, rh_transaction := transaction\<rparr>
      in h\<lparr>rh_header_crc := record_header_crc h\<rparr>)"

text \<open>The header goes out first; a failed header write leaves the payload unwritten.\<close>

definition write_record :: "bytes \<Rightarrow> bytes \<Rightarrow> Journal \<Rightarrow> World \<Rightarrow> void_result \<times> Journal \<times> World" where
  "write_record header payload j w0 =
     (case write_all header j w0 of
        (Inl e, j1, w1) \<Rightarrow> (Inl e, j1, w1)
      | (Inr _, j1, w1) \<Rightarrow> write_all payload j1 w1)"

definition journal_append ::
  "RecordType \<Rightarrow> EpochId \<Rightarrow> u64 \<Rightarrow> TransactionId \<Rightarrow> bytes \<Rightarrow> Journal \<Rightarrow> World \<Rightarrow> void_result \<times> Journal \<times> World" where
  "journal_append type epoch generation transaction payload j w0 =
     (if jo_read_only (jn_options j) then (Inl Err_Unauthorized, j, w0)
      else if jn_file j = None then (Inl Err_Closed, j, w0)
      else if of_nat (length payload) > jo_max_record_bytes (jn_options j) then (Inl Err_Oversized, j, w0)
      else
        let projected = jn_size j + of_nat kRecordHeaderSize + of_nat (length payload)
        in if projected > jo_max_journal_bytes (jn_options j) then (Inl Err_LimitExceeded, j, w0)
           else
             let header = append_header type epoch generation transaction payload (jn_next_sequence j)
             in case write_record (encode_header header) payload j w0 of
                 (Inl e, j1, w1) \<Rightarrow> (Inl e, j1, w1)
               | (Inr _, j1, w1) \<Rightarrow>
                   let j2 = j1\<lparr>jn_size := projected, jn_next_sequence := jn_next_sequence j1 + 1\<rparr>
                   in if jo_sync_on_append (jn_options j2)
                      then let (r, w2) = journal_sync j2 w1 in (r, j2, w2)
                      else (Inr (), j2, w1))"

text \<open>
  The loop of \<^verbatim>\<open>replay\<close> on the bytes still to read; the offset is \<^verbatim>\<open>valid_bytes\<close>, and \<^verbatim>\<open>saw_record\<close>
  is \<^verbatim>\<open>has_last\<close>.
\<close>

definition tail_status :: "JournalReplay \<Rightarrow> ReplayStatus" where
  "tail_status r = (if jr_has_last r then Rs_TruncatedTail else Rs_Empty)"

definition replay_reject :: "JournalReplay \<Rightarrow> JournalReplay" where
  "replay_reject r = r\<lparr>jr_status := Rs_Corrupt, jr_rejected_records := jr_rejected_records r + 1\<rparr>"

definition replay_accept :: "RecordHeader \<Rightarrow> bytes \<Rightarrow> JournalReplay \<Rightarrow> JournalReplay" where
  "replay_accept h payload r =
     r\<lparr>jr_records := jr_records r @ [\<lparr>jrec_header = h, jrec_payload = payload\<rparr>],
       jr_last_header := h, jr_has_last := True,
       jr_valid_bytes := jr_valid_bytes r + (kRecordHeaderSize + length payload)\<rparr>"

function replay_loop :: "JournalOptions \<Rightarrow> bytes \<Rightarrow> JournalReplay \<Rightarrow> JournalReplay" where
  "replay_loop opts rest r =
     (if rest = [] then r\<lparr>jr_status := (if jr_has_last r then Rs_Complete else Rs_Empty)\<rparr>
      else if length rest < kRecordHeaderSize then r\<lparr>jr_status := tail_status r\<rparr>
      else
        let h = decode_header (take kRecordHeaderSize rest)
        in if rh_magic h \<noteq> kRecordMagic then replay_reject r
           else if rh_format h \<noteq> kFormatVersion then replay_reject r
           else if ucast (rh_payload_len h) > jo_max_record_bytes opts then replay_reject r
           else
             let total = kRecordHeaderSize + unat (rh_payload_len h)
             in if length rest < total then r\<lparr>jr_status := tail_status r\<rparr>
                else
                  let payload = take (unat (rh_payload_len h)) (drop kRecordHeaderSize rest)
                  in if crc32c payload \<noteq> rh_payload_crc h then replay_reject r
                     else replay_loop opts (drop total rest) (replay_accept h payload r))"
  by pat_completeness auto

termination
  by (relation "measure (\<lambda>(opts, rest, r). length rest)") (auto simp: kRecordHeaderSize_def)

declare replay_loop.simps [simp del]

definition replay_data :: "JournalOptions \<Rightarrow> bytes \<Rightarrow> JournalReplay" where
  "replay_data opts data =
     (let r = replay_loop opts data (new_replay\<lparr>jr_file_bytes := length data\<rparr>)
      in r\<lparr>jr_dropped_bytes := length data - jr_valid_bytes r\<rparr>)"

definition journal_replay :: "Journal \<Rightarrow> World \<Rightarrow> JournalReplay result \<times> World" where
  "journal_replay j w0 =
     (if jn_path j = [] then (Inl Err_InvalidArgument, w0)
      else case read_file (jn_path j) (jo_max_journal_bytes (jn_options j)) w0 of
          (Inl e, w1) \<Rightarrow> (if e = Err_NotFound then Inr new_replay else Inl e, w1)
        | (Inr data, w1) \<Rightarrow> (Inr (replay_data (jn_options j) data), w1))"

definition truncate_to :: "u64 \<Rightarrow> Journal \<Rightarrow> World \<Rightarrow> void_result \<times> Journal \<times> World" where
  "truncate_to valid_bytes j w0 =
     (if jo_read_only (jn_options j) then (Inl Err_Unauthorized, j, w0)
      else case jn_file j of
          None \<Rightarrow> (Inl Err_Closed, j, w0)
        | Some sm \<Rightarrow>
            if valid_bytes > jn_size j then (Inl Err_InvalidArgument, j, w0)
            else
              let (flushed, w1) = fflush sm w0
              in if \<not> flushed then (Inl Err_IoError, j, w1)
                 else
                   let (cut, w2) = ftruncate (unat valid_bytes) sm w1
                   in if \<not> cut then (Inl Err_IoError, j, w2)
                      else case seek_stream (Some sm) valid_bytes w2 of
                          (Inl e, w3) \<Rightarrow> (Inl e, j, w3)
                        | (Inr sm', w3) \<Rightarrow>
                            let j1 = j\<lparr>jn_file := Some sm', jn_size := valid_bytes\<rparr>;
                                (r, w4) = journal_sync j1 w3
                            in (r, j1, w4))"

definition rebase :: "EpochId \<Rightarrow> u64 \<Rightarrow> Journal \<Rightarrow> World \<Rightarrow> void_result \<times> Journal \<times> World" where
  "rebase epoch generation j w0 =
     (if jo_read_only (jn_options j) then (Inl Err_Unauthorized, j, w0)
      else if jn_file j = None then (Inl Err_Closed, j, w0)
      else
        let (fresh, w1) = fopen (jn_path j) Mode_wb_plus w0
        in if fresh = None then (Inl Err_IoError, j\<lparr>jn_file := None\<rparr>, w1)
           else journal_append Rt_Rebase epoch generation 0 [] (j\<lparr>jn_file := fresh, jn_size := 0\<rparr>) w1)"

section \<open>The header is a bijection\<close>

lemma length_encode_header [simp]: "length (encode_header h) = 64"
  by (simp add: encode_header_def)

lemma encode_header_nonempty [simp]: "encode_header h \<noteq> []"
  using length_encode_header [of h] by (metis list.size(3) zero_neq_numeral)

definition record_fields :: "bytes \<Rightarrow> RecordHeader" where
  "record_fields bs =
     \<lparr>rh_magic = field_at 0 4 bs, rh_format = field_at 4 2 bs, rh_type = field_at 6 2 bs,
      rh_header_crc = field_at 8 4 bs, rh_payload_len = field_at 12 4 bs, rh_payload_crc = field_at 16 4 bs,
      rh_reserved = field_at 20 4 bs, rh_sequence = field_at 24 8 bs, rh_epoch = field_at 32 8 bs,
      rh_generation = field_at 40 8 bs, rh_transaction = field_at 48 8 bs, rh_reserved2 = field_at 56 4 bs,
      rh_reserved3 = field_at 60 4 bs\<rparr>"

interpretation record_header: checksummed encode_header record_fields rh_header_crc record_header_crc
  "rh_magic_update (\<lambda>_. 0)" decode_header
proof
  show "record_fields (encode_header h) = h" for h
    by (cases h) (simp add: record_fields_def encode_header_def field_at_def)
  show "decode_header bs =
    (if record_header_crc (record_fields bs) \<noteq> rh_header_crc (record_fields bs)
     then rh_magic_update (\<lambda>_. 0) (record_fields bs) else record_fields bs)" for bs
    by (simp add: decode_header_def record_fields_def Let_def)
qed

lemma encode_record_fields:
  assumes "length bs = 64"
  shows "encode_header (record_fields bs) = bs"
proof -
  note glue = take_drop_glue [of _ _ bs, simplified]
  let ?f = "\<lambda>off n. take n (drop off bs)"
  have "?f 0 4 @ ?f 4 2 @ ?f 6 2 @ ?f 8 4 @ ?f 12 4 @ ?f 16 4 @ ?f 20 4 @ ?f 24 8 @ ?f 32 8 @ ?f 40 8 @
      ?f 48 8 @ ?f 56 4 @ ?f 60 4 = bs"
    using glue [of 4 0] glue [of 2 4] glue [of 2 6] glue [of 4 8] glue [of 4 12] glue [of 4 16] glue [of 4 20]
      glue [of 8 24] glue [of 8 32] glue [of 8 40] glue [of 8 48] glue [of 4 56] assms by simp
  then show ?thesis
    using assms by (simp add: encode_header_def record_fields_def put_field_at)
qed

section \<open>Replay\<close>

definition record_bytes :: "JournalRecord \<Rightarrow> bytes" where
  "record_bytes r = encode_header (jrec_header r) @ jrec_payload r"

definition log_bytes :: "JournalRecord list \<Rightarrow> bytes" where
  "log_bytes rs = concat (map record_bytes rs)"

definition record_ok :: "JournalOptions \<Rightarrow> JournalRecord \<Rightarrow> bool" where
  "record_ok opts r \<longleftrightarrow>
     rh_magic (jrec_header r) = kRecordMagic \<and> rh_format (jrec_header r) = kFormatVersion \<and>
     rh_header_crc (jrec_header r) = record_header_crc (jrec_header r) \<and>
     unat (rh_payload_len (jrec_header r)) = length (jrec_payload r) \<and>
     rh_payload_crc (jrec_header r) = crc32c (jrec_payload r) \<and>
     \<not> ucast (rh_payload_len (jrec_header r)) > jo_max_record_bytes opts"

lemma length_record_bytes: "length (record_bytes r) = 64 + length (jrec_payload r)"
  by (simp add: record_bytes_def)

lemma log_bytes_simps [simp]:
  "log_bytes [] = []" "log_bytes (r # rs) = record_bytes r @ log_bytes rs"
  "log_bytes (rs @ qs) = log_bytes rs @ log_bytes qs"
  by (simp_all add: log_bytes_def)

lemma replay_loop_record:
  assumes "record_ok opts x"
  shows "replay_loop opts (record_bytes x @ rest) r =
    replay_loop opts rest (replay_accept (jrec_header x) (jrec_payload x) r)"
  using assms
  by (subst replay_loop.simps)
    (simp add: record_bytes_def record_ok_def kRecordHeaderSize_def Let_def record_header.decode_sealed)

lemma replay_loop_torn:
  assumes "record_ok opts x" and "0 < k" and "k < length (record_bytes x)"
  shows "replay_loop opts (take k (record_bytes x)) r = r\<lparr>jr_status := tail_status r\<rparr>"
proof (cases "k < 64")
  case True
  with assms(2,3) show ?thesis
    by (subst replay_loop.simps) (auto simp: kRecordHeaderSize_def)
next
  case False
  then have "take 64 (take k (record_bytes x)) = encode_header (jrec_header x)"
    by (simp add: min_def record_bytes_def)
  moreover have "take k (record_bytes x) \<noteq> []" using assms(2,3) by auto
  ultimately show ?thesis
    using assms False
    by (subst replay_loop.simps)
      (simp add: record_ok_def kRecordHeaderSize_def Let_def record_header.decode_sealed length_record_bytes)
qed

definition accept_all :: "JournalRecord list \<Rightarrow> JournalReplay \<Rightarrow> JournalReplay" where
  "accept_all rs r = fold (\<lambda>x. replay_accept (jrec_header x) (jrec_payload x)) rs r"

lemma replay_loop_records:
  "list_all (record_ok opts) rs \<Longrightarrow> replay_loop opts (log_bytes rs @ rest) r = replay_loop opts rest (accept_all rs r)"
  by (induction rs arbitrary: r) (simp_all add: replay_loop_record accept_all_def)

lemma accept_all_fields:
  "jr_records (accept_all rs r) = jr_records r @ rs"
  "jr_valid_bytes (accept_all rs r) = jr_valid_bytes r + length (log_bytes rs)"
  "jr_has_last (accept_all rs r) \<longleftrightarrow> jr_has_last r \<or> rs \<noteq> []"
  "jr_file_bytes (accept_all rs r) = jr_file_bytes r"
  "jr_rejected_records (accept_all rs r) = jr_rejected_records r"
  by (induction rs arbitrary: r) (simp_all add: accept_all_def replay_accept_def length_record_bytes kRecordHeaderSize_def)

text \<open>What a replay of whole records followed by a torn one reports.\<close>

definition reports :: "JournalRecord list \<Rightarrow> bytes \<Rightarrow> JournalReplay \<Rightarrow> bool" where
  "reports rs torn r \<longleftrightarrow>
     jr_records r = rs \<and> jr_valid_bytes r = length (log_bytes rs) \<and> jr_dropped_bytes r = length torn \<and>
     jr_file_bytes r = length (log_bytes rs) + length torn \<and> jr_rejected_records r = 0 \<and>
     jr_status r = (if rs = [] then Rs_Empty else if torn = [] then Rs_Complete else Rs_TruncatedTail)"

lemma replay_data_log:
  assumes "list_all (record_ok opts) rs" and "torn = [] \<or> (record_ok opts x \<and> torn = take k (record_bytes x) \<and> k < length (record_bytes x))"
  shows "reports rs torn (replay_data opts (log_bytes rs @ torn))"
proof (cases "torn = []")
  case True
  then show ?thesis
    using replay_loop_records [OF assms(1), of "[]"]
    by (simp add: reports_def replay_data_def Let_def accept_all_fields new_replay_def replay_loop.simps [of _ "[]"])
next
  case False
  with assms(2) have x: "record_ok opts x" "torn = take k (record_bytes x)" "0 < k" "k < length (record_bytes x)"
    by auto
  show ?thesis
    using False replay_loop_torn [OF x(1,3,4)] x(2)
    by (simp add: reports_def replay_data_def Let_def replay_loop_records [OF assms(1)] accept_all_fields
        new_replay_def tail_status_def)
qed

text \<open>Whatever the file holds, the loop splits it into verified records and a rest.\<close>

lemma replay_loop_sound:
  "\<exists>rs rest'. list_all (record_ok opts) rs \<and> rest = log_bytes rs @ rest' \<and>
     jr_records (replay_loop opts rest r) = jr_records r @ rs \<and>
     jr_valid_bytes (replay_loop opts rest r) = jr_valid_bytes r + length (log_bytes rs) \<and>
     (jr_status (replay_loop opts rest r) = Rs_Complete \<longleftrightarrow> rest' = [] \<and> (jr_has_last r \<or> rs \<noteq> []))"
proof (induction opts rest r rule: replay_loop.induct)
  case (1 opts rest r)
  let ?h = "decode_header (take kRecordHeaderSize rest)"
  let ?n = "unat (rh_payload_len ?h)"
  let ?p = "take ?n (drop kRecordHeaderSize rest)"
  let ?x = "\<lparr>jrec_header = ?h, jrec_payload = ?p\<rparr>"
  let ?good = "rest \<noteq> [] \<and> \<not> length rest < kRecordHeaderSize \<and> rh_magic ?h = kRecordMagic \<and>
     rh_format ?h = kFormatVersion \<and> \<not> ucast (rh_payload_len ?h) > jo_max_record_bytes opts \<and>
     \<not> length rest < kRecordHeaderSize + ?n \<and> crc32c ?p = rh_payload_crc ?h"
  show ?case
  proof (cases ?good)
    case False
    then have "jr_records (replay_loop opts rest r) = jr_records r \<and>
        jr_valid_bytes (replay_loop opts rest r) = jr_valid_bytes r \<and>
        (jr_status (replay_loop opts rest r) = Rs_Complete \<longleftrightarrow> rest = [] \<and> jr_has_last r)"
      by (subst (1 2 3) replay_loop.simps) (auto simp: Let_def replay_reject_def tail_status_def)
    then show ?thesis by (intro exI [of _ "[]"] exI [of _ rest]) simp
  next
    case True
    then have step: "replay_loop opts rest r = replay_loop opts (drop (kRecordHeaderSize + ?n) rest) (replay_accept ?h ?p r)"
      by (subst replay_loop.simps) (simp add: Let_def)
    have sealed: "record_fields (take 64 rest) = ?h" "rh_header_crc ?h = record_header_crc ?h"
      using True record_header.decode_fields [of "take 64 rest"]
      by (auto simp: kRecordHeaderSize_def kRecordMagic_def split: if_splits)
    have "kRecordHeaderSize + ?n \<le> length rest" using True by simp
    then have len: "length ?p = ?n" by simp
    then have ok: "record_ok opts ?x" using True sealed(2) by (simp add: record_ok_def)
    have "encode_header ?h = take 64 rest"
      using encode_record_fields [of "take 64 rest"] True unfolding sealed(1) by (simp add: kRecordHeaderSize_def)
    then have split: "rest = record_bytes ?x @ drop (kRecordHeaderSize + ?n) rest"
      by (simp add: record_bytes_def kRecordHeaderSize_def take_drop_glue)
    from "1.IH" [of ?h "kRecordHeaderSize + ?n" ?p] True
    obtain rs rest' where IH: "list_all (record_ok opts) rs"
      "drop (kRecordHeaderSize + ?n) rest = log_bytes rs @ rest'"
      "jr_records (replay_loop opts rest r) = jr_records (replay_accept ?h ?p r) @ rs"
      "jr_valid_bytes (replay_loop opts rest r) = jr_valid_bytes (replay_accept ?h ?p r) + length (log_bytes rs)"
      "jr_status (replay_loop opts rest r) = Rs_Complete \<longleftrightarrow> rest' = []"
      unfolding step by (auto simp: replay_accept_def)
    have "rest = log_bytes (?x # rs) @ rest'" using split IH(2) by simp
    moreover have "list_all (record_ok opts) (?x # rs)" using ok IH(1) by simp
    moreover have "jr_records (replay_loop opts rest r) = jr_records r @ ?x # rs"
      using IH(3) by (simp add: replay_accept_def)
    moreover have "jr_valid_bytes (replay_loop opts rest r) = jr_valid_bytes r + length (log_bytes (?x # rs))"
      using IH(4) len by (simp add: replay_accept_def length_record_bytes kRecordHeaderSize_def)
    moreover have "jr_status (replay_loop opts rest r) = Rs_Complete \<longleftrightarrow>
        rest' = [] \<and> (jr_has_last r \<or> ?x # rs \<noteq> [])" using IH(5) by simp
    ultimately show ?thesis by blast
  qed
qed

text \<open>C26: replay never invents or alters a record. Whatever bytes the journal file holds, replay ends; the
  records it returns, each one verified, re-encode to exactly the first \<^verbatim>\<open>valid_bytes\<close> bytes of the
  file; \<^verbatim>\<open>dropped_bytes\<close> counts the rest; and a file is reported complete exactly when it is not empty
  and wholly records.\<close>

theorem replay_returns_verified_prefix:
  "\<exists>rest. data = log_bytes (jr_records (replay_data opts data)) @ rest \<and>
     list_all (record_ok opts) (jr_records (replay_data opts data)) \<and>
     jr_valid_bytes (replay_data opts data) = length data - length rest \<and>
     jr_dropped_bytes (replay_data opts data) = length rest \<and>
     (jr_status (replay_data opts data) = Rs_Complete \<longleftrightarrow> rest = [] \<and> data \<noteq> [])"
proof -
  let ?r = "replay_data opts data"
  let ?l = "replay_loop opts data (new_replay\<lparr>jr_file_bytes := length data\<rparr>)"
  obtain rs rest where rs: "list_all (record_ok opts) rs" "data = log_bytes rs @ rest" "jr_records ?r = rs"
    "jr_valid_bytes ?r = length (log_bytes rs)" "jr_status ?r = Rs_Complete \<longleftrightarrow> rest = [] \<and> rs \<noteq> []"
  proof -
    have "jr_records (new_replay\<lparr>jr_file_bytes := n\<rparr>) = []" "jr_valid_bytes (new_replay\<lparr>jr_file_bytes := n\<rparr>) = 0"
      "\<not> jr_has_last (new_replay\<lparr>jr_file_bytes := n\<rparr>)" for n
      by (simp_all add: new_replay_def)
    moreover have "jr_records ?r = jr_records ?l" "jr_valid_bytes ?r = jr_valid_bytes ?l" "jr_status ?r = jr_status ?l"
      by (simp_all add: replay_data_def Let_def)
    ultimately show thesis
      using replay_loop_sound [of opts data "new_replay\<lparr>jr_file_bytes := length data\<rparr>"] that by fastforce
  qed
  have len: "length data = length (log_bytes rs) + length rest" using rs(2) by (metis length_append)
  have "jr_dropped_bytes ?r = length data - jr_valid_bytes ?r" by (simp add: replay_data_def Let_def)
  moreover have "rs \<noteq> [] \<longleftrightarrow> data \<noteq> []" if "rest = []"
    using rs(2) that by (cases rs) (auto simp: record_bytes_def)
  ultimately show ?thesis
    using rs(1,2,4,5) len unfolding rs(3) by (intro exI [of _ rest]) auto
qed

section \<open>Appending under faults\<close>

definition appended :: "RecordType \<Rightarrow> EpochId \<Rightarrow> u64 \<Rightarrow> TransactionId \<Rightarrow> bytes \<Rightarrow> u64 \<Rightarrow> JournalRecord" where
  "appended type epoch generation transaction payload sequence =
     \<lparr>jrec_header = append_header type epoch generation transaction payload sequence, jrec_payload = payload\<rparr>"

definition options_ok :: "JournalOptions \<Rightarrow> bool" where
  "options_ok opts \<longleftrightarrow> \<not> jo_read_only opts \<and> jo_sync_on_append opts \<and>
     unat (jo_max_record_bytes opts) < 2 ^ 32 \<and> unat (jo_max_journal_bytes opts) < 2 ^ 63"

text \<open>The open stream stands at the end of the file, of which \<open>s\<close> bytes are on stable storage.\<close>

definition holds :: "bytes \<Rightarrow> nat \<Rightarrow> Journal \<Rightarrow> World \<Rightarrow> bool" where
  "holds bs s j w \<longleftrightarrow> s \<le> length bs \<and> wd_files w (jn_path j) = Some \<lparr>fl_bytes = bs, fl_synced = s\<rparr> \<and>
     jn_file j = Some \<lparr>sm_path = jn_path j, sm_pos = length bs\<rparr>"

text \<open>The abstraction: the journal is the list of its records, all of it on stable storage.\<close>

definition journal_at :: "JournalRecord list \<Rightarrow> Journal \<Rightarrow> World \<Rightarrow> bool" where
  "journal_at log j w \<longleftrightarrow>
     holds (log_bytes log) (length (log_bytes log)) j w \<and> list_all (record_ok (jn_options j)) log \<and>
     options_ok (jn_options j) \<and> unat (jn_size j) = length (log_bytes log) \<and>
     length (log_bytes log) \<le> unat (jo_max_journal_bytes (jn_options j)) \<and> jn_path j \<noteq> []"

lemma transferred_le: "transferred out n \<le> n"
  by (simp add: transferred_def split: IoOutcome.splits)

lemma wd_files_take_outcome [simp]: "wd_files (snd (take_outcome w)) = wd_files w"
  by (simp add: take_outcome_def split: list.splits)

lemma fwrite_end:
  assumes "holds bs s j w" and "jn_file j = Some sm"
  shows "\<exists>n w'. fwrite data sm w = (n, \<lparr>sm_path = jn_path j, sm_pos = length bs + n\<rparr>, w') \<and> n \<le> length data \<and>
    wd_files w' = (wd_files w)(jn_path j \<mapsto> \<lparr>fl_bytes = bs @ take n data, fl_synced = s\<rparr>)"
proof -
  obtain out w1 where out: "take_outcome w = (out, w1)" by (cases "take_outcome w")
  then have "wd_files w1 = wd_files w" using wd_files_take_outcome [of w] by simp
  then show ?thesis
    using assms transferred_le [of out "length data"]
    by (auto simp: fwrite_def out holds_def Let_def put_file_def)
qed

lemma write_all_holds:
  assumes "holds bs s j w" and "write_all data j w = (res, j', w')"
  shows "\<exists>n \<le> length data. holds (bs @ take n data) s j' w' \<and> (res = Inr () \<longleftrightarrow> n = length data) \<and>
    j' = j\<lparr>jn_file := jn_file j'\<rparr>"
proof (cases "data = []")
  case True
  with assms show ?thesis by (auto simp: write_all_def holds_def)
next
  case False
  obtain sm where sm: "jn_file j = Some sm" using assms(1) by (auto simp: holds_def)
  obtain n w1 where w1: "fwrite data sm w = (n, \<lparr>sm_path = jn_path j, sm_pos = length bs + n\<rparr>, w1)" "n \<le> length data"
    "wd_files w1 = (wd_files w)(jn_path j \<mapsto> \<lparr>fl_bytes = bs @ take n data, fl_synced = s\<rparr>)"
    using fwrite_end [OF assms(1) sm] by blast
  have "res = (if n = length data then Inr () else Inl Err_IoError)" "w' = w1"
    "j' = j\<lparr>jn_file := Some \<lparr>sm_path = jn_path j, sm_pos = length bs + n\<rparr>\<rparr>"
    using assms(2) False by (auto simp: write_all_def sm w1(1) Let_def split: if_splits)
  then show ?thesis
    using w1(2,3) assms(1) by (intro exI [of _ n]) (auto simp: holds_def)
qed

lemma journal_sync_holds:
  assumes "holds bs s j w" and "journal_sync j w = (res, w')"
  shows "\<exists>s' \<ge> s. holds bs s' j w' \<and> (res = Inr () \<longrightarrow> s' = length bs)"
proof -
  obtain o1 w1 where o1: "take_outcome w = (o1, w1)" by (cases "take_outcome w")
  obtain o2 w2 where o2: "take_outcome w1 = (o2, w2)" by (cases "take_outcome w1")
  have files: "wd_files w1 = wd_files w" "wd_files w2 = wd_files w"
    using wd_files_take_outcome [of w] wd_files_take_outcome [of w1] o1 o2 by simp_all
  from assms files show ?thesis
    by (auto simp: journal_sync_def flush_stream_def fflush_def fsync_def o1 o2 holds_def split: if_splits)
qed

lemma append_record_ok:
  assumes "options_ok opts" and "length payload < 2 ^ 64" and "\<not> of_nat (length payload) > jo_max_record_bytes opts"
  shows "record_ok opts (appended t e g x payload n)"
proof -
  have "unat (of_nat (length payload) :: u64) = length payload"
    using assms(2) by (simp add: unat_of_nat)
  then have le: "length payload \<le> unat (jo_max_record_bytes opts)"
    using assms(3) by (simp add: word_less_nat_alt)
  then have len: "unat (of_nat (length payload) :: u32) = length payload"
    using assms(1) by (simp add: options_ok_def unat_of_nat)
  have "unat (ucast (of_nat (length payload) :: u32) :: u64) = length payload"
    using len by (simp add: unat_ucast_32_64)
  then have "\<not> ucast (of_nat (length payload) :: u32) > jo_max_record_bytes opts"
    using le by (simp add: word_less_nat_alt)
  then show ?thesis
    by (simp add: record_ok_def appended_def append_header_def Let_def record_header_crc_def len)
qed

lemma write_record_holds:
  assumes "holds bs s j w" and "write_record header payload j w = (res, j', w')"
  shows "\<exists>n \<le> length (header @ payload). holds (bs @ take n (header @ payload)) s j' w' \<and>
    (res = Inr () \<longleftrightarrow> n = length (header @ payload)) \<and> j' = j\<lparr>jn_file := jn_file j'\<rparr>"
proof -
  obtain r1 j1 w1 where s1: "write_all header j w = (r1, j1, w1)" by (metis prod_cases3)
  obtain n where n: "n \<le> length header" "holds (bs @ take n header) s j1 w1" "r1 = Inr () \<longleftrightarrow> n = length header"
    "j1 = j\<lparr>jn_file := jn_file j1\<rparr>"
    using write_all_holds [OF assms(1) s1] by blast
  show ?thesis
  proof (cases "r1 = Inr ()")
    case False
    then have "res = r1" "j' = j1" "w' = w1"
      using assms(2) by (auto simp: write_record_def s1 split: sum.splits)
    with n False show ?thesis by (intro exI [of _ n]) auto
  next
    case True
    then have full: "holds (bs @ header) s j1 w1" and s2: "write_all payload j1 w1 = (res, j', w')"
      using n assms(2) by (auto simp: write_record_def s1)
    obtain m where m: "m \<le> length payload" "holds ((bs @ header) @ take m payload) s j' w'"
      "res = Inr () \<longleftrightarrow> m = length payload" "j' = j1\<lparr>jn_file := jn_file j'\<rparr>"
      using write_all_holds [OF full s2] by blast
    moreover have "j' = j\<lparr>jn_file := jn_file j'\<rparr>"
      by (subst m(4), subst n(4)) simp
    ultimately show ?thesis by (intro exI [of _ "length header + m"]) auto
  qed
qed

text \<open>One append on a journal in its abstract state, whatever the I/O does.\<close>

definition append_outcome :: "JournalRecord list \<Rightarrow> JournalRecord \<Rightarrow> Journal \<Rightarrow> void_result \<times> Journal \<times> World \<Rightarrow> bool" where
  "append_outcome log rec j out \<longleftrightarrow>
     (case out of (res, j', w') \<Rightarrow>
       jn_path j' = jn_path j \<and> jn_options j' = jn_options j \<and>
       (if res = Inr () then journal_at (log @ [rec]) j' w' \<and> jn_next_sequence j' = jn_next_sequence j + 1
        else \<exists>k s. holds (log_bytes log @ take k (record_bytes rec)) s j' w' \<and> length (log_bytes log) \<le> s \<and>
          (k = 0 \<or> record_ok (jn_options j) rec) \<and>
          length (log_bytes log @ take k (record_bytes rec)) \<le> unat (jo_max_journal_bytes (jn_options j))))"

lemma append_outcome_failed:
  assumes "holds (log_bytes log @ take k (record_bytes rec)) s j' w'" and "length (log_bytes log) \<le> s"
    and "k = 0 \<or> record_ok (jn_options j) rec"
    and "length (log_bytes log @ take k (record_bytes rec)) \<le> unat (jo_max_journal_bytes (jn_options j))"
    and "jn_path j' = jn_path j" and "jn_options j' = jn_options j"
  shows "append_outcome log rec j (Inl err, j', w')"
  using assms by (auto simp: append_outcome_def)

lemma append_sizes:
  assumes "journal_at log j w" and "length payload < 2 ^ 64"
    and "\<not> of_nat (length payload) > jo_max_record_bytes (jn_options j)"
  shows "unat (jn_size j + of_nat kRecordHeaderSize + of_nat (length payload)) =
    length (log_bytes log) + (64 + length payload)"
proof -
  have "unat (of_nat (length payload) :: u64) = length payload" using assms(2) by (simp add: unat_of_nat)
  then have "length payload < 2 ^ 32"
    using assms(1,3) by (simp add: journal_at_def options_ok_def word_less_nat_alt)
  with assms(1) show ?thesis
    by (simp add: journal_at_def options_ok_def kRecordHeaderSize_def unat_word_ariths unat_of_nat)
qed

lemma journal_append_outcome:
  assumes at: "journal_at log j w" and len: "length payload < 2 ^ 64"
  shows "append_outcome log (appended t e g x payload (jn_next_sequence j)) j (journal_append t e g x payload j w)"
    (is "append_outcome log ?rec j ?out")
proof -
  note h = at [unfolded journal_at_def]
  let ?log = "log_bytes log" and ?opts = "jn_options j"
  let ?p = "jn_size j + of_nat kRecordHeaderSize + of_nat (length payload)"
  have usual: "\<not> jo_read_only ?opts" "jn_file j \<noteq> None" "jo_sync_on_append ?opts"
    using h by (auto simp: options_ok_def holds_def)
  have refused: "append_outcome log ?rec j (Inl err, j, w)" for err
    by (rule append_outcome_failed [of _ 0]) (use h in auto)
  have bytes: "record_bytes ?rec = encode_header (jrec_header ?rec) @ payload"
    by (simp add: record_bytes_def appended_def)
  show ?thesis
  proof (cases "of_nat (length payload) > jo_max_record_bytes ?opts \<or> ?p > jo_max_journal_bytes ?opts")
    case True
    with usual refused show ?thesis by (auto simp: journal_append_def Let_def)
  next
    case False
    have ok: "record_ok ?opts ?rec" using False h len by (intro append_record_ok) auto
    have sizes: "unat ?p = length ?log + length (record_bytes ?rec)"
      using append_sizes [OF at len] False by (simp add: length_record_bytes appended_def)
    have fits: "length ?log + length (record_bytes ?rec) \<le> unat (jo_max_journal_bytes ?opts)"
      using False sizes by (simp add: word_less_nat_alt)
    obtain r1 j1 w1 where s1: "write_record (encode_header (jrec_header ?rec)) payload j w = (r1, j1, w1)"
      by (metis prod_cases3)
    obtain n where n: "n \<le> length (record_bytes ?rec)" "holds (?log @ take n (record_bytes ?rec)) (length ?log) j1 w1"
      "r1 = Inr () \<longleftrightarrow> n = length (record_bytes ?rec)" "j1 = j\<lparr>jn_file := jn_file j1\<rparr>"
      using write_record_holds [OF _ s1] h unfolding bytes by blast
    have same: "jn_path j1 = jn_path j" "jn_options j1 = ?opts" "jn_next_sequence j1 = jn_next_sequence j"
      by (subst n(4), simp)+
    have out: "?out = (case r1 of Inl err \<Rightarrow> (Inl err, j1, w1) | Inr _ \<Rightarrow>
        let j2 = j1\<lparr>jn_size := ?p, jn_next_sequence := jn_next_sequence j + 1\<rparr>; (r, w2) = journal_sync j2 w1 in (r, j2, w2))"
      using usual False s1 same
      by (auto simp: journal_append_def Let_def appended_def split: sum.splits prod.splits)
    show ?thesis
    proof (cases r1)
      case (Inl err)
      have "append_outcome log ?rec j (Inl err, j1, w1)"
        by (rule append_outcome_failed [OF n(2)]) (use ok fits same n(1) in auto)
      then show ?thesis by (simp add: out Inl)
    next
      case (Inr u)
      let ?j2 = "j1\<lparr>jn_size := ?p, jn_next_sequence := jn_next_sequence j + 1\<rparr>"
      have "holds (?log @ record_bytes ?rec) (length ?log) ?j2 w1" using n Inr by (simp add: holds_def)
      note held = this
      obtain r w2 where s1: "journal_sync ?j2 w1 = (r, w2)" by (cases "journal_sync ?j2 w1")
      obtain s where s2: "length ?log \<le> s" "holds (?log @ record_bytes ?rec) s ?j2 w2"
        "r = Inr () \<longrightarrow> s = length (?log @ record_bytes ?rec)"
        using journal_sync_holds [OF held s1] by blast
      note s = s1 s2
      have "journal_at (log @ [?rec]) ?j2 w2" if "r = Inr ()"
        using s that h ok same sizes fits by (simp add: journal_at_def)
      moreover have "append_outcome log ?rec j (Inl err, ?j2, w2)" for err
        by (rule append_outcome_failed [of _ "length (record_bytes ?rec)" _ s]) (use s same ok fits in auto)
      ultimately show ?thesis
        using s(1) same by (cases r) (auto simp: out Inr append_outcome_def)
    qed
  qed
qed

section \<open>Crash safety\<close>

type_synonym Entry = "RecordType \<times> EpochId \<times> u64 \<times> TransactionId \<times> bytes"

text \<open>The specification: the entries as records, numbered from \<open>n\<close>.\<close>

fun numbered :: "u64 \<Rightarrow> Entry list \<Rightarrow> JournalRecord list" where
  "numbered n [] = []"
| "numbered n ((t, e, g, x, payload) # es) = appended t e g x payload n # numbered (n + 1) es"

text \<open>A client that appends until an append fails; the count is the number of acknowledged appends.\<close>

fun append_run :: "Entry list \<Rightarrow> Journal \<Rightarrow> World \<Rightarrow> nat \<times> Journal \<times> World" where
  "append_run [] j w = (0, j, w)"
| "append_run ((t, e, g, x, payload) # es) j w =
     (case journal_append t e g x payload j w of
        (Inl _, j1, w1) \<Rightarrow> (0, j1, w1)
      | (Inr _, j1, w1) \<Rightarrow> (case append_run es j1 w1 of (n, j2, w2) \<Rightarrow> (Suc n, j2, w2)))"

definition entry_ok :: "Entry \<Rightarrow> bool" where
  "entry_ok e = (case e of (_, _, _, _, payload) \<Rightarrow> length payload < 2 ^ 64)"

text \<open>The file after a run: the acknowledged records, then part of the record that was interrupted.\<close>

definition run_left :: "JournalRecord list \<Rightarrow> JournalRecord list \<Rightarrow> nat \<Rightarrow> Journal \<Rightarrow> World \<Rightarrow> bool" where
  "run_left log rs n j w \<longleftrightarrow>
     (\<exists>torn s. holds (log_bytes (log @ take n rs) @ torn) s j w \<and> length (log_bytes (log @ take n rs)) \<le> s \<and>
        n \<le> length rs \<and> list_all (record_ok (jn_options j)) (log @ take n rs) \<and>
        (torn = [] \<or> (n < length rs \<and> record_ok (jn_options j) (rs ! n) \<and> (\<exists>k. torn = take k (record_bytes (rs ! n))))) \<and>
        length (log_bytes (log @ take n rs) @ torn) \<le> unat (jo_max_journal_bytes (jn_options j)) \<and> jn_path j \<noteq> [])"

lemma append_run_left:
  assumes "journal_at log j w" and "list_all entry_ok es"
  shows "case append_run es j w of (n, j', w') \<Rightarrow> run_left log (numbered (jn_next_sequence j) es) n j' w'"
  using assms
proof (induction es arbitrary: log j w)
  case Nil
  then show ?case by (auto simp: run_left_def journal_at_def intro!: exI [of _ "[]"])
next
  case (Cons entry es)
  obtain t e g x payload where entry: "entry = (t, e, g, x, payload)" by (cases entry)
  let ?rec = "appended t e g x payload (jn_next_sequence j)"
  obtain res j1 w1 where out: "journal_append t e g x payload j w = (res, j1, w1)" by (metis prod_cases3)
  have o: "append_outcome log ?rec j (res, j1, w1)"
    using journal_append_outcome [OF Cons.prems(1), of payload t e g x] Cons.prems(2)
    by (simp add: out entry entry_ok_def)
  have at: "list_all (record_ok (jn_options j)) log" "jn_path j \<noteq> []"
    using Cons.prems(1) by (simp_all add: journal_at_def)
  show ?case
  proof (cases res)
    case (Inl err)
    then obtain k s where k: "holds (log_bytes log @ take k (record_bytes ?rec)) s j1 w1" "length (log_bytes log) \<le> s"
      "k = 0 \<or> record_ok (jn_options j) ?rec"
      "length (log_bytes log @ take k (record_bytes ?rec)) \<le> unat (jo_max_journal_bytes (jn_options j))"
      "jn_path j1 = jn_path j" "jn_options j1 = jn_options j"
      using o by (auto simp: append_outcome_def)
    have "run_left log (?rec # numbered (jn_next_sequence j + 1) es) 0 j1 w1"
      unfolding run_left_def
      by (rule exI [of _ "take k (record_bytes ?rec)"], rule exI [of _ s]) (use k at in auto)
    then show ?thesis by (simp add: entry out Inl)
  next
    case (Inr u)
    then have j1: "journal_at (log @ [?rec]) j1 w1" "jn_next_sequence j1 = jn_next_sequence j + 1"
      using o by (auto simp: append_outcome_def)
    obtain n j2 w2 where run: "append_run es j1 w1 = (n, j2, w2)" by (metis prod_cases3)
    have "run_left (log @ [?rec]) (numbered (jn_next_sequence j + 1) es) n j2 w2"
      using Cons.IH [OF j1(1)] Cons.prems(2) by (simp add: run j1(2))
    then have "run_left log (?rec # numbered (jn_next_sequence j + 1) es) (Suc n) j2 w2"
      by (simp add: run_left_def)
    then show ?thesis by (simp add: entry out Inr run)
  qed
qed

lemma take_take_prefix:
  assumes "ys = take i (take k xs)" and "ys \<noteq> xs"
  shows "ys = take (length ys) xs \<and> length ys < length xs"
proof -
  have "ys = take (length ys) xs" using assms(1) by (simp add: min_def)
  then show ?thesis using assms(2) by (metis nat_less_le take_all_iff length_take min.cobounded1 not_le)
qed

lemma run_left_replay:
  assumes left: "run_left log rs n j w" and crash: "crashes_to w w2"
  shows "\<exists>r m. journal_replay j w2 = (Inr r, w2) \<and> n \<le> m \<and> m \<le> Suc n \<and> m \<le> length rs \<and>
    jr_records r = log @ take m rs \<and> jr_status r \<noteq> Rs_Corrupt \<and>
    jr_valid_bytes r = length (log_bytes (log @ take m rs))"
proof -
  let ?log = "log @ take n rs" and ?opts = "jn_options j"
  obtain torn s where t: "holds (log_bytes ?log @ torn) s j w" "length (log_bytes ?log) \<le> s" "n \<le> length rs"
    "list_all (record_ok ?opts) ?log"
    "torn = [] \<or> (n < length rs \<and> record_ok ?opts (rs ! n) \<and> (\<exists>k. torn = take k (record_bytes (rs ! n))))"
    "length (log_bytes ?log @ torn) \<le> unat (jo_max_journal_bytes ?opts)" "jn_path j \<noteq> []"
    using left unfolding run_left_def by blast
  have "rel_option file_cut (Some \<lparr>fl_bytes = log_bytes ?log @ torn, fl_synced = s\<rparr>) (wd_files w2 (jn_path j))"
    using crash t(1) by (metis crashes_to_def holds_def)
  then obtain k where f2: "wd_files w2 (jn_path j) = Some \<lparr>fl_bytes = take k (log_bytes ?log @ torn), fl_synced = k\<rparr>"
    and k: "s \<le> k" "k \<le> length (log_bytes ?log @ torn)"
    by (auto simp: option_rel_Some1 file_cut_def)
  define left2 where "left2 = take (k - length (log_bytes ?log)) torn"
  have bytes: "take k (log_bytes ?log @ torn) = log_bytes ?log @ left2" using k t(2) by (simp add: left2_def)
  have "length (take k (log_bytes ?log @ torn)) \<le> unat (jo_max_journal_bytes ?opts)"
    using t(6) by simp
  then have read: "read_file (jn_path j) (jo_max_journal_bytes ?opts) w2 = (Inr (log_bytes ?log @ left2), w2)"
    unfolding bytes [symmetric] using read_file_ok [OF _ f2] crash by (simp only: crashes_to_def File.select_convs)
  have replay: "journal_replay j w2 = (Inr (replay_data ?opts (log_bytes ?log @ left2)), w2)"
    using t(7) by (simp add: journal_replay_def read)
  show ?thesis
  proof (cases "left2 \<noteq> [] \<and> left2 = record_bytes (rs ! n)")
    case True
    then have n: "n < length rs" "record_ok ?opts (rs ! n)" using t(5) by (auto simp: left2_def)
    then have whole: "log_bytes ?log @ left2 = log_bytes (log @ take (Suc n) rs)" "list_all (record_ok ?opts) (log @ take (Suc n) rs)"
      using True t(4) by (simp_all add: take_Suc_conv_app_nth)
    have "reports (log @ take (Suc n) rs) [] (replay_data ?opts (log_bytes ?log @ left2))"
      using replay_data_log [OF whole(2), of "[]"] unfolding whole(1) by simp
    then show ?thesis
      using n(1) by (auto simp: replay reports_def intro!: exI [of _ "Suc n"] split: if_splits)
  next
    case False
    have "left2 = [] \<or> torn \<noteq> []" by (auto simp: left2_def)
    then have "left2 = [] \<or> (record_ok ?opts (rs ! n) \<and> left2 = take (length left2) (record_bytes (rs ! n)) \<and>
        length left2 < length (record_bytes (rs ! n)))"
      using False t(5) take_take_prefix [of left2 "k - length (log_bytes ?log)"] left2_def by blast
    then have "reports ?log left2 (replay_data ?opts (log_bytes ?log @ left2))"
      by (rule replay_data_log [OF t(4)])
    then show ?thesis
      using t(3) by (auto simp: replay reports_def intro!: exI [of _ n] split: if_splits)
  qed
qed

text \<open>C17: the journal is crash safe. Start from a journal holding the records \<open>log\<close> and append any entries
  under any pattern of I/O faults, stopping at the first append that fails; then let the machine
  crash, losing any part of what was not yet synced. Replay succeeds, does not call the file corrupt,
  and returns \<open>log\<close> followed by every acknowledged record in order, each with its sequence number, and
  at most one more: the record whose append was interrupted.\<close>

theorem journal_survives_crash:
  assumes "journal_at log j w" and "list_all entry_ok es"
    and "append_run es j w = (acked, j', w')" and "crashes_to w' w2"
  shows "\<exists>r m. journal_replay j' w2 = (Inr r, w2) \<and> acked \<le> m \<and> m \<le> Suc acked \<and> m \<le> length es \<and>
    jr_records r = log @ take m (numbered (jn_next_sequence j) es) \<and> jr_status r \<noteq> Rs_Corrupt \<and>
    jr_valid_bytes r = length (log_bytes (log @ take m (numbered (jn_next_sequence j) es)))"
proof -
  have "length (numbered n xs) = length xs" for n xs
    by (induction n xs rule: numbered.induct) simp_all
  moreover have "run_left log (numbered (jn_next_sequence j) es) acked j' w'"
    using append_run_left [OF assms(1,2)] assms(3) by simp
  ultimately show ?thesis using run_left_replay [OF _ assms(4)] by metis
qed

text \<open>A torn first record is invisible. When a crash leaves only part of the first record, replay reports
  the status \<open>Empty\<close>, the same as for a file without bytes, although it counts the bytes as dropped; a
  caller that cuts the file on \<^verbatim>\<open>TruncatedTail\<close> only keeps the torn bytes.\<close>

theorem torn_first_record_reported_empty:
  assumes "record_ok opts x" and "0 < k" and "k < length (record_bytes x)"
  shows "jr_status (replay_data opts (take k (record_bytes x))) = Rs_Empty \<and>
    jr_dropped_bytes (replay_data opts (take k (record_bytes x))) = k"
  using replay_data_log [of opts "[]" "take k (record_bytes x)" x k] assms by (simp add: reports_def)

section \<open>Worked journals\<close>

definition demo_journal_options :: JournalOptions where
  "demo_journal_options =
     \<lparr>jo_max_record_bytes = 1000, jo_max_journal_bytes = 100000, jo_sync_on_append = True, jo_read_only = False\<rparr>"

definition demo_journal :: Journal where
  "demo_journal =
     \<lparr>jn_path = ''j'', jn_options = demo_journal_options, jn_file = Some \<lparr>sm_path = ''j'', sm_pos = 0\<rparr>,
      jn_size = 0, jn_next_sequence = 1\<rparr>"

definition demo_disk :: "IoOutcome list \<Rightarrow> bytes \<Rightarrow> nat \<Rightarrow> World" where
  "demo_disk script bs s = \<lparr>wd_files = [''j'' \<mapsto> \<lparr>fl_bytes = bs, fl_synced = s\<rparr>], wd_script = script\<rparr>"

definition demo_record :: JournalRecord where
  "demo_record = appended Rt_Rebase 1 1 0 [] 1"

lemma demo_record_ok: "record_ok demo_journal_options demo_record"
  unfolding demo_record_def
  by (rule append_record_ok) (simp_all add: options_ok_def demo_journal_options_def)

text \<open>The header write of the only append is short, and the crash cuts what it left behind.\<close>

theorem journal_survives_crash_witness:
  "\<exists>r m. journal_replay (demo_journal\<lparr>jn_file := Some \<lparr>sm_path = ''j'', sm_pos = 10\<rparr>\<rparr>)
       (demo_disk [] (take 4 (record_bytes demo_record)) 4) =
     (Inr r, demo_disk [] (take 4 (record_bytes demo_record)) 4) \<and> m \<le> 1 \<and> jr_records r = take m [demo_record]"
proof -
  let ?es = "[(Rt_Rebase, 1, 1, 0, [])]"
  let ?w' = "demo_disk [] (take 10 (record_bytes demo_record)) 0"
  have at: "journal_at [] demo_journal (demo_disk [Io_Short 10] [] 0)"
    by (simp add: journal_at_def holds_def demo_journal_def demo_disk_def options_ok_def demo_journal_options_def)
  have run: "append_run ?es demo_journal (demo_disk [Io_Short 10] [] 0) =
      (0, demo_journal\<lparr>jn_file := Some \<lparr>sm_path = ''j'', sm_pos = 10\<rparr>\<rparr>, ?w')"
    by (simp add: journal_append_def write_record_def write_all_def fwrite_def take_outcome_def transferred_def
        demo_journal_def demo_journal_options_def demo_disk_def demo_record_def record_bytes_def appended_def
        put_file_def write_at_def Let_def kRecordHeaderSize_def)
  have crash: "crashes_to ?w' (demo_disk [] (take 4 (record_bytes demo_record)) 4)"
    by (auto simp: crashes_to_def demo_disk_def file_cut_def length_record_bytes intro!: exI [of _ 4])
  from journal_survives_crash [OF at _ run crash] show ?thesis
    by (simp add: entry_ok_def demo_record_def) (auto simp: demo_journal_def)
qed

text \<open>What follows: four torn bytes, and the next process's record behind them makes the file corrupt.\<close>

lemma torn_magic_then_record:
  assumes "rh_magic (jrec_header x) = kRecordMagic"
  shows "jr_status (replay_data opts (take 4 (record_bytes x) @ record_bytes x)) = Rs_Corrupt"
proof -
  let ?data = "take 4 (record_bytes x) @ record_bytes x"
  have magic: "put_le 4 kRecordMagic = [0x52, 0x46, 0x43, 0x4E]"
    by (simp add: put_le_def upt_conv_Cons kRecordMagic_def drop_bit_word_minus_numeral)
  then have "take 4 (record_bytes x) = [0x52, 0x46, 0x43, 0x4E]"
    using assms by (simp add: record_bytes_def encode_header_def)
  moreover have "take 2 (record_bytes x) = [0x52, 0x46]"
    using assms magic by (simp add: record_bytes_def encode_header_def)
  ultimately have "take 2 (drop 4 (take 64 ?data)) = [0x52, 0x46]" by simp
  then have "rh_format (record_fields (take 64 ?data)) = get_le [0x52, 0x46]"
    by (simp add: record_fields_def field_at_def)
  moreover have "get_le [0x52, 0x46] = (0x4652 :: u16)" by (simp add: get_le_def)
  ultimately have "rh_format (decode_header (take 64 ?data)) \<noteq> kFormatVersion"
    by (simp add: record_header.decode_fields kFormatVersion_def)
  moreover have "64 \<le> length (record_bytes x)" "record_bytes x \<noteq> []"
    by (simp_all add: length_record_bytes) (simp add: record_bytes_def)
  ultimately show ?thesis
    by (simp add: replay_data_def Let_def replay_loop.simps [of opts ?data] kRecordHeaderSize_def replay_reject_def)
qed

theorem torn_first_record_reported_empty_witness:
  "jr_status (replay_data demo_journal_options (take 4 (record_bytes demo_record))) = Rs_Empty \<and>
   jr_status (replay_data demo_journal_options (take 4 (record_bytes demo_record) @ record_bytes demo_record)) = Rs_Corrupt"
  using torn_first_record_reported_empty [OF demo_record_ok, of 4] demo_record_ok
  by (simp add: length_record_bytes torn_magic_then_record record_ok_def)

end
