(* ===== verification/NCF_StoreCodec.thy ===== *)
theory NCF_StoreCodec
  imports NCF_Topology NCF_Hysteresis NCF_Authority NCF_Codec
begin

text \<open>
  The durable document and the payload codecs of the store, \<^verbatim>\<open>src/durability/store_codec.cpp\<close> with the
  data of \<^verbatim>\<open>include/ncf/durability/store.hpp\<close>. Each record is written and read by one action; the
  actions are codecs, and a payload is a codec followed by the decoder's checks: whatever a typed
  commit encodes, replay decodes to the same value.
\<close>

section \<open>The durable document\<close>

datatype MutationKind = MutationKind (mu_u16: u16)

abbreviation Mu_Unknown :: MutationKind where "Mu_Unknown \<equiv> MutationKind 0"
abbreviation Mu_PolicySet :: MutationKind where "Mu_PolicySet \<equiv> MutationKind 1"
abbreviation Mu_DomainState :: MutationKind where "Mu_DomainState \<equiv> MutationKind 2"
abbreviation Mu_Intervention :: MutationKind where "Mu_Intervention \<equiv> MutationKind 3"
abbreviation Mu_Fence :: MutationKind where "Mu_Fence \<equiv> MutationKind 4"
abbreviation Mu_EpochAdvance :: MutationKind where "Mu_EpochAdvance \<equiv> MutationKind 5"
abbreviation Mu_Revalidation :: MutationKind where "Mu_Revalidation \<equiv> MutationKind 6"
abbreviation Mu_TopologySet :: MutationKind where "Mu_TopologySet \<equiv> MutationKind 7"
abbreviation Mu_CapacitySet :: MutationKind where "Mu_CapacitySet \<equiv> MutationKind 8"
abbreviation Mu_HistoryAppend :: MutationKind where "Mu_HistoryAppend \<equiv> MutationKind 9"
abbreviation Mu_AttemptRecord :: MutationKind where "Mu_AttemptRecord \<equiv> MutationKind 10"
abbreviation Mu_ProvenanceAppend :: MutationKind where "Mu_ProvenanceAppend \<equiv> MutationKind 11"
abbreviation Mu_Count :: MutationKind where "Mu_Count \<equiv> MutationKind 12"

definition mutation_kind_name :: "MutationKind \<Rightarrow> string" where
  "mutation_kind_name k =
     enum_name [''unknown'', ''policy-set'', ''domain-state'', ''intervention'', ''fence'', ''epoch-advance'',
       ''revalidation'', ''topology-set'', ''capacity-set'', ''history-append'', ''attempt-record'',
       ''provenance-append'', ''count''] ''unknown'' (unat (mu_u16 k))"

record MutationStamp =
  ms_epoch :: EpochId
  ms_generation :: AuthorityGeneration
  ms_attempt :: AttemptId
  ms_provenance :: ProvenanceId
  ms_tick :: Tick

record InterventionRecord =
  ic_id :: InterventionId
  ic_kind :: InterventionKind
  ic_domain :: DomainId
  ic_resource :: ResourceId
  ic_basis_severity :: Severity
  ic_evidence :: EvidenceSnapshotId
  ic_evaluation :: EvaluationId
  ic_epoch :: EpochId
  ic_authority_generation :: AuthorityGeneration
  ic_policy :: PolicyId
  ic_provenance :: ProvenanceId
  ic_recorded_tick :: Tick
  ic_parameter :: u64

record HistoryEntry =
  he_domain :: DomainId
  he_from :: CongestionState
  he_to :: CongestionState
  he_tick :: Tick
  he_evaluation :: EvaluationId
  he_epoch :: EpochId
  he_reason :: string

record AttemptRecord =
  at_attempt :: AttemptId
  at_transaction :: TransactionId
  at_kind :: MutationKind
  at_state :: AttemptState
  at_epoch :: EpochId
  at_generation :: AuthorityGeneration
  at_recorded_tick :: Tick
  at_provenance :: ProvenanceId
  at_detail :: string

text \<open>A configuration and its \<^verbatim>\<open>has_\<close> flag are one option.\<close>

record DurableDocument =
  dd_epoch :: EpochId
  dd_coordinator_boot :: BootId
  dd_coordinator_boot_counter :: u64
  dd_authority_generation :: AuthorityGeneration
  dd_policy :: "CongestionPolicy option"
  dd_topology :: "TopologySnapshot option"
  dd_capacity :: "CapacitySnapshot option"
  dd_domains :: "DomainState list"
  dd_history :: "HistoryEntry list"
  dd_interventions :: "InterventionRecord list"
  dd_fences :: "FenceRecord list"
  dd_attempts :: "AttemptRecord list"
  dd_provenance :: "Provenance list"
  dd_revalidations :: "RevalidationRecord list"
  dd_last_sequence :: u64
  dd_mutation_count :: u64

definition empty_document :: DurableDocument where
  "empty_document =
     \<lparr>dd_epoch = 0, dd_coordinator_boot = 0, dd_coordinator_boot_counter = 0, dd_authority_generation = 0,
      dd_policy = None, dd_topology = None, dd_capacity = None, dd_domains = [], dd_history = [],
      dd_interventions = [], dd_fences = [], dd_attempts = [], dd_provenance = [], dd_revalidations = [],
      dd_last_sequence = 0, dd_mutation_count = 0\<rparr>"

text \<open>The position \<^verbatim>\<open>std::lower_bound\<close> finds splits the list in two.\<close>

definition domains_below :: "DomainId \<Rightarrow> DomainState list \<Rightarrow> DomainState list" where
  "domains_below d ds = takeWhile (\<lambda>s. ds_domain s < d) ds"

definition domains_from :: "DomainId \<Rightarrow> DomainState list \<Rightarrow> DomainState list" where
  "domains_from d ds = dropWhile (\<lambda>s. ds_domain s < d) ds"

definition find_domain :: "DomainId \<Rightarrow> DomainState list \<Rightarrow> DomainState option" where
  "find_domain d ds =
     (case domains_from d ds of
        [] \<Rightarrow> None
      | s # _ \<Rightarrow> if ds_domain s \<noteq> d then None else Some s)"

text \<open>\<^verbatim>\<open>upsert_domain\<close> and the assignment through the reference it returns.\<close>

definition upsert_domain :: "DomainState \<Rightarrow> DomainState list \<Rightarrow> DomainState list" where
  "upsert_domain v ds =
     (case domains_from (ds_domain v) ds of
        [] \<Rightarrow> domains_below (ds_domain v) ds @ [v]
      | s # rest \<Rightarrow>
          if ds_domain s = ds_domain v then domains_below (ds_domain v) ds @ v # rest
          else domains_below (ds_domain v) ds @ v # s # rest)"

definition is_fenced :: "PublisherId \<Rightarrow> BootId \<Rightarrow> FenceRecord list \<Rightarrow> bool" where
  "is_fenced publisher boot fences \<longleftrightarrow> (\<exists>f \<in> set fences. fe_publisher f = publisher \<and> fe_boot f = boot)"

section \<open>Policy payloads\<close>

definition w_rule :: "ThresholdRule \<Rightarrow> (ByteWriter, unit) state" where
  "w_rule r = do {
     w_u16 (mk_u16 (tr_metric r)); w_u8 (op_u8 (tr_op r)); w_u64 (tr_watch r);
     w_u64 (tr_congested r); w_u64 (tr_severe r); w_boolean (tr_required r);
     w_u64 (tr_max_age_ticks r); w_u32 (tr_weight r) }"

definition r_rule :: "(ByteReader, ThresholdRule) state" where
  "r_rule = do {
     metric' \<leftarrow> r_u16; op' \<leftarrow> r_u8; watch' \<leftarrow> r_u64;
     congested' \<leftarrow> r_u64; severe' \<leftarrow> r_u64; required' \<leftarrow> r_boolean;
     max_age_ticks' \<leftarrow> r_u64; weight' \<leftarrow> r_u32;
     State_Monad.return
       \<lparr>tr_metric = MetricKind metric', tr_op = ThresholdOp op', tr_watch = watch',
       tr_congested = congested', tr_severe = severe', tr_required = required',
       tr_max_age_ticks = max_age_ticks', tr_weight = weight'\<rparr> }"

definition w_hysteresis :: "HysteresisPolicy \<Rightarrow> (ByteWriter, unit) state" where
  "w_hysteresis h = do {
     w_u32 (hp_escalate_samples h); w_u32 (hp_deescalate_samples h); w_u64 (hp_min_dwell_ticks h);
     w_u32 (hp_downgrade_margin_ppm h); w_boolean (hp_require_all_rules_agree_on_downgrade h);
     w_boolean (hp_apply_dwell_on_escalation h) }"

definition r_hysteresis :: "(ByteReader, HysteresisPolicy) state" where
  "r_hysteresis = do {
     escalate_samples' \<leftarrow> r_u32; deescalate_samples' \<leftarrow> r_u32;
     min_dwell_ticks' \<leftarrow> r_u64; downgrade_margin_ppm' \<leftarrow> r_u32;
     require_all_rules_agree_on_downgrade' \<leftarrow> r_boolean;
     apply_dwell_on_escalation' \<leftarrow> r_boolean;
     State_Monad.return
       \<lparr>hp_escalate_samples = escalate_samples', hp_deescalate_samples = deescalate_samples',
       hp_min_dwell_ticks = min_dwell_ticks', hp_downgrade_margin_ppm = downgrade_margin_ppm',
       hp_require_all_rules_agree_on_downgrade = require_all_rules_agree_on_downgrade',
       hp_apply_dwell_on_escalation = apply_dwell_on_escalation'\<rparr> }"

definition w_recovery :: "RecoveryPolicy \<Rightarrow> (ByteWriter, unit) state" where
  "w_recovery r = do {
     w_boolean (rp_enabled r); w_u32 (rp_min_improved_samples r);
     w_boolean (rp_allow_single_sample r); w_u32 (rp_clear_samples r);
     w_u64 (rp_recovering_hold_ticks r) }"

definition r_recovery :: "(ByteReader, RecoveryPolicy) state" where
  "r_recovery = do {
     enabled' \<leftarrow> r_boolean; min_improved_samples' \<leftarrow> r_u32;
     allow_single_sample' \<leftarrow> r_boolean; clear_samples' \<leftarrow> r_u32;
     recovering_hold_ticks' \<leftarrow> r_u64;
     State_Monad.return
       \<lparr>rp_enabled = enabled', rp_min_improved_samples = min_improved_samples',
       rp_allow_single_sample = allow_single_sample', rp_clear_samples = clear_samples',
       rp_recovering_hold_ticks = recovering_hold_ticks'\<rparr> }"

definition w_propagation :: "PropagationPolicy \<Rightarrow> (ByteWriter, unit) state" where
  "w_propagation p = do {
     w_boolean (pp_enabled p); w_u32 (pp_max_depth p); w_u32 (pp_decay_ppm p);
     w_u8 (sev_u8 (pp_max_induced_severity p)); w_boolean (pp_follow_links p);
     w_boolean (pp_follow_paths p); w_u32 (pp_min_pressure_ppm p) }"

definition r_propagation :: "(ByteReader, PropagationPolicy) state" where
  "r_propagation = do {
     enabled' \<leftarrow> r_boolean; max_depth' \<leftarrow> r_u32; decay_ppm' \<leftarrow> r_u32;
     max_induced_severity' \<leftarrow> r_u8; follow_links' \<leftarrow> r_boolean;
     follow_paths' \<leftarrow> r_boolean; min_pressure_ppm' \<leftarrow> r_u32;
     State_Monad.return
       \<lparr>pp_enabled = enabled', pp_max_depth = max_depth', pp_decay_ppm = decay_ppm',
       pp_max_induced_severity = Severity max_induced_severity', pp_follow_links = follow_links',
       pp_follow_paths = follow_paths', pp_min_pressure_ppm = min_pressure_ppm'\<rparr> }"

definition w_freshness :: "FreshnessPolicy \<Rightarrow> (ByteWriter, unit) state" where
  "w_freshness f = do {
     w_u64 (fp_default_max_age_ticks f); w_u64 (fp_max_future_skew_ticks f);
     w_boolean (fp_heartbeat_refreshes_freshness f) }"

definition r_freshness :: "(ByteReader, FreshnessPolicy) state" where
  "r_freshness = do {
     default_max_age_ticks' \<leftarrow> r_u64; max_future_skew_ticks' \<leftarrow> r_u64;
     heartbeat_refreshes_freshness' \<leftarrow> r_boolean;
     State_Monad.return
       \<lparr>fp_default_max_age_ticks = default_max_age_ticks',
       fp_max_future_skew_ticks = max_future_skew_ticks',
       fp_heartbeat_refreshes_freshness = heartbeat_refreshes_freshness'\<rparr> }"

definition w_intervention_rule :: "InterventionRule \<Rightarrow> (ByteWriter, unit) state" where
  "w_intervention_rule r = do {
     w_u8 (sev_u8 (ir_at_least r)); w_u8 (ik_u8 (ir_kind r)); w_u64 (ir_target_class r);
     w_u64 (ir_target_domain r); w_boolean (ir_require_fresh_evidence r);
     w_boolean (ir_require_authoritative_state r); w_u64 (ir_parameter_min r);
     w_u64 (ir_parameter_max r); w_u64 (ir_parameter_default r); w_u32 (ir_priority r);
     w_u64 (ir_min_repeat_interval_ticks r) }"

definition r_intervention_rule :: "(ByteReader, InterventionRule) state" where
  "r_intervention_rule = do {
     at_least' \<leftarrow> r_u8; kind' \<leftarrow> r_u8; target_class' \<leftarrow> r_u64;
     target_domain' \<leftarrow> r_u64; require_fresh_evidence' \<leftarrow> r_boolean;
     require_authoritative_state' \<leftarrow> r_boolean; parameter_min' \<leftarrow> r_u64;
     parameter_max' \<leftarrow> r_u64; parameter_default' \<leftarrow> r_u64;
     priority' \<leftarrow> r_u32; min_repeat_interval_ticks' \<leftarrow> r_u64;
     State_Monad.return
       \<lparr>ir_at_least = Severity at_least', ir_kind = InterventionKind kind',
       ir_target_class = target_class', ir_target_domain = target_domain',
       ir_require_fresh_evidence = require_fresh_evidence',
       ir_require_authoritative_state = require_authoritative_state',
       ir_parameter_min = parameter_min', ir_parameter_max = parameter_max',
       ir_parameter_default = parameter_default', ir_priority = priority',
       ir_min_repeat_interval_ticks = min_repeat_interval_ticks'\<rparr> }"

definition w_policy_limits :: "PolicyLimits \<Rightarrow> (ByteWriter, unit) state" where
  "w_policy_limits l = do {
     w_u64 (pl_max_resources_per_domain l); w_u64 (pl_max_metrics_per_sample l);
     w_u64 (pl_max_paths_considered l); w_u32 (pl_max_domain_depth l);
     w_u64 (pl_max_explanation_entries l); w_u64 (pl_max_interventions_per_plan l);
     w_u64 (pl_max_conflict_reports l); w_u64 (pl_max_stale_reports l) }"

definition r_policy_limits :: "(ByteReader, PolicyLimits) state" where
  "r_policy_limits = do {
     max_resources_per_domain' \<leftarrow> r_u64; max_metrics_per_sample' \<leftarrow> r_u64;
     max_paths_considered' \<leftarrow> r_u64; max_domain_depth' \<leftarrow> r_u32;
     max_explanation_entries' \<leftarrow> r_u64; max_interventions_per_plan' \<leftarrow> r_u64;
     max_conflict_reports' \<leftarrow> r_u64; max_stale_reports' \<leftarrow> r_u64;
     State_Monad.return
       \<lparr>pl_max_resources_per_domain = max_resources_per_domain',
       pl_max_metrics_per_sample = max_metrics_per_sample',
       pl_max_paths_considered = max_paths_considered', pl_max_domain_depth = max_domain_depth',
       pl_max_explanation_entries = max_explanation_entries',
       pl_max_interventions_per_plan = max_interventions_per_plan',
       pl_max_conflict_reports = max_conflict_reports', pl_max_stale_reports = max_stale_reports'\<rparr> }"

text \<open>The fields behind the name.\<close>

definition w_policy_body :: "CongestionPolicy \<Rightarrow> (ByteWriter, unit) state" where
  "w_policy_body p = do {
     w_u64 (po_fingerprint p); w_u64 (of_nat (length (po_rules p))); w_each w_rule (po_rules p);
     w_hysteresis (po_hysteresis p); w_recovery (po_recovery p); w_propagation (po_propagation p);
     w_freshness (po_freshness p);
     w_u8 (cm_u8 (cp_mode (po_contradiction p))); w_u64 (cp_absolute_tolerance (po_contradiction p));
     w_u32 (cp_relative_tolerance_ppm (po_contradiction p));
     w_u64 (cp_min_distinct_publishers (po_contradiction p));
     w_u64 (of_nat (length (cp_priority_order (po_contradiction p))));
     w_each w_u64 (cp_priority_order (po_contradiction p));
     w_u64 (of_nat (length (po_interventions p))); w_each w_intervention_rule (po_interventions p);
     w_policy_limits (po_limits p); w_u32 (po_min_agreeing_rules_for_watch p);
     w_u32 (po_min_agreeing_rules_for_congested p); w_u32 (po_min_agreeing_rules_for_severe p) }"

definition encode_policy :: "CongestionPolicy \<Rightarrow> bytes result" where
  "encode_policy p = take_writer (do {
     w_u64 (po_id p); w_u32 (po_version p); w_text (po_name p) kMaxPolicyNameBytes; w_policy_body p })"

text \<open>A count beyond its bound returns at once; the reader's status is looked at after all fields.\<close>

definition r_policy :: "(ByteReader, CongestionPolicy result) state" where
  "r_policy = do {
     id' \<leftarrow> r_u64; version' \<leftarrow> r_u32; name' \<leftarrow> r_text kMaxPolicyNameBytes; fingerprint' \<leftarrow> r_u64;
     rule_count \<leftarrow> r_u64;
     if unat rule_count > kMaxThresholdRules then State_Monad.return (Inl Err_Oversized) else do {
     rules' \<leftarrow> r_times (unat rule_count) r_rule;
     hysteresis' \<leftarrow> r_hysteresis; recovery' \<leftarrow> r_recovery; propagation' \<leftarrow> r_propagation;
     freshness' \<leftarrow> r_freshness;
     mode' \<leftarrow> r_u8; absolute' \<leftarrow> r_u64; relative' \<leftarrow> r_u32; distinct' \<leftarrow> r_u64; priority_count \<leftarrow> r_u64;
     if unat priority_count > kMaxPublishers then State_Monad.return (Inl Err_Oversized) else do {
     priority' \<leftarrow> r_times (unat priority_count) r_u64;
     intervention_count \<leftarrow> r_u64;
     if unat intervention_count > kMaxInterventionRules then State_Monad.return (Inl Err_Oversized) else do {
     interventions' \<leftarrow> r_times (unat intervention_count) r_intervention_rule;
     limits' \<leftarrow> r_policy_limits; watch' \<leftarrow> r_u32; congested' \<leftarrow> r_u32; severe' \<leftarrow> r_u32;
     State_Monad.return (Inr
       \<lparr>po_id = id', po_version = version', po_name = name', po_rules = rules', po_hysteresis = hysteresis',
        po_recovery = recovery', po_propagation = propagation', po_freshness = freshness',
        po_contradiction =
          \<lparr>cp_mode = ContradictionMode mode', cp_absolute_tolerance = absolute',
           cp_relative_tolerance_ppm = relative', cp_min_distinct_publishers = distinct',
           cp_priority_order = priority'\<rparr>,
        po_interventions = interventions', po_limits = limits', po_min_agreeing_rules_for_watch = watch',
        po_min_agreeing_rules_for_congested = congested', po_min_agreeing_rules_for_severe = severe',
        po_fingerprint = fingerprint'\<rparr>) }}}
   }"

definition finish_result :: "(ByteReader, 'a result) state \<Rightarrow> ('a \<Rightarrow> 'a result) \<Rightarrow> bytes \<Rightarrow> 'a result" where
  "finish_result m check payload =
     (let (res, r) = run_state m (new_reader payload)
      in case res of
          Inl e \<Rightarrow> Inl e
        | Inr a \<Rightarrow> (case rd_status r of Some e \<Rightarrow> Inl e | None \<Rightarrow> check a))"

text \<open>\<^verbatim>\<open>validate_policy\<close> takes the policy by reference and sets its fingerprint.\<close>

definition decode_policy :: "bytes \<Rightarrow> CongestionPolicy result" where
  "decode_policy = finish_result r_policy validate_policy"

section \<open>Topology and capacity payloads\<close>

definition w_resource :: "ResourceRecord \<Rightarrow> (ByteWriter, unit) state" where
  "w_resource r = do {
     w_u64 (rr_id r); w_u64 (rr_domain r); w_u64 (rr_parent r); w_u64 (rr_serving_class r);
     w_u8 (rk_u8 (rr_kind r)); w_u32 (rr_depth r); w_u64 (rr_nominal_capacity_bps r);
     w_u32 (rr_flags r) }"

definition r_resource :: "(ByteReader, ResourceRecord) state" where
  "r_resource = do {
     id' \<leftarrow> r_u64; domain' \<leftarrow> r_u64; parent' \<leftarrow> r_u64;
     serving_class' \<leftarrow> r_u64; kind' \<leftarrow> r_u8; depth' \<leftarrow> r_u32;
     nominal_capacity_bps' \<leftarrow> r_u64; flags' \<leftarrow> r_u32;
     State_Monad.return
       \<lparr>rr_id = id', rr_domain = domain', rr_parent = parent', rr_serving_class = serving_class',
       rr_kind = ResourceKind kind', rr_depth = depth',
       rr_nominal_capacity_bps = nominal_capacity_bps', rr_flags = flags'\<rparr> }"

definition w_link :: "LinkRecord \<Rightarrow> (ByteWriter, unit) state" where
  "w_link l = do {
     w_u64 (lk_id l); w_u64 (lk_from l); w_u64 (lk_to l); w_u64 (lk_capacity_bps l);
     w_u64 (lk_latency_micros l); w_u32 (lk_weight l) }"

definition r_link :: "(ByteReader, LinkRecord) state" where
  "r_link = do {
     id' \<leftarrow> r_u64; from' \<leftarrow> r_u64; to' \<leftarrow> r_u64;
     capacity_bps' \<leftarrow> r_u64; latency_micros' \<leftarrow> r_u64;
     weight' \<leftarrow> r_u32;
     State_Monad.return
       \<lparr>lk_id = id', lk_from = from', lk_to = to', lk_capacity_bps = capacity_bps',
       lk_latency_micros = latency_micros', lk_weight = weight'\<rparr> }"

definition w_capacity_entry :: "CapacityEntry \<Rightarrow> (ByteWriter, unit) state" where
  "w_capacity_entry e = do {
     w_u64 (ce_resource e); w_u64 (ce_capacity_bps e); w_u64 (ce_residual_bps e);
     w_u64 (ce_admissible_bps e) }"

definition r_capacity_entry :: "(ByteReader, CapacityEntry) state" where
  "r_capacity_entry = do {
     resource' \<leftarrow> r_u64; capacity_bps' \<leftarrow> r_u64;
     residual_bps' \<leftarrow> r_u64; admissible_bps' \<leftarrow> r_u64;
     State_Monad.return
       \<lparr>ce_resource = resource', ce_capacity_bps = capacity_bps', ce_residual_bps = residual_bps',
       ce_admissible_bps = admissible_bps'\<rparr> }"

definition w_path :: "PathRecord \<Rightarrow> (ByteWriter, unit) state" where
  "w_path p = do {
     w_u64 (pa_id p); w_u64 (pa_capacity_bps p); w_u32 (pa_flags p); w_u64 (of_nat (length (pa_hops p)));
     w_each w_u64 (pa_hops p) }"

definition r_path :: "(ByteReader, PathRecord result) state" where
  "r_path = do {
     id' \<leftarrow> r_u64; capacity' \<leftarrow> r_u64; flags' \<leftarrow> r_u32; hop_count \<leftarrow> r_u64;
     if unat hop_count > kMaxResourcesPerPath then State_Monad.return (Inl Err_Oversized)
     else do {
       hops' \<leftarrow> r_times (unat hop_count) r_u64;
       State_Monad.return (Inr \<lparr>pa_id = id', pa_hops = hops', pa_capacity_bps = capacity', pa_flags = flags'\<rparr>) }
   }"

primrec r_paths :: "nat \<Rightarrow> PathRecord list \<Rightarrow> (ByteReader, PathRecord list result) state" where
  "r_paths 0 acc = State_Monad.return (Inr acc)"
| "r_paths (Suc n) acc = do {
     good \<leftarrow> r_ok;
     if \<not> good then State_Monad.return (Inr acc)
     else do {
       path \<leftarrow> r_path;
       case path of
         Inl e \<Rightarrow> State_Monad.return (Inl e)
       | Inr p \<Rightarrow> r_paths n (acc @ [p])
     }
   }"

definition encode_topology :: "TopologySnapshot \<Rightarrow> bytes result" where
  "encode_topology t = take_writer (do {
     w_u64 (ts_id t); w_u64 (ts_generation t); w_u64 (ts_epoch t); w_u64 (ts_observed_tick t);
     w_u64 (ts_fingerprint t);
     w_u64 (of_nat (length (ts_resources t))); w_each w_resource (ts_resources t);
     w_u64 (of_nat (length (ts_links t))); w_each w_link (ts_links t);
     w_u64 (of_nat (length (ts_paths t))); w_each w_path (ts_paths t) })"

definition r_topology :: "(ByteReader, TopologySnapshot result) state" where
  "r_topology = do {
     id' \<leftarrow> r_u64; generation' \<leftarrow> r_u64; epoch' \<leftarrow> r_u64; observed' \<leftarrow> r_u64; fingerprint' \<leftarrow> r_u64;
     resource_count \<leftarrow> r_u64;
     if unat resource_count > kMaxResourcesPerFabric then State_Monad.return (Inl Err_Oversized) else do {
     resources' \<leftarrow> r_times (unat resource_count) r_resource;
     link_count \<leftarrow> r_u64;
     if unat link_count > kMaxLinksPerTopology then State_Monad.return (Inl Err_Oversized) else do {
     links' \<leftarrow> r_times (unat link_count) r_link;
     path_count \<leftarrow> r_u64;
     if unat path_count > kMaxPathsPerTopology then State_Monad.return (Inl Err_Oversized) else do {
     paths' \<leftarrow> r_paths (unat path_count) [];
     State_Monad.return (case paths' of
       Inl e \<Rightarrow> Inl e
     | Inr ps \<Rightarrow> Inr \<lparr>ts_id = id', ts_generation = generation', ts_epoch = epoch', ts_observed_tick = observed',
         ts_resources = resources', ts_links = links', ts_paths = ps, ts_fingerprint = fingerprint'\<rparr>) }}}
   }"

definition decode_topology :: "bytes \<Rightarrow> TopologySnapshot result" where
  "decode_topology = finish_result r_topology (\<lambda>t. andThen (validate_topology t) (Inr t))"

definition encode_capacity :: "CapacitySnapshot \<Rightarrow> bytes result" where
  "encode_capacity c = take_writer (do {
     w_u64 (cs_id c); w_u64 (cs_generation c); w_u64 (cs_epoch c); w_u64 (cs_observed_tick c);
     w_u64 (cs_fingerprint c); w_u64 (of_nat (length (cs_entries c))); w_each w_capacity_entry (cs_entries c) })"

definition r_capacity :: "(ByteReader, CapacitySnapshot result) state" where
  "r_capacity = do {
     id' \<leftarrow> r_u64; generation' \<leftarrow> r_u64; epoch' \<leftarrow> r_u64; observed' \<leftarrow> r_u64; fingerprint' \<leftarrow> r_u64;
     count \<leftarrow> r_u64;
     if unat count > kMaxResourcesPerFabric then State_Monad.return (Inl Err_Oversized)
     else do {
       entries' \<leftarrow> r_times (unat count) r_capacity_entry;
       State_Monad.return (Inr \<lparr>cs_id = id', cs_generation = generation', cs_epoch = epoch',
         cs_observed_tick = observed', cs_entries = entries', cs_fingerprint = fingerprint'\<rparr>) }
   }"

definition decode_capacity :: "bytes \<Rightarrow> CapacitySnapshot result" where
  "decode_capacity = finish_result r_capacity (\<lambda>c. andThen (validate_capacity c) (Inr c))"

section \<open>State, lineage and history payloads\<close>

definition w_domain_state :: "DomainState \<Rightarrow> (ByteWriter, unit) state" where
  "w_domain_state d = do {
     w_u64 (ds_domain d); w_u8 (st_u8 (ds_state d)); w_u8 (st_u8 (ds_candidate d));
     w_u32 (ds_candidate_streak d); w_u64 (ds_last_change_tick d);
     w_u64 (ds_last_authoritative_tick d); w_u64 (ds_last_evaluated_tick d);
     w_u64 (ds_last_evaluation d); w_u64 (ds_last_evidence d); w_u64 (ds_epoch d);
     w_u64 (ds_topology_generation d); w_u64 (ds_capacity_generation d); w_u64 (ds_policy d);
     w_u64 (ds_policy_fingerprint d); w_u64 (ds_authority_generation d);
     w_u8 (sev_u8 (ds_last_committed_severity d)); w_u64 (ds_transition_count d);
     w_u64 (ds_evaluation_count d); w_boolean (ds_requires_revalidation d) }"

definition r_domain_state :: "(ByteReader, DomainState) state" where
  "r_domain_state = do {
     domain' \<leftarrow> r_u64; state' \<leftarrow> r_u8; candidate' \<leftarrow> r_u8;
     candidate_streak' \<leftarrow> r_u32; last_change_tick' \<leftarrow> r_u64;
     last_authoritative_tick' \<leftarrow> r_u64; last_evaluated_tick' \<leftarrow> r_u64;
     last_evaluation' \<leftarrow> r_u64; last_evidence' \<leftarrow> r_u64;
     epoch' \<leftarrow> r_u64; topology_generation' \<leftarrow> r_u64;
     capacity_generation' \<leftarrow> r_u64; policy' \<leftarrow> r_u64;
     policy_fingerprint' \<leftarrow> r_u64; authority_generation' \<leftarrow> r_u64;
     last_committed_severity' \<leftarrow> r_u8; transition_count' \<leftarrow> r_u64;
     evaluation_count' \<leftarrow> r_u64; requires_revalidation' \<leftarrow> r_boolean;
     State_Monad.return
       \<lparr>ds_domain = domain', ds_state = CongestionState state',
       ds_candidate = CongestionState candidate', ds_candidate_streak = candidate_streak',
       ds_last_change_tick = last_change_tick',
       ds_last_authoritative_tick = last_authoritative_tick',
       ds_last_evaluated_tick = last_evaluated_tick', ds_last_evaluation = last_evaluation',
       ds_last_evidence = last_evidence', ds_epoch = epoch',
       ds_topology_generation = topology_generation',
       ds_capacity_generation = capacity_generation', ds_policy = policy',
       ds_policy_fingerprint = policy_fingerprint',
       ds_authority_generation = authority_generation',
       ds_last_committed_severity = Severity last_committed_severity',
       ds_transition_count = transition_count', ds_evaluation_count = evaluation_count',
       ds_requires_revalidation = requires_revalidation'\<rparr> }"

definition encode_domain_state :: "DomainState \<Rightarrow> bytes result" where
  "encode_domain_state d = take_writer (w_domain_state d)"

definition check_domain_state :: "DomainState \<Rightarrow> DomainState result" where
  "check_domain_state d =
     (if \<not> id_valid (ds_domain d) then Inl Err_Malformed else Inr d)"

definition decode_domain_state :: "bytes \<Rightarrow> DomainState result" where
  "decode_domain_state = finish_reader r_domain_state check_domain_state"

definition w_intervention :: "InterventionRecord \<Rightarrow> (ByteWriter, unit) state" where
  "w_intervention r = do {
     w_u64 (ic_id r); w_u8 (ik_u8 (ic_kind r)); w_u64 (ic_domain r); w_u64 (ic_resource r);
     w_u8 (sev_u8 (ic_basis_severity r)); w_u64 (ic_evidence r); w_u64 (ic_evaluation r);
     w_u64 (ic_epoch r); w_u64 (ic_authority_generation r); w_u64 (ic_policy r);
     w_u64 (ic_provenance r); w_u64 (ic_recorded_tick r); w_u64 (ic_parameter r) }"

definition r_intervention :: "(ByteReader, InterventionRecord) state" where
  "r_intervention = do {
     id' \<leftarrow> r_u64; kind' \<leftarrow> r_u8; domain' \<leftarrow> r_u64;
     resource' \<leftarrow> r_u64; basis_severity' \<leftarrow> r_u8; evidence' \<leftarrow> r_u64;
     evaluation' \<leftarrow> r_u64; epoch' \<leftarrow> r_u64;
     authority_generation' \<leftarrow> r_u64; policy' \<leftarrow> r_u64;
     provenance' \<leftarrow> r_u64; recorded_tick' \<leftarrow> r_u64;
     parameter' \<leftarrow> r_u64;
     State_Monad.return
       \<lparr>ic_id = id', ic_kind = InterventionKind kind', ic_domain = domain', ic_resource = resource',
       ic_basis_severity = Severity basis_severity', ic_evidence = evidence',
       ic_evaluation = evaluation', ic_epoch = epoch',
       ic_authority_generation = authority_generation', ic_policy = policy',
       ic_provenance = provenance', ic_recorded_tick = recorded_tick', ic_parameter = parameter'\<rparr> }"

definition encode_intervention :: "InterventionRecord \<Rightarrow> bytes result" where
  "encode_intervention r = take_writer (w_intervention r)"

definition check_intervention :: "InterventionRecord \<Rightarrow> InterventionRecord result" where
  "check_intervention r =
     (if \<not> id_valid (ic_id r) \<or> \<not> id_valid (ic_domain r) then Inl Err_Malformed else Inr r)"

definition decode_intervention :: "bytes \<Rightarrow> InterventionRecord result" where
  "decode_intervention = finish_reader r_intervention check_intervention"

definition w_fence :: "FenceRecord \<Rightarrow> (ByteWriter, unit) state" where
  "w_fence r = do {
     w_u64 (fe_id r); w_u64 (fe_epoch r); w_u64 (fe_publisher r); w_u64 (fe_boot r);
     w_u64 (fe_last_generation r); w_u8 (fr_u8 (fe_reason r)); w_u64 (fe_issued_tick r);
     w_u64 (fe_provenance r); w_text (fe_detail r) kMaxDurableNote }"

definition r_fence :: "(ByteReader, FenceRecord) state" where
  "r_fence = do {
     id' \<leftarrow> r_u64; epoch' \<leftarrow> r_u64; publisher' \<leftarrow> r_u64;
     boot' \<leftarrow> r_u64; last_generation' \<leftarrow> r_u64; reason' \<leftarrow> r_u8;
     issued_tick' \<leftarrow> r_u64; provenance' \<leftarrow> r_u64;
     detail' \<leftarrow> r_text kMaxDurableNote;
     State_Monad.return
       \<lparr>fe_id = id', fe_epoch = epoch', fe_publisher = publisher', fe_boot = boot',
       fe_last_generation = last_generation', fe_reason = FenceReason reason',
       fe_issued_tick = issued_tick', fe_provenance = provenance', fe_detail = detail'\<rparr> }"

definition encode_fence :: "FenceRecord \<Rightarrow> bytes result" where
  "encode_fence r = take_writer (w_fence r)"

definition check_fence :: "FenceRecord \<Rightarrow> FenceRecord result" where
  "check_fence r =
     (if \<not> id_valid (fe_id r) \<or> \<not> id_valid (fe_publisher r) \<or> \<not> id_valid (fe_boot r) then Inl Err_Malformed
      else Inr r)"

definition decode_fence :: "bytes \<Rightarrow> FenceRecord result" where
  "decode_fence = finish_reader r_fence check_fence"

definition w_history :: "HistoryEntry \<Rightarrow> (ByteWriter, unit) state" where
  "w_history h = do {
     w_u64 (he_domain h); w_u8 (st_u8 (he_from h)); w_u8 (st_u8 (he_to h)); w_u64 (he_tick h);
     w_u64 (he_evaluation h); w_u64 (he_epoch h); w_text (he_reason h) kMaxDurableNote }"

definition r_history :: "(ByteReader, HistoryEntry) state" where
  "r_history = do {
     domain' \<leftarrow> r_u64; from' \<leftarrow> r_u8; to' \<leftarrow> r_u8;
     tick' \<leftarrow> r_u64; evaluation' \<leftarrow> r_u64; epoch' \<leftarrow> r_u64;
     reason' \<leftarrow> r_text kMaxDurableNote;
     State_Monad.return
       \<lparr>he_domain = domain', he_from = CongestionState from', he_to = CongestionState to',
       he_tick = tick', he_evaluation = evaluation', he_epoch = epoch', he_reason = reason'\<rparr> }"

definition encode_history :: "HistoryEntry \<Rightarrow> bytes result" where
  "encode_history h = take_writer (w_history h)"

definition decode_history :: "bytes \<Rightarrow> HistoryEntry result" where
  "decode_history = finish_reader r_history Inr"

definition w_attempt :: "AttemptRecord \<Rightarrow> (ByteWriter, unit) state" where
  "w_attempt r = do {
     w_u64 (at_attempt r); w_u64 (at_transaction r); w_u16 (mu_u16 (at_kind r));
     w_u8 (as_u8 (at_state r)); w_u64 (at_epoch r); w_u64 (at_generation r);
     w_u64 (at_recorded_tick r); w_u64 (at_provenance r); w_text (at_detail r) kMaxDurableNote }"

definition r_attempt :: "(ByteReader, AttemptRecord) state" where
  "r_attempt = do {
     attempt' \<leftarrow> r_u64; transaction' \<leftarrow> r_u64; kind' \<leftarrow> r_u16;
     state' \<leftarrow> r_u8; epoch' \<leftarrow> r_u64; generation' \<leftarrow> r_u64;
     recorded_tick' \<leftarrow> r_u64; provenance' \<leftarrow> r_u64;
     detail' \<leftarrow> r_text kMaxDurableNote;
     State_Monad.return
       \<lparr>at_attempt = attempt', at_transaction = transaction', at_kind = MutationKind kind',
       at_state = AttemptState state', at_epoch = epoch', at_generation = generation',
       at_recorded_tick = recorded_tick', at_provenance = provenance', at_detail = detail'\<rparr> }"

definition encode_attempt :: "AttemptRecord \<Rightarrow> bytes result" where
  "encode_attempt r = take_writer (w_attempt r)"

definition decode_attempt :: "bytes \<Rightarrow> AttemptRecord result" where
  "decode_attempt = finish_reader r_attempt Inr"

definition w_provenance :: "Provenance \<Rightarrow> (ByteWriter, unit) state" where
  "w_provenance p = do {
     w_u64 (pv_id p); w_u8 (pk_u8 (pv_kind p)); w_u64 (pv_publisher p); w_u64 (pv_boot p);
     w_u64 (pv_epoch p); w_u64 (pv_attempt p); w_u64 (pv_recorded_tick p); w_i64 (pv_wall p);
     w_text (pv_note p) kMaxDurableNote }"

definition r_provenance :: "(ByteReader, Provenance) state" where
  "r_provenance = do {
     id' \<leftarrow> r_u64; kind' \<leftarrow> r_u8; publisher' \<leftarrow> r_u64;
     boot' \<leftarrow> r_u64; epoch' \<leftarrow> r_u64; attempt' \<leftarrow> r_u64;
     recorded_tick' \<leftarrow> r_u64; wall' \<leftarrow> r_i64;
     note' \<leftarrow> r_text kMaxDurableNote;
     State_Monad.return
       \<lparr>pv_id = id', pv_kind = ProvenanceKind kind', pv_publisher = publisher', pv_boot = boot',
       pv_epoch = epoch', pv_attempt = attempt', pv_recorded_tick = recorded_tick',
       pv_wall = wall', pv_note = note'\<rparr> }"

definition encode_provenance :: "Provenance \<Rightarrow> bytes result" where
  "encode_provenance p = take_writer (w_provenance p)"

definition decode_provenance :: "bytes \<Rightarrow> Provenance result" where
  "decode_provenance = finish_reader r_provenance Inr"

definition w_revalidation :: "RevalidationRecord \<Rightarrow> (ByteWriter, unit) state" where
  "w_revalidation r = do {
     w_u64 (rv_domain r); w_u64 (rv_previous_epoch r); w_u64 (rv_epoch r);
     w_u8 (st_u8 (rv_restored_state r)); w_u8 (st_u8 (rv_effective_state r));
     w_boolean (rv_state_restored r); w_boolean (rv_authority_restored r);
     w_boolean (rv_freshness_restored r); w_u64 (rv_recorded_tick r); w_u64 (rv_provenance r);
     w_text (rv_detail r) kMaxDurableNote }"

definition r_revalidation :: "(ByteReader, RevalidationRecord) state" where
  "r_revalidation = do {
     domain' \<leftarrow> r_u64; previous_epoch' \<leftarrow> r_u64; epoch' \<leftarrow> r_u64;
     restored_state' \<leftarrow> r_u8; effective_state' \<leftarrow> r_u8;
     state_restored' \<leftarrow> r_boolean; authority_restored' \<leftarrow> r_boolean;
     freshness_restored' \<leftarrow> r_boolean; recorded_tick' \<leftarrow> r_u64;
     provenance' \<leftarrow> r_u64; detail' \<leftarrow> r_text kMaxDurableNote;
     State_Monad.return
       \<lparr>rv_domain = domain', rv_previous_epoch = previous_epoch', rv_epoch = epoch',
       rv_restored_state = CongestionState restored_state',
       rv_effective_state = CongestionState effective_state', rv_state_restored = state_restored',
       rv_authority_restored = authority_restored', rv_freshness_restored = freshness_restored',
       rv_recorded_tick = recorded_tick', rv_provenance = provenance', rv_detail = detail'\<rparr> }"

definition encode_revalidation :: "RevalidationRecord \<Rightarrow> bytes result" where
  "encode_revalidation r = take_writer (w_revalidation r)"

definition decode_revalidation :: "bytes \<Rightarrow> RevalidationRecord result" where
  "decode_revalidation = finish_reader r_revalidation Inr"

definition w_epoch :: "EpochId \<times> BootId \<times> u64 \<Rightarrow> (ByteWriter, unit) state" where
  "w_epoch e = (case e of (epoch, boot, counter) \<Rightarrow> do { w_u64 epoch; w_u64 boot; w_u64 counter })"

definition r_epoch :: "(ByteReader, EpochId \<times> BootId \<times> u64) state" where
  "r_epoch = do { epoch \<leftarrow> r_u64; boot \<leftarrow> r_u64; counter \<leftarrow> r_u64; State_Monad.return (epoch, boot, counter) }"

definition encode_epoch :: "EpochId \<Rightarrow> BootId \<Rightarrow> u64 \<Rightarrow> bytes result" where
  "encode_epoch epoch boot boot_counter = take_writer (w_epoch (epoch, boot, boot_counter))"

definition check_epoch :: "EpochId \<times> BootId \<times> u64 \<Rightarrow> (EpochId \<times> BootId \<times> u64) result" where
  "check_epoch e =
     (case e of (epoch, boot, _) \<Rightarrow> if \<not> id_valid epoch \<or> \<not> id_valid boot then Inl Err_Malformed else Inr e)"

definition decode_epoch :: "bytes \<Rightarrow> (EpochId \<times> BootId \<times> u64) result" where
  "decode_epoch = finish_reader r_epoch check_epoch"

section \<open>Layouts\<close>

definition rule_layout :: "ThresholdRule \<Rightarrow> bytes" where
  "rule_layout r =
     put_le 2 (mk_u16 (tr_metric r)) @ [op_u8 (tr_op r)] @ put_le 8 (tr_watch r) @
     put_le 8 (tr_congested r) @ put_le 8 (tr_severe r) @ [bool_byte (tr_required r)] @
     put_le 8 (tr_max_age_ticks r) @ put_le 4 (tr_weight r)"

definition hysteresis_layout :: "HysteresisPolicy \<Rightarrow> bytes" where
  "hysteresis_layout h =
     put_le 4 (hp_escalate_samples h) @ put_le 4 (hp_deescalate_samples h) @
     put_le 8 (hp_min_dwell_ticks h) @ put_le 4 (hp_downgrade_margin_ppm h) @
     [bool_byte (hp_require_all_rules_agree_on_downgrade h)] @
     [bool_byte (hp_apply_dwell_on_escalation h)]"

definition recovery_layout :: "RecoveryPolicy \<Rightarrow> bytes" where
  "recovery_layout r =
     [bool_byte (rp_enabled r)] @ put_le 4 (rp_min_improved_samples r) @
     [bool_byte (rp_allow_single_sample r)] @ put_le 4 (rp_clear_samples r) @
     put_le 8 (rp_recovering_hold_ticks r)"

definition propagation_layout :: "PropagationPolicy \<Rightarrow> bytes" where
  "propagation_layout p =
     [bool_byte (pp_enabled p)] @ put_le 4 (pp_max_depth p) @ put_le 4 (pp_decay_ppm p) @
     [sev_u8 (pp_max_induced_severity p)] @ [bool_byte (pp_follow_links p)] @
     [bool_byte (pp_follow_paths p)] @ put_le 4 (pp_min_pressure_ppm p)"

definition freshness_layout :: "FreshnessPolicy \<Rightarrow> bytes" where
  "freshness_layout f =
     put_le 8 (fp_default_max_age_ticks f) @ put_le 8 (fp_max_future_skew_ticks f) @
     [bool_byte (fp_heartbeat_refreshes_freshness f)]"

definition intervention_rule_layout :: "InterventionRule \<Rightarrow> bytes" where
  "intervention_rule_layout r =
     [sev_u8 (ir_at_least r)] @ [ik_u8 (ir_kind r)] @ put_le 8 (ir_target_class r) @
     put_le 8 (ir_target_domain r) @ [bool_byte (ir_require_fresh_evidence r)] @
     [bool_byte (ir_require_authoritative_state r)] @ put_le 8 (ir_parameter_min r) @
     put_le 8 (ir_parameter_max r) @ put_le 8 (ir_parameter_default r) @ put_le 4 (ir_priority r) @
     put_le 8 (ir_min_repeat_interval_ticks r)"

definition policy_limits_layout :: "PolicyLimits \<Rightarrow> bytes" where
  "policy_limits_layout l =
     put_le 8 (pl_max_resources_per_domain l) @ put_le 8 (pl_max_metrics_per_sample l) @
     put_le 8 (pl_max_paths_considered l) @ put_le 4 (pl_max_domain_depth l) @
     put_le 8 (pl_max_explanation_entries l) @ put_le 8 (pl_max_interventions_per_plan l) @
     put_le 8 (pl_max_conflict_reports l) @ put_le 8 (pl_max_stale_reports l)"

definition resource_layout :: "ResourceRecord \<Rightarrow> bytes" where
  "resource_layout r =
     put_le 8 (rr_id r) @ put_le 8 (rr_domain r) @ put_le 8 (rr_parent r) @
     put_le 8 (rr_serving_class r) @ [rk_u8 (rr_kind r)] @ put_le 4 (rr_depth r) @
     put_le 8 (rr_nominal_capacity_bps r) @ put_le 4 (rr_flags r)"

definition link_layout :: "LinkRecord \<Rightarrow> bytes" where
  "link_layout l =
     put_le 8 (lk_id l) @ put_le 8 (lk_from l) @ put_le 8 (lk_to l) @
     put_le 8 (lk_capacity_bps l) @ put_le 8 (lk_latency_micros l) @ put_le 4 (lk_weight l)"

definition capacity_entry_layout :: "CapacityEntry \<Rightarrow> bytes" where
  "capacity_entry_layout e =
     put_le 8 (ce_resource e) @ put_le 8 (ce_capacity_bps e) @ put_le 8 (ce_residual_bps e) @
     put_le 8 (ce_admissible_bps e)"

definition domain_state_layout :: "DomainState \<Rightarrow> bytes" where
  "domain_state_layout d =
     put_le 8 (ds_domain d) @ [st_u8 (ds_state d)] @ [st_u8 (ds_candidate d)] @
     put_le 4 (ds_candidate_streak d) @ put_le 8 (ds_last_change_tick d) @
     put_le 8 (ds_last_authoritative_tick d) @ put_le 8 (ds_last_evaluated_tick d) @
     put_le 8 (ds_last_evaluation d) @ put_le 8 (ds_last_evidence d) @ put_le 8 (ds_epoch d) @
     put_le 8 (ds_topology_generation d) @ put_le 8 (ds_capacity_generation d) @
     put_le 8 (ds_policy d) @ put_le 8 (ds_policy_fingerprint d) @
     put_le 8 (ds_authority_generation d) @ [sev_u8 (ds_last_committed_severity d)] @
     put_le 8 (ds_transition_count d) @ put_le 8 (ds_evaluation_count d) @
     [bool_byte (ds_requires_revalidation d)]"

definition intervention_layout :: "InterventionRecord \<Rightarrow> bytes" where
  "intervention_layout r =
     put_le 8 (ic_id r) @ [ik_u8 (ic_kind r)] @ put_le 8 (ic_domain r) @ put_le 8 (ic_resource r) @
     [sev_u8 (ic_basis_severity r)] @ put_le 8 (ic_evidence r) @ put_le 8 (ic_evaluation r) @
     put_le 8 (ic_epoch r) @ put_le 8 (ic_authority_generation r) @ put_le 8 (ic_policy r) @
     put_le 8 (ic_provenance r) @ put_le 8 (ic_recorded_tick r) @ put_le 8 (ic_parameter r)"

definition fence_layout :: "FenceRecord \<Rightarrow> bytes" where
  "fence_layout r =
     put_le 8 (fe_id r) @ put_le 8 (fe_epoch r) @ put_le 8 (fe_publisher r) @
     put_le 8 (fe_boot r) @ put_le 8 (fe_last_generation r) @ [fr_u8 (fe_reason r)] @
     put_le 8 (fe_issued_tick r) @ put_le 8 (fe_provenance r) @ text_layout (fe_detail r)"

definition history_layout :: "HistoryEntry \<Rightarrow> bytes" where
  "history_layout h =
     put_le 8 (he_domain h) @ [st_u8 (he_from h)] @ [st_u8 (he_to h)] @ put_le 8 (he_tick h) @
     put_le 8 (he_evaluation h) @ put_le 8 (he_epoch h) @ text_layout (he_reason h)"

definition attempt_layout :: "AttemptRecord \<Rightarrow> bytes" where
  "attempt_layout r =
     put_le 8 (at_attempt r) @ put_le 8 (at_transaction r) @ put_le 2 (mu_u16 (at_kind r)) @
     [as_u8 (at_state r)] @ put_le 8 (at_epoch r) @ put_le 8 (at_generation r) @
     put_le 8 (at_recorded_tick r) @ put_le 8 (at_provenance r) @ text_layout (at_detail r)"

definition provenance_layout :: "Provenance \<Rightarrow> bytes" where
  "provenance_layout p =
     put_le 8 (pv_id p) @ [pk_u8 (pv_kind p)] @ put_le 8 (pv_publisher p) @ put_le 8 (pv_boot p) @
     put_le 8 (pv_epoch p) @ put_le 8 (pv_attempt p) @ put_le 8 (pv_recorded_tick p) @
     put_le 8 (pv_wall p) @ text_layout (pv_note p)"

definition revalidation_layout :: "RevalidationRecord \<Rightarrow> bytes" where
  "revalidation_layout r =
     put_le 8 (rv_domain r) @ put_le 8 (rv_previous_epoch r) @ put_le 8 (rv_epoch r) @
     [st_u8 (rv_restored_state r)] @ [st_u8 (rv_effective_state r)] @
     [bool_byte (rv_state_restored r)] @ [bool_byte (rv_authority_restored r)] @
     [bool_byte (rv_freshness_restored r)] @ put_le 8 (rv_recorded_tick r) @
     put_le 8 (rv_provenance r) @ text_layout (rv_detail r)"

definition epoch_layout :: "EpochId \<times> BootId \<times> u64 \<Rightarrow> bytes" where
  "epoch_layout e = (case e of (epoch, boot, counter) \<Rightarrow> put_le 8 epoch @ put_le 8 boot @ put_le 8 counter)"

interpretation rule: codec "\<lambda>_. True" rule_layout w_rule r_rule
  by unfold_locales (simp_all add: w_rule_def r_rule_def rule_layout_def codec_simps)

interpretation hysteresis: codec "\<lambda>_. True" hysteresis_layout w_hysteresis r_hysteresis
  by unfold_locales (simp_all add: w_hysteresis_def r_hysteresis_def hysteresis_layout_def codec_simps)

interpretation recovery: codec "\<lambda>_. True" recovery_layout w_recovery r_recovery
  by unfold_locales (simp_all add: w_recovery_def r_recovery_def recovery_layout_def codec_simps)

interpretation propagation: codec "\<lambda>_. True" propagation_layout w_propagation r_propagation
  by unfold_locales (simp_all add: w_propagation_def r_propagation_def propagation_layout_def codec_simps)

interpretation freshness: codec "\<lambda>_. True" freshness_layout w_freshness r_freshness
  by unfold_locales (simp_all add: w_freshness_def r_freshness_def freshness_layout_def codec_simps)

interpretation intervention_rule: codec "\<lambda>_. True" intervention_rule_layout w_intervention_rule r_intervention_rule
  by unfold_locales (simp_all add: w_intervention_rule_def r_intervention_rule_def intervention_rule_layout_def codec_simps)

interpretation policy_limits: codec "\<lambda>_. True" policy_limits_layout w_policy_limits r_policy_limits
  by unfold_locales (simp_all add: w_policy_limits_def r_policy_limits_def policy_limits_layout_def codec_simps)

interpretation resource: codec "\<lambda>_. True" resource_layout w_resource r_resource
  by unfold_locales (simp_all add: w_resource_def r_resource_def resource_layout_def codec_simps)

interpretation link: codec "\<lambda>_. True" link_layout w_link r_link
  by unfold_locales (simp_all add: w_link_def r_link_def link_layout_def codec_simps)

interpretation capacity_entry: codec "\<lambda>_. True" capacity_entry_layout w_capacity_entry r_capacity_entry
  by unfold_locales (simp_all add: w_capacity_entry_def r_capacity_entry_def capacity_entry_layout_def codec_simps)

interpretation domain_state: checked_codec "\<lambda>_. True" domain_state_layout w_domain_state r_domain_state check_domain_state
  by unfold_locales
    (simp_all add: w_domain_state_def r_domain_state_def domain_state_layout_def encode_simps)

interpretation intervention: checked_codec "\<lambda>_. True" intervention_layout w_intervention r_intervention check_intervention
  by unfold_locales
    (simp_all add: w_intervention_def r_intervention_def intervention_layout_def encode_simps)

interpretation fence: checked_codec "\<lambda>r. length (fe_detail r) \<le> kMaxDurableNote" fence_layout w_fence r_fence check_fence
  by unfold_locales
    (simp_all add: w_fence_def r_fence_def fence_layout_def encode_simps kMaxDurableNote_def)

interpretation history: checked_codec "\<lambda>h. length (he_reason h) \<le> kMaxDurableNote" history_layout w_history r_history Inr
  by unfold_locales
    (simp_all add: w_history_def r_history_def history_layout_def encode_simps kMaxDurableNote_def)

interpretation attempt: checked_codec "\<lambda>r. length (at_detail r) \<le> kMaxDurableNote" attempt_layout w_attempt r_attempt Inr
  by unfold_locales
    (simp_all add: w_attempt_def r_attempt_def attempt_layout_def encode_simps kMaxDurableNote_def)

interpretation provenance: checked_codec "\<lambda>p. length (pv_note p) \<le> kMaxDurableNote" provenance_layout w_provenance r_provenance Inr
  by unfold_locales
    (simp_all add: w_provenance_def r_provenance_def provenance_layout_def encode_simps kMaxDurableNote_def)

interpretation revalidation: checked_codec "\<lambda>r. length (rv_detail r) \<le> kMaxDurableNote" revalidation_layout w_revalidation r_revalidation Inr
  by unfold_locales
    (simp_all add: w_revalidation_def r_revalidation_def revalidation_layout_def encode_simps kMaxDurableNote_def)

interpretation epoch: checked_codec "\<lambda>_. True" epoch_layout w_epoch r_epoch check_epoch
  by unfold_locales (simp_all add: w_epoch_def r_epoch_def epoch_layout_def encode_simps split: prod.splits)

lemmas payload_list_simps [codec_simps] =
  hysteresis.enc_layout hysteresis.dec_layout
  recovery.enc_layout recovery.dec_layout
  propagation.enc_layout propagation.dec_layout
  freshness.enc_layout freshness.dec_layout
  policy_limits.enc_layout policy_limits.dec_layout
  rule.run_w_each rule.run_r_times intervention_rule.run_w_each intervention_rule.run_r_times
  u64.run_w_each u64.run_r_times resource.run_w_each resource.run_r_times link.run_w_each link.run_r_times
  capacity_entry.run_w_each capacity_entry.run_r_times

lemmas payload_list_simps_last [codec_simps] =
  policy_limits.dec_layout [where rest = "[]", simplified] u64.run_r_times [where rest = "[]", simplified]
  capacity_entry.run_r_times [where rest = "[]", simplified]

lemma list_all_True [simp]: "list_all (\<lambda>_. True) xs"
  by (simp add: list_all_iff)

lemma unat_count: "n \<le> 4194304 \<Longrightarrow> unat (of_nat n :: u64) = n"
  by (simp add: unat_of_nat)

lemmas count_bounds = kMaxThresholdRules_def kMaxPublishers_def kMaxInterventionRules_def kMaxResourcesPerPath_def
  kMaxResourcesPerFabric_def kMaxLinksPerTopology_def kMaxPathsPerTopology_def

subsection \<open>Policies\<close>

definition counted :: "('a \<Rightarrow> bytes) \<Rightarrow> 'a list \<Rightarrow> bytes" where
  "counted layout xs = put_le 8 (of_nat (length xs) :: u64) @ concat (map layout xs)"

definition policy_layout :: "CongestionPolicy \<Rightarrow> bytes" where
  "policy_layout p =
     put_le 8 (po_id p) @ put_le 4 (po_version p) @ text_layout (po_name p) @ put_le 8 (po_fingerprint p) @
     counted rule_layout (po_rules p) @ hysteresis_layout (po_hysteresis p) @ recovery_layout (po_recovery p) @
     propagation_layout (po_propagation p) @ freshness_layout (po_freshness p) @
     [cm_u8 (cp_mode (po_contradiction p))] @ put_le 8 (cp_absolute_tolerance (po_contradiction p)) @
     put_le 4 (cp_relative_tolerance_ppm (po_contradiction p)) @
     put_le 8 (cp_min_distinct_publishers (po_contradiction p)) @
     counted (put_le 8) (cp_priority_order (po_contradiction p)) @
     counted intervention_rule_layout (po_interventions p) @ policy_limits_layout (po_limits p) @
     put_le 4 (po_min_agreeing_rules_for_watch p) @ put_le 4 (po_min_agreeing_rules_for_congested p) @
     put_le 4 (po_min_agreeing_rules_for_severe p)"

lemma sticky_policy_body: "sticky (w_policy_body p)"
  unfolding w_policy_body_def w_rule_def w_hysteresis_def w_recovery_def w_propagation_def w_freshness_def
    w_intervention_rule_def w_policy_limits_def
  by (intro sticky_intros)

lemma encode_policy_ok: "length (po_name p) \<le> kMaxPolicyNameBytes \<Longrightarrow> encode_policy p = Inr (policy_layout p)"
  by (simp add: encode_policy_def w_policy_body_def policy_layout_def counted_def encode_simps codec_simps kMaxPolicyNameBytes_def)

lemma encode_policy_Inr:
  assumes "encode_policy p = Inr bs"
  shows "bs = policy_layout p \<and> length (po_name p) \<le> kMaxPolicyNameBytes"
proof (cases "length (po_name p) \<le> kMaxPolicyNameBytes")
  case True
  with assms show ?thesis by (simp add: encode_policy_ok)
next
  case False
  let ?w = "(writing (put_le 8 (po_id p) @ put_le 4 (po_version p)))\<lparr>wr_status := Some Err_Oversized\<rparr>"
  have "wr_status (snd (run_state (w_policy_body p) ?w)) = Some Err_Oversized"
    using sticky_policy_body [of p] by (simp add: sticky_def)
  with assms False show ?thesis by (simp add: encode_policy_def encode_simps kMaxPolicyNameBytes_def)
qed

lemma run_r_policy:
  assumes "length (po_rules p) \<le> kMaxThresholdRules" and "length (cp_priority_order (po_contradiction p)) \<le> kMaxPublishers"
    and "length (po_interventions p) \<le> kMaxInterventionRules" and "length (po_name p) \<le> kMaxPolicyNameBytes"
  shows "run_state r_policy (new_reader (policy_layout p)) = (Inr p, reading (policy_layout p) [])"
proof -
  have counts: "unat (of_nat (length (po_rules p)) :: u64) = length (po_rules p)"
    "unat (of_nat (length (cp_priority_order (po_contradiction p))) :: u64) = length (cp_priority_order (po_contradiction p))"
    "unat (of_nat (length (po_interventions p)) :: u64) = length (po_interventions p)"
    using assms by (simp_all only: count_bounds) (rule unat_count, simp)+
  show ?thesis
    using assms
    by (simp add: r_policy_def policy_layout_def counted_def decode_simps codec_simps counts
        kMaxPolicyNameBytes_def)
qed

interpretation policy: message_codec "\<lambda>p. \<exists>p'. validate_policy p = Inr p'"
  "\<lambda>p. p\<lparr>po_fingerprint := fingerprint_policy p\<rparr>" encode_policy decode_policy
proof
  fix p bs
  assume "encode_policy p = Inr bs" and "\<exists>p'. validate_policy p = Inr p'"
  then obtain p' where bs: "bs = policy_layout p" and p': "validate_policy p = Inr p'"
    using encode_policy_Inr by blast
  note v = p' [unfolded validate_policy_Inr]
  have "length (cp_priority_order (po_contradiction p)) \<le> kMaxPublishers"
    using v by (auto simp: validate_contradiction_def split: if_splits)
  then have "run_state r_policy (new_reader bs) = (Inr p, reading bs [])"
    unfolding bs using v by (intro run_r_policy) blast+
  then show "decode_policy bs = Inr (p\<lparr>po_fingerprint := fingerprint_policy p\<rparr>)"
    using v p' by (simp add: decode_policy_def finish_result_def)
qed

subsection \<open>Topologies and capacities\<close>

definition path_layout :: "PathRecord \<Rightarrow> bytes" where
  "path_layout p = put_le 8 (pa_id p) @ put_le 8 (pa_capacity_bps p) @ put_le 4 (pa_flags p) @ counted (put_le 8) (pa_hops p)"

definition topology_layout :: "TopologySnapshot \<Rightarrow> bytes" where
  "topology_layout t =
     put_le 8 (ts_id t) @ put_le 8 (ts_generation t) @ put_le 8 (ts_epoch t) @ put_le 8 (ts_observed_tick t) @
     put_le 8 (ts_fingerprint t) @ counted resource_layout (ts_resources t) @ counted link_layout (ts_links t) @
     counted path_layout (ts_paths t)"

lemma run_w_each_path [codec_simps]:
  "run_state (w_each w_path ps) (writing buf) = ((), writing (buf @ concat (map path_layout ps)))"
  by (induction ps arbitrary: buf) (simp_all add: w_path_def path_layout_def counted_def codec_simps)

lemma run_r_path:
  assumes "length (pa_hops p) \<le> kMaxResourcesPerPath"
  shows "run_state r_path (reading pre (path_layout p @ rest)) = (Inr p, reading (pre @ path_layout p) rest)"
proof -
  have "unat (of_nat (length (pa_hops p)) :: u64) = length (pa_hops p)"
    using assms by (intro unat_count) (simp add: count_bounds)
  with assms show ?thesis
    by (simp add: r_path_def path_layout_def counted_def codec_simps)
qed

lemma run_r_paths:
  "list_all (\<lambda>p. length (pa_hops p) \<le> kMaxResourcesPerPath) ps \<Longrightarrow>
   run_state (r_paths (length ps) acc) (reading pre (concat (map path_layout ps) @ rest)) =
     (Inr (acc @ ps), reading (pre @ concat (map path_layout ps)) rest)"
  by (induction ps arbitrary: acc pre) (simp_all add: run_r_path codec_simps)

lemma validate_paths_hops:
  "validate_paths ids seen ps = Inr () \<Longrightarrow> list_all (\<lambda>p. length (pa_hops p) \<le> kMaxResourcesPerPath) ps"
  by (induction ps arbitrary: seen) (auto split: if_splits)

interpretation topology: message_codec "\<lambda>t. validate_topology t = Inr ()" "\<lambda>t. t" encode_topology decode_topology
proof
  fix t bs
  assume enc: "encode_topology t = Inr bs" and v: "validate_topology t = Inr ()"
  have bs: "bs = topology_layout t"
    using enc by (simp add: encode_topology_def topology_layout_def counted_def encode_simps codec_simps)
  have lens: "length (ts_resources t) \<le> kMaxResourcesPerFabric" "length (ts_links t) \<le> kMaxLinksPerTopology"
    "length (ts_paths t) \<le> kMaxPathsPerTopology"
    using v by (auto simp: validate_topology_def split: if_splits)
  have hops: "list_all (\<lambda>p. length (pa_hops p) \<le> kMaxResourcesPerPath) (ts_paths t)"
    using v validate_paths_hops by (elim validate_topology_Inr) blast
  have counts: "unat (of_nat (length (ts_resources t)) :: u64) = length (ts_resources t)"
    "unat (of_nat (length (ts_links t)) :: u64) = length (ts_links t)"
    "unat (of_nat (length (ts_paths t)) :: u64) = length (ts_paths t)"
    using lens by (simp_all only: count_bounds) (rule unat_count, simp)+
  have "run_state r_topology (new_reader (topology_layout t)) = (Inr t, reading (topology_layout t) [])"
    using lens
    by (simp add: r_topology_def topology_layout_def counted_def decode_simps codec_simps counts
        run_r_paths [OF hops, where rest = "[]", simplified])
  then show "decode_topology bs = Inr t"
    using v by (simp add: decode_topology_def finish_result_def bs andThen_def)
qed

interpretation capacity: message_codec "\<lambda>c. validate_capacity c = Inr ()" "\<lambda>c. c" encode_capacity decode_capacity
proof
  fix c bs
  assume enc: "encode_capacity c = Inr bs" and v: "validate_capacity c = Inr ()"
  have n: "length (cs_entries c) \<le> kMaxResourcesPerFabric"
    using v by (auto simp: validate_capacity_def split: if_splits)
  then have count: "unat (of_nat (length (cs_entries c)) :: u64) = length (cs_entries c)"
    by (intro unat_count) (simp add: count_bounds)
  have bs: "bs = put_le 8 (cs_id c) @ put_le 8 (cs_generation c) @ put_le 8 (cs_epoch c) @
      put_le 8 (cs_observed_tick c) @ put_le 8 (cs_fingerprint c) @ counted capacity_entry_layout (cs_entries c)"
    using enc by (simp add: encode_capacity_def counted_def encode_simps codec_simps)
  have "run_state r_capacity (new_reader bs) = (Inr c, reading bs [])"
    using n count by (simp add: bs r_capacity_def counted_def decode_simps codec_simps)
  then show "decode_capacity bs = Inr c"
    using v by (simp add: decode_capacity_def finish_result_def andThen_def)
qed

lemmas payload_defs =
  encode_domain_state_def decode_domain_state_def
  encode_intervention_def decode_intervention_def
  encode_fence_def decode_fence_def
  encode_epoch_def decode_epoch_def
  encode_history_def decode_history_def
  encode_attempt_def decode_attempt_def
  encode_provenance_def decode_provenance_def
  encode_revalidation_def decode_revalidation_def

lemmas payload_enc =
  domain_state.enc_Inr intervention.enc_Inr fence.enc_Inr epoch.enc_Inr history.enc_Inr attempt.enc_Inr provenance.enc_Inr revalidation.enc_Inr

lemmas payload_dec =
  domain_state.finish_layout intervention.finish_layout fence.finish_layout epoch.finish_layout history.finish_layout attempt.finish_layout provenance.finish_layout revalidation.finish_layout

text \<open>C31: what the store encodes, replay decodes. For every kind of durable payload: a policy, topology or
  capacity snapshot that passes validation decodes to itself (the policy under its recomputed
  fingerprint); a domain state, intervention record, fence, epoch record, history entry, attempt,
  provenance or revalidation record decodes to itself, up to the identity checks of its decoder.\<close>

theorem durable_payloads_roundtrip:
  "encode_policy p = Inr b1 \<Longrightarrow> validate_policy p = Inr p' \<Longrightarrow> encode_topology t = Inr b2 \<Longrightarrow>
   validate_topology t = Inr () \<Longrightarrow> encode_capacity c = Inr b3 \<Longrightarrow> validate_capacity c = Inr () \<Longrightarrow>
   encode_domain_state d = Inr b4 \<Longrightarrow> encode_intervention i = Inr b5 \<Longrightarrow> encode_fence f = Inr b6 \<Longrightarrow>
   encode_epoch e b n = Inr b7 \<Longrightarrow> encode_history h = Inr b8 \<Longrightarrow> encode_attempt a = Inr b9 \<Longrightarrow>
   encode_provenance v = Inr b10 \<Longrightarrow> encode_revalidation r = Inr b11 \<Longrightarrow>
   decode_policy b1 = Inr (p\<lparr>po_fingerprint := fingerprint_policy p\<rparr>) \<and> decode_topology b2 = Inr t \<and>
   decode_capacity b3 = Inr c \<and> decode_domain_state b4 = check_domain_state d \<and>
   decode_intervention b5 = check_intervention i \<and> decode_fence b6 = check_fence f \<and>
   decode_epoch b7 = check_epoch (e, b, n) \<and> decode_history b8 = Inr h \<and> decode_attempt b9 = Inr a \<and>
   decode_provenance b10 = Inr v \<and> decode_revalidation b11 = Inr r"
  using policy.decode_encode [of p b1] topology.decode_encode [of t b2] capacity.decode_encode [of c b3]
  by (simp add: payload_defs payload_enc payload_dec)

theorem durable_payloads_roundtrip_witness:
  "\<exists>b1 b2 b6. encode_policy make_default_policy = Inr b1 \<and>
     decode_policy b1 = Inr (make_default_policy\<lparr>po_fingerprint := fingerprint_policy make_default_policy\<rparr>) \<and>
     encode_topology two_node_topology = Inr b2 \<and> decode_topology b2 = Inr two_node_topology \<and>
     encode_fence \<lparr>fe_id = 1, fe_epoch = 2, fe_publisher = 3, fe_boot = 4, fe_last_generation = 5,
       fe_reason = FenceReason 1, fe_issued_tick = 6, fe_provenance = 7, fe_detail = ''gone''\<rparr> = Inr b6 \<and>
     decode_fence b6 = Inr \<lparr>fe_id = 1, fe_epoch = 2, fe_publisher = 3, fe_boot = 4, fe_last_generation = 5,
       fe_reason = FenceReason 1, fe_issued_tick = 6, fe_provenance = 7, fe_detail = ''gone''\<rparr>"
proof -
  let ?f = "\<lparr>fe_id = 1, fe_epoch = 2, fe_publisher = 3, fe_boot = 4, fe_last_generation = 5,
       fe_reason = FenceReason 1, fe_issued_tick = 6, fe_provenance = 7, fe_detail = ''gone''\<rparr>"
  let ?c = "\<lparr>cs_id = 1, cs_generation = 1, cs_epoch = 1, cs_observed_tick = 1, cs_entries = [], cs_fingerprint = 0\<rparr>"
  let ?i = "\<lparr>ic_id = 1, ic_kind = InterventionKind 1, ic_domain = 1, ic_resource = 1, ic_basis_severity = Sev_Watch,
      ic_evidence = 1, ic_evaluation = 1, ic_epoch = 1, ic_authority_generation = 1, ic_policy = 1,
      ic_provenance = 1, ic_recorded_tick = 1, ic_parameter = 1\<rparr>"
  let ?h = "\<lparr>he_domain = 1, he_from = St_Unknown, he_to = St_Unknown, he_tick = 1, he_evaluation = 1, he_epoch = 1,
      he_reason = []\<rparr>"
  let ?a = "\<lparr>at_attempt = 1, at_transaction = 1, at_kind = Mu_Fence, at_state = AttemptState 1, at_epoch = 1,
      at_generation = 1, at_recorded_tick = 1, at_provenance = 1, at_detail = []\<rparr>"
  let ?v = "\<lparr>pv_id = 1, pv_kind = ProvenanceKind 1, pv_publisher = 1, pv_boot = 1, pv_epoch = 1, pv_attempt = 1,
      pv_recorded_tick = 1, pv_wall = 1, pv_note = []\<rparr>"
  let ?r = "\<lparr>rv_domain = 1, rv_previous_epoch = 1, rv_epoch = 2, rv_restored_state = St_Unknown,
      rv_effective_state = St_Unknown, rv_state_restored = True, rv_authority_restored = False,
      rv_freshness_restored = False, rv_recorded_tick = 1, rv_provenance = 1, rv_detail = []\<rparr>"
  have policy: "encode_policy make_default_policy = Inr (policy_layout make_default_policy)"
    using default_policy_valid unfolding validate_policy_Inr by (blast intro: encode_policy_ok)
  have topology: "encode_topology two_node_topology = Inr (topology_layout two_node_topology)"
    by (simp add: encode_topology_def topology_layout_def counted_def encode_simps codec_simps)
  have capacity: "validate_capacity ?c = Inr ()" "\<exists>b. encode_capacity ?c = Inr b"
    by (simp_all add: validate_capacity_def encode_capacity_def encode_simps codec_simps)
  have fence: "check_fence ?f = Inr ?f" by (simp add: check_fence_def id_valid_def)
  show ?thesis
    using durable_payloads_roundtrip [OF policy default_policy_valid topology two_node_topology_valid _ capacity(1),
        where d = initial_domain_state and i = ?i and f = ?f and e = 1 and b = 1 and n = 1 and h = ?h and a = ?a
          and v = ?v and r = ?r] policy topology capacity(2) fence
    by (auto simp: payload_defs payload_enc kMaxDurableNote_def)
qed

end
