(* ===== verification/NCF_Snapshot.thy ===== *)
theory NCF_Snapshot
  imports NCF_Journal
begin

text \<open>
  The snapshot container, \<^verbatim>\<open>include/ncf/durability/snapshot.hpp\<close> and \<^verbatim>\<open>src/durability/snapshot.cpp\<close>:
  a checksummed header, records in the journal's framing, and a footer whose presence marks the
  container as complete; written to a temporary file, flushed, and moved into place.
\<close>

section \<open>The container\<close>

definition kSnapshotMagic :: u32 where [ncf_defs]: "kSnapshotMagic = 0x4E434653"
definition kSnapshotFooterMagic :: u32 where [ncf_defs]: "kSnapshotFooterMagic = 0x4E434645"
definition kSnapshotHeaderSize :: nat where [ncf_defs]: "kSnapshotHeaderSize = 72"
definition kSnapshotFooterSize :: nat where [ncf_defs]: "kSnapshotFooterSize = 32"

record SnapshotHeader =
  sh_magic :: u32
  sh_format :: u16
  sh_reserved :: u16
  sh_header_crc :: u32
  sh_reserved2 :: u32
  sh_epoch :: u64
  sh_coordinator_boot :: u64
  sh_coordinator_boot_counter :: u64
  sh_last_sequence :: u64
  sh_record_count :: u64
  sh_payload_bytes :: u64
  sh_payload_crc :: u32
  sh_reserved3 :: u32

record SnapshotFooter =
  sf_magic :: u32
  sf_footer_crc :: u32
  sf_record_count :: u64
  sf_payload_bytes :: u64
  sf_payload_crc :: u32
  sf_reserved :: u32

record SnapshotContents =
  sc_header :: SnapshotHeader
  sc_records :: "JournalRecord list"
  sc_complete :: bool

record SnapshotOptions =
  so_max_bytes :: u64
  so_max_records :: u64
  so_sync :: bool

definition encode_snapshot_header :: "SnapshotHeader \<Rightarrow> bytes" where
  "encode_snapshot_header h =
     put_le 4 (sh_magic h) @ put_le 2 (sh_format h) @ put_le 2 (sh_reserved h) @ put_le 4 (sh_header_crc h) @
     put_le 4 (sh_reserved2 h) @ put_le 8 (sh_epoch h) @ put_le 8 (sh_coordinator_boot h) @
     put_le 8 (sh_coordinator_boot_counter h) @ put_le 8 (sh_last_sequence h) @ put_le 8 (sh_record_count h) @
     put_le 8 (sh_payload_bytes h) @ put_le 4 (sh_payload_crc h) @ put_le 4 (sh_reserved3 h)"

definition snapshot_header_crc :: "SnapshotHeader \<Rightarrow> u32" where
  "snapshot_header_crc h = crc32c (encode_snapshot_header (h\<lparr>sh_header_crc := 0\<rparr>))"

definition decode_snapshot_header :: "bytes \<Rightarrow> SnapshotHeader" where
  "decode_snapshot_header bs =
     (let h = \<lparr>sh_magic = field_at 0 4 bs, sh_format = field_at 4 2 bs, sh_reserved = field_at 6 2 bs,
               sh_header_crc = field_at 8 4 bs, sh_reserved2 = field_at 12 4 bs, sh_epoch = field_at 16 8 bs,
               sh_coordinator_boot = field_at 24 8 bs, sh_coordinator_boot_counter = field_at 32 8 bs,
               sh_last_sequence = field_at 40 8 bs, sh_record_count = field_at 48 8 bs,
               sh_payload_bytes = field_at 56 8 bs, sh_payload_crc = field_at 64 4 bs,
               sh_reserved3 = field_at 68 4 bs\<rparr>
      in if snapshot_header_crc h \<noteq> sh_header_crc h then h\<lparr>sh_magic := 0\<rparr> else h)"

definition encode_snapshot_footer :: "SnapshotFooter \<Rightarrow> bytes" where
  "encode_snapshot_footer f =
     put_le 4 (sf_magic f) @ put_le 4 (sf_footer_crc f) @ put_le 8 (sf_record_count f) @
     put_le 8 (sf_payload_bytes f) @ put_le 4 (sf_payload_crc f) @ put_le 4 (sf_reserved f)"

definition snapshot_footer_crc :: "SnapshotFooter \<Rightarrow> u32" where
  "snapshot_footer_crc f = crc32c (encode_snapshot_footer (f\<lparr>sf_footer_crc := 0\<rparr>))"

definition decode_snapshot_footer :: "bytes \<Rightarrow> SnapshotFooter" where
  "decode_snapshot_footer bs =
     (let f = \<lparr>sf_magic = field_at 0 4 bs, sf_footer_crc = field_at 4 4 bs, sf_record_count = field_at 8 8 bs,
               sf_payload_bytes = field_at 16 8 bs, sf_payload_crc = field_at 24 4 bs,
               sf_reserved = field_at 28 4 bs\<rparr>
      in if snapshot_footer_crc f \<noteq> sf_footer_crc f then f\<lparr>sf_magic := 0\<rparr> else f)"

section \<open>Reading\<close>

text \<open>The record loop on the bytes before the footer: records, payload bytes and running checksum.\<close>

primrec read_records ::
  "nat \<Rightarrow> bytes \<Rightarrow> JournalRecord list \<Rightarrow> u64 \<Rightarrow> u32 \<Rightarrow> (JournalRecord list \<times> u64 \<times> u32 \<times> bytes) result" where
  "read_records 0 body records payload_bytes rolling_crc = Inr (records, payload_bytes, rolling_crc, body)"
| "read_records (Suc n) body records payload_bytes rolling_crc =
     (if length body < kRecordHeaderSize then Inl Err_Truncated
      else
        let h = decode_header (take kRecordHeaderSize body)
        in if rh_magic h \<noteq> kRecordMagic then Inl Err_IntegrityFailure
           else if rh_format h \<noteq> kFormatVersion then Inl Err_Unsupported
           else
             let total = kRecordHeaderSize + unat (rh_payload_len h)
             in if length body < total then Inl Err_Truncated
                else
                  let payload = take (unat (rh_payload_len h)) (drop kRecordHeaderSize body)
                  in if crc32c payload \<noteq> rh_payload_crc h then Inl Err_IntegrityFailure
                     else read_records n (drop total body)
                       (records @ [\<lparr>jrec_header = h, jrec_payload = payload\<rparr>])
                       (payload_bytes + ucast (rh_payload_len h)) (crc32c_continue rolling_crc payload))"

definition parse_snapshot :: "SnapshotOptions \<Rightarrow> bytes \<Rightarrow> SnapshotContents result" where
  "parse_snapshot opts data =
     (if length data < kSnapshotHeaderSize + kSnapshotFooterSize then Inl Err_Truncated
      else
        let header = decode_snapshot_header (take kSnapshotHeaderSize data)
        in if sh_magic header \<noteq> kSnapshotMagic then Inl Err_IntegrityFailure
           else if sh_format header \<noteq> kFormatVersion then Inl Err_Unsupported
           else
             let body_end = length data - kSnapshotFooterSize;
                 footer = decode_snapshot_footer (drop body_end data)
             in if sf_magic footer \<noteq> kSnapshotFooterMagic then Inl Err_Truncated
                else if sf_record_count footer \<noteq> sh_record_count header \<or>
                  sf_payload_bytes footer \<noteq> sh_payload_bytes header \<or>
                  sf_payload_crc footer \<noteq> sh_payload_crc header then Inl Err_IntegrityFailure
                else if sh_record_count header > so_max_records opts then Inl Err_Oversized
                else case read_records (unat (sh_record_count header))
                    (drop kSnapshotHeaderSize (take body_end data)) [] 0 0 of
                    Inl e \<Rightarrow> Inl e
                  | Inr (records, payload_bytes, rolling_crc, rest) \<Rightarrow>
                      if rest \<noteq> [] then Inl Err_Malformed
                      else if payload_bytes \<noteq> sh_payload_bytes header \<or> rolling_crc \<noteq> sh_payload_crc header
                      then Inl Err_IntegrityFailure
                      else Inr \<lparr>sc_header = header, sc_records = records, sc_complete = True\<rparr>)"

definition read_snapshot :: "string \<Rightarrow> SnapshotOptions \<Rightarrow> World \<Rightarrow> SnapshotContents result \<times> World" where
  "read_snapshot p opts w0 =
     (case read_file p (so_max_bytes opts) w0 of
        (Inl e, w1) \<Rightarrow> (Inl e, w1)
      | (Inr data, w1) \<Rightarrow> (parse_snapshot opts data, w1))"

section \<open>Writing\<close>

definition seal_record :: "JournalRecord \<Rightarrow> JournalRecord" where
  "seal_record r =
     (let h = (jrec_header r)\<lparr>rh_magic := kRecordMagic, rh_format := kFormatVersion,
                rh_payload_len := of_nat (length (jrec_payload r)), rh_payload_crc := crc32c (jrec_payload r)\<rparr>
      in r\<lparr>jrec_header := h\<lparr>rh_header_crc := record_header_crc h\<rparr>\<rparr>)"

fun snapshot_body :: "JournalRecord list \<Rightarrow> bytes \<Rightarrow> u64 \<Rightarrow> u32 \<Rightarrow> (bytes \<times> u64 \<times> u32) result" where
  "snapshot_body [] body payload_bytes rolling_crc = Inr (body, payload_bytes, rolling_crc)"
| "snapshot_body (r # rs) body payload_bytes rolling_crc =
     (if length (jrec_payload r) > unat kMaxJournalRecordBytes then Inl Err_Oversized
      else snapshot_body rs (body @ encode_header (jrec_header (seal_record r)) @ jrec_payload r)
        (payload_bytes + of_nat (length (jrec_payload r))) (crc32c_continue rolling_crc (jrec_payload r)))"

definition final_snapshot_header :: "SnapshotHeader \<Rightarrow> nat \<Rightarrow> u64 \<Rightarrow> u32 \<Rightarrow> SnapshotHeader" where
  "final_snapshot_header header n payload_bytes rolling_crc =
     (let h = header\<lparr>sh_magic := kSnapshotMagic, sh_format := kFormatVersion, sh_record_count := of_nat n,
                sh_payload_bytes := payload_bytes, sh_payload_crc := rolling_crc\<rparr>
      in h\<lparr>sh_header_crc := snapshot_header_crc h\<rparr>)"

definition final_snapshot_footer :: "nat \<Rightarrow> u64 \<Rightarrow> u32 \<Rightarrow> SnapshotFooter" where
  "final_snapshot_footer n payload_bytes rolling_crc =
     (let f = \<lparr>sf_magic = kSnapshotFooterMagic, sf_footer_crc = 0, sf_record_count = of_nat n,
               sf_payload_bytes = payload_bytes, sf_payload_crc = rolling_crc, sf_reserved = 0\<rparr>
      in f\<lparr>sf_footer_crc := snapshot_footer_crc f\<rparr>)"

definition build_snapshot :: "SnapshotHeader \<Rightarrow> JournalRecord list \<Rightarrow> SnapshotOptions \<Rightarrow> bytes result" where
  "build_snapshot header records opts =
     (if length records > unat (so_max_records opts) then Inl Err_LimitExceeded
      else case snapshot_body records [] 0 0 of
          Inl e \<Rightarrow> Inl e
        | Inr (body, payload_bytes, rolling_crc) \<Rightarrow>
            if kSnapshotHeaderSize + length body + kSnapshotFooterSize > unat (so_max_bytes opts)
            then Inl Err_LimitExceeded
            else Inr (encode_snapshot_header
                (final_snapshot_header header (length records) payload_bytes rolling_crc) @ body @
              encode_snapshot_footer (final_snapshot_footer (length records) payload_bytes rolling_crc)))"

definition atomic_replace :: "string \<Rightarrow> string \<Rightarrow> World \<Rightarrow> void_result \<times> World" where
  "atomic_replace source destination w0 =
     (let (moved, w1) = fs_rename source destination w0 in (if moved then Inr () else Inl Err_IoError, w1))"

definition write_snapshot ::
  "string \<Rightarrow> SnapshotHeader \<Rightarrow> JournalRecord list \<Rightarrow> SnapshotOptions \<Rightarrow> World \<Rightarrow> void_result \<times> World" where
  "write_snapshot p header records opts w0 =
     (case build_snapshot header records opts of
        Inl e \<Rightarrow> (Inl e, w0)
      | Inr container \<Rightarrow>
          (case write_file (p @ ''.tmp'') container (so_sync opts) w0 of
             (Inl e, w1) \<Rightarrow> (Inl e, w1)
           | (Inr _, w1) \<Rightarrow> atomic_replace (p @ ''.tmp'') p w1))"

definition sync_file :: "string \<Rightarrow> World \<Rightarrow> void_result \<times> World" where
  "sync_file p w = flush_path p True w"

definition remove_if_exists :: "string \<Rightarrow> World \<Rightarrow> void_result \<times> World" where
  "remove_if_exists p w0 = (let (gone, w1) = fs_remove p w0 in (if gone then Inr () else Inl Err_IoError, w1))"

section \<open>Headers and footers\<close>

lemma length_encode_snapshot [simp]:
  "length (encode_snapshot_header h) = 72" "length (encode_snapshot_footer f) = 32"
  by (simp_all add: encode_snapshot_header_def encode_snapshot_footer_def)

definition snapshot_fields :: "bytes \<Rightarrow> SnapshotHeader" where
  "snapshot_fields bs =
     \<lparr>sh_magic = field_at 0 4 bs, sh_format = field_at 4 2 bs, sh_reserved = field_at 6 2 bs,
      sh_header_crc = field_at 8 4 bs, sh_reserved2 = field_at 12 4 bs, sh_epoch = field_at 16 8 bs,
      sh_coordinator_boot = field_at 24 8 bs, sh_coordinator_boot_counter = field_at 32 8 bs,
      sh_last_sequence = field_at 40 8 bs, sh_record_count = field_at 48 8 bs,
      sh_payload_bytes = field_at 56 8 bs, sh_payload_crc = field_at 64 4 bs, sh_reserved3 = field_at 68 4 bs\<rparr>"

definition footer_fields :: "bytes \<Rightarrow> SnapshotFooter" where
  "footer_fields bs =
     \<lparr>sf_magic = field_at 0 4 bs, sf_footer_crc = field_at 4 4 bs, sf_record_count = field_at 8 8 bs,
      sf_payload_bytes = field_at 16 8 bs, sf_payload_crc = field_at 24 4 bs, sf_reserved = field_at 28 4 bs\<rparr>"

interpretation snapshot_header: checksummed encode_snapshot_header snapshot_fields sh_header_crc snapshot_header_crc
  "sh_magic_update (\<lambda>_. 0)" decode_snapshot_header
proof
  show "snapshot_fields (encode_snapshot_header h) = h" for h
    by (cases h) (simp add: snapshot_fields_def encode_snapshot_header_def field_at_def)
qed (simp add: decode_snapshot_header_def snapshot_fields_def Let_def)

interpretation snapshot_footer: checksummed encode_snapshot_footer footer_fields sf_footer_crc snapshot_footer_crc
  "sf_magic_update (\<lambda>_. 0)" decode_snapshot_footer
proof
  show "footer_fields (encode_snapshot_footer f) = f" for f
    by (cases f) (simp add: footer_fields_def encode_snapshot_footer_def field_at_def)
qed (simp add: decode_snapshot_footer_def footer_fields_def Let_def)

section \<open>Round trip\<close>

lemma seal_record_simps:
  "jrec_payload (seal_record r) = jrec_payload r" "rh_magic (jrec_header (seal_record r)) = kRecordMagic"
  "rh_format (jrec_header (seal_record r)) = kFormatVersion"
  "rh_payload_len (jrec_header (seal_record r)) = of_nat (length (jrec_payload r))"
  "rh_payload_crc (jrec_header (seal_record r)) = crc32c (jrec_payload r)"
  "rh_header_crc (jrec_header (seal_record r)) = record_header_crc (jrec_header (seal_record r))"
  by (simp_all add: seal_record_def Let_def record_header_crc_def)

text \<open>Reading what was written goes through the same payload count and checksum.\<close>

lemma read_records_body:
  assumes "snapshot_body rs body0 pb0 crc0 = Inr (body, pb, crc)"
  shows "\<exists>new. body = body0 @ new \<and>
    (\<forall>acc rest. read_records (length rs) (new @ rest) acc pb0 crc0 = Inr (acc @ map seal_record rs, pb, crc, rest))"
  using assms
proof (induction rs body0 pb0 crc0 rule: snapshot_body.induct)
  case (2 r rs body0 pb0 crc0)
  let ?h = "jrec_header (seal_record r)" and ?p = "jrec_payload r"
  have small: "length ?p \<le> unat kMaxJournalRecordBytes" using "2.prems" by (simp split: if_splits)
  then have len32: "unat (of_nat (length ?p) :: u32) = length ?p" and len64: "unat (of_nat (length ?p) :: u64) = length ?p"
    by (simp_all add: unat_of_nat kMaxJournalRecordBytes_def)
  then have "ucast (of_nat (length ?p) :: u32) = (of_nat (length ?p) :: u64)"
    by (simp only: word_unat_eq_iff unat_ucast_32_64)
  note len = len32 this
  obtain new where new: "body = (body0 @ encode_header ?h @ ?p) @ new"
    "\<And>acc rest. read_records (length rs) (new @ rest) acc (pb0 + of_nat (length ?p)) (crc32c_continue crc0 ?p) =
      Inr (acc @ map seal_record rs, pb, crc, rest)"
    using "2.IH" "2.prems" small by (auto split: if_splits)
  have "read_records (length (r # rs)) ((encode_header ?h @ ?p @ new) @ rest) acc pb0 crc0 =
      Inr (acc @ map seal_record (r # rs), pb, crc, rest)" for acc rest
  proof -
    have "\<lparr>jrec_header = ?h, jrec_payload = ?p\<rparr> = seal_record r"
      by (cases r) (simp add: seal_record_def Let_def)
    then show ?thesis
      using new(2)
      by (simp add: Let_def kRecordHeaderSize_def record_header.decode_sealed seal_record_simps len)
  qed
  with new(1) show ?case by (intro exI [of _ "encode_header ?h @ ?p @ new"]) simp
qed auto

lemma final_snapshot_sealed:
  "decode_snapshot_header (encode_snapshot_header (final_snapshot_header h n pb crc)) = final_snapshot_header h n pb crc"
  "decode_snapshot_footer (encode_snapshot_footer (final_snapshot_footer n pb crc)) = final_snapshot_footer n pb crc"
  by (rule snapshot_header.decode_sealed,
      simp add: final_snapshot_header_def Let_def snapshot_header_crc_def)
    (rule snapshot_footer.decode_sealed, simp add: final_snapshot_footer_def Let_def snapshot_footer_crc_def)

lemma final_snapshot_fields:
  "sh_magic (final_snapshot_header h n pb crc) = kSnapshotMagic"
  "sh_format (final_snapshot_header h n pb crc) = kFormatVersion"
  "sh_record_count (final_snapshot_header h n pb crc) = of_nat n"
  "sh_payload_bytes (final_snapshot_header h n pb crc) = pb"
  "sh_payload_crc (final_snapshot_header h n pb crc) = crc"
  "sh_epoch (final_snapshot_header h n pb crc) = sh_epoch h"
  "sh_coordinator_boot (final_snapshot_header h n pb crc) = sh_coordinator_boot h"
  "sh_coordinator_boot_counter (final_snapshot_header h n pb crc) = sh_coordinator_boot_counter h"
  "sh_last_sequence (final_snapshot_header h n pb crc) = sh_last_sequence h"
  "sf_magic (final_snapshot_footer n pb crc) = kSnapshotFooterMagic"
  "sf_record_count (final_snapshot_footer n pb crc) = of_nat n"
  "sf_payload_bytes (final_snapshot_footer n pb crc) = pb"
  "sf_payload_crc (final_snapshot_footer n pb crc) = crc"
  by (simp_all add: final_snapshot_header_def final_snapshot_footer_def Let_def)

lemma build_snapshot_parse:
  assumes "build_snapshot h rs opts = Inr bs"
  shows "length bs \<le> unat (so_max_bytes opts) \<and>
    (\<exists>pb crc. parse_snapshot opts bs =
      Inr \<lparr>sc_header = final_snapshot_header h (length rs) pb crc, sc_records = map seal_record rs, sc_complete = True\<rparr>)"
proof -
  obtain body pb crc where body: "snapshot_body rs [] 0 0 = Inr (body, pb, crc)"
    and n: "length rs \<le> unat (so_max_records opts)"
    and len: "kSnapshotHeaderSize + length body + kSnapshotFooterSize \<le> unat (so_max_bytes opts)"
    and bs: "bs = encode_snapshot_header (final_snapshot_header h (length rs) pb crc) @ body @
      encode_snapshot_footer (final_snapshot_footer (length rs) pb crc)"
    using assms by (auto simp: build_snapshot_def split: if_splits sum.splits)
  have count: "unat (of_nat (length rs) :: u64) = length rs"
    using n unat_64_less [of "so_max_records opts"] by (simp add: unat_of_nat)
  then have "\<not> of_nat (length rs) > so_max_records opts" using n by (simp add: word_less_nat_alt)
  moreover have "read_records (length rs) body [] 0 0 = Inr (map seal_record rs, pb, crc, [])"
    using read_records_body [OF body] by (metis append_Nil append_Nil2)
  ultimately have "parse_snapshot opts bs =
      Inr \<lparr>sc_header = final_snapshot_header h (length rs) pb crc, sc_records = map seal_record rs, sc_complete = True\<rparr>"
    by (simp add: parse_snapshot_def bs kSnapshotHeaderSize_def kSnapshotFooterSize_def Let_def
        final_snapshot_sealed final_snapshot_fields count)
  then show ?thesis using len bs by (simp add: kSnapshotHeaderSize_def kSnapshotFooterSize_def) blast
qed

section \<open>Atomic replacement\<close>

lemma take_outcome_files: "take_outcome w = (out, w') \<Longrightarrow> wd_files w' = wd_files w"
  using wd_files_take_outcome [of w] by simp

lemma write_file_effect:
  assumes "write_file q bs True w = (res, w')"
  shows "(\<forall>p. p \<noteq> q \<longrightarrow> wd_files w' p = wd_files w p) \<and>
    (res = Inr () \<longrightarrow> wd_files w' q = Some \<lparr>fl_bytes = bs, fl_synced = length bs\<rparr>)"
  using assms
  by (auto simp: write_file_def fopen_def fwrite_def flush_stream_def fflush_def fsync_def transferred_def write_at_def
      Let_def dest!: take_outcome_files split: prod.splits if_splits option.splits IoOutcome.splits)

lemma crash_keeps_synced:
  assumes "crashes_to w w'" and "wd_files w p = Some f" and "fl_synced f = length (fl_bytes f)"
  shows "wd_files w' p = Some f"
proof -
  have "rel_option file_cut (Some f) (wd_files w' p)" using assms(1,2) by (metis crashes_to_def)
  with assms(3) show ?thesis by (auto simp: option_rel_Some1 file_cut_def)
qed

lemma crash_keeps_missing: "crashes_to w w' \<Longrightarrow> wd_files w p = None \<Longrightarrow> wd_files w' p = None"
  by (metis crashes_to_def option_rel_Some2 not_None_eq)

lemma write_snapshot_effect:
  assumes "write_snapshot p h rs opts w = (res, w')" and "so_sync opts"
  shows "if res = Inr () then
      \<exists>bs. build_snapshot h rs opts = Inr bs \<and> wd_files w' p = Some \<lparr>fl_bytes = bs, fl_synced = length bs\<rparr>
    else wd_files w' p = wd_files w p"
proof (cases "build_snapshot h rs opts")
  case (Inl e)
  with assms(1) show ?thesis by (auto simp: write_snapshot_def)
next
  case (Inr bs)
  obtain r1 w1 where wf: "write_file (p @ ''.tmp'') bs True w = (r1, w1)" by (cases "write_file (p @ ''.tmp'') bs True w")
  have ne: "p \<noteq> p @ ''.tmp''" by simp
  note eff = write_file_effect [OF wf]
  show ?thesis
  proof (cases r1)
    case (Inl e)
    with assms wf Inr eff ne show ?thesis by (auto simp: write_snapshot_def)
  next
    case (Inr u)
    obtain out w2 where out: "take_outcome w1 = (out, w2)" by (cases "take_outcome w1")
    have "atomic_replace (p @ ''.tmp'') p w1 = (res, w')"
      using assms wf Inr \<open>build_snapshot h rs opts = Inr bs\<close> by (simp add: write_snapshot_def)
    then show ?thesis
      using eff Inr ne take_outcome_files [OF out] \<open>build_snapshot h rs opts = Inr bs\<close>
      by (auto simp: atomic_replace_def fs_rename_def out Let_def split: if_splits)
  qed
qed

text \<open>C25: a snapshot is replaced atomically. Write a snapshot with syncing on, under any pattern of I/O faults,
  and let the machine crash. When the write reported success, reading the snapshot back verifies it
  and returns exactly the records that were written (sealed with length and checksums) under a header
  with the written epoch, boot and sequence; when it reported an error, whatever snapshot was there
  before is still there, byte for byte.\<close>

theorem snapshot_replaced_atomically:
  assumes "so_sync opts" and "write_snapshot p h rs opts w = (res, w')" and "crashes_to w' w2"
    and "\<And>f. wd_files w p = Some f \<Longrightarrow> fl_synced f = length (fl_bytes f)"
  shows "if res = Inr ()
    then \<exists>header. read_snapshot p opts w2 =
        (Inr \<lparr>sc_header = header, sc_records = map seal_record rs, sc_complete = True\<rparr>, w2) \<and>
      sh_epoch header = sh_epoch h \<and> sh_coordinator_boot header = sh_coordinator_boot h \<and>
      sh_coordinator_boot_counter header = sh_coordinator_boot_counter h \<and>
      sh_last_sequence header = sh_last_sequence h
    else wd_files w2 p = wd_files w p"
proof (cases "res = Inr ()")
  case True
  then obtain bs where bs: "build_snapshot h rs opts = Inr bs"
    and f: "wd_files w' p = Some \<lparr>fl_bytes = bs, fl_synced = length bs\<rparr>"
    using write_snapshot_effect [OF assms(2,1)] by auto
  obtain pb crc where parse: "parse_snapshot opts bs = Inr \<lparr>sc_header = final_snapshot_header h (length rs) pb crc,
      sc_records = map seal_record rs, sc_complete = True\<rparr>" and len: "length bs \<le> unat (so_max_bytes opts)"
    using build_snapshot_parse [OF bs] by blast
  have "wd_files w2 p = Some \<lparr>fl_bytes = bs, fl_synced = length bs\<rparr>"
    using crash_keeps_synced [OF assms(3) f] by simp
  then have "read_file p (so_max_bytes opts) w2 = (Inr bs, w2)"
    using read_file_ok [of w2 p] assms(3) len by (simp add: crashes_to_def)
  then show ?thesis using True parse by (auto simp: read_snapshot_def final_snapshot_fields)
next
  case False
  then have "wd_files w' p = wd_files w p" using write_snapshot_effect [OF assms(2,1)] by simp
  then show ?thesis
    using False assms(4) crash_keeps_synced [OF assms(3)] crash_keeps_missing [OF assms(3)]
    by (cases "wd_files w p") auto
qed

section \<open>A worked snapshot\<close>

definition demo_snapshot_header :: SnapshotHeader where
  "demo_snapshot_header =
     \<lparr>sh_magic = 0, sh_format = 0, sh_reserved = 0, sh_header_crc = 0, sh_reserved2 = 0, sh_epoch = 3,
      sh_coordinator_boot = 5, sh_coordinator_boot_counter = 1, sh_last_sequence = 9, sh_record_count = 0,
      sh_payload_bytes = 0, sh_payload_crc = 0, sh_reserved3 = 0\<rparr>"

definition demo_snapshot_options :: SnapshotOptions where
  "demo_snapshot_options = \<lparr>so_max_bytes = 1000, so_max_records = 4, so_sync = True\<rparr>"

theorem snapshot_replaced_atomically_witness:
  "\<exists>header w2. read_snapshot ''s'' demo_snapshot_options w2 =
     (Inr \<lparr>sc_header = header, sc_records = map seal_record [demo_record], sc_complete = True\<rparr>, w2) \<and>
     sh_last_sequence header = 9"
proof -
  let ?w = "\<lparr>wd_files = Map.empty, wd_script = []\<rparr>"
  obtain bs where build: "build_snapshot demo_snapshot_header [demo_record] demo_snapshot_options = Inr bs"
    by (simp add: build_snapshot_def demo_snapshot_options_def demo_record_def appended_def kSnapshotHeaderSize_def
        kSnapshotFooterSize_def)
  have wrote: "write_snapshot ''s'' demo_snapshot_header [demo_record] demo_snapshot_options ?w =
      (Inr (), \<lparr>wd_files = [''s'' \<mapsto> \<lparr>fl_bytes = bs, fl_synced = length bs\<rparr>], wd_script = []\<rparr>)"
    using write_file_ok [of ?w "''s.tmp''" bs] build
    by (simp add: write_snapshot_def demo_snapshot_options_def atomic_replace_def fs_rename_def take_outcome_def
        put_file_def fun_eq_iff)
  have crash: "crashes_to \<lparr>wd_files = [''s'' \<mapsto> \<lparr>fl_bytes = bs, fl_synced = length bs\<rparr>], wd_script = []\<rparr>
      \<lparr>wd_files = [''s'' \<mapsto> \<lparr>fl_bytes = bs, fl_synced = length bs\<rparr>], wd_script = []\<rparr>"
    by (auto simp: crashes_to_def file_cut_def)
  from snapshot_replaced_atomically [OF _ wrote crash] show ?thesis
    by (auto simp: demo_snapshot_options_def demo_snapshot_header_def)
qed

end
