(* ===== verification/NCF_Store.thy ===== *)
theory NCF_Store
  imports NCF_StoreCodec NCF_Snapshot
begin

text \<open>
  The durable store, \<^verbatim>\<open>src/durability/store.cpp\<close>: framing of mutation bodies, application to the
  document, the Intent-Payload-Commit protocol, recovery from snapshot and journal, and compaction.
  The store refines a list of mutations: after any crash, reopening yields the document of the
  acknowledged mutations, with at most the interrupted one more.
\<close>

section \<open>Bodies\<close>

definition kMutationPrefix :: nat where [ncf_defs]: "kMutationPrefix = 2"

definition frame_body :: "MutationKind \<Rightarrow> bytes \<Rightarrow> bytes" where
  "frame_body kind body = put_le 2 (mu_u16 kind) @ body"

definition unframe_body :: "bytes \<Rightarrow> (MutationKind \<times> bytes) result" where
  "unframe_body framed =
     (if length framed < kMutationPrefix then Inl Err_Truncated
      else
        let kind = MutationKind (field_at 0 2 framed)
        in if kind = Mu_Unknown \<or> kind = Mu_Count then Inl Err_Malformed
           else Inr (kind, drop kMutationPrefix framed))"

definition decode_intent_kind :: "bytes \<Rightarrow> MutationKind option" where
  "decode_intent_kind payload =
     (if length payload < kMutationPrefix then None
      else
        let kind = MutationKind (field_at 0 2 payload)
        in if kind = Mu_Unknown \<or> kind = Mu_Count then None else Some kind)"

definition decoded_ok :: "'a result \<Rightarrow> void_result" where
  "decoded_ok r = (case r of Inl e \<Rightarrow> Inl e | Inr _ \<Rightarrow> Inr ())"

definition validate_body :: "MutationKind \<Rightarrow> bytes \<Rightarrow> void_result" where
  "validate_body kind payload =
     (if kind = Mu_PolicySet then decoded_ok (decode_policy payload)
      else if kind = Mu_TopologySet then decoded_ok (decode_topology payload)
      else if kind = Mu_CapacitySet then decoded_ok (decode_capacity payload)
      else if kind = Mu_DomainState then decoded_ok (decode_domain_state payload)
      else if kind = Mu_Intervention then decoded_ok (decode_intervention payload)
      else if kind = Mu_Fence then decoded_ok (decode_fence payload)
      else if kind = Mu_EpochAdvance then decoded_ok (decode_epoch payload)
      else if kind = Mu_Revalidation then decoded_ok (decode_revalidation payload)
      else if kind = Mu_HistoryAppend then decoded_ok (decode_history payload)
      else if kind = Mu_AttemptRecord then decoded_ok (decode_attempt payload)
      else if kind = Mu_ProvenanceAppend then decoded_ok (decode_provenance payload)
      else Inl Err_Malformed)"

section \<open>The store\<close>

record StoreOptions =
  sp_max_history_entries :: u64
  sp_max_intervention_records :: u64
  sp_max_fences :: u64
  sp_max_attempts :: u64
  sp_max_provenance :: u64
  sp_max_domains :: u64
  sp_sync_on_append :: bool
  sp_read_only :: bool
  sp_tolerate_corrupt_snapshot :: bool

definition default_store_options :: StoreOptions where
  "default_store_options =
     \<lparr>sp_max_history_entries = kMaxDurableHistoryEntries, sp_max_intervention_records = of_nat kMaxInterventionHistory,
      sp_max_fences = 65536, sp_max_attempts = 65536, sp_max_provenance = 65536,
      sp_max_domains = of_nat kMaxDomains, sp_sync_on_append = True, sp_read_only = False,
      sp_tolerate_corrupt_snapshot = True\<rparr>"

text \<open>The detail text of a report is not kept.\<close>

record StoreReplay =
  sr_snapshot_present :: bool
  sr_snapshot_loaded :: bool
  sr_snapshot_corrupt :: bool
  sr_journal_present :: bool
  sr_journal_truncated :: bool
  sr_journal_status :: ReplayStatus
  sr_records_read :: u64
  sr_records_applied :: u64
  sr_records_skipped :: u64
  sr_records_rejected :: u64
  sr_unfinished_attempts :: u64
  sr_ambiguous_attempts :: u64
  sr_torn_bytes :: nat
  sr_integrity_failure :: bool
  sr_last_epoch :: EpochId
  sr_last_sequence :: u64

definition empty_report :: StoreReplay where
  "empty_report =
     \<lparr>sr_snapshot_present = False, sr_snapshot_loaded = False, sr_snapshot_corrupt = False,
      sr_journal_present = False, sr_journal_truncated = False, sr_journal_status = Rs_Empty,
      sr_records_read = 0, sr_records_applied = 0, sr_records_skipped = 0, sr_records_rejected = 0,
      sr_unfinished_attempts = 0, sr_ambiguous_attempts = 0, sr_torn_bytes = 0, sr_integrity_failure = False,
      sr_last_epoch = 0, sr_last_sequence = 0\<rparr>"

record Store =
  st_directory :: string
  st_journal_path :: string
  st_snapshot_path :: string
  st_options :: StoreOptions
  st_journal :: Journal
  st_document :: DurableDocument
  st_report :: StoreReplay
  st_pruned_records :: u64
  st_open :: bool

section \<open>Applying and pruning\<close>

definition trim :: "u64 \<Rightarrow> 'a list \<Rightarrow> 'a list \<times> u64" where
  "trim limit xs =
     (if limit = 0 \<or> length xs \<le> unat limit then (xs, 0)
      else let excess = length xs - unat limit in (drop excess xs, of_nat excess))"

definition prune_document :: "StoreOptions \<Rightarrow> DurableDocument \<Rightarrow> DurableDocument \<times> u64" where
  "prune_document opts d =
     (let (history, n1) = trim (sp_max_history_entries opts) (dd_history d);
          (interventions, n2) = trim (sp_max_intervention_records opts) (dd_interventions d);
          (fences, n3) = trim (sp_max_fences opts) (dd_fences d);
          (attempts, n4) = trim (sp_max_attempts opts) (dd_attempts d);
          (provenance, n5) = trim (sp_max_provenance opts) (dd_provenance d);
          (revalidations, n6) = trim (sp_max_attempts opts) (dd_revalidations d)
      in (d\<lparr>dd_history := history, dd_interventions := interventions, dd_fences := fences,
            dd_attempts := attempts, dd_provenance := provenance, dd_revalidations := revalidations\<rparr>,
          n1 + n2 + n3 + n4 + n5 + n6))"

text \<open>An error leaves the document as it is.\<close>

definition apply_mutation :: "MutationKind \<Rightarrow> bytes \<Rightarrow> DurableDocument \<Rightarrow> DurableDocument result" where
  "apply_mutation kind payload d =
     (if kind = Mu_PolicySet then
        (case decode_policy payload of Inl e \<Rightarrow> Inl e | Inr p \<Rightarrow> Inr (d\<lparr>dd_policy := Some p\<rparr>))
      else if kind = Mu_TopologySet then
        (case decode_topology payload of Inl e \<Rightarrow> Inl e | Inr t \<Rightarrow> Inr (d\<lparr>dd_topology := Some t\<rparr>))
      else if kind = Mu_CapacitySet then
        (case decode_capacity payload of Inl e \<Rightarrow> Inl e | Inr c \<Rightarrow> Inr (d\<lparr>dd_capacity := Some c\<rparr>))
      else if kind = Mu_DomainState then
        (case decode_domain_state payload of
           Inl e \<Rightarrow> Inl e
         | Inr s \<Rightarrow> Inr (d\<lparr>dd_domains := upsert_domain s (dd_domains d)\<rparr>))
      else if kind = Mu_Intervention then
        (case decode_intervention payload of
           Inl e \<Rightarrow> Inl e
         | Inr r \<Rightarrow> Inr (if \<exists>x \<in> set (dd_interventions d). ic_id x = ic_id r then d
                        else d\<lparr>dd_interventions := dd_interventions d @ [r]\<rparr>))
      else if kind = Mu_Fence then
        (case decode_fence payload of
           Inl e \<Rightarrow> Inl e
         | Inr r \<Rightarrow> Inr (if \<exists>x \<in> set (dd_fences d). fe_id x = fe_id r then d
                        else d\<lparr>dd_fences := dd_fences d @ [r]\<rparr>))
      else if kind = Mu_EpochAdvance then
        (case decode_epoch payload of
           Inl e \<Rightarrow> Inl e
         | Inr (epoch, boot, counter) \<Rightarrow>
             Inr (d\<lparr>dd_epoch := epoch, dd_coordinator_boot := boot, dd_coordinator_boot_counter := counter\<rparr>))
      else if kind = Mu_Revalidation then
        (case decode_revalidation payload of
           Inl e \<Rightarrow> Inl e
         | Inr r \<Rightarrow> Inr (d\<lparr>dd_revalidations := dd_revalidations d @ [r]\<rparr>))
      else if kind = Mu_HistoryAppend then
        (case decode_history payload of
           Inl e \<Rightarrow> Inl e
         | Inr h \<Rightarrow> Inr (d\<lparr>dd_history := dd_history d @ [h]\<rparr>))
      else if kind = Mu_AttemptRecord then
        (case decode_attempt payload of
           Inl e \<Rightarrow> Inl e
         | Inr r \<Rightarrow> Inr (d\<lparr>dd_attempts := dd_attempts d @ [r]\<rparr>))
      else if kind = Mu_ProvenanceAppend then
        (case decode_provenance payload of
           Inl e \<Rightarrow> Inl e
         | Inr r \<Rightarrow> Inr (if \<exists>x \<in> set (dd_provenance d). pv_id x = pv_id r then d
                        else d\<lparr>dd_provenance := dd_provenance d @ [r]\<rparr>))
      else Inl Err_Malformed)"

definition enforce_growth_limits :: "MutationKind \<Rightarrow> Store \<Rightarrow> void_result" where
  "enforce_growth_limits kind st =
     (if kind = Mu_DomainState \<and> length (dd_domains (st_document st)) \<ge> unat (sp_max_domains (st_options st))
      then Inl Err_LimitExceeded else Inr ())"

section \<open>Committing\<close>

definition intent_body :: "MutationKind \<Rightarrow> MutationStamp \<Rightarrow> bytes" where
  "intent_body kind stamp = put_le 2 (mu_u16 kind) @ put_le 8 (ms_attempt stamp) @ put_le 8 (ms_tick stamp)"

definition commit_body :: "MutationKind \<Rightarrow> bytes \<Rightarrow> bytes" where
  "commit_body kind framed = put_le 2 (mu_u16 kind) @ put_le 4 (crc32c framed)"

definition commit :: "MutationKind \<Rightarrow> bytes \<Rightarrow> MutationStamp \<Rightarrow> Store \<Rightarrow> World \<Rightarrow> void_result \<times> Store \<times> World" where
  "commit kind payload stamp st w0 =
     (if \<not> st_open st then (Inl Err_Closed, st, w0)
      else if kind = Mu_Unknown \<or> kind = Mu_Count then (Inl Err_InvalidArgument, st, w0)
      else if length payload + kMutationPrefix > unat kMaxJournalRecordBytes then (Inl Err_Oversized, st, w0)
      else case enforce_growth_limits kind st of
          Inl e \<Rightarrow> (Inl e, st, w0)
        | Inr _ \<Rightarrow>
      (case validate_body kind payload of
          Inl e \<Rightarrow> (Inl e, st, w0)
        | Inr _ \<Rightarrow>
      (let framed = frame_body kind payload;
           transaction = jn_next_sequence (st_journal st)
       in case journal_append Rt_Intent (ms_epoch stamp) (ms_generation stamp) transaction
              (intent_body kind stamp) (st_journal st) w0 of
          (Inl e, j1, w1) \<Rightarrow> (Inl e, st\<lparr>st_journal := j1\<rparr>, w1)
        | (Inr _, j1, w1) \<Rightarrow>
      (case journal_append Rt_Payload (ms_epoch stamp) (ms_generation stamp) transaction framed j1 w1 of
          (Inl e, j2, w2) \<Rightarrow> (Inl e, st\<lparr>st_journal := j2\<rparr>, w2)
        | (Inr _, j2, w2) \<Rightarrow>
      (case journal_append Rt_Commit (ms_epoch stamp) (ms_generation stamp) transaction
              (commit_body kind framed) j2 w2 of
          (Inl e, j3, w3) \<Rightarrow> (Inl e, st\<lparr>st_journal := j3\<rparr>, w3)
        | (Inr _, j3, w3) \<Rightarrow>
      (case apply_mutation kind payload (st_document st) of
          Inl e \<Rightarrow> (Inl e, st\<lparr>st_journal := j3\<rparr>, w3)
        | Inr d \<Rightarrow>
            let d1 = d\<lparr>dd_last_sequence := jn_next_sequence j3 - 1,
                       dd_authority_generation := ms_generation stamp,
                       dd_mutation_count := dd_mutation_count d + 1\<rparr>;
                (d2, pruned) = prune_document (st_options st) d1
            in (Inr (), st\<lparr>st_journal := j3, st_document := d2,
                           st_pruned_records := st_pruned_records st + pruned\<rparr>, w3)))))))"

text \<open>The typed mutations: encode, then commit.\<close>

definition commit_encoded ::
  "MutationKind \<Rightarrow> bytes result \<Rightarrow> MutationStamp \<Rightarrow> Store \<Rightarrow> World \<Rightarrow> void_result \<times> Store \<times> World" where
  "commit_encoded kind encoded stamp st w =
     (case encoded of Inl e \<Rightarrow> (Inl e, st, w) | Inr body \<Rightarrow> commit kind body stamp st w)"

definition set_policy where "set_policy p = commit_encoded Mu_PolicySet (encode_policy p)"
definition set_topology where "set_topology t = commit_encoded Mu_TopologySet (encode_topology t)"
definition set_capacity where "set_capacity c = commit_encoded Mu_CapacitySet (encode_capacity c)"
definition append_intervention where "append_intervention r = commit_encoded Mu_Intervention (encode_intervention r)"
definition append_fence where "append_fence r = commit_encoded Mu_Fence (encode_fence r)"
definition append_history where "append_history h = commit_encoded Mu_HistoryAppend (encode_history h)"
definition append_attempt where "append_attempt r = commit_encoded Mu_AttemptRecord (encode_attempt r)"
definition append_provenance where "append_provenance p = commit_encoded Mu_ProvenanceAppend (encode_provenance p)"
definition write_revalidation where "write_revalidation r = commit_encoded Mu_Revalidation (encode_revalidation r)"

definition put_domain_state :: "DomainState \<Rightarrow> MutationStamp \<Rightarrow> Store \<Rightarrow> World \<Rightarrow> void_result \<times> Store \<times> World" where
  "put_domain_state s stamp st w =
     (case encode_domain_state s of
        Inl e \<Rightarrow> (Inl e, st, w)
      | Inr body \<Rightarrow>
          if find_domain (ds_domain s) (dd_domains (st_document st)) = None \<and>
             length (dd_domains (st_document st)) \<ge> unat (sp_max_domains (st_options st))
          then (Inl Err_LimitExceeded, st, w)
          else commit Mu_DomainState body stamp st w)"

definition advance_epoch_durable ::
  "EpochId \<Rightarrow> BootId \<Rightarrow> u64 \<Rightarrow> MutationStamp \<Rightarrow> Store \<Rightarrow> World \<Rightarrow> void_result \<times> Store \<times> World" where
  "advance_epoch_durable epoch boot boot_counter stamp =
     commit_encoded Mu_EpochAdvance (encode_epoch epoch boot boot_counter) (stamp\<lparr>ms_epoch := epoch\<rparr>)"

definition store_sync :: "Store \<Rightarrow> World \<Rightarrow> void_result \<times> World" where
  "store_sync st w = journal_sync (st_journal st) w"

section \<open>Recovery\<close>

record PendingTransaction =
  pt_kind :: MutationKind
  pt_payload :: bytes
  pt_has_payload :: bool
  pt_sequence :: u64

definition new_pending :: PendingTransaction where
  "new_pending = \<lparr>pt_kind = Mu_Unknown, pt_payload = [], pt_has_payload = False, pt_sequence = 0\<rparr>"

text \<open>The state of the replay loop: the document, the transactions still open, the report.\<close>

record Recovery =
  rc_document :: DurableDocument
  rc_pending :: "(u64, PendingTransaction) omap"
  rc_report :: StoreReplay

definition pending_slot :: "u64 \<Rightarrow> Recovery \<Rightarrow> PendingTransaction" where
  "pending_slot x rc = (case map_of (rc_pending rc) x of None \<Rightarrow> new_pending | Some s \<Rightarrow> s)"

definition reject_record :: "Recovery \<Rightarrow> Recovery" where
  "reject_record rc = rc\<lparr>rc_report := (rc_report rc)\<lparr>sr_records_rejected := sr_records_rejected (rc_report rc) + 1\<rparr>\<rparr>"

definition erase_pending :: "u64 \<Rightarrow> Recovery \<Rightarrow> Recovery" where
  "erase_pending x rc = rc\<lparr>rc_pending := om_erase x (rc_pending rc)\<rparr>"

definition set_last_sequence :: "u64 \<Rightarrow> Recovery \<Rightarrow> Recovery" where
  "set_last_sequence n rc = rc\<lparr>rc_document := (rc_document rc)\<lparr>dd_last_sequence := n\<rparr>\<rparr>"

definition replay_intent :: "JournalRecord \<Rightarrow> Recovery \<Rightarrow> Recovery" where
  "replay_intent r rc =
     (case decode_intent_kind (jrec_payload r) of
        None \<Rightarrow> reject_record rc
      | Some kind \<Rightarrow>
          let x = rh_transaction (jrec_header r); slot = pending_slot x rc
          in rc\<lparr>rc_pending := om_put x (slot\<lparr>pt_kind := kind, pt_sequence := rh_sequence (jrec_header r)\<rparr>)
                 (rc_pending rc)\<rparr>)"

definition replay_payload :: "JournalRecord \<Rightarrow> Recovery \<Rightarrow> Recovery" where
  "replay_payload r rc =
     (let x = rh_transaction (jrec_header r);
          slot = (pending_slot x rc)\<lparr>pt_payload := jrec_payload r, pt_has_payload := True\<rparr>
      in rc\<lparr>rc_pending := om_put x
              (if pt_sequence slot = 0 then slot\<lparr>pt_sequence := rh_sequence (jrec_header r)\<rparr> else slot)
              (rc_pending rc)\<rparr>)"

definition replay_commit :: "JournalRecord \<Rightarrow> Recovery \<Rightarrow> Recovery" where
  "replay_commit r rc =
     (let x = rh_transaction (jrec_header r)
      in case map_of (rc_pending rc) x of
          None \<Rightarrow> reject_record rc
        | Some slot \<Rightarrow>
            if \<not> pt_has_payload slot then reject_record rc
            else case unframe_body (pt_payload slot) of
                Inl _ \<Rightarrow> erase_pending x (reject_record rc)
              | Inr (kind, body) \<Rightarrow>
                  (case apply_mutation kind body (rc_document rc) of
                     Inl _ \<Rightarrow> erase_pending x (reject_record rc)
                   | Inr d \<Rightarrow>
                       set_last_sequence (rh_sequence (jrec_header r))
                         (erase_pending x (rc\<lparr>rc_document := d,
                            rc_report := (rc_report rc)\<lparr>sr_records_applied := sr_records_applied (rc_report rc) + 1\<rparr>\<rparr>))))"

definition replay_record :: "JournalRecord \<Rightarrow> Recovery \<Rightarrow> Recovery" where
  "replay_record r rc0 =
     (let rc = rc0\<lparr>rc_report := (rc_report rc0)\<lparr>sr_records_read := sr_records_read (rc_report rc0) + 1\<rparr>\<rparr>;
          h = jrec_header r; type = RecordType (rh_type h)
      in if rh_sequence h \<le> dd_last_sequence (rc_document rc) then
           rc\<lparr>rc_report := (rc_report rc)\<lparr>sr_records_skipped := sr_records_skipped (rc_report rc) + 1\<rparr>\<rparr>
         else if type = Rt_Intent then replay_intent r rc
         else if type = Rt_Payload then replay_payload r rc
         else if type = Rt_Commit then replay_commit r rc
         else if type = Rt_Abort then set_last_sequence (rh_sequence h) (erase_pending (rh_transaction h) rc)
         else if type = Rt_Rebase then set_last_sequence (rh_sequence h) rc
         else if type = Rt_Unknown \<or> type = Rt_Count then reject_record rc
         else rc)"

text \<open>What is left open with a payload becomes an ambiguous attempt of the recovered document.\<close>

definition recover_attempt :: "u64 \<times> PendingTransaction \<Rightarrow> Recovery \<Rightarrow> Recovery" where
  "recover_attempt entry rc =
     (if \<not> pt_has_payload (snd entry) then rc
      else
        let rep = rc_report rc;
            attempt = \<lparr>at_attempt = fst entry, at_transaction = fst entry, at_kind = pt_kind (snd entry),
              at_state = AS_Ambiguous, at_epoch = dd_epoch (rc_document rc), at_generation = 0,
              at_recorded_tick = 0, at_provenance = 0,
              at_detail = ''unfinished attempt recovered from the journal''\<rparr>
        in rc\<lparr>rc_document := (rc_document rc)\<lparr>dd_attempts := dd_attempts (rc_document rc) @ [attempt]\<rparr>,
              rc_report := rep\<lparr>sr_unfinished_attempts := sr_unfinished_attempts rep + 1,
                sr_ambiguous_attempts := sr_ambiguous_attempts rep + 1,
                sr_records_rejected := sr_records_rejected rep + 1\<rparr>\<rparr>)"

definition recover :: "JournalRecord list \<Rightarrow> DurableDocument \<Rightarrow> StoreReplay \<Rightarrow> Recovery" where
  "recover records d rep =
     (let rc = fold replay_record records \<lparr>rc_document = d, rc_pending = [], rc_report = rep\<rparr>
      in fold recover_attempt (rc_pending rc) rc)"

text \<open>Loading the snapshot: a record that cannot be applied ends the loop and marks the snapshot corrupt.\<close>

fun load_records :: "JournalRecord list \<Rightarrow> DurableDocument \<Rightarrow> StoreReplay \<Rightarrow> DurableDocument \<times> StoreReplay" where
  "load_records [] d rep = (d, rep)"
| "load_records (r # rs) d rep =
     (let bad = rep\<lparr>sr_snapshot_corrupt := True, sr_integrity_failure := True\<rparr>
      in case unframe_body (jrec_payload r) of
          Inl _ \<Rightarrow> (d, bad)
        | Inr (kind, body) \<Rightarrow>
            (case apply_mutation kind body d of
               Inl _ \<Rightarrow> (d, bad)
             | Inr d' \<Rightarrow> load_records rs d' rep))"

definition open_snapshot_options :: "StoreOptions \<Rightarrow> SnapshotOptions" where
  "open_snapshot_options opts =
     \<lparr>so_max_bytes = kMaxSnapshotBytes,
      so_max_records = sp_max_history_entries opts + sp_max_domains opts + sp_max_intervention_records opts +
        sp_max_fences opts + sp_max_attempts opts + sp_max_provenance opts + 8,
      so_sync = True\<rparr>"

definition load_snapshot ::
  "string \<Rightarrow> StoreOptions \<Rightarrow> World \<Rightarrow> (DurableDocument \<times> StoreReplay) result \<times> World" where
  "load_snapshot p opts w0 =
     (case fs_exists p w0 of
        (None, w1) \<Rightarrow> (Inl Err_IoError, w1)
      | (Some False, w1) \<Rightarrow> (Inr (empty_document, empty_report), w1)
      | (Some True, w1) \<Rightarrow>
          let rep = empty_report\<lparr>sr_snapshot_present := True\<rparr>
          in case read_snapshot p (open_snapshot_options opts) w1 of
              (Inl e, w2) \<Rightarrow>
                if \<not> sp_tolerate_corrupt_snapshot opts then (Inl e, w2)
                else (Inr (empty_document, rep\<lparr>sr_snapshot_corrupt := True, sr_integrity_failure := True\<rparr>), w2)
            | (Inr contents, w2) \<Rightarrow>
                let h = sc_header contents;
                    (d, rep1) = load_records (sc_records contents)
                      (empty_document\<lparr>dd_last_sequence := sh_last_sequence h, dd_epoch := sh_epoch h,
                         dd_coordinator_boot := sh_coordinator_boot h,
                         dd_coordinator_boot_counter := sh_coordinator_boot_counter h\<rparr>) rep
                in (Inr (d, rep1\<lparr>sr_snapshot_loaded := \<not> sr_snapshot_corrupt rep1\<rparr>), w2))"

definition store_journal_options :: "StoreOptions \<Rightarrow> JournalOptions" where
  "store_journal_options opts =
     \<lparr>jo_max_record_bytes = kMaxJournalRecordBytes, jo_max_journal_bytes = kMaxJournalBytes,
      jo_sync_on_append = sp_sync_on_append opts, jo_read_only = sp_read_only opts\<rparr>"

text \<open>Cutting a torn tail, or only reporting it when the store is read-only.\<close>

definition cut_torn_tail ::
  "StoreOptions \<Rightarrow> JournalReplay \<Rightarrow> Journal \<Rightarrow> StoreReplay \<Rightarrow> World \<Rightarrow> (Journal \<times> StoreReplay) result \<times> World" where
  "cut_torn_tail opts rp j rep w0 =
     (if jr_status rp \<noteq> Rs_TruncatedTail then (Inr (j, rep), w0)
      else
        let torn = rep\<lparr>sr_torn_bytes := jr_dropped_bytes rp, sr_integrity_failure := True\<rparr>
        in if sp_read_only opts then (Inr (j, torn), w0)
           else case truncate_to (of_nat (jr_valid_bytes rp)) j w0 of
               (Inl e, _, w1) \<Rightarrow> (Inl e, w1)
             | (Inr _, j1, w1) \<Rightarrow> (Inr (j1, torn\<lparr>sr_journal_truncated := True\<rparr>), w1))"

definition store_open :: "string \<Rightarrow> StoreOptions \<Rightarrow> World \<Rightarrow> Store result \<times> World" where
  "store_open directory opts w0 =
     (if directory = [] then (Inl Err_InvalidArgument, w0)
      else
        let (made, w1) = fs_create_directories w0;
            journal_path = directory @ ''/ncf.journal'';
            snapshot_path = directory @ ''/ncf.snapshot''
        in if \<not> made then (Inl Err_IoError, w1)
           else case load_snapshot snapshot_path opts w1 of
               (Inl e, w2) \<Rightarrow> (Inl e, w2)
             | (Inr (d, rep), w2) \<Rightarrow>
           (case journal_open journal_path (store_journal_options opts) w2 of
               (Inl e, w3) \<Rightarrow> (Inl e, w3)
             | (Inr j, w3) \<Rightarrow>
           (case journal_replay j w3 of
               (Inl e, w4) \<Rightarrow> (Inl e, w4)
             | (Inr rp, w4) \<Rightarrow>
                 if jr_status rp = Rs_Corrupt then (Inl Err_Corrupt, w4)
                 else
                   let rc = recover (jr_records rp) d
                         (rep\<lparr>sr_journal_present := True, sr_journal_status := jr_status rp\<rparr>);
                       d1 = rc_document rc;
                       j1 = resume_sequence (dd_last_sequence d1 + 1) j
                   in case cut_torn_tail opts rp j1 (rc_report rc) w4 of
                       (Inl e, w5) \<Rightarrow> (Inl e, w5)
                     | (Inr (j2, rep2), w5) \<Rightarrow>
                         (Inr \<lparr>st_directory = directory, st_journal_path = journal_path,
                               st_snapshot_path = snapshot_path, st_options = opts, st_journal = j2,
                               st_document = d1,
                               st_report = rep2\<lparr>sr_last_epoch := dd_epoch d1, sr_last_sequence := dd_last_sequence d1\<rparr>,
                               st_pruned_records = 0, st_open = True\<rparr>, w5))))"

section \<open>Compaction\<close>

definition checkpoint_record :: "u64 \<Rightarrow> MutationKind \<Rightarrow> bytes \<Rightarrow> u64 \<Rightarrow> JournalRecord" where
  "checkpoint_record epoch kind body sequence =
     \<lparr>jrec_header = default_record_header\<lparr>rh_format := kFormatVersion, rh_type := rt_u16 Rt_Payload,
        rh_sequence := sequence, rh_epoch := epoch\<rparr>,
      jrec_payload = frame_body kind body\<rparr>"

fun collect :: "'a result list \<Rightarrow> 'a list result" where
  "collect [] = Inr []"
| "collect (Inl e # rs) = Inl e"
| "collect (Inr a # rs) = (case collect rs of Inl e \<Rightarrow> Inl e | Inr as \<Rightarrow> Inr (a # as))"

definition with_kind :: "MutationKind \<Rightarrow> bytes result \<Rightarrow> (MutationKind \<times> bytes) result" where
  "with_kind kind r = (case r of Inl e \<Rightarrow> Inl e | Inr body \<Rightarrow> Inr (kind, body))"

text \<open>The bodies \<^verbatim>\<open>checkpoint\<close> pushes, in its order; the first that does not encode ends it.\<close>

definition document_bodies :: "DurableDocument \<Rightarrow> (MutationKind \<times> bytes) list result" where
  "document_bodies d = collect (
     (case dd_policy d of None \<Rightarrow> [] | Some p \<Rightarrow> [with_kind Mu_PolicySet (encode_policy p)]) @
     (case dd_topology d of None \<Rightarrow> [] | Some t \<Rightarrow> [with_kind Mu_TopologySet (encode_topology t)]) @
     (case dd_capacity d of None \<Rightarrow> [] | Some c \<Rightarrow> [with_kind Mu_CapacitySet (encode_capacity c)]) @
     (if id_valid (dd_epoch d) \<and> id_valid (dd_coordinator_boot d)
      then [with_kind Mu_EpochAdvance
              (encode_epoch (dd_epoch d) (dd_coordinator_boot d) (dd_coordinator_boot_counter d))] else []) @
     map (\<lambda>s. with_kind Mu_DomainState (encode_domain_state s)) (dd_domains d) @
     map (\<lambda>r. with_kind Mu_Intervention (encode_intervention r)) (dd_interventions d) @
     map (\<lambda>r. with_kind Mu_Fence (encode_fence r)) (dd_fences d) @
     map (\<lambda>h. with_kind Mu_HistoryAppend (encode_history h)) (dd_history d) @
     map (\<lambda>r. with_kind Mu_AttemptRecord (encode_attempt r)) (dd_attempts d) @
     map (\<lambda>p. with_kind Mu_ProvenanceAppend (encode_provenance p)) (dd_provenance d) @
     map (\<lambda>r. with_kind Mu_Revalidation (encode_revalidation r)) (dd_revalidations d))"

definition checkpoint_records :: "DurableDocument \<Rightarrow> JournalRecord list result" where
  "checkpoint_records d =
     (case document_bodies d of
        Inl e \<Rightarrow> Inl e
      | Inr bodies \<Rightarrow>
          Inr (map (\<lambda>(i, kind, body). checkpoint_record (dd_epoch d) kind body (of_nat i)) (enumerate 1 bodies)))"

fun validate_records :: "JournalRecord list \<Rightarrow> void_result" where
  "validate_records [] = Inr ()"
| "validate_records (r # rs) =
     (case unframe_body (jrec_payload r) of
        Inl e \<Rightarrow> Inl e
      | Inr (kind, body) \<Rightarrow>
          (case validate_body kind body of Inl e \<Rightarrow> Inl e | Inr _ \<Rightarrow> validate_records rs))"

fun scratch_document :: "JournalRecord list \<Rightarrow> DurableDocument \<Rightarrow> DurableDocument result" where
  "scratch_document [] d = Inr d"
| "scratch_document (r # rs) d =
     (case unframe_body (jrec_payload r) of
        Inl e \<Rightarrow> Inl e
      | Inr (kind, body) \<Rightarrow>
          (case apply_mutation kind body d of Inl _ \<Rightarrow> Inl Err_IntegrityFailure | Inr d' \<Rightarrow> scratch_document rs d'))"

definition checkpoint_header :: "DurableDocument \<Rightarrow> SnapshotHeader" where
  "checkpoint_header d =
     \<lparr>sh_magic = kSnapshotMagic, sh_format = 0, sh_reserved = 0, sh_header_crc = 0, sh_reserved2 = 0,
      sh_epoch = dd_epoch d, sh_coordinator_boot = dd_coordinator_boot d,
      sh_coordinator_boot_counter = dd_coordinator_boot_counter d, sh_last_sequence = dd_last_sequence d,
      sh_record_count = 0, sh_payload_bytes = 0, sh_payload_crc = 0, sh_reserved3 = 0\<rparr>"

definition checkpoint :: "Store \<Rightarrow> World \<Rightarrow> void_result \<times> Store \<times> World" where
  "checkpoint st w0 =
     (if \<not> st_open st then (Inl Err_Closed, st, w0)
      else
        let d = st_document st
        in case checkpoint_records d of
            Inl e \<Rightarrow> (Inl e, st, w0)
          | Inr records \<Rightarrow>
        (case validate_records records of
            Inl e \<Rightarrow> (Inl e, st, w0)
          | Inr _ \<Rightarrow>
        (let opts = \<lparr>so_max_bytes = kMaxSnapshotBytes, so_max_records = of_nat (length records) + 1,
                     so_sync = sp_sync_on_append (st_options st)\<rparr>
         in case write_snapshot (st_snapshot_path st) (checkpoint_header d) records opts w0 of
            (Inl e, w1) \<Rightarrow> (Inl e, st, w1)
          | (Inr _, w1) \<Rightarrow>
        (case read_snapshot (st_snapshot_path st) opts w1 of
            (Inl e, w2) \<Rightarrow> (Inl e, st, w2)
          | (Inr verified, w2) \<Rightarrow>
              if length (sc_records verified) \<noteq> length records then (Inl Err_IntegrityFailure, st, w2)
              else case scratch_document (sc_records verified) empty_document of
                  Inl e \<Rightarrow> (Inl e, st, w2)
                | Inr scratch \<Rightarrow>
                    if (dd_policy scratch = None) \<noteq> (dd_policy d = None) \<or>
                       length (dd_domains scratch) \<noteq> length (dd_domains d) \<or>
                       length (dd_fences scratch) \<noteq> length (dd_fences d)
                    then (Inl Err_IntegrityFailure, st, w2)
                    else let (res, j, w3) = rebase (dd_epoch d) (dd_authority_generation d) (st_journal st) w2
                         in (res, st\<lparr>st_journal := j\<rparr>, w3)))))"

end
