(* ===== verification/NCF_Recovery.thy ===== *)
theory NCF_Recovery
  imports NCF_Store
begin

text \<open>
  Crash recovery of the durable store. Mutations are specified as updates of the document; a commit is
  three appends to the journal, and the replay of what a crash leaves of them applies the mutation as a
  whole or not at all. The main theorem composes this over a run of commits under I/O faults.
\<close>

section \<open>Mutations as a specification\<close>

text \<open>A decoded body is one of eleven updates of the document.\<close>

datatype DocUpdate =
    U_Policy CongestionPolicy | U_Topology TopologySnapshot | U_Capacity CapacitySnapshot
  | U_Domain DomainState | U_Intervention InterventionRecord | U_Fence FenceRecord
  | U_Epoch "EpochId \<times> BootId \<times> u64" | U_Revalidation RevalidationRecord | U_History HistoryEntry
  | U_Attempt AttemptRecord | U_Provenance Provenance

definition decode_update :: "MutationKind \<Rightarrow> bytes \<Rightarrow> DocUpdate result" where
  "decode_update k b =
     (if k = Mu_PolicySet then map_sum id U_Policy (decode_policy b)
      else if k = Mu_TopologySet then map_sum id U_Topology (decode_topology b)
      else if k = Mu_CapacitySet then map_sum id U_Capacity (decode_capacity b)
      else if k = Mu_DomainState then map_sum id U_Domain (decode_domain_state b)
      else if k = Mu_Intervention then map_sum id U_Intervention (decode_intervention b)
      else if k = Mu_Fence then map_sum id U_Fence (decode_fence b)
      else if k = Mu_EpochAdvance then map_sum id U_Epoch (decode_epoch b)
      else if k = Mu_Revalidation then map_sum id U_Revalidation (decode_revalidation b)
      else if k = Mu_HistoryAppend then map_sum id U_History (decode_history b)
      else if k = Mu_AttemptRecord then map_sum id U_Attempt (decode_attempt b)
      else if k = Mu_ProvenanceAppend then map_sum id U_Provenance (decode_provenance b)
      else Inl Err_Malformed)"

definition append_new :: "('a \<Rightarrow> 'b) \<Rightarrow> 'a \<Rightarrow> 'a list \<Rightarrow> 'a list" where
  "append_new key x xs = (if \<exists>y \<in> set xs. key y = key x then xs else xs @ [x])"

fun perform :: "DocUpdate \<Rightarrow> DurableDocument \<Rightarrow> DurableDocument" where
  "perform (U_Policy p) d = d\<lparr>dd_policy := Some p\<rparr>"
| "perform (U_Topology t) d = d\<lparr>dd_topology := Some t\<rparr>"
| "perform (U_Capacity c) d = d\<lparr>dd_capacity := Some c\<rparr>"
| "perform (U_Domain s) d = d\<lparr>dd_domains := upsert_domain s (dd_domains d)\<rparr>"
| "perform (U_Intervention r) d = d\<lparr>dd_interventions := append_new ic_id r (dd_interventions d)\<rparr>"
| "perform (U_Fence r) d = d\<lparr>dd_fences := append_new fe_id r (dd_fences d)\<rparr>"
| "perform (U_Epoch e) d =
     d\<lparr>dd_epoch := fst e, dd_coordinator_boot := fst (snd e), dd_coordinator_boot_counter := snd (snd e)\<rparr>"
| "perform (U_Revalidation r) d = d\<lparr>dd_revalidations := dd_revalidations d @ [r]\<rparr>"
| "perform (U_History h) d = d\<lparr>dd_history := dd_history d @ [h]\<rparr>"
| "perform (U_Attempt r) d = d\<lparr>dd_attempts := dd_attempts d @ [r]\<rparr>"
| "perform (U_Provenance r) d = d\<lparr>dd_provenance := append_new pv_id r (dd_provenance d)\<rparr>"

lemma case_map_sum: "(case r of Inl e \<Rightarrow> Inl e | Inr a \<Rightarrow> Inr (f a)) = map_sum id f r"
  by (cases r) simp_all

lemma map_sum_id_id [simp]: "map_sum id f (map_sum id g r) = map_sum id (f \<circ> g) r"
  by (simp add: sum.map_comp)

lemma dd_same:
  "d\<lparr>dd_interventions := dd_interventions d\<rparr> = d" "d\<lparr>dd_fences := dd_fences d\<rparr> = d" "d\<lparr>dd_provenance := dd_provenance d\<rparr> = d"
  by simp_all

lemma apply_mutation_perform: "apply_mutation k b d = map_sum id (\<lambda>u. perform u d) (decode_update k b)"
proof -
  have *: "(if \<exists>x\<in>set (dd_interventions d). ic_id x = ic_id r then d else d\<lparr>dd_interventions := dd_interventions d @ [r]\<rparr>) =
      perform (U_Intervention r) d" for r
    by (simp add: append_new_def)
  have **: "(if \<exists>x\<in>set (dd_fences d). fe_id x = fe_id f then d else d\<lparr>dd_fences := dd_fences d @ [f]\<rparr>) =
      perform (U_Fence f) d" for f
    by (simp add: append_new_def)
  have ***: "(if \<exists>x\<in>set (dd_provenance d). pv_id x = pv_id p then d else d\<lparr>dd_provenance := dd_provenance d @ [p]\<rparr>) =
      perform (U_Provenance p) d" for p
    by (simp add: append_new_def)
  show ?thesis
    unfolding apply_mutation_def decode_update_def * ** *** case_map_sum if_distrib [of "map_sum id (\<lambda>u. perform u d)"]
      map_sum_id_id comp_def perform.simps(1-4,7-10)
    by (intro if_cong refl) (simp_all add: case_map_sum split: sum.splits)
qed

lemma decoded_ok_map: "decoded_ok r = map_sum id (\<lambda>_. ()) r"
  by (cases r) (simp_all add: decoded_ok_def)

lemma validate_body_update: "validate_body k b = map_sum id (\<lambda>_. ()) (decode_update k b)"
  unfolding validate_body_def decode_update_def decoded_ok_map if_distrib [of "map_sum id (\<lambda>_. ())"] map_sum_id_id comp_def
  by simp

text \<open>The document after a list of mutations; the bookkeeping of the commit protocol is not content.\<close>

definition apply_or_keep :: "MutationKind \<times> bytes \<Rightarrow> DurableDocument \<Rightarrow> DurableDocument" where
  "apply_or_keep m d = (case apply_mutation (fst m) (snd m) d of Inl _ \<Rightarrow> d | Inr d' \<Rightarrow> d')"

definition committed :: "(MutationKind \<times> bytes) list \<Rightarrow> DurableDocument \<Rightarrow> DurableDocument" where
  "committed ms d = fold apply_or_keep ms d"

definition content :: "DurableDocument \<Rightarrow> DurableDocument" where
  "content d = d\<lparr>dd_last_sequence := 0, dd_authority_generation := 0, dd_mutation_count := 0\<rparr>"

lemma content_simps [simp]:
  "content (content d) = content d"
  "content (d\<lparr>dd_last_sequence := a\<rparr>) = content d"
  "content (d\<lparr>dd_authority_generation := b\<rparr>) = content d"
  "content (d\<lparr>dd_mutation_count := c\<rparr>) = content d"
  by (simp_all add: content_def)

lemma perform_content: "content (perform u d) = perform u (content d)"
  by (cases u) (simp_all add: content_def)

lemma perform_last_sequence [simp]: "dd_last_sequence (perform u d) = dd_last_sequence d"
  by (cases u) simp_all

lemma apply_mutation_same_content:
  assumes "apply_mutation k b d = Inr d'" and "content d = content e"
  shows "\<exists>e'. apply_mutation k b e = Inr e' \<and> content e' = content d' \<and> dd_last_sequence e' = dd_last_sequence e"
  using assms by (cases "decode_update k b") (auto simp: apply_mutation_perform perform_content)

text \<open>A body that validates applies to every document.\<close>

lemma validate_body_applies: "validate_body k b = Inr () \<Longrightarrow> \<exists>d'. apply_mutation k b d = Inr d'"
  by (cases "decode_update k b") (simp_all add: validate_body_update apply_mutation_perform)

lemma unframe_frame: "k \<noteq> Mu_Unknown \<Longrightarrow> k \<noteq> Mu_Count \<Longrightarrow> unframe_body (frame_body k b) = Inr (k, b)"
  by (cases k) (simp add: unframe_body_def frame_body_def field_at_def kMutationPrefix_def)

lemma decode_intent_body: "k \<noteq> Mu_Unknown \<Longrightarrow> k \<noteq> Mu_Count \<Longrightarrow> decode_intent_kind (intent_body k s) = Some k"
  by (cases k) (simp add: decode_intent_kind_def intent_body_def field_at_def kMutationPrefix_def)

subsection \<open>Bounded retention\<close>

definition under :: "u64 \<Rightarrow> 'a list \<Rightarrow> bool" where
  "under limit xs \<longleftrightarrow> limit = 0 \<or> length xs \<le> unat limit"

definition fits :: "StoreOptions \<Rightarrow> DurableDocument \<Rightarrow> bool" where
  "fits opts d \<longleftrightarrow>
     under (sp_max_history_entries opts) (dd_history d) \<and>
     under (sp_max_intervention_records opts) (dd_interventions d) \<and> under (sp_max_fences opts) (dd_fences d) \<and>
     under (sp_max_attempts opts) (dd_attempts d) \<and> under (sp_max_provenance opts) (dd_provenance d) \<and>
     under (sp_max_attempts opts) (dd_revalidations d)"

lemma trim_under: "under limit xs \<Longrightarrow> trim limit xs = (xs, 0)"
  by (auto simp: trim_def under_def)

lemma prune_fits: "fits opts d \<Longrightarrow> prune_document opts d = (d, 0)"
  by (simp add: prune_document_def fits_def trim_under)

lemma fits_content [simp]: "fits opts (content d) = fits opts d"
  by (simp add: fits_def content_def)

lemma under_append: "under n (xs @ ys) \<Longrightarrow> under n xs" "under n (append_new key x xs) \<Longrightarrow> under n xs"
  by (auto simp: under_def append_new_def split: if_splits)

lemma perform_fits: "fits opts (perform u d) \<Longrightarrow> fits opts d"
  by (cases u) (auto simp: fits_def dest: under_append)

lemma apply_fits: "fits opts (apply_or_keep m d) \<Longrightarrow> fits opts d"
  by (cases "decode_update (fst m) (snd m)") (auto simp: apply_or_keep_def apply_mutation_perform dest: perform_fits)

lemma committed_fits: "fits opts (committed ms d) \<Longrightarrow> fits opts d"
  unfolding committed_def by (induction ms arbitrary: d) (auto intro: apply_fits)

section \<open>The journal under a commit\<close>

definition txn_entries :: "MutationKind \<Rightarrow> bytes \<Rightarrow> MutationStamp \<Rightarrow> TransactionId \<Rightarrow> Entry list" where
  "txn_entries k b s x =
     [(Rt_Intent, ms_epoch s, ms_generation s, x, intent_body k s),
      (Rt_Payload, ms_epoch s, ms_generation s, x, frame_body k b),
      (Rt_Commit, ms_epoch s, ms_generation s, x, commit_body k (frame_body k b))]"

definition txn_records :: "MutationKind \<Rightarrow> bytes \<Rightarrow> MutationStamp \<Rightarrow> u64 \<Rightarrow> JournalRecord list" where
  "txn_records k b s x = numbered x (txn_entries k b s x)"

lemma length_txn_records [simp]: "length (txn_records k b s x) = 3"
  by (simp add: txn_records_def txn_entries_def)

definition accepts :: "MutationKind \<Rightarrow> bytes \<Rightarrow> Store \<Rightarrow> bool" where
  "accepts k b st \<longleftrightarrow> st_open st \<and> k \<noteq> Mu_Unknown \<and> k \<noteq> Mu_Count \<and>
     length b + kMutationPrefix \<le> unat kMaxJournalRecordBytes \<and> enforce_growth_limits k st = Inr () \<and>
     validate_body k b = Inr ()"

lemma commit_refused: "\<not> accepts k b st \<Longrightarrow> \<exists>e. commit k b s st w = (Inl e, st, w)"
  by (auto simp: accepts_def commit_def split: sum.splits)

text \<open>Otherwise a commit is its three appends, and the update of the document when all are acknowledged.\<close>

lemma commit_appends:
  assumes "accepts k b st"
    and "append_run (txn_entries k b s (jn_next_sequence (st_journal st))) (st_journal st) w = (n, j', w')"
  shows "if n = 3 then
      \<exists>d. apply_mutation k b (st_document st) = Inr d \<and>
        commit k b s st w = (Inr (),
          let (d2, pruned) = prune_document (st_options st)
                (d\<lparr>dd_last_sequence := jn_next_sequence j' - 1, dd_authority_generation := ms_generation s,
                   dd_mutation_count := dd_mutation_count d + 1\<rparr>)
          in st\<lparr>st_journal := j', st_document := d2, st_pruned_records := st_pruned_records st + pruned\<rparr>, w')
    else n < 3 \<and> (\<exists>e. commit k b s st w = (Inl e, st\<lparr>st_journal := j'\<rparr>, w'))"
proof -
  obtain d where "apply_mutation k b (st_document st) = Inr d"
    using assms(1) validate_body_applies [of k b "st_document st"] by (auto simp: accepts_def)
  with assms show ?thesis
    by (auto simp: accepts_def commit_def txn_entries_def Let_def split: prod.splits sum.splits)
qed

lemma append_run_all:
  "journal_at log j w \<Longrightarrow> list_all entry_ok es \<Longrightarrow> append_run es j w = (length es, j', w') \<Longrightarrow>
   journal_at (log @ numbered (jn_next_sequence j) es) j' w' \<and>
   jn_next_sequence j' = jn_next_sequence j + of_nat (length es) \<and> jn_path j' = jn_path j \<and> jn_options j' = jn_options j"
proof (induction es arbitrary: log j w)
  case (Cons entry es)
  obtain t e g x payload where entry: "entry = (t, e, g, x, payload)" by (cases entry)
  obtain res j1 w1 where out: "journal_append t e g x payload j w = (res, j1, w1)" by (metis prod_cases3)
  have o: "append_outcome log (appended t e g x payload (jn_next_sequence j)) j (res, j1, w1)"
    using journal_append_outcome [OF Cons.prems(1), of payload t e g x] Cons.prems(2)
    by (simp add: out entry entry_ok_def)
  have "res = Inr ()" "append_run es j1 w1 = (length es, j', w')"
    using Cons.prems(3) by (auto simp: entry out split: sum.splits prod.splits)
  with o Cons.IH [of "log @ [appended t e g x payload (jn_next_sequence j)]" j1 w1] Cons.prems(2)
  show ?case by (simp add: append_outcome_def entry add.assoc)
qed simp

lemma append_run_same:
  "journal_at log j w \<Longrightarrow> list_all entry_ok es \<Longrightarrow> append_run es j w = (n, j', w') \<Longrightarrow>
   jn_path j' = jn_path j \<and> jn_options j' = jn_options j"
proof (induction es arbitrary: log j w n)
  case (Cons entry es)
  obtain t e g x payload where entry: "entry = (t, e, g, x, payload)" by (cases entry)
  obtain res j1 w1 where out: "journal_append t e g x payload j w = (res, j1, w1)" by (metis prod_cases3)
  have o: "append_outcome log (appended t e g x payload (jn_next_sequence j)) j (res, j1, w1)"
    using journal_append_outcome [OF Cons.prems(1), of payload t e g x] Cons.prems(2)
    by (simp add: out entry entry_ok_def)
  obtain m j2 w2 where run: "append_run es j1 w1 = (m, j2, w2)" by (metis prod_cases3)
  show ?case
    using o Cons.IH [of "log @ [appended t e g x payload (jn_next_sequence j)]" j1 w1 m] Cons.prems(2,3) run
    by (cases res) (auto simp: append_outcome_def entry out)
qed simp

lemma txn_entries_ok: "accepts k b st \<Longrightarrow> list_all entry_ok (txn_entries k b s x)"
  by (simp add: accepts_def txn_entries_def entry_ok_def intent_body_def commit_body_def frame_body_def
      kMutationPrefix_def kMaxJournalRecordBytes_def)

section \<open>Opening what a crash left\<close>

lemma fwrite_frame: "fwrite data sm w = (n, sm', w') \<Longrightarrow> q \<noteq> sm_path sm \<Longrightarrow> wd_files w' q = wd_files w q \<and> sm_path sm' = sm_path sm"
  by (auto simp: fwrite_def Let_def take_outcome_files split: prod.splits option.splits)

lemma write_all_frame:
  "write_all bs j w = (res, j', w') \<Longrightarrow> jn_file j = Some sm \<Longrightarrow> q \<noteq> sm_path sm \<Longrightarrow>
   wd_files w' q = wd_files w q \<and> (\<exists>sm'. jn_file j' = Some sm' \<and> sm_path sm' = sm_path sm)"
  by (auto simp: write_all_def Let_def split: prod.splits if_splits dest: fwrite_frame)

lemma journal_sync_frame:
  assumes "journal_sync j w = (res, w')" and "jn_file j = Some sm" and "q \<noteq> sm_path sm"
  shows "wd_files w' q = wd_files w q"
proof -
  obtain o1 w1 where o1: "take_outcome w = (o1, w1)" by (cases "take_outcome w")
  obtain o2 w2 where o2: "take_outcome w1 = (o2, w2)" by (cases "take_outcome w1")
  show ?thesis
    using assms o1 o2 wd_files_take_outcome [of w] wd_files_take_outcome [of w1]
    by (auto simp: journal_sync_def flush_stream_def fflush_def fsync_def split: if_splits)
qed

lemma write_record_frame:
  assumes "write_record header payload j w = (res, j', w')" and "jn_file j = Some sm" and "q \<noteq> sm_path sm"
  shows "wd_files w' q = wd_files w q \<and> (\<exists>sm'. jn_file j' = Some sm' \<and> sm_path sm' = sm_path sm)"
proof -
  obtain r1 j1 w1 where s1: "write_all header j w = (r1, j1, w1)" by (metis prod_cases3)
  from write_all_frame [OF s1 assms(2,3)] obtain sm1 where
    f1: "wd_files w1 q = wd_files w q" "jn_file j1 = Some sm1" "sm_path sm1 = sm_path sm" by blast
  with assms s1 show ?thesis
    using write_all_frame [of payload j1 w1 res j' w' sm1 q] by (auto simp: write_record_def split: sum.splits)
qed

lemma journal_append_frame:
  assumes "journal_append t e g x payload j w = (res, j', w')" and "jn_file j = Some sm" and "q \<noteq> sm_path sm"
  shows "wd_files w' q = wd_files w q"
proof -
  let ?h = "encode_header (append_header t e g x payload (jn_next_sequence j))"
  obtain r1 j1 w1 where s1: "write_record ?h payload j w = (r1, j1, w1)" by (metis prod_cases3)
  from write_record_frame [OF s1 assms(2,3)] obtain sm1 where
    f1: "wd_files w1 q = wd_files w q" "jn_file j1 = Some sm1" "sm_path sm1 = sm_path sm" by blast
  have *: "wd_files w2 q = wd_files w1 q" if "journal_sync (j1\<lparr>jn_size := a, jn_next_sequence := b\<rparr>) w1 = (r, w2)" for a b r w2
    using journal_sync_frame [OF that, of sm1 q] f1 assms(3) by simp
  show ?thesis
    using assms(1,2) s1 f1 *
    by (auto simp: journal_append_def Let_def split: if_splits sum.splits prod.splits)
qed

lemma append_run_frame:
  "journal_at log j w \<Longrightarrow> list_all entry_ok es \<Longrightarrow> append_run es j w = (n, j', w') \<Longrightarrow> q \<noteq> jn_path j \<Longrightarrow>
   wd_files w' q = wd_files w q"
proof (induction es arbitrary: log j w n)
  case (Cons entry es)
  obtain t e g x payload where entry: "entry = (t, e, g, x, payload)" by (cases entry)
  obtain res j1 w1 where out: "journal_append t e g x payload j w = (res, j1, w1)" by (metis prod_cases3)
  have o: "append_outcome log (appended t e g x payload (jn_next_sequence j)) j (res, j1, w1)"
    using journal_append_outcome [OF Cons.prems(1), of payload t e g x] Cons.prems(2)
    by (simp add: out entry entry_ok_def)
  have f: "wd_files w1 q = wd_files w q"
    using journal_append_frame [OF out] Cons.prems(1,4) by (auto simp: journal_at_def holds_def)
  obtain m j2 w2 where run: "append_run es j1 w1 = (m, j2, w2)" by (metis prod_cases3)
  show ?case
    using o f Cons.IH [of "log @ [appended t e g x payload (jn_next_sequence j)]" j1 w1 m] Cons.prems(2-4) run
    by (cases res) (auto simp: append_outcome_def entry out)
qed simp

lemma journal_open_ok:
  assumes "wd_script w = []" and "wd_files w p = Some f" and "p \<noteq> []" and "\<not> jo_read_only opts"
  shows "\<exists>j. journal_open p opts w = (Inr j, w) \<and> jn_path j = p \<and> jn_options j = opts \<and> jn_file j \<noteq> None \<and>
    (\<forall>sm. jn_file j = Some sm \<longrightarrow> sm_path sm = p) \<and> jn_size j = of_nat (length (fl_bytes f)) \<and> jn_next_sequence j = 1"
  using assms
  by (auto simp: journal_open_def fs_create_directories_def fs_exists_def fopen_def fseek_end_def io_simps
      file_bytes_def Let_def)

lemma truncate_to_ok:
  assumes "wd_script w = []" and "\<not> jo_read_only (jn_options j)" and "jn_file j \<noteq> None" and "v \<le> jn_size j"
  shows "\<exists>j' w'. truncate_to v j w = (Inr (), j', w')"
  using assms
  by (auto simp: truncate_to_def fflush_def ftruncate_def seek_stream_def fseek_set_def journal_sync_def io_simps
      Let_def not_less)

lemma replay_valid_le: "jr_valid_bytes (replay_data opts data) \<le> length data"
  using replay_loop_sound [of opts data "new_replay\<lparr>jr_file_bytes := length data\<rparr>"]
  by (auto simp: replay_data_def Let_def new_replay_def)

lemma journal_replay_same: "jn_path j = jn_path j' \<Longrightarrow> jn_options j = jn_options j' \<Longrightarrow> journal_replay j w = journal_replay j' w"
  by (simp add: journal_replay_def cong: sum.case_cong prod.case_cong)

lemma store_open_recovers:
  assumes script: "wd_script w = []" and dir: "dir \<noteq> []" and rw: "\<not> sp_read_only opts"
    and snap: "load_snapshot (dir @ ''/ncf.snapshot'') opts w = (Inr (d, rep), w)"
    and there: "wd_files w (dir @ ''/ncf.journal'') = Some f"
    and j: "jn_path j = dir @ ''/ncf.journal''" "jn_options j = store_journal_options opts"
    and replay: "journal_replay j w = (Inr rp, w)" "jr_status rp \<noteq> Rs_Corrupt" "jr_valid_bytes rp \<le> length (fl_bytes f)"
    and len: "length (fl_bytes f) < 2 ^ 64"
  shows "\<exists>st w'. store_open dir opts w = (Inr st, w') \<and>
    st_document st = rc_document (recover (jr_records rp) d (rep\<lparr>sr_journal_present := True, sr_journal_status := jr_status rp\<rparr>))"
proof -
  let ?p = "dir @ ''/ncf.journal''" and ?jo = "store_journal_options opts"
  let ?rc = "recover (jr_records rp) d (rep\<lparr>sr_journal_present := True, sr_journal_status := jr_status rp\<rparr>)"
  have ro: "\<not> jo_read_only ?jo" using rw by (simp add: store_journal_options_def)
  from journal_open_ok [OF script there _ ro] obtain j0 where
    j0: "journal_open ?p ?jo w = (Inr j0, w)" "jn_path j0 = ?p" "jn_options j0 = ?jo" "jn_file j0 \<noteq> None"
      "jn_size j0 = of_nat (length (fl_bytes f))" by auto
  have rep0: "journal_replay j0 w = (Inr rp, w)" using journal_replay_same [of j0 j w] j0(2,3) j replay(1) by simp
  let ?j1 = "resume_sequence (dd_last_sequence (rc_document ?rc) + 1) j0"
  have j1: "jn_options ?j1 = ?jo" "jn_file ?j1 = jn_file j0" "jn_size ?j1 = jn_size j0"
    using j0 by (simp_all add: resume_sequence_def)
  have "of_nat (jr_valid_bytes rp) \<le> jn_size j0"
    using replay(3) len by (simp add: j0(5) word_le_nat_alt unat_of_nat)
  then obtain j2 w2 where "truncate_to (of_nat (jr_valid_bytes rp)) ?j1 w = (Inr (), j2, w2)"
    using truncate_to_ok [OF script, of ?j1] ro j0(4) unfolding j1 by blast
  then have "\<exists>j2 rep2 w2. cut_torn_tail opts rp ?j1 (rc_report ?rc) w = (Inr (j2, rep2), w2)"
    using rw by (auto simp: cut_torn_tail_def Let_def)
  moreover have "fs_create_directories w = (True, w)" using script by (simp add: fs_create_directories_def io_simps)
  ultimately show ?thesis
    using dir replay(2) by (auto simp: store_open_def snap j0(1) rep0 Let_def)
qed

section \<open>Replaying transactions\<close>

lemma appended_fields [simp]:
  "RecordType (rh_type (jrec_header (appended t e g x b n))) = t"
  "rh_sequence (jrec_header (appended t e g x b n)) = n"
  "rh_transaction (jrec_header (appended t e g x b n)) = x"
  "jrec_payload (appended t e g x b n) = b"
  by (simp_all add: appended_def append_header_def Let_def)

text \<open>Between transactions nothing is pending; the report does not matter.\<close>

definition settled :: "DurableDocument \<Rightarrow> Recovery \<Rightarrow> bool" where
  "settled d rc \<longleftrightarrow> rc_pending rc = [] \<and> rc_document rc = d"

definition opened :: "u64 \<Rightarrow> bool \<Rightarrow> DurableDocument \<Rightarrow> MutationKind \<Rightarrow> bytes \<Rightarrow> Recovery \<Rightarrow> bool" where
  "opened x has d k b rc \<longleftrightarrow> rc_document rc = d \<and>
     (\<exists>slot. rc_pending rc = [(x, slot)] \<and> pt_has_payload slot = has \<and> (has \<longrightarrow> pt_payload slot = frame_body k b))"

lemma replay_intent_opens:
  assumes "settled d rc" and "dd_last_sequence d < n" and "k \<noteq> Mu_Unknown" and "k \<noteq> Mu_Count"
  shows "opened x False d k b (replay_record (appended Rt_Intent e g x (intent_body k s) n) rc)"
  using assms
  by (auto simp: settled_def opened_def replay_record_def replay_intent_def Let_def decode_intent_body
      pending_slot_def new_pending_def not_le)

lemma replay_payload_fills:
  assumes "opened x False d k b rc" and "dd_last_sequence d < n"
  shows "opened x True d k b (replay_record (appended Rt_Payload e g x (frame_body k b) n) rc)"
  using assms by (auto simp: opened_def replay_record_def replay_payload_def Let_def pending_slot_def not_le)

lemma replay_commit_applies:
  assumes "opened x True d k b rc" and "dd_last_sequence d < n" and "k \<noteq> Mu_Unknown" and "k \<noteq> Mu_Count"
    and "apply_mutation k b d = Inr d'"
  shows "settled (d'\<lparr>dd_last_sequence := n\<rparr>) (replay_record (appended Rt_Commit e g x c n) rc)"
  using assms
  by (auto simp: opened_def settled_def replay_record_def replay_commit_def Let_def not_le unframe_frame
      erase_pending_def om_erase_def set_last_sequence_def)

lemma txn_records_eq:
  "txn_records k b s x =
    [appended Rt_Intent (ms_epoch s) (ms_generation s) x (intent_body k s) x,
     appended Rt_Payload (ms_epoch s) (ms_generation s) x (frame_body k b) (x + 1),
     appended Rt_Commit (ms_epoch s) (ms_generation s) x (commit_body k (frame_body k b)) (x + 2)]"
  by (simp add: txn_records_def txn_entries_def add.assoc)

lemma sequence_room:
  assumes "l < x" and "unat x + 3 \<le> 2 ^ 64"
  shows "l < x + 1" "l < (x + 2 :: u64)"
proof -
  have "unat (x + 1) = unat x + 1" "unat (x + 2) = unat x + 2"
    using assms(2) by (simp_all add: unat_word_ariths)
  then show "l < x + 1" "l < x + 2" using assms(1) by (simp_all add: word_less_nat_alt)
qed

lemma replay_txn:
  assumes rc: "settled d rc" and seq: "dd_last_sequence d < x" "unat x + 3 \<le> 2 ^ 64"
    and k: "k \<noteq> Mu_Unknown" "k \<noteq> Mu_Count" and ap: "apply_mutation k b d = Inr d'"
  shows "settled (d'\<lparr>dd_last_sequence := x + 2\<rparr>) (fold replay_record (txn_records k b s x) rc)"
    and "m = 0 \<Longrightarrow> settled d (fold replay_record (take m (txn_records k b s x)) rc)"
    and "m = 1 \<Longrightarrow> opened x False d k b (fold replay_record (take m (txn_records k b s x)) rc)"
    and "m = 2 \<Longrightarrow> opened x True d k b (fold replay_record (take m (txn_records k b s x)) rc)"
proof -
  note room = sequence_room [OF seq]
  let ?rc1 = "replay_record (appended Rt_Intent (ms_epoch s) (ms_generation s) x (intent_body k s) x) rc"
  let ?rc2 = "replay_record (appended Rt_Payload (ms_epoch s) (ms_generation s) x (frame_body k b) (x + 1)) ?rc1"
  have 1: "opened x False d k b ?rc1" by (rule replay_intent_opens [OF rc seq(1) k])
  have 2: "opened x True d k b ?rc2" by (rule replay_payload_fills [OF 1 room(1)])
  show "settled (d'\<lparr>dd_last_sequence := x + 2\<rparr>) (fold replay_record (txn_records k b s x) rc)"
    using replay_commit_applies [OF 2 room(2) k ap] by (simp add: txn_records_eq)
  show "m = 0 \<Longrightarrow> settled d (fold replay_record (take m (txn_records k b s x)) rc)" using rc by simp
  show "m = 1 \<Longrightarrow> opened x False d k b (fold replay_record (take m (txn_records k b s x)) rc)"
    using 1 by (simp add: txn_records_eq)
  show "m = 2 \<Longrightarrow> opened x True d k b (fold replay_record (take m (txn_records k b s x)) rc)"
    using 2 by (simp add: txn_records_eq)
qed

definition with_ambiguous :: "DurableDocument \<Rightarrow> DurableDocument \<Rightarrow> bool" where
  "with_ambiguous d d' \<longleftrightarrow> (\<exists>a. at_state a = AS_Ambiguous \<and> d' = d\<lparr>dd_attempts := dd_attempts d @ [a]\<rparr>)"

lemma recover_settled: "settled d rc \<Longrightarrow> rc_document (fold recover_attempt (rc_pending rc) rc) = d"
  by (simp add: settled_def)

lemma recover_attempt_notes:
  "pt_has_payload (snd entry) \<Longrightarrow> with_ambiguous (rc_document rc) (rc_document (recover_attempt entry rc))"
  unfolding with_ambiguous_def
  by (rule exI [of _ "\<lparr>at_attempt = fst entry, at_transaction = fst entry, at_kind = pt_kind (snd entry),
        at_state = AS_Ambiguous, at_epoch = dd_epoch (rc_document rc), at_generation = 0, at_recorded_tick = 0,
        at_provenance = 0, at_detail = ''unfinished attempt recovered from the journal''\<rparr>"])
    (simp add: recover_attempt_def Let_def)

lemma recover_opened:
  assumes "opened x has d k b rc"
  shows "if has then with_ambiguous d (rc_document (fold recover_attempt (rc_pending rc) rc))
    else rc_document (fold recover_attempt (rc_pending rc) rc) = d"
proof -
  obtain slot where slot: "rc_pending rc = [(x, slot)]" "pt_has_payload slot = has" "rc_document rc = d"
    using assms by (auto simp: opened_def)
  then have "fold recover_attempt (rc_pending rc) rc = recover_attempt (x, slot) rc" by simp
  then show ?thesis
    using slot recover_attempt_notes [of "(x, slot)" rc] by (simp add: recover_attempt_def)
qed

text \<open>A transaction of which the first \<open>m\<close> records survived: whole, it is applied; otherwise the document is
  untouched, but for a note of the ambiguous attempt once the payload is there.\<close>

lemma recover_txn:
  assumes "settled d rc" and "dd_last_sequence d < x" "unat x + 3 \<le> 2 ^ 64"
    and "k \<noteq> Mu_Unknown" "k \<noteq> Mu_Count" and "apply_mutation k b d = Inr d'" and "m \<le> 3"
    and "rc' = fold replay_record (take m (txn_records k b s x)) rc"
  shows "if m = 3 then rc_document (fold recover_attempt (rc_pending rc') rc') = d'\<lparr>dd_last_sequence := x + 2\<rparr>
    else if m = 2 then with_ambiguous d (rc_document (fold recover_attempt (rc_pending rc') rc'))
    else rc_document (fold recover_attempt (rc_pending rc') rc') = d"
proof -
  note txn = replay_txn [OF assms(1-6), where s = s]
  consider "m = 3" | "m = 2" | "m = 1" | "m = 0" using assms(7) by linarith
  then show ?thesis
  proof cases
    case 1
    then show ?thesis using recover_settled [OF txn(1)] assms(8) by simp
  next
    case 2
    then show ?thesis using recover_opened [OF txn(4) [OF 2]] assms(8) by simp
  next
    case 3
    then show ?thesis using recover_opened [OF txn(3) [OF 3]] assms(8) by simp
  next
    case 4
    then show ?thesis using recover_settled [OF assms(1)] assms(8) by simp
  qed
qed

section \<open>The durable state\<close>

text \<open>A run of commits that stops at the first one that fails, as a caller that dies with the disk does.\<close>

fun commit_run :: "((MutationKind \<times> bytes) \<times> MutationStamp) list \<Rightarrow> Store \<Rightarrow> World \<Rightarrow> nat \<times> Store \<times> World" where
  "commit_run [] st w = (0, st, w)"
| "commit_run (((k, b), s) # ms) st w =
     (case commit k b s st w of
        (Inl _, st1, w1) \<Rightarrow> (0, st1, w1)
      | (Inr _, st1, w1) \<Rightarrow> (case commit_run ms st1 w1 of (n, st2, w2) \<Rightarrow> (Suc n, st2, w2)))"

text \<open>The snapshot file is wholly on stable storage, and loads to \<open>base\<close>.\<close>

definition stable_snapshot :: "string \<Rightarrow> StoreOptions \<Rightarrow> DurableDocument \<Rightarrow> File option \<Rightarrow> bool" where
  "stable_snapshot p opts base f \<longleftrightarrow>
     (\<forall>g. f = Some g \<longrightarrow> fl_synced g = length (fl_bytes g)) \<and>
     (\<exists>rep. \<forall>w. wd_script w = [] \<and> wd_files w p = f \<longrightarrow> load_snapshot p opts w = (Inr (base, rep), w))"

text \<open>Replaying \<open>log\<close> over \<open>base\<close> leaves no transaction open and ends in \<open>d\<close>.\<close>

definition replays_to :: "JournalRecord list \<Rightarrow> DurableDocument \<Rightarrow> DurableDocument \<Rightarrow> bool" where
  "replays_to log base d \<longleftrightarrow>
     (\<forall>rep. settled d (fold replay_record log \<lparr>rc_document = base, rc_pending = [], rc_report = rep\<rparr>))"

definition placed :: "Store \<Rightarrow> bool" where
  "placed st \<longleftrightarrow> st_open st \<and> st_directory st \<noteq> [] \<and> \<not> sp_read_only (st_options st) \<and>
     st_snapshot_path st = st_directory st @ ''/ncf.snapshot'' \<and>
     jn_path (st_journal st) = st_directory st @ ''/ncf.journal'' \<and>
     jn_options (st_journal st) = store_journal_options (st_options st)"

definition durable :: "JournalRecord list \<Rightarrow> DurableDocument \<Rightarrow> Store \<Rightarrow> World \<Rightarrow> bool" where
  "durable log base st w \<longleftrightarrow>
     placed st \<and> journal_at log (st_journal st) w \<and>
     stable_snapshot (st_snapshot_path st) (st_options st) base (wd_files w (st_snapshot_path st)) \<and>
     (\<exists>d. replays_to log base d \<and> content d = content (st_document st) \<and>
        dd_last_sequence d < jn_next_sequence (st_journal st))"

lemma crash_keeps_stable:
  "stable_snapshot p opts base (wd_files w p) \<Longrightarrow> crashes_to w w2 \<Longrightarrow> wd_files w2 p = wd_files w p"
  by (cases "wd_files w p") (auto simp: stable_snapshot_def crashes_to_def dest!: spec [of _ p]
      simp: option_rel_Some1 file_cut_def intro: File.equality)

lemma journal_at_run_left: "journal_at log j w \<Longrightarrow> run_left log [] 0 j w"
  by (auto simp: run_left_def journal_at_def intro!: exI [of _ "[]"])

lemma paths_differ: "dir @ ''/ncf.snapshot'' \<noteq> dir @ ''/ncf.journal''"
  by simp

text \<open>Reopening after a crash: the snapshot loads as before, and of the records being written a prefix survives.\<close>

lemma reopen:
  assumes st: "placed st" and snap: "stable_snapshot (st_snapshot_path st) (st_options st) base (wd_files w (st_snapshot_path st))"
    and left: "run_left log rs n (st_journal st) w" and crash: "crashes_to w w2"
  shows "\<exists>st2 w3 m rep. store_open (st_directory st) (st_options st) w2 = (Inr st2, w3) \<and>
    n \<le> m \<and> m \<le> Suc n \<and> m \<le> length rs \<and> st_document st2 = rc_document (recover (log @ take m rs) base rep)"
proof -
  let ?dir = "st_directory st" and ?opts = "st_options st" and ?j = "st_journal st"
  let ?p = "jn_path ?j"
  note place = st [unfolded placed_def]
  have script: "wd_script w2 = []" using crash by (simp add: crashes_to_def)
  obtain rep where load: "load_snapshot (st_snapshot_path st) ?opts w2 = (Inr (base, rep), w2)"
    using snap crash_keeps_stable [OF snap crash] script unfolding stable_snapshot_def by blast
  from run_left_replay [OF left crash] obtain r m where r: "journal_replay ?j w2 = (Inr r, w2)"
    "n \<le> m" "m \<le> Suc n" "m \<le> length rs" "jr_records r = log @ take m rs" "jr_status r \<noteq> Rs_Corrupt" by blast
  obtain bs s where f: "wd_files w ?p = Some \<lparr>fl_bytes = bs, fl_synced = s\<rparr>" "length bs \<le> unat (jo_max_journal_bytes (jn_options ?j))"
    using left by (auto simp: run_left_def holds_def)
  then obtain k where f2: "wd_files w2 ?p = Some \<lparr>fl_bytes = take k bs, fl_synced = k\<rparr>" (is "_ = Some ?f2")
    using crash by (auto simp: crashes_to_def dest!: spec [of _ ?p] simp: option_rel_Some1 file_cut_def)
  have "length (take k bs) \<le> unat (jo_max_journal_bytes (jn_options ?j))" using f(2) by simp
  then have "jr_valid_bytes r \<le> length (fl_bytes ?f2)" "length (fl_bytes ?f2) < 2 ^ 64"
    using r(1) read_file_ok [OF script f2] unat_64_less [of "jo_max_journal_bytes (jn_options ?j)"]
      replay_valid_le [of "jn_options ?j" "take k bs"]
    by (auto simp: journal_replay_def split: if_splits)
  then obtain st2 w3 where "store_open ?dir ?opts w2 = (Inr st2, w3)"
    "st_document st2 = rc_document (recover (log @ take m rs) base (rep\<lparr>sr_journal_present := True, sr_journal_status := jr_status r\<rparr>))"
    using store_open_recovers [OF script, of ?dir ?opts base rep ?f2 ?j r] place load f2 r(1,5,6) by auto
  with r show ?thesis by blast
qed

lemma commit_step:
  assumes dur: "durable log base st w" and out: "commit k b s st w = (res, st', w')"
    and room: "unat (jn_next_sequence (st_journal st)) + 3 < 2 ^ 64"
    and fit: "fits (st_options st) (apply_or_keep (k, b) (st_document st))"
  shows "st_directory st' = st_directory st \<and> st_options st' = st_options st \<and>
    (if res = Inr () then
       durable (log @ txn_records k b s (jn_next_sequence (st_journal st))) base st' w' \<and>
       content (st_document st') = content (apply_or_keep (k, b) (st_document st)) \<and>
       jn_next_sequence (st_journal st') = jn_next_sequence (st_journal st) + 3
     else placed st' \<and> st_document st' = st_document st \<and>
       stable_snapshot (st_snapshot_path st') (st_options st') base (wd_files w' (st_snapshot_path st')) \<and>
       (\<exists>rs n. (rs = [] \<or> accepts k b st \<and> rs = txn_records k b s (jn_next_sequence (st_journal st))) \<and> n < 3 \<and>
          run_left log rs n (st_journal st') w'))"
  (is "?same \<and> ?outcome")
proof (cases "accepts k b st")
  case False
  then obtain e where "res = Inl e" "st' = st" "w' = w" using commit_refused [OF False, of s w] out by auto
  then show ?thesis using dur journal_at_run_left by (auto simp: durable_def intro!: exI [of _ "[]"] exI [of _ 0])
next
  case True
  let ?x = "jn_next_sequence (st_journal st)"
  let ?es = "txn_entries k b s ?x"
  obtain n j' w1 where run: "append_run ?es (st_journal st) w = (n, j', w1)" by (metis prod_cases3)
  have at: "journal_at log (st_journal st) w" and pl: "placed st"
    and snap: "stable_snapshot (st_snapshot_path st) (st_options st) base (wd_files w (st_snapshot_path st))"
    using dur by (simp_all add: durable_def)
  note ok = txn_entries_ok [OF True, of s ?x]
  have same: "jn_path j' = jn_path (st_journal st)" "jn_options j' = jn_options (st_journal st)"
    using append_run_same [OF at ok run] by simp_all
  have frame: "wd_files w1 (st_snapshot_path st) = wd_files w (st_snapshot_path st)"
    using append_run_frame [OF at ok run] pl by (simp add: placed_def)
  show ?thesis
  proof (cases "n = 3")
    case False
    then obtain e where e: "n < 3" "res = Inl e" "st' = st\<lparr>st_journal := j'\<rparr>" "w' = w1"
      using commit_appends [OF True run] out by auto
    have "run_left log (txn_records k b s ?x) n j' w1"
      using append_run_left [OF at ok] run by (simp add: txn_records_def)
    then show ?thesis using e True pl snap frame same by (auto simp: placed_def)
  next
    case n: True
    obtain d where d: "apply_mutation k b (st_document st) = Inr d"
      and c: "commit k b s st w = (Inr (),
          let (d2, pruned) = prune_document (st_options st)
                (d\<lparr>dd_last_sequence := jn_next_sequence j' - 1, dd_authority_generation := ms_generation s,
                   dd_mutation_count := dd_mutation_count d + 1\<rparr>)
          in st\<lparr>st_journal := j', st_document := d2, st_pruned_records := st_pruned_records st + pruned\<rparr>, w1)"
      using commit_appends [OF True run] n by auto
    have "length ?es = 3" by (simp add: txn_entries_def)
    then have run3: "journal_at (log @ txn_records k b s ?x) j' w1" "jn_next_sequence j' = ?x + 3"
      using append_run_all [OF at ok, of j' w1] run n by (simp_all add: txn_records_def)
    have "fits (st_options st) d" using fit d by (simp add: apply_or_keep_def)
    then have "fits (st_options st) (d\<lparr>dd_last_sequence := jn_next_sequence j' - 1, dd_authority_generation := ms_generation s,
                   dd_mutation_count := dd_mutation_count d + 1\<rparr>)" by (simp add: fits_def)
    from prune_fits [OF this] c out have
      st': "res = Inr ()" "w' = w1" "st_journal st' = j'" "content (st_document st') = content d"
        "st_directory st' = st_directory st" "st_options st' = st_options st" "st_open st' = st_open st"
        "st_snapshot_path st' = st_snapshot_path st"
      by auto
    obtain e where e: "replays_to log base e" "content e = content (st_document st)" "dd_last_sequence e < ?x"
      using dur by (auto simp: durable_def)
    obtain e' where e': "apply_mutation k b e = Inr e'" "content e' = content d"
      using apply_mutation_same_content [OF d e(2) [symmetric]] by blast
    have x3: "unat ?x + 3 \<le> 2 ^ 64" using room by simp
    have "k \<noteq> Mu_Unknown" "k \<noteq> Mu_Count" using True by (simp_all add: accepts_def)
    from replay_txn(1) [OF _ e(3) x3 this e'(1), of _ s] e(1)
    have "replays_to (log @ txn_records k b s ?x) base (e'\<lparr>dd_last_sequence := ?x + 2\<rparr>)"
      by (simp add: replays_to_def)
    moreover have "?x + 2 < ?x + 3"
      using room by (simp add: word_less_nat_alt unat_word_ariths)
    ultimately show ?thesis
      using run3 st' pl snap frame same e' d
      by (auto simp: durable_def placed_def apply_or_keep_def intro!: exI [of _ "e'\<lparr>dd_last_sequence := ?x + 2\<rparr>"])
  qed
qed

lemma apply_or_keep_content: "content (apply_or_keep m d) = apply_or_keep m (content d)"
  by (cases "decode_update (fst m) (snd m)") (simp_all add: apply_or_keep_def apply_mutation_perform perform_content)

lemma committed_content: "content (committed ms d) = committed ms (content d)"
  unfolding committed_def by (induction ms arbitrary: d) (simp_all add: apply_or_keep_content)

lemma committed_Cons [simp]: "committed (m # ms) d = committed ms (apply_or_keep m d)"
  by (simp add: committed_def)

lemma committed_Nil [simp]: "committed [] d = d"
  by (simp add: committed_def)

lemma with_ambiguous_content_same: "with_ambiguous d d' \<Longrightarrow> with_ambiguous (content d) (content d')"
  by (auto simp: with_ambiguous_def content_def)

lemma with_ambiguous_content:
  "with_ambiguous d d' \<Longrightarrow> content d = content e \<Longrightarrow> with_ambiguous (content e) (content d')"
  using with_ambiguous_content_same by metis

text \<open>The document a reopened store has, when \<open>n\<close> of the commits were acknowledged: that of the first \<open>m\<close>.\<close>

definition recovered :: "(MutationKind \<times> bytes) list \<Rightarrow> nat \<Rightarrow> nat \<Rightarrow> DurableDocument \<Rightarrow> DurableDocument \<Rightarrow> bool" where
  "recovered ms n m d d2 \<longleftrightarrow>
     n \<le> m \<and> m \<le> Suc n \<and> m \<le> length ms \<and>
     (content d2 = content (committed (take m ms) d) \<or>
      (m = n \<and> n < length ms \<and> with_ambiguous (content (committed (take n ms) d)) (content d2)))"

lemma recovered_Cons:
  assumes "recovered ms n m e d2" and "content e = content (apply_or_keep u d)"
  shows "recovered (u # ms) (Suc n) (Suc m) d d2"
  using assms by (auto simp: recovered_def committed_content)

lemma crash_between:
  assumes dur: "durable log base st w" and crash: "crashes_to w w2"
  shows "\<exists>st2 w3. store_open (st_directory st) (st_options st) w2 = (Inr st2, w3) \<and>
    content (st_document st2) = content (st_document st)"
proof -
  obtain d where d: "replays_to log base d" "content d = content (st_document st)" using dur by (auto simp: durable_def)
  from reopen [OF _ _ journal_at_run_left crash, of st base log] dur obtain st2 w3 rep where
    "store_open (st_directory st) (st_options st) w2 = (Inr st2, w3)" "st_document st2 = rc_document (recover log base rep)"
    by (auto simp: durable_def)
  moreover have "rc_document (recover log base rep) = d"
    using d(1) recover_settled by (simp add: recover_def replays_to_def Let_def)
  ultimately show ?thesis using d(2) by auto
qed

lemma crash_inside:
  assumes dur: "durable log base st w" and out: "commit k b s st w = (Inl e, st', w')" and crash: "crashes_to w' w2"
    and room: "unat (jn_next_sequence (st_journal st)) + 3 < 2 ^ 64"
    and fit: "fits (st_options st) (apply_or_keep (k, b) (st_document st))"
  shows "\<exists>st2 w3 m. store_open (st_directory st) (st_options st) w2 = (Inr st2, w3) \<and>
    recovered ((k, b) # ms) 0 m (st_document st) (st_document st2)"
proof -
  let ?x = "jn_next_sequence (st_journal st)" and ?d = "st_document st"
  note step = commit_step [OF dur out room fit]
  have st': "placed st'" "stable_snapshot (st_snapshot_path st') (st_options st') base (wd_files w' (st_snapshot_path st'))"
      "st_directory st' = st_directory st" "st_options st' = st_options st"
    using step by auto
  have "\<exists>rs n. (rs = [] \<or> accepts k b st \<and> rs = txn_records k b s ?x) \<and> n < 3 \<and> run_left log rs n (st_journal st') w'"
    using step by simp
  then obtain rs n where rs: "rs = [] \<or> accepts k b st \<and> rs = txn_records k b s ?x"
    and n: "n < 3" "run_left log rs n (st_journal st') w'" by metis
  from reopen [OF st'(1,2) n(2) crash] obtain st2 w3 m rep where
    open2: "store_open (st_directory st) (st_options st) w2 = (Inr st2, w3)" "n \<le> m" "m \<le> Suc n" "m \<le> length rs"
      "st_document st2 = rc_document (recover (log @ take m rs) base rep)"
    unfolding st'(3,4) by blast
  obtain d where d: "replays_to log base d" "content d = content ?d" "dd_last_sequence d < ?x"
    using dur by (auto simp: durable_def)
  define rc where "rc = fold replay_record log \<lparr>rc_document = base, rc_pending = [], rc_report = rep\<rparr>"
  have rc: "settled d rc" using d(1) by (simp add: replays_to_def rc_def)
  have doc: "st_document st2 = rc_document (let rc' = fold replay_record (take m rs) rc in fold recover_attempt (rc_pending rc') rc')"
    using open2(5) by (simp add: recover_def rc_def Let_def)
  show ?thesis
  proof (cases "rs = []")
    case True
    then have "st_document st2 = d" using doc recover_settled [OF rc] by simp
    then show ?thesis using open2(1) d(2) by (auto simp: recovered_def intro!: exI [of _ 0])
  next
    case False
    with rs have acc: "accepts k b st" and rs': "rs = txn_records k b s ?x" by simp_all
    then have k: "k \<noteq> Mu_Unknown" "k \<noteq> Mu_Count" and v: "validate_body k b = Inr ()" by (simp_all add: accepts_def)
    obtain d' where d': "apply_mutation k b d = Inr d'" using validate_body_applies [OF v] by blast
    have ap: "content (apply_or_keep (k, b) ?d) = content d'"
      using d' d(2) apply_or_keep_content [of "(k, b)" ?d] apply_or_keep_content [of "(k, b)" d]
      by (simp add: apply_or_keep_def)
    have "m \<le> 3" using open2(4) rs' by simp
    have x3: "unat ?x + 3 \<le> 2 ^ 64" using room by simp
    from recover_txn [OF rc d(3) x3 k d' \<open>m \<le> 3\<close> refl, of s] doc
    have cases: "if m = 3 then st_document st2 = d'\<lparr>dd_last_sequence := ?x + 2\<rparr>
        else if m = 2 then with_ambiguous d (st_document st2) else st_document st2 = d"
      by (simp add: rs' Let_def split: if_splits)
    show ?thesis
    proof (cases "m = 3")
      case True
      then show ?thesis using cases open2(1) ap by (auto simp: recovered_def intro!: exI [of _ 1])
    next
      case False
      then have "content (st_document st2) = content ?d \<or> with_ambiguous (content ?d) (content (st_document st2))"
        using cases d(2) with_ambiguous_content by (auto split: if_splits)
      then show ?thesis using open2(1) by (auto simp: recovered_def intro!: exI [of _ 0])
    qed
  qed
qed

text \<open>C2: the durable store is a crash-safe list of mutations. Start from a store whose journal and snapshot
  stand for its document; commit any mutations under any pattern of I/O faults, up to the first commit that
  fails; let the machine crash at that point, losing any part of what was not synced. Opening the
  directory again succeeds and yields the document of the acknowledged mutations applied in order, with at most
  the interrupted one more: that one is applied as a whole or not at all, and then at most noted as one
  ambiguous attempt. Until the crash the document in memory is that of the acknowledged mutations.
  The lists of the document stay within the retention bounds (otherwise commit prunes and
  recovery does not), and the sequence numbers do not wrap.\<close>

theorem recovery_applies_acknowledged:
  assumes "durable log base st w" and "commit_run ms st w = (n, st', w')" and "crashes_to w' w2"
    and "fits (st_options st) (committed (map fst ms) (st_document st))"
    and "unat (jn_next_sequence (st_journal st)) + 3 * length ms < 2 ^ 64"
  shows "\<exists>st2 w3 m. store_open (st_directory st) (st_options st) w2 = (Inr st2, w3) \<and>
    recovered (map fst ms) n m (st_document st) (st_document st2) \<and>
    content (st_document st') = content (committed (take n (map fst ms)) (st_document st))"
  using assms
proof (induction ms arbitrary: log st w n)
  case Nil
  then show ?case using crash_between [OF Nil.prems(1)] by (auto simp: recovered_def)
next
  case (Cons mut ms)
  obtain k b s where mut: "mut = ((k, b), s)" by (metis prod.exhaust)
  obtain res st1 w1 where out: "commit k b s st w = (res, st1, w1)" by (metis prod_cases3)
  have room: "unat (jn_next_sequence (st_journal st)) + 3 < 2 ^ 64" using Cons.prems(5) by simp
  have fit: "fits (st_options st) (apply_or_keep (k, b) (st_document st))"
    using Cons.prems(4) committed_fits by (auto simp: mut)
  note step = commit_step [OF Cons.prems(1) out room fit]
  show ?case
  proof (cases res)
    case (Inl e)
    then have "n = 0" "st' = st1" "w' = w1" using Cons.prems(2) by (simp_all add: mut out)
    moreover have "st_document st1 = st_document st" using step Inl by simp
    ultimately show ?thesis
      using crash_inside [OF Cons.prems(1) out [unfolded Inl] _ room fit, of w2 "map fst ms"] Cons.prems(3)
      by (auto simp: mut)
  next
    case (Inr u)
    then have res: "res = Inr ()" by simp
    obtain n1 where run: "commit_run ms st1 w1 = (n1, st', w')" "n = Suc n1"
      using Cons.prems(2) Inr by (auto simp: mut out split: prod.splits)
    let ?log = "log @ txn_records k b s (jn_next_sequence (st_journal st))"
    have st1: "durable ?log base st1 w1" "content (st_document st1) = content (apply_or_keep (k, b) (st_document st))"
      "jn_next_sequence (st_journal st1) = jn_next_sequence (st_journal st) + 3"
      "st_directory st1 = st_directory st" "st_options st1 = st_options st"
      using step res by simp_all
    have same: "content (committed us (st_document st1)) = content (committed us (apply_or_keep (k, b) (st_document st)))" for us
      by (simp add: committed_content st1(2))
    have "fits (st_options st1) (committed (map fst ms) (st_document st1))"
      using Cons.prems(4) fits_content [of _ "committed (map fst ms) (st_document st1)"] same [of "map fst ms"]
      by (simp add: mut st1(5))
    moreover have "unat (jn_next_sequence (st_journal st1)) + 3 * length ms < 2 ^ 64"
      using Cons.prems(5) by (simp add: st1(3) unat_word_ariths)
    ultimately obtain st2 w3 m where IH: "store_open (st_directory st1) (st_options st1) w2 = (Inr st2, w3)"
      "recovered (map fst ms) n1 m (st_document st1) (st_document st2)"
      "content (st_document st') = content (committed (take n1 (map fst ms)) (st_document st1))"
      using Cons.IH [OF st1(1) run(1) Cons.prems(3)] by blast
    show ?thesis
      using IH recovered_Cons [OF IH(2) st1(2)] same by (auto simp: st1(4,5) run(2) mut)
  qed
qed

section \<open>A fresh directory\<close>

definition quiet :: "World \<Rightarrow> bool" where
  "quiet w \<longleftrightarrow> wd_script w = []"

lemma fresh_store:
  assumes "quiet w" and "dir \<noteq> []" and "sp_sync_on_append opts" and "\<not> sp_read_only opts"
    and "wd_files w (dir @ ''/ncf.journal'') = None" and "wd_files w (dir @ ''/ncf.snapshot'') = None"
  shows "\<exists>st. store_open dir opts w = (Inr st, put_file (dir @ ''/ncf.journal'') (Some \<lparr>fl_bytes = [], fl_synced = 0\<rparr>) w) \<and>
    durable [] empty_document st (put_file (dir @ ''/ncf.journal'') (Some \<lparr>fl_bytes = [], fl_synced = 0\<rparr>) w) \<and>
    st_document st = empty_document \<and> st_directory st = dir \<and> st_options st = opts \<and> jn_next_sequence (st_journal st) = 1"
proof -
  let ?p = "dir @ ''/ncf.journal''" and ?s = "dir @ ''/ncf.snapshot''"
  let ?w = "put_file ?p (Some \<lparr>fl_bytes = [], fl_synced = 0\<rparr>) w"
  let ?j = "\<lparr>jn_path = ?p, jn_options = store_journal_options opts, jn_file = Some \<lparr>sm_path = ?p, sm_pos = 0\<rparr>,
      jn_size = 0, jn_next_sequence = 1\<rparr>"
  have ro: "\<not> jo_read_only (store_journal_options opts)" using assms(4) by (simp add: store_journal_options_def)
  have script: "wd_script w = []" using assms(1) by (simp add: quiet_def)
  have snap: "load_snapshot ?s opts v = (Inr (empty_document, empty_report), v)"
    if "wd_script v = []" "wd_files v ?s = None" for v
    using that by (simp add: load_snapshot_def fs_exists_def io_simps)
  have "journal_open ?p (store_journal_options opts) w = (Inr ?j, ?w)"
    using script assms(5) ro
    by (simp add: journal_open_def fs_create_directories_def fs_exists_def fopen_def io_simps Let_def)
  moreover have "journal_replay ?j ?w = (Inr (replay_data (store_journal_options opts) []), ?w)"
    using read_file_ok [of ?w ?p "\<lparr>fl_bytes = [], fl_synced = 0\<rparr>"] script by (simp add: journal_replay_def)
  moreover have "jr_records (replay_data (store_journal_options opts) []) = []"
    "jr_status (replay_data (store_journal_options opts) []) = Rs_Empty"
    using replay_data_log [of "store_journal_options opts" "[]" "[]"] by (simp_all add: reports_def)
  moreover have "resume_sequence 1 ?j = ?j" by (simp add: resume_sequence_def)
  ultimately have "\<exists>st. store_open dir opts w = (Inr st, ?w) \<and> st_document st = empty_document \<and> st_directory st = dir \<and>
      st_options st = opts \<and> st_journal st = ?j \<and> st_snapshot_path st = ?s \<and> st_open st"
    using assms(2,6) script snap [of w]
    by (simp add: store_open_def fs_create_directories_def io_simps Let_def recover_def cut_torn_tail_def
        empty_document_def)
  then obtain st where st: "store_open dir opts w = (Inr st, ?w)" "st_document st = empty_document"
    "st_directory st = dir" "st_options st = opts" "st_journal st = ?j" "st_snapshot_path st = ?s" "st_open st"
    by blast
  have "journal_at [] ?j ?w"
    using assms(3,4)
    by (simp add: journal_at_def holds_def options_ok_def store_journal_options_def kMaxJournalRecordBytes_def
        kMaxJournalBytes_def)
  moreover have "stable_snapshot ?s opts empty_document None"
    using snap by (auto simp: stable_snapshot_def intro!: exI [of _ empty_report])
  ultimately have "durable [] empty_document st ?w"
    using st assms(2,4,6)
    by (simp add: durable_def placed_def replays_to_def settled_def empty_document_def)
  then show ?thesis using st by auto
qed

lemma journal_append_ok:
  assumes "journal_at log j w" and "quiet w" and "length payload \<le> unat (jo_max_record_bytes (jn_options j))"
    and "length (log_bytes log) + 64 + length payload \<le> unat (jo_max_journal_bytes (jn_options j))"
  shows "\<exists>j' w'. journal_append t e g x payload j w = (Inr (), j', w') \<and> quiet w'"
proof -
  note at = assms(1) [unfolded journal_at_def holds_def options_ok_def]
  have len: "length payload < 2 ^ 64" using assms(3) unat_64_less [of "jo_max_record_bytes (jn_options j)"] by simp
  then have payload: "\<not> of_nat (length payload) > jo_max_record_bytes (jn_options j)"
    using assms(3) by (simp add: word_less_nat_alt unat_of_nat not_less)
  have "\<not> jn_size j + of_nat kRecordHeaderSize + of_nat (length payload) > jo_max_journal_bytes (jn_options j)"
    using append_sizes [OF assms(1) len payload] assms(4) by (simp add: word_less_nat_alt not_less)
  then show ?thesis
    using at assms(2) payload
    by (simp add: journal_append_def write_record_def write_all_def fwrite_def transferred_def journal_sync_def
        io_simps quiet_def Let_def)
qed

lemma commit_frame:
  assumes "durable log base st w" and "accepts k b st" and "commit k b s st w = (res, st', w')"
    and "q \<noteq> st_directory st @ ''/ncf.journal''"
  shows "wd_files w' q = wd_files w q"
proof -
  let ?es = "txn_entries k b s (jn_next_sequence (st_journal st))"
  obtain n j' w1 where run: "append_run ?es (st_journal st) w = (n, j', w1)" by (metis prod_cases3)
  then have "w' = w1" using commit_appends [OF assms(2) run] assms(3) by (auto split: if_splits)
  then show ?thesis
    using append_run_frame [OF _ txn_entries_ok [OF assms(2)] run, of log q] assms(1,4) by (simp add: durable_def placed_def)
qed

lemma durable_synced:
  "durable log base st w \<Longrightarrow> wd_files w (st_directory st @ ''/ncf.journal'') =
     Some \<lparr>fl_bytes = log_bytes log, fl_synced = length (log_bytes log)\<rparr>"
  unfolding durable_def placed_def journal_at_def holds_def by metis

lemma crash_nothing_lost:
  assumes "quiet w" and "\<And>q f. wd_files w q = Some f \<Longrightarrow> fl_synced f = length (fl_bytes f)"
  shows "crashes_to w w"
proof -
  have "rel_option file_cut (wd_files w q) (wd_files w q)" for q
    using assms(2) [of q] by (cases "wd_files w q") (auto simp: file_cut_def)
  then show ?thesis using assms(1) by (simp add: crashes_to_def quiet_def)
qed

lemma append_run_ok:
  "journal_at log j w \<Longrightarrow> quiet w \<Longrightarrow> list_all (\<lambda>(t, e, g, x, p). length p \<le> unat (jo_max_record_bytes (jn_options j))) es \<Longrightarrow>
   length (log_bytes log) + (\<Sum>(t, e, g, x, p) \<leftarrow> es. 64 + length p) \<le> unat (jo_max_journal_bytes (jn_options j)) \<Longrightarrow>
   \<exists>j' w'. append_run es j w = (length es, j', w') \<and> quiet w'"
proof (induction es arbitrary: log j w)
  case (Cons entry es)
  obtain t e g x p where entry: "entry = (t, e, g, x, p)" by (cases entry)
  have small: "length p \<le> unat (jo_max_record_bytes (jn_options j))" using Cons.prems(3) by (simp add: entry)
  then obtain j1 w1 where a: "journal_append t e g x p j w = (Inr (), j1, w1)" "quiet w1"
    using journal_append_ok [OF Cons.prems(1,2), of p t e g x] Cons.prems(4) by (auto simp: entry)
  have len: "length p < 2 ^ 64" using small unat_64_less [of "jo_max_record_bytes (jn_options j)"] by simp
  let ?r = "appended t e g x p (jn_next_sequence j)"
  have "append_outcome log ?r j (Inr (), j1, w1)"
    using journal_append_outcome [OF Cons.prems(1) len, of t e g x] by (simp add: a(1))
  then have at: "journal_at (log @ [?r]) j1 w1" and opts: "jn_options j1 = jn_options j"
    by (simp_all add: append_outcome_def)
  have "length (record_bytes ?r) = 64 + length p" by (simp add: length_record_bytes)
  then have "\<exists>j' w'. append_run es j1 w1 = (length es, j', w') \<and> quiet w'"
    using Cons.IH [OF at a(2)] Cons.prems(3,4) by (simp add: entry opts)
  then show ?case using a(1) by (auto simp: entry)
qed (simp add: quiet_def)

lemma commit_ok:
  assumes dur: "durable log base st w" and q: "quiet w" and acc: "accepts k b st"
    and room: "length (log_bytes log) + length b + 220 \<le> unat kMaxJournalBytes"
  shows "\<exists>st' w'. commit k b s st w = (Inr (), st', w') \<and> quiet w'"
proof -
  let ?es = "txn_entries k b s (jn_next_sequence (st_journal st))"
  have at: "journal_at log (st_journal st) w" and opts: "jn_options (st_journal st) = store_journal_options (st_options st)"
    using dur by (simp_all add: durable_def placed_def)
  have "length b + kMutationPrefix \<le> unat kMaxJournalRecordBytes" using acc by (simp add: accepts_def)
  then have small: "list_all (\<lambda>(t, e, g, x, p). length p \<le> unat (jo_max_record_bytes (jn_options (st_journal st)))) ?es"
    by (simp add: opts store_journal_options_def txn_entries_def intent_body_def frame_body_def commit_body_def
        kMutationPrefix_def kMaxJournalRecordBytes_def)
  have "length (log_bytes log) + (\<Sum>(t, e, g, x, p) \<leftarrow> ?es. 64 + length p) \<le>
      unat (jo_max_journal_bytes (jn_options (st_journal st)))"
    using room by (simp add: opts store_journal_options_def txn_entries_def intent_body_def frame_body_def commit_body_def)
  from append_run_ok [OF at q small this] obtain j' w' where
    run: "append_run ?es (st_journal st) w = (3, j', w')" "quiet w'" by (auto simp: txn_entries_def)
  then show ?thesis using commit_appends [OF acc run(1)] by auto
qed

text \<open>An epoch advance committed to a fresh directory is there after a crash.\<close>

theorem recovery_applies_acknowledged_witness:
  "\<exists>st w1 st' w' st2 w3.
     store_open ''d'' default_store_options \<lparr>wd_files = (\<lambda>_. None), wd_script = []\<rparr> = (Inr st, w1) \<and>
     commit_run [((Mu_EpochAdvance, epoch_layout (7, 3, 1)),
       \<lparr>ms_epoch = 7, ms_generation = 1, ms_attempt = 1, ms_provenance = 1, ms_tick = 1\<rparr>)] st w1 = (1, st', w') \<and>
     crashes_to w' w' \<and> store_open ''d'' default_store_options w' = (Inr st2, w3) \<and> dd_epoch (st_document st2) = 7"
proof -
  let ?opts = default_store_options and ?w0 = "\<lparr>wd_files = (\<lambda>_. None), wd_script = []\<rparr>"
  let ?b = "epoch_layout (7, 3, 1)" and ?s = "\<lparr>ms_epoch = 7, ms_generation = 1, ms_attempt = 1, ms_provenance = 1, ms_tick = 1\<rparr>"
  let ?p = "''d/ncf.journal''"
  obtain st w1 where st: "store_open ''d'' ?opts ?w0 = (Inr st, w1)" "durable [] empty_document st w1"
    "st_document st = empty_document" "st_directory st = ''d''" "st_options st = ?opts"
    "jn_next_sequence (st_journal st) = 1" and w1: "w1 = put_file ?p (Some \<lparr>fl_bytes = [], fl_synced = 0\<rparr>) ?w0"
    using fresh_store [of ?w0 "''d''" ?opts] by (auto simp: quiet_def default_store_options_def)
  have dec: "decode_epoch ?b = Inr (7, 3, 1)"
    by (simp add: decode_epoch_def payload_dec check_epoch_def id_valid_def)
  have acc: "accepts Mu_EpochAdvance ?b st"
    using st(2,3,5) dec
    by (simp add: accepts_def durable_def placed_def enforce_growth_limits_def validate_body_def decoded_ok_def
        epoch_layout_def kMutationPrefix_def kMaxJournalRecordBytes_def)
  have quiet: "quiet w1" by (simp add: w1 quiet_def)
  have "length ?b = 24" by (simp add: epoch_layout_def)
  then obtain st' w' where c: "commit Mu_EpochAdvance ?b ?s st w1 = (Inr (), st', w')" "quiet w'"
    using commit_ok [OF st(2) quiet acc, of ?s] by (auto simp: kMaxJournalBytes_def)
  have ap: "apply_mutation Mu_EpochAdvance ?b d = Inr (d\<lparr>dd_epoch := 7, dd_coordinator_boot := 3, dd_coordinator_boot_counter := 1\<rparr>)" for d
    by (simp add: apply_mutation_def dec)
  let ?ms = "[((Mu_EpochAdvance, ?b), ?s)]"
  have run: "commit_run ?ms st w1 = (1, st', w')" by (simp add: c(1))
  have fit: "fits (st_options st) (apply_or_keep (Mu_EpochAdvance, ?b) (st_document st))"
    by (simp add: apply_or_keep_def ap st(3,5) fits_def under_def empty_document_def)
  have "\<exists>log. durable log empty_document st' w'" "st_directory st' = ''d''"
    using commit_step [OF st(2) c(1) _ fit] by (auto simp: st(4,6))
  then have synced: "\<exists>bs. wd_files w' ?p = Some \<lparr>fl_bytes = bs, fl_synced = length bs\<rparr>"
    by (auto dest!: durable_synced)
  have none: "wd_files w' q = None" if "q \<noteq> ?p" for q
    using commit_frame [OF st(2) acc c(1)] that by (simp add: st(4) w1)
  have crash: "crashes_to w' w'"
  proof (rule crash_nothing_lost [OF c(2)])
    show "fl_synced f = length (fl_bytes f)" if "wd_files w' q = Some f" for q f
      using none [of q] synced that by (cases "q = ?p") auto
  qed
  have "\<exists>st2 w3 m. store_open ''d'' ?opts w' = (Inr st2, w3) \<and>
      recovered (map fst ?ms) 1 m (st_document st) (st_document st2)"
    using recovery_applies_acknowledged [OF st(2) run crash] fit by (auto simp: st(4,5,6))
  then obtain st2 w3 m where "store_open ''d'' ?opts w' = (Inr st2, w3)"
    "recovered (map fst ?ms) 1 m (st_document st) (st_document st2)" by blast
  moreover from this(2) have "content (st_document st2) = content (apply_or_keep (Mu_EpochAdvance, ?b) (st_document st))"
    by (auto simp: recovered_def)
  then have "dd_epoch (content (st_document st2)) = 7" by (simp add: apply_or_keep_def ap content_def)
  ultimately show ?thesis using st(1) run crash by (auto simp: content_def)
qed

end
