(* ===== verification/NCF_Compaction.thy ===== *)
theory NCF_Compaction
  imports NCF_Recovery
begin

text \<open>
  The document invariant of the store and compaction: every update that a decoder lets through keeps the
  document well formed, a checkpoint writes the document as a list of updates that rebuild it, and a
  crash anywhere inside a checkpoint loses nothing.
\<close>

section \<open>Well-formed documents\<close>

fun update_ok :: "DocUpdate \<Rightarrow> bool" where
  "update_ok (U_Policy p) \<longleftrightarrow> validate_policy p = Inr p"
| "update_ok (U_Topology t) \<longleftrightarrow> validate_topology t = Inr ()"
| "update_ok (U_Capacity c) \<longleftrightarrow> validate_capacity c = Inr ()"
| "update_ok (U_Domain s) \<longleftrightarrow> check_domain_state s = Inr s"
| "update_ok (U_Intervention r) \<longleftrightarrow> check_intervention r = Inr r"
| "update_ok (U_Fence r) \<longleftrightarrow> check_fence r = Inr r"
| "update_ok (U_Epoch e) \<longleftrightarrow> check_epoch e = Inr e"
| "update_ok (U_Revalidation r) \<longleftrightarrow> True"
| "update_ok (U_History h) \<longleftrightarrow> True"
| "update_ok (U_Attempt r) \<longleftrightarrow> True"
| "update_ok (U_Provenance r) \<longleftrightarrow> True"

text \<open>The updates a checkpoint writes for a document, in its order.\<close>

definition doc_updates :: "DurableDocument \<Rightarrow> DocUpdate list" where
  "doc_updates d =
     (case dd_policy d of None \<Rightarrow> [] | Some p \<Rightarrow> [U_Policy p]) @
     (case dd_topology d of None \<Rightarrow> [] | Some t \<Rightarrow> [U_Topology t]) @
     (case dd_capacity d of None \<Rightarrow> [] | Some c \<Rightarrow> [U_Capacity c]) @
     (if id_valid (dd_epoch d) \<and> id_valid (dd_coordinator_boot d)
      then [U_Epoch (dd_epoch d, dd_coordinator_boot d, dd_coordinator_boot_counter d)] else []) @
     map U_Domain (dd_domains d) @ map U_Intervention (dd_interventions d) @ map U_Fence (dd_fences d) @
     map U_History (dd_history d) @ map U_Attempt (dd_attempts d) @ map U_Provenance (dd_provenance d) @
     map U_Revalidation (dd_revalidations d)"

definition doc_ok :: "DurableDocument \<Rightarrow> bool" where
  "doc_ok d \<longleftrightarrow> list_all update_ok (doc_updates d) \<and> sorted_wrt (<) (map ds_domain (dd_domains d)) \<and>
     distinct (map ic_id (dd_interventions d)) \<and> distinct (map fe_id (dd_fences d)) \<and>
     distinct (map pv_id (dd_provenance d))"

lemma update_ok_iff:
  "list_all update_ok (doc_updates d) \<longleftrightarrow>
     (\<forall>p. dd_policy d = Some p \<longrightarrow> validate_policy p = Inr p) \<and>
     (\<forall>t. dd_topology d = Some t \<longrightarrow> validate_topology t = Inr ()) \<and>
     (\<forall>c. dd_capacity d = Some c \<longrightarrow> validate_capacity c = Inr ()) \<and>
     (\<forall>s \<in> set (dd_domains d). check_domain_state s = Inr s) \<and>
     (\<forall>r \<in> set (dd_interventions d). check_intervention r = Inr r) \<and>
     (\<forall>r \<in> set (dd_fences d). check_fence r = Inr r)"
  unfolding doc_updates_def list_all_append list.pred_map comp_def update_ok.simps
  by (auto simp: list_all_iff check_epoch_def split: option.splits)

lemma check_same:
  "check_domain_state s = Inr s' \<Longrightarrow> check_domain_state s' = Inr s'"
  "check_intervention r = Inr r' \<Longrightarrow> check_intervention r' = Inr r'"
  "check_fence f = Inr f' \<Longrightarrow> check_fence f' = Inr f'"
  "check_epoch e = Inr e' \<Longrightarrow> check_epoch e' = Inr e'"
  by (auto simp: check_domain_state_def check_intervention_def check_fence_def check_epoch_def split: if_splits prod.splits)

lemma validate_policy_same: "validate_policy p = Inr p' \<Longrightarrow> validate_policy p' = Inr p'"
  unfolding validate_policy_Inr by auto

lemma finish_reader_Inr: "finish_reader m check b = Inr a \<Longrightarrow> \<exists>a'. check a' = Inr a"
  by (auto simp: finish_reader_def split: prod.splits option.splits)

lemma finish_result_Inr: "finish_result m check b = Inr a \<Longrightarrow> \<exists>a'. check a' = Inr a"
  by (auto simp: finish_result_def split: prod.splits option.splits sum.splits)

lemma decode_Inr:
  "decode_policy b = Inr p \<Longrightarrow> validate_policy p = Inr p"
  "decode_topology b = Inr t \<Longrightarrow> validate_topology t = Inr ()"
  "decode_capacity b = Inr c \<Longrightarrow> validate_capacity c = Inr ()"
  "decode_domain_state b = Inr s \<Longrightarrow> check_domain_state s = Inr s"
  "decode_intervention b = Inr r \<Longrightarrow> check_intervention r = Inr r"
  "decode_fence b = Inr f \<Longrightarrow> check_fence f = Inr f"
  "decode_epoch b = Inr e \<Longrightarrow> check_epoch e = Inr e"
  unfolding decode_policy_def decode_topology_def decode_capacity_def payload_defs
  by (auto dest!: finish_result_Inr finish_reader_Inr dest: validate_policy_same check_same
      simp: andThen_def split: sum.splits)

lemma map_sum_InrD: "map_sum id f r = Inr y \<Longrightarrow> \<exists>x. r = Inr x \<and> y = f x"
  by (cases r) auto

text \<open>What a decoder lets through is well formed.\<close>

lemma decode_update_ok: "decode_update k b = Inr u \<Longrightarrow> update_ok u"
  by (auto simp: decode_update_def dest!: map_sum_InrD dest: decode_Inr split: if_splits)

subsection \<open>The sorted domains\<close>

lemma upsert_domain_set: "set (upsert_domain s ds) \<subseteq> insert s (set ds)"
proof -
  have "set (domains_below (ds_domain s) ds) \<subseteq> set ds" "set (domains_from (ds_domain s) ds) \<subseteq> set ds"
    unfolding domains_below_def domains_from_def by (auto dest: set_takeWhileD set_dropWhileD)
  then show ?thesis
    by (cases "domains_from (ds_domain s) ds") (auto simp: upsert_domain_def)
qed

lemma domains_split:
  assumes "sorted_wrt (<) (map ds_domain ds)"
  shows "ds = domains_below d ds @ domains_from d ds" "\<forall>s \<in> set (domains_below d ds). ds_domain s < d"
    "\<forall>s \<in> set (domains_from d ds). d \<le> ds_domain s"
proof -
  show "ds = domains_below d ds @ domains_from d ds" by (simp add: domains_below_def domains_from_def)
  show "\<forall>s \<in> set (domains_below d ds). ds_domain s < d" by (auto simp: domains_below_def dest: set_takeWhileD)
  show "\<forall>s \<in> set (domains_from d ds). d \<le> ds_domain s"
    using assms unfolding domains_from_def
    by (induction ds) (auto simp: not_less intro: order_trans less_imp_le)
qed

lemma upsert_domain_sorted:
  assumes "sorted_wrt (<) (map ds_domain ds)"
  shows "sorted_wrt (<) (map ds_domain (upsert_domain s ds))"
proof -
  note split = domains_split [OF assms, of "ds_domain s"]
  have "sorted_wrt (<) (map ds_domain (domains_below (ds_domain s) ds @ domains_from (ds_domain s) ds))"
    using assms split(1) by simp
  moreover have "ds_domain s < ds_domain x" if "domains_from (ds_domain s) ds = y # ys" "ds_domain y \<noteq> ds_domain s" "x \<in> set (y # ys)" for x y ys
    using calculation split(3) that by (auto simp: sorted_wrt_append intro: less_trans order.not_eq_order_implies_strict)
  moreover have "ds_domain x < ds_domain s" if "x \<in> set (domains_below (ds_domain s) ds)" for x
    using split(2) that by simp
  ultimately show ?thesis
    by (auto simp: upsert_domain_def sorted_wrt_append split: list.splits if_splits)
qed

lemma upsert_domain_greatest:
  "\<forall>t \<in> set ds. ds_domain t < ds_domain s \<Longrightarrow> upsert_domain s ds = ds @ [s]"
proof -
  assume "\<forall>t \<in> set ds. ds_domain t < ds_domain s"
  then have "domains_from (ds_domain s) ds = []" "domains_below (ds_domain s) ds = ds"
    by (simp_all add: domains_from_def domains_below_def takeWhile_eq_all_conv)
  then show ?thesis by (simp add: upsert_domain_def)
qed

lemma fold_upsert:
  "sorted_wrt (<) (map ds_domain (xs @ ys)) \<Longrightarrow> fold upsert_domain ys xs = xs @ ys"
proof (induction ys arbitrary: xs)
  case (Cons y ys)
  then have "upsert_domain y xs = xs @ [y]" by (intro upsert_domain_greatest) (auto simp: sorted_wrt_append)
  then show ?case using Cons by simp
qed simp

lemma append_new_set: "set (append_new key x xs) \<subseteq> insert x (set xs)"
  by (auto simp: append_new_def)

lemma append_new_distinct: "distinct (map key xs) \<Longrightarrow> distinct (map key (append_new key x xs))"
  by (auto simp: append_new_def)

lemma fold_append_new: "distinct (map key (xs @ ys)) \<Longrightarrow> fold (append_new key) ys xs = xs @ ys"
proof (induction ys arbitrary: xs)
  case (Cons y ys)
  then have "append_new key y xs = xs @ [y]" by (auto simp: append_new_def image_iff dest: bspec)
  then show ?case using Cons by simp
qed simp

subsection \<open>The invariant\<close>

lemma doc_ok_empty: "doc_ok empty_document"
  by (simp add: doc_ok_def update_ok_iff empty_document_def)

lemma doc_ok_perform:
  assumes "doc_ok d" and "update_ok u"
  shows "doc_ok (perform u d)"
proof (cases u)
  case (U_Domain s)
  have "\<forall>x \<in> set (upsert_domain s (dd_domains d)). check_domain_state x = Inr x"
    using assms upsert_domain_set [of s "dd_domains d"] by (auto simp: U_Domain doc_ok_def update_ok_iff)
  then show ?thesis using assms by (simp add: U_Domain doc_ok_def update_ok_iff upsert_domain_sorted)
next
  case (U_Intervention r)
  have "\<forall>x \<in> set (append_new ic_id r (dd_interventions d)). check_intervention x = Inr x"
    using assms append_new_set [of ic_id r "dd_interventions d"] by (auto simp: U_Intervention doc_ok_def update_ok_iff)
  then show ?thesis using assms by (simp add: U_Intervention doc_ok_def update_ok_iff append_new_distinct)
next
  case (U_Fence r)
  have "\<forall>x \<in> set (append_new fe_id r (dd_fences d)). check_fence x = Inr x"
    using assms append_new_set [of fe_id r "dd_fences d"] by (auto simp: U_Fence doc_ok_def update_ok_iff)
  then show ?thesis using assms by (simp add: U_Fence doc_ok_def update_ok_iff append_new_distinct)
qed (use assms in \<open>simp_all add: doc_ok_def update_ok_iff append_new_distinct\<close>)

lemma doc_ok_fields:
  "doc_ok (d\<lparr>dd_last_sequence := a\<rparr>) = doc_ok d" "doc_ok (d\<lparr>dd_authority_generation := g\<rparr>) = doc_ok d"
  "doc_ok (d\<lparr>dd_mutation_count := n\<rparr>) = doc_ok d" "doc_ok (d\<lparr>dd_attempts := as\<rparr>) = doc_ok d"
  "doc_ok (d\<lparr>dd_epoch := e\<rparr>) = doc_ok d" "doc_ok (d\<lparr>dd_coordinator_boot := b\<rparr>) = doc_ok d"
  "doc_ok (d\<lparr>dd_coordinator_boot_counter := c\<rparr>) = doc_ok d"
  by (simp_all add: doc_ok_def update_ok_iff)

lemma apply_mutation_ok: "doc_ok d \<Longrightarrow> apply_mutation k b d = Inr d' \<Longrightarrow> doc_ok d'"
  by (auto simp: apply_mutation_perform dest!: map_sum_InrD intro: doc_ok_perform decode_update_ok)

lemma trim_sub: "trim n xs = (ys, k) \<Longrightarrow> \<exists>i. ys = drop i xs"
  by (auto simp: trim_def Let_def split: if_splits intro: exI [of _ 0])

lemma prune_ok: "doc_ok d \<Longrightarrow> prune_document opts d = (d', k) \<Longrightarrow> doc_ok d'"
  by (auto simp: prune_document_def Let_def doc_ok_def update_ok_iff distinct_drop drop_map [symmetric]
      dest!: trim_sub in_set_dropD split: prod.splits)

subsection \<open>Every document of a store\<close>

lemma replay_record_ok: "doc_ok (rc_document rc) \<Longrightarrow> doc_ok (rc_document (replay_record r rc))"
  by (auto simp: replay_record_def replay_intent_def replay_payload_def replay_commit_def reject_record_def
      erase_pending_def set_last_sequence_def Let_def doc_ok_fields split: option.splits sum.splits
      dest: apply_mutation_ok)

lemma recover_attempt_ok: "doc_ok (rc_document rc) \<Longrightarrow> doc_ok (rc_document (recover_attempt entry rc))"
  by (simp add: recover_attempt_def Let_def doc_ok_fields)

lemma fold_replay_ok: "doc_ok (rc_document rc) \<Longrightarrow> doc_ok (rc_document (fold replay_record rs rc))"
  by (induction rs arbitrary: rc) (simp_all add: replay_record_ok)

lemma fold_attempt_ok: "doc_ok (rc_document rc) \<Longrightarrow> doc_ok (rc_document (fold recover_attempt es rc))"
  by (induction es arbitrary: rc) (simp_all add: recover_attempt_ok)

lemma recover_ok: "doc_ok d \<Longrightarrow> doc_ok (rc_document (recover records d rep))"
  by (simp add: recover_def Let_def fold_attempt_ok fold_replay_ok)

lemma load_records_ok: "doc_ok d \<Longrightarrow> doc_ok (fst (load_records rs d rep))"
  by (induction rs d rep rule: load_records.induct) (auto simp: Let_def split: sum.splits dest: apply_mutation_ok)

lemma load_snapshot_ok:
  assumes "load_snapshot p opts w = (Inr (d, rep), w')"
  shows "doc_ok d"
proof -
  have "doc_ok d" if "load_records rs (empty_document\<lparr>dd_last_sequence := a, dd_epoch := e, dd_coordinator_boot := b,
      dd_coordinator_boot_counter := c\<rparr>) rep0 = (d, rep1)" for rs a e b c rep0 rep1
    using load_records_ok [of "empty_document\<lparr>dd_last_sequence := a, dd_epoch := e, dd_coordinator_boot := b,
      dd_coordinator_boot_counter := c\<rparr>" rs rep0] that doc_ok_empty by (simp add: doc_ok_fields)
  then show ?thesis
    using assms doc_ok_empty
    by (auto simp: load_snapshot_def Let_def split: prod.splits option.splits bool.splits sum.splits if_splits)
qed

lemma store_open_ok: "store_open dir opts w = (Inr st, w') \<Longrightarrow> doc_ok (st_document st)"
  by (auto simp: store_open_def Let_def split: if_splits prod.splits sum.splits
      intro!: recover_ok dest!: load_snapshot_ok)

lemma commit_ok_document:
  assumes "doc_ok (st_document st)" and "commit k b s st w = (res, st', w')"
  shows "doc_ok (st_document st')"
proof (cases "accepts k b st")
  case False
  then show ?thesis using assms commit_refused [OF False, of s w] by auto
next
  case True
  obtain n j' w1 where run: "append_run (txn_entries k b s (jn_next_sequence (st_journal st))) (st_journal st) w = (n, j', w1)"
    by (metis prod_cases3)
  note c = commit_appends [OF True run]
  show ?thesis
  proof (cases "n = 3")
    case False
    then show ?thesis using c assms by auto
  next
    case n: True
    obtain d where d: "apply_mutation k b (st_document st) = Inr d"
      and st': "st' = (let (d2, pruned) = prune_document (st_options st)
                (d\<lparr>dd_last_sequence := jn_next_sequence j' - 1, dd_authority_generation := ms_generation s,
                   dd_mutation_count := dd_mutation_count d + 1\<rparr>)
          in st\<lparr>st_journal := j', st_document := d2, st_pruned_records := st_pruned_records st + pruned\<rparr>)"
      using c n assms(2) by auto
    obtain d2 pruned where p: "prune_document (st_options st)
        (d\<lparr>dd_last_sequence := jn_next_sequence j' - 1, dd_authority_generation := ms_generation s,
           dd_mutation_count := dd_mutation_count d + 1\<rparr>) = (d2, pruned)" by (metis prod.exhaust)
    have "doc_ok d" using apply_mutation_ok [OF assms(1) d] .
    then have "doc_ok d2" by (intro prune_ok [OF _ p]) (simp add: doc_ok_fields)
    then show ?thesis by (simp add: st' p)
  qed
qed

lemma checkpoint_document: "checkpoint st w = (res, st', w') \<Longrightarrow> st_document st' = st_document st"
  by (auto simp: checkpoint_def Let_def split: if_splits sum.splits prod.splits)

text \<open>The stores a process can hold: opened on any directory contents, then mutated and compacted.\<close>

inductive reachable_store :: "Store \<Rightarrow> bool" where
  reach_open: "store_open dir opts w = (Inr st, w') \<Longrightarrow> reachable_store st"
| reach_commit: "reachable_store st \<Longrightarrow> commit k b s st w = (res, st', w') \<Longrightarrow> reachable_store st'"
| reach_checkpoint: "reachable_store st \<Longrightarrow> checkpoint st w = (res, st', w') \<Longrightarrow> reachable_store st'"

lemma reachable_ok: "reachable_store st \<Longrightarrow> doc_ok (st_document st)"
  by (induction rule: reachable_store.induct)
    (auto dest: store_open_ok commit_ok_document checkpoint_document)

lemma find_domain_mem:
  assumes "sorted_wrt (<) (map ds_domain ds)"
  shows "find_domain d ds = Some s \<longleftrightarrow> s \<in> set ds \<and> ds_domain s = d"
proof -
  note split = domains_split [OF assms, of d]
  have "s \<in> set ds \<longleftrightarrow> s \<in> set (domains_below d ds) \<or> s \<in> set (domains_from d ds)"
    by (subst split(1)) simp
  moreover have "sorted_wrt (<) (map ds_domain (domains_from d ds))"
    using assms by (subst (asm) split(1)) (simp add: sorted_wrt_append)
  ultimately have mem: "s \<in> set ds \<and> ds_domain s = d \<longleftrightarrow> s \<in> set (domains_from d ds) \<and> ds_domain s = d"
    and sorted: "sorted_wrt (<) (map ds_domain (domains_from d ds))" using split(2) by auto
  show ?thesis
  proof (cases "domains_from d ds")
    case Nil
    then show ?thesis unfolding mem by (simp add: find_domain_def)
  next
    case (Cons y ys)
    have "d \<le> ds_domain y" "\<forall>x \<in> set ys. ds_domain y < ds_domain x" using split(3) sorted by (simp_all add: Cons)
    then show ?thesis unfolding mem by (auto simp: find_domain_def Cons)
  qed
qed

text \<open>C36: the document of a store is always well formed. Open a store on a directory with any contents, under any
  pattern of I/O faults, and commit and compact it in any order, successfully or not: the domain states are
  strictly ordered by identity, so the binary search for a domain finds exactly the state stored for
  it; interventions, fences and provenance are without duplicates; and the policy, topology and
  capacity have passed validation, the policy under its own fingerprint.\<close>

theorem store_document_well_formed:
  assumes "reachable_store st"
  shows "case st_document st of d \<Rightarrow>
    sorted_wrt (<) (map ds_domain (dd_domains d)) \<and>
    (\<forall>x s. find_domain x (dd_domains d) = Some s \<longleftrightarrow> s \<in> set (dd_domains d) \<and> ds_domain s = x) \<and>
    distinct (map ic_id (dd_interventions d)) \<and> distinct (map fe_id (dd_fences d)) \<and> distinct (map pv_id (dd_provenance d)) \<and>
    (\<forall>p. dd_policy d = Some p \<longrightarrow> validate_policy p = Inr p) \<and>
    (\<forall>t. dd_topology d = Some t \<longrightarrow> validate_topology t = Inr ()) \<and>
    (\<forall>c. dd_capacity d = Some c \<longrightarrow> validate_capacity c = Inr ())"
proof -
  have ok: "doc_ok (st_document st)" by (rule reachable_ok [OF assms])
  then have "sorted_wrt (<) (map ds_domain (dd_domains (st_document st)))" by (simp add: doc_ok_def)
  from find_domain_mem [OF this] ok show ?thesis unfolding doc_ok_def update_ok_iff by simp
qed

section \<open>Writing a document as updates\<close>

fun encode_update :: "DocUpdate \<Rightarrow> (MutationKind \<times> bytes) result" where
  "encode_update (U_Policy p) = with_kind Mu_PolicySet (encode_policy p)"
| "encode_update (U_Topology t) = with_kind Mu_TopologySet (encode_topology t)"
| "encode_update (U_Capacity c) = with_kind Mu_CapacitySet (encode_capacity c)"
| "encode_update (U_Domain s) = with_kind Mu_DomainState (encode_domain_state s)"
| "encode_update (U_Intervention r) = with_kind Mu_Intervention (encode_intervention r)"
| "encode_update (U_Fence r) = with_kind Mu_Fence (encode_fence r)"
| "encode_update (U_Epoch e) = with_kind Mu_EpochAdvance (encode_epoch (fst e) (fst (snd e)) (snd (snd e)))"
| "encode_update (U_Revalidation r) = with_kind Mu_Revalidation (encode_revalidation r)"
| "encode_update (U_History h) = with_kind Mu_HistoryAppend (encode_history h)"
| "encode_update (U_Attempt r) = with_kind Mu_AttemptRecord (encode_attempt r)"
| "encode_update (U_Provenance r) = with_kind Mu_ProvenanceAppend (encode_provenance r)"

lemma document_bodies_updates: "document_bodies d = collect (map encode_update (doc_updates d))"
  unfolding document_bodies_def doc_updates_def map_append map_map comp_def encode_update.simps
  by (intro arg_cong [of _ _ collect] arg_cong2 [of _ _ _ _ append] refl) (simp_all split: option.splits)

lemma with_kind_Inr: "with_kind k r = Inr (k', b) \<longleftrightarrow> k' = k \<and> r = Inr b"
  by (auto simp: with_kind_def split: sum.splits)

lemma decode_encode_update:
  assumes "encode_update u = Inr (k, b)" and "update_ok u"
  shows "decode_update k b = Inr u \<and> k \<noteq> Mu_Unknown \<and> k \<noteq> Mu_Count"
proof (cases u)
  case (U_Policy p)
  then show ?thesis
    using assms policy.decode_encode [of p b] validate_policy_Inr [of p p]
    by (auto simp: with_kind_Inr decode_update_def)
next
  case (U_Topology t)
  then show ?thesis using assms topology.decode_encode [of t b] by (simp add: with_kind_Inr decode_update_def)
next
  case (U_Capacity c)
  then show ?thesis using assms capacity.decode_encode [of c b] by (simp add: with_kind_Inr decode_update_def)
next
  case (U_Epoch e)
  then show ?thesis
    using assms by (simp add: with_kind_Inr decode_update_def payload_defs payload_enc payload_dec)
qed (use assms in \<open>simp_all add: with_kind_Inr decode_update_def payload_defs payload_enc payload_dec\<close>)

lemma collect_Inr: "collect (map f xs) = Inr ys \<longleftrightarrow> list_all2 (\<lambda>x y. f x = Inr y) xs ys"
proof (induction xs arbitrary: ys)
  case (Cons x xs)
  show ?case
  proof (cases "f x")
    case (Inr a)
    then show ?thesis using Cons.IH by (cases "collect (map f xs)") (auto simp: list_all2_Cons1)
  qed (auto simp: list_all2_Cons1)
qed auto

text \<open>Loading the records of a checkpoint performs the updates.\<close>

lemma load_records_updates:
  assumes "list_all2 (\<lambda>u r. \<exists>k b. encode_update u = Inr (k, b) \<and> jrec_payload r = frame_body k b) us rs"
    and "list_all update_ok us"
  shows "load_records rs d rep = (fold perform us d, rep)"
  using assms
proof (induction us rs arbitrary: d rule: list_all2_induct)
  case (Cons u us r rs)
  then obtain k b where u: "encode_update u = Inr (k, b)" "jrec_payload r = frame_body k b" by blast
  with Cons.prems decode_encode_update [OF u(1)] have "decode_update k b = Inr u" "k \<noteq> Mu_Unknown" "k \<noteq> Mu_Count"
    by simp_all
  then show ?case
    using Cons u(2) by (simp add: unframe_frame apply_mutation_perform)
qed simp

text \<open>The updates of a well-formed document rebuild it.\<close>

lemma perform_domains: "fold perform (map U_Domain xs) d = d\<lparr>dd_domains := fold upsert_domain xs (dd_domains d)\<rparr>"
  by (induction xs arbitrary: d) simp_all

lemma perform_interventions: "fold perform (map U_Intervention xs) d = d\<lparr>dd_interventions := fold (append_new ic_id) xs (dd_interventions d)\<rparr>"
  by (induction xs arbitrary: d) simp_all

lemma perform_fences: "fold perform (map U_Fence xs) d = d\<lparr>dd_fences := fold (append_new fe_id) xs (dd_fences d)\<rparr>"
  by (induction xs arbitrary: d) simp_all

lemma perform_history: "fold perform (map U_History xs) d = d\<lparr>dd_history := dd_history d @ xs\<rparr>"
  by (induction xs arbitrary: d) simp_all

lemma perform_attempts: "fold perform (map U_Attempt xs) d = d\<lparr>dd_attempts := dd_attempts d @ xs\<rparr>"
  by (induction xs arbitrary: d) simp_all

lemma perform_provenance: "fold perform (map U_Provenance xs) d = d\<lparr>dd_provenance := fold (append_new pv_id) xs (dd_provenance d)\<rparr>"
  by (induction xs arbitrary: d) simp_all

lemma perform_revalidations: "fold perform (map U_Revalidation xs) d = d\<lparr>dd_revalidations := dd_revalidations d @ xs\<rparr>"
  by (induction xs arbitrary: d) simp_all

lemmas fold_perform_lists = perform_domains perform_interventions perform_fences perform_history
  perform_attempts perform_provenance perform_revalidations

lemma fold_doc_updates:
  assumes "doc_ok d"
  shows "fold perform (doc_updates d) (empty_document\<lparr>dd_last_sequence := dd_last_sequence d, dd_epoch := dd_epoch d,
      dd_coordinator_boot := dd_coordinator_boot d, dd_coordinator_boot_counter := dd_coordinator_boot_counter d\<rparr>) =
    d\<lparr>dd_authority_generation := 0, dd_mutation_count := 0\<rparr>"
proof -
  have ups: "fold upsert_domain (dd_domains d) [] = dd_domains d"
    "fold (append_new ic_id) (dd_interventions d) [] = dd_interventions d"
    "fold (append_new fe_id) (dd_fences d) [] = dd_fences d"
    "fold (append_new pv_id) (dd_provenance d) [] = dd_provenance d"
    using assms fold_upsert [of "[]"] fold_append_new [of ic_id "[]" "dd_interventions d"]
      fold_append_new [of fe_id "[]" "dd_fences d"] fold_append_new [of pv_id "[]" "dd_provenance d"]
    by (simp_all add: doc_ok_def)
  show ?thesis
    unfolding doc_updates_def fold_append comp_def fold_perform_lists
    by (cases d) (use ups in \<open>simp add: empty_document_def split: option.splits\<close>)
qed

section \<open>Compaction\<close>

lemma list_all2_enumerate:
  "list_all2 P us bodies \<Longrightarrow> (\<And>u i e. P u e \<Longrightarrow> Q u (f (i, e))) \<Longrightarrow> list_all2 Q us (map f (enumerate n bodies))"
  by (induction arbitrary: n rule: list_all2_induct) simp_all

lemma checkpoint_records_updates:
  assumes "checkpoint_records d = Inr rs"
  shows "list_all2 (\<lambda>u r. \<exists>k b. encode_update u = Inr (k, b) \<and> jrec_payload r = frame_body k b) (doc_updates d) (map seal_record rs)"
proof -
  obtain bodies where bodies: "list_all2 (\<lambda>u e. encode_update u = Inr e) (doc_updates d) bodies"
    and rs: "rs = map (\<lambda>(i, kind, body). checkpoint_record (dd_epoch d) kind body (of_nat i)) (enumerate 1 bodies)"
    using assms by (auto simp: checkpoint_records_def document_bodies_updates collect_Inr split: sum.splits)
  show ?thesis
    unfolding rs map_map
    by (rule list_all2_enumerate [OF bodies]) (auto simp: seal_record_simps checkpoint_record_def)
qed

text \<open>A container of the document, written under the bounds of a checkpoint, loads under the bounds of an open.\<close>

lemma checkpoint_loads:
  assumes recs: "checkpoint_records d = Inr rs" and ok: "doc_ok d"
    and built: "build_snapshot (checkpoint_header d) rs opts = Inr bs" and "so_max_bytes opts = kMaxSnapshotBytes"
    and room: "length rs \<le> unat (so_max_records (open_snapshot_options sopts))"
  shows "stable_snapshot p sopts (d\<lparr>dd_authority_generation := 0, dd_mutation_count := 0\<rparr>)
    (Some \<lparr>fl_bytes = bs, fl_synced = length bs\<rparr>)"
proof -
  let ?oo = "open_snapshot_options sopts"
  have "build_snapshot (checkpoint_header d) rs ?oo = Inr bs"
    using built assms(4) room
    by (auto simp: build_snapshot_def open_snapshot_options_def not_less split: if_splits sum.splits)
  from build_snapshot_parse [OF this] obtain pb crc where len: "length bs \<le> unat (so_max_bytes ?oo)"
    and parse: "parse_snapshot ?oo bs = Inr \<lparr>sc_header = final_snapshot_header (checkpoint_header d) (length rs) pb crc,
      sc_records = map seal_record rs, sc_complete = True\<rparr>" by blast
  let ?rep = "empty_report\<lparr>sr_snapshot_present := True\<rparr>"
  have loaded: "load_records (map seal_record rs) (empty_document\<lparr>dd_last_sequence := dd_last_sequence d, dd_epoch := dd_epoch d,
      dd_coordinator_boot := dd_coordinator_boot d, dd_coordinator_boot_counter := dd_coordinator_boot_counter d\<rparr>) ?rep =
    (d\<lparr>dd_authority_generation := 0, dd_mutation_count := 0\<rparr>, ?rep)"
    using load_records_updates [OF checkpoint_records_updates [OF recs]] fold_doc_updates [OF ok] ok
    by (simp add: doc_ok_def)
  have "load_snapshot p sopts w = (Inr (d\<lparr>dd_authority_generation := 0, dd_mutation_count := 0\<rparr>,
      ?rep\<lparr>sr_snapshot_loaded := True\<rparr>), w)"
    if "wd_script w = []" "wd_files w p = Some \<lparr>fl_bytes = bs, fl_synced = length bs\<rparr>" for w
  proof -
    have "read_snapshot p ?oo w = (parse_snapshot ?oo bs, w)"
      using read_file_ok [OF that] len by (simp add: read_snapshot_def)
    then show ?thesis
      using that loaded
      by (simp add: load_snapshot_def fs_exists_def io_simps parse final_snapshot_fields checkpoint_header_def
          empty_report_def)
  qed
  then show ?thesis by (auto simp: stable_snapshot_def)
qed

subsection \<open>The old journal over the new snapshot\<close>

text \<open>The document counts every record of the journal but the marker of an earlier compaction.\<close>

definition covered :: "JournalRecord list \<Rightarrow> Store \<Rightarrow> bool" where
  "covered log st \<longleftrightarrow> dd_last_sequence (st_document st) < jn_next_sequence (st_journal st) \<and>
     (\<forall>r \<in> set log. rh_sequence (jrec_header r) < jn_next_sequence (st_journal st) \<and>
       (rh_sequence (jrec_header r) \<le> dd_last_sequence (st_document st) \<or> RecordType (rh_type (jrec_header r)) = Rt_Rebase))"

definition skip_record :: "JournalRecord \<Rightarrow> DurableDocument \<Rightarrow> DurableDocument" where
  "skip_record r d = (if rh_sequence (jrec_header r) \<le> dd_last_sequence d then d
     else d\<lparr>dd_last_sequence := rh_sequence (jrec_header r)\<rparr>)"

lemma replay_skips:
  assumes "settled d rc" and "rh_sequence (jrec_header r) \<le> dd_last_sequence d \<or> RecordType (rh_type (jrec_header r)) = Rt_Rebase"
  shows "settled (skip_record r d) (replay_record r rc)"
  using assms by (auto simp: settled_def replay_record_def skip_record_def set_last_sequence_def Let_def)

lemma fold_skips:
  assumes "settled d rc" and "l \<le> dd_last_sequence d" and "dd_last_sequence d < n"
    and "\<forall>r \<in> set log. rh_sequence (jrec_header r) < n \<and>
      (rh_sequence (jrec_header r) \<le> l \<or> RecordType (rh_type (jrec_header r)) = Rt_Rebase)"
  shows "settled (fold skip_record log d) (fold replay_record log rc) \<and>
    content (fold skip_record log d) = content d \<and> dd_last_sequence (fold skip_record log d) < n"
  using assms
proof (induction log arbitrary: d rc)
  case (Cons r log)
  have r: "rh_sequence (jrec_header r) \<le> dd_last_sequence d \<or> RecordType (rh_type (jrec_header r)) = Rt_Rebase"
    using Cons.prems(2,4) by auto
  have "l \<le> dd_last_sequence (skip_record r d)" "dd_last_sequence (skip_record r d) < n"
    using Cons.prems(2-4) by (auto simp: skip_record_def)
  from Cons.IH [OF replay_skips [OF Cons.prems(1) r] this] Cons.prems(4) show ?case
    by (simp add: skip_record_def)
qed simp

lemma covered_replays:
  assumes "covered log st" and "content base = content (st_document st)"
    and "dd_last_sequence base = dd_last_sequence (st_document st)"
  shows "\<exists>d. replays_to log base d \<and> content d = content (st_document st) \<and>
    dd_last_sequence d < jn_next_sequence (st_journal st)"
proof -
  have "settled (fold skip_record log base) (fold replay_record log \<lparr>rc_document = base, rc_pending = [], rc_report = rep\<rparr>) \<and>
      content (fold skip_record log base) = content base \<and>
      dd_last_sequence (fold skip_record log base) < jn_next_sequence (st_journal st)" for rep
    using assms(1,3) by (intro fold_skips [where l = "dd_last_sequence base"]) (auto simp: settled_def covered_def)
  then show ?thesis using assms(2) unfolding replays_to_def by metis
qed

subsection \<open>Frames\<close>

lemma write_snapshot_frame:
  assumes "write_snapshot p h rs opts w = (res, w')" and "so_sync opts" and "q \<noteq> p" and "q \<noteq> p @ ''.tmp''"
  shows "wd_files w' q = wd_files w q"
proof (cases "build_snapshot h rs opts")
  case (Inl e)
  with assms(1) show ?thesis by (auto simp: write_snapshot_def)
next
  case (Inr bs)
  obtain r1 w1 where wf: "write_file (p @ ''.tmp'') bs True w = (r1, w1)" by (cases "write_file (p @ ''.tmp'') bs True w")
  obtain out w2 where out: "take_outcome w1 = (out, w2)" by (cases "take_outcome w1")
  have "wd_files w1 q = wd_files w q" using write_file_effect [OF wf] assms(4) by blast
  then show ?thesis
    using assms Inr wf take_outcome_files [OF out]
    by (cases r1) (auto simp: write_snapshot_def atomic_replace_def fs_rename_def out Let_def split: if_splits)
qed

lemma read_file_files: "read_file p m w = (res, w') \<Longrightarrow> wd_files w' = wd_files w"
  by (auto simp: read_file_def fopen_def stream_size_def ftell_def fseek_end_def fseek_set_def fread_def Let_def
      split: prod.splits option.splits sum.splits if_splits dest!: take_outcome_files)

lemma read_snapshot_files: "read_snapshot p opts w = (res, w') \<Longrightarrow> wd_files w' = wd_files w"
  by (auto simp: read_snapshot_def split: prod.splits sum.splits dest: read_file_files)

lemma durable_files:
  assumes "durable log base st w" and "wd_files w' (st_snapshot_path st) = wd_files w (st_snapshot_path st)"
    and "wd_files w' (jn_path (st_journal st)) = wd_files w (jn_path (st_journal st))"
  shows "durable log base st w'"
  using assms by (simp add: durable_def journal_at_def holds_def)

subsection \<open>The steps of a checkpoint\<close>

definition rebase_record :: "DurableDocument \<Rightarrow> u64 \<Rightarrow> JournalRecord" where
  "rebase_record d n = appended Rt_Rebase (dd_epoch d) (dd_authority_generation d) 0 [] n"

text \<open>Rebasing either leaves every file alone, or restarts the journal file with the marker.\<close>

lemma rebase_outcome:
  assumes at: "journal_at log j w" and out: "rebase e g j w = (res, j', w')"
  shows "(res \<noteq> Inr () \<and> wd_files w' = wd_files w) \<or>
    (jn_path j' = jn_path j \<and> jn_options j' = jn_options j \<and>
     (\<forall>q. q \<noteq> jn_path j \<longrightarrow> wd_files w' q = wd_files w q) \<and>
     (\<exists>n. run_left [] [appended Rt_Rebase e g 0 [] (jn_next_sequence j)] n j' w') \<and>
     (res = Inr () \<longrightarrow> journal_at [appended Rt_Rebase e g 0 [] (jn_next_sequence j)] j' w' \<and>
        jn_next_sequence j' = jn_next_sequence j + 1))"
proof -
  note a = at [unfolded journal_at_def holds_def options_ok_def]
  obtain o1 w1 where o1: "take_outcome w = (o1, w1)" by (cases "take_outcome w")
  have files: "wd_files w1 = wd_files w" by (rule take_outcome_files [OF o1])
  let ?w2 = "put_file (jn_path j) (Some \<lparr>fl_bytes = [], fl_synced = 0\<rparr>) w1"
  let ?j2 = "j\<lparr>jn_file := Some \<lparr>sm_path = jn_path j, sm_pos = 0\<rparr>, jn_size := 0\<rparr>"
  let ?es = "[(Rt_Rebase, e, g, 0, [])] :: Entry list"
  show ?thesis
  proof (cases "o1 = Io_Ok")
    case False
    then show ?thesis using out a o1 files by (auto simp: rebase_def fopen_def Let_def)
  next
    case True
    then have app: "journal_append Rt_Rebase e g 0 [] ?j2 ?w2 = (res, j', w')"
      using out a o1 by (simp add: rebase_def fopen_def Let_def)
    have at2: "journal_at [] ?j2 ?w2" using at by (simp add: journal_at_def holds_def)
    have ok: "list_all entry_ok ?es" by (simp add: entry_ok_def)
    obtain n where run: "append_run ?es ?j2 ?w2 = (n, j', w')" "n = 1 \<longleftrightarrow> res = Inr ()"
      using app by (cases res) auto
    have "run_left [] (numbered (jn_next_sequence ?j2) ?es) n j' w'" using append_run_left [OF at2 ok] run by simp
    moreover have "jn_path j' = jn_path j" "jn_options j' = jn_options j" using append_run_same [OF at2 ok run(1)] by simp_all
    moreover have "wd_files w' q = wd_files w q" if "q \<noteq> jn_path j" for q
      using append_run_frame [OF at2 ok run(1)] that files by simp
    moreover have "journal_at (numbered (jn_next_sequence ?j2) ?es) j' w' \<and> jn_next_sequence j' = jn_next_sequence j + 1" if "res = Inr ()"
      using append_run_all [OF at2 ok, of j' w'] run that by simp
    ultimately show ?thesis by auto
  qed
qed

lemma checkpoint_fails_early:
  assumes "checkpoint st w = (res, st', w')" and "st_open st" and "sp_sync_on_append (st_options st)"
    and "\<And>rs. checkpoint_records (st_document st) = Inr rs \<Longrightarrow> validate_records rs = Inr () \<Longrightarrow>
      fst (write_snapshot (st_snapshot_path st) (checkpoint_header (st_document st)) rs
        \<lparr>so_max_bytes = kMaxSnapshotBytes, so_max_records = of_nat (length rs) + 1, so_sync = True\<rparr> w) \<noteq> Inr ()"
  shows "res \<noteq> Inr () \<and> st' = st \<and> (\<forall>q. q \<noteq> st_snapshot_path st @ ''.tmp'' \<longrightarrow> wd_files w' q = wd_files w q)"
proof (cases "\<exists>rs. checkpoint_records (st_document st) = Inr rs \<and> validate_records rs = Inr ()")
  case False
  then show ?thesis using assms(1,2) by (auto simp: checkpoint_def Let_def split: sum.splits)
next
  case True
  then obtain rs where rs: "checkpoint_records (st_document st) = Inr rs" "validate_records rs = Inr ()" by blast
  let ?opts = "\<lparr>so_max_bytes = kMaxSnapshotBytes, so_max_records = of_nat (length rs) + 1, so_sync = True\<rparr> :: SnapshotOptions"
  obtain r1 w1 where ws: "write_snapshot (st_snapshot_path st) (checkpoint_header (st_document st)) rs ?opts w = (r1, w1)"
    by (cases "write_snapshot (st_snapshot_path st) (checkpoint_header (st_document st)) rs ?opts w")
  have r1: "r1 \<noteq> Inr ()" using assms(4) [OF rs] ws by simp
  then obtain e where "r1 = Inl e" by (cases r1) simp_all
  then have "res = r1" "st' = st" "w' = w1"
    using assms(1-3) rs ws by (simp_all add: checkpoint_def Let_def)
  moreover have "wd_files w1 q = wd_files w q" if "q \<noteq> st_snapshot_path st @ ''.tmp''" for q
    using write_snapshot_effect [OF ws] write_snapshot_frame [OF ws _ _ that] r1
    by (cases "q = st_snapshot_path st") simp_all
  ultimately show ?thesis using r1 by blast
qed

lemma checkpoint_written:
  assumes out: "checkpoint st w = (res, st', w')" and "st_open st" and "sp_sync_on_append (st_options st)"
    and rs: "checkpoint_records (st_document st) = Inr rs" "validate_records rs = Inr ()"
    and ws: "write_snapshot (st_snapshot_path st) (checkpoint_header (st_document st)) rs
        \<lparr>so_max_bytes = kMaxSnapshotBytes, so_max_records = of_nat (length rs) + 1, so_sync = True\<rparr> w = (Inr (), w1)"
  shows "(res \<noteq> Inr () \<and> wd_files w' = wd_files w1) \<or>
    (\<exists>w2 j'. wd_files w2 = wd_files w1 \<and> rebase (dd_epoch (st_document st)) (dd_authority_generation (st_document st))
       (st_journal st) w2 = (res, j', w') \<and> st' = st\<lparr>st_journal := j'\<rparr>)"
proof -
  let ?opts = "\<lparr>so_max_bytes = kMaxSnapshotBytes, so_max_records = of_nat (length rs) + 1, so_sync = True\<rparr> :: SnapshotOptions"
  obtain r2 w2 where rd: "read_snapshot (st_snapshot_path st) ?opts w1 = (r2, w2)"
    by (cases "read_snapshot (st_snapshot_path st) ?opts w1")
  have "wd_files w2 = wd_files w1" by (rule read_snapshot_files [OF rd])
  with assms rd show ?thesis
    by (auto simp: checkpoint_def Let_def split: sum.splits if_splits prod.splits)
qed

lemma placed_paths:
  assumes "placed st"
  shows "jn_path (st_journal st) \<noteq> st_snapshot_path st" "jn_path (st_journal st) \<noteq> st_snapshot_path st @ ''.tmp''"
    "st_snapshot_path st \<noteq> st_snapshot_path st @ ''.tmp''"
  using assms by (simp_all add: placed_def)

lemma durable_sync: "durable log base st w \<Longrightarrow> sp_sync_on_append (st_options st) \<and> st_open st"
  by (auto simp: durable_def placed_def journal_at_def options_ok_def store_journal_options_def)

text \<open>The new snapshot under the old journal stands for the same document.\<close>

lemma snapshot_in_place:
  assumes dur: "durable log base st w" and ok: "doc_ok (st_document st)" and cov: "covered log st"
    and room: "length (doc_updates (st_document st)) \<le> unat (so_max_records (open_snapshot_options (st_options st)))"
    and rs: "checkpoint_records (st_document st) = Inr rs"
    and ws: "write_snapshot (st_snapshot_path st) (checkpoint_header (st_document st)) rs
        \<lparr>so_max_bytes = kMaxSnapshotBytes, so_max_records = of_nat (length rs) + 1, so_sync = True\<rparr> w = (Inr (), w1)"
  shows "durable log ((st_document st)\<lparr>dd_authority_generation := 0, dd_mutation_count := 0\<rparr>) st w1"
proof -
  let ?d = "st_document st" and ?p = "st_snapshot_path st"
  let ?base = "?d\<lparr>dd_authority_generation := 0, dd_mutation_count := 0\<rparr>"
  have pl: "placed st" using dur by (simp add: durable_def)
  obtain bs where built: "build_snapshot (checkpoint_header ?d) rs \<lparr>so_max_bytes = kMaxSnapshotBytes, so_max_records = of_nat (length rs) + 1, so_sync = True\<rparr> = Inr bs"
    and f: "wd_files w1 ?p = Some \<lparr>fl_bytes = bs, fl_synced = length bs\<rparr>"
    using write_snapshot_effect [OF ws] by auto
  have "length rs = length (doc_updates ?d)"
    using list_all2_lengthD [OF checkpoint_records_updates [OF rs]] by simp
  then have stable: "stable_snapshot ?p (st_options st) ?base (wd_files w1 ?p)"
    using checkpoint_loads [OF rs ok built] room by (simp add: f)
  have "wd_files w1 (jn_path (st_journal st)) = wd_files w (jn_path (st_journal st))"
    using write_snapshot_frame [OF ws] placed_paths [OF pl] by simp
  then have "journal_at log (st_journal st) w1" using dur by (simp add: durable_def journal_at_def holds_def)
  then show ?thesis
    using stable pl covered_replays [OF cov, of ?base] by (simp add: durable_def)
qed

lemma rebased:
  assumes dur: "durable log base st w" and base: "content base = content (st_document st)"
      "dd_last_sequence base = dd_last_sequence (st_document st)"
    and cov: "covered log st" and seq: "unat (jn_next_sequence (st_journal st)) + 1 < 2 ^ 64"
    and out: "rebase (dd_epoch (st_document st)) (dd_authority_generation (st_document st)) (st_journal st) w = (res, j', w')"
  shows "(\<forall>w2. crashes_to w' w2 \<longrightarrow>
      (\<exists>st2 w3. store_open (st_directory st) (st_options st) w2 = (Inr st2, w3) \<and>
         content (st_document st2) = content (st_document st))) \<and>
    (res = Inr () \<longrightarrow> (let r = rebase_record (st_document st) (jn_next_sequence (st_journal st));
        st' = st\<lparr>st_journal := j'\<rparr> in durable [r] base st' w' \<and> covered [r] st'))"
proof -
  let ?d = "st_document st" and ?n = "jn_next_sequence (st_journal st)"
  let ?r = "rebase_record ?d ?n" and ?st' = "st\<lparr>st_journal := j'\<rparr>"
  have pl: "placed st" and at: "journal_at log (st_journal st) w"
    and snap: "stable_snapshot (st_snapshot_path st) (st_options st) base (wd_files w (st_snapshot_path st))"
    using dur by (simp_all add: durable_def)
  have less: "dd_last_sequence base < ?n" using cov base(2) by (simp add: covered_def)
  have rec: "settled (base\<lparr>dd_last_sequence := ?n\<rparr>) (replay_record ?r \<lparr>rc_document = base, rc_pending = [], rc_report = rep\<rparr>)" for rep
    using replay_skips [of base "\<lparr>rc_document = base, rc_pending = [], rc_report = rep\<rparr>" ?r] less
    by (simp add: settled_def rebase_record_def skip_record_def)
  consider "res \<noteq> Inr ()" "wd_files w' = wd_files w"
    | n where "jn_path j' = jn_path (st_journal st)" "jn_options j' = jn_options (st_journal st)"
      "\<forall>q. q \<noteq> jn_path (st_journal st) \<longrightarrow> wd_files w' q = wd_files w q" "run_left [] [?r] n j' w'"
      "res = Inr () \<longrightarrow> journal_at [?r] j' w' \<and> jn_next_sequence j' = ?n + 1"
    using rebase_outcome [OF at out] by (auto simp: rebase_record_def)
  then show ?thesis
  proof cases
    case 1
    then have "durable log base st w'" using durable_files [OF dur] by simp
    then show ?thesis using 1(1) crash_between by blast
  next
    case 2
    have files: "wd_files w' (st_snapshot_path st) = wd_files w (st_snapshot_path st)"
      using 2(3) placed_paths [OF pl] by simp
    have pl': "placed ?st'" using pl 2(1,2) by (simp add: placed_def)
    have "\<exists>st2 w3. store_open (st_directory st) (st_options st) w2 = (Inr st2, w3) \<and>
        content (st_document st2) = content ?d" if crash: "crashes_to w' w2" for w2
    proof -
      from reopen [OF pl' _ _ crash, of base "[]" "[?r]" n] snap files 2(4) obtain st2 w3 m rep where
        o: "store_open (st_directory st) (st_options st) w2 = (Inr st2, w3)" "m \<le> 1"
          "st_document st2 = rc_document (recover (take m [?r]) base rep)" by auto
      have "m = 0 \<or> m = 1" using o(2) by linarith
      then have "content (rc_document (recover (take m [?r]) base rep)) = content base"
        using recover_settled [OF rec] by (auto simp: recover_def Let_def)
      then show ?thesis using o base(1) by auto
    qed
    moreover have "durable [?r] base ?st' w' \<and> covered [?r] ?st'" if "res = Inr ()"
    proof -
      have n1: "?n < ?n + 1" using seq by (simp add: word_less_nat_alt unat_word_ariths)
      have at': "journal_at [?r] j' w'" "jn_next_sequence j' = ?n + 1" using 2(5) that by simp_all
      have "replays_to [?r] base (base\<lparr>dd_last_sequence := ?n\<rparr>)" using rec by (simp add: replays_to_def)
      then have "durable [?r] base ?st' w'"
        using pl' at' snap files n1 base(1) by (auto simp: durable_def intro!: exI [of _ "base\<lparr>dd_last_sequence := ?n\<rparr>"])
      moreover have "covered [?r] ?st'"
        using at'(2) n1 less base(2) by (auto simp: covered_def rebase_record_def intro: less_trans)
      ultimately show ?thesis by blast
    qed
    ultimately show ?thesis by (simp add: Let_def)
  qed
qed

text \<open>C3: compaction loses nothing. Start from a store whose journal and snapshot stand for its document and
  checkpoint it under any pattern of I/O faults. The document in memory does not change; wherever the
  machine crashes (before the new snapshot is in place, between the snapshot and the restart of the
  journal, or inside that restart) opening the directory again succeeds and recovers the same content;
  and after a checkpoint that reports success the new snapshot and the restarted journal stand for the
  document again, so commits and further checkpoints may follow. The snapshot has no more records than the
  bound with which an open reads it.\<close>

theorem compaction_keeps_document:
  assumes dur: "durable log base st w" and ok: "doc_ok (st_document st)" and cov: "covered log st"
    and room: "length (doc_updates (st_document st)) \<le> unat (so_max_records (open_snapshot_options (st_options st)))"
    and seq: "unat (jn_next_sequence (st_journal st)) + 1 < 2 ^ 64"
    and out: "checkpoint st w = (res, st', w')"
  shows "st_document st' = st_document st \<and>
    (\<forall>w2. crashes_to w' w2 \<longrightarrow>
      (\<exists>st2 w3. store_open (st_directory st) (st_options st) w2 = (Inr st2, w3) \<and>
         content (st_document st2) = content (st_document st))) \<and>
    (res = Inr () \<longrightarrow> (\<exists>log' base'. durable log' base' st' w' \<and> covered log' st'))"
proof -
  let ?d = "st_document st" and ?p = "st_snapshot_path st"
  let ?opts = "\<lambda>rs. \<lparr>so_max_bytes = kMaxSnapshotBytes, so_max_records = of_nat (length rs) + 1, so_sync = True\<rparr> :: SnapshotOptions"
  let ?base = "?d\<lparr>dd_authority_generation := 0, dd_mutation_count := 0\<rparr>"
  have sync: "sp_sync_on_append (st_options st)" "st_open st" using durable_sync [OF dur] by simp_all
  have pl: "placed st" using dur by (simp add: durable_def)
  have "st_document st' = ?d" by (rule checkpoint_document [OF out])
  moreover have "(\<forall>w2. crashes_to w' w2 \<longrightarrow> (\<exists>st2 w3. store_open (st_directory st) (st_options st) w2 = (Inr st2, w3) \<and>
      content (st_document st2) = content ?d)) \<and> (res = Inr () \<longrightarrow> (\<exists>log' base'. durable log' base' st' w' \<and> covered log' st'))"
  proof (cases "\<exists>rs w1. checkpoint_records ?d = Inr rs \<and> validate_records rs = Inr () \<and>
      write_snapshot ?p (checkpoint_header ?d) rs (?opts rs) w = (Inr (), w1)")
    case False
    have early: "res \<noteq> Inr () \<and> st' = st \<and> (\<forall>q. q \<noteq> ?p @ ''.tmp'' \<longrightarrow> wd_files w' q = wd_files w q)"
    proof (rule checkpoint_fails_early [OF out sync(2,1)])
      fix rs
      assume "checkpoint_records ?d = Inr rs" "validate_records rs = Inr ()"
      with False show "fst (write_snapshot ?p (checkpoint_header ?d) rs (?opts rs) w) \<noteq> Inr ()"
        by (cases "write_snapshot ?p (checkpoint_header ?d) rs (?opts rs) w") auto
    qed
    then have "durable log base st w'" using durable_files [OF dur] placed_paths [OF pl] by simp
    from crash_between [OF this] early show ?thesis by simp
  next
    case True
    then obtain rs w1 where rs: "checkpoint_records ?d = Inr rs" "validate_records rs = Inr ()"
      and ws: "write_snapshot ?p (checkpoint_header ?d) rs (?opts rs) w = (Inr (), w1)" by blast
    note place = snapshot_in_place [OF dur ok cov room rs(1) ws]
    from checkpoint_written [OF out sync(2,1) rs ws] show ?thesis
    proof
      assume a: "res \<noteq> Inr () \<and> wd_files w' = wd_files w1"
      then have "durable log ?base st w'" using durable_files [OF place] by simp
      then show ?thesis using a crash_between by blast
    next
      assume "\<exists>w2 j'. wd_files w2 = wd_files w1 \<and> rebase (dd_epoch ?d) (dd_authority_generation ?d) (st_journal st) w2 = (res, j', w') \<and>
        st' = st\<lparr>st_journal := j'\<rparr>"
      then obtain w2 j' where a: "wd_files w2 = wd_files w1" "st' = st\<lparr>st_journal := j'\<rparr>"
        "rebase (dd_epoch ?d) (dd_authority_generation ?d) (st_journal st) w2 = (res, j', w')" by blast
      then have "durable log ?base st w2" using durable_files [OF place] by simp
      note whole = rebased [OF this _ _ cov seq a(3)]
      have "content ?base = content ?d" "dd_last_sequence ?base = dd_last_sequence ?d" by simp_all
      from whole [OF this] show ?thesis unfolding a(2) Let_def by blast
    qed
  qed
  ultimately show ?thesis by blast
qed

lemma commit_sequence:
  assumes "accepts k b st" and "commit k b s st w = (Inr (), st', w')"
  shows "dd_last_sequence (st_document st') = jn_next_sequence (st_journal st') - 1"
proof -
  obtain n j' w1 where run: "append_run (txn_entries k b s (jn_next_sequence (st_journal st))) (st_journal st) w = (n, j', w1)"
    by (metis prod_cases3)
  have "dd_last_sequence (fst (prune_document opts d)) = dd_last_sequence d" for opts d
    by (simp add: prune_document_def Let_def split: prod.splits)
  then show ?thesis
    using commit_appends [OF assms(1) run] assms(2)
    by (auto simp: Let_def case_prod_beta split: if_splits)
qed

section \<open>A worked store\<close>

lemma doc_updates_content: "doc_updates (content d) = doc_updates d" "dd_domains (content d) = dd_domains d"
  by (simp_all add: doc_updates_def content_def)

definition demo_state :: DomainState where
  "demo_state = initial_domain_state\<lparr>ds_domain := 5\<rparr>"

lemma demo_state_decodes: "decode_domain_state (domain_state_layout demo_state) = Inr demo_state"
  by (simp add: decode_domain_state_def payload_dec check_domain_state_def demo_state_def id_valid_def)

lemma demo_state_length: "length (domain_state_layout demo_state) \<le> 200"
  by (simp add: domain_state_layout_def)

lemma demo_store:
  "\<exists>st w st' w'. store_open ''d'' default_store_options \<lparr>wd_files = (\<lambda>_. None), wd_script = []\<rparr> = (Inr st, w) \<and>
     commit Mu_DomainState (domain_state_layout demo_state)
       \<lparr>ms_epoch = 1, ms_generation = 1, ms_attempt = 1, ms_provenance = 1, ms_tick = 1\<rparr> st w = (Inr (), st', w') \<and>
     st_directory st' = ''d'' \<and> st_options st' = default_store_options \<and> dd_domains (st_document st') = [demo_state] \<and>
     doc_updates (st_document st') = [U_Domain demo_state] \<and> jn_next_sequence (st_journal st') = 4 \<and>
     (\<exists>log. durable log empty_document st' w' \<and> covered log st')"
proof -
  let ?b = "domain_state_layout demo_state" and ?w0 = "\<lparr>wd_files = (\<lambda>_. None), wd_script = []\<rparr>"
  let ?s = "\<lparr>ms_epoch = 1, ms_generation = 1, ms_attempt = 1, ms_provenance = 1, ms_tick = 1\<rparr>"
  let ?opts = default_store_options
  obtain st w where st: "store_open ''d'' ?opts ?w0 = (Inr st, w)" "durable [] empty_document st w"
    "st_document st = empty_document" "st_directory st = ''d''" "st_options st = ?opts"
    "jn_next_sequence (st_journal st) = 1" and w: "w = put_file ''d/ncf.journal'' (Some \<lparr>fl_bytes = [], fl_synced = 0\<rparr>) ?w0"
    using fresh_store [of ?w0 "''d''" ?opts] by (auto simp: quiet_def default_store_options_def)
  have ap: "apply_mutation Mu_DomainState ?b empty_document = Inr (empty_document\<lparr>dd_domains := [demo_state]\<rparr>)"
    by (simp add: apply_mutation_def demo_state_decodes empty_document_def upsert_domain_def domains_from_def domains_below_def)
  have acc: "accepts Mu_DomainState ?b st"
    using st(2,3,5) demo_state_length
    by (simp add: accepts_def durable_def placed_def enforce_growth_limits_def validate_body_def decoded_ok_def
        demo_state_decodes kMutationPrefix_def kMaxJournalRecordBytes_def empty_document_def default_store_options_def
        kMaxDomains_def)
  have quiet: "quiet w" by (simp add: w quiet_def)
  obtain st' w' where c: "commit Mu_DomainState ?b ?s st w = (Inr (), st', w')"
    using commit_ok [OF st(2) quiet acc, of ?s] demo_state_length by (auto simp: kMaxJournalBytes_def)
  have fit: "fits (st_options st) (apply_or_keep (Mu_DomainState, ?b) (st_document st))"
    unfolding apply_or_keep_def st(3,5) fst_conv snd_conv ap sum.case
    by (simp add: fits_def under_def empty_document_def)
  let ?log = "txn_records Mu_DomainState ?b ?s 1"
  have step: "durable ?log empty_document st' w'" "content (st_document st') = content (empty_document\<lparr>dd_domains := [demo_state]\<rparr>)"
    "jn_next_sequence (st_journal st') = 4" "st_directory st' = ''d''" "st_options st' = ?opts"
    using commit_step [OF st(2) c _ fit] by (simp_all add: st(3-6) apply_or_keep_def ap)
  have doc: "doc_updates (content (st_document st')) = [U_Domain demo_state]" "dd_domains (content (st_document st')) = [demo_state]"
    unfolding step(2) by (simp_all add: doc_updates_def content_def empty_document_def id_valid_def)
  have "dd_last_sequence (st_document st') = 3"
    using commit_sequence [OF acc c] by (simp add: step(3))
  then have "covered ?log st'"
    by (simp add: covered_def step(3) txn_records_eq)
  moreover have "doc_updates (st_document st') = [U_Domain demo_state]" "dd_domains (st_document st') = [demo_state]"
    using doc by (simp_all add: doc_updates_content)
  ultimately show ?thesis using st(1) c step by blast
qed

theorem store_document_well_formed_witness:
  "\<exists>st. reachable_store st \<and> find_domain 5 (dd_domains (st_document st)) = Some demo_state"
proof -
  obtain st where st: "reachable_store st" "dd_domains (st_document st) = [demo_state]"
    using demo_store by (metis reach_open reach_commit)
  from store_document_well_formed [OF st(1)] st(2) have "find_domain 5 [demo_state] = Some demo_state"
    by (simp add: demo_state_def)
  with st show ?thesis by auto
qed

theorem compaction_keeps_document_witness:
  "\<exists>st w res st' w'. dd_domains (st_document st) = [demo_state] \<and> checkpoint st w = (res, st', w') \<and>
     (\<forall>w2. crashes_to w' w2 \<longrightarrow> (\<exists>st2 w3. store_open ''d'' default_store_options w2 = (Inr st2, w3) \<and>
        dd_domains (st_document st2) = [demo_state]))"
proof -
  obtain st w log where st: "durable log empty_document st w" "covered log st" "reachable_store st"
    "dd_domains (st_document st) = [demo_state]" "doc_updates (st_document st) = [U_Domain demo_state]"
    "jn_next_sequence (st_journal st) = 4" "st_directory st = ''d''" "st_options st = default_store_options"
    using demo_store by (metis reach_open reach_commit)
  obtain res st' w' where c: "checkpoint st w = (res, st', w')" by (metis prod_cases3)
  have same: "dd_domains d2 = [demo_state]" if "content d2 = content (st_document st)" for d2
    using arg_cong [OF that, of dd_domains] st(4) by (simp add: content_def)
  have room: "length (doc_updates (st_document st)) \<le> unat (so_max_records (open_snapshot_options (st_options st)))"
    by (simp add: st(5,8) open_snapshot_options_def default_store_options_def kMaxDurableHistoryEntries_def
        kMaxInterventionHistory_def kMaxDomains_def)
  have "\<exists>st2 w3. store_open ''d'' default_store_options w2 = (Inr st2, w3) \<and> dd_domains (st_document st2) = [demo_state]"
    if "crashes_to w' w2" for w2
    using compaction_keeps_document [OF st(1) reachable_ok [OF st(3)] st(2) room _ c] that same
    unfolding st(6,7,8) by auto
  then show ?thesis using st(4) c by blast
qed

end
