(* ===== verification/NCF_Fabric.thy ===== *)
theory NCF_Fabric
  imports NCF_Planner NCF_Store
begin

text \<open>
  The fabric, \<^verbatim>\<open>src/fabric/fabric.cpp\<close>: the coordinator that owns congestion state, publishers, fences,
  the evidence window, intents and the durable store. Every entry point is one definition on the state
  behind the mutex and an environment that holds the files, the readings the clock will give and the answers
  the cancellation token will give. An entry point that takes the mutex twice is the sequence of its two
  critical sections, each a definition of its own.
\<close>

section \<open>Environment\<close>

record Env =
  en_world :: World
  en_ticks :: "Tick list"
  en_polls :: "bool list"

text \<open>The clock interface may return anything; the last reading repeats. A token that is never polled true is not cancelled.\<close>

definition clock_now :: "Env \<Rightarrow> Tick \<times> Env" where
  "clock_now e =
     (case en_ticks e of
        [] \<Rightarrow> (1, e)
      | [t] \<Rightarrow> (t, e)
      | t # ts \<Rightarrow> (t, e\<lparr>en_ticks := ts\<rparr>))"

definition poll_cancelled :: "bool \<Rightarrow> Env \<Rightarrow> bool \<times> Env" where
  "poll_cancelled token e =
     (if \<not> token then (False, e)
      else case en_polls e of [] \<Rightarrow> (False, e) | b # bs \<Rightarrow> (b, e\<lparr>en_polls := bs\<rparr>))"

section \<open>State\<close>

record FabricStats =
  fs_batches_ingested :: u64
  fs_samples_ingested :: u64
  fs_samples_rejected :: u64
  fs_samples_duplicate :: u64
  fs_samples_fenced :: u64
  fs_samples_epoch_mismatch :: u64
  fs_evaluations :: u64
  fs_transitions :: u64
  fs_interventions_authorized :: u64
  fs_interventions_suppressed :: u64
  fs_fences_issued :: u64
  fs_epoch_advances :: u64
  fs_cancellations :: u64
  fs_durability_commits :: u64
  fs_durability_failures :: u64

definition new_stats :: FabricStats where
  "new_stats =
     \<lparr>fs_batches_ingested = 0, fs_samples_ingested = 0, fs_samples_rejected = 0, fs_samples_duplicate = 0,
      fs_samples_fenced = 0, fs_samples_epoch_mismatch = 0, fs_evaluations = 0, fs_transitions = 0,
      fs_interventions_authorized = 0, fs_interventions_suppressed = 0, fs_fences_issued = 0, fs_epoch_advances = 0,
      fs_cancellations = 0, fs_durability_commits = 0, fs_durability_failures = 0\<rparr>"

record IngestReport =
  gr_accepted :: u64
  gr_rejected :: u64
  gr_duplicate :: u64
  gr_fenced :: u64
  gr_epoch_mismatch :: u64
  gr_regressed :: u64
  gr_capacity_rejected :: u64

definition new_ingest_report :: IngestReport where
  "new_ingest_report =
     \<lparr>gr_accepted = 0, gr_rejected = 0, gr_duplicate = 0, gr_fenced = 0, gr_epoch_mismatch = 0, gr_regressed = 0,
      gr_capacity_rejected = 0\<rparr>"

record FabricOpenReport =
  fr_store :: StoreReplay
  fr_epoch :: EpochId
  fr_boot :: BootId
  fr_boot_counter :: u64
  fr_domains_restored :: nat
  fr_domains_demoted :: nat
  fr_fences_restored :: nat
  fr_policy_restored :: bool
  fr_topology_restored :: bool
  fr_capacity_restored :: bool
  fr_history_entries :: nat
  fr_interventions_restored :: nat
  fr_durable :: bool

definition new_open_report :: FabricOpenReport where
  "new_open_report =
     \<lparr>fr_store = empty_report, fr_epoch = 0, fr_boot = 0, fr_boot_counter = 0, fr_domains_restored = 0,
      fr_domains_demoted = 0, fr_fences_restored = 0, fr_policy_restored = False, fr_topology_restored = False,
      fr_capacity_restored = False, fr_history_entries = 0, fr_interventions_restored = 0, fr_durable = False\<rparr>"

record FabricOptions =
  fo_state_directory :: string
  fo_store :: StoreOptions
  fo_persist :: bool
  fo_max_publishers :: nat
  fo_max_evidence_entries :: nat
  fo_max_active_interventions :: nat
  fo_max_explanations :: nat
  fo_record_wall_time :: bool
  fo_local_authority :: AuthoritySet
  fo_local_denied :: AuthoritySet

definition default_fabric_options :: FabricOptions where
  "default_fabric_options =
     \<lparr>fo_state_directory = [], fo_store = default_store_options, fo_persist = True,
      fo_max_publishers = kMaxPublishers, fo_max_evidence_entries = kMaxEvidencePerBatch,
      fo_max_active_interventions = kMaxInterventionHistory, fo_max_explanations = 1024,
      fo_record_wall_time = True, fo_local_authority = aset_all, fo_local_denied = aset_none\<rparr>"

record Explanation =
  ex_domain :: DomainId
  ex_state :: CongestionState
  ex_previous_state :: CongestionState
  ex_severity :: Severity
  ex_transitioned :: bool
  ex_authoritative :: bool
  ex_requires_revalidation :: bool
  ex_evaluation :: EvaluationId
  ex_epoch :: EpochId
  ex_policy :: PolicyId
  ex_policy_fingerprint :: Hash64
  ex_authority :: AuthoritySet
  ex_authority_generation :: AuthorityGeneration
  ex_topology_generation :: TopologyGeneration
  ex_capacity_generation :: CapacityGeneration
  ex_evaluated_tick :: Tick
  ex_reason_code :: string
  ex_reason_detail :: "EvalNote list"
  ex_samples_seen :: nat
  ex_samples_accepted :: nat
  ex_samples_rejected :: nat
  ex_samples_duplicate :: nat
  ex_resources :: "ResourceAssessment list"
  ex_bindings :: "ThresholdBinding list"
  ex_conflicts :: "ConflictReport list"
  ex_stale :: "StaleReport list"
  ex_propagation :: "PropagationEdge list"
  ex_authorized :: "InterventionIntent list"
  ex_suppressed :: "SuppressedIntervention list"
  ex_truncated_sections :: nat

type_synonym EvidenceKey = "u64 \<times> u64 \<times> u64"

text \<open>
  The durable flag and the store pointer are one field: opening sets both or fails. The clock is part of the
  environment, the mutex is the granularity of the definitions.
\<close>

record Fabric =
  fa_options :: FabricOptions
  fa_store :: "Store option"
  fa_topology :: "TopologyIndex option"
  fa_capacity :: "CapacitySnapshot option"
  fa_policy :: CongestionPolicy
  fa_has_policy :: bool
  fa_epoch :: EpochId
  fa_boot :: BootId
  fa_generation :: AuthorityGeneration
  fa_domains :: "(DomainId, DomainState) omap"
  fa_intents :: "(DomainId, InterventionIntent list) omap"
  fa_publishers :: "(PublisherId, PublisherRegistration) omap"
  fa_fences :: "(PublisherId, (BootId, FenceRecord) omap) omap"
  fa_evidence :: "(EvidenceKey, EvidenceSample) omap"
  fa_explanations :: "(DomainId, Explanation) omap"
  fa_last_outcomes :: "(DomainId, EvaluationOutcome) omap"
  fa_stats :: FabricStats
  fa_open_report :: FabricOpenReport
  fa_closed :: bool

definition count_stat :: "((u64 \<Rightarrow> u64) \<Rightarrow> FabricStats \<Rightarrow> FabricStats) \<Rightarrow> Fabric \<Rightarrow> Fabric" where
  "count_stat field f = f\<lparr>fa_stats := field (\<lambda>n. n + 1) (fa_stats f)\<rparr>"

section \<open>Shared pieces\<close>

definition derive_boot :: "EpochId \<Rightarrow> Tick \<Rightarrow> u64 \<Rightarrow> BootId" where
  "derive_boot epoch tick counter =
     (let h1 = hash_u64 epoch kFnvOffset; h2 = hash_u64 tick h1 in hash_finish (hash_u64 counter h2))"

definition ensure_open :: "Fabric \<Rightarrow> void_result" where
  "ensure_open f = (if fa_closed f then Inl Err_Closed else Inr ())"

definition make_stamp :: "ProvenanceKind \<Rightarrow> Fabric \<Rightarrow> Env \<Rightarrow> MutationStamp \<times> Env" where
  "make_stamp kind f e0 =
     (let (tick, e) = clock_now e0;
          provenance = compute_provenance_id kind 0 (fa_boot f) (fa_epoch f) tick
      in (\<lparr>ms_epoch = fa_epoch f, ms_generation = fa_generation f, ms_attempt = provenance,
           ms_provenance = provenance, ms_tick = tick\<rparr>, e))"

definition authority_at :: "Tick \<Rightarrow> Fabric \<Rightarrow> AuthorityVector" where
  "authority_at tick f =
     \<lparr>av_epoch = fa_epoch f, av_generation = fa_generation f, av_policy = po_id (fa_policy f),
      av_policy_fingerprint = po_fingerprint (fa_policy f), av_coordinator_boot = fa_boot f,
      av_granted = fo_local_authority (fa_options f), av_denied = fo_local_denied (fa_options f),
      av_issued_tick = tick, av_expires_tick = 0,
      av_provenance = compute_provenance_id PK_LocalEvaluation 0 (fa_boot f) (fa_epoch f) tick\<rparr>"

definition authority_locked :: "Fabric \<Rightarrow> Env \<Rightarrow> AuthorityVector \<times> Env" where
  "authority_locked f e0 = (let (tick, e) = clock_now e0 in (authority_at tick f, e))"

definition store_write ::
  "(Store \<Rightarrow> World \<Rightarrow> void_result \<times> Store \<times> World) \<Rightarrow> Fabric \<Rightarrow> Env \<Rightarrow> void_result \<times> Fabric \<times> Env" where
  "store_write op f e =
     (case fa_store f of
        None \<Rightarrow> (Inr (), f, e)
      | Some st \<Rightarrow>
          (case op st (en_world e) of (r, st', w') \<Rightarrow> (r, f\<lparr>fa_store := Some st'\<rparr>, e\<lparr>en_world := w'\<rparr>)))"

text \<open>A write after opening: its outcome is counted.\<close>

definition counted_write ::
  "(Store \<Rightarrow> World \<Rightarrow> void_result \<times> Store \<times> World) \<Rightarrow> Fabric \<Rightarrow> Env \<Rightarrow> void_result \<times> Fabric \<times> Env" where
  "counted_write op f0 e0 =
     (case store_write op f0 e0 of
        (Inl er, f, e) \<Rightarrow> (Inl er, count_stat fs_durability_failures_update f, e)
      | (Inr _, f, e) \<Rightarrow> (Inr (), count_stat fs_durability_commits_update f, e))"

definition when_durable ::
  "ProvenanceKind \<Rightarrow> (MutationStamp \<Rightarrow> Store \<Rightarrow> World \<Rightarrow> void_result \<times> Store \<times> World) \<Rightarrow> Fabric \<Rightarrow> Env \<Rightarrow>
     void_result \<times> Fabric \<times> Env" where
  "when_durable kind op f e =
     (if fa_store f = None then (Inr (), f, e)
      else case make_stamp kind f e of (stamp, e1) \<Rightarrow> counted_write (op stamp) f e1)"

text \<open>A loop of writes ends at the first that fails.\<close>

fun each_write ::
  "('a \<Rightarrow> Store \<Rightarrow> World \<Rightarrow> void_result \<times> Store \<times> World) \<Rightarrow> 'a list \<Rightarrow> Fabric \<Rightarrow> Env \<Rightarrow> void_result \<times> Fabric \<times> Env" where
  "each_write op [] f e = (Inr (), f, e)"
| "each_write op (x # xs) f e =
     (case counted_write (op x) f e of
        (Inl er, f1, e1) \<Rightarrow> (Inl er, f1, e1)
      | (Inr _, f1, e1) \<Rightarrow> each_write op xs f1 e1)"

definition fabric_close :: "Fabric \<Rightarrow> Env \<Rightarrow> void_result \<times> Fabric \<times> Env" where
  "fabric_close f e =
     (if fa_closed f then (Inr (), f, e)
      else
        let f1 = f\<lparr>fa_closed := True\<rparr>
        in case fa_store f1 of
            None \<Rightarrow> (Inr (), f1, e)
          | Some st \<Rightarrow> (case store_sync st (en_world e) of (r, w) \<Rightarrow> (r, f1, e\<lparr>en_world := w\<rparr>)))"

definition fabric_flush :: "Fabric \<Rightarrow> Env \<Rightarrow> void_result \<times> Env" where
  "fabric_flush f e =
     (case fa_store f of
        None \<Rightarrow> (Inr (), e)
      | Some st \<Rightarrow> (case store_sync st (en_world e) of (r, w) \<Rightarrow> (r, e\<lparr>en_world := w\<rparr>)))"

definition is_fenced_in :: "PublisherId \<Rightarrow> BootId \<Rightarrow> Fabric \<Rightarrow> bool" where
  "is_fenced_in publisher boot f =
     (case map_of (fa_fences f) publisher of None \<Rightarrow> False | Some boots \<Rightarrow> map_of boots boot \<noteq> None)"

definition put_fence :: "FenceRecord \<Rightarrow> (PublisherId, (BootId, FenceRecord) omap) omap \<Rightarrow>
    (PublisherId, (BootId, FenceRecord) omap) omap" where
  "put_fence r m =
     om_put (fe_publisher r)
       (om_put (fe_boot r) r (case map_of m (fe_publisher r) of None \<Rightarrow> [] | Some boots \<Rightarrow> boots)) m"

section \<open>Opening\<close>

text \<open>A fabric that is given up is closed by its destructor.\<close>

definition drop_fabric :: "Fabric \<Rightarrow> Env \<Rightarrow> Env" where
  "drop_fabric f e = (case fabric_close f e of (_, _, e') \<Rightarrow> e')"

text \<open>The policy of a fabric without one is replaced before anything reads it.\<close>

definition blank_fabric :: "FabricOptions \<Rightarrow> Fabric" where
  "blank_fabric options =
     \<lparr>fa_options = options, fa_store = None, fa_topology = None, fa_capacity = None, fa_policy = make_default_policy,
      fa_has_policy = False, fa_epoch = 0, fa_boot = 0, fa_generation = 0, fa_domains = [], fa_intents = [],
      fa_publishers = [], fa_fences = [], fa_evidence = [], fa_explanations = [], fa_last_outcomes = [],
      fa_stats = new_stats, fa_open_report = new_open_report, fa_closed = False\<rparr>"

text \<open>What is taken over from the durable document, the next epoch and the boot counter.\<close>

definition adopt_document :: "Store \<Rightarrow> Fabric \<Rightarrow> Fabric" where
  "adopt_document st f =
     (let d = st_document st;
          rep = (fa_open_report f)\<lparr>fr_store := st_report st, fr_history_entries := length (dd_history d),
            fr_interventions_restored := length (dd_interventions d), fr_fences_restored := length (dd_fences d)\<rparr>;
          f1 = f\<lparr>fa_store := Some st, fa_fences := fold put_fence (dd_fences d) (fa_fences f)\<rparr>;
          (f2, rep2) = (case dd_policy d of
              None \<Rightarrow> (f1, rep)
            | Some p \<Rightarrow> (f1\<lparr>fa_policy := p, fa_has_policy := True\<rparr>, rep\<lparr>fr_policy_restored := True\<rparr>));
          (f3, rep3) = (case dd_topology d of
              None \<Rightarrow> (f2, rep2)
            | Some t \<Rightarrow>
                (case topology_build t of
                   Inl _ \<Rightarrow> (f2, rep2)
                 | Inr index \<Rightarrow> (f2\<lparr>fa_topology := Some index\<rparr>, rep2\<lparr>fr_topology_restored := True\<rparr>)));
          (f4, rep4) = (case dd_capacity d of
              None \<Rightarrow> (f3, rep3)
            | Some c \<Rightarrow> (f3\<lparr>fa_capacity := Some c\<rparr>, rep3\<lparr>fr_capacity_restored := True\<rparr>))
      in f4\<lparr>fa_open_report := rep4\<rparr>)"

definition opening_epoch :: "DurableDocument \<Rightarrow> EpochId \<times> u64" where
  "opening_epoch d =
     (if id_valid (dd_epoch d) then (dd_epoch d + 1, dd_coordinator_boot_counter d + 1) else (1, 1))"

definition take_office :: "EpochId \<Rightarrow> u64 \<Rightarrow> Tick \<Rightarrow> Fabric \<Rightarrow> Fabric" where
  "take_office epoch boot_counter now f =
     (let boot = derive_boot epoch now boot_counter
      in f\<lparr>fa_epoch := epoch, fa_boot := boot, fa_generation := epoch,
           fa_open_report := (fa_open_report f)\<lparr>fr_epoch := epoch, fr_boot := boot, fr_boot_counter := boot_counter,
             fr_durable := fa_store f \<noteq> None\<rparr>\<rparr>)"

definition install_default :: "Fabric \<Rightarrow> Fabric result" where
  "install_default f =
     (if fa_has_policy f then Inr f
      else case validate_policy make_default_policy of
          Inl _ \<Rightarrow> Inl Err_Internal
        | Inr policy \<Rightarrow> Inr (f\<lparr>fa_policy := policy, fa_has_policy := True\<rparr>))"

definition demoted_state :: "DomainState \<Rightarrow> Tick \<Rightarrow> Fabric \<Rightarrow> DomainState" where
  "demoted_state s now f =
     s\<lparr>ds_state := fst (demote_after_recovery (ds_state s) (ds_last_authoritative_tick s) (fa_policy f) now),
       ds_candidate := St_Unknown, ds_candidate_streak := 0, ds_requires_revalidation := True,
       ds_epoch := fa_epoch f, ds_authority_generation := fa_generation f, ds_policy := po_id (fa_policy f),
       ds_policy_fingerprint := po_fingerprint (fa_policy f)\<rparr>"

definition restart_record :: "DomainState \<Rightarrow> DomainState \<Rightarrow> Tick \<Rightarrow> MutationStamp \<Rightarrow> Fabric \<Rightarrow> RevalidationRecord" where
  "restart_record s updated now stamp f =
     \<lparr>rv_domain = ds_domain updated, rv_previous_epoch = ds_epoch s, rv_epoch = fa_epoch f,
      rv_restored_state = ds_state s, rv_effective_state = ds_state updated, rv_state_restored = True,
      rv_authority_restored = False, rv_freshness_restored = False, rv_recorded_tick = now,
      rv_provenance = ms_provenance stamp,
      rv_detail = ''restart demotion: telemetry freshness is never restored as current''\<rparr>"

fun restore_domains :: "MutationStamp \<Rightarrow> Tick \<Rightarrow> DomainState list \<Rightarrow> Fabric \<Rightarrow> Env \<Rightarrow> void_result \<times> Fabric \<times> Env" where
  "restore_domains stamp now [] f e = (Inr (), f, e)"
| "restore_domains stamp now (s # ss) f0 e0 =
     (let updated = demoted_state s now f0;
          rep = fa_open_report f0;
          f = f0\<lparr>fa_domains := om_put (ds_domain updated) updated (fa_domains f0),
                 fa_open_report := rep\<lparr>fr_domains_restored := fr_domains_restored rep + 1,
                   fr_domains_demoted := fr_domains_demoted rep + (if ds_state updated \<noteq> ds_state s then 1 else 0)\<rparr>\<rparr>
      in case store_write (put_domain_state updated stamp) f e0 of
          (Inl er, f1, e1) \<Rightarrow> (Inl er, f1, e1)
        | (Inr _, f1, e1) \<Rightarrow>
            (case store_write (write_revalidation (restart_record s updated now stamp f1) stamp) f1 e1 of
               (Inl er, f2, e2) \<Rightarrow> (Inl er, f2, e2)
             | (Inr _, f2, e2) \<Rightarrow> restore_domains stamp now ss f2 e2))"

text \<open>The durable part of opening: the policy unless restored, the new epoch, and the demotion of every domain.\<close>

definition announce :: "u64 \<Rightarrow> Tick \<Rightarrow> Fabric \<Rightarrow> Env \<Rightarrow> void_result \<times> Fabric \<times> Env" where
  "announce boot_counter now f e0 =
     (case make_stamp PK_CoordinatorBoot f e0 of
        (stamp, e) \<Rightarrow>
          (case (if fr_policy_restored (fa_open_report f) then (Inr (), f, e)
                 else store_write (NCF_Store.set_policy (fa_policy f) stamp) f e) of
             (Inl er, f1, e1) \<Rightarrow> (Inl er, f1, e1)
           | (Inr _, f1, e1) \<Rightarrow>
               (case store_write (advance_epoch_durable (fa_epoch f) (fa_boot f) boot_counter stamp) f1 e1 of
                  (Inl er, f2, e2) \<Rightarrow> (Inl er, f2, e2)
                | (Inr _, f2, e2) \<Rightarrow>
                    restore_domains stamp now
                      (case fa_store f2 of None \<Rightarrow> [] | Some st \<Rightarrow> dd_domains (st_document st)) f2 e2)))"

definition fabric_open :: "FabricOptions \<Rightarrow> Env \<Rightarrow> Fabric result \<times> Env" where
  "fabric_open options e0 =
     (let f0 = blank_fabric options;
          (now, e1) = clock_now e0;
          opened = (if fo_persist options \<and> fo_state_directory options \<noteq> [] then
              (case store_open (fo_state_directory options) (fo_store options) (en_world e1) of
                 (Inl er, w) \<Rightarrow> (Inl er, e1\<lparr>en_world := w\<rparr>)
               | (Inr st, w) \<Rightarrow>
                   (Inr (adopt_document st f0, opening_epoch (st_document st)), e1\<lparr>en_world := w\<rparr>))
            else (Inr (f0, 1, 1), e1))
      in case opened of
          (Inl er, e2) \<Rightarrow> (Inl er, e2)
        | (Inr (f1, epoch, boot_counter), e2) \<Rightarrow>
            let f2 = take_office epoch boot_counter now f1
            in case install_default f2 of
                Inl er \<Rightarrow> (Inl er, drop_fabric f2 e2)
              | Inr f3 \<Rightarrow>
                  if fa_store f3 = None then (Inr f3, e2)
                  else case announce boot_counter now f3 e2 of
                      (Inl er, f4, e3) \<Rightarrow> (Inl er, drop_fabric f4 e3)
                    | (Inr _, f4, e3) \<Rightarrow> (Inr f4, e3))"

section \<open>Configuration\<close>

definition invalidate_generations :: "Fabric \<Rightarrow> Fabric" where
  "invalidate_generations f =
     f\<lparr>fa_generation := fa_generation f + 1, fa_intents := [],
       fa_domains := map (\<lambda>(d, s). (d, if is_authoritative (ds_state s) then s\<lparr>ds_requires_revalidation := True\<rparr> else s))
         (fa_domains f)\<rparr>"

definition fabric_set_policy :: "CongestionPolicy \<Rightarrow> Fabric \<Rightarrow> Env \<Rightarrow> void_result \<times> Fabric \<times> Env" where
  "fabric_set_policy policy0 f e =
     (case validate_policy policy0 of
        Inl er \<Rightarrow> (Inl er, f, e)
      | Inr policy \<Rightarrow>
          (case ensure_open f of
             Inl er \<Rightarrow> (Inl er, f, e)
           | Inr _ \<Rightarrow>
               if po_version policy < po_version (fa_policy f) then (Inl Err_PolicyRejected, f, e)
               else when_durable PK_LocalPolicy (NCF_Store.set_policy policy)
                 (invalidate_generations (f\<lparr>fa_policy := policy, fa_has_policy := True\<rparr>)) e))"

definition fabric_set_topology :: "TopologySnapshot \<Rightarrow> Fabric \<Rightarrow> Env \<Rightarrow> void_result \<times> Fabric \<times> Env" where
  "fabric_set_topology topology f e =
     (case topology_build topology of
        Inl er \<Rightarrow> (Inl er, f, e)
      | Inr index \<Rightarrow>
          (case ensure_open f of
             Inl er \<Rightarrow> (Inl er, f, e)
           | Inr _ \<Rightarrow>
               when_durable PK_LocalPolicy (NCF_Store.set_topology (ti_snapshot index))
                 (invalidate_generations (f\<lparr>fa_topology := Some index\<rparr>)) e))"

definition fabric_set_capacity :: "CapacitySnapshot \<Rightarrow> Fabric \<Rightarrow> Env \<Rightarrow> void_result \<times> Fabric \<times> Env" where
  "fabric_set_capacity capacity f e =
     (case validate_capacity capacity of
        Inl er \<Rightarrow> (Inl er, f, e)
      | Inr _ \<Rightarrow>
          (case ensure_open f of
             Inl er \<Rightarrow> (Inl er, f, e)
           | Inr _ \<Rightarrow>
               when_durable PK_LocalPolicy (NCF_Store.set_capacity capacity) (f\<lparr>fa_capacity := Some capacity\<rparr>) e))"

section \<open>Publishers\<close>

definition register_publisher ::
  "PublisherId \<Rightarrow> BootId \<Rightarrow> AuthoritySet \<Rightarrow> Fabric \<Rightarrow> Env \<Rightarrow> PublisherRegistration result \<times> Fabric \<times> Env" where
  "register_publisher publisher boot requested f e0 =
     (if \<not> id_valid publisher \<or> \<not> id_valid boot then (Inl Err_InvalidArgument, f, e0)
      else case ensure_open f of
          Inl er \<Rightarrow> (Inl er, f, e0)
        | Inr _ \<Rightarrow>
            if is_fenced_in publisher boot f then (Inl Err_Fenced, f, e0)
            else if length (fa_publishers f) \<ge> fo_max_publishers (fa_options f) \<and>
              map_of (fa_publishers f) publisher = None then (Inl Err_LimitExceeded, f, e0)
            else
              let (tick, e) = clock_now e0;
                  registration = \<lparr>pr_publisher = publisher, pr_boot = boot, pr_epoch = fa_epoch f, pr_connection = 0,
                    pr_registered_tick = tick, pr_last_seen_tick = tick, pr_last_generation = 0, pr_last_sequence = 0,
                    pr_granted = requested AND kAuthorityAllBits AND NOT (fo_local_denied (fa_options f)),
                    pr_alive = True, pr_fenced = False, pr_fence_reason = FR_None,
                    pr_provenance = compute_provenance_id PK_RemotePublisher publisher boot (fa_epoch f) tick\<rparr>
              in (Inr registration, f\<lparr>fa_publishers := om_put publisher registration (fa_publishers f)\<rparr>, e))"

definition compute_fence_id :: "FenceRecord \<Rightarrow> FenceId" where
  "compute_fence_id r =
     (let h1 = hash_u64 (fe_epoch r) kFnvOffset;
          h2 = hash_u64 (fe_publisher r) h1;
          h3 = hash_u64 (fe_boot r) h2;
          h4 = hash_u8 (fr_u8 (fe_reason r)) h3
      in hash_finish (hash_u64 (fe_issued_tick r) h4))"

definition fence_publisher_locked ::
  "PublisherId \<Rightarrow> BootId \<Rightarrow> FenceReason \<Rightarrow> string \<Rightarrow> Fabric \<Rightarrow> Env \<Rightarrow> FenceRecord result \<times> Fabric \<times> Env" where
  "fence_publisher_locked publisher boot reason detail f0 e0 =
     (if \<not> id_valid publisher \<or> \<not> id_valid boot then (Inl Err_InvalidArgument, f0, e0)
      else
        let (last_generation, publishers) = (case map_of (fa_publishers f0) publisher of
                None \<Rightarrow> (0, fa_publishers f0)
              | Some r \<Rightarrow> if pr_boot r = boot then (pr_last_generation r, om_erase publisher (fa_publishers f0))
                         else (0, fa_publishers f0));
            (tick, e) = clock_now e0;
            record0 = \<lparr>fe_id = 0, fe_epoch = fa_epoch f0, fe_publisher = publisher, fe_boot = boot,
              fe_last_generation = last_generation, fe_reason = reason, fe_issued_tick = tick,
              fe_provenance = compute_provenance_id PK_Fence publisher boot (fa_epoch f0) tick, fe_detail = detail\<rparr>;
            rec = record0\<lparr>fe_id := compute_fence_id record0\<rparr>;
            f = count_stat fs_fences_issued_update (f0\<lparr>fa_publishers := publishers,
              fa_fences := put_fence rec (fa_fences f0),
              fa_evidence := filter (\<lambda>(k, s). \<not> (es_publisher s = publisher \<and> es_publisher_boot s = boot)) (fa_evidence f0)\<rparr>)
        in case when_durable PK_Fence (append_fence rec) f e of
            (Inl er, f1, e1) \<Rightarrow> (Inl er, f1, e1)
          | (Inr _, f1, e1) \<Rightarrow> (Inr rec, f1, e1))"

definition fence_publisher ::
  "PublisherId \<Rightarrow> BootId \<Rightarrow> FenceReason \<Rightarrow> string \<Rightarrow> Fabric \<Rightarrow> Env \<Rightarrow> FenceRecord result \<times> Fabric \<times> Env" where
  "fence_publisher publisher boot reason detail f e =
     (case ensure_open f of
        Inl er \<Rightarrow> (Inl er, f, e)
      | Inr _ \<Rightarrow> fence_publisher_locked publisher boot reason detail f e)"

definition unregister_publisher ::
  "PublisherId \<Rightarrow> BootId \<Rightarrow> FenceReason \<Rightarrow> string \<Rightarrow> Fabric \<Rightarrow> Env \<Rightarrow> void_result \<times> Fabric \<times> Env" where
  "unregister_publisher publisher boot reason detail f e =
     (case ensure_open f of
        Inl er \<Rightarrow> (Inl er, f, e)
      | Inr _ \<Rightarrow>
          if reason = FR_CoordinatorRestart then (Inl Err_InvalidArgument, f, e)
          else if reason = FR_None then
            (Inr (), (case map_of (fa_publishers f) publisher of
                None \<Rightarrow> f
              | Some r \<Rightarrow> if pr_boot r = boot then f\<lparr>fa_publishers := om_erase publisher (fa_publishers f)\<rparr> else f), e)
          else case fence_publisher_locked publisher boot reason detail f e of
              (Inl er, f1, e1) \<Rightarrow> (Inl er, f1, e1)
            | (Inr _, f1, e1) \<Rightarrow> (Inr (), f1, e1))"

definition lookup_publisher :: "PublisherId \<Rightarrow> BootId \<Rightarrow> Fabric \<Rightarrow> PublisherRegistration result" where
  "lookup_publisher publisher boot f =
     (case map_of (fa_publishers f) publisher of
        None \<Rightarrow> Inl Err_NotFound
      | Some r \<Rightarrow> if pr_boot r = boot then Inr r else Inl Err_NotFound)"

definition heartbeat :: "PublisherId \<Rightarrow> BootId \<Rightarrow> Fabric \<Rightarrow> Env \<Rightarrow> void_result \<times> Fabric \<times> Env" where
  "heartbeat publisher boot f e0 =
     (case ensure_open f of
        Inl er \<Rightarrow> (Inl er, f, e0)
      | Inr _ \<Rightarrow>
          (case lookup_publisher publisher boot f of
             Inl er \<Rightarrow> (Inl er, f, e0)
           | Inr r \<Rightarrow>
               (case clock_now e0 of (tick, e) \<Rightarrow>
                 (Inr (), f\<lparr>fa_publishers := om_put publisher (r\<lparr>pr_last_seen_tick := tick, pr_alive := True\<rparr>)
                              (fa_publishers f)\<rparr>, e))))"

section \<open>Evidence\<close>

abbreviation inc :: "u64 \<Rightarrow> u64" where "inc \<equiv> \<lambda>n. n + 1"

definition sample_key :: "EvidenceSample \<Rightarrow> EvidenceKey" where
  "sample_key s = (es_resource s, es_queue s, es_publisher s)"

definition supersedes :: "EvidenceSample \<Rightarrow> EvidenceSample \<Rightarrow> bool" where
  "supersedes s previous \<longleftrightarrow>
     es_generation s > es_generation previous \<or>
     (es_generation s = es_generation previous \<and>
      es_sequence s \<noteq> 0 \<and> es_sequence previous \<noteq> 0 \<and> es_sequence s > es_sequence previous)"

definition saw_publisher :: "Tick \<Rightarrow> EvidenceSample \<Rightarrow> PublisherRegistration \<Rightarrow> PublisherRegistration" where
  "saw_publisher now s r =
     r\<lparr>pr_last_seen_tick := now, pr_alive := True,
       pr_last_generation := (if es_generation s > pr_last_generation r then es_generation s else pr_last_generation r),
       pr_last_sequence := (if es_sequence s > pr_last_sequence r then es_sequence s else pr_last_sequence r)\<rparr>"

text \<open>One iteration of the loop of \<^verbatim>\<open>ingest\<close>; the guards are its \<^verbatim>\<open>continue\<close>s, in order.\<close>

definition ingest_sample :: "Tick \<Rightarrow> EvidenceSample \<Rightarrow> IngestReport \<times> Fabric \<Rightarrow> IngestReport \<times> Fabric" where
  "ingest_sample now s0 rf =
     (case rf of (rep, f) \<Rightarrow>
       if \<not> id_valid (es_resource s0) then
         (gr_rejected_update inc rep, count_stat fs_samples_rejected_update f)
       else if es_epoch s0 \<noteq> fa_epoch f then
         (gr_rejected_update inc (gr_epoch_mismatch_update inc rep), count_stat fs_samples_epoch_mismatch_update f)
       else case lookup_publisher (es_publisher s0) (es_publisher_boot s0) f of
           Inl _ \<Rightarrow> (gr_rejected_update inc (gr_fenced_update inc rep), count_stat fs_samples_fenced_update f)
         | Inr r \<Rightarrow>
       if is_fenced_in (es_publisher s0) (es_publisher_boot s0) f then
         (gr_rejected_update inc (gr_fenced_update inc rep), count_stat fs_samples_fenced_update f)
       else if es_generation s0 < pr_last_generation r then
         (gr_rejected_update inc (gr_regressed_update inc rep), count_stat fs_samples_rejected_update f)
       else
         let s1 = s0\<lparr>es_received_tick := now\<rparr>;
             s = s1\<lparr>es_snapshot := compute_snapshot_id s1\<rparr>;
             existing = map_of (fa_evidence f) (sample_key s)
         in if \<not> es_is_heartbeat s0 \<and> existing = None \<and> length (fa_evidence f) \<ge> fo_max_evidence_entries (fa_options f) then
              (gr_rejected_update inc (gr_capacity_rejected_update inc rep), count_stat fs_samples_rejected_update f)
            else if \<not> es_is_heartbeat s0 \<and> (case existing of None \<Rightarrow> False | Some previous \<Rightarrow> \<not> supersedes s previous) then
              (gr_duplicate_update inc rep, count_stat fs_samples_duplicate_update f)
            else
              let f1 = (if es_is_heartbeat s0 then f else f\<lparr>fa_evidence := om_put (sample_key s) s (fa_evidence f)\<rparr>)
              in (gr_accepted_update inc rep,
                  count_stat fs_samples_ingested_update
                    (f1\<lparr>fa_publishers := om_put (es_publisher s) (saw_publisher now s r) (fa_publishers f1)\<rparr>)))"

definition ingest :: "EvidenceBatch \<Rightarrow> Fabric \<Rightarrow> Env \<Rightarrow> IngestReport result \<times> Fabric \<times> Env" where
  "ingest batch f e0 =
     (if length (eb_samples batch) > kMaxEvidencePerBatch then (Inl Err_LimitExceeded, f, e0)
      else case ensure_open f of
          Inl er \<Rightarrow> (Inl er, f, e0)
        | Inr _ \<Rightarrow>
            let (now, e) = clock_now e0;
                (rep, f1) = fold (ingest_sample now) (eb_samples batch)
                  (new_ingest_report, count_stat fs_batches_ingested_update f)
            in (Inr rep, f1, e))"

text \<open>The break after a full batch keeps the first \<^verbatim>\<open>kMaxEvidencePerBatch\<close> samples in scope.\<close>

definition collect_evidence :: "DomainId \<Rightarrow> Fabric \<Rightarrow> Env \<Rightarrow> EvidenceBatch \<times> Env" where
  "collect_evidence domain f e0 =
     (let (tick, e) = clock_now e0;
          scope = (case fa_topology f of None \<Rightarrow> [] | Some topology \<Rightarrow> ti_domain_members topology domain);
          samples = take kMaxEvidencePerBatch
            (filter (\<lambda>s. scope = [] \<or> es_resource s \<in> set scope) (map snd (fa_evidence f)));
          batch = \<lparr>eb_id = 0, eb_epoch = fa_epoch f,
            eb_provenance = compute_provenance_id PK_LocalIngest 0 (fa_boot f) (fa_epoch f) tick,
            eb_submitted_tick = tick, eb_samples = samples\<rparr>
      in (batch\<lparr>eb_id := compute_batch_id batch\<rparr>, e))"

section \<open>Evaluation\<close>

definition explain_outcome :: "DomainId \<Rightarrow> Tick \<Rightarrow> AuthoritySet \<Rightarrow> EvaluationOutcome \<Rightarrow> Fabric \<Rightarrow> Explanation" where
  "explain_outcome domain now granted out f =
     \<lparr>ex_domain = domain, ex_state = eo_state out, ex_previous_state = eo_previous_state out,
      ex_severity = eo_severity out, ex_transitioned = eo_transitioned out,
      ex_authoritative = eo_authoritative out, ex_requires_revalidation = eo_requires_revalidation out,
      ex_evaluation = eo_id out, ex_epoch = fa_epoch f, ex_policy = po_id (fa_policy f),
      ex_policy_fingerprint = po_fingerprint (fa_policy f), ex_authority = granted,
      ex_authority_generation = fa_generation f, ex_topology_generation = eo_topology_generation out,
      ex_capacity_generation = eo_capacity_generation out, ex_evaluated_tick = now,
      ex_reason_code = eo_reason_code out, ex_reason_detail = eo_reason_detail out,
      ex_samples_seen = ev_samples_seen (eo_evidence out), ex_samples_accepted = ev_samples_accepted (eo_evidence out),
      ex_samples_rejected = ev_samples_rejected (eo_evidence out),
      ex_samples_duplicate = ev_samples_duplicate (eo_evidence out), ex_resources = ev_resources (eo_evidence out),
      ex_bindings = ev_bindings (eo_evidence out), ex_conflicts = ev_conflicts (eo_evidence out),
      ex_stale = ev_stale (eo_evidence out), ex_propagation = ev_propagation (eo_evidence out),
      ex_authorized = [], ex_suppressed = [], ex_truncated_sections = ev_truncated_sections (eo_evidence out)\<rparr>"

text \<open>A bounded map makes room by dropping its first entry, unless the key is there.\<close>

definition put_bounded :: "nat \<Rightarrow> DomainId \<Rightarrow> 'a \<Rightarrow> (DomainId, 'a) omap \<Rightarrow> (DomainId, 'a) omap" where
  "put_bounded limit k v m = om_put k v (if length m \<ge> limit \<and> map_of m k = None then drop 1 m else m)"

definition evaluation_context :: "Tick \<Rightarrow> AuthorityVector \<Rightarrow> Fabric \<Rightarrow> EvaluationContext" where
  "evaluation_context now authority f =
     \<lparr>cx_policy = Some (fa_policy f), cx_topology = fa_topology f, cx_capacity = fa_capacity f,
      cx_epoch = fa_epoch f, cx_authority = authority, cx_now = now,
      cx_max_samples_per_batch = of_nat kMaxEvidencePerBatch\<rparr>"

definition evaluation_request :: "DomainId \<Rightarrow> EvidenceBatch \<Rightarrow> Tick \<Rightarrow> AuthorityVector \<Rightarrow> Fabric \<Rightarrow> EvaluationRequest" where
  "evaluation_request domain batch now authority f =
     \<lparr>rq_domain = domain, rq_evidence = batch, rq_epoch = fa_epoch f, rq_authority = authority, rq_now = now,
      rq_only_resource = 0\<rparr>"

definition history_entry :: "DomainId \<Rightarrow> Tick \<Rightarrow> EvaluationOutcome \<Rightarrow> Fabric \<Rightarrow> HistoryEntry" where
  "history_entry domain now out f =
     \<lparr>he_domain = domain, he_from = eo_previous_state out, he_to = eo_state out, he_tick = now,
      he_evaluation = eo_id out, he_epoch = fa_epoch f, he_reason = eo_reason_code out\<rparr>"

text \<open>Past the commit boundary: the state of the domain, the durable records, the explanation.\<close>

definition commit_outcome ::
  "DomainId \<Rightarrow> Tick \<Rightarrow> AuthoritySet \<Rightarrow> EvaluationOutcome \<Rightarrow> Fabric \<Rightarrow> Env \<Rightarrow> EvaluationOutcome result \<times> Fabric \<times> Env" where
  "commit_outcome domain now granted out f0 e0 =
     (let f1 = count_stat fs_evaluations_update (f0\<lparr>fa_domains := om_put domain (eo_updated out) (fa_domains f0)\<rparr>);
          f2 = (if eo_transitioned out then count_stat fs_transitions_update f1 else f1);
          f3 = (if \<not> eo_authoritative out then f2\<lparr>fa_intents := om_erase domain (fa_intents f2)\<rparr> else f2);
          written = (if fa_store f3 = None then (Inr (), f3, e0)
            else case make_stamp PK_LocalEvaluation f3 e0 of (stamp, e1) \<Rightarrow>
              (case counted_write (put_domain_state (eo_updated out) stamp) f3 e1 of
                 (Inl er, f4, e2) \<Rightarrow> (Inl er, f4, e2)
               | (Inr _, f4, e2) \<Rightarrow>
                   if eo_transitioned out then counted_write (append_history (history_entry domain now out f4) stamp) f4 e2
                   else (Inr (), f4, e2)))
      in case written of
          (Inl er, f5, e3) \<Rightarrow> (Inl er, f5, e3)
        | (Inr _, f5, e3) \<Rightarrow>
            let limit = fo_max_explanations (fa_options f5)
            in (Inr out,
                f5\<lparr>fa_explanations := put_bounded limit domain (explain_outcome domain now granted out f5) (fa_explanations f5),
                   fa_last_outcomes := put_bounded limit domain out (fa_last_outcomes f5)\<rparr>, e3))"

definition evaluate_locked ::
  "DomainId \<Rightarrow> EvidenceBatch \<Rightarrow> bool \<Rightarrow> Fabric \<Rightarrow> Env \<Rightarrow> EvaluationOutcome result \<times> Fabric \<times> Env" where
  "evaluate_locked domain batch token f e0 =
     (case poll_cancelled token e0 of (cancelled, e1) \<Rightarrow>
       if cancelled then (Inl Err_Cancelled, count_stat fs_cancellations_update f, e1)
       else if \<not> fa_has_policy f then (Inl Err_NotReady, f, e1)
       else
         let (now, e2) = clock_now e1;
             (authority, e3) = authority_locked f e2;
             prior = (case map_of (fa_domains f) domain of None \<Rightarrow> initial_domain_state | Some s \<Rightarrow> s)
         in case evaluate (evaluation_request domain batch now authority f) prior (evaluation_context now authority f) of
             Inl er \<Rightarrow> (Inl er, f, e3)
           | Inr out \<Rightarrow>
               (case poll_cancelled token e3 of (cancelled2, e4) \<Rightarrow>
                 if cancelled2 then (Inl Err_Cancelled, count_stat fs_cancellations_update f, e4)
                 else commit_outcome domain now (av_granted authority) out f e4))"

definition fabric_evaluate_request :: "EvaluationRequest \<Rightarrow> Fabric \<Rightarrow> Env \<Rightarrow> EvaluationOutcome result \<times> Fabric \<times> Env" where
  "fabric_evaluate_request request f e =
     (case ensure_open f of
        Inl er \<Rightarrow> (Inl er, f, e)
      | Inr _ \<Rightarrow> evaluate_locked (rq_domain request) (rq_evidence request) False f e)"

definition evaluate_cancellable :: "DomainId \<Rightarrow> bool \<Rightarrow> Fabric \<Rightarrow> Env \<Rightarrow> EvaluationOutcome result \<times> Fabric \<times> Env" where
  "evaluate_cancellable domain token f e0 =
     (case ensure_open f of
        Inl er \<Rightarrow> (Inl er, f, e0)
      | Inr _ \<Rightarrow> (case collect_evidence domain f e0 of (batch, e) \<Rightarrow> evaluate_locked domain batch token f e))"

definition fabric_evaluate :: "DomainId \<Rightarrow> Fabric \<Rightarrow> Env \<Rightarrow> EvaluationOutcome result \<times> Fabric \<times> Env" where
  "fabric_evaluate domain = evaluate_cancellable domain False"

section \<open>Planning\<close>

definition intervention_record :: "InterventionIntent \<Rightarrow> InterventionRecord" where
  "intervention_record i =
     \<lparr>ic_id = in_id i, ic_kind = in_kind i, ic_domain = in_domain i, ic_resource = in_resource i,
      ic_basis_severity = in_basis_severity i, ic_evidence = in_evidence i, ic_evaluation = in_evaluation i,
      ic_epoch = in_epoch i, ic_authority_generation = in_authority_generation i, ic_policy = in_policy i,
      ic_provenance = in_provenance i, ic_recorded_tick = in_issued_tick i, ic_parameter = in_parameter i\<rparr>"

definition retained_intents :: "nat \<Rightarrow> Tick \<Rightarrow> InterventionIntent list \<Rightarrow> InterventionIntent list" where
  "retained_intents limit now active =
     (let retained = filter (\<lambda>i. \<not> in_expired_at i now) active
      in if length retained > limit then drop (length retained - limit) retained else retained)"

fun emit_intents ::
  "AuthorityVector \<Rightarrow> InterventionIntent list \<Rightarrow> InterventionIntent list \<Rightarrow> Fabric \<Rightarrow> Env \<Rightarrow>
     InterventionIntent list result \<times> Fabric \<times> Env" where
  "emit_intents authority [] retained f e = (Inr retained, f, e)"
| "emit_intents authority (i # is) retained f e =
     (if \<not> in_bound_to i authority then emit_intents authority is retained f e
      else case when_durable PK_LocalEvaluation (append_intervention (intervention_record i))
          (count_stat fs_interventions_authorized_update f) e of
          (Inl er, f1, e1) \<Rightarrow> (Inl er, f1, e1)
        | (Inr _, f1, e1) \<Rightarrow> emit_intents authority is (retained @ [i]) f1 e1)"

definition planning_context :: "Tick \<Rightarrow> AuthorityVector \<Rightarrow> Fabric \<Rightarrow> PlanningContext" where
  "planning_context now authority f =
     \<lparr>pc_policy = Some (fa_policy f), pc_topology = fa_topology f, pc_now = now, pc_epoch = fa_epoch f,
      pc_authority = authority\<rparr>"

definition active_of :: "DomainId \<Rightarrow> Fabric \<Rightarrow> InterventionIntent list" where
  "active_of domain f = (case map_of (fa_intents f) domain of None \<Rightarrow> [] | Some is \<Rightarrow> is)"

definition plan_outcome_locked ::
  "DomainId \<Rightarrow> EvaluationOutcome \<Rightarrow> Fabric \<Rightarrow> Env \<Rightarrow> InterventionPlan result \<times> Fabric \<times> Env" where
  "plan_outcome_locked domain out f e0 =
     (let (now, e1) = clock_now e0;
          (authority, e2) = authority_locked f e1;
          active = active_of domain f
      in case plan out (planning_context now authority f) active of
          Inl er \<Rightarrow> (Inl er, f, e2)
        | Inr p \<Rightarrow>
            (case emit_intents authority (ip_authorized p)
                (retained_intents (fo_max_active_interventions (fa_options f)) now active) f e2 of
               (Inl er, f1, e3) \<Rightarrow> (Inl er, f1, e3)
             | (Inr retained, f1, e3) \<Rightarrow>
                 let f2 = f1\<lparr>fa_stats := (fa_stats f1)\<lparr>fs_interventions_suppressed :=
                         fs_interventions_suppressed (fa_stats f1) + of_nat (length (ip_suppressed p))\<rparr>,
                       fa_intents := om_put domain retained (fa_intents f1)\<rparr>
                 in (Inr p,
                     (case map_of (fa_explanations f2) domain of
                        None \<Rightarrow> f2
                      | Some x \<Rightarrow> f2\<lparr>fa_explanations := om_put domain
                          (x\<lparr>ex_authorized := ip_authorized p, ex_suppressed := ip_suppressed p\<rparr>) (fa_explanations f2)\<rparr>), e3)))"

definition plan_committed :: "DomainId \<Rightarrow> EvaluationOutcome \<Rightarrow> Fabric \<Rightarrow> Env \<Rightarrow> InterventionPlan result \<times> Fabric \<times> Env" where
  "plan_committed domain out f e =
     (case ensure_open f of Inl er \<Rightarrow> (Inl er, f, e) | Inr _ \<Rightarrow> plan_outcome_locked domain out f e)"

text \<open>The two critical sections in sequence; another thread may come between them.\<close>

definition plan_cancellable :: "DomainId \<Rightarrow> bool \<Rightarrow> Fabric \<Rightarrow> Env \<Rightarrow> InterventionPlan result \<times> Fabric \<times> Env" where
  "plan_cancellable domain token f e0 =
     (case poll_cancelled token e0 of (cancelled, e1) \<Rightarrow>
       if cancelled then (Inl Err_Cancelled, count_stat fs_cancellations_update f, e1)
       else case evaluate_cancellable domain token f e1 of
           (Inl er, f1, e2) \<Rightarrow> (Inl er, f1, e2)
         | (Inr out, f1, e2) \<Rightarrow> plan_committed domain out f1 e2)"

definition fabric_plan :: "DomainId \<Rightarrow> Fabric \<Rightarrow> Env \<Rightarrow> InterventionPlan result \<times> Fabric \<times> Env" where
  "fabric_plan domain = plan_cancellable domain False"

definition plan_last :: "DomainId \<Rightarrow> Fabric \<Rightarrow> Env \<Rightarrow> InterventionPlan result \<times> Fabric \<times> Env" where
  "plan_last domain f e =
     (case ensure_open f of
        Inl er \<Rightarrow> (Inl er, f, e)
      | Inr _ \<Rightarrow>
          (case map_of (fa_last_outcomes f) domain of
             None \<Rightarrow> (Inl Err_NotFound, f, e)
           | Some out \<Rightarrow> plan_outcome_locked domain out f e))"

section \<open>Reading\<close>

definition explain_last :: "DomainId \<Rightarrow> Fabric \<Rightarrow> Explanation result" where
  "explain_last domain f =
     (case map_of (fa_explanations f) domain of None \<Rightarrow> Inl Err_NotFound | Some x \<Rightarrow> Inr x)"

definition explain :: "DomainId \<Rightarrow> Fabric \<Rightarrow> Env \<Rightarrow> Explanation result \<times> Fabric \<times> Env" where
  "explain domain f e =
     (case map_of (fa_explanations f) domain of
        Some x \<Rightarrow> (Inr x, f, e)
      | None \<Rightarrow>
          (case evaluate_cancellable domain False f e of
             (Inl er, f1, e1) \<Rightarrow> (Inl er, f1, e1)
           | (Inr _, f1, e1) \<Rightarrow>
               if map_of (fa_last_outcomes f1) domain = None then (Inl Err_NotFound, f1, e1)
               else case plan_last domain f1 e1 of
                   (Inl er, f2, e2) \<Rightarrow> (Inl er, f2, e2)
                 | (Inr _, f2, e2) \<Rightarrow> (explain_last domain f2, f2, e2)))"

definition domain_state_of :: "DomainId \<Rightarrow> Fabric \<Rightarrow> DomainState result" where
  "domain_state_of domain f = (case map_of (fa_domains f) domain of None \<Rightarrow> Inl Err_NotFound | Some s \<Rightarrow> Inr s)"

definition fabric_domains :: "Fabric \<Rightarrow> DomainId list" where
  "fabric_domains f = map fst (fa_domains f)"

definition evidence_entry_count :: "Fabric \<Rightarrow> nat" where
  "evidence_entry_count f = length (fa_evidence f)"

section \<open>Epochs\<close>

definition epoch_fence :: "EpochId \<Rightarrow> FenceReason \<Rightarrow> Tick \<Rightarrow> PublisherId \<times> PublisherRegistration \<Rightarrow> FenceRecord" where
  "epoch_fence previous reason now entry =
     (let record0 = \<lparr>fe_id = 0, fe_epoch = previous, fe_publisher = fst entry, fe_boot = pr_boot (snd entry),
            fe_last_generation = pr_last_generation (snd entry), fe_reason = reason, fe_issued_tick = now,
            fe_provenance = compute_provenance_id PK_EpochAdvance (fst entry) (pr_boot (snd entry)) previous now,
            fe_detail = ''epoch advanced; the incarnation must re-register''\<rparr>
      in record0\<lparr>fe_id := compute_fence_id record0\<rparr>)"

definition stale_domain :: "EpochId \<Rightarrow> AuthorityGeneration \<Rightarrow> DomainState \<Rightarrow> DomainState" where
  "stale_domain epoch generation s =
     s\<lparr>ds_state := (if is_authoritative (ds_state s) then St_Stale else ds_state s),
       ds_requires_revalidation := True, ds_candidate := St_Unknown, ds_candidate_streak := 0, ds_epoch := epoch,
       ds_authority_generation := generation\<rparr>"

definition advance_epoch :: "FenceReason \<Rightarrow> Fabric \<Rightarrow> Env \<Rightarrow> EpochId result \<times> Fabric \<times> Env" where
  "advance_epoch reason f0 e0 =
     (case ensure_open f0 of
        Inl er \<Rightarrow> (Inl er, f0, e0)
      | Inr _ \<Rightarrow>
          let (now, e) = clock_now e0;
              epoch = fa_epoch f0 + 1; generation = fa_generation f0 + 1;
              records = map (epoch_fence (fa_epoch f0) reason now) (fa_publishers f0);
              f = count_stat fs_epoch_advances_update f0;
              f1 = f\<lparr>fa_epoch := epoch, fa_generation := generation, fa_publishers := [], fa_evidence := [],
                     fa_intents := [],
                     fa_domains := map (\<lambda>(d, s). (d, stale_domain epoch generation s)) (fa_domains f),
                     fa_fences := fold put_fence records (fa_fences f),
                     fa_stats := (fa_stats f)\<lparr>fs_fences_issued := fs_fences_issued (fa_stats f) + of_nat (length records)\<rparr>\<rparr>
          in if fa_store f1 = None then (Inr epoch, f1, e)
             else case make_stamp PK_EpochAdvance f1 e of (stamp, e1) \<Rightarrow>
               (case counted_write (advance_epoch_durable epoch (fa_boot f1) (fr_boot_counter (fa_open_report f1)) stamp) f1 e1 of
                  (Inl er, f2, e2) \<Rightarrow> (Inl er, f2, e2)
                | (Inr _, f2, e2) \<Rightarrow>
                    (case each_write (\<lambda>r. append_fence r stamp) records f2 e2 of
                       (Inl er, f3, e3) \<Rightarrow> (Inl er, f3, e3)
                     | (Inr _, f3, e3) \<Rightarrow>
                         (case each_write (\<lambda>s. put_domain_state s stamp) (map snd (fa_domains f3)) f3 e3 of
                            (Inl er, f4, e4) \<Rightarrow> (Inl er, f4, e4)
                          | (Inr _, f4, e4) \<Rightarrow> (Inr epoch, f4, e4)))))"

end
