(* ===== verification/NCF_FabricInvariant.thy ===== *)
theory NCF_FabricInvariant
  imports NCF_Fabric
begin

text \<open>
  What every entry point of the fabric keeps true of its live state: the evidence window, the registrations and the
  intents belong to the current epoch and authority, and nothing of a fenced incarnation is usable.
\<close>

section \<open>Invariant\<close>

definition fences_ok :: "Fabric \<Rightarrow> bool" where
  "fences_ok f \<longleftrightarrow> om_inv (fa_fences f) \<and> (\<forall>p m. map_of (fa_fences f) p = Some m \<longrightarrow> om_inv m)"

definition window_ok :: "Fabric \<Rightarrow> bool" where
  "window_ok f \<longleftrightarrow> om_inv (fa_evidence f) \<and> length (fa_evidence f) \<le> fo_max_evidence_entries (fa_options f) \<and>
     (\<forall>k s. map_of (fa_evidence f) k = Some s \<longrightarrow> sample_key s = k \<and> es_epoch s = fa_epoch f \<and>
       \<not> is_fenced_in (es_publisher s) (es_publisher_boot s) f)"

definition publishers_ok :: "Fabric \<Rightarrow> bool" where
  "publishers_ok f \<longleftrightarrow> om_inv (fa_publishers f) \<and> length (fa_publishers f) \<le> fo_max_publishers (fa_options f) \<and>
     (\<forall>p r. map_of (fa_publishers f) p = Some r \<longrightarrow> pr_epoch r = fa_epoch f \<and> \<not> is_fenced_in p (pr_boot r) f)"

text \<open>An intent is bound to what the authority vector of the fabric says, whatever the tick.\<close>

definition intents_ok :: "Fabric \<Rightarrow> bool" where
  "intents_ok f \<longleftrightarrow> om_inv (fa_intents f) \<and>
     (\<forall>d is. map_of (fa_intents f) d = Some is \<longrightarrow> (\<forall>i \<in> set is. in_bound_to i (authority_at 0 f)))"

definition fabric_inv :: "Fabric \<Rightarrow> bool" where
  "fabric_inv f \<longleftrightarrow> fences_ok f \<and> window_ok f \<and> publishers_ok f \<and> intents_ok f"

named_theorems fabric_inv_defs

lemmas [fabric_inv_defs] = fabric_inv_def fences_ok_def window_ok_def publishers_ok_def intents_ok_def
  is_fenced_in_def in_bound_to_def authority_at_def

subsection \<open>Writes change the store and the counters only\<close>

definition same_core :: "Fabric \<Rightarrow> Fabric \<Rightarrow> bool" where
  "same_core f f' \<longleftrightarrow> f' = f\<lparr>fa_store := fa_store f', fa_stats := fa_stats f'\<rparr>"

lemma same_core_refl [simp]: "same_core f f"
  by (simp add: same_core_def)

lemma same_core_trans:
  assumes "same_core f g" and "same_core g h"
  shows "same_core f h"
proof -
  obtain a b c d where g: "g = f\<lparr>fa_store := a, fa_stats := b\<rparr>" and h: "h = g\<lparr>fa_store := c, fa_stats := d\<rparr>"
    using assms by (metis same_core_def)
  then show ?thesis by (simp add: same_core_def)
qed

lemma same_core_count [simp]: "same_core f (count_stat field f)"
  by (simp add: same_core_def count_stat_def)

lemma same_core_inv:
  assumes "same_core f f'"
  shows "fabric_inv f' = fabric_inv f"
proof -
  obtain a b where "f' = f\<lparr>fa_store := a, fa_stats := b\<rparr>" using assms by (metis same_core_def)
  then show ?thesis by (simp add: fabric_inv_defs)
qed

lemma same_core_store_write: "store_write op f e = (r, f', e') \<Longrightarrow> same_core f f'"
  by (auto simp: store_write_def same_core_def split: option.splits prod.splits)

lemma same_core_counted_write:
  assumes "counted_write op f e = (r, f', e')"
  shows "same_core f f'"
proof -
  obtain r1 f1 e1 where w: "store_write op f e = (r1, f1, e1)" by (metis prod_cases3)
  then have "same_core f1 f'" using assms by (auto simp: counted_write_def split: sum.splits)
  then show ?thesis using same_core_store_write [OF w] same_core_trans by blast
qed

lemma same_core_when_durable: "when_durable kind op f e = (r, f', e') \<Longrightarrow> same_core f f'"
  by (auto simp: when_durable_def split: if_splits prod.splits dest: same_core_counted_write)

lemma same_core_each_write: "each_write op xs f e = (r, f', e') \<Longrightarrow> same_core f f'"
proof (induction xs arbitrary: f e)
  case (Cons x xs)
  obtain r1 f1 e1 where w: "counted_write (op x) f e = (r1, f1, e1)" by (metis prod_cases3)
  then show ?case
    using Cons same_core_counted_write [OF w] same_core_trans by (auto split: sum.splits)
qed simp

subsection \<open>Fences\<close>

lemma is_fenced_put_fence:
  assumes "fences_ok f"
  shows "is_fenced_in p b (f\<lparr>fa_fences := put_fence r (fa_fences f)\<rparr>) \<longleftrightarrow>
    is_fenced_in p b f \<or> (p = fe_publisher r \<and> b = fe_boot r)"
  using assms
  by (auto simp: is_fenced_in_def put_fence_def fences_ok_def om_find_put split: option.splits)

lemma fences_ok_put_fence: "fences_ok f \<Longrightarrow> fences_ok (f\<lparr>fa_fences := put_fence r (fa_fences f)\<rparr>)"
  by (auto simp: fences_ok_def put_fence_def om_find_put om_inv_put split: option.splits)

lemma fold_put_fence:
  assumes "fences_ok f"
  shows "fences_ok (f\<lparr>fa_fences := fold put_fence rs (fa_fences f)\<rparr>) \<and>
    (is_fenced_in p b (f\<lparr>fa_fences := fold put_fence rs (fa_fences f)\<rparr>) \<longleftrightarrow>
      is_fenced_in p b f \<or> (\<exists>r \<in> set rs. fe_publisher r = p \<and> fe_boot r = b))"
  using assms
proof (induction rs arbitrary: f)
  case (Cons r rs)
  from Cons.IH [OF fences_ok_put_fence [OF Cons.prems, of r]] is_fenced_put_fence [OF Cons.prems, of p b r]
  show ?case by auto
qed simp

lemma map_of_filter_omap:
  assumes "om_inv m"
  shows "map_of (filter P m) k = (case map_of m k of None \<Rightarrow> None | Some v \<Rightarrow> if P (k, v) then Some v else None)"
  using assms
proof (induction m)
  case (Cons x m)
  have "map_of m (fst x) = None" using Cons.prems by (force simp: om_inv_Cons map_of_eq_None_iff)
  then show ?case using Cons by (cases x) (auto simp: om_inv_Cons split: option.splits)
qed simp

section \<open>The entry points keep the invariant\<close>

lemma inv_invalidate: "fabric_inv f \<Longrightarrow> fabric_inv (invalidate_generations f)"
  by (simp add: fabric_inv_defs invalidate_generations_def)

lemma inv_set_policy:
  assumes "fabric_inv f" and "fabric_set_policy p f e = (r, f', e')"
  shows "fabric_inv f'"
proof -
  have "fabric_inv (invalidate_generations (f\<lparr>fa_policy := q, fa_has_policy := True\<rparr>))" for q
    using assms(1) by (simp add: fabric_inv_defs invalidate_generations_def)
  then show ?thesis
    using assms by (auto simp: fabric_set_policy_def split: sum.splits if_splits
        dest!: same_core_when_durable same_core_inv)
qed

lemma inv_set_topology:
  assumes "fabric_inv f" and "fabric_set_topology t f e = (r, f', e')"
  shows "fabric_inv f'"
proof -
  have "fabric_inv (invalidate_generations (f\<lparr>fa_topology := q\<rparr>))" for q
    using assms(1) by (simp add: fabric_inv_defs invalidate_generations_def)
  then show ?thesis
    using assms by (auto simp: fabric_set_topology_def split: sum.splits if_splits
        dest!: same_core_when_durable same_core_inv)
qed

lemma inv_set_capacity:
  assumes "fabric_inv f" and "fabric_set_capacity c f e = (r, f', e')"
  shows "fabric_inv f'"
proof -
  have "fabric_inv (f\<lparr>fa_capacity := q\<rparr>)" for q using assms(1) by (simp add: fabric_inv_defs)
  then show ?thesis
    using assms by (auto simp: fabric_set_capacity_def split: sum.splits if_splits
        dest!: same_core_when_durable same_core_inv)
qed

lemma inv_publishers:
  assumes "fabric_inv f" and "publishers_ok (f\<lparr>fa_publishers := m\<rparr>)"
  shows "fabric_inv (f\<lparr>fa_publishers := m\<rparr>)"
  using assms by (simp add: fabric_inv_defs)

lemma is_fenced_in_fields [simp]:
  "is_fenced_in p b (f\<lparr>fa_publishers := m\<rparr>) = is_fenced_in p b f"
  "is_fenced_in p b (f\<lparr>fa_evidence := w\<rparr>) = is_fenced_in p b f"
  "is_fenced_in p b (f\<lparr>fa_stats := s\<rparr>) = is_fenced_in p b f"
  by (simp_all add: is_fenced_in_def)

lemma inv_put_publisher:
  assumes "fabric_inv f" and "pr_epoch r = fa_epoch f" and "\<not> is_fenced_in p (pr_boot r) f"
    and "length (fa_publishers f) < fo_max_publishers (fa_options f) \<or> map_of (fa_publishers f) p \<noteq> None"
  shows "fabric_inv (f\<lparr>fa_publishers := om_put p r (fa_publishers f)\<rparr>)"
proof (rule inv_publishers [OF assms(1)])
  show "publishers_ok (f\<lparr>fa_publishers := om_put p r (fa_publishers f)\<rparr>)"
    using assms by (auto simp: fabric_inv_def publishers_ok_def om_inv_put om_find_put om_put_length)
qed

lemma inv_register:
  assumes "fabric_inv f" and "register_publisher p b q f e = (r, f', e')"
  shows "fabric_inv f'"
  using assms
  by (auto simp: register_publisher_def ensure_open_def Let_def not_le split: if_splits prod.splits
      intro!: inv_put_publisher)

lemma inv_erase_publisher: "fabric_inv f \<Longrightarrow> fabric_inv (f\<lparr>fa_publishers := om_erase p (fa_publishers f)\<rparr>)"
  using om_erase_length [of p "fa_publishers f"]
  by (intro inv_publishers)
    (auto simp: fabric_inv_def publishers_ok_def om_inv_erase om_find_erase is_fenced_in_def split: if_splits)

lemma lookup_publisher_Inr:
  "lookup_publisher p b f = Inr r \<longleftrightarrow> map_of (fa_publishers f) p = Some r \<and> pr_boot r = b"
  by (auto simp: lookup_publisher_def split: option.splits)

lemma inv_heartbeat:
  assumes inv: "fabric_inv f" and out: "heartbeat p b f e = (res, f', e')"
  shows "fabric_inv f'"
proof (cases "ensure_open f = Inr () \<and> (\<exists>r. lookup_publisher p b f = Inr r)")
  case False
  then show ?thesis using inv out by (auto simp: heartbeat_def split: sum.splits)
next
  case True
  then obtain r where r: "map_of (fa_publishers f) p = Some r" "pr_boot r = b" "lookup_publisher p b f = Inr r"
    by (auto simp: lookup_publisher_Inr)
  have "pr_epoch r = fa_epoch f" "\<not> is_fenced_in p (pr_boot r) f"
    using inv r(1) by (simp_all add: fabric_inv_def publishers_ok_def)
  then show ?thesis
    using inv out True r by (auto simp: heartbeat_def split: prod.splits intro!: inv_put_publisher)
qed

lemma inv_window:
  assumes "fabric_inv f" and "window_ok (f\<lparr>fa_evidence := w\<rparr>)"
  shows "fabric_inv (f\<lparr>fa_evidence := w\<rparr>)"
  using assms by (simp add: fabric_inv_defs)

text \<open>Fencing: the incarnation loses its registration and its evidence together.\<close>

lemma inv_fence_state:
  assumes inv: "fabric_inv f" and r: "fe_publisher r = p" "fe_boot r = b"
    and ps: "om_inv ps" "length ps \<le> length (fa_publishers f)"
      "\<And>q x. map_of ps q = Some x \<Longrightarrow> map_of (fa_publishers f) q = Some x \<and> \<not> (q = p \<and> pr_boot x = b)"
  shows "fabric_inv (f\<lparr>fa_publishers := ps, fa_fences := put_fence r (fa_fences f),
    fa_evidence := filter (\<lambda>(k, s). \<not> (es_publisher s = p \<and> es_publisher_boot s = b)) (fa_evidence f)\<rparr>)"
    (is "fabric_inv ?f'")
proof -
  have parts: "fences_ok f" "window_ok f" "publishers_ok f" "intents_ok f" using inv by (simp_all add: fabric_inv_def)
  have fenced: "is_fenced_in q x ?f' \<longleftrightarrow> is_fenced_in q x f \<or> (q = p \<and> x = b)" for q x
    using is_fenced_put_fence [OF parts(1), of q x r] r by (simp add: is_fenced_in_def)
  have "window_ok ?f'"
    using parts(2) unfolding window_ok_def fenced
    by (auto simp: om_inv_filter map_of_filter_omap split: option.splits if_splits
        intro: order_trans [OF length_filter_le])
  moreover have "publishers_ok ?f'" using parts(3) ps unfolding publishers_ok_def fenced by force
  moreover have "fences_ok ?f'" using fences_ok_put_fence [OF parts(1), of r] by (simp add: fences_ok_def)
  moreover have "intents_ok ?f'" using parts(4) by (simp add: intents_ok_def in_bound_to_def authority_at_def)
  ultimately show ?thesis by (simp add: fabric_inv_def)
qed

lemma inv_fence_locked:
  assumes inv: "fabric_inv f" and out: "fence_publisher_locked p b reason detail f e = (res, f', e')"
  shows "fabric_inv f'"
proof (cases "id_valid p \<and> id_valid b")
  case False
  then show ?thesis using inv out by (auto simp: fence_publisher_locked_def)
next
  case True
  have pub: "om_inv (fa_publishers f)" using inv by (simp add: fabric_inv_def publishers_ok_def)
  define keep where "keep = (case map_of (fa_publishers f) p of
      None \<Rightarrow> (0, fa_publishers f)
    | Some r \<Rightarrow> if pr_boot r = b then (pr_last_generation r, om_erase p (fa_publishers f)) else (0, fa_publishers f))"
  obtain g ps where keep2: "keep = (g, ps)" by (cases keep)
  have ps: "om_inv ps" "length ps \<le> length (fa_publishers f)"
      "\<And>q x. map_of ps q = Some x \<Longrightarrow> map_of (fa_publishers f) q = Some x \<and> \<not> (q = p \<and> pr_boot x = b)"
    using keep2 pub om_erase_length [of p "fa_publishers f"]
    by (auto simp: keep_def om_inv_erase om_find_erase split: option.splits if_splits)
  obtain tick e1 where tick: "clock_now e = (tick, e1)" by (cases "clock_now e")
  let ?r0 = "\<lparr>fe_id = 0, fe_epoch = fa_epoch f, fe_publisher = p, fe_boot = b, fe_last_generation = g,
      fe_reason = reason, fe_issued_tick = tick,
      fe_provenance = compute_provenance_id PK_Fence p b (fa_epoch f) tick, fe_detail = detail\<rparr>"
  let ?r = "?r0\<lparr>fe_id := compute_fence_id ?r0\<rparr>"
  let ?f = "f\<lparr>fa_publishers := ps, fa_fences := put_fence ?r (fa_fences f),
      fa_evidence := filter (\<lambda>(k, s). \<not> (es_publisher s = p \<and> es_publisher_boot s = b)) (fa_evidence f)\<rparr>"
  define f2 where "f2 = count_stat fs_fences_issued_update ?f"
  define r where "r = ?r"
  have "fabric_inv ?f" by (rule inv_fence_state [OF inv _ _ ps]) simp_all
  then have inv2: "fabric_inv f2"
    unfolding f2_def using same_core_inv [OF same_core_count] by blast
  obtain r1 f1 e2 where w: "when_durable PK_Fence (append_fence r) f2 e1 = (r1, f1, e2)" by (metis prod_cases3)
  have "fence_publisher_locked p b reason detail f e =
      (case (r1, f1, e2) of (Inl er, f1, e1) \<Rightarrow> (Inl er, f1, e1) | (Inr _, f1, e1) \<Rightarrow> (Inr r, f1, e1))"
    unfolding w [symmetric] f2_def r_def fence_publisher_locked_def keep_def [symmetric] keep2 tick
    using True by (simp add: Let_def)
  then have "f' = f1" using out by (cases r1) simp_all
  then show ?thesis using same_core_inv [OF same_core_when_durable [OF w]] inv2 by simp
qed

lemma inv_fence: "fabric_inv f \<Longrightarrow> fence_publisher p b reason detail f e = (res, f', e') \<Longrightarrow> fabric_inv f'"
  by (auto simp: fence_publisher_def split: sum.splits dest: inv_fence_locked)

lemma inv_unregister: "fabric_inv f \<Longrightarrow> unregister_publisher p b reason detail f e = (res, f', e') \<Longrightarrow> fabric_inv f'"
  by (auto simp: unregister_publisher_def split: sum.splits if_splits prod.splits option.splits
      dest: inv_fence_locked intro: inv_erase_publisher)


subsection \<open>Evidence\<close>

definition stored_sample :: "Tick \<Rightarrow> EvidenceSample \<Rightarrow> EvidenceSample" where
  "stored_sample now s = (let s1 = s\<lparr>es_received_tick := now\<rparr> in s1\<lparr>es_snapshot := compute_snapshot_id s1\<rparr>)"

lemma stored_sample_fields [simp]:
  "sample_key (stored_sample now s) = sample_key s" "es_publisher (stored_sample now s) = es_publisher s"
  "es_publisher_boot (stored_sample now s) = es_publisher_boot s" "es_epoch (stored_sample now s) = es_epoch s"
  "es_generation (stored_sample now s) = es_generation s" "es_sequence (stored_sample now s) = es_sequence s"
  by (simp_all add: stored_sample_def sample_key_def Let_def)

lemma supersedes_stored [simp]: "supersedes (stored_sample now s) = supersedes s"
  "supersedes x (stored_sample now s) = supersedes x s"
  by (simp_all add: supersedes_def fun_eq_iff)

text \<open>The samples the loop may take up: of the current epoch, a registered and unfenced incarnation, no old generation.\<close>

definition eligible :: "EvidenceSample \<Rightarrow> PublisherRegistration \<Rightarrow> Fabric \<Rightarrow> bool" where
  "eligible s r f \<longleftrightarrow> id_valid (es_resource s) \<and> es_epoch s = fa_epoch f \<and>
     lookup_publisher (es_publisher s) (es_publisher_boot s) f = Inr r \<and>
     \<not> is_fenced_in (es_publisher s) (es_publisher_boot s) f \<and> \<not> es_generation s < pr_last_generation r"

definition room_for :: "EvidenceSample \<Rightarrow> Fabric \<Rightarrow> bool" where
  "room_for s f \<longleftrightarrow> (case map_of (fa_evidence f) (sample_key s) of
     None \<Rightarrow> length (fa_evidence f) < fo_max_evidence_entries (fa_options f)
   | Some previous \<Rightarrow> supersedes s previous)"

definition take_up :: "Tick \<Rightarrow> EvidenceSample \<Rightarrow> PublisherRegistration \<Rightarrow> Fabric \<Rightarrow> Fabric" where
  "take_up now s r f =
     (let f1 = (if es_is_heartbeat s then f
                else f\<lparr>fa_evidence := om_put (sample_key s) (stored_sample now s) (fa_evidence f)\<rparr>)
      in f1\<lparr>fa_publishers := om_put (es_publisher s) (saw_publisher now s r) (fa_publishers f1)\<rparr>)"

lemma saw_publisher_stored: "saw_publisher now (stored_sample now s) r = saw_publisher now s r"
  by (simp add: saw_publisher_def)

text \<open>A refused sample is counted, and changes nothing else.\<close>

lemma ingest_sample_refused:
  assumes "\<nexists>r. eligible s r f"
  shows "\<exists>rep' f'. ingest_sample now s (rep, f) = (rep', f') \<and> same_core f f' \<and>
    gr_accepted rep' = gr_accepted rep \<and> gr_duplicate rep' = gr_duplicate rep \<and> gr_rejected rep' = gr_rejected rep + 1"
proof (cases "id_valid (es_resource s) \<and> es_epoch s = fa_epoch f")
  case False
  then show ?thesis by (auto simp: ingest_sample_def)
next
  case head: True
  show ?thesis
  proof (cases "lookup_publisher (es_publisher s) (es_publisher_boot s) f")
    case (Inl er)
    with head show ?thesis by (simp add: ingest_sample_def)
  next
    case (Inr r)
    with assms head have "is_fenced_in (es_publisher s) (es_publisher_boot s) f \<or> es_generation s < pr_last_generation r"
      by (auto simp: eligible_def)
    with head Inr show ?thesis by (auto simp: ingest_sample_def)
  qed
qed

lemma ingest_sample_eligible:
  assumes "eligible s r f"
  shows "ingest_sample now s (rep, f) =
    (if es_is_heartbeat s \<or> room_for s f
     then (gr_accepted_update inc rep, count_stat fs_samples_ingested_update (take_up now s r f))
     else if map_of (fa_evidence f) (sample_key s) = None
     then (gr_rejected_update inc (gr_capacity_rejected_update inc rep), count_stat fs_samples_rejected_update f)
     else (gr_duplicate_update inc rep, count_stat fs_samples_duplicate_update f))"
proof -
  have guards: "id_valid (es_resource s)" "es_epoch s = fa_epoch f"
      "lookup_publisher (es_publisher s) (es_publisher_boot s) f = Inr r"
      "\<not> is_fenced_in (es_publisher s) (es_publisher_boot s) f" "\<not> es_generation s < pr_last_generation r"
    using assms by (simp_all add: eligible_def)
  define st where "st = stored_sample now s"
  have st: "sample_key st = sample_key s" "es_publisher st = es_publisher s" "supersedes st = supersedes s"
      "saw_publisher now st r = saw_publisher now s r"
    by (simp_all add: st_def saw_publisher_stored)
  have "ingest_sample now s (rep, f) =
     (if \<not> es_is_heartbeat s \<and> map_of (fa_evidence f) (sample_key st) = None \<and>
         length (fa_evidence f) \<ge> fo_max_evidence_entries (fa_options f) then
        (gr_rejected_update inc (gr_capacity_rejected_update inc rep), count_stat fs_samples_rejected_update f)
      else if \<not> es_is_heartbeat s \<and> (case map_of (fa_evidence f) (sample_key st) of None \<Rightarrow> False
          | Some previous \<Rightarrow> \<not> supersedes st previous) then
        (gr_duplicate_update inc rep, count_stat fs_samples_duplicate_update f)
      else
        let f1 = (if es_is_heartbeat s then f else f\<lparr>fa_evidence := om_put (sample_key st) st (fa_evidence f)\<rparr>)
        in (gr_accepted_update inc rep,
            count_stat fs_samples_ingested_update
              (f1\<lparr>fa_publishers := om_put (es_publisher st) (saw_publisher now st r) (fa_publishers f1)\<rparr>)))"
    unfolding ingest_sample_def st_def stored_sample_def Let_def prod.case
    by (simp only: guards sum.case not_True_eq_False if_False simp_thms)
  then show ?thesis
    unfolding st by (auto simp: take_up_def room_for_def st_def not_le Let_def split: option.splits)
qed


lemma inv_take_up:
  assumes inv: "fabric_inv f" and el: "eligible s r f" and room: "es_is_heartbeat s \<or> room_for s f"
  shows "fabric_inv (take_up now s r f)"
proof -
  have reg: "map_of (fa_publishers f) (es_publisher s) = Some r" "pr_boot r = es_publisher_boot s"
      "\<not> is_fenced_in (es_publisher s) (es_publisher_boot s) f" "es_epoch s = fa_epoch f"
    using el by (auto simp: eligible_def lookup_publisher_Inr)
  define f1 where "f1 = (if es_is_heartbeat s then f
      else f\<lparr>fa_evidence := om_put (sample_key s) (stored_sample now s) (fa_evidence f)\<rparr>)"
  have "fabric_inv f1"
  proof (cases "es_is_heartbeat s")
    case False
    have win: "window_ok f" using inv by (simp add: fabric_inv_def)
    have "length (fa_evidence f) < fo_max_evidence_entries (fa_options f) \<or> map_of (fa_evidence f) (sample_key s) \<noteq> None"
      using room False by (auto simp: room_for_def split: option.splits)
    then have "window_ok (f\<lparr>fa_evidence := om_put (sample_key s) (stored_sample now s) (fa_evidence f)\<rparr>)"
      using win reg by (auto simp: window_ok_def om_inv_put om_find_put om_put_length)
    then show ?thesis using inv_window [OF inv] False by (simp add: f1_def)
  qed (simp add: f1_def inv)
  moreover have "fa_publishers f1 = fa_publishers f" "fa_epoch f1 = fa_epoch f" "fa_options f1 = fa_options f"
      "is_fenced_in p b f1 = is_fenced_in p b f" for p b
    by (simp_all add: f1_def)
  moreover have "pr_epoch r = fa_epoch f" using inv reg by (simp add: fabric_inv_def publishers_ok_def)
  ultimately have "fabric_inv (f1\<lparr>fa_publishers := om_put (es_publisher s) (saw_publisher now s r) (fa_publishers f1)\<rparr>)"
    using reg by (intro inv_put_publisher) (simp_all add: saw_publisher_def)
  then show ?thesis by (simp add: take_up_def f1_def [symmetric] Let_def)
qed

lemma inv_ingest_sample:
  assumes inv: "fabric_inv f" and out: "ingest_sample now s (rep, f) = (rep', f')"
  shows "fabric_inv f'"
proof (cases "\<exists>r. eligible s r f")
  case False
  then show ?thesis using ingest_sample_refused [of s f now rep] out inv same_core_inv by auto
next
  case True
  then obtain r where el: "eligible s r f" by blast
  then show ?thesis
    using out inv inv_take_up [OF inv el] same_core_inv [OF same_core_count]
    by (auto simp: ingest_sample_eligible [OF el] split: if_splits)
qed

lemma inv_ingest_fold:
  "fabric_inv f \<Longrightarrow> fold (ingest_sample now) ss (rep, f) = (rep', f') \<Longrightarrow> fabric_inv f'"
proof (induction ss arbitrary: rep f)
  case (Cons s ss)
  obtain rep1 f1 where one: "ingest_sample now s (rep, f) = (rep1, f1)" by (cases "ingest_sample now s (rep, f)")
  show ?case by (rule Cons.IH [OF inv_ingest_sample [OF Cons.prems(1) one]]) (use Cons.prems(2) one in simp)
qed simp

lemma inv_ingest:
  assumes "fabric_inv f" and "ingest batch f e = (r, f', e')"
  shows "fabric_inv f'"
  using assms inv_ingest_fold [of "count_stat fs_batches_ingested_update f"] same_core_inv [OF same_core_count]
  by (auto simp: ingest_def Let_def split: if_splits sum.splits prod.splits)

subsection \<open>Evaluation\<close>

lemma inv_fields:
  assumes "fabric_inv f"
  shows "fabric_inv (f\<lparr>fa_domains := d\<rparr>)" "fabric_inv (f\<lparr>fa_explanations := x\<rparr>)" "fabric_inv (f\<lparr>fa_last_outcomes := l\<rparr>)"
    "fabric_inv (f\<lparr>fa_closed := c\<rparr>)" "fabric_inv (f\<lparr>fa_stats := st\<rparr>)"
  using assms by (simp_all add: fabric_inv_defs)

lemma inv_erase_intents: "fabric_inv f \<Longrightarrow> fabric_inv (f\<lparr>fa_intents := om_erase d (fa_intents f)\<rparr>)"
  by (auto simp: fabric_inv_defs om_inv_erase om_find_erase split: if_splits)

text \<open>The durable part of committing an outcome.\<close>

definition write_outcome ::
  "DomainId \<Rightarrow> Tick \<Rightarrow> EvaluationOutcome \<Rightarrow> Fabric \<Rightarrow> Env \<Rightarrow> void_result \<times> Fabric \<times> Env" where
  "write_outcome domain now out f3 e0 =
     (if fa_store f3 = None then (Inr (), f3, e0)
      else case make_stamp PK_LocalEvaluation f3 e0 of (stamp, e1) \<Rightarrow>
        (case counted_write (put_domain_state (eo_updated out) stamp) f3 e1 of
           (Inl er, f4, e2) \<Rightarrow> (Inl er, f4, e2)
         | (Inr _, f4, e2) \<Rightarrow>
             if eo_transitioned out then counted_write (append_history (history_entry domain now out f4) stamp) f4 e2
             else (Inr (), f4, e2)))"

lemma same_core_write_outcome:
  assumes "write_outcome domain now out f e = (r, f', e')"
  shows "same_core f f'"
proof (cases "fa_store f = None")
  case True
  then show ?thesis using assms by (simp add: write_outcome_def)
next
  case False
  obtain stamp e1 where stamp: "make_stamp PK_LocalEvaluation f e = (stamp, e1)" by (cases "make_stamp PK_LocalEvaluation f e")
  obtain r1 f1 e2 where w: "counted_write (put_domain_state (eo_updated out) stamp) f e1 = (r1, f1, e2)"
    by (metis prod_cases3)
  have "same_core f1 f'"
    using assms False stamp w
    by (auto simp: write_outcome_def split: sum.splits if_splits dest: same_core_counted_write)
  then show ?thesis using same_core_counted_write [OF w] same_core_trans by blast
qed

lemma commit_outcome_split:
  "commit_outcome domain now granted out f0 e0 =
     (let f1 = count_stat fs_evaluations_update (f0\<lparr>fa_domains := om_put domain (eo_updated out) (fa_domains f0)\<rparr>);
          f2 = (if eo_transitioned out then count_stat fs_transitions_update f1 else f1);
          f3 = (if \<not> eo_authoritative out then f2\<lparr>fa_intents := om_erase domain (fa_intents f2)\<rparr> else f2)
      in case write_outcome domain now out f3 e0 of
          (Inl er, f5, e3) \<Rightarrow> (Inl er, f5, e3)
        | (Inr _, f5, e3) \<Rightarrow>
            (Inr out,
             f5\<lparr>fa_explanations := put_bounded (fo_max_explanations (fa_options f5)) domain
                  (explain_outcome domain now granted out f5) (fa_explanations f5),
                fa_last_outcomes := put_bounded (fo_max_explanations (fa_options f5)) domain out (fa_last_outcomes f5)\<rparr>, e3))"
  unfolding commit_outcome_def write_outcome_def Let_def by (rule refl)

lemma inv_commit_outcome:
  assumes inv: "fabric_inv f" and out: "commit_outcome domain now granted out f e = (r, f', e')"
  shows "fabric_inv f'"
proof -
  define f1 where "f1 = count_stat fs_evaluations_update (f\<lparr>fa_domains := om_put domain (eo_updated out) (fa_domains f)\<rparr>)"
  define f2 where "f2 = (if eo_transitioned out then count_stat fs_transitions_update f1 else f1)"
  define f3 where "f3 = (if \<not> eo_authoritative out then f2\<lparr>fa_intents := om_erase domain (fa_intents f2)\<rparr> else f2)"
  obtain rw f5 e3 where w: "write_outcome domain now out f3 e = (rw, f5, e3)" by (metis prod_cases3)
  have "fabric_inv f1" unfolding f1_def same_core_inv [OF same_core_count] by (rule inv_fields [OF inv])
  then have "fabric_inv f2" by (simp add: f2_def same_core_inv [OF same_core_count])
  then have "fabric_inv f3" by (simp add: f3_def inv_erase_intents)
  then have inv5: "fabric_inv f5" using same_core_inv [OF same_core_write_outcome [OF w]] by simp
  have "f' = f5 \<or> (\<exists>x l. f' = f5\<lparr>fa_explanations := x\<rparr>\<lparr>fa_last_outcomes := l\<rparr>)"
    using out w unfolding commit_outcome_split Let_def f1_def [symmetric] f2_def [symmetric] f3_def [symmetric]
    by (auto split: sum.splits)
  then show ?thesis using inv5 inv_fields by blast
qed

lemma inv_evaluate_locked:
  assumes "fabric_inv f" and "evaluate_locked domain batch token f e = (r, f', e')"
  shows "fabric_inv f'"
  using assms same_core_inv [OF same_core_count] inv_commit_outcome
  by (auto simp: evaluate_locked_def Let_def split: prod.splits if_splits sum.splits)

lemma inv_evaluate_request: "fabric_inv f \<Longrightarrow> fabric_evaluate_request rq f e = (r, f', e') \<Longrightarrow> fabric_inv f'"
  by (auto simp: fabric_evaluate_request_def split: sum.splits dest: inv_evaluate_locked)

lemma inv_evaluate_cancellable: "fabric_inv f \<Longrightarrow> evaluate_cancellable domain token f e = (r, f', e') \<Longrightarrow> fabric_inv f'"
  by (auto simp: evaluate_cancellable_def split: sum.splits prod.splits dest: inv_evaluate_locked)

subsection \<open>Planning\<close>

lemma in_bound_to_tick: "in_bound_to i (authority_at t f) = in_bound_to i (authority_at 0 f)"
  by (simp add: in_bound_to_def authority_at_def)

lemma same_coreE:
  assumes "same_core f f'"
  obtains a b where "f' = f\<lparr>fa_store := a, fa_stats := b\<rparr>"
  using assms by (metis same_core_def)

lemma same_core_authority: "same_core f f' \<Longrightarrow> authority_at t f' = authority_at t f"
  by (erule same_coreE) (simp add: authority_at_def)

lemma emit_intents_bound:
  assumes "emit_intents authority is retained f e = (r, f', e')"
  shows "same_core f f' \<and> (case r of Inl _ \<Rightarrow> True
    | Inr kept \<Rightarrow> kept = retained @ filter (\<lambda>i. in_bound_to i authority) is)"
  using assms
proof (induction "is" arbitrary: retained f e)
  case Nil
  then show ?case by auto
next
  case (Cons i "is")
  show ?case
  proof (cases "in_bound_to i authority")
    case False
    then show ?thesis using Cons.IH [of retained f e] Cons.prems by (simp split: sum.splits)
  next
    case True
    obtain r1 f1 e1 where w: "when_durable PK_LocalEvaluation (append_intervention (intervention_record i))
        (count_stat fs_interventions_authorized_update f) e = (r1, f1, e1)"
      by (metis prod_cases3)
    have core: "same_core f f1"
      using same_core_when_durable [OF w] same_core_count same_core_trans by blast
    show ?thesis
    proof (cases r1)
      case (Inl er)
      then show ?thesis using True w core Cons.prems by auto
    next
      case (Inr u)
      then have "emit_intents authority is (retained @ [i]) f1 e1 = (r, f', e')" using True w Cons.prems by simp
      from Cons.IH [OF this] True core show ?thesis
        using same_core_trans by (auto split: sum.splits)
    qed
  qed
qed

lemma inv_put_intents:
  assumes "fabric_inv f" and "\<forall>i \<in> set is. in_bound_to i (authority_at 0 f)"
  shows "fabric_inv (f\<lparr>fa_intents := om_put d is (fa_intents f)\<rparr>)"
  using assms by (auto simp: fabric_inv_def fences_ok_def window_ok_def publishers_ok_def intents_ok_def
      is_fenced_in_def authority_at_def om_inv_put om_find_put)

lemma retained_intents_subset: "set (retained_intents n now active) \<subseteq> set active"
  by (auto simp: retained_intents_def Let_def dest: in_set_dropD)

lemma active_of_bound: "fabric_inv f \<Longrightarrow> i \<in> set (active_of d f) \<Longrightarrow> in_bound_to i (authority_at 0 f)"
  by (cases "map_of (fa_intents f) d") (auto simp: active_of_def fabric_inv_def intents_ok_def)

lemma inv_plan_outcome:
  assumes inv: "fabric_inv f" and out: "plan_outcome_locked domain outc f e = (r, f', e')"
  shows "fabric_inv f'"
proof -
  obtain now e1 where c1: "clock_now e = (now, e1)" by (cases "clock_now e")
  obtain tick e2 where c2: "clock_now e1 = (tick, e2)" by (cases "clock_now e1")
  define authority where "authority = authority_at tick f"
  define active where "active = retained_intents (fo_max_active_interventions (fa_options f)) now (active_of domain f)"
  show ?thesis
  proof (cases "plan outc (planning_context now authority f) (active_of domain f)")
    case (Inl er)
    then show ?thesis using inv out
      by (simp add: plan_outcome_locked_def authority_locked_def c1 c2 authority_def)
  next
    case (Inr p)
    obtain r1 f1 e3 where emit: "emit_intents authority (ip_authorized p) active f e2 = (r1, f1, e3)" by (metis prod_cases3)
    have core: "same_core f f1" using emit_intents_bound [OF emit] by blast
    have inv1: "fabric_inv f1" using same_core_inv [OF core] inv by simp
    show ?thesis
    proof (cases r1)
      case (Inl er)
      then show ?thesis using inv1 out \<open>plan _ _ _ = Inr p\<close> emit
        by (simp add: plan_outcome_locked_def authority_locked_def c1 c2 authority_def active_def)
    next
      case kept: (Inr kept)
      have "\<forall>i \<in> set kept. in_bound_to i (authority_at 0 f)"
        using emit_intents_bound [OF emit] kept
          active_of_bound [OF inv] retained_intents_subset [of "fo_max_active_interventions (fa_options f)" now]
        by (auto simp: active_def authority_def in_bound_to_tick [of _ tick] subset_iff)
      then have bound: "\<forall>i \<in> set kept. in_bound_to i (authority_at 0 f1)" by (simp add: same_core_authority [OF core])
      define f2 where "f2 = f1\<lparr>fa_intents := om_put domain kept (fa_intents f1)\<rparr>"
      have "fabric_inv f2" unfolding f2_def by (rule inv_put_intents [OF inv1 bound])
      moreover have "f' = f2\<lparr>fa_stats := fa_stats f'\<rparr>\<lparr>fa_explanations := fa_explanations f'\<rparr>"
        using out Inr kept emit
        by (auto simp: plan_outcome_locked_def authority_locked_def c1 c2 authority_def active_def f2_def Let_def
            split: option.splits)
      ultimately show ?thesis using inv_fields by metis
    qed
  qed
qed

lemma inv_plan_committed: "fabric_inv f \<Longrightarrow> plan_committed d outc f e = (r, f', e') \<Longrightarrow> fabric_inv f'"
  by (auto simp: plan_committed_def split: sum.splits dest: inv_plan_outcome)

lemma inv_plan_last: "fabric_inv f \<Longrightarrow> plan_last d f e = (r, f', e') \<Longrightarrow> fabric_inv f'"
  by (auto simp: plan_last_def split: sum.splits option.splits dest: inv_plan_outcome)

subsection \<open>Epochs, closing\<close>

lemma inv_new_epoch:
  assumes inv: "fabric_inv f"
    and fresh: "fa_publishers f' = []" "fa_evidence f' = []" "fa_intents f' = []"
      "fa_fences f' = fold put_fence rs (fa_fences f)"
  shows "fabric_inv f'"
proof -
  have "fences_ok f" using inv by (simp add: fabric_inv_def)
  from fold_put_fence [OF this, of rs] fresh(4) have "fences_ok f'" by (simp add: fences_ok_def)
  then show ?thesis using fresh by (simp add: fabric_inv_def window_ok_def publishers_ok_def intents_ok_def)
qed

lemma inv_advance_epoch:
  assumes inv: "fabric_inv f" and out: "advance_epoch reason f e = (r, f', e')"
  shows "fabric_inv f'"
proof (cases "fa_closed f")
  case True
  then show ?thesis using inv out by (simp add: advance_epoch_def ensure_open_def)
next
  case False
  obtain now e0 where c: "clock_now e = (now, e0)" by (cases "clock_now e")
  define records where "records = map (epoch_fence (fa_epoch f) reason now) (fa_publishers f)"
  define f1 where "f1 = (count_stat fs_epoch_advances_update f)\<lparr>fa_epoch := fa_epoch f + 1, fa_generation := fa_generation f + 1,
      fa_publishers := [], fa_evidence := [], fa_intents := [],
      fa_domains := map (\<lambda>(d, s). (d, stale_domain (fa_epoch f + 1) (fa_generation f + 1) s))
        (fa_domains (count_stat fs_epoch_advances_update f)),
      fa_fences := fold put_fence records (fa_fences (count_stat fs_epoch_advances_update f)),
      fa_stats := (fa_stats (count_stat fs_epoch_advances_update f))\<lparr>fs_fences_issued :=
        fs_fences_issued (fa_stats (count_stat fs_epoch_advances_update f)) + of_nat (length records)\<rparr>\<rparr>"
  have "fabric_inv f1" by (rule inv_new_epoch [OF inv, of _ records]) (simp_all add: f1_def count_stat_def)
  moreover have "same_core f1 f'"
    using out False unfolding advance_epoch_def ensure_open_def c Let_def prod.case
    by (fold records_def, fold f1_def)
      (auto split: if_splits prod.splits sum.splits
        dest!: same_core_counted_write same_core_each_write elim: same_core_trans intro: same_core_trans)
  ultimately show ?thesis by (simp add: same_core_inv)
qed

lemma inv_close: "fabric_inv f \<Longrightarrow> fabric_close f e = (r, f', e') \<Longrightarrow> fabric_inv f'"
  by (auto simp: fabric_close_def Let_def split: if_splits option.splits prod.splits intro: inv_fields)

lemma inv_explain: "fabric_inv f \<Longrightarrow> explain d f e = (r, f', e') \<Longrightarrow> fabric_inv f'"
  by (auto simp: explain_def split: option.splits prod.splits sum.splits if_splits
      dest: inv_evaluate_cancellable inv_plan_last)

lemma inv_plan_cancellable:
  assumes inv: "fabric_inv f" and out: "plan_cancellable d token f e = (r, f', e')"
  shows "fabric_inv f'"
proof -
  obtain cancelled e1 where p: "poll_cancelled token e = (cancelled, e1)" by (cases "poll_cancelled token e")
  obtain r1 f1 e2 where ev: "evaluate_cancellable d token f e1 = (r1, f1, e2)" by (metis prod_cases3)
  show ?thesis
    using out inv_evaluate_cancellable [OF inv ev] inv_plan_committed same_core_inv [OF same_core_count] inv
    by (auto simp: plan_cancellable_def p ev split: if_splits sum.splits)
qed

end
