(* ===== verification/NCF_FabricOpening.thy ===== *)
theory NCF_FabricOpening
  imports NCF_FabricInvariant
begin

text \<open>
  What a fabric is when it opens: idle, in a new epoch, with the fences of the recovered document and every
  one of its domains demoted. Errors on the way give the fabric up.
\<close>

section \<open>Opening\<close>

text \<open>Nothing of the live state is there when a fabric opens.\<close>

definition idle :: "Fabric \<Rightarrow> bool" where
  "idle f \<longleftrightarrow> fa_publishers f = [] \<and> fa_evidence f = [] \<and> fa_intents f = [] \<and> fa_explanations f = [] \<and>
     fa_last_outcomes f = [] \<and> \<not> fa_closed f"

definition restarted :: "Fabric \<Rightarrow> DomainState \<Rightarrow> bool" where
  "restarted f s \<longleftrightarrow> \<not> is_authoritative (ds_state s) \<and> ds_requires_revalidation s \<and> ds_candidate_streak s = 0 \<and>
     ds_epoch s = fa_epoch f \<and> ds_authority_generation s = fa_generation f \<and>
     ds_policy_fingerprint s = po_fingerprint (fa_policy f)"

lemma demoted_restarted: "restarted f (demoted_state s now f)"
  by (auto simp: restarted_def demoted_state_def demote_after_recovery_def is_authoritative_def)

lemma adopt_document_fields:
  "fa_store (adopt_document st f) = Some st"
  "fa_fences (adopt_document st f) = fold put_fence (dd_fences (st_document st)) (fa_fences f)"
  "fa_domains (adopt_document st f) = fa_domains f" "idle (adopt_document st f) = idle f"
  by (simp_all add: adopt_document_def idle_def Let_def split: option.splits sum.splits)

lemma idle_inv: "idle f \<Longrightarrow> fences_ok f \<Longrightarrow> fabric_inv f"
  by (simp add: fabric_inv_def window_ok_def publishers_ok_def intents_ok_def idle_def)

text \<open>Opening changes the live state in the domains and the report only, once the epoch is taken.\<close>

definition opens_to :: "Fabric \<Rightarrow> Fabric \<Rightarrow> bool" where
  "opens_to f f' \<longleftrightarrow> f' = f\<lparr>fa_store := fa_store f', fa_domains := fa_domains f', fa_open_report := fa_open_report f'\<rparr>"

lemma opens_to_refl [simp]: "opens_to f f"
  by (simp add: opens_to_def)

lemma opens_toE:
  assumes "opens_to f f'"
  obtains a b c where "f' = f\<lparr>fa_store := a, fa_domains := b, fa_open_report := c\<rparr>"
  using assms by (metis opens_to_def)

lemma opens_to_trans: "opens_to f g \<Longrightarrow> opens_to g h \<Longrightarrow> opens_to f h"
  by (elim opens_toE) (simp add: opens_to_def)

lemma opens_to_fields:
  assumes "opens_to f f'"
  shows "idle f' = idle f" "fences_ok f' = fences_ok f" "is_fenced_in p b f' = is_fenced_in p b f"
    "restarted f' s = restarted f s" "fa_epoch f' = fa_epoch f" "fa_generation f' = fa_generation f"
  using assms by (elim opens_toE; simp add: idle_def fences_ok_def is_fenced_in_def restarted_def)+

lemma store_write_opens:
  assumes "store_write op f e = (r, f', e')"
  shows "opens_to f f' \<and> fa_domains f' = fa_domains f"
  using assms by (auto simp: store_write_def opens_to_def split: option.splits prod.splits)

lemma om_put_elem: "set (om_put k v m) \<subseteq> insert (k, v) (set m)"
  by (induction m) auto

lemma restore_domains_opens:
  assumes "restore_domains stamp now ss f e = (r, f', e')" and "\<forall>s \<in> snd ` set (fa_domains f). restarted f s"
    and "om_inv (fa_domains f)"
  shows "opens_to f f' \<and> (\<forall>s \<in> snd ` set (fa_domains f'). restarted f' s) \<and>
    (r = Inr () \<longrightarrow> fst ` set (fa_domains f') = fst ` set (fa_domains f) \<union> ds_domain ` set ss)"
  using assms
proof (induction ss arbitrary: f e)
  case Nil
  then show ?case by auto
next
  case (Cons s ss)
  define updated where "updated = demoted_state s now f"
  define f0 where "f0 = f\<lparr>fa_domains := om_put (ds_domain updated) updated (fa_domains f),
      fa_open_report := (fa_open_report f)\<lparr>fr_domains_restored := fr_domains_restored (fa_open_report f) + 1,
        fr_domains_demoted := fr_domains_demoted (fa_open_report f) + (if ds_state updated \<noteq> ds_state s then 1 else 0)\<rparr>\<rparr>"
  obtain r1 f1 e1 where w1: "store_write (put_domain_state updated stamp) f0 e = (r1, f1, e1)" by (metis prod_cases3)
  obtain r2 f2 e2 where w2: "store_write (write_revalidation (restart_record s updated now stamp f1) stamp) f1 e1 = (r2, f2, e2)"
    by (metis prod_cases3)
  have out: "restore_domains stamp now (s # ss) f e =
      (case r1 of Inl er \<Rightarrow> (Inl er, f1, e1) | Inr _ \<Rightarrow> (case r2 of Inl er \<Rightarrow> (Inl er, f2, e2) | Inr _ \<Rightarrow> restore_domains stamp now ss f2 e2))"
    unfolding restore_domains.simps Let_def
    unfolding updated_def [symmetric]
    unfolding f0_def [symmetric] w1 prod.case
    by (cases r1; cases r2) (simp_all add: w2)
  have "opens_to f f0" by (simp add: opens_to_def f0_def)
  note op = this store_write_opens [OF w1, THEN conjunct1] store_write_opens [OF w2, THEN conjunct1]
  have doms: "fa_domains f1 = fa_domains f0" "fa_domains f2 = fa_domains f0"
    using store_write_opens w1 w2 by metis+
  have r0: "restarted f updated" by (simp add: updated_def demoted_restarted)
  have "\<forall>x \<in> snd ` set (fa_domains f0). restarted f x"
    using om_put_elem [of "ds_domain updated" updated "fa_domains f"] Cons.prems(2) r0 by (auto simp: f0_def)
  then have all: "\<forall>x \<in> snd ` set (fa_domains f2). restarted f2 x"
    using doms op opens_to_fields(4) by metis
  have inv: "om_inv (fa_domains f2)" by (simp add: doms f0_def om_inv_put Cons.prems)
  have keys: "fst ` set (fa_domains f2) = insert (ds_domain s) (fst ` set (fa_domains f))"
    by (simp add: doms f0_def om_put_keys updated_def demoted_state_def)
  have op2: "opens_to f f2" using op opens_to_trans by blast
  show ?case
  proof (cases "r1 = Inr () \<and> r2 = Inr ()")
    case False
    then have "r \<noteq> Inr () \<and> (f' = f1 \<or> f' = f2)" using out Cons.prems(1) by (auto split: sum.splits)
    moreover have "opens_to f f1" using op opens_to_trans by blast
    moreover have "\<forall>x \<in> snd ` set (fa_domains f1). restarted f1 x" using all doms op opens_to_fields(4) by metis
    ultimately show ?thesis using all op2 by blast
  next
    case True
    then have "restore_domains stamp now ss f2 e2 = (r, f', e')" using out Cons.prems(1) by simp
    from Cons.IH [OF this all inv] show ?thesis using op2 opens_to_trans keys by auto
  qed
qed

text \<open>The writes of opening leave the domains of the document alone, up to the restored ones.\<close>

lemma apply_mutation_domains: "apply_mutation k b d = Inr d' \<Longrightarrow> k \<noteq> Mu_DomainState \<Longrightarrow> dd_domains d' = dd_domains d"
  by (auto simp: apply_mutation_def split: if_splits sum.splits prod.splits)

lemma prune_document_domains: "prune_document opts d = (d', n) \<Longrightarrow> dd_domains d' = dd_domains d"
  by (auto simp: prune_document_def split: prod.splits)

lemma commit_domains:
  assumes "commit k b s st w = (res, st', w')" and "k \<noteq> Mu_DomainState"
  shows "dd_domains (st_document st') = dd_domains (st_document st)"
  using assms
  by (auto simp: commit_def Let_def split: if_splits sum.splits prod.splits dest!: apply_mutation_domains prune_document_domains)

lemma commit_encoded_domains:
  "commit_encoded k enc s st w = (res, st', w') \<Longrightarrow> k \<noteq> Mu_DomainState \<Longrightarrow>
    dd_domains (st_document st') = dd_domains (st_document st)"
  by (auto simp: commit_encoded_def split: sum.splits dest: commit_domains)

lemma store_write_domains:
  assumes "store_write (commit_encoded k enc s) f e = (r, f', e')" and "k \<noteq> Mu_DomainState" and "fa_store f = Some st"
  shows "\<exists>st'. fa_store f' = Some st' \<and> dd_domains (st_document st') = dd_domains (st_document st)"
  using assms commit_encoded_domains
  by (cases "commit_encoded k enc s st (en_world e)") (auto simp: store_write_def)

lemma announce_opens:
  assumes out: "announce counter now f e = (Inr u, f', e')" and none: "fa_domains f = []"
    and st: "fa_store f = Some st"
  shows "opens_to f f' \<and> (\<forall>s \<in> snd ` set (fa_domains f'). restarted f' s) \<and>
    fst ` set (fa_domains f') = ds_domain ` set (dd_domains (st_document st))"
proof -
  obtain stamp e1 where stamp: "make_stamp PK_CoordinatorBoot f e = (stamp, e1)" by (cases "make_stamp PK_CoordinatorBoot f e")
  obtain r1 f1 e2 where w1: "(if fr_policy_restored (fa_open_report f) then (Inr (), f, e1)
      else store_write (NCF_Store.set_policy (fa_policy f) stamp) f e1) = (r1, f1, e2)" by (metis prod_cases3)
  obtain r2 f2 e3 where w2: "store_write (advance_epoch_durable (fa_epoch f) (fa_boot f) counter stamp) f1 e2 = (r2, f2, e3)"
    by (metis prod_cases3)
  have ok: "r1 = Inr ()" "r2 = Inr ()"
    using out by (auto simp: announce_def stamp w1 w2 split: sum.splits)
  obtain st1 where st1: "fa_store f1 = Some st1" "dd_domains (st_document st1) = dd_domains (st_document st)"
  proof (cases "fr_policy_restored (fa_open_report f)")
    case True
    then show ?thesis using w1 st that by simp
  next
    case False
    then have "store_write (commit_encoded Mu_PolicySet (encode_policy (fa_policy f)) stamp) f e1 = (r1, f1, e2)"
      using w1 by (simp add: NCF_Store.set_policy_def)
    from store_write_domains [OF this _ st] show ?thesis using that by auto
  qed
  have op1: "opens_to f f1" "fa_domains f1 = []"
    using w1 none store_write_opens [of _ f e1 r1 f1 e2] by (auto split: if_splits)
  obtain st2 where st2: "fa_store f2 = Some st2" "dd_domains (st_document st2) = dd_domains (st_document st)"
    using store_write_domains [OF w2 [unfolded advance_epoch_durable_def] _ st1(1)] st1(2) by auto
  have op2: "opens_to f f2" "fa_domains f2 = []" using store_write_opens [OF w2] op1 opens_to_trans by auto
  have "restore_domains stamp now (dd_domains (st_document st)) f2 e3 = (Inr u, f', e')"
    using out by (simp add: announce_def stamp w1 w2 ok st2)
  from restore_domains_opens [OF this] show ?thesis using op2 opens_to_trans by auto
qed

text \<open>A fabric that opens, with a store or without.\<close>

definition opened_on :: "FabricOptions \<Rightarrow> Env \<Rightarrow> Store option" where
  "opened_on options e =
     (if fo_persist options \<and> fo_state_directory options \<noteq> []
      then (case store_open (fo_state_directory options) (fo_store options) (en_world (snd (clock_now e))) of
          (Inl _, _) \<Rightarrow> None | (Inr st, _) \<Rightarrow> Some st)
      else None)"

lemma fences_ok_blank: "fences_ok (blank_fabric options)" "idle (blank_fabric options)"
  by (simp_all add: fences_ok_def blank_fabric_def idle_def)

lemma blank_fields: "fa_domains (blank_fabric options) = []" "fa_store (blank_fabric options) = None"
  "fa_fences (blank_fabric options) = []"
  by (simp_all add: blank_fabric_def)

lemma take_office_fields:
  "idle (take_office epoch counter now f) = idle f" "fences_ok (take_office epoch counter now f) = fences_ok f"
  "is_fenced_in p b (take_office epoch counter now f) = is_fenced_in p b f"
  "fa_epoch (take_office epoch counter now f) = epoch" "fa_generation (take_office epoch counter now f) = epoch"
  "fa_domains (take_office epoch counter now f) = fa_domains f" "fa_store (take_office epoch counter now f) = fa_store f"
  by (simp_all add: take_office_def idle_def fences_ok_def is_fenced_in_def Let_def)

lemma install_default_fields:
  assumes "install_default f = Inr f'"
  shows "idle f' = idle f" "fences_ok f' = fences_ok f" "is_fenced_in p b f' = is_fenced_in p b f"
    "fa_epoch f' = fa_epoch f" "fa_generation f' = fa_generation f" "fa_domains f' = fa_domains f" "fa_store f' = fa_store f"
  using assms
  by (auto simp: install_default_def idle_def fences_ok_def is_fenced_in_def split: if_splits sum.splits)

lemma fabric_open_steps:
  assumes "fabric_open options e = (Inr f, e')" and "clock_now e = (now, e1)"
  obtains f1 epoch counter e2 f3 where "install_default (take_office epoch counter now f1) = Inr f3"
    and "(fa_store f3 = None \<and> f = f3) \<or> (fa_store f3 \<noteq> None \<and> (\<exists>u. announce counter now f3 e2 = (Inr u, f, e')))"
    and "case opened_on options e of
        None \<Rightarrow> f1 = blank_fabric options \<and> epoch = 1
      | Some st \<Rightarrow> f1 = adopt_document st (blank_fabric options) \<and> epoch = fst (opening_epoch (st_document st))"
proof -
  define first where "first = (if fo_persist options \<and> fo_state_directory options \<noteq> [] then
      (case store_open (fo_state_directory options) (fo_store options) (en_world e1) of
         (Inl er, w) \<Rightarrow> (Inl er, e1\<lparr>en_world := w\<rparr>)
       | (Inr st, w) \<Rightarrow> (Inr (adopt_document st (blank_fabric options), opening_epoch (st_document st)), e1\<lparr>en_world := w\<rparr>))
    else (Inr (blank_fabric options, 1, 1), e1))"
  have out: "(case first of (Inl er, e2) \<Rightarrow> (Inl er, e2)
      | (Inr (f1, epoch, counter), e2) \<Rightarrow>
          (case install_default (take_office epoch counter now f1) of
             Inl er \<Rightarrow> (Inl er, drop_fabric (take_office epoch counter now f1) e2)
           | Inr f3 \<Rightarrow> if fa_store f3 = None then (Inr f3, e2)
               else case announce counter now f3 e2 of
                   (Inl er, f4, e3) \<Rightarrow> (Inl er, drop_fabric f4 e3) | (Inr _, f4, e3) \<Rightarrow> (Inr f4, e3))) = (Inr f, e')"
    using assms(1) unfolding fabric_open_def assms(2) Let_def prod.case first_def .
  then obtain f1 epoch counter e2 where first: "first = (Inr (f1, epoch, counter), e2)"
    by (cases first; cases "fst first") auto
  with out obtain f3 where f3: "install_default (take_office epoch counter now f1) = Inr f3" by (auto split: sum.splits)
  show ?thesis
  proof
    show "install_default (take_office epoch counter now f1) = Inr f3" by (rule f3)
    show "(fa_store f3 = None \<and> f = f3) \<or> (fa_store f3 \<noteq> None \<and> (\<exists>u. announce counter now f3 e2 = (Inr u, f, e')))"
      using out by (auto simp: first f3 split: if_splits sum.splits prod.splits)
    show "case opened_on options e of
        None \<Rightarrow> f1 = blank_fabric options \<and> epoch = 1
      | Some st \<Rightarrow> f1 = adopt_document st (blank_fabric options) \<and> epoch = fst (opening_epoch (st_document st))"
    proof (cases "fo_persist options \<and> fo_state_directory options \<noteq> []")
      case False
      then show ?thesis using first by (auto simp: first_def opened_on_def)
    next
      case True
      obtain rs w where opened: "store_open (fo_state_directory options) (fo_store options) (en_world e1) = (rs, w)"
        by (metis prod.exhaust)
      with first True obtain st where "rs = Inr st" by (cases rs) (simp_all add: first_def)
      with first True opened have "f1 = adopt_document st (blank_fabric options)" "(epoch, counter) = opening_epoch (st_document st)"
        by (simp_all add: first_def)
      then show ?thesis using \<open>rs = Inr st\<close> opened True by (simp add: opened_on_def assms(2)) (metis fst_conv)
    qed
  qed
qed

lemma fabric_open_state:
  assumes out: "fabric_open options e = (Inr f, e')"
  shows "idle f \<and> fences_ok f \<and> fa_generation f = fa_epoch f \<and> (\<forall>s \<in> snd ` set (fa_domains f). restarted f s) \<and>
    (case opened_on options e of
       None \<Rightarrow> fa_epoch f = 1 \<and> fa_domains f = []
     | Some st \<Rightarrow> fa_epoch f = fst (opening_epoch (st_document st)) \<and>
         (\<forall>p b. is_fenced_in p b f \<longleftrightarrow> (\<exists>r \<in> set (dd_fences (st_document st)). fe_publisher r = p \<and> fe_boot r = b)) \<and>
         fst ` set (fa_domains f) = ds_domain ` set (dd_domains (st_document st)))"
proof -
  obtain now e1 where c: "clock_now e = (now, e1)" by (cases "clock_now e")
  obtain f1 epoch counter e2 f3 where f3: "install_default (take_office epoch counter now f1) = Inr f3"
    and last: "(fa_store f3 = None \<and> f = f3) \<or> (fa_store f3 \<noteq> None \<and> (\<exists>u. announce counter now f3 e2 = (Inr u, f, e')))"
    and base: "case opened_on options e of
        None \<Rightarrow> f1 = blank_fabric options \<and> epoch = 1
      | Some st \<Rightarrow> f1 = adopt_document st (blank_fabric options) \<and> epoch = fst (opening_epoch (st_document st))"
    by (rule fabric_open_steps [OF out c])
  note fields3 = install_default_fields [OF f3, unfolded take_office_fields]
  have none: "fa_domains f1 = []" and idle1: "idle f1"
    and store1: "fa_store f1 = opened_on options e"
  proof (atomize (full), cases "opened_on options e")
    case None
    with base have "f1 = blank_fabric options" by simp
    then show "fa_domains f1 = [] \<and> idle f1 \<and> fa_store f1 = opened_on options e"
      by (simp add: None blank_fields fences_ok_blank)
  next
    case (Some st)
    with base have "f1 = adopt_document st (blank_fabric options)" by simp
    then show "fa_domains f1 = [] \<and> idle f1 \<and> fa_store f1 = opened_on options e"
      by (simp add: Some adopt_document_fields blank_fields fences_ok_blank)
  qed
  have fenced1: "fences_ok f1 \<and> (is_fenced_in p b f1 \<longleftrightarrow> (case opened_on options e of None \<Rightarrow> False
      | Some st \<Rightarrow> \<exists>r \<in> set (dd_fences (st_document st)). fe_publisher r = p \<and> fe_boot r = b))" for p b
  proof (cases "opened_on options e")
    case None
    then show ?thesis using base fences_ok_blank by (simp add: is_fenced_in_def blank_fabric_def)
  next
    case (Some st)
    have "fa_fences f1 = fold put_fence (dd_fences (st_document st)) (fa_fences (blank_fabric options))"
      using base Some by (simp add: adopt_document_fields)
    then show ?thesis
      using fold_put_fence [OF fences_ok_blank(1) [of options], of "dd_fences (st_document st)" p b] Some
      by (simp add: fences_ok_def is_fenced_in_def blank_fabric_def)
  qed
  show ?thesis
  proof (cases "opened_on options e")
    case None
    then have "f = f3" using last fields3(7) store1 by simp
    then show ?thesis using None base fields3 none idle1 fenced1 by simp
  next
    case (Some st)
    then obtain u where an: "announce counter now f3 e2 = (Inr u, f, e')" using last fields3(7) store1 by auto
    have "fa_domains f3 = []" "fa_store f3 = Some st" using fields3 none store1 Some by simp_all
    note opens = announce_opens [OF an this]
    then have fin: "opens_to f3 f" by simp
    show ?thesis
      using Some base opens opens_to_fields [OF fin] fields3 idle1 fenced1 by simp
  qed
qed

lemma inv_open: "fabric_open options e = (Inr f, e') \<Longrightarrow> fabric_inv f"
  using fabric_open_state idle_inv by blast

end
