(* ===== verification/NCF_FabricRuns.thy ===== *)
theory NCF_FabricRuns
  imports NCF_FabricOpening
begin

text \<open>
  Runs of the fabric: any interleaving of critical sections from opening. The invariant holds on every run; a
  cancelled evaluation is inert; a replayed batch leaves the evidence window as it was.
\<close>

section \<open>Runs\<close>

text \<open>
  One step is one critical section, by any thread, with any arguments, clock readings, cancellation answers and
  I/O outcomes. The second section of planning may follow an evaluation at any distance, so it takes any outcome.
\<close>

inductive fabric_step :: "Fabric \<Rightarrow> Fabric \<Rightarrow> bool" where
  step_policy: "fabric_set_policy p f e = (r, f', e') \<Longrightarrow> fabric_step f f'"
| step_topology: "fabric_set_topology t f e = (r, f', e') \<Longrightarrow> fabric_step f f'"
| step_capacity: "fabric_set_capacity c f e = (r, f', e') \<Longrightarrow> fabric_step f f'"
| step_register: "register_publisher p b requested f e = (rr, f', e') \<Longrightarrow> fabric_step f f'"
| step_unregister: "unregister_publisher p b reason detail f e = (r, f', e') \<Longrightarrow> fabric_step f f'"
| step_fence: "fence_publisher p b reason detail f e = (rf, f', e') \<Longrightarrow> fabric_step f f'"
| step_heartbeat: "heartbeat p b f e = (r, f', e') \<Longrightarrow> fabric_step f f'"
| step_ingest: "ingest batch f e = (ri, f', e') \<Longrightarrow> fabric_step f f'"
| step_request: "fabric_evaluate_request rq f e = (ro, f', e') \<Longrightarrow> fabric_step f f'"
| step_evaluate: "evaluate_cancellable d token f e = (ro, f', e') \<Longrightarrow> fabric_step f f'"
| step_plan: "plan_committed d out f e = (rp, f', e') \<Longrightarrow> fabric_step f f'"
| step_plan_last: "plan_last d f e = (rp, f', e') \<Longrightarrow> fabric_step f f'"
| step_cancel_plan: "fabric_step f (count_stat fs_cancellations_update f)"
| step_epoch: "advance_epoch reason f e = (re, f', e') \<Longrightarrow> fabric_step f f'"
| step_close: "fabric_close f e = (r, f', e') \<Longrightarrow> fabric_step f f'"

inductive reachable_fabric :: "Fabric \<Rightarrow> bool" where
  reach_open: "fabric_open options e = (Inr f, e') \<Longrightarrow> reachable_fabric f"
| reach_step: "reachable_fabric f \<Longrightarrow> fabric_step f f' \<Longrightarrow> reachable_fabric f'"

lemmas entry_inv = inv_set_policy inv_set_topology inv_set_capacity inv_register inv_unregister inv_fence inv_heartbeat
  inv_ingest inv_evaluate_request inv_evaluate_cancellable inv_plan_committed inv_plan_last inv_advance_epoch inv_close

lemma inv_step: "fabric_step f f' \<Longrightarrow> fabric_inv f \<Longrightarrow> fabric_inv f'"
proof (induction rule: fabric_step.induct)
  case (step_cancel_plan f)
  then show ?case by (simp add: same_core_inv [OF same_core_count])
qed (rule entry_inv, assumption+)+

lemma reachable_inv: "reachable_fabric f \<Longrightarrow> fabric_inv f"
  by (induction rule: reachable_fabric.induct) (auto intro: inv_open inv_step)

text \<open>C4: whatever the threads of the process do, the live state of the fabric belongs to its present authority. On any
  interleaving of critical sections after opening, with any arguments, clock, cancellations and I/O faults:
  every sample in the evidence window was minted under the current epoch by an incarnation that is not
  fenced, and is filed under its own key; every registration is of the current epoch and not fenced; every
  intent that any domain holds is bound to the current epoch, generation and policy; and the window and the
  registrations stay within their configured bounds.\<close>

theorem live_state_is_current:
  assumes "reachable_fabric f"
  shows "(\<forall>k s. map_of (fa_evidence f) k = Some s \<longrightarrow> k = sample_key s \<and> es_epoch s = fa_epoch f \<and>
           \<not> is_fenced_in (es_publisher s) (es_publisher_boot s) f) \<and>
         (\<forall>p b r. lookup_publisher p b f = Inr r \<longrightarrow> pr_epoch r = fa_epoch f \<and> \<not> is_fenced_in p b f) \<and>
         (\<forall>d t. \<forall>i \<in> set (active_of d f). in_bound_to i (authority_at t f)) \<and>
         evidence_entry_count f \<le> fo_max_evidence_entries (fa_options f) \<and>
         length (fa_publishers f) \<le> fo_max_publishers (fa_options f)"
proof -
  have inv: "fabric_inv f" by (rule reachable_inv [OF assms])
  then have "window_ok f" "publishers_ok f" by (simp_all add: fabric_inv_def)
  then show ?thesis
    using active_of_bound [OF inv] in_bound_to_tick
    unfolding window_ok_def publishers_ok_def lookup_publisher_Inr evidence_entry_count_def by blast
qed

subsection \<open>A fabric in memory\<close>

definition memory_options :: FabricOptions where
  "memory_options = default_fabric_options\<lparr>fo_persist := False\<rparr>"

definition quiet_env :: Env where
  "quiet_env = \<lparr>en_world = \<lparr>wd_files = (\<lambda>_. None), wd_script = []\<rparr>, en_ticks = [100], en_polls = []\<rparr>"

lemma quiet_clock: "clock_now quiet_env = (100, quiet_env)"
  by (simp add: clock_now_def quiet_env_def)

definition memory_fabric :: Fabric where
  "memory_fabric = (take_office 1 1 100 (blank_fabric memory_options))\<lparr>fa_policy := make_default_policy, fa_has_policy := True\<rparr>"

lemma memory_open: "fabric_open memory_options quiet_env = (Inr memory_fabric, quiet_env)"
proof -
  have "install_default (take_office 1 1 100 (blank_fabric memory_options)) = Inr memory_fabric"
    by (simp add: install_default_def default_policy_valid memory_fabric_def take_office_def blank_fabric_def Let_def)
  moreover have "fa_store memory_fabric = None" by (simp add: memory_fabric_def take_office_def blank_fabric_def Let_def)
  moreover have "\<not> fo_persist memory_options" by (simp add: memory_options_def)
  ultimately show ?thesis by (simp add: fabric_open_def quiet_clock Let_def)
qed

lemma memory_fields:
  "idle memory_fabric" "fa_epoch memory_fabric = 1" "fa_options memory_fabric = memory_options" "fa_fences memory_fabric = []"
  "fa_store memory_fabric = None"
  by (simp_all add: memory_fabric_def take_office_def blank_fabric_def Let_def idle_def)

definition demo_registration :: PublisherRegistration where
  "demo_registration =
     \<lparr>pr_publisher = 2, pr_boot = 1, pr_epoch = 1, pr_connection = 0, pr_registered_tick = 100, pr_last_seen_tick = 100,
      pr_last_generation = 0, pr_last_sequence = 0,
      pr_granted = aset_all AND kAuthorityAllBits AND NOT (fo_local_denied memory_options), pr_alive = True, pr_fenced = False,
      pr_fence_reason = FR_None, pr_provenance = compute_provenance_id PK_RemotePublisher 2 1 1 100\<rparr>"

definition registered_fabric :: Fabric where
  "registered_fabric = memory_fabric\<lparr>fa_publishers := [(2, demo_registration)]\<rparr>"

lemma memory_register:
  "register_publisher 2 1 aset_all memory_fabric quiet_env = (Inr demo_registration, registered_fabric, quiet_env)"
  using memory_fields
  by (simp add: register_publisher_def ensure_open_def idle_def is_fenced_in_def quiet_clock Let_def demo_registration_def
      registered_fabric_def id_valid_def memory_options_def default_fabric_options_def ncf_defs)

definition feed_batch :: EvidenceBatch where
  "feed_batch = \<lparr>eb_id = 1, eb_epoch = 1, eb_provenance = 1, eb_submitted_tick = 95, eb_samples = [demo_sample 2 900000]\<rparr>"

definition fed_fabric :: Fabric where
  "fed_fabric = fst (snd (ingest feed_batch registered_fabric quiet_env))"

lemma demo_eligible:
  "eligible (demo_sample 2 900000) demo_registration (count_stat fs_batches_ingested_update registered_fabric)"
  using memory_fields
  by (simp add: eligible_def demo_sample_def lookup_publisher_def registered_fabric_def demo_registration_def is_fenced_in_def
      count_stat_def id_valid_def)

lemma memory_ingest:
  "\<exists>rep. ingest feed_batch registered_fabric quiet_env = (Inr rep, fed_fabric, quiet_env) \<and> gr_accepted rep = 1 \<and>
     fa_evidence fed_fabric = [(sample_key (demo_sample 2 900000), stored_sample 100 (demo_sample 2 900000))] \<and>
     fa_epoch fed_fabric = 1 \<and> \<not> fa_closed fed_fabric"
proof -
  let ?f = "count_stat fs_batches_ingested_update registered_fabric"
  have fields: "fa_evidence ?f = []" "fa_options ?f = memory_options" "\<not> fa_closed registered_fabric" "\<not> fa_closed ?f" "fa_epoch ?f = 1"
    using memory_fields by (simp_all add: count_stat_def registered_fabric_def idle_def)
  have room: "room_for (demo_sample 2 900000) ?f"
    by (simp add: room_for_def fields memory_options_def default_fabric_options_def ncf_defs)
  have plain: "\<not> es_is_heartbeat (demo_sample 2 900000)" by (simp add: es_is_heartbeat_def demo_sample_def)
  note step = ingest_sample_eligible [OF demo_eligible]
  have "ingest feed_batch registered_fabric quiet_env =
      (Inr (gr_accepted_update inc new_ingest_report),
       count_stat fs_samples_ingested_update (take_up 100 (demo_sample 2 900000) demo_registration ?f), quiet_env)"
    using room fields(3) by (simp add: ingest_def feed_batch_def quiet_clock ensure_open_def step ncf_defs)
  then show ?thesis using fields plain
    by (simp add: fed_fabric_def new_ingest_report_def take_up_def count_stat_def Let_def)
qed

lemma fed_reachable: "reachable_fabric fed_fabric"
  using reach_open [OF memory_open] step_register [OF memory_register] memory_ingest step_ingest reach_step by metis

theorem live_state_is_current_witness:
  "\<exists>f s. reachable_fabric f \<and> map_of (fa_evidence f) (sample_key s) = Some s \<and> es_epoch s = fa_epoch f \<and>
     \<not> is_fenced_in (es_publisher s) (es_publisher_boot s) f"
proof -
  have "map_of (fa_evidence fed_fabric) (sample_key (demo_sample 2 900000)) = Some (stored_sample 100 (demo_sample 2 900000))"
    using memory_ingest by auto
  with live_state_is_current [OF fed_reachable] fed_reachable show ?thesis
    by (metis stored_sample_fields(1))
qed

section \<open>Cancellation\<close>

lemma clock_keeps: "clock_now e = (t, e') \<Longrightarrow> en_polls e' = en_polls e \<and> en_world e' = en_world e"
  by (auto simp: clock_now_def split: list.splits)

text \<open>C21: a cancelled evaluation reports failure and changes nothing. If the token is cancelled at either of the two
  points where it is polled, before the work or at the commit boundary, the call returns an error, no file
  is touched, and of the state of the fabric at most the counters differ.\<close>

theorem cancelled_evaluation_is_inert:
  assumes "True \<in> set (take 2 (en_polls e))" and "evaluate_cancellable d True f e = (r, f', e')"
  shows "(\<exists>er. r = Inl er) \<and> f' = f\<lparr>fa_stats := fa_stats f'\<rparr> \<and> en_world e' = en_world e"
proof (cases "fa_closed f")
  case True
  then show ?thesis using assms(2) by (auto simp: evaluate_cancellable_def ensure_open_def)
next
  case False
  obtain batch e1 where b: "collect_evidence d f e = (batch, e1)" by (cases "collect_evidence d f e")
  then have e1: "en_polls e1 = en_polls e" "en_world e1 = en_world e"
    using clock_keeps [of e] by (auto simp: collect_evidence_def Let_def split: prod.splits)
  have run: "evaluate_locked d batch True f e1 = (r, f', e')"
    using assms(2) False b by (simp add: evaluate_cancellable_def ensure_open_def)
  have "en_polls e1 \<noteq> []" using assms(1) e1 by auto
  then obtain p ps where polls: "en_polls e1 = p # ps" by (metis neq_Nil_conv)
  show ?thesis
  proof (cases "p \<or> \<not> fa_has_policy f")
    case True
    then show ?thesis using run polls e1 by (cases p) (auto simp: evaluate_locked_def poll_cancelled_def count_stat_def)
  next
    case go: False
    define e2 where "e2 = e1\<lparr>en_polls := ps\<rparr>"
    obtain now e3 where c1: "clock_now e2 = (now, e3)" by (cases "clock_now e2")
    obtain t e4 where c2: "clock_now e3 = (t, e4)" by (cases "clock_now e3")
    have ps: "ps \<noteq> [] \<and> hd ps" using assms(1) go polls e1 by (cases ps) auto
    have e4: "en_polls e4 = ps" "en_world e4 = en_world e"
      using clock_keeps [OF c1] clock_keeps [OF c2] e1 by (simp_all add: e2_def)
    have poll: "poll_cancelled True e1 = (False, e2)" using go polls by (simp add: poll_cancelled_def e2_def)
    have poll2: "poll_cancelled True e4 = (True, e4\<lparr>en_polls := tl ps\<rparr>)" using ps e4 by (cases ps) (simp_all add: poll_cancelled_def)
    define ev where "ev = evaluate (evaluation_request d batch now (authority_at t f) f)
        (case map_of (fa_domains f) d of None \<Rightarrow> initial_domain_state | Some s \<Rightarrow> s)
        (evaluation_context now (authority_at t f) f)"
    have "evaluate_locked d batch True f e1 =
        (case ev of Inl er \<Rightarrow> (Inl er, f, e4)
         | Inr _ \<Rightarrow> (Inl Err_Cancelled, count_stat fs_cancellations_update f, e4\<lparr>en_polls := tl ps\<rparr>))"
      using go by (cases ev) (simp_all add: evaluate_locked_def poll c1 authority_locked_def c2 poll2 Let_def ev_def [symmetric])
    then show ?thesis using run e4 by (cases ev) (auto simp: count_stat_def)
  qed
qed

theorem cancelled_evaluation_is_inert_witness:
  "\<exists>er f' e'. evaluate_cancellable 7 True fed_fabric (quiet_env\<lparr>en_polls := [False, True]\<rparr>) = (Inl er, f', e') \<and>
     fa_evidence f' = fa_evidence fed_fabric"
proof -
  obtain r f' e' where run: "evaluate_cancellable 7 True fed_fabric (quiet_env\<lparr>en_polls := [False, True]\<rparr>) = (r, f', e')"
    by (metis prod_cases3)
  from cancelled_evaluation_is_inert [OF _ run] obtain er where "r = Inl er" and f': "f' = fed_fabric\<lparr>fa_stats := fa_stats f'\<rparr>" by auto
  have "fa_evidence f' = fa_evidence fed_fabric" using arg_cong [OF f', of fa_evidence] by simp
  with run \<open>r = Inl er\<close> show ?thesis by blast
qed

section \<open>Replayed batches\<close>

text \<open>A sample is settled when the window would not take it up.\<close>

definition settled_in :: "Fabric \<Rightarrow> EvidenceSample \<Rightarrow> bool" where
  "settled_in f s \<longleftrightarrow> es_is_heartbeat s \<or> (\<nexists>r. eligible s r f) \<or> \<not> room_for s f"

lemma settled_ingest_keeps:
  assumes "settled_in f s" and "ingest_sample now s (rep, f) = (rep', f')"
  shows "fa_evidence f' = fa_evidence f"
proof (cases "\<exists>r. eligible s r f")
  case False
  then show ?thesis using ingest_sample_refused [of s f now rep] assms(2) by (auto elim!: same_coreE)
next
  case True
  then obtain r where el: "eligible s r f" by blast
  then show ?thesis
    using assms by (auto simp: ingest_sample_eligible [OF el] settled_in_def count_stat_def take_up_def Let_def split: if_splits)
qed

lemma supersedes_trans: "supersedes s t \<Longrightarrow> supersedes t u \<Longrightarrow> supersedes s u"
  by (auto simp: supersedes_def)

lemma supersedes_irrefl: "\<not> supersedes s s"
  by (simp add: supersedes_def)

text \<open>The window after a sample: each entry is the old one or one that supersedes it, and a full window gains no key.\<close>

lemma take_up_window:
  assumes "fabric_inv f" and "eligible t r f" and "es_is_heartbeat t \<or> room_for t f"
  shows "map_of (fa_evidence (take_up now t r f)) k =
      (if \<not> es_is_heartbeat t \<and> k = sample_key t then Some (stored_sample now t) else map_of (fa_evidence f) k)"
    and "length (fa_evidence (take_up now t r f)) =
      (if \<not> es_is_heartbeat t \<and> map_of (fa_evidence f) (sample_key t) = None then Suc (length (fa_evidence f)) else length (fa_evidence f))"
  using assms by (simp_all add: take_up_def Let_def fabric_inv_def window_ok_def om_find_put om_put_length)

lemma eligible_take_up:
  assumes inv: "fabric_inv f" and el: "eligible t r f" and s: "eligible s r' (take_up now t r f)"
  shows "\<exists>r0. eligible s r0 f"
proof -
  have pub: "om_inv (fa_publishers f)" using inv by (simp add: fabric_inv_def publishers_ok_def)
  have reg: "map_of (fa_publishers (take_up now t r f)) p =
      (if p = es_publisher t then Some (saw_publisher now t r) else map_of (fa_publishers f) p)" for p
    using pub by (simp add: take_up_def Let_def om_find_put)
  have same: "fa_epoch (take_up now t r f) = fa_epoch f"
      "is_fenced_in p b (take_up now t r f) = is_fenced_in p b f" for p b
    by (simp_all add: take_up_def Let_def)
  have t: "map_of (fa_publishers f) (es_publisher t) = Some r" using el by (simp add: eligible_def lookup_publisher_Inr)
  have mono: "pr_last_generation r \<le> pr_last_generation (saw_publisher now t r)" "pr_boot (saw_publisher now t r) = pr_boot r"
    by (auto simp: saw_publisher_def)
  show ?thesis
  proof (cases "es_publisher s = es_publisher t")
    case True
    then have "r' = saw_publisher now t r" using s reg by (simp add: eligible_def lookup_publisher_Inr)
    then have "eligible s r f" using s True t mono same by (auto simp: eligible_def lookup_publisher_Inr reg)
    then show ?thesis ..
  next
    case False
    then have "eligible s r' f" using s same by (auto simp: eligible_def lookup_publisher_Inr reg)
    then show ?thesis ..
  qed
qed

lemma eligible_same_core: "same_core f f' \<Longrightarrow> eligible s r f' = eligible s r f"
  by (erule same_coreE) (simp add: eligible_def lookup_publisher_def is_fenced_in_def)

lemma room_same_core: "same_core f f' \<Longrightarrow> room_for s f' = room_for s f"
  by (erule same_coreE) (simp add: room_for_def split: option.splits)

lemma settled_same_core: "same_core f f' \<Longrightarrow> settled_in f' s = settled_in f s"
  by (simp add: settled_in_def eligible_same_core room_same_core)

lemma settled_take_up:
  assumes inv: "fabric_inv f" and el: "eligible t r f" and room: "es_is_heartbeat t \<or> room_for t f"
    and s: "settled_in f s \<or> s = t"
  shows "settled_in (take_up now t r f) s"
proof (cases "es_is_heartbeat s \<or> (\<nexists>r'. eligible s r' (take_up now t r f))")
  case True
  then show ?thesis by (auto simp: settled_in_def)
next
  case False
  then have plain: "\<not> es_is_heartbeat s" and el': "\<exists>r0. eligible s r0 f" using eligible_take_up [OF inv el] by blast+
  have options: "fa_options (take_up now t r f) = fa_options f" by (simp add: take_up_def Let_def)
  note window = take_up_window [OF inv el room, of now]
  have "\<not> room_for s (take_up now t r f)"
  proof (cases "\<not> es_is_heartbeat t \<and> sample_key s = sample_key t")
    case True
    then have new: "map_of (fa_evidence (take_up now t r f)) (sample_key s) = Some (stored_sample now t)" by (simp add: window)
    have "\<not> supersedes s t"
    proof
      assume sup: "supersedes s t"
      then have "s \<noteq> t" using supersedes_irrefl by blast
      then have full: "\<not> room_for s f" using s plain el' by (auto simp: settled_in_def)
      have "room_for t f" using room True by blast
      then have "room_for s f" using True sup supersedes_trans by (auto simp: room_for_def split: option.splits)
      with full show False by blast
    qed
    then show ?thesis by (simp add: room_for_def new)
  next
    case other: False
    then have "s \<noteq> t" using plain by blast
    then have full: "\<not> room_for s f" using s plain el' by (auto simp: settled_in_def)
    have "map_of (fa_evidence (take_up now t r f)) (sample_key s) = map_of (fa_evidence f) (sample_key s)"
      using other by (auto simp: window)
    moreover have "length (fa_evidence f) \<le> length (fa_evidence (take_up now t r f))" by (simp add: window)
    ultimately show ?thesis using full by (auto simp: room_for_def options split: option.splits)
  qed
  then show ?thesis by (simp add: settled_in_def)
qed

lemma settled_ingest:
  assumes inv: "fabric_inv f" and out: "ingest_sample now t (rep, f) = (rep', f')" and s: "settled_in f s \<or> s = t"
  shows "settled_in f' s"
proof (cases "\<exists>r. eligible t r f")
  case False
  then have core: "same_core f f'" using ingest_sample_refused [of t f now rep] out by auto
  have "settled_in f s" using s False by (auto simp: settled_in_def)
  then show ?thesis by (simp add: settled_same_core [OF core])
next
  case True
  then obtain r where el: "eligible t r f" by blast
  note step = ingest_sample_eligible [OF el, of now rep, unfolded out]
  show ?thesis
  proof (cases "es_is_heartbeat t \<or> room_for t f")
    case True
    then have "f' = count_stat fs_samples_ingested_update (take_up now t r f)" using step by simp
    then show ?thesis using settled_take_up [OF inv el True s] settled_same_core [OF same_core_count] by metis
  next
    case False
    then have core: "same_core f f'" using step by (auto split: if_splits)
    have "settled_in f s" using s False by (auto simp: settled_in_def)
    then show ?thesis by (simp add: settled_same_core [OF core])
  qed
qed

lemma settled_fold:
  assumes "fabric_inv f" and "fold (ingest_sample now) ts (rep, f) = (rep', f')" and "settled_in f s \<or> s \<in> set ts"
  shows "settled_in f' s"
  using assms
proof (induction ts arbitrary: rep f)
  case (Cons t ts)
  obtain rep1 f1 where one: "ingest_sample now t (rep, f) = (rep1, f1)" by (cases "ingest_sample now t (rep, f)")
  have rest: "fold (ingest_sample now) ts (rep1, f1) = (rep', f')" using Cons.prems(2) one by simp
  have "settled_in f1 s \<or> s \<in> set ts" using settled_ingest [OF Cons.prems(1) one, of s] Cons.prems(3) by auto
  then show ?case by (rule Cons.IH [OF inv_ingest_sample [OF Cons.prems(1) one] rest])
qed simp

lemma settled_fold_keeps:
  assumes "fabric_inv f" and "fold (ingest_sample now) ts (rep, f) = (rep', f')" and "\<forall>s \<in> set ts. settled_in f s"
  shows "fa_evidence f' = fa_evidence f"
  using assms
proof (induction ts arbitrary: rep f)
  case (Cons t ts)
  obtain rep1 f1 where one: "ingest_sample now t (rep, f) = (rep1, f1)" by (cases "ingest_sample now t (rep, f)")
  have rest: "fold (ingest_sample now) ts (rep1, f1) = (rep', f')" using Cons.prems(2) one by simp
  have all: "\<forall>s \<in> set ts. settled_in f1 s" using settled_ingest [OF Cons.prems(1) one] Cons.prems(3) by auto
  have "fa_evidence f1 = fa_evidence f" by (rule settled_ingest_keeps [OF _ one]) (use Cons.prems(3) in simp)
  with Cons.IH [OF inv_ingest_sample [OF Cons.prems(1) one] rest all] show ?case by simp
qed simp

lemma ingest_Inr:
  assumes "ingest batch f e = (Inr rep, f', e')"
  obtains now where "fold (ingest_sample now) (eb_samples batch) (new_ingest_report, count_stat fs_batches_ingested_update f) = (rep, f')"
  using assms by (auto simp: ingest_def Let_def split: if_splits sum.splits prod.splits)

lemma counted_ingest:
  assumes "ingest_sample now s (rep, f) = (rep', f')"
  shows "gr_accepted rep' + gr_rejected rep' + gr_duplicate rep' = gr_accepted rep + gr_rejected rep + gr_duplicate rep + 1"
proof (cases "\<exists>r. eligible s r f")
  case False
  then show ?thesis using ingest_sample_refused [of s f now rep] assms by auto
next
  case True
  then obtain r where "eligible s r f" by blast
  from ingest_sample_eligible [OF this, of now rep, unfolded assms] show ?thesis by (auto split: if_splits)
qed

lemma counted_fold:
  "fold (ingest_sample now) ts (rep, f) = (rep', f') \<Longrightarrow>
   gr_accepted rep' + gr_rejected rep' + gr_duplicate rep' = gr_accepted rep + gr_rejected rep + gr_duplicate rep + of_nat (length ts)"
proof (induction ts arbitrary: rep f)
  case (Cons t ts)
  obtain rep1 f1 where one: "ingest_sample now t (rep, f) = (rep1, f1)" by (cases "ingest_sample now t (rep, f)")
  have "fold (ingest_sample now) ts (rep1, f1) = (rep', f')" using Cons.prems one by simp
  from Cons.IH [OF this] counted_ingest [OF one] show ?case by (simp add: algebra_simps)
qed simp

text \<open>C18: delivering a batch again changes no evidence. In any state of the fabric, and for any batch with any
  duplicates, gaps, regressions and foreign samples in it: every sample is accounted for exactly once as
  accepted, rejected or duplicate; and if the same batch arrives again, at any later time, the evidence
  window is exactly what the first delivery left.\<close>

theorem replayed_batch_is_idempotent:
  assumes "reachable_fabric f" and "ingest batch f e = (Inr rep, f1, e1)" and "ingest batch f1 e2 = (Inr rep2, f2, e3)"
  shows "fa_evidence f2 = fa_evidence f1 \<and>
    gr_accepted rep + gr_rejected rep + gr_duplicate rep = of_nat (length (eb_samples batch)) \<and>
    gr_accepted rep2 + gr_rejected rep2 + gr_duplicate rep2 = of_nat (length (eb_samples batch))"
proof -
  let ?b = "count_stat fs_batches_ingested_update"
  have inv: "fabric_inv (?b f)" using reachable_inv [OF assms(1)] by (simp add: same_core_inv [OF same_core_count])
  obtain now where one: "fold (ingest_sample now) (eb_samples batch) (new_ingest_report, ?b f) = (rep, f1)"
    by (rule ingest_Inr [OF assms(2)])
  obtain now2 where two: "fold (ingest_sample now2) (eb_samples batch) (new_ingest_report, ?b f1) = (rep2, f2)"
    by (rule ingest_Inr [OF assms(3)])
  have inv1: "fabric_inv (?b f1)" using inv_ingest_fold [OF inv one] by (simp add: same_core_inv [OF same_core_count])
  have "\<forall>s \<in> set (eb_samples batch). settled_in (?b f1) s"
    using settled_fold [OF inv one] by (simp add: settled_same_core [OF same_core_count])
  from settled_fold_keeps [OF inv1 two this] have "fa_evidence f2 = fa_evidence f1" by (simp add: count_stat_def)
  then show ?thesis using counted_fold [OF one] counted_fold [OF two] by (simp add: new_ingest_report_def)
qed

theorem replayed_batch_is_idempotent_witness:
  "\<exists>f rep2 f2 e. reachable_fabric f \<and> evidence_entry_count f = 1 \<and>
     ingest feed_batch f quiet_env = (Inr rep2, f2, e) \<and> fa_evidence f2 = fa_evidence f"
proof -
  obtain rep where one: "ingest feed_batch registered_fabric quiet_env = (Inr rep, fed_fabric, quiet_env)"
    using memory_ingest by blast
  have before: "reachable_fabric registered_fabric"
    using reach_open [OF memory_open] step_register [OF memory_register] reach_step by metis
  have "\<not> fa_closed fed_fabric" "length (eb_samples feed_batch) \<le> kMaxEvidencePerBatch"
    using memory_ingest by (auto simp: feed_batch_def ncf_defs)
  then obtain rep2 f2 e where two: "ingest feed_batch fed_fabric quiet_env = (Inr rep2, f2, e)"
    by (cases "fold (ingest_sample 100) (eb_samples feed_batch) (new_ingest_report, count_stat fs_batches_ingested_update fed_fabric)")
      (simp add: ingest_def ensure_open_def quiet_clock)
  from replayed_batch_is_idempotent [OF before one two] have "fa_evidence f2 = fa_evidence fed_fabric" by simp
  then show ?thesis using fed_reachable two memory_ingest by (auto simp: evidence_entry_count_def)
qed

end
