(* ===== verification/NCF_Restart.thy ===== *)
theory NCF_Restart
  imports NCF_FabricRuns NCF_Recovery
begin

text \<open>
  The fabric over its durable store across restarts. A store that is reopened after a crash in a quiet moment stands
  for the same document again, so that crashes and commits can be chained; on it, a restart
  restores no authority, and a fence that was acknowledged is in force after the crash.
\<close>

section \<open>Reopening\<close>

lemma journal_reopens:
  assumes "wd_script w = []" and "wd_files w p = Some \<lparr>fl_bytes = bs, fl_synced = s\<rparr>" and "p \<noteq> []" and "\<not> jo_read_only opts"
    and "length bs < 2 ^ 64"
  shows "journal_open p opts w = (Inr \<lparr>jn_path = p, jn_options = opts, jn_file = Some \<lparr>sm_path = p, sm_pos = length bs\<rparr>,
    jn_size = of_nat (length bs), jn_next_sequence = 1\<rparr>, w)"
proof -
  have "bs = []" if "(of_nat (length bs) :: u64) = 0"
  proof -
    have "unat (of_nat (length bs) :: u64) = length bs" using assms(5) by (simp add: unat_of_nat)
    with that show ?thesis by simp
  qed
  then show ?thesis
    using assms
    by (auto simp: journal_open_def fs_create_directories_def fs_exists_def fopen_def fseek_end_def io_simps
        file_bytes_def Let_def word_gt_0)
qed

lemma reopen_clean:
  assumes dur: "durable log base st w" and crash: "crashes_to w w2"
  shows "\<exists>st2. store_open (st_directory st) (st_options st) w2 = (Inr st2, w2) \<and> durable log base st2 w2 \<and>
    content (st_document st2) = content (st_document st) \<and> st_directory st2 = st_directory st \<and> st_options st2 = st_options st \<and>
    jn_next_sequence (st_journal st2) \<le> jn_next_sequence (st_journal st)"
proof -
  let ?dir = "st_directory st" and ?opts = "st_options st" and ?j = "st_journal st"
  let ?p = "?dir @ ''/ncf.journal''" and ?jo = "store_journal_options ?opts"
  have place: "placed st" and at: "journal_at log ?j w"
    and snap: "stable_snapshot (st_snapshot_path st) ?opts base (wd_files w (st_snapshot_path st))"
    using dur by (simp_all add: durable_def)
  obtain d where d: "replays_to log base d" "content d = content (st_document st)" "dd_last_sequence d < jn_next_sequence ?j"
    using dur by (auto simp: durable_def)
  note place' = place [unfolded placed_def]
  have script: "wd_script w2 = []" using crash by (simp add: crashes_to_def)
  have script1: "fs_create_directories w2 = (True, w2)" using script by (simp add: fs_create_directories_def io_simps)
  obtain rep where load: "load_snapshot (st_snapshot_path st) ?opts w2 = (Inr (base, rep), w2)"
    using snap crash_keeps_stable [OF snap crash] script unfolding stable_snapshot_def by blast
  note at' = at [unfolded journal_at_def]
  let ?bs = "log_bytes log"
  have synced: "wd_files w2 ?p = Some \<lparr>fl_bytes = ?bs, fl_synced = length ?bs\<rparr>"
    using durable_synced [OF dur] crash
    by (auto simp: crashes_to_def dest!: spec [of _ ?p] simp: option_rel_Some1 file_cut_def)
  have short: "length ?bs \<le> unat (jo_max_journal_bytes ?jo)" using at' place' by simp
  then have len: "length ?bs < 2 ^ 64" using unat_64_less [of "jo_max_journal_bytes ?jo"] by simp
  define j0 where "j0 = \<lparr>jn_path = ?p, jn_options = ?jo, jn_file = Some \<lparr>sm_path = ?p, sm_pos = length ?bs\<rparr>,
      jn_size = of_nat (length ?bs), jn_next_sequence = 1\<rparr>"
  have open0: "journal_open ?p ?jo w2 = (Inr j0, w2)"
    using journal_reopens [OF script synced _ _ len, of ?jo] place' by (simp add: j0_def store_journal_options_def)
  have replay: "journal_replay j0 w2 = (Inr (replay_data ?jo ?bs), w2)"
    using read_file_ok [OF script synced] short by (simp add: journal_replay_def j0_def)
  have reports: "reports log [] (replay_data ?jo ?bs)"
    using replay_data_log [of ?jo log "[]"] at' place' by simp
  then have rp: "jr_records (replay_data ?jo ?bs) = log" "jr_status (replay_data ?jo ?bs) \<noteq> Rs_Corrupt"
      "jr_status (replay_data ?jo ?bs) \<noteq> Rs_TruncatedTail"
    by (auto simp: reports_def)
  let ?rep = "rep\<lparr>sr_journal_present := True, sr_journal_status := jr_status (replay_data ?jo ?bs)\<rparr>"
  have doc: "rc_document (recover log base ?rep) = d"
    using d(1) recover_settled by (simp add: recover_def replays_to_def Let_def)
  define j1 where "j1 = resume_sequence (dd_last_sequence d + 1) j0"
  have "\<exists>st2. store_open ?dir ?opts w2 = (Inr st2, w2) \<and> st_directory st2 = ?dir \<and> st_options st2 = ?opts \<and>
      st_document st2 = d \<and> st_journal st2 = j1 \<and> st_snapshot_path st2 = ?dir @ ''/ncf.snapshot'' \<and> st_open st2"
    using place' load open0 replay rp script1
    by (simp add: store_open_def Let_def cut_torn_tail_def doc j1_def)
  then obtain st2 where st2: "store_open ?dir ?opts w2 = (Inr st2, w2)" "st_directory st2 = ?dir" "st_options st2 = ?opts"
      "st_document st2 = d" "st_journal st2 = j1" "st_snapshot_path st2 = ?dir @ ''/ncf.snapshot''" "st_open st2" by blast
  have j1: "jn_path j1 = ?p" "jn_options j1 = ?jo" "jn_file j1 = Some \<lparr>sm_path = ?p, sm_pos = length ?bs\<rparr>"
      "jn_size j1 = of_nat (length ?bs)" "jn_next_sequence j1 = (if dd_last_sequence d + 1 > 1 then dd_last_sequence d + 1 else 1)"
    by (simp_all add: j1_def j0_def resume_sequence_def)
  have u: "unat (dd_last_sequence d + 1) = unat (dd_last_sequence d) + 1"
    using d(3) unat_64_less [of "jn_next_sequence ?j"] by (simp add: word_less_nat_alt unat_word_ariths)
  have "dd_last_sequence d + 1 \<le> jn_next_sequence ?j" "1 \<le> jn_next_sequence ?j" "dd_last_sequence d < dd_last_sequence d + 1"
    using d(3) by (simp_all add: word_le_nat_alt word_less_nat_alt u)
  moreover have "dd_last_sequence d = 0" if "\<not> 1 < dd_last_sequence d + 1"
    using that by (simp add: word_less_nat_alt u unat_eq_zero)
  ultimately have seq: "jn_next_sequence j1 \<le> jn_next_sequence ?j" "dd_last_sequence d < jn_next_sequence j1"
    using j1(5) by auto
  have "journal_at log j1 w2"
    using at' place' synced len by (simp add: journal_at_def holds_def j1(1-4) unat_of_nat)
  moreover have "placed st2" using place' st2 j1 by (simp add: placed_def)
  moreover have "stable_snapshot (st_snapshot_path st2) (st_options st2) base (wd_files w2 (st_snapshot_path st2))"
    using snap crash_keeps_stable [OF snap crash] place' st2 by simp
  ultimately have "durable log base st2 w2" using d(1) seq st2 by (auto simp: durable_def)
  then show ?thesis using st2 d(2) seq by auto
qed

lemma commit_continues:
  assumes dur: "durable log base st w" and q: "quiet w" and acc: "accepts k b st"
    and room: "length (log_bytes log) + length b + 220 \<le> unat kMaxJournalBytes"
    and seq: "unat (jn_next_sequence (st_journal st)) + 3 < 2 ^ 64"
    and fit: "fits (st_options st) (apply_or_keep (k, b) (st_document st))"
  obtains st' w' log' where "commit k b s st w = (Inr (), st', w')" "quiet w'" "durable log' base st' w'"
    "st_directory st' = st_directory st" "st_options st' = st_options st"
    "content (st_document st') = content (apply_or_keep (k, b) (st_document st))"
    "length (log_bytes log') \<le> length (log_bytes log) + length b + 220"
    "unat (jn_next_sequence (st_journal st')) = unat (jn_next_sequence (st_journal st)) + 3"
proof -
  obtain st' w' where c: "commit k b s st w = (Inr (), st', w')" "quiet w'"
    using commit_ok [OF dur q acc room] by blast
  note step = commit_step [OF dur c(1) seq fit]
  let ?x = "jn_next_sequence (st_journal st)"
  have "length (log_bytes (log @ txn_records k b s ?x)) \<le> length (log_bytes log) + length b + 220"
    by (simp add: txn_records_eq log_bytes_def length_record_bytes intent_body_def frame_body_def commit_body_def)
  moreover have "unat (?x + 3) = unat ?x + 3" using seq by (simp add: unat_word_ariths)
  ultimately show ?thesis using that [OF c] step by auto
qed

section \<open>Restart\<close>

text \<open>C6: a restart restores no authority. Whatever the directory holds and whatever faults occur, a fabric that opens
  starts with no publisher, no evidence, no intent and no explanation; it takes an epoch after the one of
  the recovered document and a generation of its own; every incarnation fenced in the document is
  fenced, and no other; exactly the domains of the document are there; and every one of them is in a
  non-authoritative state, must be revalidated, has no hysteresis candidate, and is bound to the new epoch.\<close>

theorem restart_restores_no_authority:
  assumes "fabric_open options e = (Inr f, e')" and "opened_on options e = Some st"
  shows "fa_publishers f = [] \<and> fa_evidence f = [] \<and> fa_intents f = [] \<and> fa_explanations f = [] \<and>
    fa_epoch f = (if id_valid (dd_epoch (st_document st)) then dd_epoch (st_document st) + 1 else 1) \<and>
    fa_generation f = fa_epoch f \<and>
    (\<forall>p b. is_fenced_in p b f \<longleftrightarrow> (\<exists>r \<in> set (dd_fences (st_document st)). fe_publisher r = p \<and> fe_boot r = b)) \<and>
    set (fabric_domains f) = ds_domain ` set (dd_domains (st_document st)) \<and>
    (\<forall>d s. domain_state_of d f = Inr s \<longrightarrow> \<not> is_authoritative (ds_state s) \<and> ds_requires_revalidation s \<and>
       ds_candidate_streak s = 0 \<and> ds_epoch s = fa_epoch f \<and> ds_authority_generation s = fa_generation f \<and>
       ds_policy_fingerprint s = po_fingerprint (fa_policy f))"
proof -
  note state = fabric_open_state [OF assms(1), unfolded assms(2) option.case]
  have "restarted f s" if "domain_state_of d f = Inr s" for d s
  proof -
    have "(d, s) \<in> set (fa_domains f)" using that by (auto simp: domain_state_of_def split: option.splits dest: map_of_SomeD)
    then show ?thesis using state by force
  qed
  then show ?thesis using state
    by (simp add: idle_def restarted_def opening_epoch_def fabric_domains_def)
qed

section \<open>A fence across a crash\<close>

lemma when_durable_commits:
  assumes "when_durable kind (append_fence r) f e = (Inr u, f1, e1)" and "fa_store f = Some st"
  shows "\<exists>body stamp st'. encode_fence r = Inr body \<and> commit Mu_Fence body stamp st (en_world e) = (Inr (), st', en_world e1) \<and>
    fa_store f1 = Some st'"
proof -
  obtain stamp e0 where s: "make_stamp kind f e = (stamp, e0)" by (cases "make_stamp kind f e")
  then have w: "en_world e0 = en_world e" using clock_keeps [of e] by (auto simp: make_stamp_def Let_def split: prod.splits)
  obtain body where body: "encode_fence r = Inr body"
    using assms s
    by (cases "encode_fence r") (auto simp: when_durable_def counted_write_def store_write_def append_fence_def commit_encoded_def)
  obtain r1 st' w' where c: "commit Mu_Fence body stamp st (en_world e) = (r1, st', w')" by (metis prod_cases3)
  have "r1 = Inr () \<and> en_world e1 = w' \<and> fa_store f1 = Some st'"
    using assms s w body c
    by (cases r1) (auto simp: when_durable_def counted_write_def store_write_def append_fence_def commit_encoded_def count_stat_def)
  then show ?thesis using body c by blast
qed

lemma fence_publisher_commits:
  assumes out: "fence_publisher p b reason detail f e = (Inr r, f1, e1)" and st: "fa_store f = Some st"
  shows "fe_publisher r = p \<and> fe_boot r = b \<and> id_valid p \<and> id_valid b \<and>
    (\<exists>body stamp st'. encode_fence r = Inr body \<and> commit Mu_Fence body stamp st (en_world e) = (Inr (), st', en_world e1) \<and>
      fa_store f1 = Some st')"
proof -
  have locked: "fence_publisher_locked p b reason detail f e = (Inr r, f1, e1)"
    using out by (auto simp: fence_publisher_def split: sum.splits)
  then have ids: "id_valid p" "id_valid b" by (auto simp: fence_publisher_locked_def split: if_splits)
  obtain t e0 where c: "clock_now e = (t, e0)" by (cases "clock_now e")
  from locked ids obtain f0 u where f0: "when_durable PK_Fence (append_fence r) f0 e0 = (Inr u, f1, e1)" "fa_store f0 = fa_store f"
    and r: "fe_publisher r = p" "fe_boot r = b"
    by (auto simp: fence_publisher_locked_def c Let_def count_stat_def split: prod.splits sum.splits)
  then show ?thesis using when_durable_commits [OF f0(1)] st r ids clock_keeps [OF c] by simp
qed

lemma fence_body_decodes:
  assumes "encode_fence r = Inr body" and "accepts Mu_Fence body st"
  shows "decode_fence body = Inr r"
proof -
  have "decode_fence body = check_fence r" using assms(1) by (simp add: payload_defs payload_enc payload_dec)
  moreover have "\<exists>r'. decode_fence body = Inr r'"
    using assms(2) by (auto simp: accepts_def validate_body_def decoded_ok_def split: sum.splits)
  ultimately show ?thesis by (auto simp: check_fence_def split: if_splits)
qed

text \<open>C5: a fence that was acknowledged holds across a crash and a restart. The fabric runs on a durable store, the call
  that fences an incarnation returns success under whatever I/O faults, and the machine crashes at any
  moment after it, losing all that was not synced. Whenever a fabric then opens on that directory,
  the incarnation is fenced in it and cannot register again. The lists of the document stay within
  their retention bounds, and no other fence of the document has the same hashed identity.\<close>

theorem acknowledged_fence_survives_crash:
  assumes "fa_store f = Some st" and "durable log base st (en_world e)"
    and "fence_publisher p b reason detail f e = (Inr r, f1, e1)"
    and "fits (st_options st) ((st_document st)\<lparr>dd_fences := dd_fences (st_document st) @ [r]\<rparr>)"
    and "unat (jn_next_sequence (st_journal st)) + 3 < 2 ^ 64"
    and "\<forall>r' \<in> set (dd_fences (st_document st)). fe_id r' = fe_id r \<longrightarrow> fe_publisher r' = p \<and> fe_boot r' = b"
    and "crashes_to (en_world e1) (en_world e2)"
    and "fo_persist options" and "fo_state_directory options = st_directory st" and "fo_store options = st_options st"
    and "fabric_open options e2 = (Inr f2, e3)"
  shows "is_fenced_in p b f2 \<and> fst (register_publisher p b requested f2 e4) = Inl Err_Fenced"
proof -
  obtain body stamp st1 where ids: "fe_publisher r = p" "fe_boot r = b" "id_valid p" "id_valid b"
    and body: "encode_fence r = Inr body"
    and commit: "commit Mu_Fence body stamp st (en_world e) = (Inr (), st1, en_world e1)"
    using fence_publisher_commits [OF assms(3,1)] by auto
  have acc: "accepts Mu_Fence body st" using commit_refused [of Mu_Fence body st stamp "en_world e"] commit by force
  have ap: "apply_or_keep (Mu_Fence, body) (st_document st) =
      (st_document st)\<lparr>dd_fences := append_new fe_id r (dd_fences (st_document st))\<rparr>"
    using fence_body_decodes [OF body acc] by (simp add: apply_or_keep_def apply_mutation_perform decode_update_def)
  have fit: "fits (st_options st) (apply_or_keep (Mu_Fence, body) (st_document st))"
    using assms(4) unfolding ap by (auto simp: append_new_def fits_def under_def)
  note step = commit_step [OF assms(2) commit assms(5) fit]
  then have dur: "durable (log @ txn_records Mu_Fence body stamp (jn_next_sequence (st_journal st))) base st1 (en_world e1)"
    and doc: "content (st_document st1) = content (apply_or_keep (Mu_Fence, body) (st_document st))"
    and same: "st_directory st1 = st_directory st" "st_options st1 = st_options st" by simp_all
  obtain st2 w3 where open2: "store_open (st_directory st) (st_options st) (en_world e2) = (Inr st2, w3)"
    and doc2: "content (st_document st2) = content (st_document st1)"
    using crash_between [OF dur assms(7)] same by auto
  have "dd_fences (st_document st2) = append_new fe_id r (dd_fences (st_document st))"
    using arg_cong [OF doc2, of dd_fences] arg_cong [OF doc, of dd_fences] by (simp add: content_def ap)
  then have there: "\<exists>r' \<in> set (dd_fences (st_document st2)). fe_publisher r' = p \<and> fe_boot r' = b"
    using assms(6) ids by (auto simp: append_new_def)
  have "st_directory st \<noteq> []" using assms(2) by (simp add: durable_def placed_def)
  moreover obtain now e2' where "clock_now e2 = (now, e2')" "en_world e2' = en_world e2"
    using clock_keeps by (metis prod.exhaust)
  ultimately have opened: "opened_on options e2 = Some st2" using open2 assms(8-10) by (simp add: opened_on_def)
  note state = fabric_open_state [OF assms(11), unfolded opened option.case]
  then have fenced: "is_fenced_in p b f2" using there by blast
  have "\<not> fa_closed f2" using state by (simp add: idle_def)
  then have "fst (register_publisher p b requested f2 e4) = Inl Err_Fenced"
    using fenced ids by (simp add: register_publisher_def ensure_open_def)
  with fenced show ?thesis by blast
qed

section \<open>A worked restart\<close>

text \<open>A store on a quiet disk whose document holds no more than a policy and an epoch, and fences.\<close>

definition bare :: "DurableDocument \<Rightarrow> bool" where
  "bare d \<longleftrightarrow> dd_domains d = [] \<and> dd_history d = [] \<and> dd_interventions d = [] \<and> dd_attempts d = [] \<and>
     dd_provenance d = [] \<and> dd_revalidations d = [] \<and> length (dd_fences d) \<le> 100"

lemma bare_content: "bare (content d) = bare d"
  by (simp add: bare_def content_def)

definition ready :: "nat \<Rightarrow> Store \<Rightarrow> World \<Rightarrow> bool" where
  "ready n st w \<longleftrightarrow> quiet w \<and> st_options st = default_store_options \<and> bare (st_document st) \<and>
     unat (jn_next_sequence (st_journal st)) \<le> 3 * n + 1 \<and>
     (\<forall>q. q \<noteq> st_directory st @ ''/ncf.journal'' \<longrightarrow> wd_files w q = None) \<and>
     (\<exists>log base. durable log base st w \<and> length (log_bytes log) \<le> 2000 * n)"

lemma ready_commit:
  assumes rdy: "ready n st w" and n: "n < 100" and u: "decode_update k b = Inr u" and k: "k \<noteq> Mu_DomainState"
    and b: "length b \<le> 1700" and bare: "bare (perform u (st_document st))"
  obtains st' w' where "commit k b s st w = (Inr (), st', w')" "ready (Suc n) st' w'" "st_directory st' = st_directory st"
    "content (st_document st') = content (perform u (st_document st))"
proof -
  obtain log base where dur: "durable log base st w" and len: "length (log_bytes log) \<le> 2000 * n"
    using rdy by (auto simp: ready_def)
  have opts: "st_options st = default_store_options" and q: "quiet w" and seq: "unat (jn_next_sequence (st_journal st)) \<le> 3 * n + 1"
    using rdy by (simp_all add: ready_def)
  have kinds: "k \<noteq> Mu_Unknown" "k \<noteq> Mu_Count" using u by (auto simp: decode_update_def)
  have acc: "accepts k b st"
    using dur u b k kinds
    by (simp add: accepts_def durable_def placed_def validate_body_update enforce_growth_limits_def kMutationPrefix_def
        kMaxJournalRecordBytes_def)
  have ap: "apply_or_keep (k, b) (st_document st) = perform u (st_document st)"
    using u by (simp add: apply_or_keep_def apply_mutation_perform)
  have fit: "fits (st_options st) (apply_or_keep (k, b) (st_document st))"
    using bare unfolding ap by (simp add: fits_def under_def bare_def opts default_store_options_def)
  have room: "length (log_bytes log) + length b + 220 \<le> unat kMaxJournalBytes"
    using len b n by (simp add: kMaxJournalBytes_def)
  from commit_continues [OF dur q acc room _ fit, of s] seq n obtain st' w' log' where
    c: "commit k b s st w = (Inr (), st', w')" "quiet w'" "durable log' base st' w'"
    "st_directory st' = st_directory st" "st_options st' = st_options st"
    "content (st_document st') = content (apply_or_keep (k, b) (st_document st))"
    "length (log_bytes log') \<le> length (log_bytes log) + length b + 220"
    "unat (jn_next_sequence (st_journal st')) = unat (jn_next_sequence (st_journal st)) + 3" by auto
  have "bare (st_document st')"
    using bare arg_cong [OF c(6), of bare] by (simp add: bare_content ap)
  moreover have "\<forall>q. q \<noteq> st_directory st @ ''/ncf.journal'' \<longrightarrow> wd_files w' q = None"
    using commit_frame [OF dur acc c(1)] rdy by (simp add: ready_def)
  moreover have "\<exists>log base. durable log base st' w' \<and> length (log_bytes log) \<le> 2000 * Suc n"
    using c(3,7) len b by (intro exI [of _ log'] exI [of _ base]) simp
  ultimately have "ready (Suc n) st' w'" using c(2,4,5,8) opts seq by (simp add: ready_def)
  then show ?thesis using that c ap by simp
qed

lemma ready_write:
  assumes "ready n st (en_world e)" and "n < 100" and "decode_update k b = Inr u" and "k \<noteq> Mu_DomainState"
    and "length b \<le> 1700" and "bare (perform u (st_document st))" and "fa_store f = Some st" and "enc = Inr b"
  obtains st' w' where "store_write (commit_encoded k enc s) f e = (Inr (), f\<lparr>fa_store := Some st'\<rparr>, e\<lparr>en_world := w'\<rparr>)"
    "ready (Suc n) st' w'" "st_directory st' = st_directory st"
    "content (st_document st') = content (perform u (st_document st))"
proof -
  obtain st' w' where "commit k b s st (en_world e) = (Inr (), st', w')" "ready (Suc n) st' w'"
    "st_directory st' = st_directory st" "content (st_document st') = content (perform u (st_document st))"
    using ready_commit [OF assms(1-6)] by blast
  then show ?thesis using that assms(7,8) by (simp add: store_write_def commit_encoded_def)
qed

lemma content_bare: "content d = content d' \<Longrightarrow> bare d = bare d'"
  by (metis bare_content)

lemma default_policy_encoded:
  "encode_policy make_default_policy = Inr (policy_layout make_default_policy)"
  "length (policy_layout make_default_policy) \<le> 1700"
  "\<exists>p. decode_update Mu_PolicySet (policy_layout make_default_policy) = Inr (U_Policy p)"
proof -
  show enc: "encode_policy make_default_policy = Inr (policy_layout make_default_policy)"
    using default_policy_valid unfolding validate_policy_Inr by (blast intro: encode_policy_ok)
  show "length (policy_layout make_default_policy) \<le> 1700"
    by (simp add: policy_layout_def make_default_policy_def default_policy_body_def counted_def default_rule_def
        default_intervention_def rule_layout_def text_layout_def hysteresis_layout_def recovery_layout_def
        propagation_layout_def freshness_layout_def intervention_rule_layout_def policy_limits_layout_def blob_layout_def)
  show "\<exists>p. decode_update Mu_PolicySet (policy_layout make_default_policy) = Inr (U_Policy p)"
    using policy.decode_encode [OF enc] default_policy_valid by (simp add: decode_update_def)
qed

text \<open>Announcing the boot on such a store: the policy unless restored, then the epoch.\<close>

lemma ready_announce:
  assumes st: "fa_store f = Some st" and rdy: "ready n st (en_world e)" and n: "n < 90"
    and pol: "fr_policy_restored (fa_open_report f) \<or> fa_policy f = make_default_policy"
    and ids: "id_valid (fa_epoch f)" "id_valid (fa_boot f)"
  obtains f' e' st' where "announce counter now f e = (Inr (), f', e')" "fa_store f' = Some st'" "ready (n + 2) st' (en_world e')"
    "st_directory st' = st_directory st" "dd_fences (st_document st') = dd_fences (st_document st)"
    "dd_epoch (st_document st') = fa_epoch f" "dd_coordinator_boot_counter (st_document st') = counter" "fa_fences f' = fa_fences f" "fa_closed f' = fa_closed f" "fa_epoch f' = fa_epoch f"
proof -
  obtain stamp e1 where stamp: "make_stamp PK_CoordinatorBoot f e = (stamp, e1)" by (cases "make_stamp PK_CoordinatorBoot f e")
  then have w1: "en_world e1 = en_world e" using clock_keeps [of e] by (auto simp: make_stamp_def Let_def split: prod.splits)
  have bare: "bare (st_document st)" using rdy by (simp add: ready_def)
  obtain st1 e2 where first: "(if fr_policy_restored (fa_open_report f) then (Inr (), f, e1)
      else store_write (NCF_Store.set_policy (fa_policy f) stamp) f e1) = (Inr (), f\<lparr>fa_store := Some st1\<rparr>, e2)"
    and st1: "ready (n + 1) st1 (en_world e2)" "st_directory st1 = st_directory st"
      "dd_fences (st_document st1) = dd_fences (st_document st)"
  proof (cases "fr_policy_restored (fa_open_report f)")
    case True
    have "ready (n + 1) st (en_world e1)" using rdy w1 by (auto simp: ready_def)
    moreover have "f\<lparr>fa_store := Some st\<rparr> = f" using st by simp
    ultimately show ?thesis using that [of st e1] True by simp
  next
    case False
    then have p: "fa_policy f = make_default_policy" using pol by simp
    obtain q where q: "decode_update Mu_PolicySet (policy_layout make_default_policy) = Inr (U_Policy q)"
      using default_policy_encoded(3) by blast
    have "bare (perform (U_Policy q) (st_document st))" using bare by (simp add: bare_def)
    from ready_write [OF rdy [folded w1] _ q _ default_policy_encoded(2) this st default_policy_encoded(1), of stamp] n
    obtain st' w' where w: "store_write (commit_encoded Mu_PolicySet (encode_policy make_default_policy) stamp) f e1 =
        (Inr (), f\<lparr>fa_store := Some st'\<rparr>, e1\<lparr>en_world := w'\<rparr>)" "ready (Suc n) st' w'" "st_directory st' = st_directory st"
      "content (st_document st') = content (perform (U_Policy q) (st_document st))" by auto
    have "dd_fences (st_document st') = dd_fences (st_document st)" using arg_cong [OF w(4), of dd_fences] by (simp add: content_def)
    then show ?thesis using that [of st' "e1\<lparr>en_world := w'\<rparr>"] w False p by (simp add: NCF_Store.set_policy_def)
  qed
  let ?f1 = "f\<lparr>fa_store := Some st1\<rparr>"
  let ?b = "epoch_layout (fa_epoch f, fa_boot f, counter)"
  have dec: "decode_update Mu_EpochAdvance ?b = Inr (U_Epoch (fa_epoch f, fa_boot f, counter))"
    using ids by (simp add: decode_update_def decode_epoch_def payload_dec check_epoch_def)
  have enc: "encode_epoch (fa_epoch f) (fa_boot f) counter = Inr ?b" by (simp add: encode_epoch_def payload_enc)
  have bare1: "bare (perform (U_Epoch (fa_epoch f, fa_boot f, counter)) (st_document st1))"
    using st1(1) by (simp add: bare_def ready_def)
  have short: "length ?b \<le> 1700" by (simp add: epoch_layout_def)
  from ready_write [OF st1(1) _ dec _ short bare1 _ enc, of ?f1 "stamp\<lparr>ms_epoch := fa_epoch f\<rparr>"] n
  obtain st2 w2 where w2: "store_write (commit_encoded Mu_EpochAdvance (encode_epoch (fa_epoch f) (fa_boot f) counter)
        (stamp\<lparr>ms_epoch := fa_epoch f\<rparr>)) ?f1 e2 = (Inr (), f\<lparr>fa_store := Some st2\<rparr>, e2\<lparr>en_world := w2\<rparr>)"
    "ready (n + 2) st2 w2" "st_directory st2 = st_directory st1"
    "content (st_document st2) = content (perform (U_Epoch (fa_epoch f, fa_boot f, counter)) (st_document st1))" by auto
  have doms: "dd_domains (st_document st2) = []" using w2(2) by (simp add: ready_def bare_def)
  have an: "announce counter now f e = (Inr (), f\<lparr>fa_store := Some st2\<rparr>, e2\<lparr>en_world := w2\<rparr>)"
    using first w2(1) doms by (simp add: announce_def stamp advance_epoch_durable_def)
  have "dd_fences (st_document st2) = dd_fences (st_document st)" "dd_epoch (st_document st2) = fa_epoch f"
      "dd_coordinator_boot_counter (st_document st2) = counter"
    using arg_cong [OF w2(4), of dd_fences] arg_cong [OF w2(4), of dd_epoch]
      arg_cong [OF w2(4), of dd_coordinator_boot_counter] st1(3) by (simp_all add: content_def)
  then show ?thesis by (intro that [OF an, of st2]) (use w2(2,3) st1(2) in simp_all)
qed

definition demo_options :: FabricOptions where
  "demo_options = default_fabric_options\<lparr>fo_state_directory := ''d''\<rparr>"

lemma demo_options_fields [simp]: "fo_persist demo_options" "fo_state_directory demo_options = ''d''"
  "fo_store demo_options = default_store_options"
  by (simp_all add: demo_options_def default_fabric_options_def)

lemma ready_open:
  assumes open1: "store_open ''d'' default_store_options (en_world e) = (Inr st, w1)" and clock: "clock_now e = (100, e)"
    and rdy: "ready n st w1" and n: "n < 90"
    and boot: "id_valid (fst (opening_epoch (st_document st)))"
      "id_valid (derive_boot (fst (opening_epoch (st_document st))) 100 (snd (opening_epoch (st_document st))))"
  obtains f e' st' where "fabric_open demo_options e = (Inr f, e')" "fa_store f = Some st'" "ready (n + 2) st' (en_world e')"
    "st_directory st' = st_directory st" "dd_fences (st_document st') = dd_fences (st_document st)"
    "dd_epoch (st_document st') = fst (opening_epoch (st_document st))"
    "dd_coordinator_boot_counter (st_document st') = snd (opening_epoch (st_document st))" "fa_epoch f = fst (opening_epoch (st_document st))"
proof -
  obtain epoch counter where ep: "opening_epoch (st_document st) = (epoch, counter)" by (cases "opening_epoch (st_document st)")
  let ?f1 = "adopt_document st (blank_fabric demo_options)"
  let ?f2 = "take_office epoch counter 100 ?f1"
  have pol: "fr_policy_restored (fa_open_report ?f1) = (dd_policy (st_document st) \<noteq> None)"
      "fa_has_policy ?f1 = (dd_policy (st_document st) \<noteq> None)"
    by (simp_all add: adopt_document_def blank_fabric_def new_open_report_def Let_def split: option.splits sum.splits)
  have same: "fr_policy_restored (fa_open_report ?f2) = fr_policy_restored (fa_open_report ?f1)"
      "fa_has_policy ?f2 = fa_has_policy ?f1" "fa_store ?f2 = Some st" "fa_epoch ?f2 = epoch" "fa_boot ?f2 = derive_boot epoch 100 counter"
    by (simp_all add: take_office_def Let_def adopt_document_fields)
  obtain f3 where f3: "install_default ?f2 = Inr f3"
      "fr_policy_restored (fa_open_report f3) \<or> fa_policy f3 = make_default_policy"
      "fa_store f3 = Some st" "fa_epoch f3 = epoch" "fa_boot f3 = derive_boot epoch 100 counter"
    using pol same by (cases "fa_has_policy ?f2") (auto simp: install_default_def default_policy_valid)
  have rdy': "ready n st (en_world (e\<lparr>en_world := w1\<rparr>))" using rdy by simp
  obtain f' e' st' where an: "announce counter 100 f3 (e\<lparr>en_world := w1\<rparr>) = (Inr (), f', e')" "fa_store f' = Some st'"
    "ready (n + 2) st' (en_world e')" "st_directory st' = st_directory st" "dd_fences (st_document st') = dd_fences (st_document st)"
    "dd_epoch (st_document st') = fa_epoch f3" "dd_coordinator_boot_counter (st_document st') = counter" "fa_epoch f' = fa_epoch f3"
    using ready_announce [OF f3(3) rdy' n f3(2)] boot f3(4,5) unfolding ep fst_conv snd_conv by metis
  have "fabric_open demo_options e = (Inr f', e')"
    using open1 ep f3(1,3) an(1) by (simp add: fabric_open_def clock Let_def)
  then show ?thesis using that an f3 ep by simp
qed

lemma fresh_ready:
  "\<exists>st w. store_open ''d'' default_store_options (en_world quiet_env) = (Inr st, w) \<and> ready 0 st w \<and> st_directory st = ''d'' \<and>
     st_document st = empty_document \<and> (\<forall>q. q \<noteq> ''d/ncf.journal'' \<longrightarrow> wd_files w q = None)"
proof -
  obtain st w where st: "store_open ''d'' default_store_options (en_world quiet_env) = (Inr st, w)" "durable [] empty_document st w"
    "st_document st = empty_document" "st_directory st = ''d''" "st_options st = default_store_options"
    "jn_next_sequence (st_journal st) = 1" and w: "w = put_file ''d/ncf.journal'' (Some \<lparr>fl_bytes = [], fl_synced = 0\<rparr>) (en_world quiet_env)"
    using fresh_store [of "en_world quiet_env" "''d''" default_store_options]
    by (auto simp: quiet_def default_store_options_def quiet_env_def)
  have "quiet w" "\<forall>q. q \<noteq> ''d/ncf.journal'' \<longrightarrow> wd_files w q = None" by (simp_all add: w quiet_def quiet_env_def put_file_def)
  then have "ready 0 st w" using st by (auto simp: ready_def bare_def empty_document_def log_bytes_def)
  then show ?thesis using st \<open>\<forall>q. _\<close> by blast
qed

lemma ready_crash:
  assumes "ready n st w"
  shows "crashes_to w w"
proof (rule crash_nothing_lost)
  show "quiet w" using assms by (simp add: ready_def)
  obtain log base where dur: "durable log base st w" using assms by (auto simp: ready_def)
  show "fl_synced f = length (fl_bytes f)" if "wd_files w q = Some f" for q f
    using that durable_synced [OF dur] assms by (cases "q = st_directory st @ ''/ncf.journal''") (auto simp: ready_def)
qed

lemma ready_reopen:
  assumes rdy: "ready n st w" and dir: "st_directory st = ''d''"
  obtains st2 where "store_open ''d'' default_store_options w = (Inr st2, w)" "ready n st2 w" "st_directory st2 = ''d''"
    "content (st_document st2) = content (st_document st)"
proof -
  obtain log base where dur: "durable log base st w" and len: "length (log_bytes log) \<le> 2000 * n"
    using rdy by (auto simp: ready_def)
  have opts: "st_options st = default_store_options" using rdy by (simp add: ready_def)
  obtain st2 where st2: "store_open ''d'' default_store_options w = (Inr st2, w)" "durable log base st2 w"
    "content (st_document st2) = content (st_document st)" "st_directory st2 = ''d''" "st_options st2 = default_store_options"
    "jn_next_sequence (st_journal st2) \<le> jn_next_sequence (st_journal st)"
    using reopen_clean [OF dur ready_crash [OF rdy]] dir opts by auto
  have "bare (st_document st2)" using content_bare [OF st2(3)] rdy by (simp add: ready_def)
  moreover have "\<exists>log base. durable log base st2 w \<and> length (log_bytes log) \<le> 2000 * n" using st2(2) len by blast
  ultimately have "ready n st2 w" using rdy st2 dir by (auto simp: ready_def word_le_nat_alt)
  then show ?thesis using that st2 by blast
qed

lemma fence_unregistered:
  assumes "fa_publishers f = []" and "\<not> fa_closed f" and "id_valid p" and "id_valid b" and "clock_now e = (t, e1)"
    and r0: "r0 = \<lparr>fe_id = 0, fe_epoch = fa_epoch f, fe_publisher = p, fe_boot = b, fe_last_generation = 0,
      fe_reason = reason, fe_issued_tick = t, fe_provenance = compute_provenance_id PK_Fence p b (fa_epoch f) t,
      fe_detail = detail\<rparr>"
    and r: "r = r0\<lparr>fe_id := compute_fence_id r0\<rparr>"
  shows "fence_publisher p b reason detail f e =
    (case when_durable PK_Fence (append_fence r) (count_stat fs_fences_issued_update (f\<lparr>fa_publishers := [],
        fa_fences := put_fence r (fa_fences f),
        fa_evidence := filter (\<lambda>(k, s). \<not> (es_publisher s = p \<and> es_publisher_boot s = b)) (fa_evidence f)\<rparr>)) e1 of
       (Inl er, f1, e1) \<Rightarrow> (Inl er, f1, e1) | (Inr _, f1, e1) \<Rightarrow> (Inr r, f1, e1))"
  unfolding fence_publisher_def fence_publisher_locked_def ensure_open_def r r0
  using assms(1-5) by (simp split: prod.split sum.split)

text \<open>Open on an empty directory, fence an incarnation, crash.\<close>

lemma demo_fence:
  obtains f st e r f1 e1 st1 log base where
    "fabric_open demo_options quiet_env = (Inr f, e)" "fa_store f = Some st" "ready 2 st (en_world e)"
    "durable log base st (en_world (quiet_env\<lparr>en_world := en_world e\<rparr>))" "st_directory st = ''d''" "dd_fences (st_document st) = []"
    "fence_publisher 2 1 FR_PublisherDeath ''gone'' f (quiet_env\<lparr>en_world := en_world e\<rparr>) = (Inr r, f1, e1)"
    "fa_store f1 = Some st1" "ready 3 st1 (en_world e1)" "st_directory st1 = ''d''" "dd_fences (st_document st1) = [r]"
    "dd_epoch (st_document st1) = 1" "dd_coordinator_boot_counter (st_document st1) = 1" "fe_publisher r = 2" "fe_boot r = 1"
proof -
  obtain st0 w0 where st0: "store_open ''d'' default_store_options (en_world quiet_env) = (Inr st0, w0)" "ready 0 st0 w0"
    "st_directory st0 = ''d''" "st_document st0 = empty_document"
    using fresh_ready by blast
  have first: "opening_epoch empty_document = (1, 1)" "dd_fences empty_document = []"
    by (simp_all add: opening_epoch_def empty_document_def id_valid_def)
  have boot: "id_valid (derive_boot 1 100 1)" "id_valid 1" by (code_simp, simp add: id_valid_def)
  obtain f e st where f: "fabric_open demo_options quiet_env = (Inr f, e)" "fa_store f = Some st" "ready 2 st (en_world e)"
    "st_directory st = ''d''" "dd_fences (st_document st) = []" "dd_epoch (st_document st) = 1"
    "dd_coordinator_boot_counter (st_document st) = 1" "fa_epoch f = 1"
    by (rule ready_open [OF st0(1) quiet_clock st0(2), unfolded st0(3,4) first fst_conv snd_conv])
      (auto simp: eval_nat_numeral boot)
  let ?e = "quiet_env\<lparr>en_world := en_world e\<rparr>"
  have live: "fa_publishers f = []" "\<not> fa_closed f" using fabric_open_state [OF f(1)] by (simp_all add: idle_def)
  have clock: "clock_now ?e = (100, ?e)" by (simp add: clock_now_def quiet_env_def)
  define r0 where "r0 = \<lparr>fe_id = 0, fe_epoch = 1, fe_publisher = 2, fe_boot = 1, fe_last_generation = 0,
      fe_reason = FR_PublisherDeath, fe_issued_tick = 100, fe_provenance = compute_provenance_id PK_Fence 2 1 1 100,
      fe_detail = ''gone''\<rparr>"
  define r where "r = r0\<lparr>fe_id := compute_fence_id r0\<rparr>"
  have r0: "r0 = \<lparr>fe_id = 0, fe_epoch = fa_epoch f, fe_publisher = 2, fe_boot = 1, fe_last_generation = 0,
      fe_reason = FR_PublisherDeath, fe_issued_tick = 100, fe_provenance = compute_provenance_id PK_Fence 2 1 (fa_epoch f) 100,
      fe_detail = ''gone''\<rparr>"
    by (simp add: r0_def f(8))
  have ids: "id_valid 2" "id_valid 1" by (simp_all add: id_valid_def)
  have id: "id_valid (compute_fence_id r0)" unfolding r0_def compute_fence_id_def FenceRecord.simps by code_simp
  have enc: "encode_fence r = Inr (fence_layout r)" by (simp add: payload_defs payload_enc r_def r0_def kMaxDurableNote_def)
  have "decode_fence (fence_layout r) = check_fence r" using enc by (simp add: payload_defs payload_enc payload_dec)
  also have "\<dots> = Inr r" using id by (simp add: check_fence_def r_def r0_def id_valid_def)
  finally have dec: "decode_update Mu_Fence (fence_layout r) = Inr (U_Fence r)" by (simp add: decode_update_def)
  have short: "length (fence_layout r) \<le> 1700"
    by (simp add: fence_layout_def text_layout_def blob_layout_def r_def r0_def)
  have bare: "bare (perform (U_Fence r) (st_document st))"
    using f(3,5) by (simp add: ready_def bare_def append_new_def)
  let ?f0 = "count_stat fs_fences_issued_update (f\<lparr>fa_publishers := [], fa_fences := put_fence r (fa_fences f),
      fa_evidence := filter (\<lambda>(k, s). \<not> (es_publisher s = 2 \<and> es_publisher_boot s = 1)) (fa_evidence f)\<rparr>)"
  obtain stamp where stamp: "make_stamp PK_Fence ?f0 ?e = (stamp, ?e)" by (simp add: make_stamp_def clock Let_def)
  have store0: "fa_store ?f0 = Some st" using f(2) by (simp add: count_stat_def)
  have rdy: "ready 2 st (en_world ?e)" using f(3) by simp
  from ready_write [OF rdy _ dec _ short bare store0 enc, of stamp] obtain st1 w1 where
    w: "store_write (commit_encoded Mu_Fence (encode_fence r) stamp) ?f0 ?e = (Inr (), ?f0\<lparr>fa_store := Some st1\<rparr>, ?e\<lparr>en_world := w1\<rparr>)"
      "ready 3 st1 w1" "st_directory st1 = st_directory st" "content (st_document st1) = content (perform (U_Fence r) (st_document st))"
    by auto
  have wd: "when_durable PK_Fence (append_fence r) ?f0 ?e =
      (Inr (), count_stat fs_durability_commits_update (?f0\<lparr>fa_store := Some st1\<rparr>), ?e\<lparr>en_world := w1\<rparr>)"
    using w(1) store0 stamp by (simp add: when_durable_def counted_write_def append_fence_def)
  have fence: "fence_publisher 2 1 FR_PublisherDeath ''gone'' f ?e =
      (Inr r, count_stat fs_durability_commits_update (?f0\<lparr>fa_store := Some st1\<rparr>), ?e\<lparr>en_world := w1\<rparr>)"
    unfolding fence_unregistered [OF live ids clock r0 r_def] wd by simp
  have doc: "dd_fences (st_document st1) = [r]" "dd_epoch (st_document st1) = 1" "dd_coordinator_boot_counter (st_document st1) = 1"
    using arg_cong [OF w(4), of dd_fences] arg_cong [OF w(4), of dd_epoch] arg_cong [OF w(4), of dd_coordinator_boot_counter] f(5-7)
    by (simp_all add: content_def append_new_def)
  obtain log base where dur: "durable log base st (en_world ?e)" using f(3) by (auto simp: ready_def)
  show ?thesis
    by (rule that [OF f(1-3) dur f(4,5) fence]) (use w doc f(4) in \<open>simp_all add: count_stat_def r_def r0_def\<close>)
qed

text \<open>The directory opens again, in the next epoch.\<close>

lemma demo_reopens:
  assumes rdy: "ready 3 st1 w" and dir: "st_directory st1 = ''d''"
    and doc: "dd_fences (st_document st1) = [r]" "dd_epoch (st_document st1) = 1" "dd_coordinator_boot_counter (st_document st1) = 1"
  obtains st2 f2 e3 where "fabric_open demo_options (quiet_env\<lparr>en_world := w\<rparr>) = (Inr f2, e3)"
    "opened_on demo_options (quiet_env\<lparr>en_world := w\<rparr>) = Some st2" "dd_fences (st_document st2) = [r]" "fa_epoch f2 = 2"
proof -
  obtain st2 where st2: "store_open ''d'' default_store_options w = (Inr st2, w)" "ready 3 st2 w" "st_directory st2 = ''d''"
    "content (st_document st2) = content (st_document st1)"
    using ready_reopen [OF rdy dir] by blast
  have same: "dd_fences (st_document st2) = [r]" "dd_epoch (st_document st2) = 1" "dd_coordinator_boot_counter (st_document st2) = 1"
    using arg_cong [OF st2(4), of dd_fences] arg_cong [OF st2(4), of dd_epoch] arg_cong [OF st2(4), of dd_coordinator_boot_counter] doc
    by (simp_all add: content_def)
  have ep: "opening_epoch (st_document st2) = (2, 2)" by (simp add: opening_epoch_def same id_valid_def)
  have boot: "id_valid (derive_boot 2 100 2)" "id_valid 2" by (code_simp, simp add: id_valid_def)
  let ?e = "quiet_env\<lparr>en_world := w\<rparr>"
  have clock: "clock_now ?e = (100, ?e)" by (simp add: clock_now_def quiet_env_def)
  have open2: "store_open ''d'' default_store_options (en_world ?e) = (Inr st2, w)" using st2(1) by simp
  obtain f2 e3 where f2: "fabric_open demo_options ?e = (Inr f2, e3)" "fa_epoch f2 = 2"
    by (rule ready_open [OF open2 clock st2(2), unfolded ep fst_conv snd_conv]) (auto simp: boot)
  have "opened_on demo_options ?e = Some st2" using st2(1) by (simp add: opened_on_def clock)
  then show ?thesis using that f2 same by blast
qed

theorem restart_restores_no_authority_witness:
  "\<exists>options e f e' st. fabric_open options e = (Inr f, e') \<and> opened_on options e = Some st \<and>
     dd_fences (st_document st) \<noteq> [] \<and> is_fenced_in 2 1 f \<and> fa_epoch f = 2 \<and> fa_publishers f = [] \<and> fa_generation f = fa_epoch f"
proof -
  obtain f st e r f1 e1 st1 log base where d: "fabric_open demo_options quiet_env = (Inr f, e)" "fa_store f = Some st" "ready 2 st (en_world e)"
    "durable log base st (en_world (quiet_env\<lparr>en_world := en_world e\<rparr>))" "st_directory st = ''d''" "dd_fences (st_document st) = []"
    "fence_publisher 2 1 FR_PublisherDeath ''gone'' f (quiet_env\<lparr>en_world := en_world e\<rparr>) = (Inr r, f1, e1)"
    "fa_store f1 = Some st1" and st1: "ready 3 st1 (en_world e1)" "st_directory st1 = ''d''" "dd_fences (st_document st1) = [r]"
    "dd_epoch (st_document st1) = 1" "dd_coordinator_boot_counter (st_document st1) = 1" "fe_publisher r = 2" "fe_boot r = 1"
    by (rule demo_fence)
  obtain st2 f2 e3 where f2: "fabric_open demo_options (quiet_env\<lparr>en_world := en_world e1\<rparr>) = (Inr f2, e3)"
    "opened_on demo_options (quiet_env\<lparr>en_world := en_world e1\<rparr>) = Some st2" "dd_fences (st_document st2) = [r]" "fa_epoch f2 = 2"
    using demo_reopens [OF st1(1-5)] by blast
  have "is_fenced_in 2 1 f2 \<and> fa_publishers f2 = [] \<and> fa_generation f2 = fa_epoch f2"
    using restart_restores_no_authority [OF f2(1,2)] f2(3) st1(6,7) by auto
  moreover have "dd_fences (st_document st2) \<noteq> []" by (simp add: f2(3))
  ultimately show ?thesis using f2 by blast
qed

theorem acknowledged_fence_survives_crash_witness:
  "\<exists>f e r f1 e1 f2 e3. fence_publisher 2 1 FR_PublisherDeath ''gone'' f e = (Inr r, f1, e1) \<and> crashes_to (en_world e1) (en_world e1) \<and>
     fabric_open demo_options (quiet_env\<lparr>en_world := en_world e1\<rparr>) = (Inr f2, e3) \<and> is_fenced_in 2 1 f2 \<and>
     fst (register_publisher 2 1 aset_all f2 quiet_env) = Inl Err_Fenced"
proof -
  obtain f st e r f1 e1 st1 log base where d: "fabric_open demo_options quiet_env = (Inr f, e)" "fa_store f = Some st" "ready 2 st (en_world e)"
    "durable log base st (en_world (quiet_env\<lparr>en_world := en_world e\<rparr>))" "st_directory st = ''d''" "dd_fences (st_document st) = []"
    "fence_publisher 2 1 FR_PublisherDeath ''gone'' f (quiet_env\<lparr>en_world := en_world e\<rparr>) = (Inr r, f1, e1)"
    "fa_store f1 = Some st1" and st1: "ready 3 st1 (en_world e1)" "st_directory st1 = ''d''" "dd_fences (st_document st1) = [r]"
    "dd_epoch (st_document st1) = 1" "dd_coordinator_boot_counter (st_document st1) = 1" "fe_publisher r = 2" "fe_boot r = 1"
    by (rule demo_fence)
  obtain st2 f2 e3 where f2: "fabric_open demo_options (quiet_env\<lparr>en_world := en_world e1\<rparr>) = (Inr f2, e3)"
    using demo_reopens [OF st1(1-5)] by blast
  have crash: "crashes_to (en_world e1) (en_world e1)" by (rule ready_crash [OF st1(1)])
  have opts: "st_options st = default_store_options" using d(3) by (simp add: ready_def)
  have fit: "fits (st_options st) ((st_document st)\<lparr>dd_fences := dd_fences (st_document st) @ [r]\<rparr>)"
    using d(3,6) by (simp add: ready_def bare_def fits_def under_def opts default_store_options_def)
  have seq: "unat (jn_next_sequence (st_journal st)) + 3 < 2 ^ 64" using d(3) by (simp add: ready_def)
  have "is_fenced_in 2 1 f2 \<and> fst (register_publisher 2 1 aset_all f2 quiet_env) = Inl Err_Fenced"
    using acknowledged_fence_survives_crash [OF d(2,4,7) fit seq _ _ _ _ _ f2, of aset_all quiet_env] crash d(5,6) opts by simp
  then show ?thesis using d(7) crash f2 by blast
qed
end
