(* ===== verification/NCF_Explanation.thy ===== *)
theory NCF_Explanation
  imports NCF_Fabric "HOL-Library.Sublist"
begin

text \<open>
  Rendering of explanations, \<^verbatim>\<open>src/model/explanation.cpp\<close>: line by line into a bounded text, section by section,
  with a notice of what was cut. The length of the text is the \<^verbatim>\<open>std::string\<close> size of the sources, so
  no line is rendered that would pass the bound.
\<close>

section \<open>Text\<close>

abbreviation newline :: char where "newline \<equiv> CHR 0x0A"

text \<open>\<^verbatim>\<open>std::to_string\<close> on an unsigned value.\<close>

fun decimal :: "nat \<Rightarrow> string" where
  "decimal n = (if n < 10 then [char_of (48 + n)] else decimal (n div 10) @ [char_of (48 + n mod 10)])"

declare decimal.simps [simp del]

definition number :: "u64 \<Rightarrow> string" where
  "number v = decimal (unat v)"

definition yes_no :: "bool \<Rightarrow> string" where
  "yes_no b = (if b then ''yes'' else ''no'')"

definition threshold_op_text :: "ThresholdOp \<Rightarrow> string" where
  "threshold_op_text op = (if op = Op_AtLeast then ''at-least'' else ''at-most'')"

text \<open>The lambda \<^verbatim>\<open>put\<close>: whether the line fitted, and the text.\<close>

definition put_line :: "nat \<Rightarrow> string \<Rightarrow> string \<Rightarrow> bool \<times> string" where
  "put_line limit line out =
     (if length out + length line + 1 > limit then (False, out) else (True, out @ line @ [newline]))"

text \<open>Lines whose result is ignored, and a section that stops at its first line that does not fit.\<close>

definition put_lines :: "nat \<Rightarrow> string list \<Rightarrow> string \<Rightarrow> string" where
  "put_lines limit ls out = fold (\<lambda>line out. snd (put_line limit line out)) ls out"

fun put_section :: "nat \<Rightarrow> string list \<Rightarrow> string \<times> nat \<Rightarrow> string \<times> nat" where
  "put_section limit [] st = st"
| "put_section limit (line # ls) (out, truncated) =
     (case put_line limit line out of
        (False, _) \<Rightarrow> (out, truncated + 1)
      | (True, out') \<Rightarrow> put_section limit ls (out', truncated))"

section \<open>The lines\<close>

definition header_lines :: "Explanation \<Rightarrow> string list" where
  "header_lines x =
     [''ncf-explanation format='' @ number (ucast kFormatVersion),
      ''domain='' @ id_to_string ''domain'' (ex_domain x),
      ''state='' @ state_name (ex_state x) @ '' previous='' @ state_name (ex_previous_state x) @
        '' transitioned='' @ yes_no (ex_transitioned x) @ '' authoritative='' @ yes_no (ex_authoritative x) @
        '' requires_revalidation='' @ yes_no (ex_requires_revalidation x),
      ''severity='' @ severity_name (ex_severity x),
      ''evaluation='' @ id_to_string ''evaluation'' (ex_evaluation x) @ '' epoch='' @ id_to_string ''epoch'' (ex_epoch x) @
        '' tick='' @ number (ex_evaluated_tick x),
      ''authority_generation='' @ id_to_string ''authority'' (ex_authority_generation x) @
        '' authority='' @ aset_describe (ex_authority x),
      ''policy='' @ id_to_string ''policy'' (ex_policy x) @ '' fingerprint='' @ to_hex (ex_policy_fingerprint x),
      ''topology_generation='' @ id_to_string ''topology-gen'' (ex_topology_generation x) @
        '' capacity_generation='' @ id_to_string ''capacity-gen'' (ex_capacity_generation x),
      ''reason='' @ (if ex_reason_code x = [] then ''unspecified'' else ex_reason_code x)]"

definition detail_lines :: "Explanation \<Rightarrow> string list" where
  "detail_lines x = map (\<lambda>n. ''reason-detail='' @ note_text n) (ex_reason_detail x)"

definition evidence_line :: "Explanation \<Rightarrow> string" where
  "evidence_line x =
     ''evidence seen='' @ decimal (ex_samples_seen x) @ '' accepted='' @ decimal (ex_samples_accepted x) @
     '' rejected='' @ decimal (ex_samples_rejected x) @ '' duplicate='' @ decimal (ex_samples_duplicate x)"

definition assessment_line :: "ResourceAssessment \<Rightarrow> string" where
  "assessment_line a =
     ''resource='' @ id_to_string ''resource'' (ra_resource a) @ '' raw='' @ severity_name (ra_raw_severity a) @
     '' coverage='' @ coverage_name (ra_coverage a) @ '' stale='' @ yes_no (ra_stale a) @
     '' contradictory='' @ yes_no (ra_contradictory a) @ '' samples='' @ decimal (ra_samples_considered a) @
     '' stale_samples='' @ decimal (ra_stale_samples a) @ '' future_samples='' @ decimal (ra_future_samples a) @
     '' newest_tick='' @ number (ra_newest_observed_tick a)"

definition binding_line :: "ThresholdBinding \<Rightarrow> string" where
  "binding_line b =
     ''binding resource='' @ id_to_string ''resource'' (tb_resource b) @
     (if id_valid (tb_queue b) then '' queue='' @ id_to_string ''queue'' (tb_queue b) else []) @
     '' metric='' @ metric_kind_name (tb_metric b) @ '' value='' @ number (tb_value b) @
     '' op='' @ threshold_op_text (tb_op b) @ '' watch='' @ number (tb_watch b) @
     '' congested='' @ number (tb_congested b) @ '' severe='' @ number (tb_severe b) @
     '' level='' @ severity_name (tb_level b) @ '' required='' @ yes_no (tb_required b) @
     '' stale='' @ yes_no (tb_stale b) @ '' future='' @ yes_no (tb_future b) @
     '' publisher='' @ id_to_string ''publisher'' (tb_publisher b) @ '' observed_tick='' @ number (tb_observed_tick b)"

definition propagation_line :: "PropagationEdge \<Rightarrow> string" where
  "propagation_line e =
     ''propagation from='' @ id_to_string ''resource'' (pe_from e) @ '' to='' @ id_to_string ''resource'' (pe_to e) @
     '' hops='' @ number (ucast (pe_hops e)) @ '' pressure_ppm='' @ number (ucast (pe_pressure_ppm e)) @
     '' induced='' @ severity_name (pe_induced e) @ '' applied='' @ yes_no (pe_applied e) @
     (if id_valid (pe_via_path e) then '' via='' @ id_to_string ''path'' (pe_via_path e) else [])"

definition conflict_line :: "ConflictReport \<Rightarrow> string" where
  "conflict_line c =
     ''conflict resource='' @ id_to_string ''resource'' (cr_resource c) @ '' metric='' @ metric_kind_name (cr_metric c) @
     '' low='' @ number (cr_low_value c) @ '' high='' @ number (cr_high_value c) @ '' spread='' @ number (cr_spread c) @
     '' low_publisher='' @ id_to_string ''publisher'' (cr_low_publisher c) @
     '' high_publisher='' @ id_to_string ''publisher'' (cr_high_publisher c) @ '' resolved='' @ yes_no (cr_resolved c)"

definition stale_line :: "StaleReport \<Rightarrow> string" where
  "stale_line s =
     ''stale resource='' @ id_to_string ''resource'' (sr_resource s) @ '' metric='' @ metric_kind_name (sr_metric s) @
     '' publisher='' @ id_to_string ''publisher'' (sr_publisher s) @ '' observed_tick='' @ number (sr_observed_tick s) @
     '' age='' @ number (sr_age_ticks s) @ '' allowed_age='' @ number (sr_allowed_age_ticks s) @
     '' from_future='' @ yes_no (sr_from_future s) @ '' beyond_skew='' @ yes_no (sr_beyond_future_skew s)"

definition authorized_line :: "InterventionIntent \<Rightarrow> string" where
  "authorized_line i =
     ''authorized kind='' @ intervention_kind_name (in_kind i) @ '' domain='' @ id_to_string ''domain'' (in_domain i) @
     (if id_valid (in_resource i) then '' resource='' @ id_to_string ''resource'' (in_resource i) else []) @
     '' basis='' @ state_name (in_basis_state i) @ '' parameter='' @ number (in_parameter i) @
     '' clamped='' @ yes_no (in_parameter_clamped i) @ '' evidence='' @ id_to_string ''evidence'' (in_evidence i) @
     '' expires_tick='' @ number (in_expires_tick i)"

definition suppressed_line :: "SuppressedIntervention \<Rightarrow> string" where
  "suppressed_line s =
     ''suppressed kind='' @ intervention_kind_name (si_kind s) @
     (if id_valid (si_resource s) then '' resource='' @ id_to_string ''resource'' (si_resource s) else []) @
     '' reason='' @ suppression_reason_name (si_reason s) @
     (if si_detail s \<noteq> [] then '' detail='' @ si_detail s else [])"

section \<open>Rendering\<close>

definition scope_line :: string where
  "scope_line = ''scope begin''"

definition render_sections :: "Explanation \<Rightarrow> string list list" where
  "render_sections x =
     [map assessment_line (ex_resources x), map binding_line (ex_bindings x), map propagation_line (ex_propagation x),
      map conflict_line (ex_conflicts x), map stale_line (ex_stale x), map authorized_line (ex_authorized x),
      map suppressed_line (ex_suppressed x)]"

definition render_body :: "nat \<Rightarrow> Explanation \<Rightarrow> string \<times> nat" where
  "render_body limit x =
     (let (out1, t1) = put_section limit (detail_lines x) (put_lines limit (header_lines x) [], 0);
          out2 = put_lines limit [evidence_line x] out1;
          (fitted, out3) = put_line limit scope_line out2;
          t3 = (if fitted then t1 else t1 + 1)
      in fold (put_section limit) (render_sections x) (out3, t3))"

definition notice_text :: "nat \<Rightarrow> string" where
  "notice_text n = ''truncated-sections='' @ decimal n @ [newline]"

definition upto_last_newline :: "string \<Rightarrow> string" where
  "upto_last_newline s = rev (dropWhile (\<lambda>c. c \<noteq> newline) (rev s))"

definition add_notice :: "nat \<Rightarrow> string \<Rightarrow> string \<Rightarrow> string" where
  "add_notice limit notice out =
     (if length out + length notice \<le> limit then out @ notice
      else if limit > length notice then upto_last_newline (take (limit - length notice) out) @ notice
      else out)"

definition render :: "nat \<Rightarrow> Explanation \<Rightarrow> string" where
  "render limit x =
     (case render_body limit x of
        (out, truncated) \<Rightarrow>
          if truncated > 0 \<or> ex_truncated_sections x > 0
          then add_notice limit (notice_text (truncated + ex_truncated_sections x)) out
          else out)"

definition explanation_summary :: "Explanation \<Rightarrow> string" where
  "explanation_summary x =
     id_to_string ''domain'' (ex_domain x) @ '' state='' @ state_name (ex_state x) @
     '' severity='' @ severity_name (ex_severity x) @ '' authoritative='' @ yes_no (ex_authoritative x) @
     '' reason='' @ (if ex_reason_code x = [] then ''unspecified'' else ex_reason_code x) @
     '' authorized='' @ decimal (length (ex_authorized x)) @ '' suppressed='' @ decimal (length (ex_suppressed x))"

section \<open>What a rendered text holds\<close>

definition text_of :: "string list \<Rightarrow> string" where
  "text_of ls = concat (map (\<lambda>line. line @ [newline]) ls)"

lemma text_of_simps [simp]:
  "text_of [] = []" "text_of (line # ls) = line @ newline # text_of ls" "text_of (ls @ ms) = text_of ls @ text_of ms"
  by (simp_all add: text_of_def)

text \<open>
  The blocks of lines in order: every header line, the details, the evidence line, the scope marker and the sections. Of each block
  the longest beginning that fits is kept, and the next block is tried in any case.
\<close>

definition line_blocks :: "Explanation \<Rightarrow> string list list" where
  "line_blocks x =
     map (\<lambda>line. [line]) (header_lines x) @ detail_lines x # [evidence_line x] # [scope_line] # render_sections x"

fun longest_fit :: "nat \<Rightarrow> nat \<Rightarrow> string list \<Rightarrow> string list" where
  "longest_fit n used [] = []"
| "longest_fit n used (line # ls) =
     (if used + length line + 1 \<le> n then line # longest_fit n (used + length line + 1) ls else [])"

fun keep_blocks :: "nat \<Rightarrow> nat \<Rightarrow> string list list \<Rightarrow> string list list" where
  "keep_blocks n used [] = []"
| "keep_blocks n used (ls # lss) =
     (let ms = longest_fit n used ls in ms # keep_blocks n (used + length (text_of ms)) lss)"

text \<open>The cut blocks that the source counts: header lines and the evidence line are not counted.\<close>

definition cut_blocks :: "Explanation \<Rightarrow> string list list \<Rightarrow> nat" where
  "cut_blocks x ks =
     (let h = length (header_lines x); differ = \<lambda>(b, k). k \<noteq> b in
      length (filter differ (take 1 (drop h (zip (line_blocks x) ks)))) +
      length (filter differ (drop (h + 2) (zip (line_blocks x) ks))))"

text \<open>
  What it means to keep as much as possible: of each block a beginning, within the bound; and where a line is missing, there
  was no room for it after all that is kept before.
\<close>

definition kept_greedily :: "nat \<Rightarrow> string list list \<Rightarrow> string list list \<Rightarrow> bool" where
  "kept_greedily n bs ks \<longleftrightarrow> length ks = length bs \<and> length (text_of (concat ks)) \<le> n \<and>
     (\<forall>i < length bs. \<exists>m \<le> length (bs ! i). ks ! i = take m (bs ! i) \<and>
        (m < length (bs ! i) \<longrightarrow> n < length (text_of (concat (take (Suc i) ks))) + length (bs ! i ! m) + 1))"

lemma longest_fit_spec:
  assumes "used \<le> n"
  shows "\<exists>m \<le> length ls. longest_fit n used ls = take m ls \<and> used + length (text_of (longest_fit n used ls)) \<le> n \<and>
    (m < length ls \<longrightarrow> n < used + length (text_of (longest_fit n used ls)) + length (ls ! m) + 1)"
  using assms
proof (induction ls arbitrary: used)
  case (Cons line ls)
  show ?case
  proof (cases "used + length line + 1 \<le> n")
    case True
    from Cons.IH [OF True] obtain m where "m \<le> length ls" "longest_fit n (used + length line + 1) ls = take m ls"
      "used + length line + 1 + length (text_of (longest_fit n (used + length line + 1) ls)) \<le> n"
      "m < length ls \<longrightarrow> n < used + length line + 1 + length (text_of (longest_fit n (used + length line + 1) ls)) + length (ls ! m) + 1"
      by blast
    with True show ?thesis by (intro exI [of _ "Suc m"]) auto
  next
    case False
    with Cons.prems show ?thesis by (intro exI [of _ 0]) auto
  qed
qed simp

lemma keep_blocks_length [simp]: "length (keep_blocks n used bs) = length bs"
  by (induction n used bs rule: keep_blocks.induct) (simp_all add: Let_def)

lemma keep_blocks_append:
  "keep_blocks n used (as @ bs) =
     keep_blocks n used as @ keep_blocks n (used + length (text_of (concat (keep_blocks n used as)))) bs"
  by (induction n used as rule: keep_blocks.induct) (simp_all add: Let_def add.assoc)

lemma keep_blocks_greedy:
  assumes "used \<le> n"
  shows "used + length (text_of (concat (keep_blocks n used bs))) \<le> n \<and>
    (\<forall>i < length bs. \<exists>m \<le> length (bs ! i). keep_blocks n used bs ! i = take m (bs ! i) \<and>
       (m < length (bs ! i) \<longrightarrow>
          n < used + length (text_of (concat (take (Suc i) (keep_blocks n used bs)))) + length (bs ! i ! m) + 1))"
  using assms
proof (induction bs arbitrary: used)
  case (Cons b bs)
  let ?ms = "longest_fit n used b"
  obtain m where m: "m \<le> length b" "?ms = take m b" "used + length (text_of ?ms) \<le> n"
    "m < length b \<longrightarrow> n < used + length (text_of ?ms) + length (b ! m) + 1"
    using longest_fit_spec [OF Cons.prems, of b] by blast
  note ih = Cons.IH [OF m(3)]
  have step: "keep_blocks n used (b # bs) = ?ms # keep_blocks n (used + length (text_of ?ms)) bs" by (simp add: Let_def)
  show ?case unfolding step
  proof (intro conjI allI impI)
    show "used + length (text_of (concat (?ms # keep_blocks n (used + length (text_of ?ms)) bs))) \<le> n"
      using ih by (simp add: add.assoc)
    fix i assume i: "i < length (b # bs)"
    show "\<exists>m \<le> length ((b # bs) ! i). (?ms # keep_blocks n (used + length (text_of ?ms)) bs) ! i = take m ((b # bs) ! i) \<and>
      (m < length ((b # bs) ! i) \<longrightarrow>
        n < used + length (text_of (concat (take (Suc i) (?ms # keep_blocks n (used + length (text_of ?ms)) bs)))) +
          length ((b # bs) ! i ! m) + 1)"
    proof (cases i)
      case 0
      with m show ?thesis by (intro exI [of _ m]) simp
    next
      case (Suc j)
      with i have j: "j < length bs" by simp
      obtain q where "q \<le> length (bs ! j)" "keep_blocks n (used + length (text_of ?ms)) bs ! j = take q (bs ! j)"
        "q < length (bs ! j) \<longrightarrow> n < used + length (text_of ?ms) +
          length (text_of (concat (take (Suc j) (keep_blocks n (used + length (text_of ?ms)) bs)))) + length (bs ! j ! q) + 1"
        using conjunct2 [OF ih, rule_format, OF j] by (elim exE conjE) (rule that)
      with Suc show ?thesis by (intro exI [of _ q]) (simp add: add.assoc)
    qed
  qed
qed simp

lemma longest_fit_all: "used + length (text_of ls) \<le> n \<Longrightarrow> longest_fit n used ls = ls"
  by (induction ls arbitrary: used) simp_all

lemma keep_blocks_all: "used + length (text_of (concat bs)) \<le> n \<Longrightarrow> keep_blocks n used bs = bs"
  by (induction bs arbitrary: used) (simp_all add: longest_fit_all Let_def)

text \<open>The code keeps the blocks greedily.\<close>

lemma put_section_keeps:
  "put_section n ls (out, t) =
     (out @ text_of (longest_fit n (length out) ls), if longest_fit n (length out) ls = ls then t else t + 1)"
  by (induction ls arbitrary: out) (auto simp: put_line_def)

lemma put_lines_keeps:
  "put_lines n ls out = out @ text_of (concat (keep_blocks n (length out) (map (\<lambda>line. [line]) ls)))"
proof (induction ls arbitrary: out)
  case (Cons line ls)
  have "put_lines n (line # ls) out = put_lines n ls (snd (put_line n line out))" by (simp add: put_lines_def)
  then show ?case by (simp add: Cons.IH put_line_def Let_def)
qed (simp add: put_lines_def)

lemma put_sections_keep:
  "fold (put_section n) bs (out, t) =
     (out @ text_of (concat (keep_blocks n (length out) bs)),
      t + length (filter (\<lambda>(b, k). k \<noteq> b) (zip bs (keep_blocks n (length out) bs))))"
proof (induction bs arbitrary: out t)
  case (Cons b bs)
  show ?case by (simp add: put_section_keeps Cons.IH Let_def)
qed simp

lemma render_body_keeps:
  "render_body n x =
     (text_of (concat (keep_blocks n 0 (line_blocks x))), cut_blocks x (keep_blocks n 0 (line_blocks x)))"
proof -
  define hs where "hs = keep_blocks n 0 (map (\<lambda>line. [line]) (header_lines x))"
  define ds where "ds = longest_fit n (length (text_of (concat hs))) (detail_lines x)"
  define es where "es = longest_fit n (length (text_of (concat hs @ ds))) [evidence_line x]"
  define ss where "ss = longest_fit n (length (text_of (concat hs @ ds @ es))) [scope_line]"
  define rest where "rest = keep_blocks n (length (text_of (concat hs @ ds @ es @ ss))) (render_sections x)"
  have blocks: "keep_blocks n 0 (line_blocks x) = hs @ ds # es # ss # rest"
    by (simp add: line_blocks_def keep_blocks_append Let_def hs_def [symmetric] ds_def es_def ss_def rest_def add.assoc)
  have len: "length hs = length (header_lines x)" by (simp add: hs_def)
  have lines: "put_lines n (header_lines x) [] = text_of (concat hs)"
    using put_lines_keeps [of n "header_lines x" "[]"] by (simp add: hs_def)
  have details: "put_section n (detail_lines x) (text_of (concat hs), 0) =
      (text_of (concat hs @ ds), if ds = detail_lines x then 0 else 1)"
    by (simp add: put_section_keeps ds_def)
  have evidence: "put_lines n [evidence_line x] (text_of (concat hs @ ds)) = text_of (concat hs @ ds @ es)"
    using put_lines_keeps [of n "[evidence_line x]" "text_of (concat hs @ ds)"] by (simp add: es_def Let_def)
  have scope: "put_line n scope_line (text_of (concat hs @ ds @ es)) = (ss = [scope_line], text_of (concat hs @ ds @ es @ ss))"
    by (auto simp: put_line_def ss_def)
  have "render_body n x = (text_of (concat hs @ ds @ es @ ss @ concat rest),
      (if ds = detail_lines x then 0 else 1) + (if ss = [scope_line] then 0 else 1) +
      length (filter (\<lambda>(b, k). k \<noteq> b) (zip (render_sections x) rest)))"
    using put_sections_keep [of n "render_sections x" "text_of (concat hs @ ds @ es @ ss)"]
    by (simp add: render_body_def lines details evidence scope rest_def [symmetric] del: text_of_simps(3))
      (simp add: rest_def)
  moreover have "cut_blocks x (hs @ ds # es # ss # rest) = (if ds = detail_lines x then 0 else 1) + (if ss = [scope_line] then 0 else 1) +
      length (filter (\<lambda>(b, k). k \<noteq> b) (zip (render_sections x) rest))"
    by (simp add: cut_blocks_def line_blocks_def len)
  ultimately show ?thesis by (simp add: blocks)
qed

lemma upto_last_newline_prefix:
  "\<exists>rest. s = upto_last_newline s @ rest" "upto_last_newline s = [] \<or> last (upto_last_newline s) = newline"
proof -
  have "rev s = takeWhile (\<lambda>c. c \<noteq> newline) (rev s) @ dropWhile (\<lambda>c. c \<noteq> newline) (rev s)" by simp
  then have "s = rev (dropWhile (\<lambda>c. c \<noteq> newline) (rev s)) @ rev (takeWhile (\<lambda>c. c \<noteq> newline) (rev s))"
    by (metis rev_append rev_rev_ident)
  then show "\<exists>rest. s = upto_last_newline s @ rest" unfolding upto_last_newline_def by blast
  show "upto_last_newline s = [] \<or> last (upto_last_newline s) = newline"
    using hd_dropWhile [of "\<lambda>c. c \<noteq> newline" "rev s"] by (cases "dropWhile (\<lambda>c. c \<noteq> newline) (rev s)") (auto simp: upto_last_newline_def)
qed

lemma upto_last_newline_longest:
  assumes "s = p @ q" and "p = [] \<or> last p = newline"
  shows "length p \<le> length (upto_last_newline s)"
proof (cases "p = []")
  case False
  with assms(2) obtain r where r: "rev p = newline # r" by (metis last_rev list.exhaust_sel rev_is_Nil_conv rev_rev_ident hd_rev)
  have "dropWhile (\<lambda>c. c \<noteq> newline) (rev s) =
      (if \<forall>c \<in> set (rev q). c \<noteq> newline then newline # r else dropWhile (\<lambda>c. c \<noteq> newline) (rev q) @ rev p)"
    using r by (auto simp: assms(1) dropWhile_append)
  then have "length (rev p) \<le> length (dropWhile (\<lambda>c. c \<noteq> newline) (rev s))" using r by simp
  then show ?thesis by (simp add: upto_last_newline_def)
qed simp

lemma text_of_last: "text_of ls = [] \<or> last (text_of ls) = newline"
  by (induction ls) auto

text \<open>The part of a body that stays before the notice: all of it, or its longest beginning of whole lines that leaves room.\<close>

lemma notice_room:
  assumes "out = [] \<or> last out = newline"
  shows "\<exists>pre rest. out = pre @ rest \<and> (pre = [] \<or> last pre = newline) \<and>
    (\<forall>p q. out = p @ q \<and> (p = [] \<or> last p = newline) \<and> length p + length notice \<le> n \<longrightarrow> length p \<le> length pre) \<and>
    add_notice n notice out = (if n < length out + length notice \<and> n \<le> length notice then out else pre @ notice)"
proof (cases "length out + length notice \<le> n")
  case True
  with assms show ?thesis by (intro exI [of _ out] exI [of _ "[]"]) (auto simp: add_notice_def)
next
  case False
  let ?t = "take (n - length notice) out"
  obtain rest where rest: "?t = upto_last_newline ?t @ rest" using upto_last_newline_prefix(1) by blast
  have "out = upto_last_newline ?t @ rest @ drop (n - length notice) out"
    using rest by (metis append.assoc append_take_drop_id)
  moreover have "length p \<le> length (upto_last_newline ?t)"
    if "out = p @ q \<and> (p = [] \<or> last p = newline) \<and> length p + length notice \<le> n" for p q
    by (rule upto_last_newline_longest [of _ p "take (n - length notice - length p) q"]) (use that in auto)
  ultimately show ?thesis using False upto_last_newline_prefix(2) [of ?t]
    by (intro exI [of _ "upto_last_newline ?t"] exI [of _ "rest @ drop (n - length notice) out"] conjI)
      (auto simp: add_notice_def)
qed

lemma add_notice_length: "length out \<le> n \<Longrightarrow> length (add_notice n notice out) \<le> n"
proof -
  assume le: "length out \<le> n"
  let ?t = "take (n - length notice) out"
  obtain rest where "?t = upto_last_newline ?t @ rest" using upto_last_newline_prefix(1) by blast
  then have "length (upto_last_newline ?t) \<le> n - length notice"
    by (metis length_append length_take le_add1 min.cobounded2 min.bounded_iff)
  then show ?thesis using le by (auto simp: add_notice_def)
qed

lemma zip_differ_none: "length bs = length ks \<Longrightarrow> filter (\<lambda>(b, k). k \<noteq> b) (zip bs ks) = [] \<longleftrightarrow> ks = bs"
  by (induction bs ks rule: list_induct2) auto

lemma cut_none:
  assumes "length ks = length (line_blocks x)" and "cut_blocks x ks = 0"
  shows "\<exists>hs es. ks = hs @ detail_lines x # es # [scope_line] # render_sections x \<and> length hs = length (header_lines x)"
proof -
  let ?h = "length (header_lines x)"
  have len: "length (drop ?h ks) = Suc (Suc (length ([scope_line] # render_sections x)))"
    using assms(1) by (simp add: line_blocks_def)
  then obtain d e rest where k: "drop ?h ks = d # e # rest" "length rest = length ([scope_line] # render_sections x)"
    by (metis length_Suc_conv)
  have lh: "length (take ?h ks) = ?h" using len by simp
  have ks: "ks = take ?h ks @ d # e # rest" using k(1) by (metis append_take_drop_id)
  have "cut_blocks x (take ?h ks @ d # e # rest) = (if d = detail_lines x then 0 else 1) +
      length (filter (\<lambda>(b, k). k \<noteq> b) (zip ([scope_line] # render_sections x) rest))"
    using lh by (simp add: cut_blocks_def line_blocks_def del: zip_Cons_Cons length_take)
      (simp add: zip_append1 del: length_take)
  with assms(2) ks have "d = detail_lines x" "filter (\<lambda>(b, k). k \<noteq> b) (zip ([scope_line] # render_sections x) rest) = []"
    by (auto split: if_splits)
  with zip_differ_none k(2) ks lh show ?thesis by metis
qed


definition demo_explanation :: "nat \<Rightarrow> Explanation" where
  "demo_explanation before =
     \<lparr>ex_domain = 7, ex_state = St_Unknown, ex_previous_state = St_Unknown, ex_severity = Sev_Clear, ex_transitioned = False,
      ex_authoritative = False, ex_requires_revalidation = True, ex_evaluation = 1, ex_epoch = 1, ex_policy = 1,
      ex_policy_fingerprint = 0, ex_authority = 0, ex_authority_generation = 1, ex_topology_generation = 1,
      ex_capacity_generation = 1, ex_evaluated_tick = 100, ex_reason_code = ''no-evidence'', ex_reason_detail = [],
      ex_samples_seen = 0, ex_samples_accepted = 0, ex_samples_rejected = 0, ex_samples_duplicate = 0, ex_resources = [],
      ex_bindings = [], ex_conflicts = [], ex_stale = [], ex_propagation = [], ex_authorized = [], ex_suppressed = [],
      ex_truncated_sections = before\<rparr>"


text \<open>
  The result of \<^verbatim>\<open>put\<close> is ignored for the header and the evidence line. Without sections, for every bound between
  the two sizes, the evidence counts are missing and nothing says so.
\<close>

lemma put_lines_fit: "length out + length (text_of ls) \<le> n \<Longrightarrow> put_lines n ls out = out @ text_of ls"
  using put_lines_keeps [of n ls out] keep_blocks_all [of "length out" "map (\<lambda>line. [line]) ls" n] by (simp add: concat_map_singleton)

lemma evidence_dropped_silently:
  assumes "detail_lines x = []" and "concat (render_sections x) = []" and "ex_truncated_sections x = 0"
    and "length (text_of (header_lines x)) + length scope_line + 1 \<le> n"
    and "n < length (text_of (header_lines x)) + length (evidence_line x) + 1"
  shows "render n x = text_of (header_lines x @ [scope_line])"
proof -
  have heads: "put_lines n (header_lines x) [] = text_of (header_lines x)" using put_lines_fit [of "[]"] assms(4) by simp
  have evidence: "put_lines n [evidence_line x] (text_of (header_lines x)) = text_of (header_lines x)"
    using assms(5) by (simp add: put_lines_def put_line_def)
  have scope: "put_line n scope_line (text_of (header_lines x)) = (True, text_of (header_lines x @ [scope_line]))"
    using assms(4) by (simp add: put_line_def)
  have "length (text_of (header_lines x @ [scope_line])) \<le> n" using assms(4) by simp
  have "fold (put_section n) bs st = st" if "concat bs = []" for bs st
    using that by (induction bs arbitrary: st) auto
  with assms(2) have "fold (put_section n) (render_sections x) (text_of (header_lines x @ [scope_line]), 0) = (text_of (header_lines x @ [scope_line]), 0)"
    by blast
  then have "render_body n x = (text_of (header_lines x @ [scope_line]), 0)"
    by (simp add: render_body_def assms(1) heads evidence scope)
  then show ?thesis by (simp add: render_def assms(3))
qed

end
