(* ===== verification/NCF_Coordinator.thy ===== *)
theory NCF_Coordinator
  imports NCF_FabricRuns NCF_Explanation NCF_Frame
begin

text \<open>
  The coordinator process, \<^verbatim>\<open>src/runtime/coordinator.cpp\<close>: the loop of one connection thread over its stream,
  the handlers of the frame types, the evaluations an evidence batch sets off, the periodic sweep, and the node
  as the interleaving of its connection threads. The channel is a script of what it reads and of which writes
  succeed; threads, pipes and the report file's stream stay outside. A handler is one step, although other
  threads may enter the fabric between two of its calls.
\<close>

section \<open>The node and its connections\<close>

definition kReadBufferBytes :: nat where [ncf_defs]: "kReadBufferBytes = 16384"
definition kMaxDomainsEvaluatedPerBatch :: nat where [ncf_defs]: "kMaxDomainsEvaluatedPerBatch = 256"
definition kMaxReportLines :: nat where [ncf_defs]: "kMaxReportLines = 1048576"

record CoordinatorOptions =
  co_max_connections :: nat
  co_max_frames_per_connection :: u64

definition default_coordinator_options :: CoordinatorOptions where
  "default_coordinator_options = \<lparr>co_max_connections = 32, co_max_frames_per_connection = 1073741824\<rparr>"

text \<open>What the threads share. The report file is the list of its lines, if it is open.\<close>

record Node =
  nd_options :: CoordinatorOptions
  nd_fabric :: Fabric
  nd_env :: Env
  nd_next_connection :: u64
  nd_accepted :: u64
  nd_accept_failures :: u64
  nd_accept_abandoned :: u64
  nd_last_accept_error :: "ErrCode option"
  nd_frames_processed :: u64
  nd_frames_rejected :: u64
  nd_malformed_streams :: u64
  nd_report :: "string list option"
  nd_lines :: nat

text \<open>
  The locals of a connection thread, with the channel: the outcomes of the coming writes, where a missing one
  is a success, and the messages written so far.
\<close>

record Conn =
  cn_publisher :: PublisherId
  cn_boot :: BootId
  cn_registered :: bool
  cn_healthy :: bool
  cn_frames :: u64
  cn_writes :: "bool list"
  cn_sent :: "bytes list"

definition new_conn :: "bool list \<Rightarrow> Conn" where
  "new_conn writes =
     \<lparr>cn_publisher = 0, cn_boot = 0, cn_registered = False, cn_healthy = True, cn_frames = 0, cn_writes = writes, cn_sent = []\<rparr>"

abbreviation unhealthy :: "Conn \<Rightarrow> Conn" where "unhealthy c \<equiv> c\<lparr>cn_healthy := False\<rparr>"

definition reject_frame :: "Node \<Rightarrow> Node" where
  "reject_frame n = n\<lparr>nd_frames_rejected := nd_frames_rejected n + 1\<rparr>"

definition malformed_stream :: "Node \<Rightarrow> Node" where
  "malformed_stream n = reject_frame (n\<lparr>nd_malformed_streams := nd_malformed_streams n + 1\<rparr>)"

section \<open>Replies\<close>

definition make_reply :: "Frame \<Rightarrow> FrameType \<Rightarrow> bytes \<Rightarrow> Frame" where
  "make_reply request type payload =
     \<lparr>fm_header = \<lparr>fh_magic = kFrameMagic, fh_format = 0, fh_type = ft_u16 type,
        fh_flags = kFrameFlagReply OR kFrameFlagFinal, fh_reserved = 0, fh_payload_len = 0, fh_header_crc = 0,
        fh_payload_crc = 0, fh_epoch = fh_epoch (fm_header request), fh_boot = fh_boot (fm_header request),
        fh_publisher = fh_publisher (fm_header request), fh_connection = fh_connection (fm_header request),
        fh_sequence = fh_sequence (fm_header request), fh_nonce = fh_nonce (fm_header request), fh_reserved2 = 0,
        fh_reserved3 = 0\<rparr>, fm_payload = payload\<rparr>"

definition channel_write :: "bytes \<Rightarrow> Conn \<Rightarrow> bool \<times> Conn" where
  "channel_write bs c =
     (case cn_writes c of
        [] \<Rightarrow> (True, c\<lparr>cn_sent := cn_sent c @ [bs]\<rparr>)
      | ok # rest \<Rightarrow> (ok, c\<lparr>cn_writes := rest, cn_sent := (if ok then cn_sent c @ [bs] else cn_sent c)\<rparr>))"

definition send_reply :: "Frame \<Rightarrow> FrameType \<Rightarrow> bytes \<Rightarrow> Conn \<Rightarrow> Conn" where
  "send_reply request type payload c =
     (case frame_encode (make_reply request type payload) [] of
        Inl _ \<Rightarrow> unhealthy c
      | Inr encoded \<Rightarrow> (case channel_write encoded c of (ok, c') \<Rightarrow> if ok then c' else unhealthy c'))"

text \<open>The texts that \<^verbatim>\<open>Fabric::register_publisher\<close> puts into its statuses.\<close>

definition refusal_text :: "ErrCode \<Rightarrow> string" where
  "refusal_text er =
     (if er = Err_InvalidArgument then ''publisher registration needs both identities''
      else if er = Err_Closed then ''fabric is closed''
      else if er = Err_Fenced then ''publisher incarnation is fenced and cannot re-register''
      else ''publisher count is at its bound'')"

section \<open>Evaluation on evidence\<close>

definition write_report_line :: "string \<Rightarrow> Node \<Rightarrow> Node" where
  "write_report_line line n =
     (case nd_report n of
        None \<Rightarrow> n
      | Some ls \<Rightarrow> if nd_lines n \<ge> kMaxReportLines then n
                   else n\<lparr>nd_lines := nd_lines n + 1, nd_report := Some (ls @ [line])\<rparr>)"

text \<open>The ordered set of the domains of the batch, up to the bound.\<close>

fun touched_domains :: "TopologyIndex option \<Rightarrow> EvidenceSample list \<Rightarrow> DomainId list \<Rightarrow> DomainId list" where
  "touched_domains topology [] touched = touched"
| "touched_domains topology (s # ss) touched =
     (case topology of
        None \<Rightarrow> touched_domains topology ss touched
      | Some index \<Rightarrow>
          (case ti_resource index (es_resource s) of
             None \<Rightarrow> touched_domains topology ss touched
           | Some record \<Rightarrow>
               let touched' = insort_insert (rr_domain record) touched
               in if length touched' \<ge> kMaxDomainsEvaluatedPerBatch then touched'
                  else touched_domains topology ss touched'))"

definition truth :: "bool \<Rightarrow> string" where
  "truth b = (if b then ''true'' else ''false'')"

definition explanation_line :: "Explanation \<Rightarrow> string" where
  "explanation_line x =
     ''{\"event\":\"evaluation\",\"domain\":\"'' @ id_to_string ''domain'' (ex_domain x) @
     ''\",\"state\":\"'' @ state_name (ex_state x) @ ''\",\"previous\":\"'' @ state_name (ex_previous_state x) @
     ''\",\"severity\":\"'' @ severity_name (ex_severity x) @
     ''\",\"transitioned\":'' @ truth (ex_transitioned x) @ '',\"authoritative\":'' @ truth (ex_authoritative x) @
     '',\"requires_revalidation\":'' @ truth (ex_requires_revalidation x) @
     '',\"reason\":\"'' @ ex_reason_code x @ ''\",\"tick\":'' @ number (ex_evaluated_tick x) @
     '',\"epoch\":\"'' @ id_to_string ''epoch'' (ex_epoch x) @
     ''\",\"evaluation\":\"'' @ id_to_string ''evaluation'' (ex_evaluation x) @
     ''\",\"authorized\":'' @ decimal (length (ex_authorized x)) @
     '',\"suppressed\":'' @ decimal (length (ex_suppressed x)) @ ''}'' @ [newline]"

text \<open>One domain: by the batch, where a plan follows the evaluation, or by the sweep.\<close>

definition evaluate_domain :: "bool \<Rightarrow> DomainId \<Rightarrow> Node \<Rightarrow> Node" where
  "evaluate_domain with_plan domain n =
     (case fabric_evaluate domain (nd_fabric n) (nd_env n) of
        (Inl _, f, e) \<Rightarrow> n\<lparr>nd_fabric := f, nd_env := e\<rparr>
      | (Inr _, f, e) \<Rightarrow>
          let (f1, e1) = (if with_plan then snd (plan_last domain f e) else (f, e));
              n1 = n\<lparr>nd_fabric := f1, nd_env := e1\<rparr>
          in case explain_last domain f1 of
               Inl _ \<Rightarrow> n1
             | Inr explanation \<Rightarrow> write_report_line (explanation_line explanation) n1)"

definition evaluate_touched_domains :: "EvidenceBatch \<Rightarrow> Node \<Rightarrow> Node" where
  "evaluate_touched_domains batch n =
     fold (evaluate_domain True) (touched_domains (fa_topology (nd_fabric n)) (eb_samples batch) []) n"

definition evaluation_sweep :: "Node \<Rightarrow> Node" where
  "evaluation_sweep n = fold (evaluate_domain False) (fabric_domains (nd_fabric n)) n"

section \<open>The handlers\<close>

definition handle_hello :: "Frame \<Rightarrow> Conn \<Rightarrow> Node \<Rightarrow> Conn \<times> Node" where
  "handle_hello request c n =
     (case decode_hello (fm_payload request) of
        Inl _ \<Rightarrow> (unhealthy c, reject_frame n)
      | Inr hello \<Rightarrow>
          (case register_publisher (hm_publisher hello) (hm_boot hello) (hm_requested hello) (nd_fabric n) (nd_env n) of
             (registration, f, e1) \<Rightarrow>
          (case clock_now e1 of
             (tick, e2) \<Rightarrow>
               let ack0 = \<lparr>ha_epoch = 0, ha_authority_generation = 0, ha_coordinator_boot = fa_boot f, ha_granted = 0,
                     ha_coordinator_tick = tick, ha_accepted = False, ha_reason = []\<rparr>;
                   (accepted, ack) = (case registration of
                       Inr r \<Rightarrow> (True, ack0\<lparr>ha_accepted := True, ha_epoch := pr_epoch r,
                         ha_authority_generation := fa_generation f, ha_granted := pr_granted r\<rparr>)
                     | Inl er \<Rightarrow> (False, ack0\<lparr>ha_reason := refusal_text er\<rparr>));
                   n1 = n\<lparr>nd_fabric := f, nd_env := e2\<rparr>;
                   c1 = c\<lparr>cn_publisher := hm_publisher hello, cn_boot := hm_boot hello,
                     cn_registered := cn_registered c \<or> accepted\<rparr>
               in case encode_hello_ack ack of
                    Inl _ \<Rightarrow> (unhealthy c1, n1)
                  | Inr payload \<Rightarrow>
                      let c2 = send_reply request Ft_HelloAck payload c1
                      in (if accepted then c2 else unhealthy c2, n1))))"

definition handle_evidence :: "Frame \<Rightarrow> Conn \<Rightarrow> Node \<Rightarrow> Conn \<times> Node" where
  "handle_evidence request c n =
     (if \<not> cn_registered c then (unhealthy c, reject_frame n)
      else case decode_evidence (fm_payload request) of
          Inl _ \<Rightarrow> (unhealthy c, reject_frame n)
        | Inr batch \<Rightarrow>
            (case ingest batch (nd_fabric n) (nd_env n) of
               (report, f, e) \<Rightarrow>
                 let n1 = n\<lparr>nd_fabric := f, nd_env := e\<rparr>;
                     ack0 = \<lparr>ea_epoch = fa_epoch f, ea_accepted = 0, ea_rejected = 0, ea_duplicate = 0, ea_fenced = 0\<rparr>;
                     (ack, n2) = (case report of
                         Inr rep \<Rightarrow> (ack0\<lparr>ea_accepted := gr_accepted rep, ea_rejected := gr_rejected rep,
                           ea_duplicate := gr_duplicate rep, ea_fenced := gr_fenced rep\<rparr>, n1)
                       | Inl _ \<Rightarrow> (ack0\<lparr>ea_rejected := of_nat (length (eb_samples batch))\<rparr>, reject_frame n1));
                     c1 = (case encode_evidence_ack ack of
                         Inl _ \<Rightarrow> unhealthy c
                       | Inr payload \<Rightarrow> send_reply request Ft_EvidenceAck payload c)
                 in (c1, case report of Inr _ \<Rightarrow> evaluate_touched_domains batch n2 | Inl _ \<Rightarrow> n2)))"

definition handle_heartbeat :: "Frame \<Rightarrow> Conn \<Rightarrow> Node \<Rightarrow> Conn \<times> Node" where
  "handle_heartbeat request c n =
     (send_reply request Ft_HeartbeatAck [] c,
      if cn_registered c
      then (case heartbeat (cn_publisher c) (cn_boot c) (nd_fabric n) (nd_env n) of
              (_, f, e) \<Rightarrow> n\<lparr>nd_fabric := f, nd_env := e\<rparr>)
      else n)"

definition handle_goodbye :: "Conn \<Rightarrow> Node \<Rightarrow> Conn \<times> Node" where
  "handle_goodbye c n =
     (if cn_registered c
      then (case unregister_publisher (cn_publisher c) (cn_boot c) FR_None [] (nd_fabric n) (nd_env n) of
              (_, f, e) \<Rightarrow> (unhealthy (c\<lparr>cn_registered := False\<rparr>), n\<lparr>nd_fabric := f, nd_env := e\<rparr>))
      else (unhealthy c, n))"

definition handle_other :: "Frame \<Rightarrow> Conn \<Rightarrow> Conn" where
  "handle_other request c =
     (case encode_error \<lparr>em_code = Err_InvalidArgument, em_message = ''frame type is not accepted from a publisher''\<rparr> of
        Inl _ \<Rightarrow> c
      | Inr payload \<Rightarrow> send_reply request Ft_ErrorNotice payload c)"

definition handle_frame :: "Frame \<Rightarrow> Conn \<Rightarrow> Node \<Rightarrow> Conn \<times> Node" where
  "handle_frame request c0 n0 =
     (let c = c0\<lparr>cn_frames := cn_frames c0 + 1\<rparr>;
          n = n0\<lparr>nd_frames_processed := nd_frames_processed n0 + 1\<rparr>;
          type = fm_type request
      in if cn_frames c > co_max_frames_per_connection (nd_options n) then (unhealthy c, n)
         else if type = Ft_Hello then handle_hello request c n
         else if type = Ft_Evidence then handle_evidence request c n
         else if type = Ft_Heartbeat then handle_heartbeat request c n
         else if type = Ft_Goodbye then handle_goodbye c n
         else (handle_other request c, n))"

section \<open>The loop of a connection\<close>

text \<open>One turn of the inner loop: whether it goes on, the decoder, the connection, the node.\<close>

definition frame_turn :: "FrameDecoder \<Rightarrow> Conn \<Rightarrow> Node \<Rightarrow> bool \<times> FrameDecoder \<times> Conn \<times> Node" where
  "frame_turn d c n =
     (case decoder_next d of
        (Inl _, d') \<Rightarrow> (False, d', unhealthy c, malformed_stream n)
      | (Inr None, d') \<Rightarrow> (False, d', c, n)
      | (Inr (Some request), d') \<Rightarrow> (case handle_frame request c n of (c', n') \<Rightarrow> (cn_healthy c', d', c', n')))"

definition pending :: "FrameDecoder \<Rightarrow> nat" where
  "pending d = length (fd_buffer d) - fd_consumed d"

lemma decoder_next_consumes:
  assumes "decoder_next d = (Inr (Some request), d')"
  shows "pending d' < pending d"
  using assms
  by (auto simp: decoder_next_def Let_def kFrameHeaderSize_def pending_def split: if_splits sum.splits)

text \<open>The inner loop ends: every frame takes at least its header from the buffer.\<close>

function drain :: "FrameDecoder \<Rightarrow> Conn \<Rightarrow> Node \<Rightarrow> FrameDecoder \<times> Conn \<times> Node" where
  "drain d c n =
     (case frame_turn d c n of
        (again, d', c', n') \<Rightarrow> if again then drain d' c' n' else (d', c', n'))"
  by pat_completeness auto

lemma frame_turn_again:
  assumes "frame_turn d c n = (True, d', c', n')"
  shows "pending d' < pending d"
  using assms decoder_next_consumes
  by (auto simp: frame_turn_def split: prod.splits sum.splits option.splits)

termination drain
  by (relation "measure (\<lambda>(d, c, n). pending d)") (auto dest: frame_turn_again [OF sym])

declare drain.simps [simp del]

definition receive :: "bytes \<Rightarrow> FrameDecoder \<Rightarrow> Conn \<Rightarrow> Node \<Rightarrow> FrameDecoder \<times> Conn \<times> Node" where
  "receive bs d c n =
     (case decoder_push bs d of
        (Inl _, d') \<Rightarrow> (d', unhealthy c, malformed_stream n)
      | (Inr _, d') \<Rightarrow> drain d' c n)"

text \<open>
  The outer loop over the outcomes of the reads: a failed read, an empty one or the stop flag ends it, as the
  end of the list does.
\<close>

fun serve :: "bytes option list \<Rightarrow> FrameDecoder \<Rightarrow> Conn \<Rightarrow> Node \<Rightarrow> FrameDecoder \<times> Conn \<times> Node" where
  "serve [] d c n = (d, c, n)"
| "serve (None # _) d c n = (d, c, n)"
| "serve (Some [] # _) d c n = (d, c, n)"
| "serve (Some bs # reads) d c n =
     (case receive bs d c n of (d', c', n') \<Rightarrow> if cn_healthy c' then serve reads d' c' n' else (d', c', n'))"

definition end_connection :: "Conn \<Rightarrow> Node \<Rightarrow> Node" where
  "end_connection c n =
     (if cn_registered c
      then (case unregister_publisher (cn_publisher c) (cn_boot c) FR_PublisherDeath ''connection ended without a goodbye''
              (nd_fabric n) (nd_env n) of (_, f, e) \<Rightarrow> n\<lparr>nd_fabric := f, nd_env := e\<rparr>)
      else n)"

definition connection_loop :: "bytes option list \<Rightarrow> bool list \<Rightarrow> Node \<Rightarrow> Node" where
  "connection_loop reads writes n = (case serve reads default_decoder (new_conn writes) n of (_, c, n') \<Rightarrow> end_connection c n')"

end
