(* ===== verification/NCF_Node.thy ===== *)
theory NCF_Node
  imports NCF_Coordinator
begin

text \<open>
  Runs of the coordinator node, \<^verbatim>\<open>src/runtime/coordinator.cpp\<close>: the connection threads, the sweep and the main thread
  interleaved. What the node does to the fabric is made of critical sections of the fabric, and fences stay.
\<close>

section \<open>What a critical section leaves of the fences\<close>

definition face :: "Fabric \<Rightarrow> bool \<times> (PublisherId, (BootId, FenceRecord) omap) omap" where
  "face f = (fa_closed f, fa_fences f)"

definition keeps :: "Fabric \<Rightarrow> Fabric \<Rightarrow> bool" where
  "keeps f f' \<longleftrightarrow> (fa_closed f \<longrightarrow> fa_closed f') \<and> (\<forall>p b. is_fenced_in p b f \<longrightarrow> is_fenced_in p b f')"

lemma keeps_refl [simp]: "keeps f f"
  by (simp add: keeps_def)

lemma keeps_trans: "keeps f g \<Longrightarrow> keeps g h \<Longrightarrow> keeps f h"
  by (simp add: keeps_def)

lemma face_same_core: "same_core f f' \<Longrightarrow> face f' = face f"
  by (erule same_coreE) (simp add: face_def)

lemma face_count [simp]: "face (count_stat field f) = face f"
  by (rule face_same_core [OF same_core_count])

lemma face_fields [simp]:
  "face (f\<lparr>fa_policy := a\<rparr>) = face f" "face (f\<lparr>fa_has_policy := h\<rparr>) = face f" "face (f\<lparr>fa_topology := t\<rparr>) = face f"
  "face (f\<lparr>fa_capacity := c\<rparr>) = face f" "face (f\<lparr>fa_publishers := p\<rparr>) = face f" "face (f\<lparr>fa_intents := i\<rparr>) = face f"
  "face (f\<lparr>fa_domains := d\<rparr>) = face f" "face (f\<lparr>fa_explanations := x\<rparr>) = face f" "face (f\<lparr>fa_last_outcomes := l\<rparr>) = face f"
  "face (f\<lparr>fa_stats := s\<rparr>) = face f" "face (f\<lparr>fa_evidence := v\<rparr>) = face f" "face (invalidate_generations f) = face f"
  by (simp_all add: face_def invalidate_generations_def)

lemma face_keeps: "face f' = face f \<Longrightarrow> keeps f f'"
  by (simp add: face_def keeps_def is_fenced_in_def)

lemma face_set_policy: "fabric_set_policy p f e = (r, f', e') \<Longrightarrow> face f' = face f"
  by (auto simp: fabric_set_policy_def split: sum.splits if_splits dest!: same_core_when_durable face_same_core)

lemma face_set_topology: "fabric_set_topology t f e = (r, f', e') \<Longrightarrow> face f' = face f"
  by (auto simp: fabric_set_topology_def split: sum.splits if_splits dest!: same_core_when_durable face_same_core)

lemma face_set_capacity: "fabric_set_capacity c f e = (r, f', e') \<Longrightarrow> face f' = face f"
  by (auto simp: fabric_set_capacity_def split: sum.splits if_splits dest!: same_core_when_durable face_same_core)

lemma face_register: "register_publisher p b requested f e = (r, f', e') \<Longrightarrow> face f' = face f"
  by (auto simp: register_publisher_def Let_def split: sum.splits if_splits prod.splits)

lemma face_heartbeat: "heartbeat p b f e = (r, f', e') \<Longrightarrow> face f' = face f"
  by (auto simp: heartbeat_def split: sum.splits prod.splits)

lemma face_ingest_sample: "ingest_sample now s (rep, f) = (rep', f') \<Longrightarrow> face f' = face f"
  by (auto simp: ingest_sample_def Let_def split: sum.splits if_splits)

lemma face_ingest_fold: "fold (ingest_sample now) ss (rep, f) = (rep', f') \<Longrightarrow> face f' = face f"
proof (induction ss arbitrary: rep f)
  case (Cons s ss)
  obtain rep1 f1 where s: "ingest_sample now s (rep, f) = (rep1, f1)" by (cases "ingest_sample now s (rep, f)")
  with Cons.prems have "fold (ingest_sample now) ss (rep1, f1) = (rep', f')" by simp
  from Cons.IH [OF this] face_ingest_sample [OF s] show ?case by simp
qed simp

lemma face_ingest: "ingest batch f e = (r, f', e') \<Longrightarrow> face f' = face f"
  by (auto simp: ingest_def Let_def split: sum.splits if_splits prod.splits dest!: face_ingest_fold)

lemma face_commit_outcome:
  assumes "commit_outcome domain now granted out f e = (r, f', e')"
  shows "face f' = face f"
  using assms unfolding commit_outcome_split Let_def
  by (auto split: prod.splits sum.splits if_splits dest!: same_core_write_outcome face_same_core)

lemma face_evaluate_locked: "evaluate_locked domain batch token f e = (r, f', e') \<Longrightarrow> face f' = face f"
  by (auto simp: evaluate_locked_def Let_def split: prod.splits if_splits sum.splits dest!: face_commit_outcome)

lemma face_evaluate_request: "fabric_evaluate_request rq f e = (r, f', e') \<Longrightarrow> face f' = face f"
  by (auto simp: fabric_evaluate_request_def split: sum.splits dest: face_evaluate_locked)

lemma face_evaluate: "evaluate_cancellable d token f e = (r, f', e') \<Longrightarrow> face f' = face f"
  by (auto simp: evaluate_cancellable_def split: sum.splits prod.splits dest: face_evaluate_locked)

lemma face_emit: "emit_intents authority is retained f e = (r, f', e') \<Longrightarrow> face f' = face f"
  using emit_intents_bound face_same_core by blast

lemma face_plan_outcome: "plan_outcome_locked domain outc f e = (r, f', e') \<Longrightarrow> face f' = face f"
  by (auto simp: plan_outcome_locked_def authority_locked_def Let_def
      split: prod.splits sum.splits option.splits dest!: face_emit)

lemma face_plan_committed: "plan_committed d outc f e = (r, f', e') \<Longrightarrow> face f' = face f"
  by (auto simp: plan_committed_def split: sum.splits dest: face_plan_outcome)

lemma face_plan_last: "plan_last d f e = (r, f', e') \<Longrightarrow> face f' = face f"
  by (auto simp: plan_last_def split: sum.splits option.splits dest: face_plan_outcome)

text \<open>Fencing and a new epoch add fences; in memory they do so even when the durable append fails.\<close>

lemma fence_locked_keeps:
  assumes inv: "fabric_inv f" and out: "fence_publisher_locked p b reason detail f e = (r, f', e')"
  shows "keeps f f' \<and> (fa_closed f' = fa_closed f) \<and> (id_valid p \<and> id_valid b \<longrightarrow> is_fenced_in p b f') \<and>
    (\<forall>q d. is_fenced_in q d f' \<longrightarrow> is_fenced_in q d f \<or> (q = p \<and> d = b))"
proof (cases "id_valid p \<and> id_valid b")
  case False
  then show ?thesis using out by (auto simp: fence_publisher_locked_def)
next
  case True
  have ok: "fences_ok f" using inv by (simp add: fabric_inv_def)
  obtain g ps where keep: "(case map_of (fa_publishers f) p of None \<Rightarrow> (0, fa_publishers f)
    | Some r \<Rightarrow> if pr_boot r = b then (pr_last_generation r, om_erase p (fa_publishers f)) else (0, fa_publishers f)) = (g, ps)"
    by fastforce
  obtain tick e1 where tick: "clock_now e = (tick, e1)" by (cases "clock_now e")
  let ?r0 = "\<lparr>fe_id = 0, fe_epoch = fa_epoch f, fe_publisher = p, fe_boot = b, fe_last_generation = g,
      fe_reason = reason, fe_issued_tick = tick,
      fe_provenance = compute_provenance_id PK_Fence p b (fa_epoch f) tick, fe_detail = detail\<rparr>"
  define rec where "rec = ?r0\<lparr>fe_id := compute_fence_id ?r0\<rparr>"
  have rec: "fe_publisher rec = p" "fe_boot rec = b" by (simp_all add: rec_def)
  define f1 where "f1 = count_stat fs_fences_issued_update (f\<lparr>fa_publishers := ps, fa_fences := put_fence rec (fa_fences f),
      fa_evidence := filter (\<lambda>(k, s). \<not> (es_publisher s = p \<and> es_publisher_boot s = b)) (fa_evidence f)\<rparr>)"
  have f1: "fa_fences f1 = put_fence rec (fa_fences f)" "fa_closed f1 = fa_closed f"
    by (simp_all add: f1_def count_stat_def)
  obtain r1 f2 e2 where w2: "when_durable PK_Fence (append_fence rec) f1 e1 = (r1, f2, e2)" by (metis prod_cases3)
  have "fence_publisher_locked p b reason detail f e =
      (case (r1, f2, e2) of (Inl er, f1, e1) \<Rightarrow> (Inl er, f1, e1) | (Inr _, f1, e1) \<Rightarrow> (Inr rec, f1, e1))"
    unfolding w2 [symmetric] f1_def rec_def fence_publisher_locked_def keep tick using True by (simp add: Let_def)
  then have "f' = f2" using out by (cases r1) simp_all
  with w2 have w: "when_durable PK_Fence (append_fence rec) f1 e1 = (r1, f', e2)" by simp
  have face: "face f' = face f1" by (rule face_same_core [OF same_core_when_durable [OF w]])
  have "is_fenced_in q d f' \<longleftrightarrow> is_fenced_in q d f \<or> (q = p \<and> d = b)" for q d
    using is_fenced_put_fence [OF ok, of q d rec] face f1 rec by (simp add: is_fenced_in_def face_def)
  then show ?thesis using face f1 by (simp add: keeps_def face_def)
qed

lemma fence_keeps: "fabric_inv f \<Longrightarrow> fence_publisher p b reason detail f e = (r, f', e') \<Longrightarrow> keeps f f' \<and> fa_closed f' = fa_closed f"
  using fence_locked_keeps by (auto simp: fence_publisher_def split: sum.splits)

lemma unregister_keeps:
  assumes "fabric_inv f" and "unregister_publisher p b reason detail f e = (r, f', e')"
  shows "keeps f f' \<and> fa_closed f' = fa_closed f"
proof (cases "reason = FR_None")
  case True
  then have "face f' = face f" using assms(2) by (auto simp: unregister_publisher_def split: sum.splits option.splits if_splits)
  then show ?thesis using face_keeps by (auto simp: face_def)
next
  case False
  then show ?thesis using assms fence_locked_keeps [OF assms(1)]
    by (auto simp: unregister_publisher_def split: sum.splits if_splits prod.splits)
qed

text \<open>The last outcomes survive a new epoch, so \<^verbatim>\<open>plan_last\<close> goes on planning with them under the new authority.\<close>

lemma epoch_keeps:
  assumes inv: "fabric_inv f" and out: "advance_epoch reason f e = (r, f', e')"
  shows "keeps f f' \<and> fa_closed f' = fa_closed f \<and> fa_last_outcomes f' = fa_last_outcomes f"
proof (cases "fa_closed f")
  case True
  then show ?thesis using out by (simp add: advance_epoch_def ensure_open_def)
next
  case False
  obtain now e0 where c: "clock_now e = (now, e0)" by (cases "clock_now e")
  have ok: "fences_ok f" using inv by (simp add: fabric_inv_def)
  define records where "records = map (epoch_fence (fa_epoch f) reason now) (fa_publishers f)"
  define f1 where "f1 = (count_stat fs_epoch_advances_update f)\<lparr>fa_epoch := fa_epoch f + 1, fa_generation := fa_generation f + 1,
      fa_publishers := [], fa_evidence := [], fa_intents := [],
      fa_domains := map (\<lambda>(d, s). (d, stale_domain (fa_epoch f + 1) (fa_generation f + 1) s))
        (fa_domains (count_stat fs_epoch_advances_update f)),
      fa_fences := fold put_fence records (fa_fences (count_stat fs_epoch_advances_update f)),
      fa_stats := (fa_stats (count_stat fs_epoch_advances_update f))\<lparr>fs_fences_issued :=
        fs_fences_issued (fa_stats (count_stat fs_epoch_advances_update f)) + of_nat (length records)\<rparr>\<rparr>"
  have "same_core f1 f'"
    using out False unfolding advance_epoch_def ensure_open_def c Let_def prod.case
    by (fold records_def, fold f1_def)
      (auto split: if_splits prod.splits sum.splits
        dest!: same_core_counted_write same_core_each_write elim: same_core_trans intro: same_core_trans)
  then have f1: "fa_fences f1 = fold put_fence records (fa_fences f)" "fa_closed f1 = fa_closed f" "same_core f1 f'"
      "fa_last_outcomes f1 = fa_last_outcomes f"
    by (simp_all add: f1_def count_stat_def)
  have "keeps f f1" using fold_put_fence [OF ok, of records] f1 by (auto simp: keeps_def is_fenced_in_def)
  moreover have "fa_last_outcomes f' = fa_last_outcomes f" using f1(3,4) by (auto elim: same_coreE)
  ultimately show ?thesis using face_same_core [OF f1(3)] face_keeps f1(2) keeps_trans by (auto simp: face_def)
qed

lemma close_keeps: "fabric_close f e = (r, f', e') \<Longrightarrow> keeps f f'"
  by (auto simp: fabric_close_def Let_def keeps_def is_fenced_in_def split: if_splits option.splits prod.splits)

lemmas entry_face = face_set_policy face_set_topology face_set_capacity face_register face_heartbeat face_ingest
  face_evaluate_request face_evaluate face_plan_committed face_plan_last

lemma step_keeps: "fabric_step f f' \<Longrightarrow> fabric_inv f \<Longrightarrow> keeps f f'"
proof (induction rule: fabric_step.induct)
  case (step_unregister p b reason detail f e r f' e')
  then show ?case using unregister_keeps by blast
next
  case (step_fence p b reason detail f e rf f' e')
  then show ?case using fence_keeps by blast
next
  case (step_epoch reason f e re f' e')
  then show ?case using epoch_keeps by blast
next
  case (step_close f e r f' e')
  then show ?case using close_keeps by blast
next
  case (step_cancel_plan f)
  then show ?case by (simp add: face_keeps)
qed (rule face_keeps, rule entry_face, assumption)+

section \<open>What the node does to the fabric\<close>

text \<open>Critical sections other than closing.\<close>

definition section_step :: "Fabric \<Rightarrow> Fabric \<Rightarrow> bool" where
  "section_step f f' \<longleftrightarrow> fabric_step f f' \<and> fa_closed f' = fa_closed f"

abbreviation sections :: "Fabric \<Rightarrow> Fabric \<Rightarrow> bool" where
  "sections \<equiv> section_step\<^sup>*\<^sup>*"

lemma sections_inv: "sections f f' \<Longrightarrow> fabric_inv f \<Longrightarrow> fabric_inv f' \<and> keeps f f' \<and> fa_closed f' = fa_closed f"
proof (induction rule: rtranclp_induct)
  case (step g h)
  then show ?case using step_keeps [of g h] inv_step [of g h] keeps_trans by (auto simp: section_step_def)
qed simp

lemma sections_reach: "sections f f' \<Longrightarrow> reachable_fabric f \<Longrightarrow> reachable_fabric f'"
  by (induction rule: rtranclp_induct) (auto simp: section_step_def intro: reach_step)

lemma section_face: "fabric_step f f' \<Longrightarrow> face f' = face f \<Longrightarrow> sections f f'"
  by (simp add: section_step_def face_def r_into_rtranclp)

lemma section_register: "register_publisher p b requested f e = (r, f', e') \<Longrightarrow> sections f f'"
  by (rule section_face [OF step_register face_register])

lemma section_heartbeat: "heartbeat p b f e = (r, f', e') \<Longrightarrow> sections f f'"
  by (rule section_face [OF step_heartbeat face_heartbeat])

lemma section_ingest: "ingest batch f e = (r, f', e') \<Longrightarrow> sections f f'"
  by (rule section_face [OF step_ingest face_ingest])

lemma section_evaluate: "fabric_evaluate d f e = (r, f', e') \<Longrightarrow> sections f f'"
  unfolding fabric_evaluate_def by (rule section_face [OF step_evaluate face_evaluate])

lemma section_plan_last: "plan_last d f e = (r, f', e') \<Longrightarrow> sections f f'"
  by (rule section_face [OF step_plan_last face_plan_last])

lemma section_unregister: "fabric_inv f \<Longrightarrow> unregister_publisher p b reason detail f e = (r, f', e') \<Longrightarrow> sections f f'"
  using unregister_keeps step_unregister by (blast intro: r_into_rtranclp [of section_step] section_step_def [THEN iffD2])

lemma write_report_fabric [simp]: "nd_fabric (write_report_line line n) = nd_fabric n"
  by (simp add: write_report_line_def split: option.split)

lemma evaluate_domain_sections: "sections (nd_fabric n) (nd_fabric (evaluate_domain with_plan d n))"
proof -
  obtain r f e where ev: "fabric_evaluate d (nd_fabric n) (nd_env n) = (r, f, e)" by (metis prod_cases3)
  obtain rp f1 e1 where p: "plan_last d f e = (rp, f1, e1)" by (metis prod_cases3)
  have "sections f f1" by (rule section_plan_last [OF p])
  then show ?thesis using section_evaluate [OF ev] ev p
    by (cases r; cases with_plan) (auto simp: evaluate_domain_def Let_def split: sum.split)
qed

lemma evaluate_fold_sections: "sections (nd_fabric n) (nd_fabric (fold (evaluate_domain with_plan) ds n))"
proof (induction ds arbitrary: n)
  case (Cons d ds)
  show ?case using rtranclp_trans [OF evaluate_domain_sections Cons] by simp
qed simp

lemma reject_fabric [simp]: "nd_fabric (reject_frame n) = nd_fabric n" "nd_fabric (malformed_stream n) = nd_fabric n"
  by (simp_all add: reject_frame_def malformed_stream_def)

lemma hello_sections: "handle_hello request c n = (c', n') \<Longrightarrow> sections (nd_fabric n) (nd_fabric n')"
  by (auto simp: handle_hello_def Let_def split: sum.splits prod.splits dest: section_register)

lemma evidence_sections:
  assumes "handle_evidence request c n = (c', n')"
  shows "sections (nd_fabric n) (nd_fabric n')"
proof (cases "cn_registered c")
  case False
  then show ?thesis using assms by (auto simp: handle_evidence_def)
next
  case True
  show ?thesis
  proof (cases "decode_evidence (fm_payload request)")
    case (Inl er)
    then show ?thesis using assms True by (auto simp: handle_evidence_def)
  next
    case (Inr batch)
    obtain r f e where i: "ingest batch (nd_fabric n) (nd_env n) = (r, f, e)" by (metis prod_cases3)
    have "nd_fabric n' = f \<or> (\<exists>ds. n' = fold (evaluate_domain True) ds (n\<lparr>nd_fabric := f, nd_env := e\<rparr>))"
      using assms True Inr i
      by (cases r) (auto simp: handle_evidence_def evaluate_touched_domains_def Let_def)
    then show ?thesis
      using section_ingest [OF i] evaluate_fold_sections [of "n\<lparr>nd_fabric := f, nd_env := e\<rparr>"] by (auto elim: rtranclp_trans)
  qed
qed

lemma heartbeat_sections: "handle_heartbeat request c n = (c', n') \<Longrightarrow> sections (nd_fabric n) (nd_fabric n')"
  by (auto simp: handle_heartbeat_def split: prod.splits if_splits dest: section_heartbeat)

lemma goodbye_sections: "fabric_inv (nd_fabric n) \<Longrightarrow> handle_goodbye c n = (c', n') \<Longrightarrow> sections (nd_fabric n) (nd_fabric n')"
  by (auto simp: handle_goodbye_def split: prod.splits if_splits dest: section_unregister)

lemma frame_sections:
  assumes "fabric_inv (nd_fabric n)" and "handle_frame request c n = (c', n')"
  shows "sections (nd_fabric n) (nd_fabric n')"
proof -
  define c1 where "c1 = c\<lparr>cn_frames := cn_frames c + 1\<rparr>"
  define n1 where "n1 = n\<lparr>nd_frames_processed := nd_frames_processed n + 1\<rparr>"
  have n1: "nd_fabric n1 = nd_fabric n" by (simp add: n1_def)
  have "nd_fabric n' = nd_fabric n1 \<or> handle_hello request c1 n1 = (c', n') \<or> handle_evidence request c1 n1 = (c', n') \<or>
      handle_heartbeat request c1 n1 = (c', n') \<or> handle_goodbye c1 n1 = (c', n')"
    using assms(2) unfolding handle_frame_def Let_def c1_def [symmetric] n1_def [symmetric] by (simp split: if_splits)
  then show ?thesis using hello_sections evidence_sections heartbeat_sections goodbye_sections assms(1) n1 by (metis rtranclp.rtrancl_refl)
qed

lemma turn_sections:
  assumes "fabric_inv (nd_fabric n)" and "frame_turn d c n = (again, d', c', n')"
  shows "sections (nd_fabric n) (nd_fabric n')"
  using assms frame_sections by (auto simp: frame_turn_def split: prod.splits sum.splits option.splits)

lemma end_sections:
  assumes "fabric_inv (nd_fabric n)"
  shows "sections (nd_fabric n) (nd_fabric (end_connection c n))"
  using assms section_unregister by (auto simp: end_connection_def split: prod.split)

section \<open>Runs of the node\<close>

text \<open>
  The connections are listed in the order of their acceptance, each with its decoder. Accepting goes on until the
  listener ends or the node is told to stop. The thread of a connection
  reads when its decoder holds no whole frame, takes one frame at a time, and leaves its loop when the
  connection is not healthy, or instead of a read. The main thread may enter the fabric at any time, and
  closes it when no connection is left, as \<^verbatim>\<open>stop\<close> does.
\<close>

record System =
  sy_node :: Node
  sy_conns :: "(FrameDecoder \<times> Conn) list"
  sy_accepting :: bool
  sy_failures :: nat

definition accept_connection :: "bool list \<Rightarrow> System \<Rightarrow> System" where
  "accept_connection writes s =
     (let n = (sy_node s)\<lparr>nd_next_connection := nd_next_connection (sy_node s) + 1\<rparr>
      in if length (sy_conns s) \<ge> co_max_connections (nd_options n) then s\<lparr>sy_node := n\<rparr>
         else s\<lparr>sy_node := n\<lparr>nd_accepted := nd_accepted n + 1\<rparr>,
                sy_conns := sy_conns s @ [(default_decoder, new_conn writes)]\<rparr>)"

text \<open>
  One turn of the accept loop on the outcome of \<^verbatim>\<open>accept\<close>: a closed or cancelled listener ends the loop, a peer that is
  gone already counts for nothing, and only a row of more than 64 other failures ends it.
\<close>

definition accept_turn :: "void_result \<Rightarrow> bool list \<Rightarrow> System \<Rightarrow> System" where
  "accept_turn outcome writes s =
     (case outcome of
        Inl er \<Rightarrow>
          let n = sy_node s in
          if er = Err_Cancelled \<or> er = Err_Closed then s\<lparr>sy_accepting := False\<rparr>
          else if er = Err_Unavailable then
            s\<lparr>sy_node := n\<lparr>nd_accept_abandoned := nd_accept_abandoned n + 1\<rparr>, sy_failures := 0\<rparr>
          else
            s\<lparr>sy_node := n\<lparr>nd_accept_failures := nd_accept_failures n + 1, nd_last_accept_error := Some er\<rparr>,
              sy_failures := sy_failures s + 1, sy_accepting := sy_failures s + 1 \<le> 64\<rparr>
      | Inr _ \<Rightarrow> (accept_connection writes s)\<lparr>sy_failures := 0\<rparr>)"

definition drained :: "FrameDecoder \<Rightarrow> bool" where
  "drained d \<longleftrightarrow> fst (decoder_next d) = Inr None"

definition read_turn :: "bytes \<Rightarrow> FrameDecoder \<Rightarrow> Conn \<Rightarrow> Node \<Rightarrow> FrameDecoder \<times> Conn \<times> Node" where
  "read_turn bs d c n =
     (case decoder_push bs d of
        (Inl _, d') \<Rightarrow> (d', unhealthy c, malformed_stream n)
      | (Inr _, d') \<Rightarrow> (d', c, n))"

definition drop_connection :: "nat \<Rightarrow> System \<Rightarrow> System" where
  "drop_connection j s =
     s\<lparr>sy_node := end_connection (snd (sy_conns s ! j)) (sy_node s),
       sy_conns := take j (sy_conns s) @ drop (Suc j) (sy_conns s)\<rparr>"

inductive system_step :: "System \<Rightarrow> System \<Rightarrow> bool" where
  sys_accept: "sy_accepting s \<Longrightarrow> system_step s (accept_turn outcome writes s)"
| sys_quit: "system_step s (s\<lparr>sy_accepting := False\<rparr>)"
| sys_read: "j < length (sy_conns s) \<Longrightarrow> sy_conns s ! j = (d, c) \<Longrightarrow> cn_healthy c \<Longrightarrow> drained d \<Longrightarrow>
    bs \<noteq> [] \<Longrightarrow> length bs \<le> kReadBufferBytes \<Longrightarrow> read_turn bs d c (sy_node s) = (d', c', n') \<Longrightarrow>
    system_step s (s\<lparr>sy_node := n', sy_conns := (sy_conns s)[j := (d', c')]\<rparr>)"
| sys_frame: "j < length (sy_conns s) \<Longrightarrow> sy_conns s ! j = (d, c) \<Longrightarrow> cn_healthy c \<Longrightarrow>
    frame_turn d c (sy_node s) = (again, d', c', n') \<Longrightarrow>
    system_step s (s\<lparr>sy_node := n', sy_conns := (sy_conns s)[j := (d', c')]\<rparr>)"
| sys_end: "j < length (sy_conns s) \<Longrightarrow> sy_conns s ! j = (d, c) \<Longrightarrow> \<not> cn_healthy c \<or> drained d \<Longrightarrow>
    system_step s (drop_connection j s)"
| sys_sweep: "system_step s (s\<lparr>sy_node := evaluate_domain False domain (sy_node s)\<rparr>)"
| sys_main: "section_step (nd_fabric (sy_node s)) f \<Longrightarrow> system_step s (s\<lparr>sy_node := (sy_node s)\<lparr>nd_fabric := f\<rparr>\<rparr>)"
| sys_stop: "\<not> sy_accepting s \<Longrightarrow> sy_conns s = [] \<Longrightarrow> fabric_close (nd_fabric (sy_node s)) e = (r, f, e') \<Longrightarrow>
    system_step s (s\<lparr>sy_node := (sy_node s)\<lparr>nd_fabric := f\<rparr>\<rparr>)"

definition started_node :: "CoordinatorOptions \<Rightarrow> bool \<Rightarrow> Fabric \<Rightarrow> Env \<Rightarrow> Node" where
  "started_node options reporting f e =
     \<lparr>nd_options = options, nd_fabric = f, nd_env = e, nd_next_connection = 1, nd_accepted = 0,
      nd_accept_failures = 0, nd_accept_abandoned = 0, nd_last_accept_error = None, nd_frames_processed = 0,
      nd_frames_rejected = 0, nd_malformed_streams = 0, nd_report = (if reporting then Some [] else None), nd_lines = 0\<rparr>"

inductive reachable_system :: "System \<Rightarrow> bool" where
  sys_start: "fabric_open fo e = (Inr f, e') \<Longrightarrow>
    reachable_system \<lparr>sy_node = started_node options reporting f e', sy_conns = [], sy_accepting = True, sy_failures = 0\<rparr>"
| sys_run: "reachable_system s \<Longrightarrow> system_step s s' \<Longrightarrow> reachable_system s'"

text \<open>
  The invariant: a connection that counts as registered names an incarnation, and the fabric is open while there are
  connections or may be more.
\<close>

definition conn_ok :: "Conn \<Rightarrow> bool" where
  "conn_ok c \<longleftrightarrow> (cn_registered c \<longrightarrow> id_valid (cn_publisher c) \<and> id_valid (cn_boot c))"

definition system_inv :: "System \<Rightarrow> bool" where
  "system_inv s \<longleftrightarrow> reachable_fabric (nd_fabric (sy_node s)) \<and> (\<forall>x \<in> set (sy_conns s). conn_ok (snd x)) \<and>
     (sy_conns s \<noteq> [] \<or> sy_accepting s \<longrightarrow> \<not> fa_closed (nd_fabric (sy_node s)))"

lemma conn_ok_simps [simp]:
  "conn_ok (new_conn writes)" "conn_ok (unhealthy c) = conn_ok c" "conn_ok (c\<lparr>cn_frames := k\<rparr>) = conn_ok c"
  "conn_ok (c\<lparr>cn_writes := w\<rparr>) = conn_ok c" "conn_ok (c\<lparr>cn_sent := t\<rparr>) = conn_ok c" "conn_ok (c\<lparr>cn_registered := False\<rparr>)"
  by (simp_all add: conn_ok_def new_conn_def)

lemma conn_ok_reply [simp]: "conn_ok (send_reply request type payload c) = conn_ok c"
  by (auto simp: send_reply_def channel_write_def split: sum.splits list.splits prod.splits)

lemma finish_reader_checked: "finish_reader m check payload = Inr x \<Longrightarrow> \<exists>a. check a = Inr x"
  by (auto simp: finish_reader_def Let_def split: prod.splits option.splits)

lemma decode_hello_valid:
  assumes "decode_hello payload = Inr hello"
  shows "id_valid (hm_publisher hello) \<and> id_valid (hm_boot hello)"
  using assms unfolding decode_hello_def by (drule_tac finish_reader_checked) (auto split: if_splits)

lemma conn_ok_names:
  "id_valid p \<Longrightarrow> id_valid b \<Longrightarrow> conn_ok (c\<lparr>cn_publisher := p, cn_boot := b, cn_registered := r\<rparr>)"
  "id_valid p \<Longrightarrow> id_valid b \<Longrightarrow> conn_ok (c\<lparr>cn_publisher := p, cn_boot := b\<rparr>)"
  by (simp_all add: conn_ok_def)

lemma conn_ok_hello: "conn_ok c \<Longrightarrow> handle_hello request c n = (c', n') \<Longrightarrow> conn_ok c'"
  by (auto simp: handle_hello_def Let_def conn_ok_names split: sum.splits prod.splits if_splits dest!: decode_hello_valid)

lemma conn_ok_evidence: "conn_ok c \<Longrightarrow> handle_evidence request c n = (c', n') \<Longrightarrow> conn_ok c'"
  by (auto simp: handle_evidence_def Let_def split: sum.splits prod.splits if_splits)

lemma conn_ok_heartbeat: "conn_ok c \<Longrightarrow> handle_heartbeat request c n = (c', n') \<Longrightarrow> conn_ok c'"
  by (auto simp: handle_heartbeat_def split: prod.splits if_splits)

lemma conn_ok_goodbye: "conn_ok c \<Longrightarrow> handle_goodbye c n = (c', n') \<Longrightarrow> conn_ok c'"
  by (auto simp: handle_goodbye_def split: prod.splits if_splits)

lemma conn_ok_other: "conn_ok c \<Longrightarrow> conn_ok (handle_other request c)"
  by (auto simp: handle_other_def split: sum.splits)

lemma conn_ok_frame:
  assumes "conn_ok c" and "handle_frame request c n = (c', n')"
  shows "conn_ok c'"
proof -
  define c1 where "c1 = c\<lparr>cn_frames := cn_frames c + 1\<rparr>"
  define n1 where "n1 = n\<lparr>nd_frames_processed := nd_frames_processed n + 1\<rparr>"
  have c1: "conn_ok c1" using assms(1) by (simp add: c1_def)
  have "c' = unhealthy c1 \<or> c' = handle_other request c1 \<or> handle_hello request c1 n1 = (c', n') \<or>
      handle_evidence request c1 n1 = (c', n') \<or> handle_heartbeat request c1 n1 = (c', n') \<or> handle_goodbye c1 n1 = (c', n')"
    using assms(2) unfolding handle_frame_def Let_def c1_def [symmetric] n1_def [symmetric] by (simp split: if_splits)
  then show ?thesis
    using c1 conn_ok_hello conn_ok_evidence conn_ok_heartbeat conn_ok_goodbye conn_ok_other conn_ok_simps(2) by metis
qed

lemma conn_ok_turn: "conn_ok c \<Longrightarrow> frame_turn d c n = (again, d', c', n') \<Longrightarrow> conn_ok c'"
  by (auto simp: frame_turn_def split: prod.splits sum.splits option.splits dest: conn_ok_frame)

lemma read_turn_keeps:
  "read_turn bs d c n = (d', c', n') \<Longrightarrow> nd_fabric n' = nd_fabric n \<and> (conn_ok c \<longrightarrow> conn_ok c') \<and>
     cn_registered c' = cn_registered c \<and> cn_publisher c' = cn_publisher c \<and> cn_boot c' = cn_boot c"
  by (auto simp: read_turn_def split: prod.splits sum.splits)

lemma system_inv_conn:
  assumes inv: "system_inv s" and j: "j < length (sy_conns s)" and c: "conn_ok c'"
    and secs: "sections (nd_fabric (sy_node s)) (nd_fabric n')"
  shows "system_inv (s\<lparr>sy_node := n', sy_conns := (sy_conns s)[j := (d', c')]\<rparr>)"
proof -
  have reach: "reachable_fabric (nd_fabric (sy_node s))" using inv by (simp add: system_inv_def)
  have "\<forall>x \<in> set ((sy_conns s)[j := (d', c')]). conn_ok (snd x)"
    using inv c set_update_subset_insert [of "sy_conns s" j "(d', c')"] by (auto simp: system_inv_def)
  moreover have "\<not> fa_closed (nd_fabric n')"
    using inv j sections_inv [OF secs reachable_inv [OF reach]] by (auto simp: system_inv_def)
  ultimately show ?thesis using sections_reach [OF secs reach] by (simp add: system_inv_def)
qed

lemma system_inv_node:
  assumes inv: "system_inv s" and sub: "set conns \<subseteq> set (sy_conns s)"
    and secs: "sections (nd_fabric (sy_node s)) (nd_fabric n')"
  shows "system_inv (s\<lparr>sy_node := n', sy_conns := conns\<rparr>)"
proof -
  have reach: "reachable_fabric (nd_fabric (sy_node s))" using inv by (simp add: system_inv_def)
  have "sy_conns s \<noteq> []" if "conns \<noteq> []" using sub that by auto
  then show ?thesis
    using inv sub sections_inv [OF secs reachable_inv [OF reach]] sections_reach [OF secs reach]
    by (auto simp: system_inv_def)
qed

lemma system_inv_step:
  assumes "system_step s s'" and "system_inv s"
  shows "system_inv s'"
  using assms
proof (induction rule: system_step.induct)
  case (sys_accept s outcome writes)
  then show ?case
    by (auto simp: system_inv_def accept_turn_def accept_connection_def Let_def split: sum.split)
next
  case (sys_quit s)
  then show ?case by (simp add: system_inv_def)
next
  case (sys_read j s d c bs d' c' n')
  then have "conn_ok c" by (metis nth_mem snd_conv system_inv_def)
  with sys_read read_turn_keeps [OF sys_read(7)] show ?case by (intro system_inv_conn) auto
next
  case (sys_frame j s d c again d' c' n')
  then have "conn_ok c" and inv: "fabric_inv (nd_fabric (sy_node s))"
    by (metis nth_mem snd_conv system_inv_def, simp add: system_inv_def reachable_inv)
  with sys_frame show ?case using turn_sections [OF inv sys_frame(4)] conn_ok_turn by (intro system_inv_conn) auto
next
  case (sys_end j s d c)
  have inv: "fabric_inv (nd_fabric (sy_node s))" using sys_end.prems by (simp add: system_inv_def reachable_inv)
  have "set (take j (sy_conns s) @ drop (Suc j) (sy_conns s)) \<subseteq> set (sy_conns s)"
    by (auto dest: in_set_takeD in_set_dropD)
  from system_inv_node [OF sys_end.prems this end_sections [OF inv, of "snd (sy_conns s ! j)"]] show ?case
    by (simp add: system_inv_def drop_connection_def)
next
  case (sys_sweep s domain)
  from system_inv_node [OF sys_sweep order_refl evaluate_domain_sections] show ?case by (simp add: system_inv_def)
next
  case (sys_main s f)
  then have "sections (nd_fabric (sy_node s)) (nd_fabric ((sy_node s)\<lparr>nd_fabric := f\<rparr>))" by auto
  from system_inv_node [OF sys_main.prems order_refl this] show ?case by (simp add: system_inv_def)
next
  case (sys_stop s e r f e')
  then show ?case using reach_step step_close by (simp add: system_inv_def)
qed

lemma system_reachable_inv: "reachable_system s \<Longrightarrow> system_inv s"
proof (induction rule: reachable_system.induct)
  case (sys_start fo e f e' options reporting)
  have "\<not> fa_closed f" using fabric_open_state [OF sys_start] by (simp add: idle_def)
  then show ?case using reach_open [OF sys_start] by (simp add: system_inv_def started_node_def)
qed (rule system_inv_step)

text \<open>Fences outlive every step of the node, closing included.\<close>

lemma system_step_keeps:
  assumes "system_step s s'" and "system_inv s"
  shows "keeps (nd_fabric (sy_node s)) (nd_fabric (sy_node s'))"
proof -
  have inv: "fabric_inv (nd_fabric (sy_node s))" using assms(2) by (simp add: system_inv_def reachable_inv)
  from assms show ?thesis
  proof (induction rule: system_step.cases)
    case (sys_accept outcome writes)
    then show ?case by (simp add: accept_turn_def accept_connection_def Let_def split: sum.split)
  next
    case sys_quit
    then show ?case by simp
  next
    case (sys_read j d c bs d' c' n')
    then show ?case using read_turn_keeps by force
  next
    case (sys_frame j d c again d' c' n')
    then show ?case using sections_inv [OF turn_sections [OF inv]] inv by force
  next
    case (sys_end j d c)
    then show ?case using sections_inv [OF end_sections [OF inv]] inv by (simp add: drop_connection_def)
  next
    case (sys_sweep domain)
    then show ?case using sections_inv [OF evaluate_domain_sections] inv by simp
  next
    case (sys_main f)
    then show ?case using sections_inv [OF r_into_rtranclp [of section_step]] inv by simp
  next
    case (sys_stop e r f e')
    then show ?case using close_keeps by force
  qed
qed

lemma system_run_keeps:
  assumes "system_step\<^sup>*\<^sup>* s s'" and "system_inv s"
  shows "system_inv s' \<and> keeps (nd_fabric (sy_node s)) (nd_fabric (sy_node s'))"
  using assms
proof (induction rule: rtranclp_induct)
  case (step t u)
  then show ?case using system_inv_step system_step_keeps keeps_trans by blast
qed simp

lemma end_connection_fences:
  assumes inv: "fabric_inv (nd_fabric n)" and live: "\<not> fa_closed (nd_fabric n)" and c: "cn_registered c" "conn_ok c"
  shows "is_fenced_in (cn_publisher c) (cn_boot c) (nd_fabric (end_connection c n))"
proof -
  obtain r f e where u: "unregister_publisher (cn_publisher c) (cn_boot c) FR_PublisherDeath
      ''connection ended without a goodbye'' (nd_fabric n) (nd_env n) = (r, f, e)" by (metis prod_cases3)
  then have "\<exists>r e. fence_publisher_locked (cn_publisher c) (cn_boot c) FR_PublisherDeath
      ''connection ended without a goodbye'' (nd_fabric n) (nd_env n) = (r, f, e)"
    using live by (auto simp: unregister_publisher_def ensure_open_def split: prod.splits sum.splits)
  then have "is_fenced_in (cn_publisher c) (cn_boot c) f"
    using fence_locked_keeps [OF inv] c unfolding conn_ok_def by blast
  then show ?thesis using c(1) u by (simp add: end_connection_def)
qed

text \<open>C12: a publisher that vanishes stays out. When the connection of a registered publisher ends without a goodbye, then
  from that moment on, whatever the other threads do and whatever I/O fails, also across changes of the
  epoch: the incarnation is fenced, no sample of it is in the evidence window, no registration of it exists,
  and it cannot register again.\<close>

theorem dropped_publisher_stays_out:
  assumes "reachable_system s" and "j < length (sy_conns s)" and "sy_conns s ! j = (d, c)" and "cn_registered c"
    and "\<not> cn_healthy c \<or> drained d" and "system_step\<^sup>*\<^sup>* (drop_connection j s) s'"
  shows "is_fenced_in (cn_publisher c) (cn_boot c) (nd_fabric (sy_node s')) \<and>
    (\<forall>k x. map_of (fa_evidence (nd_fabric (sy_node s'))) k = Some x \<longrightarrow>
       es_publisher x \<noteq> cn_publisher c \<or> es_publisher_boot x \<noteq> cn_boot c) \<and>
    (\<forall>r. lookup_publisher (cn_publisher c) (cn_boot c) (nd_fabric (sy_node s')) \<noteq> Inr r) \<and>
    (\<forall>requested e. \<exists>er. fst (register_publisher (cn_publisher c) (cn_boot c) requested (nd_fabric (sy_node s')) e) = Inl er)"
proof -
  have inv: "system_inv s" by (rule system_reachable_inv [OF assms(1)])
  have finv: "fabric_inv (nd_fabric (sy_node s))" using inv by (simp add: system_inv_def reachable_inv)
  have live: "\<not> fa_closed (nd_fabric (sy_node s))" using inv assms(2) by (auto simp: system_inv_def)
  have "conn_ok c" using inv assms(2,3) by (metis nth_mem snd_conv system_inv_def)
  then have "is_fenced_in (cn_publisher c) (cn_boot c) (nd_fabric (sy_node (drop_connection j s)))"
    using end_connection_fences [OF finv live assms(4)] assms(3) by (simp add: drop_connection_def)
  moreover have "system_inv (drop_connection j s)" using system_inv_step [OF sys_end [OF assms(2,3,5)] inv] .
  ultimately have fenced: "is_fenced_in (cn_publisher c) (cn_boot c) (nd_fabric (sy_node s'))" and inv': "system_inv s'"
    using system_run_keeps [OF assms(6)] by (auto simp: keeps_def)
  have finv': "window_ok (nd_fabric (sy_node s'))" "publishers_ok (nd_fabric (sy_node s'))"
    using inv' reachable_inv by (auto simp: system_inv_def fabric_inv_def)
  define f where "f = nd_fabric (sy_node s')"
  have window: "\<forall>k x. map_of (fa_evidence f) k = Some x \<longrightarrow> es_publisher x \<noteq> cn_publisher c \<or> es_publisher_boot x \<noteq> cn_boot c"
    using finv'(1) fenced unfolding window_ok_def f_def [symmetric] by metis
  have lookup: "\<forall>r. lookup_publisher (cn_publisher c) (cn_boot c) f \<noteq> Inr r"
    using finv'(2) fenced unfolding publishers_ok_def lookup_publisher_Inr f_def [symmetric] by metis
  have "\<exists>er. fst (register_publisher (cn_publisher c) (cn_boot c) requested f e) = Inl er" for requested e
    using fenced by (simp add: register_publisher_def ensure_open_def f_def)
  with window lookup fenced show ?thesis by (simp add: f_def)
qed

subsection \<open>A publisher that vanishes\<close>

definition demo_hello :: HelloMessage where
  "demo_hello = \<lparr>hm_publisher = 2, hm_boot = 1, hm_generation = 1, hm_start_sequence = 1, hm_requested = aset_all, hm_agent = []\<rparr>"

definition hello_frame :: Frame where
  "hello_frame = demo_frame\<lparr>fm_header := (fm_header demo_frame)\<lparr>fh_type := 1\<rparr>,
     fm_payload := (case encode_hello demo_hello of Inl _ \<Rightarrow> [] | Inr bs \<Rightarrow> bs)\<rparr>"

lemma hello_payload:
  "decode_hello (fm_payload hello_frame) = Inr demo_hello" "length (fm_payload hello_frame) \<le> 100"
proof -
  have ok: "id_valid (hm_publisher demo_hello) \<and> id_valid (hm_boot demo_hello) \<and> hm_requested demo_hello AND NOT kAuthorityAllBits = 0"
    by (simp add: demo_hello_def id_valid_def aset_all_def)
  have enc: "encode_hello demo_hello = Inr (put_le 8 (2 :: u64) @ put_le 8 (1 :: u64) @ put_le 8 (1 :: u64) @ put_le 8 (1 :: u64) @
      put_le 4 aset_all @ text_layout [])"
    by (simp add: encode_hello_def encode_simps demo_hello_def)
  then show "decode_hello (fm_payload hello_frame) = Inr demo_hello"
    using hello.decode_encode [OF enc ok] by (simp add: hello_frame_def)
  show "length (fm_payload hello_frame) \<le> 100"
    by (simp add: hello_frame_def enc text_layout_def blob_layout_def)
qed

lemma payload_sealed [simp]: "fm_payload (sealed f) = fm_payload f"
  by (simp add: sealed_def)

lemma send_reply_fields [simp]:
  "cn_registered (send_reply request type payload c) = cn_registered c"
  "cn_publisher (send_reply request type payload c) = cn_publisher c" "cn_boot (send_reply request type payload c) = cn_boot c"
  by (auto simp: send_reply_def channel_write_def split: sum.splits list.splits prod.splits)

lemma hello_frame_ok: "frame_ok hello_frame" "fm_type (sealed hello_frame) = Ft_Hello"
  using hello_payload(2)
  by (simp_all add: frame_ok_def hello_frame_def demo_frame_def fm_type_def is_valid_frame_type_def sets_reserved_flag_def
      ncf_defs sealed_def sealed_header_def Let_def)

definition demo_system :: System where
  "demo_system = accept_turn (Inr ()) [] \<lparr>sy_node = started_node default_coordinator_options False memory_fabric quiet_env,
     sy_conns = [], sy_accepting = True, sy_failures = 0\<rparr>"

lemma demo_conns:
  "reachable_system demo_system" "sy_conns demo_system = [(default_decoder, new_conn [])]"
  "nd_fabric (sy_node demo_system) = memory_fabric" "nd_env (sy_node demo_system) = quiet_env"
  "co_max_frames_per_connection (nd_options (sy_node demo_system)) = 1073741824"
proof -
  show "reachable_system demo_system"
    unfolding demo_system_def by (intro sys_run [OF sys_start [OF memory_open] sys_accept]) simp_all
qed (simp_all add: demo_system_def accept_turn_def accept_connection_def started_node_def default_coordinator_options_def Let_def)

lemma demo_register:
  "\<exists>s d c. reachable_system s \<and> sy_conns s = [(d, c)] \<and> cn_registered c \<and> cn_publisher c = 2 \<and> cn_boot c = 1 \<and> drained d"
proof -
  let ?n = "sy_node demo_system" and ?c = "new_conn []" and ?bs = "wire hello_frame"
  define d1 where "d1 = default_decoder\<lparr>fd_buffer := ?bs\<rparr>"
  have len: "length ?bs \<le> 180" using hello_payload(2) by (simp add: length_wire)
  have push: "decoder_push ?bs default_decoder = (Inr (), d1)"
    using len by (simp add: decoder_push_def default_decoder_def d1_def kMaxFramePayload_def)
  have "drained default_decoder" by (simp add: drained_def decoder_next_def default_decoder_def kFrameHeaderSize_def)
  define s1 where "s1 = demo_system\<lparr>sy_node := ?n, sy_conns := [(d1, ?c)]\<rparr>"
  have "system_step demo_system s1"
    using sys_read [of 0 demo_system default_decoder ?c ?bs d1 ?c ?n] demo_conns(2) push len \<open>drained default_decoder\<close>
    by (simp add: read_turn_def s1_def new_conn_def kReadBufferBytes_def length_wire flip: length_0_conv)
  then have s1: "reachable_system s1" using demo_conns(1) sys_run by blast
  define d2 where "d2 = d1\<lparr>fd_consumed := fd_consumed d1 + length ?bs\<rparr>"
  have next_frame: "decoder_next d1 = (Inr (Some (sealed hello_frame)), d2)"
    unfolding d2_def by (rule decoder_next_frame [of _ _ "[]"])
      (simp_all add: d1_def default_decoder_def unread_def hello_frame_ok)
  have "drained d2"
    by (simp add: drained_def decoder_next_def d2_def d1_def default_decoder_def kFrameHeaderSize_def)
  obtain c2 n2 where turn: "handle_frame (sealed hello_frame) ?c ?n = (c2, n2)" by (cases "handle_frame (sealed hello_frame) ?c ?n")
  have "cn_registered c2 \<and> cn_publisher c2 = 2 \<and> cn_boot c2 = 1"
    using turn hello_payload(1) memory_register demo_conns(3-5)
    by (auto simp: handle_frame_def hello_frame_ok Let_def new_conn_def handle_hello_def demo_hello_def quiet_clock
        split: sum.splits)
  moreover have "reachable_system (s1\<lparr>sy_node := n2, sy_conns := [(d2, c2)]\<rparr>)"
    using sys_run [OF s1 sys_frame [of 0 s1 d1 ?c]] next_frame turn
    by (simp add: s1_def frame_turn_def new_conn_def)
  ultimately show ?thesis using \<open>drained d2\<close> by (intro exI [of _ "s1\<lparr>sy_node := n2, sy_conns := [(d2, c2)]\<rparr>"]) auto
qed

lemma dropped_demo: "\<exists>s. is_fenced_in 2 1 (nd_fabric (sy_node (drop_connection 0 s)))"
proof -
  obtain s d c where s: "reachable_system s" "sy_conns s = [(d, c)]" "cn_registered c" "cn_publisher c = 2" "cn_boot c = 1" "drained d"
    using demo_register by blast
  have inv: "system_inv s" by (rule system_reachable_inv [OF s(1)])
  then have "fabric_inv (nd_fabric (sy_node s))" "\<not> fa_closed (nd_fabric (sy_node s))" "conn_ok c"
    using s(2) by (auto simp: system_inv_def reachable_inv)
  from end_connection_fences [OF this(1,2) s(3) this(3)] s show ?thesis
    by (intro exI [of _ s]) (simp add: drop_connection_def)
qed

theorem dropped_publisher_stays_out_witness:
  "\<exists>s. reachable_system s \<and> sy_conns s \<noteq> [] \<and> is_fenced_in 2 1 (nd_fabric (sy_node (drop_connection 0 s)))"
proof -
  obtain s d c where s: "reachable_system s" "sy_conns s = [(d, c)]" "cn_registered c" "cn_publisher c = 2" "cn_boot c = 1" "drained d"
    using demo_register by blast
  then show ?thesis
    using dropped_publisher_stays_out [of s 0 d c "drop_connection 0 s"] by auto
qed

end
