(* ===== verification/NCF_Session.thy ===== *)
theory NCF_Session
  imports NCF_Node
begin

text \<open>
  What one connection of \<^verbatim>\<open>src/runtime/coordinator.cpp\<close> makes of its byte stream: the frames in order, however the stream
  is cut into reads; and what a peer can reach before the fabric has accepted it.
\<close>

section \<open>Frames in order\<close>

fun handle_all :: "Frame list \<Rightarrow> Conn \<Rightarrow> Node \<Rightarrow> Conn \<times> Node" where
  "handle_all [] c n = (c, n)"
| "handle_all (request # requests) c n =
     (case handle_frame request c n of (c', n') \<Rightarrow> if cn_healthy c' then handle_all requests c' n' else (c', n'))"

definition sound :: "FrameDecoder \<Rightarrow> bool" where
  "sound d \<longleftrightarrow> \<not> fd_failed d \<and> fd_consumed d \<le> length (fd_buffer d) \<and> fd_max_payload d = kMaxFramePayload \<and> fd_max_buffered d = fd_max_buffered default_decoder"

lemma drain_stop: "decoder_next d = (Inr None, d') \<Longrightarrow> drain d c n = (d', c, n)"
  by (subst drain.simps) (simp add: frame_turn_def)

lemma drain_frame:
  assumes "decoder_next d = (Inr (Some request), d')" and "handle_frame request c n = (c', n')"
  shows "drain d c n = (if cn_healthy c' then drain d' c' n' else (d', c', n'))"
  by (subst drain.simps) (simp add: frame_turn_def assms)

text \<open>Emptying the decoder handles the whole frames it holds, and stops inside the next one or at an unhealthy connection.\<close>

lemma drain_frames:
  assumes "sound d" and "unread d @ coming = concat (map wire fs)" and "\<forall>f \<in> set fs. frame_ok f" and "cn_healthy c"
  shows "\<exists>k d' c' n'. drain d c n = (d', c', n') \<and> handle_all (map sealed (take k fs)) c n = (c', n') \<and>
    (cn_healthy c' \<longrightarrow> sound d' \<and> fd_buffer d' = fd_buffer d \<and> unread d' @ coming = concat (map wire (drop k fs)) \<and>
       (coming = [] \<longrightarrow> length fs \<le> k)) \<and>
    (\<not> cn_healthy c' \<longrightarrow> handle_all (map sealed fs) c n = (c', n'))"
  using assms
proof (induction fs arbitrary: d c n)
  case Nil
  then have "decoder_next d = (Inr None, d)"
    by (auto simp: decoder_next_def sound_def unread_def kFrameHeaderSize_def)
  then show ?case using Nil by (intro exI [of _ 0]) (auto dest: drain_stop)
next
  case (Cons f fs)
  have ok: "frame_ok f" "\<not> fd_failed d" "fd_max_payload d = kMaxFramePayload" using Cons.prems by (auto simp: sound_def)
  show ?case
  proof (cases "length (unread d) < length (wire f)")
    case True
    have "decoder_next d = (Inr None, d)"
      using decoder_next_partial [of d coming f "concat (map wire fs)"] True ok Cons.prems(2) by simp
    moreover have "coming \<noteq> []" using True Cons.prems(2) by (auto simp: length_wire dest: arg_cong [of _ _ length])
    ultimately show ?thesis using Cons.prems by (intro exI [of _ 0]) (auto dest: drain_stop)
  next
    case False
    then have "take (length (wire f)) (unread d) = wire f"
      using arg_cong [OF Cons.prems(2), of "take (length (wire f))"] by simp
    then obtain rest where rest: "unread d = wire f @ rest" by (metis append_take_drop_id)
    with Cons.prems(2) have rest: "unread d = wire f @ rest" "rest @ coming = concat (map wire fs)" by simp_all
    define d1 where "d1 = d\<lparr>fd_consumed := fd_consumed d + length (wire f)\<rparr>"
    have next1: "decoder_next d = (Inr (Some (sealed f)), d1)"
      unfolding d1_def by (rule decoder_next_frame [OF ok(2) rest(1) ok(1,3)])
    have d1: "sound d1" "fd_buffer d1 = fd_buffer d" "unread d1 = rest"
      using Cons.prems(1) arg_cong [OF rest(1), of "drop (length (wire f))"]
        arg_cong [OF rest(1), of length] length_wire [of f]
      by (simp_all add: d1_def sound_def unread_def add.commute)
    obtain c1 n1 where h: "handle_frame (sealed f) c n = (c1, n1)" by (cases "handle_frame (sealed f) c n")
    show ?thesis
    proof (cases "cn_healthy c1")
      case False
      then show ?thesis using drain_frame [OF next1 h] h by (intro exI [of _ 1]) simp
    next
      case True
      from Cons.IH [OF d1(1), of c1 n1] rest(2) d1(3) Cons.prems(3) True obtain k d' c' n' where
        "drain d1 c1 n1 = (d', c', n')" "handle_all (map sealed (take k fs)) c1 n1 = (c', n')"
        "cn_healthy c' \<longrightarrow> sound d' \<and> fd_buffer d' = fd_buffer d1 \<and> unread d' @ coming = concat (map wire (drop k fs)) \<and>
           (coming = [] \<longrightarrow> length fs \<le> k)"
        "\<not> cn_healthy c' \<longrightarrow> handle_all (map sealed fs) c1 n1 = (c', n')" by auto
      then show ?thesis using drain_frame [OF next1 h] h True d1(2)
        by (intro exI [of _ "Suc k"] exI [of _ d'] exI [of _ c'] exI [of _ n']) simp
    qed
  qed
qed

lemma push_sound:
  assumes "sound d" and "length (fd_buffer d) + length bs \<le> fd_max_buffered default_decoder"
  shows "\<exists>d'. decoder_push bs d = (Inr (), d') \<and> sound d' \<and> unread d' = unread d @ bs \<and>
    length (fd_buffer d') \<le> length (fd_buffer d) + length bs"
  using assms by (auto simp: decoder_push_def sound_def unread_def Let_def)

lemma handle_all_append:
  "handle_all (fs @ gs) c n = (case handle_all fs c n of (c', n') \<Rightarrow>
     if cn_healthy c' then handle_all gs c' n' else (c', n'))" if "cn_healthy c"
  using that by (induction fs arbitrary: c n) (auto split: prod.split)

lemma serve_frames:
  assumes "sound d" and "unread d @ concat chunks = concat (map wire fs)" and "\<forall>f \<in> set fs. frame_ok f"
    and "cn_healthy c" and "\<forall>b \<in> set chunks. b \<noteq> []" and "chunks = [] \<longrightarrow> fs = []"
    and "length (fd_buffer d) + length (concat chunks) \<le> fd_max_buffered default_decoder"
  shows "\<exists>d'. serve (map Some chunks) d c n = (d', handle_all (map sealed fs) c n)"
  using assms
proof (induction chunks arbitrary: d c n fs)
  case Nil
  then show ?case by simp
next
  case (Cons b chunks)
  obtain x xs where b: "b = x # xs" using Cons.prems(5) by (cases b) auto
  from push_sound [OF Cons.prems(1), of b] Cons.prems(7) obtain d1 where d1: "decoder_push b d = (Inr (), d1)" "sound d1"
    "unread d1 = unread d @ b" "length (fd_buffer d1) \<le> length (fd_buffer d) + length b" by auto
  from d1(3) Cons.prems(2) have "unread d1 @ concat chunks = concat (map wire fs)" by simp
  from drain_frames [OF d1(2) this Cons.prems(3,4), of n] obtain k d' c' n' where
    r: "drain d1 c n = (d', c', n')" "handle_all (map sealed (take k fs)) c n = (c', n')"
    and go: "cn_healthy c' \<longrightarrow> sound d' \<and> fd_buffer d' = fd_buffer d1 \<and> unread d' @ concat chunks = concat (map wire (drop k fs)) \<and>
       (concat chunks = [] \<longrightarrow> length fs \<le> k)"
    and stop: "\<not> cn_healthy c' \<longrightarrow> handle_all (map sealed fs) c n = (c', n')" by blast
  have step: "serve (map Some (b # chunks)) d c n = (if cn_healthy c' then serve (map Some chunks) d' c' n' else (d', c', n'))"
    using r(1) d1(1) by (simp add: b receive_def)
  show ?case
  proof (cases "cn_healthy c'")
    case False
    then show ?thesis using step stop by simp
  next
    case True
    have all: "handle_all (map sealed fs) c n = handle_all (map sealed (drop k fs)) c' n'"
      using handle_all_append [OF Cons.prems(4), of "map sealed (take k fs)" "map sealed (drop k fs)" n] r(2) True
      by (simp flip: map_append)
    have "\<exists>d''. serve (map Some chunks) d' c' n' = (d'', handle_all (map sealed (drop k fs)) c' n')"
    proof (rule Cons.IH)
      show "\<forall>f \<in> set (drop k fs). frame_ok f" using Cons.prems(3) by (auto dest: in_set_dropD)
      show "length (fd_buffer d') + length (concat chunks) \<le> fd_max_buffered default_decoder"
        using go True d1(4) Cons.prems(7) by simp
    qed (use go True Cons.prems in auto)
    then show ?thesis using step True all by simp
  qed
qed

lemma loop_frames:
  assumes "concat chunks = concat (map wire fs)" and "\<forall>f \<in> set fs. frame_ok f" and "\<forall>b \<in> set chunks. b \<noteq> []"
    and "length (concat chunks) \<le> fd_max_buffered default_decoder"
  shows "connection_loop (map Some chunks) writes n =
    (case handle_all (map sealed fs) (new_conn writes) n of (c, n') \<Rightarrow> end_connection c n')"
proof -
  have "fs = []" if "chunks = []" using that assms(1) length_wire by (cases fs) (auto dest: arg_cong [of _ _ length])
  then have "\<exists>d'. serve (map Some chunks) default_decoder (new_conn writes) n = (d', handle_all (map sealed fs) (new_conn writes) n)"
    using assms by (intro serve_frames) (simp_all add: sound_def default_decoder_def unread_def new_conn_def)
  then show ?thesis by (auto simp: connection_loop_def)
qed

text \<open>C13: how the stream of a connection is cut into reads does not matter. If the peer sends the encodings of a list of
  frames, within the bound of the decoder's buffer, then however they arrive in pieces, the connection
  thread handles exactly these frames in order, up to the first after which the connection is not healthy,
  and then ends the connection.\<close>

theorem stream_served_frame_by_frame:
  assumes "concat chunks = concat (map wire fs)" and "\<forall>f \<in> set fs. frame_ok f" and "\<forall>b \<in> set chunks. b \<noteq> []"
    and "length (concat chunks) \<le> fd_max_buffered default_decoder"
  shows "connection_loop (map Some chunks) writes n =
    (case handle_all (map sealed fs) (new_conn writes) n of (c, n') \<Rightarrow> end_connection c n')"
  by (rule loop_frames [OF assms])

theorem stream_served_frame_by_frame_witness:
  "connection_loop (map Some [take 30 (wire hello_frame), drop 30 (wire hello_frame)]) [] (sy_node demo_system) =
    (case handle_all (map sealed [hello_frame]) (new_conn []) (sy_node demo_system) of (c, n') \<Rightarrow> end_connection c n')"
proof (rule stream_served_frame_by_frame)
  have len: "80 \<le> length (wire hello_frame)" "length (wire hello_frame) \<le> 180"
    using hello_payload(2) by (simp_all add: length_wire)
  show "concat [take 30 (wire hello_frame), drop 30 (wire hello_frame)] = concat (map wire [hello_frame])" by simp
  show "\<forall>f \<in> set [hello_frame]. frame_ok f" using hello_frame_ok by simp
  have "take 30 (wire hello_frame) \<noteq> []" "drop 30 (wire hello_frame) \<noteq> []" using len by auto
  then show "\<forall>b \<in> set [take 30 (wire hello_frame), drop 30 (wire hello_frame)]. b \<noteq> []" by simp
  show "length (concat [take 30 (wire hello_frame), drop 30 (wire hello_frame)]) \<le> fd_max_buffered default_decoder"
    using len by (simp add: default_decoder_def kMaxFramePayload_def)
qed

section \<open>Peers the fabric has not accepted\<close>

definition names_fenced :: "Fabric \<Rightarrow> Frame \<Rightarrow> bool" where
  "names_fenced f request \<longleftrightarrow>
     (\<forall>hello. fm_type request = Ft_Hello \<longrightarrow> decode_hello (fm_payload request) = Inr hello \<longrightarrow>
        is_fenced_in (hm_publisher hello) (hm_boot hello) f)"

lemma register_fenced:
  assumes "is_fenced_in p b f"
  shows "\<exists>er. register_publisher p b requested f e = (Inl er, f, e)"
  using assms by (auto simp: register_publisher_def ensure_open_def)

lemma stranger_frame:
  assumes "names_fenced (nd_fabric n) request" and "\<not> cn_registered c" and "handle_frame request c n = (c', n')"
  shows "nd_fabric n' = nd_fabric n \<and> \<not> cn_registered c'"
proof -
  define c1 where "c1 = c\<lparr>cn_frames := cn_frames c + 1\<rparr>"
  define n1 where "n1 = n\<lparr>nd_frames_processed := nd_frames_processed n + 1\<rparr>"
  have n1: "nd_fabric n1 = nd_fabric n" "\<not> cn_registered c1" using assms(2) by (simp_all add: n1_def c1_def)
  have hello: "nd_fabric n' = nd_fabric n \<and> \<not> cn_registered c'"
    if "fm_type request = Ft_Hello" and h: "handle_hello request c1 n1 = (c', n')"
  proof (cases "decode_hello (fm_payload request)")
    case (Inl er)
    then show ?thesis using h n1 by (auto simp: handle_hello_def)
  next
    case (Inr hello)
    then have "is_fenced_in (hm_publisher hello) (hm_boot hello) (nd_fabric n1)"
      using assms(1) that(1) n1 by (simp add: names_fenced_def)
    from register_fenced [OF this] obtain er where
      "register_publisher (hm_publisher hello) (hm_boot hello) (hm_requested hello) (nd_fabric n1) (nd_env n1) =
         (Inl er, nd_fabric n1, nd_env n1)" by blast
    then show ?thesis using h n1 Inr by (auto simp: handle_hello_def Let_def split: prod.splits sum.splits)
  qed
  have other: "handle_other request c1 = c' \<Longrightarrow> \<not> cn_registered c'"
    using n1 by (auto simp: handle_other_def split: sum.splits)
  show ?thesis
    using assms(3) hello other n1 unfolding handle_frame_def Let_def c1_def [symmetric] n1_def [symmetric]
    by (auto simp: handle_evidence_def handle_heartbeat_def handle_goodbye_def split: if_splits)
qed

lemma stranger_frames:
  assumes "\<forall>f \<in> set fs. names_fenced (nd_fabric n) f" and "\<not> cn_registered c" and "handle_all fs c n = (c', n')"
  shows "nd_fabric n' = nd_fabric n \<and> \<not> cn_registered c'"
  using assms
proof (induction fs arbitrary: c n)
  case (Cons f fs)
  obtain c1 n1 where h: "handle_frame f c n = (c1, n1)" by (cases "handle_frame f c n")
  from stranger_frame [OF _ Cons.prems(2) h] Cons.prems(1)
  have s: "nd_fabric n1 = nd_fabric n" "\<not> cn_registered c1" by auto
  show ?case
  proof (cases "cn_healthy c1")
    case True
    then have "handle_all fs c1 n1 = (c', n')" using Cons.prems(3) h by simp
    then show ?thesis using Cons.IH [of n1 c1] Cons.prems(1) s by simp
  next
    case False
    then show ?thesis using Cons.prems(3) h s by simp
  qed
qed simp

text \<open>C14: a zombie cannot touch the fabric. If every decodable Hello in the stream of a connection names an incarnation that is
  fenced, or there is none, then whatever else the peer sends, evidence, heartbeats and goodbyes of any
  content included, and however it is cut into reads, the connection leaves the fabric exactly as it was.\<close>

theorem fenced_peer_is_inert:
  assumes "concat chunks = concat (map wire fs)" and "\<forall>f \<in> set fs. frame_ok f" and "\<forall>b \<in> set chunks. b \<noteq> []"
    and "length (concat chunks) \<le> fd_max_buffered default_decoder"
    and "\<forall>f \<in> set fs. \<forall>hello. fm_type f = Ft_Hello \<longrightarrow> decode_hello (fm_payload f) = Inr hello \<longrightarrow>
      is_fenced_in (hm_publisher hello) (hm_boot hello) (nd_fabric n)"
  shows "nd_fabric (connection_loop (map Some chunks) writes n) = nd_fabric n"
proof -
  obtain d c n' where run: "serve (map Some chunks) default_decoder (new_conn writes) n = (d, c, n')"
    by (metis prod_cases3)
  have "fs = []" if "chunks = []" using that assms(1) length_wire by (cases fs) (auto dest: arg_cong [of _ _ length])
  then have "\<exists>d'. serve (map Some chunks) default_decoder (new_conn writes) n = (d', handle_all (map sealed fs) (new_conn writes) n)"
    using assms by (intro serve_frames) (simp_all add: sound_def default_decoder_def unread_def new_conn_def)
  with run have all: "handle_all (map sealed fs) (new_conn writes) n = (c, n')" by auto
  have "\<forall>f \<in> set (map sealed fs). names_fenced (nd_fabric n) f"
    using assms(5) by (auto simp: names_fenced_def fm_type_def sealed_def sealed_header_def Let_def)
  from stranger_frames [OF this _ all] have "nd_fabric n' = nd_fabric n \<and> \<not> cn_registered c" by (simp add: new_conn_def)
  with run show ?thesis by (simp add: connection_loop_def end_connection_def)
qed

theorem fenced_peer_is_inert_witness:
  "\<exists>n. is_fenced_in 2 1 (nd_fabric n) \<and>
     nd_fabric (connection_loop [Some (wire hello_frame), Some (wire demo_frame)] [] n) = nd_fabric n"
proof -
  obtain s where s: "is_fenced_in 2 1 (nd_fabric (sy_node (drop_connection 0 s)))"
    using dropped_demo by blast
  let ?n = "sy_node (drop_connection 0 s)" and ?chunks = "[wire hello_frame, wire demo_frame]"
  have len: "length (wire hello_frame) \<le> 180" "length (wire demo_frame) = 85" "wire hello_frame \<noteq> []" "wire demo_frame \<noteq> []"
    using hello_payload(2) length_wire [of hello_frame] by (auto simp: length_wire demo_frame_def simp flip: length_0_conv)
  have plain: "fm_type demo_frame \<noteq> Ft_Hello" by (simp add: demo_frame_def fm_type_def)
  have "nd_fabric (connection_loop (map Some ?chunks) [] ?n) = nd_fabric ?n"
  proof (rule fenced_peer_is_inert)
    show "concat ?chunks = concat (map wire [hello_frame, demo_frame])" by simp
    show "\<forall>f \<in> set [hello_frame, demo_frame]. frame_ok f" using hello_frame_ok(1) demo_frame_ok by simp
    show "\<forall>b \<in> set ?chunks. b \<noteq> []" using len by simp
    show "length (concat ?chunks) \<le> fd_max_buffered default_decoder"
      using len by (simp add: default_decoder_def kMaxFramePayload_def)
    show "\<forall>f \<in> set [hello_frame, demo_frame]. \<forall>hello. fm_type f = Ft_Hello \<longrightarrow> decode_hello (fm_payload f) = Inr hello \<longrightarrow>
        is_fenced_in (hm_publisher hello) (hm_boot hello) (nd_fabric ?n)"
      using s plain hello_payload(1) by (simp add: demo_hello_def)
  qed
  with s show ?thesis by auto
qed

section \<open>Peers that speak for others\<close>

text \<open>
  A connection remembers its last Hello only. The incarnation of an earlier one is neither unregistered nor
  fenced when the connection ends.
\<close>

lemma second_hello_forgets_the_first:
  assumes inv: "fabric_inv (nd_fabric n)" and c: "cn_registered c" and hello: "decode_hello (fm_payload request) = Inr hello"
    and other: "hm_publisher hello \<noteq> cn_publisher c \<or> hm_boot hello \<noteq> cn_boot c"
    and run: "handle_hello request c n = (c', n')"
    and free: "\<not> is_fenced_in (cn_publisher c) (cn_boot c) (nd_fabric n)"
  shows "\<not> is_fenced_in (cn_publisher c) (cn_boot c) (nd_fabric (end_connection c' n'))"
proof -
  obtain r f e1 where reg: "register_publisher (hm_publisher hello) (hm_boot hello) (hm_requested hello) (nd_fabric n) (nd_env n) = (r, f, e1)"
    by (metis prod_cases3)
  have n': "nd_fabric n' = f" and c': "cn_publisher c' = hm_publisher hello" "cn_boot c' = hm_boot hello"
    using run reg hello by (auto simp: handle_hello_def Let_def split: prod.splits sum.splits)
  have "face f = face (nd_fabric n)" by (rule face_register [OF reg])
  then have free': "\<not> is_fenced_in (cn_publisher c) (cn_boot c) (nd_fabric n')"
    using free n' by (simp add: face_def is_fenced_in_def)
  have inv': "fabric_inv (nd_fabric n')" using inv_register [OF inv reg] n' by simp
  show ?thesis
  proof (cases "cn_registered c'")
    case False
    then show ?thesis using free' by (simp add: end_connection_def)
  next
    case True
    obtain r2 f2 e2 where u: "unregister_publisher (cn_publisher c') (cn_boot c') FR_PublisherDeath
        ''connection ended without a goodbye'' (nd_fabric n') (nd_env n') = (r2, f2, e2)" by (metis prod_cases3)
    have "f2 = nd_fabric n' \<or> (\<exists>r e. fence_publisher_locked (cn_publisher c') (cn_boot c') FR_PublisherDeath
        ''connection ended without a goodbye'' (nd_fabric n') (nd_env n') = (r, f2, e))"
      using u by (auto simp: unregister_publisher_def split: sum.splits prod.splits)
    then have "\<not> is_fenced_in (cn_publisher c) (cn_boot c) f2"
      using free' other c' fence_locked_keeps [OF inv'] by metis
    then show ?thesis using True u by (simp add: end_connection_def)
  qed
qed

text \<open>The identity of the connection plays no part in what its evidence frames do to the node.\<close>

lemma evidence_ignores_the_connection:
  "snd (handle_evidence request (c\<lparr>cn_publisher := p, cn_boot := b\<rparr>) n) = snd (handle_evidence request c n)"
  by (simp add: handle_evidence_def Let_def split: sum.split prod.split)

end
