(* ===== verification/NCF_Publisher.thy ===== *)
theory NCF_Publisher
  imports NCF_Session
begin

text \<open>
  The publisher process, \<^verbatim>\<open>src/runtime/publisher.cpp\<close>: the tick bridge, the scripted samples, the handshake, the batches
  with their acknowledgements and the goodbye, over a scripted channel and clock; and what its stream makes
  the coordinator do. Sleeping between the batches is not modelled.
\<close>

section \<open>Ticks of the other process\<close>

text \<open>The offset is a signed 64-bit value in its word.\<close>

record TickBridge =
  br_offset :: u64
  br_aligned :: bool

definition stamp :: "TickBridge \<Rightarrow> Tick \<Rightarrow> Tick" where
  "stamp b local =
     (if \<not> br_aligned b then local
      else let shifted = local + br_offset b in if sint shifted \<le> 0 then 1 else shifted)"

definition midpoint :: "Tick \<Rightarrow> Tick \<Rightarrow> Tick" where
  "midpoint before after = before + (after - before) div 2"

definition align :: "Tick \<Rightarrow> Tick \<Rightarrow> Tick \<Rightarrow> TickBridge \<Rightarrow> TickBridge" where
  "align before after tick b =
     (if tick \<noteq> kNoTick then \<lparr>br_offset = tick - midpoint before after, br_aligned = True\<rparr> else b)"

section \<open>Scripts\<close>

record PublisherScript =
  sc_domain :: DomainId
  sc_resources :: "ResourceId list"
  sc_samples :: u64
  sc_utilization_ppm :: u64
  sc_queue_ppm :: u64
  sc_buffer_ppm :: u64
  sc_loss_ppm :: u64
  sc_latency_micros :: u64
  sc_jitter_micros :: u64
  sc_residual_bps :: u64
  sc_egress_bps :: u64
  sc_utilization_step_ppm :: u64
  sc_loss_step_ppm :: u64
  sc_queue_step_ppm :: u64
  sc_generation_start :: u64
  sc_send_hello :: bool
  sc_send_goodbye :: bool
  sc_request_full_authority :: bool
  sc_repeats :: u64
  sc_skip_handshake :: bool

record PublisherOptions =
  pu_endpoint :: string
  pu_publisher :: PublisherId
  pu_boot :: BootId
  pu_agent :: string

record PublisherReport =
  rp_connected :: bool
  rp_hello_accepted :: bool
  rp_hello_reason :: string
  rp_epoch :: EpochId
  rp_authority_generation :: AuthorityGeneration
  rp_granted :: AuthoritySet
  rp_frames_sent :: u64
  rp_frames_acked :: u64
  rp_samples_sent :: u64
  rp_errors :: u64
  rp_fences_received :: u64
  rp_detail :: string

definition new_report :: PublisherReport where
  "new_report =
     \<lparr>rp_connected = True, rp_hello_accepted = False, rp_hello_reason = [], rp_epoch = 0, rp_authority_generation = 0,
      rp_granted = 0, rp_frames_sent = 0, rp_frames_acked = 0, rp_samples_sent = 0, rp_errors = 0, rp_fences_received = 0,
      rp_detail = []\<rparr>"

text \<open>The products wrap where the source's signed ones may overflow.\<close>

definition metric_value :: "u64 \<Rightarrow> u64 \<Rightarrow> nat \<Rightarrow> u64" where
  "metric_value base step index =
     (let v = base + step * of_nat index in if sint v < 0 then 0 else v)"

definition put_metric :: "MetricKind \<times> u64 \<Rightarrow> MetricSet \<Rightarrow> MetricSet" where
  "put_metric kv ms =
     (if snd kv = 0 then ms else case ms_set (fst kv) (snd kv) ms of Inl _ \<Rightarrow> ms | Inr ms' \<Rightarrow> ms')"

definition sample_metrics :: "PublisherScript \<Rightarrow> nat \<Rightarrow> MetricSet" where
  "sample_metrics sc index =
     fold put_metric
       [(MK_UtilizationPpm, metric_value (sc_utilization_ppm sc) (sc_utilization_step_ppm sc) index),
        (MK_QueueOccupancyPpm, metric_value (sc_queue_ppm sc) (sc_queue_step_ppm sc) index),
        (MK_BufferUtilizationPpm, sc_buffer_ppm sc),
        (MK_LossRatePpm, metric_value (sc_loss_ppm sc) (sc_loss_step_ppm sc) index),
        (MK_LatencyMicros, sc_latency_micros sc),
        (MK_JitterMicros, sc_jitter_micros sc),
        (MK_ResidualCapacityBps, sc_residual_bps sc),
        (MK_EgressRateBps, sc_egress_bps sc)] []"

section \<open>The state of a run\<close>

text \<open>What the channel and the clock will do, and what was written in full.\<close>

record Link =
  li_connect :: void_result
  li_reads :: "bytes option list"
  li_writes :: "bool list"
  li_clock :: "Tick list"
  li_sent :: "bytes list"

record Pub =
  pb_report :: PublisherReport
  pb_decoder :: FrameDecoder
  pb_sequence :: u64
  pb_bridge :: TickBridge
  pb_link :: Link

definition local_now :: "Pub \<Rightarrow> Tick \<times> Pub" where
  "local_now p =
     (case li_clock (pb_link p) of
        [] \<Rightarrow> (0, p)
      | t # ts \<Rightarrow> (t, p\<lparr>pb_link := (pb_link p)\<lparr>li_clock := ts\<rparr>\<rparr>))"

definition link_write :: "bytes \<Rightarrow> Pub \<Rightarrow> void_result \<times> Pub" where
  "link_write bs p =
     (let l = pb_link p in
      if (case li_writes l of [] \<Rightarrow> True | ok # _ \<Rightarrow> ok)
      then (Inr (), p\<lparr>pb_link := l\<lparr>li_writes := drop 1 (li_writes l), li_sent := li_sent l @ [bs]\<rparr>\<rparr>)
      else (Inl Err_IoError, p\<lparr>pb_link := l\<lparr>li_writes := drop 1 (li_writes l)\<rparr>\<rparr>))"

definition publisher_frame :: "PublisherOptions \<Rightarrow> FrameType \<Rightarrow> EpochId \<Rightarrow> u64 \<Rightarrow> u64 \<Rightarrow> bytes \<Rightarrow> Frame" where
  "publisher_frame po type epoch sequence nonce payload =
     \<lparr>fm_header = \<lparr>fh_magic = kFrameMagic, fh_format = 0, fh_type = ft_u16 type, fh_flags = 0, fh_reserved = 0,
        fh_payload_len = 0, fh_header_crc = 0, fh_payload_crc = 0, fh_epoch = epoch, fh_boot = pu_boot po,
        fh_publisher = pu_publisher po, fh_connection = 0, fh_sequence = sequence, fh_nonce = nonce, fh_reserved2 = 0,
        fh_reserved3 = 0\<rparr>, fm_payload = payload\<rparr>"

text \<open>Encode and write; both failures return their status.\<close>

definition send_frame :: "Frame \<Rightarrow> Pub \<Rightarrow> void_result \<times> Pub" where
  "send_frame f p = (case frame_encode f [] of Inl er \<Rightarrow> (Inl er, p) | Inr encoded \<Rightarrow> link_write encoded p)"

section \<open>Waiting for replies\<close>

text \<open>
  Both waiting loops have this shape. A handler answers with the result that ends the run, if any, and whether the
  awaited reply has come; the frames of one read are all handled.
\<close>

type_synonym Reply = "PublisherReport result option \<times> bool \<times> Pub"

function replies :: "(Frame \<Rightarrow> Pub \<Rightarrow> Reply) \<Rightarrow> bool \<Rightarrow> FrameDecoder \<Rightarrow> Pub \<Rightarrow> Reply" where
  "replies on_frame got d p =
     (case decoder_next d of
        (Inl er, d') \<Rightarrow> (Some (Inl er), got, p\<lparr>pb_decoder := d'\<rparr>)
      | (Inr None, d') \<Rightarrow> (None, got, p\<lparr>pb_decoder := d'\<rparr>)
      | (Inr (Some response), d') \<Rightarrow>
          (case on_frame response p of
             (Some r, g, p') \<Rightarrow> (Some r, got \<or> g, p'\<lparr>pb_decoder := d'\<rparr>)
           | (None, g, p') \<Rightarrow> replies on_frame (got \<or> g) d' p'))"
  by pat_completeness auto

termination replies
  by (relation "measure (\<lambda>(on_frame, got, d, p). pending d)") (auto dest: decoder_next_consumes [OF sym])

declare replies.simps [simp del]

fun await :: "(Frame \<Rightarrow> Pub \<Rightarrow> Reply) \<Rightarrow> bytes option list \<Rightarrow> Pub \<Rightarrow> PublisherReport result option \<times> bytes option list \<times> Pub" where
  "await on_frame [] p = (Some (Inl Err_Unavailable), [], p)"
| "await on_frame (None # reads) p = (Some (Inl Err_Unavailable), reads, p)"
| "await on_frame (Some [] # reads) p = (Some (Inl Err_Unavailable), reads, p)"
| "await on_frame (Some bs # reads) p =
     (case decoder_push bs (pb_decoder p) of
        (Inl er, d) \<Rightarrow> (Some (Inl er), reads, p\<lparr>pb_decoder := d\<rparr>)
      | (Inr _, d) \<Rightarrow>
          (case replies on_frame False d p of
             (Some r, _, p') \<Rightarrow> (Some r, reads, p')
           | (None, got, p') \<Rightarrow> if got then (None, reads, p') else await on_frame reads p'))"

definition await_reply :: "(Frame \<Rightarrow> Pub \<Rightarrow> Reply) \<Rightarrow> Pub \<Rightarrow> PublisherReport result option \<times> Pub" where
  "await_reply on_frame p =
     (case await on_frame (li_reads (pb_link p)) p of
        (r, reads, p') \<Rightarrow> (r, p'\<lparr>pb_link := (pb_link p')\<lparr>li_reads := reads\<rparr>\<rparr>))"

section \<open>The handshake\<close>

definition on_hello_ack :: "Tick \<Rightarrow> Frame \<Rightarrow> Pub \<Rightarrow> Reply" where
  "on_hello_ack before response p =
     (if fm_type response \<noteq> Ft_HelloAck then (None, False, p)
      else case decode_hello_ack (fm_payload response) of
          Inl er \<Rightarrow> (Some (Inl er), False, p)
        | Inr ack \<Rightarrow>
            (case local_now p of
               (after, p1) \<Rightarrow>
                 let report = (pb_report p1)\<lparr>rp_hello_accepted := ha_accepted ack, rp_hello_reason := ha_reason ack,
                       rp_epoch := ha_epoch ack, rp_authority_generation := ha_authority_generation ack,
                       rp_granted := ha_granted ack\<rparr>;
                     p2 = p1\<lparr>pb_report := report, pb_bridge := align before after (ha_coordinator_tick ack) (pb_bridge p1)\<rparr>
                 in if ha_accepted ack then (None, True, p2)
                    else let refused = report\<lparr>rp_errors := rp_errors report + 1, rp_detail := ha_reason ack\<rparr>
                         in (Some (Inr refused), True, p2\<lparr>pb_report := refused\<rparr>)))"

definition count_frame :: "Pub \<Rightarrow> Pub" where
  "count_frame p = p\<lparr>pb_report := (pb_report p)\<lparr>rp_frames_sent := rp_frames_sent (pb_report p) + 1\<rparr>\<rparr>"

definition handshake :: "PublisherOptions \<Rightarrow> PublisherScript \<Rightarrow> Pub \<Rightarrow> PublisherReport result option \<times> Pub" where
  "handshake po sc p =
     (case encode_hello \<lparr>hm_publisher = pu_publisher po, hm_boot = pu_boot po, hm_generation = sc_generation_start sc,
             hm_start_sequence = pb_sequence p, hm_requested = aset_all, hm_agent = pu_agent po\<rparr> of
        Inl er \<Rightarrow> (Some (Inl er), p)
      | Inr payload \<Rightarrow>
          (case send_frame (publisher_frame po Ft_Hello 0 (pb_sequence p) (make_nonce (pu_publisher po) (pb_sequence p)) payload) p of
             (Inl er, p1) \<Rightarrow> (Some (Inl er), p1)
           | (Inr _, p1) \<Rightarrow>
               (case local_now (count_frame p1) of (before, p2) \<Rightarrow> await_reply (on_hello_ack before) p2)))"

section \<open>Evidence\<close>

definition publisher_sample ::
  "PublisherOptions \<Rightarrow> PublisherScript \<Rightarrow> EpochId \<Rightarrow> u64 \<Rightarrow> Tick \<Rightarrow> ProvenanceId \<Rightarrow> nat \<Rightarrow> ResourceId \<Rightarrow> EvidenceSample" where
  "publisher_sample po sc epoch sequence tick provenance index resource =
     (let s = \<lparr>es_resource = resource, es_queue = 0, es_metrics = sample_metrics sc index, es_publisher = pu_publisher po,
            es_publisher_boot = pu_boot po, es_epoch = epoch, es_generation = sc_generation_start sc + of_nat index,
            es_sequence = sequence, es_observed_tick = tick, es_received_tick = kNoTick, es_provenance = provenance,
            es_snapshot = 0, es_flags = 0\<rparr>
      in s\<lparr>es_snapshot := compute_snapshot_id s\<rparr>)"

definition publisher_batch ::
  "PublisherOptions \<Rightarrow> PublisherScript \<Rightarrow> EpochId \<Rightarrow> u64 \<Rightarrow> Tick \<Rightarrow> nat \<Rightarrow> EvidenceBatch" where
  "publisher_batch po sc epoch sequence tick index =
     (let provenance = compute_provenance_id PK_RemotePublisher (pu_publisher po) (pu_boot po) epoch tick;
          b = \<lparr>eb_id = 0, eb_epoch = epoch, eb_provenance = provenance, eb_submitted_tick = tick,
               eb_samples = map (publisher_sample po sc epoch sequence tick provenance index) (sc_resources sc)\<rparr>
      in b\<lparr>eb_id := compute_batch_id b\<rparr>)"

definition on_evidence_ack :: "Frame \<Rightarrow> Pub \<Rightarrow> Reply" where
  "on_evidence_ack response p =
     (let report = pb_report p in
      if fm_type response = Ft_EvidenceAck then
        (None, True, p\<lparr>pb_report := report\<lparr>rp_frames_acked := rp_frames_acked report + 1\<rparr>\<rparr>)
      else if fm_type response = Ft_FenceNotice then
        let fenced = report\<lparr>rp_fences_received := rp_fences_received report + 1,
              rp_detail := (case decode_fence_notice (fm_payload response) of Inr notice \<Rightarrow> fn_detail notice | Inl _ \<Rightarrow> ''fenced'')\<rparr>
        in (Some (Inr fenced), False, p\<lparr>pb_report := fenced\<rparr>)
      else if fm_type response = Ft_ErrorNotice then
        let failed = report\<lparr>rp_errors := rp_errors report + 1,
              rp_detail := (case decode_error (fm_payload response) of Inr e \<Rightarrow> em_message e | Inl _ \<Rightarrow> ''protocol error'')\<rparr>
        in (Some (Inr failed), False, p\<lparr>pb_report := failed\<rparr>)
      else (None, False, p))"

definition send_batch :: "PublisherOptions \<Rightarrow> PublisherScript \<Rightarrow> nat \<Rightarrow> Pub \<Rightarrow> PublisherReport result option \<times> Pub" where
  "send_batch po sc index p0 =
     (case local_now p0 of
        (local, p) \<Rightarrow>
          let epoch = rp_epoch (pb_report p);
              batch = publisher_batch po sc epoch (pb_sequence p) (stamp (pb_bridge p) local) index
          in if sample_metrics sc index = [] then (Some (Inl Err_InvalidArgument), p)
             else case encode_evidence batch of
                 Inl er \<Rightarrow> (Some (Inl er), p)
               | Inr payload \<Rightarrow>
                   (case send_frame (publisher_frame po Ft_Evidence epoch (pb_sequence p)
                           (make_nonce (pu_publisher po) (pb_sequence p)) payload) p of
                      (Inl er, p1) \<Rightarrow> (Some (Inl er), p1)
                    | (Inr _, p1) \<Rightarrow>
                        let p2 = count_frame p1;
                            p3 = p2\<lparr>pb_report := (pb_report p2)\<lparr>rp_samples_sent := rp_samples_sent (pb_report p2) +
                                   of_nat (length (eb_samples batch))\<rparr>, pb_sequence := pb_sequence p2 + 1\<rparr>
                        in await_reply on_evidence_ack p3))"

fun send_batches :: "PublisherOptions \<Rightarrow> PublisherScript \<Rightarrow> nat list \<Rightarrow> Pub \<Rightarrow> PublisherReport result option \<times> Pub" where
  "send_batches po sc [] p = (None, p)"
| "send_batches po sc (index # indices) p =
     (case send_batch po sc index p of
        (Some r, p') \<Rightarrow> (Some r, p')
      | (None, p') \<Rightarrow> send_batches po sc indices p')"

definition goodbye :: "PublisherOptions \<Rightarrow> Pub \<Rightarrow> Pub" where
  "goodbye po p =
     (case send_frame (publisher_frame po Ft_Goodbye (rp_epoch (pb_report p)) (pb_sequence p) 0 []) p of
        (Inl _, p1) \<Rightarrow> p1
      | (Inr _, p1) \<Rightarrow> count_frame p1)"

definition run_publisher :: "PublisherOptions \<Rightarrow> PublisherScript \<Rightarrow> Link \<Rightarrow> PublisherReport result \<times> Link" where
  "run_publisher po sc link =
     (if pu_endpoint po = [] then (Inl Err_InvalidArgument, link)
      else if \<not> id_valid (pu_publisher po) \<or> \<not> id_valid (pu_boot po) then (Inl Err_InvalidArgument, link)
      else if sc_resources sc = [] then (Inl Err_InvalidArgument, link)
      else if \<not> id_valid (sc_domain sc) then (Inl Err_InvalidArgument, link)
      else case li_connect link of
          Inl er \<Rightarrow> (Inl er, link)
        | Inr _ \<Rightarrow>
            let p0 = \<lparr>pb_report = new_report, pb_decoder = default_decoder, pb_sequence = 1,
                  pb_bridge = \<lparr>br_offset = 0, br_aligned = False\<rparr>, pb_link = link\<rparr>;
                (h, p1) = (if sc_send_hello sc \<and> \<not> sc_skip_handshake sc then handshake po sc p0 else (None, p0))
            in case h of
                 Some r \<Rightarrow> (r, pb_link p1)
               | None \<Rightarrow>
                   (case send_batches po sc [0..<unat (sc_samples sc * sc_repeats sc)] p1 of
                      (Some r, p2) \<Rightarrow> (r, pb_link p2)
                    | (None, p2) \<Rightarrow>
                        let p3 = (if sc_send_goodbye sc then goodbye po p2 else p2)
                        in (Inr (pb_report p3), pb_link p3)))"

section \<open>What a publisher says\<close>

lemma put_metric_inv: "ms_inv ms \<Longrightarrow> ms_inv (put_metric kv ms)"
  using ms_set_Inr(1) by (auto simp: put_metric_def split: sum.split)

lemma sample_metrics_inv: "ms_inv (sample_metrics sc index)"
proof -
  have "ms_inv (fold put_metric kvs ms)" if "ms_inv ms" for kvs ms
    using that by (induction kvs arbitrary: ms) (auto intro: put_metric_inv)
  then show ?thesis unfolding sample_metrics_def using ms_inv_Nil by blast
qed

text \<open>
  A frame of this publisher: its header names it, a hello is sent under no epoch and every other frame under the given one,
  and evidence is about the publisher itself under that epoch.
\<close>

definition speaks_for :: "PublisherOptions \<Rightarrow> PublisherScript \<Rightarrow> EpochId \<Rightarrow> Frame \<Rightarrow> bool" where
  "speaks_for po sc epoch f \<longleftrightarrow> frame_ok f \<and> fh_publisher (fm_header f) = pu_publisher po \<and> fh_boot (fm_header f) = pu_boot po \<and>
     fm_type f \<in> {Ft_Hello, Ft_Evidence, Ft_Goodbye} \<and> fh_epoch (fm_header f) = (if fm_type f = Ft_Hello then 0 else epoch) \<and>
     (fm_type f = Ft_Evidence \<longrightarrow> (\<exists>b. encode_evidence b = Inr (fm_payload f) \<and> eb_epoch b = epoch \<and>
        (\<forall>s \<in> set (eb_samples b). es_publisher s = pu_publisher po \<and> es_publisher_boot s = pu_boot po \<and>
           es_epoch s = epoch \<and> es_sequence s = fh_sequence (fm_header f) \<and> ms_inv (es_metrics s) \<and>
           es_resource s \<in> set (sc_resources sc))))"

definition evidence_sequences :: "Frame list \<Rightarrow> u64 list" where
  "evidence_sequences fs = map (\<lambda>f. fh_sequence (fm_header f)) (filter (\<lambda>f. fm_type f = Ft_Evidence) fs)"

definition spoken :: "PublisherOptions \<Rightarrow> PublisherScript \<Rightarrow> EpochId \<Rightarrow> Pub \<Rightarrow> bool" where
  "spoken po sc epoch p \<longleftrightarrow> (\<exists>fs k. li_sent (pb_link p) = map wire fs \<and> (\<forall>f \<in> set fs. speaks_for po sc epoch f) \<and>
     evidence_sequences fs = map of_nat [1..<Suc k] \<and> pb_sequence p = of_nat (Suc k))"

definition same_talk :: "Pub \<Rightarrow> Pub \<Rightarrow> bool" where
  "same_talk p p' \<longleftrightarrow> li_sent (pb_link p') = li_sent (pb_link p) \<and> pb_sequence p' = pb_sequence p"

lemma same_talk_spoken: "same_talk p p' \<Longrightarrow> spoken po sc epoch p' = spoken po sc epoch p"
  by (simp add: same_talk_def spoken_def)

lemma same_talk_trans: "same_talk p q \<Longrightarrow> same_talk q r \<Longrightarrow> same_talk p r"
  by (simp add: same_talk_def)

lemma same_talk_now: "local_now p = (t, p') \<Longrightarrow> same_talk p p'"
  by (auto simp: local_now_def same_talk_def split: list.splits)

lemma same_talk_count [simp]: "same_talk p (count_frame p)"
  by (simp add: count_frame_def same_talk_def)

text \<open>What the handler keeps, waiting keeps, when it is not about the decoder or the reads.\<close>

lemma replies_keeps:
  assumes "replies on_frame got d p = (r, g, p')"
    and "\<And>f p r g p'. on_frame f p = (r, g, p') \<Longrightarrow> v p' = v p" and "\<And>p d. v (p\<lparr>pb_decoder := d\<rparr>) = v p"
  shows "v p' = v p"
  using assms
proof (induction on_frame got d p rule: replies.induct)
  case (1 on_frame got d p)
  note run = "1.prems"(1) [unfolded replies.simps [of on_frame got d p]]
  note keep = "1.prems"(2,3)
  show ?case
  proof (cases "fst (decoder_next d)")
    case (Inl er)
    then show ?thesis using run by (auto simp: keep(2) split: prod.splits)
  next
    case (Inr found)
    show ?thesis
    proof (cases found)
      case None
      then show ?thesis using run Inr by (auto simp: keep(2) split: prod.splits)
    next
      case (Some response)
      obtain d' where n: "decoder_next d = (Inr (Some response), d')" using Inr Some by (cases "decoder_next d") auto
      obtain a b p1 where h: "on_frame response p = (a, b, p1)" by (metis prod_cases3)
      show ?thesis
      proof (cases a)
        case (Some res)
        then show ?thesis using run n h keep(1) [OF h] by (auto simp: keep(2))
      next
        case None
        then have "replies on_frame (got \<or> b) d' p1 = (r, g, p')" using run n h by simp
        with "1.IH" [OF n [symmetric] refl refl h [symmetric]] None keep h show ?thesis by (metis prod.collapse)
      qed
    qed
  qed
qed

lemma await_keeps:
  assumes "await on_frame reads p = (r, reads', p')"
    and "\<And>f p r g p'. on_frame f p = (r, g, p') \<Longrightarrow> v p' = v p" and "\<And>p d. v (p\<lparr>pb_decoder := d\<rparr>) = v p"
  shows "v p' = v p"
  using assms
proof (induction on_frame reads p rule: await.induct)
  case (4 on_frame b bs reads p)
  note keep = "4.prems"(2,3)
  show ?case
  proof (cases "decoder_push (b # bs) (pb_decoder p)")
    case (Pair pushed d)
    show ?thesis
    proof (cases pushed)
      case (Inl er)
      then show ?thesis using "4.prems"(1) Pair keep(2) by auto
    next
      case (Inr u)
      obtain a g p1 where rep: "replies on_frame False d p = (a, g, p1)" by (metis prod_cases3)
      have t: "v p1 = v p" by (rule replies_keeps [OF rep keep])
      show ?thesis
      proof (cases "a = None \<and> \<not> g")
        case True
        then have run: "await on_frame reads p1 = (r, reads', p')" using "4.prems"(1) Pair Inr rep by simp
        have "v p' = v p1"
          by (rule "4.IH" [OF Pair [symmetric] Inr rep [symmetric] _ refl _ run keep]) (use True in simp_all)
        then show ?thesis using t by simp
      next
        case False
        then show ?thesis using "4.prems"(1) Pair Inr rep t by (auto split: option.splits)
      qed
    qed
  qed
qed auto

definition listens :: "(Frame \<Rightarrow> Pub \<Rightarrow> Reply) \<Rightarrow> bool" where
  "listens on_frame \<longleftrightarrow> (\<forall>f p r g p'. on_frame f p = (r, g, p') \<longrightarrow> same_talk p p')"

lemma await_reply_talk:
  assumes "listens on_frame" and "await_reply on_frame p = (r, p')"
  shows "same_talk p p'"
proof -
  obtain reads p1 where w: "await on_frame (li_reads (pb_link p)) p = (r, reads, p1)"
    "p' = p1\<lparr>pb_link := (pb_link p1)\<lparr>li_reads := reads\<rparr>\<rparr>"
    using assms(2) by (auto simp: await_reply_def split: prod.splits)
  have "(li_sent (pb_link p1), pb_sequence p1) = (li_sent (pb_link p), pb_sequence p)"
    by (rule await_keeps [OF w(1), of "\<lambda>p. (li_sent (pb_link p), pb_sequence p)"])
      (use assms(1) in \<open>auto simp: listens_def same_talk_def\<close>)
  with w(2) show ?thesis by (simp add: same_talk_def)
qed

text \<open>The epoch comes from the acknowledgement of the hello and from nowhere else.\<close>

lemma await_evidence_epoch:
  assumes "await_reply on_evidence_ack p = (r, p')"
  shows "rp_epoch (pb_report p') = rp_epoch (pb_report p)"
proof -
  obtain reads p1 where w: "await on_evidence_ack (li_reads (pb_link p)) p = (r, reads, p1)"
    "p' = p1\<lparr>pb_link := (pb_link p1)\<lparr>li_reads := reads\<rparr>\<rparr>"
    using assms by (auto simp: await_reply_def split: prod.splits)
  have "rp_epoch (pb_report p1) = rp_epoch (pb_report p)"
    by (rule await_keeps [OF w(1), of "\<lambda>p. rp_epoch (pb_report p)"])
      (auto simp: on_evidence_ack_def Let_def split: if_splits)
  with w(2) show ?thesis by simp
qed

definition heard_from :: "bytes option list \<Rightarrow> bytes" where
  "heard_from reads = concat (map (\<lambda>r. case r of None \<Rightarrow> [] | Some bs \<Rightarrow> bs) reads)"

definition acknowledged :: "bytes \<Rightarrow> EpochId \<Rightarrow> bool" where
  "acknowledged stream epoch \<longleftrightarrow>
     (\<exists>pre bs post f ack. stream = pre @ bs @ post \<and> frame_decode bs = Inr f \<and> fm_type f = Ft_HelloAck \<and>
        decode_hello_ack (fm_payload f) = Inr ack \<and> ha_accepted ack \<and> ha_epoch ack = epoch)"

text \<open>The decoder holds a segment of the stream; the reads to come continue it.\<close>

definition follows :: "bytes \<Rightarrow> FrameDecoder \<Rightarrow> bytes option list \<Rightarrow> bool" where
  "follows stream d reads \<longleftrightarrow> (\<exists>pre. stream = pre @ fd_buffer d @ heard_from reads)"

lemma decoder_next_buffer: "decoder_next d = (r, d') \<Longrightarrow> fd_buffer d' = fd_buffer d"
  by (auto simp: decoder_next_def Let_def split: if_splits sum.splits)

lemma decoder_next_segment:
  "decoder_next d = (Inr (Some f), d') \<Longrightarrow> \<exists>pre bs post. fd_buffer d = pre @ bs @ post \<and> frame_decode bs = Inr f"
  by (auto simp: decoder_next_def Let_def split: if_splits sum.splits)
    (metis append_take_drop_id)

lemma decoder_push_follows:
  assumes "decoder_push bs d = (Inr u, d')" and "follows stream d (Some bs # reads)"
  shows "follows stream d' reads"
proof -
  obtain pre where pre: "stream = pre @ fd_buffer d @ bs @ heard_from reads"
    using assms(2) by (auto simp: follows_def heard_from_def)
  from assms(1) consider "fd_buffer d' = bs" | "fd_buffer d' = fd_buffer d @ bs"
    by (auto simp: decoder_push_def Let_def split: if_splits)
  then show ?thesis
  proof cases
    case 1
    with pre show ?thesis unfolding follows_def by (intro exI [of _ "pre @ fd_buffer d"]) simp
  next
    case 2
    with pre show ?thesis unfolding follows_def by (intro exI [of _ pre]) simp
  qed
qed

lemma hello_ack_acknowledges:
  assumes "on_hello_ack before f p = (None, g, p')" and "stream = pre @ bs @ post" and "frame_decode bs = Inr f"
    and "got \<longrightarrow> acknowledged stream (rp_epoch (pb_report p))"
  shows "got \<or> g \<longrightarrow> acknowledged stream (rp_epoch (pb_report p'))"
proof (cases "fm_type f = Ft_HelloAck")
  case True
  obtain ack where ack: "decode_hello_ack (fm_payload f) = Inr ack"
    using assms(1) True by (cases "decode_hello_ack (fm_payload f)") (auto simp: on_hello_ack_def)
  obtain after p1 where n: "local_now p = (after, p1)" by (cases "local_now p")
  have "\<exists>p2 x y. on_hello_ack before f p = (if ha_accepted ack then (None, True, p2) else (Some x, True, y)) \<and>
      rp_epoch (pb_report p2) = ha_epoch ack"
    unfolding on_hello_ack_def Let_def True ack n sum.case prod.case simp_thms if_False
    by (intro exI conjI) (rule refl, simp)
  then obtain p2 x y where eq: "on_hello_ack before f p = (if ha_accepted ack then (None, True, p2) else (Some x, True, y))"
    and e2: "rp_epoch (pb_report p2) = ha_epoch ack" by (elim exE conjE)
  from assms(1) eq have acc: "ha_accepted ack" and "p' = p2" by (auto split: if_splits)
  with e2 have e: "rp_epoch (pb_report p') = ha_epoch ack" by simp
  show ?thesis unfolding acknowledged_def e
    by (intro impI exI [of _ pre] exI [of _ bs] exI [of _ post] exI [of _ f] exI [of _ ack] conjI assms(2,3) True ack acc refl)
next
  case False
  with assms(1,4) show ?thesis by (auto simp: on_hello_ack_def)
qed

lemma replies_acknowledged:
  assumes "replies (on_hello_ack before) got d p = (None, g, p')" and "stream = pre @ fd_buffer d @ post"
    and "got \<longrightarrow> acknowledged stream (rp_epoch (pb_report p))"
  shows "(g \<longrightarrow> acknowledged stream (rp_epoch (pb_report p'))) \<and> fd_buffer (pb_decoder p') = fd_buffer d"
  using assms
proof (induction "on_hello_ack before" got d p rule: replies.induct)
  case (1 got d p)
  note run = "1.prems"(1) [unfolded replies.simps [of "on_hello_ack before" got d p]]
  obtain r d' where n: "decoder_next d = (r, d')" by (cases "decoder_next d")
  note buf = decoder_next_buffer [OF n]
  show ?case
  proof (cases r)
    case (Inl er)
    with run n show ?thesis by simp
  next
    case (Inr found)
    show ?thesis
    proof (cases found)
      case None
      with run n Inr "1.prems"(3) buf show ?thesis by auto
    next
      case (Some response)
      obtain a b p1 where h: "on_hello_ack before response p = (a, b, p1)" by (metis prod_cases3)
      with run n Inr Some have a: "a = None" by (cases a) auto
      obtain pre' bs post' where seg: "fd_buffer d = pre' @ bs @ post'" "frame_decode bs = Inr response"
        using decoder_next_segment n Inr Some by blast
      have s1: "stream = (pre @ pre') @ bs @ (post' @ post)" using "1.prems"(2) seg(1) by simp
      have "got \<or> b \<longrightarrow> acknowledged stream (rp_epoch (pb_report p1))"
        by (rule hello_ack_acknowledges [OF h [unfolded a] s1 seg(2) "1.prems"(3)])
      moreover have "replies (on_hello_ack before) (got \<or> b) d' p1 = (None, g, p')" using run n Inr Some h a by simp
      moreover have "stream = pre @ fd_buffer d' @ post" using "1.prems"(2) buf by simp
      ultimately show ?thesis
        using "1.hyps" [OF n [symmetric] Inr Some h [symmetric] a refl] buf by simp
    qed
  qed
qed

lemma await_acknowledged:
  assumes "await (on_hello_ack before) reads p = (None, reads', p')" and "follows stream (pb_decoder p) reads"
  shows "acknowledged stream (rp_epoch (pb_report p'))"
  using assms
proof (induction "on_hello_ack before" reads p rule: await.induct)
  case (4 b bs reads p)
  show ?case
  proof (cases "decoder_push (b # bs) (pb_decoder p)")
    case (Pair pushed d)
    obtain u where u: "pushed = Inr u" using "4.prems"(1) Pair by (cases pushed) auto
    have f: "follows stream d reads" using decoder_push_follows Pair u "4.prems"(2) by blast
    then obtain pre where pre: "stream = pre @ fd_buffer d @ heard_from reads" by (auto simp: follows_def)
    obtain a g p1 where rep: "replies (on_hello_ack before) False d p = (a, g, p1)" by (metis prod_cases3)
    have a: "a = None" using "4.prems"(1) Pair u rep by (cases a) auto
    from replies_acknowledged [OF rep [unfolded a] pre]
    have r: "g \<longrightarrow> acknowledged stream (rp_epoch (pb_report p1))" "fd_buffer (pb_decoder p1) = fd_buffer d" by simp_all
    show ?thesis
    proof (cases g)
      case True
      with r(1) "4.prems"(1) Pair u rep a show ?thesis by simp
    next
      case False
      then have "await (on_hello_ack before) reads p1 = (None, reads', p')" using "4.prems"(1) Pair u rep a by simp
      moreover have "follows stream (pb_decoder p1) reads" using f r(2) by (simp add: follows_def)
      ultimately show ?thesis
        using "4.hyps" [OF Pair [symmetric] u rep [symmetric] a refl False] by blast
    qed
  qed
qed auto

lemma handshake_acknowledged:
  assumes "handshake po sc p = (None, p')" and "fd_buffer (pb_decoder p) = []"
  shows "acknowledged (heard_from (li_reads (pb_link p))) (rp_epoch (pb_report p'))"
proof -
  define hello where "hello = \<lparr>hm_publisher = pu_publisher po, hm_boot = pu_boot po, hm_generation = sc_generation_start sc,
    hm_start_sequence = pb_sequence p, hm_requested = aset_all, hm_agent = pu_agent po\<rparr>"
  obtain payload where pay: "encode_hello hello = Inr payload"
    using assms(1) by (cases "encode_hello hello") (auto simp: handshake_def hello_def)
  define f where "f = publisher_frame po Ft_Hello 0 (pb_sequence p) (make_nonce (pu_publisher po) (pb_sequence p)) payload"
  obtain sent p1 where s: "send_frame f p = (sent, p1)" by (cases "send_frame f p")
  have ok: "\<exists>u. sent = Inr u" using assms(1) pay s by (cases sent) (auto simp: handshake_def hello_def f_def)
  obtain before p2 where n: "local_now (count_frame p1) = (before, p2)" by (cases "local_now (count_frame p1)")
  have "await_reply (on_hello_ack before) p2 = (None, p')" using assms(1) pay s ok n by (auto simp: handshake_def hello_def f_def)
  then obtain reads p3 where w: "await (on_hello_ack before) (li_reads (pb_link p2)) p2 = (None, reads, p3)"
    "rp_epoch (pb_report p') = rp_epoch (pb_report p3)"
    by (auto simp: await_reply_def split: prod.splits)
  have "li_reads (pb_link p1) = li_reads (pb_link p) \<and> pb_decoder p1 = pb_decoder p"
    using s by (auto simp: send_frame_def link_write_def Let_def split: sum.splits if_splits)
  moreover have "li_reads (pb_link p2) = li_reads (pb_link p1) \<and> pb_decoder p2 = pb_decoder p1"
    using n by (auto simp: local_now_def count_frame_def split: list.splits)
  ultimately have same: "li_reads (pb_link p2) = li_reads (pb_link p)" "pb_decoder p2 = pb_decoder p" by simp_all
  have "follows (heard_from (li_reads (pb_link p))) (pb_decoder p2) (li_reads (pb_link p2))"
    using assms(2) by (simp add: follows_def same)
  from await_acknowledged [OF w(1) this] w(2) show ?thesis by simp
qed

lemma hello_listens: "listens (on_hello_ack before)"
  using same_talk_now unfolding listens_def
  by (auto simp: on_hello_ack_def Let_def same_talk_def split: if_splits sum.splits prod.splits)

lemma evidence_listens: "listens on_evidence_ack"
  by (auto simp: listens_def on_evidence_ack_def Let_def same_talk_def split: if_splits)

text \<open>Sending says one frame more, or nothing.\<close>

lemma send_frame_talk:
  assumes "send_frame f p = (r, p')"
  shows "(case r of Inr _ \<Rightarrow> frame_ok f \<and> li_sent (pb_link p') = li_sent (pb_link p) @ [wire f] | Inl _ \<Rightarrow> li_sent (pb_link p') = li_sent (pb_link p)) \<and>
    pb_sequence p' = pb_sequence p \<and> pb_report p' = pb_report p"
  using assms by (auto simp: send_frame_def link_write_def Let_def frame_encode_Inr split: sum.splits if_splits)

lemma spoken_more:
  assumes "spoken po sc epoch p" and "li_sent (pb_link p') = li_sent (pb_link p) @ [wire f]" and "speaks_for po sc epoch f"
    and "if fm_type f = Ft_Evidence then fh_sequence (fm_header f) = pb_sequence p \<and> pb_sequence p' = pb_sequence p + 1
         else pb_sequence p' = pb_sequence p"
  shows "spoken po sc epoch p'"
proof -
  obtain fs k where k: "li_sent (pb_link p) = map wire fs" "\<forall>f \<in> set fs. speaks_for po sc epoch f"
    "evidence_sequences fs = map of_nat [1..<Suc k]" "pb_sequence p = of_nat (Suc k)" using assms(1) by (auto simp: spoken_def)
  show ?thesis unfolding spoken_def
  proof (intro exI conjI)
    show "li_sent (pb_link p') = map wire (fs @ [f])" using k(1) assms(2) by simp
    show "\<forall>g \<in> set (fs @ [f]). speaks_for po sc epoch g" using k(2) assms(3) by simp
    show "evidence_sequences (fs @ [f]) = map of_nat [1..<Suc (if fm_type f = Ft_Evidence then Suc k else k)]"
      using k(3,4) assms(4) by (auto simp: evidence_sequences_def)
    show "pb_sequence p' = of_nat (Suc (if fm_type f = Ft_Evidence then Suc k else k))"
      using k(4) assms(4) by (simp split: if_splits)
  qed
qed

lemma publisher_frame_fields [simp]:
  "fh_publisher (fm_header (publisher_frame po type epoch sequence nonce payload)) = pu_publisher po"
  "fh_boot (fm_header (publisher_frame po type epoch sequence nonce payload)) = pu_boot po"
  "fh_epoch (fm_header (publisher_frame po type epoch sequence nonce payload)) = epoch"
  "fh_sequence (fm_header (publisher_frame po type epoch sequence nonce payload)) = sequence"
  "fm_type (publisher_frame po type epoch sequence nonce payload) = type"
  "fm_payload (publisher_frame po type epoch sequence nonce payload) = payload"
  by (simp_all add: publisher_frame_def fm_type_def)

lemma handshake_spoken:
  assumes "spoken po sc epoch p" and "handshake po sc p = (r, p')"
  shows "spoken po sc epoch p'"
proof -
  define hello where "hello = \<lparr>hm_publisher = pu_publisher po, hm_boot = pu_boot po, hm_generation = sc_generation_start sc,
    hm_start_sequence = pb_sequence p, hm_requested = aset_all, hm_agent = pu_agent po\<rparr>"
  show ?thesis
  proof (cases "encode_hello hello")
    case (Inl er)
    then show ?thesis using assms by (simp add: handshake_def hello_def)
  next
    case (Inr payload)
    define f where "f = publisher_frame po Ft_Hello 0 (pb_sequence p) (make_nonce (pu_publisher po) (pb_sequence p)) payload"
    obtain sent p1 where s: "send_frame f p = (sent, p1)" by (cases "send_frame f p")
    note t = send_frame_talk [OF s]
    show ?thesis
    proof (cases sent)
      case (Inl er)
      then have "same_talk p p1" using t by (simp add: same_talk_def)
      moreover have "p' = p1" using assms(2) Inr s Inl by (simp add: handshake_def hello_def f_def)
      ultimately show ?thesis using assms(1) same_talk_spoken by blast
    next
      case sent: (Inr u)
      have "speaks_for po sc epoch f" using t sent by (simp add: speaks_for_def f_def)
      then have p1: "spoken po sc epoch p1" using spoken_more [OF assms(1), of p1 f] t sent by (simp add: f_def)
      obtain before p2 where n: "local_now (count_frame p1) = (before, p2)" by (cases "local_now (count_frame p1)")
      have "await_reply (on_hello_ack before) p2 = (r, p')" using assms(2) Inr s sent n by (simp add: handshake_def hello_def f_def)
      from await_reply_talk [OF hello_listens this] same_talk_now [OF n] same_talk_count [of p1]
      have "same_talk p1 p'" using same_talk_trans by blast
      then show ?thesis using p1 same_talk_spoken by blast
    qed
  qed
qed

lemma publisher_batch_samples:
  assumes "x \<in> set (eb_samples (publisher_batch po sc epoch sequence tick index))"
  shows "es_publisher x = pu_publisher po \<and> es_publisher_boot x = pu_boot po \<and> es_epoch x = epoch \<and> es_sequence x = sequence \<and>
    es_metrics x = sample_metrics sc index \<and> es_resource x \<in> set (sc_resources sc)"
  using assms by (auto simp: publisher_batch_def publisher_sample_def Let_def)

lemma eb_epoch_batch [simp]: "eb_epoch (publisher_batch po sc epoch sequence tick index) = epoch"
  by (simp add: publisher_batch_def Let_def)

lemma send_batch_spoken:
  assumes "spoken po sc (rp_epoch (pb_report p)) p" and "send_batch po sc index p = (r, p')"
  shows "spoken po sc (rp_epoch (pb_report p)) p' \<and> rp_epoch (pb_report p') = rp_epoch (pb_report p)"
proof -
  obtain local p0 where n: "local_now p = (local, p0)" by (cases "local_now p")
  define epoch where "epoch = rp_epoch (pb_report p0)"
  have pe: "rp_epoch (pb_report p) = epoch" using n by (auto simp: epoch_def local_now_def split: list.splits)
  have p0: "spoken po sc epoch p0" using same_talk_spoken [OF same_talk_now [OF n]] assms(1) pe by simp
  define batch where "batch = publisher_batch po sc epoch (pb_sequence p0) (stamp (pb_bridge p0) local) index"
  show ?thesis
  proof (cases "sample_metrics sc index = [] \<or> (\<exists>er. encode_evidence batch = Inl er)")
    case True
    then have "p' = p0" using assms(2) n by (auto simp: send_batch_def epoch_def batch_def Let_def split: sum.splits if_splits)
    then show ?thesis using p0 pe by (simp add: epoch_def)
  next
    case False
    then obtain payload where enc: "encode_evidence batch = Inr payload" by (cases "encode_evidence batch") auto
    define f where "f = publisher_frame po Ft_Evidence epoch (pb_sequence p0) (make_nonce (pu_publisher po) (pb_sequence p0)) payload"
    obtain sent p1 where s: "send_frame f p0 = (sent, p1)" by (cases "send_frame f p0")
    note t = send_frame_talk [OF s]
    note run = assms(2) [unfolded send_batch_def n Let_def prod.case, folded epoch_def, folded batch_def, unfolded enc sum.case,
        folded f_def, unfolded s prod.case]
    show ?thesis
    proof (cases sent)
      case (Inl er)
      then have "same_talk p0 p1" using t by (simp add: same_talk_def)
      then have "spoken po sc epoch p1" using p0 same_talk_spoken by blast
      moreover have "p' = p1" using run False Inl by simp
      ultimately show ?thesis using t pe by (simp add: epoch_def)
    next
      case (Inr u)
      have "speaks_for po sc epoch f"
        using t Inr enc publisher_batch_samples [of _ po sc epoch "pb_sequence p0" _ index] sample_metrics_inv
        by (auto simp: speaks_for_def f_def batch_def)
      define p3 where "p3 = (count_frame p1)\<lparr>pb_report := (pb_report (count_frame p1))\<lparr>rp_samples_sent :=
        rp_samples_sent (pb_report (count_frame p1)) + of_nat (length (eb_samples batch))\<rparr>, pb_sequence := pb_sequence (count_frame p1) + 1\<rparr>"
      have "spoken po sc epoch p3"
        using spoken_more [OF p0, of p3 f] t Inr \<open>speaks_for po sc epoch f\<close> by (simp add: p3_def f_def count_frame_def)
      moreover have w: "await_reply on_evidence_ack p3 = (r, p')" using run False Inr by (simp add: p3_def)
      moreover have "rp_epoch (pb_report p') = epoch"
        using await_evidence_epoch [OF w] t by (simp add: p3_def epoch_def count_frame_def)
      ultimately show ?thesis using await_reply_talk [OF evidence_listens] same_talk_spoken pe by metis
    qed
  qed
qed

lemma send_batches_spoken:
  "spoken po sc (rp_epoch (pb_report p)) p \<Longrightarrow> send_batches po sc is p = (r, p') \<Longrightarrow>
     spoken po sc (rp_epoch (pb_report p)) p' \<and> rp_epoch (pb_report p') = rp_epoch (pb_report p)"
proof (induction "is" arbitrary: p)
  case (Cons i "is")
  obtain r1 p1 where b: "send_batch po sc i p = (r1, p1)" by (cases "send_batch po sc i p")
  note s = send_batch_spoken [OF Cons.prems(1) b]
  show ?case
  proof (cases r1)
    case None
    with Cons.IH [of p1] Cons.prems(2) b s show ?thesis by simp
  qed (use Cons.prems(2) b s in simp)
qed simp

lemma goodbye_spoken:
  assumes "spoken po sc (rp_epoch (pb_report p)) p"
  shows "spoken po sc (rp_epoch (pb_report p)) (goodbye po p)"
proof -
  define epoch where "epoch = rp_epoch (pb_report p)"
  note assms = assms [folded epoch_def]
  define f where "f = publisher_frame po Ft_Goodbye epoch (pb_sequence p) 0 []"
  obtain sent p1 where s: "send_frame f p = (sent, p1)" by (cases "send_frame f p")
  note t = send_frame_talk [OF s]
  have g: "goodbye po p = (case sent of Inl _ \<Rightarrow> p1 | Inr _ \<Rightarrow> count_frame p1)"
    unfolding goodbye_def epoch_def [symmetric] f_def [symmetric] s by simp
  have "spoken po sc epoch (goodbye po p)"
  proof (cases sent)
    case (Inl er)
    with t have "same_talk p p1" by (simp add: same_talk_def)
    then have "spoken po sc epoch p1" using assms same_talk_spoken by blast
    with g Inl show ?thesis by simp
  next
    case (Inr u)
    with t have "frame_ok f" by simp
    then have "speaks_for po sc epoch f" by (simp add: speaks_for_def f_def)
    then have "spoken po sc epoch p1" using spoken_more [OF assms, of p1 f] t Inr by (simp add: f_def)
    with g Inr same_talk_spoken [OF same_talk_count] show ?thesis by simp
  qed
  then show ?thesis by (simp only: epoch_def)
qed

text \<open>The epoch of a run: the acknowledged one after a handshake, and no epoch without.\<close>

definition shakes_hands :: "PublisherScript \<Rightarrow> bool" where
  "shakes_hands sc \<longleftrightarrow> sc_send_hello sc \<and> \<not> sc_skip_handshake sc"

definition run_epoch :: "PublisherScript \<Rightarrow> Link \<Rightarrow> EpochId \<Rightarrow> bool" where
  "run_epoch sc link epoch \<longleftrightarrow> (if shakes_hands sc then acknowledged (heard_from (li_reads link)) epoch else epoch = 0)"

definition only_hello :: "Frame list \<Rightarrow> bool" where
  "only_hello fs \<longleftrightarrow> (\<forall>f \<in> set fs. fm_type f = Ft_Hello)"

lemma handshake_only_hello:
  assumes "handshake po sc p = (r, p')" and "li_sent (pb_link p) = []"
  shows "\<exists>fs. li_sent (pb_link p') = map wire fs \<and> only_hello fs"
proof -
  define hello where "hello = \<lparr>hm_publisher = pu_publisher po, hm_boot = pu_boot po, hm_generation = sc_generation_start sc,
    hm_start_sequence = pb_sequence p, hm_requested = aset_all, hm_agent = pu_agent po\<rparr>"
  show ?thesis
  proof (cases "encode_hello hello")
    case (Inl er)
    then show ?thesis using assms by (simp add: handshake_def hello_def only_hello_def)
  next
    case (Inr payload)
    define f where "f = publisher_frame po Ft_Hello 0 (pb_sequence p) (make_nonce (pu_publisher po) (pb_sequence p)) payload"
    obtain sent p1 where s: "send_frame f p = (sent, p1)" by (cases "send_frame f p")
    note t = send_frame_talk [OF s]
    have one: "\<exists>fs. li_sent (pb_link p1) = map wire fs \<and> only_hello fs"
    proof (cases sent)
      case (Inl er)
      then show ?thesis using t assms(2) by (intro exI [of _ "[]"]) (simp add: only_hello_def)
    next
      case (Inr u)
      then show ?thesis using t assms(2) by (intro exI [of _ "[f]"]) (simp add: only_hello_def f_def)
    qed
    have "same_talk p1 p'"
    proof (cases sent)
      case (Inl er)
      then have "p' = p1" using assms(1) Inr s by (simp add: handshake_def hello_def f_def)
      then show ?thesis by (simp add: same_talk_def)
    next
      case sent: (Inr u)
      obtain before p2 where n: "local_now (count_frame p1) = (before, p2)" by (cases "local_now (count_frame p1)")
      have "await_reply (on_hello_ack before) p2 = (r, p')" using assms(1) Inr s sent n by (simp add: handshake_def hello_def f_def)
      from await_reply_talk [OF hello_listens this] same_talk_now [OF n] same_talk_count [of p1]
      show ?thesis using same_talk_trans by blast
    qed
    with one show ?thesis by (simp add: same_talk_def)
  qed
qed

lemma run_publisher_spoken:
  assumes "run_publisher po sc link = (r, link')" and "li_sent link = []"
  shows "\<exists>p epoch. spoken po sc epoch p \<and> link' = pb_link p \<and>
    (run_epoch sc link epoch \<or> (\<exists>fs. li_sent link' = map wire fs \<and> only_hello fs))"
proof -
  define p0 where "p0 = \<lparr>pb_report = new_report, pb_decoder = default_decoder, pb_sequence = 1,
    pb_bridge = \<lparr>br_offset = 0, br_aligned = False\<rparr>, pb_link = link\<rparr>"
  have p0: "spoken po sc epoch p0" for epoch unfolding spoken_def
    by (intro exI [of _ "[]"] exI [of _ 0]) (simp add: p0_def assms(2) evidence_sequences_def)
  obtain h p1 where h: "(if shakes_hands sc then handshake po sc p0 else (None, p0)) = (h, p1)" by fastforce
  have p1: "spoken po sc epoch p1" for epoch using h p0 handshake_spoken [OF p0] by (auto split: if_splits)
  have quiet: "\<exists>fs. li_sent (pb_link p1) = map wire fs \<and> only_hello fs"
    using h handshake_only_hello [of po sc p0] assms(2) by (auto simp: p0_def only_hello_def split: if_splits)
  have epoch: "run_epoch sc link (rp_epoch (pb_report p1))" if "h = None"
    using h that handshake_acknowledged [of po sc p0 p1]
    by (auto simp: run_epoch_def p0_def default_decoder_def new_report_def split: if_splits)
  obtain b p2 where b: "send_batches po sc [0..<unat (sc_samples sc * sc_repeats sc)] p1 = (b, p2)" by fastforce
  let ?e = "rp_epoch (pb_report p1)"
  have p2: "spoken po sc ?e p2" "rp_epoch (pb_report p2) = ?e" using send_batches_spoken [OF p1 b] by simp_all
  have p3: "spoken po sc ?e (goodbye po p2)" using goodbye_spoken [of po sc p2] p2 by simp
  have "link' = link \<or> link' = pb_link p1 \<or> h = None \<and> (link' = pb_link p2 \<or> link' = pb_link (goodbye po p2))"
    using assms(1) h b unfolding run_publisher_def Let_def shakes_hands_def
    by (fold p0_def) (auto simp: p0_def split: if_splits sum.splits option.splits)
  then consider "link' = link" | "link' = pb_link p1" | "h = None" "link' = pb_link p2" | "h = None" "link' = pb_link (goodbye po p2)"
    by blast
  then show ?thesis
  proof cases
    case 1
    have "link' = pb_link p0" by (simp add: 1 p0_def)
    moreover have "li_sent link' = map wire []" "only_hello []" by (simp_all add: 1 assms(2) only_hello_def)
    ultimately show ?thesis using p0 [of 0] by blast
  next
    case 2
    with p1 [of 0] quiet show ?thesis by blast
  next
    case 3
    with p2 epoch show ?thesis by blast
  next
    case 4
    with p3 epoch show ?thesis by blast
  qed
qed

lemma arrived_fields [simp]:
  "es_publisher (arrived s) = es_publisher s" "es_publisher_boot (arrived s) = es_publisher_boot s"
  "es_epoch (arrived s) = es_epoch s" "es_sequence (arrived s) = es_sequence s"
  by (simp_all add: arrived_def received_def Let_def)

lemma speaks_for_decodes:
  assumes "speaks_for po sc epoch f" and "fm_type f = Ft_Evidence" and "\<forall>x \<in> set (sc_resources sc). id_valid x"
  shows "\<exists>b. decode_evidence (fm_payload f) = Inr b \<and> eb_epoch b = epoch \<and>
    (\<forall>s \<in> set (eb_samples b). es_publisher s = pu_publisher po \<and> es_publisher_boot s = pu_boot po \<and>
       es_epoch s = epoch \<and> es_sequence s = fh_sequence (fm_header f))"
proof -
  obtain b where b: "encode_evidence b = Inr (fm_payload f)" and e: "eb_epoch b = epoch"
    and own: "\<forall>s \<in> set (eb_samples b). es_publisher s = pu_publisher po \<and>
      es_publisher_boot s = pu_boot po \<and> es_epoch s = epoch \<and> es_sequence s = fh_sequence (fm_header f) \<and>
      ms_inv (es_metrics s) \<and> es_resource s \<in> set (sc_resources sc)"
    using assms(1,2) unfolding speaks_for_def by blast
  have "batch_ok b" using own assms(3) by (auto simp: batch_ok_def list_all_iff sample_ok_def)
  then have "decode_evidence (fm_payload f) = Inr (arrived_batch b)" by (rule evidence.decode_encode [OF b])
  moreover have "eb_samples (arrived_batch b) = map arrived (eb_samples b)" "eb_epoch (arrived_batch b) = eb_epoch b"
    by (simp_all add: arrived_batch_def Let_def)
  ultimately show ?thesis using own e by auto
qed

lemma wire_type: "wire f = wire g \<Longrightarrow> fm_type f = fm_type g"
proof -
  assume "wire f = wire g"
  then have "take 80 (wire f) = take 80 (wire g)" by simp
  then have "encode_frame_header (sealed_header f) = encode_frame_header (sealed_header g)" by (simp add: wire_def)
  then have "fh_type (sealed_header f) = fh_type (sealed_header g)" by (metis header_fields_encode)
  then show ?thesis by (simp add: sealed_header_simps fm_type_def)
qed

text \<open>C15: what a publisher process sends, the coordinator takes frame by frame, and it is only about the publisher itself.
  Whatever the publisher reads, whichever writes fail and however its bytes are cut into reads, the
  coordinator's connection thread handles exactly the frames the publisher wrote, in order; every one of them
  carries the publisher's identity and incarnation; every evidence frame decodes to a batch of this
  incarnation's samples under one epoch, which its header carries too; and the evidence frames are numbered 1, 2, 3 and so on. That
  epoch is the one that an accepted acknowledgement of the hello carries, in a whole frame of the bytes the publisher read; it is no
  epoch when the script omits the handshake. The stream is within the decoder's bound and its resources are valid.\<close>

theorem publisher_stream_served:
  assumes "run_publisher po sc link = (r, link')" and "li_sent link = []" and "\<forall>x \<in> set (sc_resources sc). id_valid x"
    and "concat chunks = concat (li_sent link')" and "\<forall>b \<in> set chunks. b \<noteq> []"
    and "length (concat chunks) \<le> fd_max_buffered default_decoder"
  shows "\<exists>fs k epoch. li_sent link' = map wire fs \<and>
    connection_loop (map Some chunks) writes n =
      (case handle_all (map sealed fs) (new_conn writes) n of (c, n') \<Rightarrow> end_connection c n') \<and>
    evidence_sequences fs = map of_nat [1..<Suc k] \<and>
    (k \<noteq> 0 \<longrightarrow> (if sc_send_hello sc \<and> \<not> sc_skip_handshake sc
       then acknowledged (heard_from (li_reads link)) epoch else epoch = 0)) \<and>
    (\<forall>f \<in> set fs. fh_publisher (fm_header f) = pu_publisher po \<and> fh_boot (fm_header f) = pu_boot po \<and>
       fm_type f \<in> {Ft_Hello, Ft_Evidence, Ft_Goodbye} \<and>
       (fm_type f = Ft_Evidence \<longrightarrow> fh_epoch (fm_header f) = epoch \<and>
          (\<exists>b. decode_evidence (fm_payload f) = Inr b \<and> eb_epoch b = epoch \<and>
          (\<forall>s \<in> set (eb_samples b). es_publisher s = pu_publisher po \<and> es_publisher_boot s = pu_boot po \<and>
             es_epoch s = epoch \<and> es_sequence s = fh_sequence (fm_header f)))))"
proof -
  obtain p epoch where p: "spoken po sc epoch p" "link' = pb_link p"
    "run_epoch sc link epoch \<or> (\<exists>fs. li_sent link' = map wire fs \<and> only_hello fs)"
    using run_publisher_spoken [OF assms(1,2)] by blast
  obtain fs k where fs: "li_sent link' = map wire fs" "\<forall>f \<in> set fs. speaks_for po sc epoch f"
    "evidence_sequences fs = map of_nat [1..<Suc k]"
    using p(1,2) unfolding spoken_def by metis
  have stream: "concat chunks = concat (map wire fs)" using assms(4) fs(1) by simp
  have ok: "\<forall>f \<in> set fs. frame_ok f" using fs(2) by (simp add: speaks_for_def)
  have "connection_loop (map Some chunks) writes n =
      (case handle_all (map sealed fs) (new_conn writes) n of (c, n') \<Rightarrow> end_connection c n')"
    by (rule loop_frames [OF stream ok assms(5,6)])
  moreover have "fh_publisher (fm_header f) = pu_publisher po \<and> fh_boot (fm_header f) = pu_boot po \<and>
      fm_type f \<in> {Ft_Hello, Ft_Evidence, Ft_Goodbye} \<and> (fm_type f = Ft_Evidence \<longrightarrow> fh_epoch (fm_header f) = epoch)"
    if "f \<in> set fs" for f
    using fs(2) that unfolding speaks_for_def by force
  moreover have "k \<noteq> 0 \<longrightarrow> run_epoch sc link epoch"
  proof
    assume "k \<noteq> 0"
    then have "evidence_sequences fs \<noteq> []" using fs(3) by simp
    then obtain f where f: "f \<in> set fs" "fm_type f = Ft_Evidence" by (auto simp: evidence_sequences_def filter_empty_conv)
    show "run_epoch sc link epoch"
    proof (rule ccontr)
      assume "\<not> run_epoch sc link epoch"
      with p(3) obtain gs where gs: "map wire fs = map wire gs" "only_hello gs" using fs(1) by auto
      from gs(1) f(1) obtain g where g: "g \<in> set gs" "wire f = wire g"
        by (metis (no_types, lifting) image_iff list.set_map)
      from g(1) gs(2) have "fm_type g = Ft_Hello" by (simp add: only_hello_def)
      moreover have "fm_type f = fm_type g" by (rule wire_type [OF g(2)])
      ultimately show False using f(2) by simp
    qed
  qed
  ultimately show ?thesis using fs(1,3) speaks_for_decodes [OF _ _ assms(3)] fs(2)
    unfolding run_epoch_def shakes_hands_def
    by (intro exI [of _ fs] exI [of _ k] exI [of _ epoch]) blast
qed

text \<open>A run whose coordinator acknowledges the hello under epoch 9, and then never answers.\<close>

definition demo_publisher :: PublisherOptions where
  "demo_publisher = \<lparr>pu_endpoint = ''e'', pu_publisher = 2, pu_boot = 1, pu_agent = []\<rparr>"

definition demo_script :: PublisherScript where
  "demo_script =
     \<lparr>sc_domain = 7, sc_resources = [2], sc_samples = 1, sc_utilization_ppm = 700000, sc_queue_ppm = 0, sc_buffer_ppm = 0,
      sc_loss_ppm = 0, sc_latency_micros = 0, sc_jitter_micros = 0, sc_residual_bps = 0, sc_egress_bps = 0,
      sc_utilization_step_ppm = 0, sc_loss_step_ppm = 0, sc_queue_step_ppm = 0, sc_generation_start = 1, sc_send_hello = True,
      sc_send_goodbye = True, sc_request_full_authority = True, sc_repeats = 1, sc_skip_handshake = False\<rparr>"

definition demo_ack :: HelloAckMessage where
  "demo_ack = \<lparr>ha_epoch = 9, ha_authority_generation = 1, ha_coordinator_boot = 1, ha_granted = 1, ha_coordinator_tick = 0,
     ha_accepted = True, ha_reason = []\<rparr>"

definition ack_frame :: Frame where
  "ack_frame = demo_frame\<lparr>fm_header := (fm_header demo_frame)\<lparr>fh_type := 2\<rparr>,
     fm_payload := (case encode_hello_ack demo_ack of Inl _ \<Rightarrow> [] | Inr bs \<Rightarrow> bs)\<rparr>"

lemma ack_payload:
  "decode_hello_ack (fm_payload ack_frame) = Inr demo_ack" "length (fm_payload ack_frame) \<le> 100"
proof -
  have enc: "encode_hello_ack demo_ack = Inr (put_le 8 (9 :: u64) @ put_le 8 (1 :: u64) @ put_le 8 (1 :: u64) @ put_le 4 (1 :: u32) @
      put_le 8 (0 :: u64) @ [bool_byte True] @ text_layout [])"
    by (simp add: encode_hello_ack_def encode_simps demo_ack_def)
  then show "decode_hello_ack (fm_payload ack_frame) = Inr demo_ack"
    using hello_ack.decode_encode [OF enc] by (simp add: ack_frame_def)
  show "length (fm_payload ack_frame) \<le> 100"
    by (simp add: ack_frame_def enc text_layout_def blob_layout_def)
qed

lemma ack_frame_ok: "frame_ok ack_frame" "fm_type (sealed ack_frame) = Ft_HelloAck"
  using ack_payload(2)
  by (simp_all add: frame_ok_def ack_frame_def demo_frame_def fm_type_def is_valid_frame_type_def sets_reserved_flag_def
      ncf_defs sealed_def sealed_header_def Let_def)

definition answering_link :: Link where
  "answering_link = \<lparr>li_connect = Inr (), li_reads = [Some (wire ack_frame)], li_writes = [], li_clock = [10, 20, 30], li_sent = []\<rparr>"

definition demo_sent :: Frame where
  "demo_sent = publisher_frame demo_publisher Ft_Hello 0 1 (make_nonce 2 1) (fm_payload hello_frame)"

lemma demo_sent_ok: "frame_ok demo_sent"
  using hello_payload(2)
  by (simp add: demo_sent_def frame_ok_def) (simp add: publisher_frame_def is_valid_frame_type_def sets_reserved_flag_def ncf_defs)

text \<open>The batch it then sends, at its own clock: the acknowledgement carries no tick.\<close>

definition sent_batch :: EvidenceBatch where
  "sent_batch = publisher_batch demo_publisher demo_script 9 1 30 0"

definition demo_evidence :: Frame where
  "demo_evidence = publisher_frame demo_publisher Ft_Evidence 9 1 (make_nonce 2 1)
     (case encode_evidence sent_batch of Inl _ \<Rightarrow> [] | Inr bs \<Rightarrow> bs)"

lemma demo_metrics: "sample_metrics demo_script 0 = [\<lparr>mr_kind = MK_UtilizationPpm, mr_value = 700000\<rparr>]"
  by code_simp

lemma encode_sent_batch: "\<exists>bs. encode_evidence sent_batch = Inr bs \<and> length bs \<le> 1000"
proof -
  have n: "length (eb_samples sent_batch) = 1" by (simp add: sent_batch_def publisher_batch_def demo_script_def Let_def)
  have m: "es_metrics s = [\<lparr>mr_kind = MK_UtilizationPpm, mr_value = 700000\<rparr>]" if "s \<in> set (eb_samples sent_batch)" for s
    using that publisher_batch_samples [of s demo_publisher demo_script 9 1 30 0] by (simp add: sent_batch_def demo_metrics)
  obtain s where s: "eb_samples sent_batch = [s]" using n by (cases "eb_samples sent_batch") auto
  with m have "es_metrics s = [\<lparr>mr_kind = MK_UtilizationPpm, mr_value = 700000\<rparr>]" by simp
  then show ?thesis
    by (simp add: encode_evidence_def encode_simps w_sample_def w_metric_def s kMaxEvidencePerBatch_def)
qed

lemma demo_evidence_ok: "frame_ok demo_evidence"
  using encode_sent_batch
  by (auto simp: demo_evidence_def frame_ok_def kMaxFramePayload_def)
    (simp_all add: publisher_frame_def is_valid_frame_type_def sets_reserved_flag_def ncf_defs)

lemma answered_replies:
  "\<exists>p'. replies (on_hello_ack before) False (default_decoder\<lparr>fd_buffer := wire ack_frame\<rparr>) p = (None, True, p') \<and>
     rp_epoch (pb_report p') = 9 \<and> li_sent (pb_link p') = li_sent (pb_link p) \<and> pb_sequence p' = pb_sequence p \<and>
     li_writes (pb_link p') = li_writes (pb_link p) \<and> li_clock (pb_link p') = drop 1 (li_clock (pb_link p)) \<and>
     pb_bridge p' = pb_bridge p"
proof -
  let ?d = "default_decoder\<lparr>fd_buffer := wire ack_frame\<rparr>"
  let ?d' = "?d\<lparr>fd_consumed := length (wire ack_frame)\<rparr>"
  have one: "decoder_next ?d = (Inr (Some (sealed ack_frame)), ?d')"
    using decoder_next_frame [of ?d ack_frame "[]"] ack_frame_ok(1) by (simp add: default_decoder_def unread_def)
  have two: "decoder_next ?d' = (Inr None, ?d')"
    by (simp add: decoder_next_def default_decoder_def kFrameHeaderSize_def)
  have ack: "fm_type (sealed ack_frame) = Ft_HelloAck" "decode_hello_ack (fm_payload (sealed ack_frame)) = Inr demo_ack"
    using ack_frame_ok(2) ack_payload(1) by simp_all
  obtain after q where n: "local_now p = (after, q)" by (cases "local_now p")
  then have q: "li_sent (pb_link q) = li_sent (pb_link p)" "pb_sequence q = pb_sequence p" "pb_bridge q = pb_bridge p"
    "li_writes (pb_link q) = li_writes (pb_link p)" "li_clock (pb_link q) = drop 1 (li_clock (pb_link p))"
    by (cases "li_clock (pb_link p)"; auto simp: local_now_def)+
  have nt: "\<not> ha_coordinator_tick demo_ack \<noteq> kNoTick" by (simp add: demo_ack_def kNoTick_def)
  have "\<exists>p2 x y. on_hello_ack before (sealed ack_frame) p = (if ha_accepted demo_ack then (None, True, p2) else (Some x, True, y)) \<and>
      rp_epoch (pb_report p2) = ha_epoch demo_ack \<and> pb_link p2 = pb_link q \<and> pb_sequence p2 = pb_sequence q \<and> pb_bridge p2 = pb_bridge q"
    unfolding on_hello_ack_def Let_def ack n sum.case prod.case simp_thms if_False align_def if_not_P [OF nt]
    by (intro exI conjI) (rule refl, simp_all)
  then obtain p2 x y where eq: "on_hello_ack before (sealed ack_frame) p =
      (if ha_accepted demo_ack then (None, True, p2) else (Some x, True, y))"
    and e2: "rp_epoch (pb_report p2) = ha_epoch demo_ack \<and> pb_link p2 = pb_link q \<and> pb_sequence p2 = pb_sequence q \<and>
      pb_bridge p2 = pb_bridge q" by (elim exE conjE) (rule that, assumption, intro conjI, assumption+)
  have h: "\<exists>p1. on_hello_ack before (sealed ack_frame) p = (None, True, p1) \<and> rp_epoch (pb_report p1) = 9 \<and>
      li_sent (pb_link p1) = li_sent (pb_link p) \<and> pb_sequence p1 = pb_sequence p \<and>
      li_writes (pb_link p1) = li_writes (pb_link p) \<and> li_clock (pb_link p1) = drop 1 (li_clock (pb_link p)) \<and>
      pb_bridge p1 = pb_bridge p"
    by (rule exI [of _ p2]) (use eq e2 q in \<open>simp add: demo_ack_def\<close>)
  then obtain p1 where p1: "on_hello_ack before (sealed ack_frame) p = (None, True, p1)" "rp_epoch (pb_report p1) = 9 \<and>
      li_sent (pb_link p1) = li_sent (pb_link p) \<and> pb_sequence p1 = pb_sequence p \<and>
      li_writes (pb_link p1) = li_writes (pb_link p) \<and> li_clock (pb_link p1) = drop 1 (li_clock (pb_link p)) \<and>
      pb_bridge p1 = pb_bridge p" by (elim exE conjE) (rule that, assumption, intro conjI, assumption+)
  have "replies (on_hello_ack before) False ?d p = (None, True, p1\<lparr>pb_decoder := ?d'\<rparr>)"
    by (simp add: replies.simps [of _ _ ?d] replies.simps [of _ _ ?d'] one two p1(1))
  then show ?thesis using p1(2) by (intro exI [of _ "p1\<lparr>pb_decoder := ?d'\<rparr>"] conjI) simp_all
qed

lemma answered_handshake:
  assumes "p0 = \<lparr>pb_report = new_report, pb_decoder = default_decoder, pb_sequence = 1,
    pb_bridge = \<lparr>br_offset = 0, br_aligned = False\<rparr>, pb_link = answering_link\<rparr>"
  shows "\<exists>p1. handshake demo_publisher demo_script p0 = (None, p1) \<and> rp_epoch (pb_report p1) = 9 \<and>
    li_sent (pb_link p1) = [wire demo_sent] \<and> pb_sequence p1 = 1 \<and> li_reads (pb_link p1) = [] \<and>
    li_writes (pb_link p1) = [] \<and> li_clock (pb_link p1) = [30] \<and> \<not> br_aligned (pb_bridge p1)"
proof -
  have "\<exists>bs. encode_hello demo_hello = Inr bs" by (simp add: encode_hello_def encode_simps demo_hello_def)
  then have enc: "encode_hello demo_hello = Inr (fm_payload hello_frame)" by (auto simp: hello_frame_def)
  define p1 where "p1 = p0\<lparr>pb_link := answering_link\<lparr>li_sent := [wire demo_sent]\<rparr>\<rparr>"
  have sent: "send_frame demo_sent p0 = (Inr (), p1)"
    by (simp add: send_frame_def frame_encode_Inr [THEN iffD2] demo_sent_ok link_write_def p1_def assms answering_link_def Let_def)
  define p2 where "p2 = (count_frame p1)\<lparr>pb_link := (pb_link p1)\<lparr>li_clock := [20, 30]\<rparr>\<rparr>"
  have now: "local_now (count_frame p1) = (10, p2)"
    by (simp add: local_now_def p2_def p1_def count_frame_def answering_link_def)
  have steps: "handshake demo_publisher demo_script p0 = await_reply (on_hello_ack 10) p2"
    using enc sent now
    by (simp add: handshake_def demo_publisher_def demo_script_def demo_hello_def demo_sent_def assms)
  obtain b bs where w: "wire ack_frame = b # bs" using length_wire [of ack_frame] by (cases "wire ack_frame") auto
  have "length (wire ack_frame) \<le> fd_max_buffered default_decoder"
    using ack_payload(2) by (simp add: length_wire default_decoder_def kMaxFramePayload_def)
  then have push: "decoder_push (wire ack_frame) (pb_decoder p2) = (Inr (), default_decoder\<lparr>fd_buffer := wire ack_frame\<rparr>)"
    by (simp add: decoder_push_def p2_def p1_def count_frame_def assms Let_def) (simp add: default_decoder_def)
  obtain p3 where p3: "replies (on_hello_ack 10) False (default_decoder\<lparr>fd_buffer := wire ack_frame\<rparr>) p2 = (None, True, p3)"
    "rp_epoch (pb_report p3) = 9" "li_sent (pb_link p3) = li_sent (pb_link p2)" "pb_sequence p3 = pb_sequence p2"
    "li_writes (pb_link p3) = li_writes (pb_link p2)" "li_clock (pb_link p3) = drop 1 (li_clock (pb_link p2))"
    "pb_bridge p3 = pb_bridge p2" using answered_replies [of 10 p2] by (elim exE conjE) (rule that)
  have "await (on_hello_ack 10) [Some (wire ack_frame)] p2 = (None, [], p3)"
    using push p3(1) by (simp add: w)
  moreover have "li_reads (pb_link p2) = [Some (wire ack_frame)]" by (simp add: p2_def p1_def answering_link_def)
  ultimately have run: "handshake demo_publisher demo_script p0 = (None, p3\<lparr>pb_link := (pb_link p3)\<lparr>li_reads := []\<rparr>\<rparr>)"
    by (simp add: steps await_reply_def)
  have fields: "li_sent (pb_link p2) = [wire demo_sent]" "pb_sequence p2 = 1" "li_writes (pb_link p2) = []"
    "li_clock (pb_link p2) = [20, 30]" "\<not> br_aligned (pb_bridge p2)"
    by (simp_all add: p2_def p1_def count_frame_def answering_link_def assms)
  show ?thesis
    by (rule exI [of _ "p3\<lparr>pb_link := (pb_link p3)\<lparr>li_reads := []\<rparr>\<rparr>"]) (simp add: run p3(2-7) fields)
qed

lemma answered_batch:
  assumes "rp_epoch (pb_report p) = 9" and "pb_sequence p = 1" and "li_reads (pb_link p) = []" and "li_writes (pb_link p) = []"
    and "li_clock (pb_link p) = [30]" and "\<not> br_aligned (pb_bridge p)"
  shows "\<exists>p'. send_batch demo_publisher demo_script 0 p = (Some (Inl Err_Unavailable), p') \<and>
    li_sent (pb_link p') = li_sent (pb_link p) @ [wire demo_evidence]"
proof -
  obtain payload where pay: "encode_evidence sent_batch = Inr payload" using encode_sent_batch by blast
  have enc: "encode_evidence (publisher_batch demo_publisher demo_script 9 1 30 0) = Inr payload"
    using pay by (simp only: sent_batch_def)
  have f: "publisher_frame demo_publisher Ft_Evidence 9 1 (make_nonce (pu_publisher demo_publisher) 1) payload = demo_evidence"
    by (simp add: demo_evidence_def pay demo_publisher_def)
  have code: "frame_encode demo_evidence [] = Inr (wire demo_evidence)" by (simp add: frame_encode_Inr demo_evidence_ok)
  have now: "local_now p = (30, p\<lparr>pb_link := (pb_link p)\<lparr>li_clock := []\<rparr>\<rparr>)" by (simp add: local_now_def assms(5))
  show ?thesis
    by (simp add: send_batch_def now assms(1-4,6) stamp_def Let_def demo_metrics enc f send_frame_def code link_write_def
        await_reply_def count_frame_def)
qed

lemma answered_run:
  "\<exists>link'. run_publisher demo_publisher demo_script answering_link = (Inl Err_Unavailable, link') \<and>
     li_sent link' = [wire demo_sent, wire demo_evidence]"
proof -
  define p0 where "p0 = \<lparr>pb_report = new_report, pb_decoder = default_decoder, pb_sequence = 1,
    pb_bridge = \<lparr>br_offset = 0, br_aligned = False\<rparr>, pb_link = answering_link\<rparr>"
  obtain p1 where h: "handshake demo_publisher demo_script p0 = (None, p1)" and p1: "rp_epoch (pb_report p1) = 9"
    "li_sent (pb_link p1) = [wire demo_sent]" "pb_sequence p1 = 1" "li_reads (pb_link p1) = []"
    "li_writes (pb_link p1) = []" "li_clock (pb_link p1) = [30]" "\<not> br_aligned (pb_bridge p1)"
    using answered_handshake [OF p0_def] by (elim exE conjE) (rule that)
  obtain p2 where b: "send_batch demo_publisher demo_script 0 p1 = (Some (Inl Err_Unavailable), p2)"
    and s: "li_sent (pb_link p2) = li_sent (pb_link p1) @ [wire demo_evidence]"
    using answered_batch [OF p1(1,3-7)] by (elim exE conjE) (rule that)
  have args: "pu_endpoint demo_publisher \<noteq> []" "id_valid (pu_publisher demo_publisher)" "id_valid (pu_boot demo_publisher)"
    "sc_resources demo_script \<noteq> []" "id_valid (sc_domain demo_script)" "li_connect answering_link = Inr ()"
    "sc_send_hello demo_script" "\<not> sc_skip_handshake demo_script" "sc_samples demo_script * sc_repeats demo_script = 1"
    by (simp_all add: demo_publisher_def demo_script_def answering_link_def id_valid_def)
  have "run_publisher demo_publisher demo_script answering_link = (Inl Err_Unavailable, pb_link p2)"
    unfolding run_publisher_def Let_def p0_def [symmetric] by (simp add: args h b)
  then show ?thesis using s p1(2) by simp
qed

theorem publisher_stream_served_witness:
  "\<exists>(link' :: Link) fs epoch. li_sent link' = map wire fs \<and> evidence_sequences fs = [1] \<and>
     acknowledged (wire ack_frame) epoch \<and> (\<exists>f \<in> set fs. fm_type f = Ft_Evidence \<and> fh_epoch (fm_header f) = epoch) \<and>
     connection_loop (map Some (li_sent link')) [] (sy_node demo_system) =
       (case handle_all (map sealed fs) (new_conn []) (sy_node demo_system) of (c, n') \<Rightarrow> end_connection c n')"
proof -
  obtain link' where run: "run_publisher demo_publisher demo_script answering_link = (Inl Err_Unavailable, link')"
    and sent: "li_sent link' = [wire demo_sent, wire demo_evidence]" using answered_run by blast
  have "length (wire demo_sent) \<le> 180" "wire demo_sent \<noteq> []" "length (wire demo_evidence) \<le> 1080" "wire demo_evidence \<noteq> []"
    using hello_payload(2) encode_sent_batch length_wire [of demo_sent] length_wire [of demo_evidence]
    by (auto simp: demo_sent_def demo_evidence_def simp flip: length_0_conv)
  then have fits: "\<forall>b \<in> set (li_sent link'). b \<noteq> []" "length (concat (li_sent link')) \<le> fd_max_buffered default_decoder"
    by (simp_all add: sent default_decoder_def kMaxFramePayload_def)
  have pre: "li_sent answering_link = []" "\<forall>x \<in> set (sc_resources demo_script). id_valid x" "sc_send_hello demo_script"
    "\<not> sc_skip_handshake demo_script" "heard_from (li_reads answering_link) = wire ack_frame"
    by (simp_all add: answering_link_def demo_script_def id_valid_def heard_from_def)
  show ?thesis
    using publisher_stream_served [OF run pre(1,2) refl fits, of "[]" "sy_node demo_system"]
  proof (elim exE conjE, goal_cases)
    case (1 fs k epoch)
    from 1(1) sent obtain f g where fg: "fs = [f, g]" "wire f = wire demo_sent" "wire g = wire demo_evidence" by auto
    have types: "fm_type f = Ft_Hello" "fm_type g = Ft_Evidence"
      using wire_type [OF fg(2)] wire_type [OF fg(3)] by (simp_all add: demo_sent_def demo_evidence_def)
    have "length (evidence_sequences fs) = 1" by (simp add: fg(1) types evidence_sequences_def)
    with 1(3) have "length [1..<Suc k] = 1" by (metis length_map)
    then have k: "k = 1" by (simp only: length_upt)
    have "\<exists>f \<in> set fs. fm_type f = Ft_Evidence \<and> fh_epoch (fm_header f) = epoch" using 1(5) fg(1) types by simp
    moreover have "evidence_sequences fs = [1]" using 1(3) k by simp
    moreover have "acknowledged (wire ack_frame) epoch" using 1(4) k pre(3-5) by simp
    ultimately show ?case using 1(1,2) by (intro exI [of _ link'] exI [of _ fs] exI [of _ epoch] conjI)
  qed
qed

section \<open>The tick bridge\<close>

lemma uint_midpoint:
  assumes "before \<le> after"
  shows "uint (midpoint before after) = uint before + (uint after - uint before) div 2"
proof -
  have d: "uint ((after - before) div 2) = (uint after - uint before) div 2"
    using assms by (simp add: uint_div uint_minus_simple_alt)
  have "0 \<le> uint after - uint before" using assms by (simp add: word_le_def)
  moreover have "uint after < 2 ^ 64" "0 \<le> uint before" using uint_lt2p [of after] by simp_all
  ultimately have "uint before + (uint after - uint before) div 2 < 2 ^ 64" "0 \<le> uint before + (uint after - uint before) div 2"
    by linarith+
  then show ?thesis by (simp add: midpoint_def uint_word_ariths(1) d)
qed

lemma uint_stamp:
  assumes "before \<le> after" and "after \<le> local" and "uint local < 2 ^ 61" and "uint tick < 2 ^ 62" and "tick \<noteq> kNoTick"
  shows "uint (stamp (align before after tick b) local) = uint local + uint tick - uint (midpoint before after)"
proof -
  let ?m = "midpoint before after" and ?v = "uint local + uint tick - uint (midpoint before after)"
  have m: "uint ?m \<le> uint local"
    using assms(1,2) uint_midpoint [OF assms(1)] by (simp add: word_le_def)
  have "uint tick \<noteq> 0" using assms(5) by (simp add: kNoTick_def uint_0_iff)
  then have tick: "0 < uint tick" using uint_ge_0 [of tick] by linarith
  have "?v < 2 ^ 61 + 2 ^ 62" using assms(3,4) uint_ge_0 [of ?m] by linarith
  moreover have "(2 :: int) ^ 61 + 2 ^ 62 < 2 ^ 63" by simp
  ultimately have range: "0 < ?v" "?v < 2 ^ 63" using m tick by linarith+
  have u: "uint (local + (tick - ?m)) = ?v"
    using range by (simp add: uint_word_ariths mod_simps add_diff_eq)
  have "sint (local + (tick - ?m)) = ?v"
    using range by (simp add: sint_uint u signed_take_bit_int_eq_self)
  then show ?thesis using assms(5) range u by (simp add: stamp_def align_def Let_def)
qed

text \<open>C39: the tick bridge errs by at most half the round trip. If the coordinator's clock leads the publisher's by a constant
  and was read at local time \<open>t\<close>, then every later stamp is off the coordinator's clock by exactly the distance
  of \<open>t\<close> from the midpoint of the measured round trip: by at most half of it, in either direction, when \<open>t\<close> lies
  within it, and into the past only when the coordinator read its clock before the publisher did.\<close>

theorem bridge_error_bounded:
  assumes "before \<le> after" and "after \<le> local" and "t \<le> after" and "uint local < 2 ^ 61" and "uint tick < 2 ^ 62"
    and "tick \<noteq> kNoTick" and "uint tick = uint t + lead"
  shows "uint (stamp (align before after tick b) local) - (uint local + lead) = uint t - uint (midpoint before after) \<and>
    (before \<le> t \<longrightarrow>
       \<bar>uint (stamp (align before after tick b) local) - (uint local + lead)\<bar> \<le> (uint after - uint before + 1) div 2) \<and>
    (t \<le> before \<longrightarrow> uint (stamp (align before after tick b) local) \<le> uint local + lead)"
proof -
  note s = uint_stamp [OF assms(1,2,4,5,6), of b]
  note m = uint_midpoint [OF assms(1)]
  have "uint before \<le> uint after" "uint t \<le> uint after" using assms(1,3) by (simp_all add: word_le_def)
  then show ?thesis using s m assms(7) by (auto simp: word_le_def)
qed

theorem bridge_error_bounded_witness:
  "uint (stamp (align 100 300 1000300 \<lparr>br_offset = 0, br_aligned = False\<rparr>) 500) = 1000500 + 100"
  using bridge_error_bounded [of 100 300 500 300 1000300 1000000 "\<lparr>br_offset = 0, br_aligned = False\<rparr>"]
    uint_midpoint [of 100 300]
  by (simp add: kNoTick_def)

text \<open>
  The script's \<^verbatim>\<open>request_full_authority\<close> plays no part: the Hello always asks for everything. The first evidence frame
  repeats the Hello's sequence number and, with it, its nonce.
\<close>

lemma full_authority_not_consulted:
  "handshake po (sc\<lparr>sc_request_full_authority := x\<rparr>) p = handshake po sc p"
  by (simp add: handshake_def)

end
