(* ===== verification/NCF_Threads.thy ===== *)
theory NCF_Threads
  imports NCF_Coordinator
begin

text \<open>
  The threads of a coordinator, \<^verbatim>\<open>src/runtime/coordinator.cpp\<close>: the thread of \<^verbatim>\<open>run\<close>, the connection threads with
  their registry, the evaluation thread, the stop flag, and the peers. A move is one critical section of the registry
  mutex, one blocking call or one action between two of them. What a frame does to the fabric is in NCF_Node; here the
  handling of a frame only takes time, and may write a reply.
\<close>

section \<open>State\<close>

text \<open>
  A connection thread tests the stop flag at the head of its loop, is blocked in \<^verbatim>\<open>read\<close>, handles the frames that are complete
  in its decoder (their number), is blocked in \<^verbatim>\<open>write\<close> with a reply (and the frames that are left), has left its loop, has
  removed its connection from the registry, has destroyed its channel, or has set its done flag, which is its last
  action.
\<close>

datatype Phase = Testing | InRead | Handling nat | InWrite nat | Leaving | Removed | Freed | Finished

text \<open>
  The thread of \<^verbatim>\<open>run\<close>: at the head of \<^verbatim>\<open>accept_loop\<close>, in \<^verbatim>\<open>accept\<close>, with a channel registered and not yet given to a thread, past
  \<^verbatim>\<open>accept_loop\<close>; then, the stop flag set, before \<^verbatim>\<open>cancel_all_connections\<close> copies the registry, with the copied channels left to
  cancel, before reaping, before counting the threads that remain, and returned.
\<close>

datatype Main = Looping | Accepting | Launching nat | Stopping | Stopped | Cancelling | Reaping | Checking | Returned

record Threads =
  th_stop :: bool
  th_max :: nat
  th_next :: nat
  th_main :: Main
  th_sweep :: bool
  th_registry :: "nat list"
  th_workers :: "(nat \<times> Phase) list"
  th_cancels :: "nat list"
  th_joined :: "nat list"

definition start_threads :: "nat \<Rightarrow> Threads" where
  "start_threads limit =
     \<lparr>th_stop = False, th_max = limit, th_next = 1, th_main = Looping, th_sweep = True, th_registry = [], th_workers = [],
      th_cancels = [], th_joined = []\<rparr>"

definition add_connection :: "nat \<Rightarrow> Threads \<Rightarrow> Threads" where
  "add_connection i s = s\<lparr>th_registry := th_registry s @ [i]\<rparr>"

definition remove_connection :: "nat \<Rightarrow> Threads \<Rightarrow> Threads" where
  "remove_connection i s = s\<lparr>th_registry := filter (\<lambda>j. j \<noteq> i) (th_registry s)\<rparr>"

definition set_phase :: "nat \<Rightarrow> Phase \<Rightarrow> Threads \<Rightarrow> Threads" where
  "set_phase i p s = s\<lparr>th_workers := map (\<lambda>(j, q). (j, if j = i then p else q)) (th_workers s)\<rparr>"

text \<open>Only threads whose done flag is set are taken out and joined, so joining does not block.\<close>

definition reap_finished_threads :: "Threads \<Rightarrow> Threads" where
  "reap_finished_threads s =
     s\<lparr>th_workers := filter (\<lambda>(i, p). p \<noteq> Finished) (th_workers s),
       th_joined := th_joined s @ map fst (filter (\<lambda>(i, p). p = Finished) (th_workers s))\<rparr>"

text \<open>After \<^verbatim>\<open>accept\<close> gave a channel: over the limit it is closed, else registered, then given to a thread.\<close>

definition register_channel :: "Threads \<Rightarrow> Threads" where
  "register_channel s =
     (let s1 = s\<lparr>th_next := th_next s + 1\<rparr> in
      if length (th_workers s) \<ge> th_max s then s1\<lparr>th_main := Looping\<rparr>
      else (add_connection (th_next s) s1)\<lparr>th_main := Launching (th_next s)\<rparr>)"

definition launch_worker :: "nat \<Rightarrow> Threads \<Rightarrow> Threads" where
  "launch_worker i s = s\<lparr>th_main := Looping, th_workers := th_workers s @ [(i, Testing)]\<rparr>"

text \<open>
  \<^verbatim>\<open>cancel_all_connections\<close> copies the channel pointers under the lock; each is cancelled afterwards without it. A cancellation
  ends the read or the write that is pending on the channel at that moment and nothing else, as \<^verbatim>\<open>CancelIoEx\<close> does: a thread
  that is not blocked yet does not see it.
\<close>

definition cancel_all_connections :: "Threads \<Rightarrow> Threads" where
  "cancel_all_connections s = s\<lparr>th_cancels := th_registry s\<rparr>"

fun cancel_phase :: "Phase \<Rightarrow> Phase" where
  "cancel_phase InRead = Leaving"
| "cancel_phase (InWrite n) = Leaving"
| "cancel_phase p = p"

definition cancel_pending :: "nat \<Rightarrow> Threads \<Rightarrow> Threads" where
  "cancel_pending i s = s\<lparr>th_workers := map (\<lambda>(j, p). (j, if j = i then cancel_phase p else p)) (th_workers s)\<rparr>"

section \<open>Moves\<close>

text \<open>The outcomes of \<^verbatim>\<open>accept\<close>: a channel, a failure after which the loop goes on, or one that ends the loop.\<close>

datatype Accepted = Channel | Again | Over

definition run_move :: "Accepted \<Rightarrow> Threads \<Rightarrow> Threads" where
  "run_move outcome s =
     (case th_main s of
        Looping \<Rightarrow> s\<lparr>th_main := if th_stop s then Stopping else Accepting\<rparr>
      | Accepting \<Rightarrow>
          (case outcome of
             Channel \<Rightarrow> register_channel (reap_finished_threads s)
           | Again \<Rightarrow> s\<lparr>th_main := Looping\<rparr>
           | Over \<Rightarrow> s\<lparr>th_main := Stopping\<rparr>)
      | Launching i \<Rightarrow> launch_worker i s
      | Stopping \<Rightarrow> s\<lparr>th_stop := True, th_main := Stopped\<rparr>
      | Stopped \<Rightarrow> (cancel_all_connections s)\<lparr>th_main := Cancelling\<rparr>
      | Cancelling \<Rightarrow>
          (case th_cancels s of
             [] \<Rightarrow> s\<lparr>th_main := Reaping\<rparr>
           | i # rest \<Rightarrow> cancel_pending i (s\<lparr>th_cancels := rest\<rparr>))
      | Reaping \<Rightarrow> (reap_finished_threads s)\<lparr>th_main := Checking\<rparr>
      | Checking \<Rightarrow> s\<lparr>th_main := if th_workers s = [] then Returned else Stopped\<rparr>
      | Returned \<Rightarrow> s)"

text \<open>The evaluation thread is joined before the first reaping.\<close>

definition run_can_move :: "Threads \<Rightarrow> bool" where
  "run_can_move s \<longleftrightarrow> th_main s \<noteq> Returned \<and> (th_main s = Reaping \<longrightarrow> \<not> th_sweep s)"

text \<open>
  A connection thread handles one frame at a time: without a reply, with one, or so that the connection ends. It makes its
  own moves except in \<^verbatim>\<open>read\<close> and \<^verbatim>\<open>write\<close>, which the peer or a cancellation ends.
\<close>

datatype Served = Quiet | Reply | Unhealthy

fun serve_phase :: "bool \<Rightarrow> Served \<Rightarrow> Phase \<Rightarrow> Phase" where
  "serve_phase stop outcome Testing = (if stop then Leaving else InRead)"
| "serve_phase stop outcome (Handling 0) = Testing"
| "serve_phase stop outcome (Handling (Suc n)) =
     (case outcome of Quiet \<Rightarrow> Handling n | Reply \<Rightarrow> InWrite n | Unhealthy \<Rightarrow> Leaving)"
| "serve_phase stop outcome Leaving = Removed"
| "serve_phase stop outcome Removed = Freed"
| "serve_phase stop outcome Freed = Finished"
| "serve_phase stop outcome p = p"

fun blocked :: "Phase \<Rightarrow> bool" where
  "blocked InRead = True"
| "blocked (InWrite n) = True"
| "blocked p = False"

definition work_move :: "nat \<Rightarrow> Served \<Rightarrow> Threads \<Rightarrow> Threads" where
  "work_move i outcome s =
     (case map_of (th_workers s) i of
        None \<Rightarrow> s
      | Some p \<Rightarrow>
          (let s1 = set_phase i (serve_phase (th_stop s) outcome p) s in
           if p = Leaving then remove_connection i s1 else s1))"

definition work_can_move :: "nat \<Rightarrow> Threads \<Rightarrow> bool" where
  "work_can_move i s \<longleftrightarrow> (\<exists>p \<in> set_option (map_of (th_workers s) i). \<not> blocked p \<and> p \<noteq> Finished)"

text \<open>
  The peer of a blocked thread: it goes away, or it acts, so that a read returns bytes that complete some frames, at
  most one for each byte of the buffer, and a write is taken.
\<close>

datatype PeerEvent = Acts nat | Gone

fun peer_phase :: "PeerEvent \<Rightarrow> Phase \<Rightarrow> Phase" where
  "peer_phase (Acts n) InRead = Handling (min n kReadBufferBytes)"
| "peer_phase (Acts n) (InWrite k) = Handling k"
| "peer_phase Gone InRead = Leaving"
| "peer_phase Gone (InWrite k) = Leaving"
| "peer_phase event p = p"

definition peer_move :: "nat \<Rightarrow> PeerEvent \<Rightarrow> Threads \<Rightarrow> Threads" where
  "peer_move i event s =
     (case map_of (th_workers s) i of None \<Rightarrow> s | Some p \<Rightarrow> set_phase i (peer_phase event p) s)"

datatype Move = Run Accepted | Work nat Served | Peer nat PeerEvent | Sweep | Stop

fun can_move :: "Move \<Rightarrow> Threads \<Rightarrow> bool" where
  "can_move (Run outcome) s \<longleftrightarrow> run_can_move s"
| "can_move (Work i outcome) s \<longleftrightarrow> work_can_move i s"
| "can_move (Peer i event) s \<longleftrightarrow> (\<exists>p \<in> set_option (map_of (th_workers s) i). blocked p)"
| "can_move Sweep s \<longleftrightarrow> th_stop s \<and> th_sweep s"
| "can_move Stop s \<longleftrightarrow> True"

text \<open>The evaluation thread tests the stop flag between two evaluations and ends when it is set.\<close>

fun move_threads :: "Move \<Rightarrow> Threads \<Rightarrow> Threads" where
  "move_threads (Run outcome) s = run_move outcome s"
| "move_threads (Work i outcome) s = work_move i outcome s"
| "move_threads (Peer i event) s = peer_move i event s"
| "move_threads Sweep s = s\<lparr>th_sweep := False\<rparr>"
| "move_threads Stop s = s\<lparr>th_stop := True\<rparr>"

text \<open>Who makes a move. The threads of the coordinator make theirs sooner or later; peers owe nothing.\<close>

datatype Actor = Runner | Worker nat | Sweeper | Outside

fun actor :: "Move \<Rightarrow> Actor" where
  "actor (Run outcome) = Runner"
| "actor (Work i outcome) = Worker i"
| "actor Sweep = Sweeper"
| "actor m = Outside"

inductive thread_step :: "Actor \<Rightarrow> Threads \<Rightarrow> Threads \<Rightarrow> bool" where
  thr_move: "can_move m s \<Longrightarrow> thread_step (actor m) s (move_threads m s)"

inductive_cases thread_stepE: "thread_step a s s'"

inductive reachable_threads :: "Threads \<Rightarrow> bool" where
  thr_start: "reachable_threads (start_threads limit)"
| thr_run: "reachable_threads s \<Longrightarrow> thread_step a s s' \<Longrightarrow> reachable_threads s'"

text \<open>
  An infinite run, that may rest at any moment. It is fair when the coordinator's threads are not kept waiting for ever: a
  thread that can move does, or comes to be unable to.
\<close>

definition fair_run :: "(nat \<Rightarrow> Threads) \<Rightarrow> bool" where
  "fair_run f \<longleftrightarrow>
     (\<forall>n. f (Suc n) = f n \<or> (\<exists>a. thread_step a (f n) (f (Suc n)))) \<and>
     (\<forall>a n. a \<noteq> Outside \<longrightarrow> (\<exists>m \<ge> n. (\<forall>s. \<not> thread_step a (f m) s) \<or> thread_step a (f m) (f (Suc m))))"

definition launching :: "Threads \<Rightarrow> nat option" where
  "launching s = (case th_main s of Launching i \<Rightarrow> Some i | _ \<Rightarrow> None)"

definition registered :: "Phase \<Rightarrow> bool" where
  "registered p \<longleftrightarrow> p \<noteq> Removed \<and> p \<noteq> Freed \<and> p \<noteq> Finished"

definition channel_alive :: "Threads \<Rightarrow> nat \<Rightarrow> bool" where
  "channel_alive s i \<longleftrightarrow> launching s = Some i \<or> (\<exists>(j, p) \<in> set (th_workers s). j = i \<and> p \<noteq> Freed \<and> p \<noteq> Finished)"

section \<open>The registry\<close>

definition threads_inv :: "Threads \<Rightarrow> bool" where
  "threads_inv s \<longleftrightarrow>
     set (th_registry s) = {i. launching s = Some i \<or> (\<exists>p. (i, p) \<in> set (th_workers s) \<and> registered p)} \<and>
     distinct (map fst (th_workers s)) \<and> (\<forall>i. launching s = Some i \<longrightarrow> i \<notin> fst ` set (th_workers s)) \<and>
     (\<forall>i. launching s = Some i \<longrightarrow> i < th_next s) \<and> (\<forall>i \<in> fst ` set (th_workers s). i < th_next s) \<and>
     length (th_workers s) + (if launching s = None then 0 else 1) \<le> th_max s"

lemma set_phase_workers:
  "distinct (map fst (th_workers s)) \<Longrightarrow> (i, q) \<in> set (th_workers s) \<Longrightarrow>
     (j, p) \<in> set (th_workers (set_phase i r s)) \<longleftrightarrow> (if j = i then p = r else (j, p) \<in> set (th_workers s))"
  by (force simp: set_phase_def split: if_splits)

lemma set_phase_ids: "map fst (th_workers (set_phase i r s)) = map fst (th_workers s)"
  by (simp add: set_phase_def split_def)

lemma set_phase_rest [simp]:
  "th_registry (set_phase i r s) = th_registry s" "th_main (set_phase i r s) = th_main s"
  "th_next (set_phase i r s) = th_next s" "th_max (set_phase i r s) = th_max s" "th_stop (set_phase i r s) = th_stop s"
  "length (th_workers (set_phase i r s)) = length (th_workers s)" "th_cancels (set_phase i r s) = th_cancels s"
  "th_sweep (set_phase i r s) = th_sweep s" "th_joined (set_phase i r s) = th_joined s"
  by (simp_all add: set_phase_def)

lemma remove_connection_rest [simp]:
  "th_main (remove_connection i s) = th_main s" "th_workers (remove_connection i s) = th_workers s"
  "th_next (remove_connection i s) = th_next s" "th_max (remove_connection i s) = th_max s"
  "th_stop (remove_connection i s) = th_stop s" "th_cancels (remove_connection i s) = th_cancels s"
  "th_sweep (remove_connection i s) = th_sweep s" "th_joined (remove_connection i s) = th_joined s"
  by (simp_all add: remove_connection_def)

lemma set_phase_fst: "fst ` set (th_workers (set_phase i r s)) = fst ` set (th_workers s)"
  by (metis set_phase_ids set_map)

lemma phase_unique: "distinct (map fst xs) \<Longrightarrow> (i, p) \<in> set xs \<Longrightarrow> (i, q) \<in> set xs \<Longrightarrow> p = q"
  by (metis eq_key_imp_eq_value)

text \<open>A cancellation is a change of one thread's phase.\<close>

lemma cancel_pending_eq:
  assumes "distinct (map fst (th_workers s))"
  shows "cancel_pending i s = (case map_of (th_workers s) i of None \<Rightarrow> s | Some p \<Rightarrow> set_phase i (cancel_phase p) s)"
proof (cases "map_of (th_workers s) i")
  case None
  then have "i \<notin> fst ` set (th_workers s)" by (simp add: map_of_eq_None_iff)
  then have "map (\<lambda>(j, p). (j, if j = i then cancel_phase p else p)) (th_workers s) = th_workers s"
    by (intro map_idI) (force simp: image_iff)
  with None show ?thesis by (simp add: cancel_pending_def)
next
  case (Some p)
  have "(j, q) \<in> set (th_workers s) \<Longrightarrow> j = i \<Longrightarrow> q = p" for j q
    using Some phase_unique [OF assms] map_of_SomeD by fast
  then have "map (\<lambda>(j, p). (j, if j = i then cancel_phase p else p)) (th_workers s) =
      map (\<lambda>(j, q). (j, if j = i then cancel_phase p else q)) (th_workers s)"
    by (intro map_cong) auto
  with Some show ?thesis by (simp add: cancel_pending_def set_phase_def)
qed

lemma launching_simps [simp]:
  "launching (set_phase i r s) = launching s" "launching (remove_connection i s) = launching s"
  "launching (s\<lparr>th_stop := b\<rparr>) = launching s" "launching (s\<lparr>th_sweep := b\<rparr>) = launching s"
  "launching (s\<lparr>th_cancels := c\<rparr>) = launching s" "launching (s\<lparr>th_main := Launching j\<rparr>) = Some j"
  "launching (reap_finished_threads s) = launching s"
  by (simp_all add: launching_def reap_finished_threads_def)

lemma set_phase_registered:
  assumes "distinct (map fst (th_workers s))" and "(i, q) \<in> set (th_workers s)" and "registered r = registered q"
  shows "(\<exists>p. (j, p) \<in> set (th_workers (set_phase i r s)) \<and> registered p) \<longleftrightarrow>
    (\<exists>p. (j, p) \<in> set (th_workers s) \<and> registered p)"
proof (cases "j = i")
  case True
  have "(i, p) \<in> set (th_workers s) \<longleftrightarrow> p = q" for p using phase_unique [OF assms(1,2)] assms(2) by blast
  then show ?thesis using set_phase_workers [OF assms(1,2), of j _ r] True assms(3) by simp
next
  case False
  then show ?thesis using set_phase_workers [OF assms(1,2), of j _ r] by simp
qed

lemma set_phase_inv:
  assumes "threads_inv s" and "(i, q) \<in> set (th_workers s)" and "registered r = registered q"
  shows "threads_inv (set_phase i r s)"
proof -
  have d: "distinct (map fst (th_workers s))" using assms(1) by (simp add: threads_inv_def)
  show ?thesis
    using assms(1) by (simp add: threads_inv_def set_phase_ids set_phase_fst set_phase_registered [OF d assms(2,3)])
qed

lemma leave_inv:
  assumes "threads_inv s" and "(i, Leaving) \<in> set (th_workers s)"
  shows "threads_inv (remove_connection i (set_phase i Removed s))"
proof -
  have d: "distinct (map fst (th_workers s))" and l: "launching s \<noteq> Some i"
    using assms by (force simp: threads_inv_def)+
  have "(\<exists>p. (j, p) \<in> set (th_workers (set_phase i Removed s)) \<and> registered p) \<longleftrightarrow>
      j \<noteq> i \<and> (\<exists>p. (j, p) \<in> set (th_workers s) \<and> registered p)" for j
    using set_phase_workers [OF d assms(2), of j _ Removed] by (auto simp: registered_def)
  with assms(1) l show ?thesis
    by (auto simp: threads_inv_def set_phase_ids set_phase_fst) (force simp: remove_connection_def)+
qed

lemma reap_inv: "threads_inv s \<Longrightarrow> threads_inv (reap_finished_threads s)"
proof -
  assume inv: "threads_inv s"
  have "length (filter (\<lambda>(i, p). p \<noteq> Finished) (th_workers s)) \<le> length (th_workers s)" by simp
  with inv have "length (filter (\<lambda>(i, p). p \<noteq> Finished) (th_workers s)) + (if launching s = None then 0 else 1) \<le> th_max s"
    unfolding threads_inv_def by linarith
  with inv show ?thesis
    by (auto simp: threads_inv_def reap_finished_threads_def launching_def registered_def distinct_map_filter)
qed

lemma main_only_inv:
  "threads_inv s \<Longrightarrow> launching s = None \<Longrightarrow> launching (s\<lparr>th_main := m\<rparr>) = None \<Longrightarrow> threads_inv (s\<lparr>th_main := m\<rparr>)"
  by (simp add: threads_inv_def)

lemma stop_inv: "threads_inv (s\<lparr>th_stop := b\<rparr>) = threads_inv s" "threads_inv (s\<lparr>th_sweep := b\<rparr>) = threads_inv s"
  "threads_inv (s\<lparr>th_cancels := c\<rparr>) = threads_inv s"
  by (simp_all add: threads_inv_def)

lemma register_inv:
  assumes "threads_inv s" and "launching s = None"
  shows "threads_inv (register_channel s)"
proof (cases "length (th_workers s) \<ge> th_max s")
  case True
  with assms show ?thesis by (auto simp: threads_inv_def register_channel_def launching_def)
next
  case False
  have "th_next s \<notin> fst ` set (th_workers s)" using assms(1) by (auto simp: threads_inv_def)
  moreover have "registered p \<Longrightarrow> (i, p) \<in> set (th_workers s) \<Longrightarrow> i \<in> set (th_registry s)" for i p
    using assms(1) by (auto simp: threads_inv_def)
  ultimately show ?thesis using assms False
    by (auto simp: threads_inv_def register_channel_def add_connection_def)
qed

lemma launch_inv: "threads_inv s \<Longrightarrow> th_main s = Launching i \<Longrightarrow> threads_inv (launch_worker i s)"
  by (auto simp: threads_inv_def launch_worker_def launching_def registered_def)

lemma map_of_worker: "map_of (th_workers s) i = Some p \<Longrightarrow> (i, p) \<in> set (th_workers s)"
  by (rule map_of_SomeD)

lemma run_move_inv:
  assumes "threads_inv s"
  shows "threads_inv (run_move outcome s)"
proof (cases "th_main s")
  case Accepting
  then have l: "launching s = None" by (simp add: launching_def)
  then have r: "threads_inv (register_channel (reap_finished_threads s))" by (simp add: register_inv reap_inv assms)
  have "threads_inv (s\<lparr>th_main := m\<rparr>)" if "m = Looping \<or> m = Stopping" for m
    using that by (auto simp: launching_def intro: main_only_inv [OF assms l])
  with Accepting r show ?thesis by (simp add: run_move_def split: Accepted.split)
next
  case (Launching i)
  with assms show ?thesis by (simp add: run_move_def launch_inv)
next
  case Cancelling
  have d: "distinct (map fst (th_workers s))" using assms by (simp add: threads_inv_def)
  have keep: "registered (cancel_phase p) = registered p" for p by (cases p) (simp_all add: registered_def)
  show ?thesis
  proof (cases "th_cancels s")
    case Nil
    with Cancelling assms show ?thesis by (simp add: run_move_def main_only_inv launching_def)
  next
    case (Cons i rest)
    with Cancelling assms d show ?thesis
      by (auto simp: run_move_def cancel_pending_eq stop_inv keep split: option.splits
          intro!: set_phase_inv [of _ i] dest: map_of_worker)
  qed
next
  case Reaping
  then have "launching s = None" by (simp add: launching_def)
  then have l: "launching (reap_finished_threads s) = None" by simp
  have "threads_inv ((reap_finished_threads s)\<lparr>th_main := Checking\<rparr>)"
    by (rule main_only_inv [OF reap_inv [OF assms] l]) (simp add: launching_def)
  with Reaping show ?thesis by (simp add: run_move_def)
qed (use assms in \<open>auto simp: run_move_def main_only_inv launching_def stop_inv cancel_all_connections_def
      intro!: main_only_inv\<close>)

lemma work_move_inv:
  assumes "threads_inv s" and "work_can_move i s"
  shows "threads_inv (work_move i outcome s)"
proof -
  obtain p where p: "map_of (th_workers s) i = Some p" "\<not> blocked p" "p \<noteq> Finished"
    using assms(2) by (auto simp: work_can_move_def)
  show ?thesis
  proof (cases "p = Leaving")
    case True
    with p leave_inv [OF assms(1)] show ?thesis by (auto simp: work_move_def Let_def dest: map_of_worker)
  next
    case False
    have "registered (serve_phase (th_stop s) outcome p) = registered p"
      using p False by (cases "(th_stop s, outcome, p)" rule: serve_phase.cases) (auto simp: registered_def split: Served.splits)
    with p False set_phase_inv [OF assms(1) map_of_worker [OF p(1)]] show ?thesis by (simp add: work_move_def Let_def)
  qed
qed

lemma peer_move_inv: "threads_inv s \<Longrightarrow> threads_inv (peer_move i event s)"
proof -
  have keep: "registered (peer_phase event p) = registered p" for p
    by (cases "(event, p)" rule: peer_phase.cases) (simp_all add: registered_def)
  assume "threads_inv s"
  with keep show ?thesis
    by (auto simp: peer_move_def split: option.splits intro!: set_phase_inv [of _ i] dest: map_of_worker)
qed

lemma threads_inv_step:
  assumes "thread_step a s s'" and "threads_inv s"
  shows "threads_inv s'"
  using assms(1)
proof (rule thread_stepE)
  fix m assume "a = actor m" "s' = move_threads m s" "can_move m s"
  with assms(2) show ?thesis by (cases m) (simp_all add: run_move_inv work_move_inv peer_move_inv stop_inv)
qed

lemma threads_inv_reachable: "reachable_threads s \<Longrightarrow> threads_inv s"
proof (induction rule: reachable_threads.induct)
  case (thr_start limit)
  show ?case by (simp add: threads_inv_def start_threads_def launching_def)
qed (rule threads_inv_step)

lemma registered_channel_alive: "threads_inv s \<Longrightarrow> i \<in> set (th_registry s) \<Longrightarrow> channel_alive s i"
  by (force simp: threads_inv_def channel_alive_def registered_def)

section \<open>Shutdown\<close>

text \<open>
  A bound on the moves that the threads have left once the stop flag is set. A thread that is blocked in \<^verbatim>\<open>read\<close> may still
  receive one buffer of frames; a channel that \<^verbatim>\<open>accept\<close> is about to give becomes one more thread.
\<close>

fun actions_left :: "Phase \<Rightarrow> nat" where
  "actions_left InRead = 2 * kReadBufferBytes + 6"
| "actions_left (Handling n) = 2 * n + 5"
| "actions_left (InWrite n) = 2 * n + 6"
| "actions_left Testing = 4"
| "actions_left Leaving = 3"
| "actions_left Removed = 2"
| "actions_left Freed = 1"
| "actions_left Finished = 0"

definition entering :: "Main \<Rightarrow> nat" where
  "entering m = (case m of Accepting \<Rightarrow> 6 | Launching i \<Rightarrow> 5 | _ \<Rightarrow> 0)"

definition work_left :: "Threads \<Rightarrow> nat" where
  "work_left s = sum_list (map (actions_left \<circ> snd) (th_workers s)) + entering (th_main s) + (if th_sweep s then 1 else 0)"

lemma set_phase_sum:
  assumes "distinct (map fst xs)" and "(i, q) \<in> set xs"
  shows "sum_list (map (actions_left \<circ> snd) (map (\<lambda>(j, q). (j, if j = i then r else q)) xs)) + actions_left q =
    sum_list (map (actions_left \<circ> snd) xs) + actions_left r"
  using assms
proof (induction xs)
  case (Cons x xs)
  show ?case
  proof (cases "fst x = i")
    case True
    have rest: "\<forall>y \<in> set xs. fst y \<noteq> i" using True Cons.prems(1) by (auto simp: image_iff)
    then have "(i, q) \<notin> set xs" by auto
    then have "snd x = q" using Cons.prems(2) by auto
    from rest have "map (\<lambda>(j, q). (j, if j = i then r else q)) xs = xs" by (intro map_idI) auto
    with True \<open>snd x = q\<close> show ?thesis by (cases x) simp
  next
    case False
    with Cons show ?thesis by (cases x) auto
  qed
qed simp

lemma set_phase_work:
  "distinct (map fst (th_workers s)) \<Longrightarrow> map_of (th_workers s) i = Some q \<Longrightarrow>
     work_left (set_phase i r s) + actions_left q = work_left s + actions_left r"
  unfolding work_left_def set_phase_rest
  by (drule set_phase_sum [OF _ map_of_worker, of s i q r]) (simp_all add: set_phase_def)

lemma work_left_rest [simp]:
  "work_left (remove_connection i s) = work_left s" "work_left (s\<lparr>th_stop := b\<rparr>) = work_left s"
  "work_left (s\<lparr>th_cancels := c\<rparr>) = work_left s"
  by (simp_all add: work_left_def)

lemma serve_phase_less: "\<not> blocked p \<Longrightarrow> p \<noteq> Finished \<Longrightarrow> actions_left (serve_phase True outcome p) < actions_left p"
  by (cases "(True, outcome, p)" rule: serve_phase.cases) (auto split: Served.splits)

lemma peer_phase_less: "blocked p \<Longrightarrow> actions_left (peer_phase event p) < actions_left p"
  by (cases "(event, p)" rule: peer_phase.cases) (auto simp: kReadBufferBytes_def)

lemma cancel_phase_less: "blocked p \<Longrightarrow> actions_left (cancel_phase p) < actions_left p"
  by (cases p) simp_all

lemma cancel_phase_id: "\<not> blocked p \<Longrightarrow> cancel_phase p = p"
  by (cases p) simp_all

text \<open>Every move of a connection thread, a peer or the evaluation thread uses up work once the stop flag is set.\<close>

lemma work_move_less:
  assumes "threads_inv s" and "th_stop s" and "work_can_move i s"
  shows "work_left (work_move i outcome s) < work_left s"
proof -
  obtain p where p: "map_of (th_workers s) i = Some p" "\<not> blocked p" "p \<noteq> Finished"
    using assms(3) by (auto simp: work_can_move_def)
  have d: "distinct (map fst (th_workers s))" using assms(1) by (simp add: threads_inv_def)
  have "work_left (set_phase i (serve_phase True outcome p) s) < work_left s"
    using set_phase_work [OF d p(1), of "serve_phase True outcome p"] serve_phase_less [OF p(2,3), of outcome] by linarith
  with p(1) assms(2) show ?thesis by (cases "p = Leaving") (simp_all add: work_move_def Let_def)
qed

lemma peer_move_less:
  assumes "threads_inv s" and "can_move (Peer i event) s"
  shows "work_left (peer_move i event s) < work_left s"
proof -
  obtain p where p: "map_of (th_workers s) i = Some p" "blocked p" using assms(2) by auto
  have d: "distinct (map fst (th_workers s))" using assms(1) by (simp add: threads_inv_def)
  show ?thesis
    using set_phase_work [OF d p(1), of "peer_phase event p"] peer_phase_less [OF p(2), of event] p(1)
    by (simp add: peer_move_def)
qed

lemma cancel_pending_work:
  assumes "threads_inv s"
  shows "work_left (cancel_pending i s) \<le> work_left s"
    and "(i, p) \<in> set (th_workers s) \<Longrightarrow> blocked p \<Longrightarrow> work_left (cancel_pending i s) < work_left s"
    and "work_left (cancel_pending i s) = work_left s \<Longrightarrow> cancel_pending i s = s"
proof -
  have d: "distinct (map fst (th_workers s))" using assms by (simp add: threads_inv_def)
  have id: "set_phase i q s = s" if "map_of (th_workers s) i = Some q" for q
  proof -
    have "(j, r) \<in> set (th_workers s) \<Longrightarrow> j = i \<Longrightarrow> r = q" for j r
      using that phase_unique [OF d] map_of_worker by fast
    then have "map (\<lambda>(j, r). (j, if j = i then q else r)) (th_workers s) = th_workers s" by (intro map_idI) auto
    then show ?thesis by (simp add: set_phase_def)
  qed
  have lt: "work_left (cancel_pending i s) < work_left s" if "map_of (th_workers s) i = Some q" "blocked q" for q
    using set_phase_work [OF d that(1), of "cancel_phase q"] cancel_phase_less [OF that(2)] that(1)
    by (simp add: cancel_pending_eq [OF d])
  have eq: "cancel_pending i s = s" if "\<forall>q. map_of (th_workers s) i = Some q \<longrightarrow> \<not> blocked q"
    using that id by (auto simp: cancel_pending_eq [OF d] cancel_phase_id split: option.split)
  show "work_left (cancel_pending i s) \<le> work_left s" using lt eq by (metis less_imp_le order_refl)
  show "(i, p) \<in> set (th_workers s) \<Longrightarrow> blocked p \<Longrightarrow> work_left (cancel_pending i s) < work_left s"
    using lt d by (simp add: map_of_eq_Some_iff)
  show "work_left (cancel_pending i s) = work_left s \<Longrightarrow> cancel_pending i s = s" using lt eq by (metis less_irrefl)
qed

lemma reap_rest [simp]:
  "th_main (reap_finished_threads s) = th_main s" "th_registry (reap_finished_threads s) = th_registry s"
  "th_stop (reap_finished_threads s) = th_stop s" "th_sweep (reap_finished_threads s) = th_sweep s"
  "th_cancels (reap_finished_threads s) = th_cancels s"
  by (simp_all add: reap_finished_threads_def)

lemma reap_work [simp]: "work_left (reap_finished_threads s) = work_left s"
proof -
  have "sum_list (map (actions_left \<circ> snd) (filter (\<lambda>(i, p). p \<noteq> Finished) xs)) = sum_list (map (actions_left \<circ> snd) xs)" for xs
    by (induction xs) auto
  then show ?thesis by (simp add: work_left_def reap_finished_threads_def)
qed

lemma enter_work:
  "th_main s = Accepting \<Longrightarrow> work_left (register_channel s) < work_left s"
  "th_main s = Launching i \<Longrightarrow> work_left (launch_worker i s) < work_left s"
  by (simp_all add: work_left_def register_channel_def launch_worker_def add_connection_def Let_def entering_def)

lemma main_work: "entering m = entering (th_main s) \<Longrightarrow> work_left (s\<lparr>th_main := m\<rparr>) = work_left s"
  "entering m < entering (th_main s) \<Longrightarrow> work_left (s\<lparr>th_main := m\<rparr>) < work_left s"
  by (simp_all add: work_left_def)

lemma accepting_work: "th_main s = Accepting \<Longrightarrow> work_left (run_move outcome s) < work_left s"
  using enter_work(1) [of "reap_finished_threads s"] main_work(2) [of Looping s] main_work(2) [of Stopping s]
  by (cases outcome) (simp_all add: run_move_def entering_def)

text \<open>
  A move of the thread of \<^verbatim>\<open>run\<close> uses up work, or it is one of the loop that shuts down; then it leaves the registry alone and
  takes only finished threads away.
\<close>

definition undisturbed :: "Threads \<Rightarrow> Threads \<Rightarrow> bool" where
  "undisturbed s s' \<longleftrightarrow>
     th_registry s' = th_registry s \<and> th_sweep s' = th_sweep s \<and> set (th_workers s') \<subseteq> set (th_workers s) \<and>
     (\<forall>i p. (i, p) \<in> set (th_workers s) \<longrightarrow> p \<noteq> Finished \<longrightarrow> (i, p) \<in> set (th_workers s'))"

lemma undisturbed_same: "undisturbed s s" by (simp add: undisturbed_def)

lemma undisturbed_trans: "undisturbed s t \<Longrightarrow> undisturbed t u \<Longrightarrow> undisturbed s u" by (auto simp: undisturbed_def)

definition turns_left :: "Threads \<Rightarrow> nat" where
  "turns_left s =
     (case th_main s of
        Looping \<Rightarrow> length (th_registry s) + 6
      | Stopping \<Rightarrow> length (th_registry s) + 5
      | Stopped \<Rightarrow> length (th_registry s) + 4
      | Cancelling \<Rightarrow> length (th_cancels s) + 2
      | Reaping \<Rightarrow> 1
      | _ \<Rightarrow> 0)"

lemma cancel_turn:
  assumes "threads_inv s" and "th_main s = Cancelling" and "th_cancels s = i # rest"
  shows "work_left (run_move outcome s) \<le> work_left s"
    and "work_left (run_move outcome s) = work_left s \<Longrightarrow> run_move outcome s = s\<lparr>th_cancels := rest\<rparr>"
    and "(i, p) \<in> set (th_workers s) \<Longrightarrow> blocked p \<Longrightarrow> work_left (run_move outcome s) < work_left s"
  using cancel_pending_work [of "s\<lparr>th_cancels := rest\<rparr>" i] assms by (auto simp: run_move_def stop_inv)

lemma run_move_work:
  assumes "threads_inv s" and "th_stop s"
  shows "work_left (run_move outcome s) \<le> work_left s"
proof (cases "th_main s")
  case Accepting
  then show ?thesis using accepting_work [of s outcome] by simp
next
  case (Launching i)
  then show ?thesis using enter_work(2) [of s i] by (simp add: run_move_def)
next
  case Cancelling
  then show ?thesis
    using cancel_turn(1) [OF assms(1)] by (cases "th_cancels s") (auto simp: run_move_def work_left_def entering_def)
next
  case Reaping
  then show ?thesis
    using reap_work [of s] by (simp add: run_move_def main_work(1) entering_def)
qed (use assms in \<open>simp_all add: run_move_def work_left_def entering_def cancel_all_connections_def\<close>)

lemma run_move_settled:
  assumes "threads_inv s" and "th_stop s" and "work_left (run_move outcome s) = work_left s"
  shows "undisturbed s (run_move outcome s)"
    and "th_main s \<noteq> Checking \<Longrightarrow> th_main s \<noteq> Returned \<Longrightarrow> turns_left (run_move outcome s) < turns_left s"
proof -
  have "undisturbed s (run_move outcome s) \<and>
    (th_main s \<noteq> Checking \<longrightarrow> th_main s \<noteq> Returned \<longrightarrow> turns_left (run_move outcome s) < turns_left s)"
  proof (cases "th_main s")
    case Accepting
    with assms(3) accepting_work [of s outcome] show ?thesis by simp
  next
    case (Launching i)
    with assms(3) enter_work(2) [of s i] show ?thesis by (simp add: run_move_def)
  next
    case Cancelling
    with cancel_turn(2) [OF assms(1) _ _ assms(3)] show ?thesis
      by (cases "th_cancels s") (simp_all add: run_move_def undisturbed_def turns_left_def)
  next
    case Reaping
    then show ?thesis by (auto simp: run_move_def undisturbed_def turns_left_def reap_finished_threads_def)
  qed (use assms(2) in \<open>simp_all add: run_move_def undisturbed_def turns_left_def cancel_all_connections_def\<close>)
  then show "undisturbed s (run_move outcome s)"
    and "th_main s \<noteq> Checking \<Longrightarrow> th_main s \<noteq> Returned \<Longrightarrow> turns_left (run_move outcome s) < turns_left s"
    by auto
qed

text \<open>What a step is, once the stop flag is set.\<close>

lemma step_after_stop:
  assumes "thread_step a s s'" and "threads_inv s" and "th_stop s"
  shows "th_stop s' \<and> work_left s' \<le> work_left s \<and> (a = Runner \<or> s' = s \<or> work_left s' < work_left s)"
  using assms(1)
proof (rule thread_stepE)
  fix m assume m: "a = actor m" "s' = move_threads m s" "can_move m s"
  show ?thesis
  proof (cases m)
    case (Run outcome)
    have "th_stop (run_move outcome s)"
      using assms(3)
      by (auto simp: run_move_def register_channel_def add_connection_def launch_worker_def cancel_pending_def
          cancel_all_connections_def Let_def split: Main.split Accepted.split list.split)
    with m Run run_move_work [OF assms(2,3)] show ?thesis by simp
  next
    case (Work i outcome)
    have "th_stop (work_move i outcome s)" using assms(3) by (simp add: work_move_def Let_def split: option.split)
    with m Work work_move_less [OF assms(2,3), of i outcome] show ?thesis by simp
  next
    case (Peer i event)
    have "th_stop (peer_move i event s)" using assms(3) by (simp add: peer_move_def split: option.split)
    with m Peer peer_move_less [OF assms(2), of i event] show ?thesis by simp
  next
    case Sweep
    with m assms(3) show ?thesis by (simp add: work_left_def)
  next
    case Stop
    have "s\<lparr>th_stop := True\<rparr> = s" using assms(3) by simp
    with m Stop assms(3) show ?thesis by simp
  qed
qed

lemma own_step_less:
  assumes "thread_step a s s'" and "threads_inv s" and "th_stop s" and "a = Sweeper \<or> a = Worker i"
  shows "work_left s' < work_left s"
  using assms(1)
proof (rule thread_stepE)
  fix m assume m: "a = actor m" "s' = move_threads m s" "can_move m s"
  with assms(4) show ?thesis using work_move_less [OF assms(2,3)] by (cases m) (auto simp: work_left_def)
qed

text \<open>A fair run from the moment after which no work is used up any more: only the thread of \<^verbatim>\<open>run\<close> moves.\<close>

definition at_rest :: "(nat \<Rightarrow> Threads) \<Rightarrow> nat \<Rightarrow> bool" where
  "at_rest f n \<longleftrightarrow>
     fair_run f \<and> (\<forall>m \<ge> n. threads_inv (f m) \<and> th_stop (f m) \<and> work_left (f m) = work_left (f n))"

lemma rest_facts:
  assumes "at_rest f n" and "n \<le> m"
  shows "fair_run f" "threads_inv (f m)" "th_stop (f m)" "work_left (f m) = work_left (f n)"
  using assms unfolding at_rest_def by blast+

lemma rest_later:
  assumes "at_rest f n" and "n \<le> m"
  shows "at_rest f m"
  unfolding at_rest_def
proof (intro conjI allI impI)
  fix k assume "m \<le> k"
  with assms(2) have "n \<le> k" by simp
  from rest_facts [OF assms(1) this] rest_facts(4) [OF assms]
  show "threads_inv (f k)" "th_stop (f k)" "work_left (f k) = work_left (f m)" by simp_all
qed (rule rest_facts(1) [OF assms])

lemma rest_step:
  assumes "at_rest f n" and "n \<le> m"
  shows "f (Suc m) = f m \<or> thread_step Runner (f m) (f (Suc m))"
proof -
  have w: "work_left (f (Suc m)) = work_left (f m)" "threads_inv (f m)" "th_stop (f m)"
    using rest_facts [OF assms] rest_facts(4) [OF assms(1), of "Suc m"] assms(2) by simp_all
  consider "f (Suc m) = f m" | a where "thread_step a (f m) (f (Suc m))"
    using rest_facts(1) [OF assms] unfolding fair_run_def by blast
  then show ?thesis
  proof cases
    case 2
    then show ?thesis using step_after_stop [OF 2 w(2,3)] w(1) by fastforce
  qed simp
qed

lemma runner_step: "thread_step Runner s s' \<Longrightarrow> \<exists>outcome. s' = run_move outcome s \<and> run_can_move s"
proof (erule thread_stepE)
  fix m assume "Runner = actor m" "s' = move_threads m s" "can_move m s"
  then show ?thesis by (cases m) auto
qed

lemma rest_settled_step:
  assumes "at_rest f n" and "n \<le> m"
  shows "undisturbed (f m) (f (Suc m))"
proof -
  have w: "work_left (f (Suc m)) = work_left (f m)" "threads_inv (f m)" "th_stop (f m)"
    using rest_facts [OF assms] rest_facts(4) [OF assms(1), of "Suc m"] assms(2) by simp_all
  from rest_step [OF assms] show ?thesis
    using runner_step [of "f m" "f (Suc m)"] run_move_settled(1) [OF w(2,3)] w(1) undisturbed_same by metis
qed

lemma rest_undisturbed: "at_rest f n \<Longrightarrow> n \<le> m \<Longrightarrow> undisturbed (f n) (f m)"
proof (induction "m - n" arbitrary: m)
  case 0
  then show ?case by (simp add: undisturbed_same)
next
  case (Suc d)
  then obtain k where "m = Suc k" "n \<le> k" "d = k - n" by (cases m) auto
  with Suc rest_settled_step [of f n k] undisturbed_trans show ?case by blast
qed

lemma fair_turn: "fair_run f \<Longrightarrow> a \<noteq> Outside \<Longrightarrow> \<exists>m \<ge> n. (\<forall>s. \<not> thread_step a (f m) s) \<or> thread_step a (f m) (f (Suc m))"
  by (simp add: fair_run_def)

text \<open>At rest every thread is blocked or has finished: any other would move, and use up work.\<close>

lemma rest_no_own_step:
  assumes "at_rest f n" and "n \<le> m" and "a = Sweeper \<or> a = Worker i"
  shows "\<not> thread_step a (f m) (f (Suc m))"
proof
  assume "thread_step a (f m) (f (Suc m))"
  from own_step_less [OF this rest_facts(2,3) [OF assms(1,2)] assms(3)] rest_facts(4) [OF assms(1,2)]
    rest_facts(4) [OF assms(1), of "Suc m"] assms(2)
  show False by simp
qed

lemma rest_blocked:
  assumes "at_rest f n" and "(i, p) \<in> set (th_workers (f n))"
  shows "blocked p \<or> p = Finished"
proof (rule ccontr)
  assume p: "\<not> (blocked p \<or> p = Finished)"
  obtain m where m: "m \<ge> n" "(\<forall>s. \<not> thread_step (Worker i) (f m) s) \<or> thread_step (Worker i) (f m) (f (Suc m))"
    using fair_turn [OF rest_facts(1) [OF assms(1) order_refl], of "Worker i" n] by blast
  have d: "distinct (map fst (th_workers (f m)))" using rest_facts(2) [OF assms(1) m(1)] by (simp add: threads_inv_def)
  have "(i, p) \<in> set (th_workers (f m))"
    using rest_undisturbed [OF assms(1) m(1)] assms(2) p by (auto simp: undisturbed_def)
  then have "can_move (Work i Quiet) (f m)" using p d by (simp add: work_can_move_def map_of_eq_Some_iff)
  then have "thread_step (Worker i) (f m) (work_move i Quiet (f m))"
    using thr_move [of "Work i Quiet" "f m"] by simp
  with m(2) have "thread_step (Worker i) (f m) (f (Suc m))" by blast
  with rest_no_own_step [OF assms(1) m(1), of "Worker i" i] show False by simp
qed

lemma rest_swept:
  assumes "at_rest f n"
  shows "\<not> th_sweep (f n)"
proof
  assume s: "th_sweep (f n)"
  obtain m where m: "m \<ge> n" "(\<forall>s. \<not> thread_step Sweeper (f m) s) \<or> thread_step Sweeper (f m) (f (Suc m))"
    using fair_turn [OF rest_facts(1) [OF assms order_refl], of Sweeper n] by blast
  have "th_sweep (f m) \<and> th_stop (f m)"
    using rest_undisturbed [OF assms m(1)] rest_facts(3) [OF assms m(1)] s by (simp add: undisturbed_def)
  then have "thread_step Sweeper (f m) ((f m)\<lparr>th_sweep := False\<rparr>)" using thr_move [of Sweep "f m"] by simp
  with m(2) rest_no_own_step [OF assms m(1), of Sweeper] show False by blast
qed

text \<open>The thread of \<^verbatim>\<open>run\<close> makes its next move.\<close>

lemma rest_next:
  assumes "at_rest f n" and "th_main (f n) \<noteq> Returned"
  shows "\<exists>k \<ge> n. \<exists>outcome. f k = run_move outcome (f n) \<and> work_left (f k) = work_left (f n)"
proof (cases "\<exists>k \<ge> n. f (Suc k) \<noteq> f k")
  case True
  define k where "k = (LEAST k. n \<le> k \<and> f (Suc k) \<noteq> f k)"
  have k: "n \<le> k \<and> f (Suc k) \<noteq> f k" unfolding k_def by (rule LeastI_ex) (use True in blast)
  have same: "n \<le> j \<Longrightarrow> j \<le> k \<Longrightarrow> f j = f n" for j
  proof (induction j)
    case (Suc j)
    show ?case
    proof (cases "n = Suc j")
      case False
      with Suc have "n \<le> j" "j < k" by auto
      with Suc not_less_Least [of j "\<lambda>k. n \<le> k \<and> f (Suc k) \<noteq> f k"] show ?thesis by (auto simp: k_def)
    qed simp
  qed simp
  from k rest_step [OF assms(1), of k] have "thread_step Runner (f k) (f (Suc k))" by blast
  with same [of k] k runner_step obtain outcome where "f (Suc k) = run_move outcome (f n)" by force
  moreover have "work_left (f (Suc k)) = work_left (f n)" using rest_facts(4) [OF assms(1), of "Suc k"] k by simp
  ultimately show ?thesis using k by (metis le_SucI)
next
  case False
  have same: "f m = f n" if "n \<le> m" for m using that False by (induction m) (auto simp: le_Suc_eq)
  obtain m where m: "m \<ge> n" "(\<forall>s. \<not> thread_step Runner (f m) s) \<or> thread_step Runner (f m) (f (Suc m))"
    using fair_turn [OF rest_facts(1) [OF assms(1) order_refl], of Runner n] by blast
  have "can_move (Run Over) (f n)" using assms(2) rest_swept [OF assms(1)] by (simp add: run_can_move_def)
  with m thr_move [of "Run Over" "f n"] same have "thread_step Runner (f n) (f n)" by (metis actor.simps(1) le_SucI)
  with runner_step obtain outcome where "f n = run_move outcome (f n)" by blast
  then show ?thesis by (intro exI [of _ n]) auto
qed

text \<open>It comes to count the threads that remain.\<close>

lemma rest_counts:
  "at_rest f n \<Longrightarrow> \<exists>k \<ge> n. th_main (f k) = Checking \<or> th_main (f k) = Returned"
proof (induction "turns_left (f n)" arbitrary: n rule: less_induct)
  case less
  show ?case
  proof (cases "th_main (f n) = Checking \<or> th_main (f n) = Returned")
    case False
    then obtain k outcome where k: "n \<le> k" "f k = run_move outcome (f n)" "work_left (f k) = work_left (f n)"
      using rest_next [OF less.prems] by auto
    have "turns_left (f k) < turns_left (f n)"
      using run_move_settled(2) [OF rest_facts(2,3) [OF less.prems order_refl], of outcome] k False by simp
    from less.hyps [OF this rest_later [OF less.prems k(1)]] k(1) show ?thesis by (meson le_trans)
  qed auto
qed

text \<open>A cancellation of a blocked thread uses up work, so at rest no channel left to cancel has a blocked thread.\<close>

lemma rest_no_victim:
  assumes "at_rest f n" and "th_main (f n) = Cancelling" and "i \<in> set (th_cancels (f n))"
    and "(i, p) \<in> set (th_workers (f n))"
  shows "\<not> blocked p"
proof
  assume p: "blocked p"
  then have nf: "p \<noteq> Finished" by auto
  show False using assms
  proof (induction "length (th_cancels (f n))" arbitrary: n rule: less_induct)
    case less
    note inv = rest_facts(2) [OF less.prems(1) order_refl]
    obtain j rest where c: "th_cancels (f n) = j # rest" using less.prems(3) by (cases "th_cancels (f n)") auto
    obtain k outcome where k: "n \<le> k" "f k = run_move outcome (f n)" "work_left (f k) = work_left (f n)"
      using rest_next [OF less.prems(1)] less.prems(2) by auto
    show False
    proof (cases "i = j")
      case True
      with cancel_turn(3) [OF inv less.prems(2) c, of p outcome] less.prems(4) p k show False by simp
    next
      case False
      have fk: "f k = (f n)\<lparr>th_cancels := rest\<rparr>" using cancel_turn(2) [OF inv less.prems(2) c, of outcome] k by simp
      show False
        by (rule less.hyps [OF _ rest_later [OF less.prems(1) k(1)]]) (use fk c less.prems False in auto)
    qed
  qed
qed

lemma rest_reaps:
  assumes "at_rest f n" and "th_main (f n) = Cancelling \<or> th_main (f n) = Reaping" and "\<forall>(i, p) \<in> set (th_workers (f n)). p = Finished"
  shows "\<exists>k \<ge> n. th_main (f k) = Checking \<and> th_workers (f k) = []"
  using assms
proof (induction "turns_left (f n)" arbitrary: n rule: less_induct)
  case less
  obtain k outcome where k: "n \<le> k" "f k = run_move outcome (f n)" "work_left (f k) = work_left (f n)"
    using rest_next [OF less.prems(1)] less.prems(2) by auto
  show ?case
  proof (cases "th_main (f n) = Reaping")
    case True
    with k less.prems(3) have "th_main (f k) = Checking \<and> th_workers (f k) = []"
      by (auto simp: run_move_def reap_finished_threads_def filter_empty_conv)
    with k(1) show ?thesis by blast
  next
    case False
    with less.prems(2) have c: "th_main (f n) = Cancelling" by simp
    have "turns_left (f k) < turns_left (f n)"
      using run_move_settled(2) [OF rest_facts(2,3) [OF less.prems(1) order_refl], of outcome] k c by simp
    moreover have "th_main (f k) = Cancelling \<or> th_main (f k) = Reaping"
      using k c by (simp add: run_move_def cancel_pending_def split: list.split)
    moreover have "\<forall>(i, p) \<in> set (th_workers (f k)). p = Finished"
      using rest_undisturbed [OF less.prems(1) k(1)] less.prems(3) by (auto simp: undisturbed_def)
    ultimately show ?thesis using less.hyps [OF _ rest_later [OF less.prems(1) k(1)]] k(1) by (meson le_trans)
  qed
qed

lemma checked_none_returns:
  assumes "at_rest f n" and "th_main (f n) = Checking" and "th_workers (f n) = []"
  shows "\<exists>k \<ge> n. th_main (f k) = Returned"
  using rest_next [OF assms(1)] assms(2,3) by (auto simp: run_move_def)

lemma rest_returns:
  assumes "at_rest f n"
  shows "\<exists>k \<ge> n. th_main (f k) = Returned"
proof -
  obtain k where k: "n \<le> k" "th_main (f k) = Checking \<or> th_main (f k) = Returned" using rest_counts [OF assms] by blast
  note rk = rest_later [OF assms k(1)]
  show ?thesis
  proof (cases "th_main (f k) = Returned")
    case False
    with k have ck: "th_main (f k) = Checking" by simp
    show ?thesis
    proof (cases "th_workers (f k) = []")
      case True
      with checked_none_returns [OF rk ck] k(1) show ?thesis by (meson le_trans)
    next
      case ne: False
      obtain l outcome where l: "k \<le> l" "f l = run_move outcome (f k)" using rest_next [OF rk] ck by auto
      then have sl: "th_main (f l) = Stopped" using ck ne by (simp add: run_move_def)
      note rl = rest_later [OF rk l(1)]
      obtain m outcome' where m: "l \<le> m" "f m = run_move outcome' (f l)" using rest_next [OF rl] sl by auto
      then have cm: "th_main (f m) = Cancelling" "th_cancels (f m) = th_registry (f m)"
        using sl by (simp_all add: run_move_def cancel_all_connections_def)
      note rm = rest_later [OF rl m(1)]
      have "p = Finished" if w: "(i, p) \<in> set (th_workers (f m))" for i p
      proof (rule ccontr)
        assume "p \<noteq> Finished"
        with rest_blocked [OF rm w] have b: "blocked p" by simp
        then have "registered p" by (cases p) (simp_all add: registered_def)
        with rest_facts(2) [OF rm order_refl] w have "i \<in> set (th_registry (f m))" by (auto simp: threads_inv_def)
        with rest_no_victim [OF rm cm(1) _ w] cm(2) b show False by simp
      qed
      then obtain c where c: "m \<le> c" "th_main (f c) = Checking" "th_workers (f c) = []"
        using rest_reaps [OF rm] cm(1) by auto
      from checked_none_returns [OF rest_later [OF rm c(1)] c(2,3)] k(1) l(1) m(1) c(1) show ?thesis by (meson le_trans)
    qed
  qed (use k in blast)
qed

lemma fair_run_stops:
  assumes "fair_run f" and "\<forall>n \<ge> k. threads_inv (f n)" and "th_stop (f k)"
  shows "\<exists>n \<ge> k. th_main (f n) = Returned"
proof -
  have stop: "th_stop (f m) \<and> work_left (f m) \<le> work_left (f n)" if "k \<le> n" "n \<le> m" "th_stop (f n)" for n m
    using that(2)
  proof (induction m rule: dec_induct)
    case (step m)
    then have "threads_inv (f m)" "th_stop (f m)" using assms(2) that(1) by auto
    with step.IH assms(1) step_after_stop show ?case unfolding fair_run_def by (metis le_trans)
  qed (simp add: that(3))
  obtain n where n: "k \<le> n" "\<And>m. k \<le> m \<Longrightarrow> work_left (f n) \<le> work_left (f m)"
    using ex_has_least_nat [of "\<lambda>n. k \<le> n" k "\<lambda>n. work_left (f n)"] by auto
  have sn: "th_stop (f n)" using stop [of k n] n(1) assms(3) by simp
  have "at_rest f n"
    unfolding at_rest_def
  proof (intro conjI allI impI)
    fix m assume m: "n \<le> m"
    show "threads_inv (f m)" "th_stop (f m)" using assms(2) stop [OF n(1) m sn] n(1) m by auto
    show "work_left (f m) = work_left (f n)" using stop [OF n(1) m sn] n(2) [of m] n(1) m by (intro antisym) auto
  qed (rule assms(1))
  from rest_returns [OF this] n(1) show ?thesis by (meson le_trans)
qed

section \<open>The end of a run\<close>

lemma step_keeps_entry:
  assumes "thread_step a s s'"
  shows "th_max s' = th_max s \<and> (th_main s' = Returned \<longrightarrow> th_main s = Returned \<longrightarrow> th_workers s = [] \<longrightarrow> th_workers s' = []) \<and>
    (th_main s' = Returned \<longrightarrow> th_main s \<noteq> Returned \<longrightarrow> th_workers s' = []) \<and>
    fst ` set (th_workers s) \<union> set (th_joined s) \<subseteq> fst ` set (th_workers s') \<union> set (th_joined s')"
  using assms
proof (rule thread_stepE)
  fix m assume m: "a = actor m" "s' = move_threads m s" "can_move m s"
  have cancel: "fst ` set (th_workers (cancel_pending i t)) = fst ` set (th_workers t)" for i t
    by (force simp: cancel_pending_def)
  have reap: "fst ` set (th_workers t) \<union> set (th_joined t) \<subseteq>
      fst ` set (th_workers (reap_finished_threads t)) \<union> set (th_joined (reap_finished_threads t))" for t
    by (force simp: reap_finished_threads_def)
  have rest: "th_max (cancel_pending i t) = th_max t" "th_main (cancel_pending i t) = th_main t"
    "th_joined (cancel_pending i t) = th_joined t" "th_max (reap_finished_threads t) = th_max t" for i t
    by (simp_all add: cancel_pending_def reap_finished_threads_def)
  show ?thesis
  proof (cases m)
    case (Run outcome)
    have "th_max (run_move outcome s) = th_max s \<and>
        (th_main (run_move outcome s) = Returned \<longrightarrow> th_main s \<noteq> Returned \<longrightarrow> th_workers (run_move outcome s) = [])"
      by (auto simp: run_move_def register_channel_def add_connection_def launch_worker_def cancel_all_connections_def rest
          Let_def split: Main.split Accepted.split list.split)
    moreover have "fst ` set (th_workers s) \<union> set (th_joined s) \<subseteq>
        fst ` set (th_workers (run_move outcome s)) \<union> set (th_joined (run_move outcome s))"
      using reap [of s]
      by (auto simp: run_move_def register_channel_def add_connection_def launch_worker_def cancel_all_connections_def rest
          cancel Let_def split: Main.split Accepted.split list.split)
    moreover have "\<not> (th_main s = Returned)" using m Run by (simp add: run_can_move_def)
    ultimately show ?thesis using m Run by simp
  next
    case (Work i outcome)
    have "th_max s' = th_max s" "th_main s' = th_main s" "th_joined s' = th_joined s"
      "fst ` set (th_workers s') = fst ` set (th_workers s)"
      using m Work by (simp_all add: work_move_def Let_def set_phase_fst split: option.split)
    then show ?thesis by force
  next
    case (Peer i event)
    have "th_max s' = th_max s" "th_main s' = th_main s" "th_joined s' = th_joined s"
      "fst ` set (th_workers s') = fst ` set (th_workers s)"
      using m Peer by (simp_all add: peer_move_def set_phase_fst split: option.split)
    then show ?thesis by force
  qed (use m in auto)
qed

lemma run_keeps:
  assumes "f 0 = start_threads limit" and "fair_run f"
  shows "threads_inv (f n) \<and> th_max (f n) = limit \<and> (th_main (f n) = Returned \<longrightarrow> th_workers (f n) = [])"
proof (induction n)
  case 0
  show ?case
    using assms(1) threads_inv_reachable [OF thr_start [of limit]] by (simp add: start_threads_def)
next
  case (Suc n)
  consider "f (Suc n) = f n" | a where "thread_step a (f n) (f (Suc n))"
    using assms(2) unfolding fair_run_def by blast
  then show ?case
  proof cases
    case 2
    from Suc threads_inv_step [OF 2] step_keeps_entry [OF 2] show ?thesis by metis
  qed (use Suc in simp)
qed

lemma run_remembers:
  assumes "fair_run f" and "m \<le> n"
  shows "fst ` set (th_workers (f m)) \<union> set (th_joined (f m)) \<subseteq> fst ` set (th_workers (f n)) \<union> set (th_joined (f n))"
  using assms(2)
proof (induction n rule: dec_induct)
  case (step n)
  consider "f (Suc n) = f n" | a where "thread_step a (f n) (f (Suc n))"
    using assms(1) unfolding fair_run_def by blast
  then show ?case
  proof cases
    case 2
    from step_keeps_entry [OF 2] have "fst ` set (th_workers (f n)) \<union> set (th_joined (f n)) \<subseteq>
        fst ` set (th_workers (f (Suc n))) \<union> set (th_joined (f (Suc n)))" by blast
    with step.IH show ?thesis by (rule order_trans)
  qed (use step.IH in simp)
qed simp

lemma reached_inv_alive:
  assumes "threads_inv s"
  shows "(\<forall>i \<in> set (th_registry s). channel_alive s i) \<and> length (th_workers s) \<le> th_max s"
  using assms registered_channel_alive [OF assms] by (simp add: threads_inv_def)

lemma returned_joined:
  assumes "f 0 = start_threads limit" and "fair_run f" and "th_main (f n) = Returned"
  shows "th_workers (f n) = [] \<and> th_registry (f n) = [] \<and> (\<forall>m \<le> n. fst ` set (th_workers (f m)) \<subseteq> set (th_joined (f n)))"
proof -
  have w: "th_workers (f n) = []" using run_keeps [OF assms(1,2)] assms(3) by blast
  have "th_registry (f n) = []"
    using run_keeps [OF assms(1,2), of n] w assms(3) by (simp add: threads_inv_def launching_def)
  with w run_remembers [OF assms(2), of _ n] show ?thesis by auto
qed

text \<open>C19: the registry of connections is sound and shutdown ends. Consider any run of the threads that is fair to the
  coordinator's own threads; peers may do anything, and may do nothing for ever, and the stop flag may be set at any
  moment. At every moment the registry names only channels that are not destroyed and there are no more connection
  threads than the configured bound. Once the stop flag is set, \<^verbatim>\<open>run\<close> returns, with no connection thread left, the
  registry empty and every connection thread that ever ran joined. A thread that is blocked in a read or a write leaves it only through
  its peer or a cancellation, so the end rests on \<^verbatim>\<open>cancel_all_connections\<close> and on its being repeated: a cancellation that comes
  before the thread blocks has no effect.\<close>

theorem shutdown_joins_every_thread:
  assumes "f 0 = start_threads limit" and "fair_run f" and "th_stop (f k)"
  shows "(\<forall>m. (\<forall>i \<in> set (th_registry (f m)). channel_alive (f m) i) \<and> length (th_workers (f m)) \<le> limit) \<and>
    (\<exists>n \<ge> k. th_main (f n) = Returned \<and> th_workers (f n) = [] \<and> th_registry (f n) = [] \<and>
      (\<forall>m \<le> n. fst ` set (th_workers (f m)) \<subseteq> set (th_joined (f n))))"
proof (intro conjI)
  show "\<forall>m. (\<forall>i \<in> set (th_registry (f m)). channel_alive (f m) i) \<and> length (th_workers (f m)) \<le> limit"
    using run_keeps [OF assms(1,2)] reached_inv_alive by metis
  obtain n where "k \<le> n" "th_main (f n) = Returned"
    using fair_run_stops [OF assms(2) _ assms(3)] run_keeps [OF assms(1,2)] by blast
  with returned_joined [OF assms(1,2)] show "\<exists>n \<ge> k. th_main (f n) = Returned \<and> th_workers (f n) = [] \<and>
      th_registry (f n) = [] \<and> (\<forall>m \<le> n. fst ` set (th_workers (f m)) \<subseteq> set (th_joined (f n)))"
    by blast
qed

text \<open>The run of a finite schedule, that then rests.\<close>

definition after_moves :: "Threads \<Rightarrow> Move list \<Rightarrow> Threads" where
  "after_moves s ms = foldl (\<lambda>t m. move_threads m t) s ms"

fun legal_moves :: "Threads \<Rightarrow> Move list \<Rightarrow> bool" where
  "legal_moves s [] \<longleftrightarrow> True"
| "legal_moves s (m # ms) \<longleftrightarrow> can_move m s \<and> legal_moves (move_threads m s) ms"

lemma legal_step:
  "legal_moves s ms \<Longrightarrow> n < length ms \<Longrightarrow> thread_step (actor (ms ! n)) (after_moves s (take n ms)) (after_moves s (take (Suc n) ms))"
proof (induction ms arbitrary: s n)
  case (Cons m ms)
  show ?case
  proof (cases n)
    case 0
    with Cons.prems show ?thesis by (simp add: after_moves_def thr_move)
  next
    case (Suc k)
    with Cons.IH [of "move_threads m s" k] Cons.prems show ?thesis by (simp add: after_moves_def)
  qed
qed simp

lemma idle_no_step:
  assumes "th_main s = Returned" and "th_workers s = []" and "\<not> th_sweep s" and "a \<noteq> Outside"
  shows "\<not> thread_step a s s'"
proof
  assume "thread_step a s s'"
  then show False
  proof (rule thread_stepE)
    fix m assume "a = actor m" "can_move m s"
    with assms show False by (cases m) (auto simp: run_can_move_def work_can_move_def)
  qed
qed

lemma legal_moves_fair:
  assumes "legal_moves s ms" and "after_moves s ms = t" and "th_main t = Returned" and "th_workers t = []" and "\<not> th_sweep t"
  shows "fair_run (\<lambda>n. after_moves s (take n ms))"
proof -
  have "after_moves s (take (Suc n) ms) = after_moves s (take n ms) \<or>
      (\<exists>a. thread_step a (after_moves s (take n ms)) (after_moves s (take (Suc n) ms)))" for n
    using legal_step [OF assms(1), of n] by (cases "n < length ms") auto
  moreover have "\<exists>m \<ge> n. \<forall>s'. \<not> thread_step a (after_moves s (take m ms)) s'" if "a \<noteq> Outside" for a n
    using idle_no_step [OF assms(3,4,5) that] assms(2) by (intro exI [of _ "max n (length ms)"]) simp
  ultimately show ?thesis unfolding fair_run_def by blast
qed

text \<open>One peer connects and stays silent. Its thread is blocked in a read when the stop flag is set.\<close>

definition silent_peer :: "Move list" where
  "silent_peer =
     [Run Again, Run Channel, Run Again, Work 1 Quiet, Run Again, Stop, Sweep, Run Over, Run Over, Run Over, Run Over, Run Over,
      Run Over, Work 1 Quiet, Run Over, Run Over, Run Over, Work 1 Quiet, Work 1 Quiet, Run Over, Run Over]"

lemmas thread_model_defs = start_threads_def register_channel_def add_connection_def launch_worker_def remove_connection_def
  set_phase_def reap_finished_threads_def cancel_all_connections_def cancel_pending_def run_move_def work_move_def
  run_can_move_def work_can_move_def

theorem shutdown_joins_every_thread_witness:
  "(\<exists>i. th_workers (after_moves (start_threads 4) (take 7 silent_peer)) = [(i, InRead)]) \<and>
   (\<exists>n. th_main (after_moves (start_threads 4) (take n silent_peer)) = Returned \<and>
      1 \<in> set (th_joined (after_moves (start_threads 4) (take n silent_peer))))"
proof -
  define f where "f = (\<lambda>n. after_moves (start_threads 4) (take n silent_peer))"
  have legal: "legal_moves (start_threads 4) silent_peer" by (simp add: silent_peer_def thread_model_defs Let_def)
  have "th_main (f 21) = Returned" "th_workers (f 21) = []" "\<not> th_sweep (f 21)"
    by (simp_all add: f_def after_moves_def silent_peer_def thread_model_defs Let_def)
  then have fair: "fair_run f"
    unfolding f_def by (intro legal_moves_fair [OF legal refl]) (simp_all add: silent_peer_def)
  have seven: "f 7 = \<lparr>th_stop = True, th_max = 4, th_next = 2, th_main = Accepting, th_sweep = False, th_registry = [1],
      th_workers = [(1, InRead)], th_cancels = [], th_joined = []\<rparr>"
    by (simp add: f_def after_moves_def silent_peer_def thread_model_defs Let_def)
  have zero: "f 0 = start_threads 4" by (simp add: f_def after_moves_def)
  have "th_stop (f 7)" by (simp add: seven)
  note shutdown_joins_every_thread [OF zero fair this, THEN conjunct2]
  then obtain n where n: "7 \<le> n" "th_main (f n) = Returned"
    "\<forall>m \<le> n. fst ` set (th_workers (f m)) \<subseteq> set (th_joined (f n))"
    by (elim exE conjE) (rule that)
  from n(3) [rule_format, OF n(1)] have "1 \<in> set (th_joined (f n))" by (simp add: seven)
  with n(2) have "\<exists>n. th_main (f n) = Returned \<and> 1 \<in> set (th_joined (f n))" by (intro exI conjI)
  moreover have "\<exists>i. th_workers (f 7) = [(i, InRead)]" by (simp add: seven)
  ultimately show ?thesis unfolding f_def by (intro conjI)
qed

text \<open>
  The pointers that \<^verbatim>\<open>cancel_all_connections\<close> copies are used after the lock is released, when a thread may have destroyed its
  channel.
\<close>

definition late_cancel :: "Move list" where
  "late_cancel =
     [Run Again, Run Channel, Run Again, Work 1 Quiet, Run Again, Stop, Run Over, Run Over, Run Over, Peer 1 Gone, Work 1 Quiet,
      Work 1 Quiet]"

lemma legal_reachable: "reachable_threads s \<Longrightarrow> legal_moves s ms \<Longrightarrow> reachable_threads (after_moves s ms)"
  by (induction ms arbitrary: s) (auto simp: after_moves_def intro: thr_run thr_move)

lemma cancel_uses_destroyed_channel:
  "\<exists>s. reachable_threads s \<and> th_main s = Cancelling \<and> th_cancels s = [1] \<and> \<not> channel_alive s 1"
proof -
  have "legal_moves (start_threads 4) late_cancel" by (simp add: late_cancel_def thread_model_defs peer_move_def Let_def)
  from legal_reachable [OF thr_start this] show ?thesis
    by (intro exI [of _ "after_moves (start_threads 4) late_cancel"] conjI)
      (simp_all add: late_cancel_def after_moves_def thread_model_defs peer_move_def channel_alive_def launching_def Let_def)
qed

end
