(* ===== verification/NCF_Channel.thy ===== *)
theory NCF_Channel
  imports NCF_Publisher
begin

text \<open>
  The POSIX side of \<^verbatim>\<open>src/ipc/channel.cpp\<close>: byte channels over stream sockets, the listener and connecting, over scripted
  system calls. The Windows side, which implements the same interface with named pipes, is NCF_Pipe. What
  the clients rely on is stated as a locale; the sockets, the pipes and the scripted channels of the coordinator and
  the publisher satisfy it.
\<close>

section \<open>The interface\<close>

text \<open>
  A write delivers everything or reports failure, after which the peer may have a part of the message. Whoever
  sends messages until the first failure delivers a prefix of their concatenation.
\<close>

fun write_each :: "(bytes \<Rightarrow> 'c \<Rightarrow> void_result \<times> 'c) \<Rightarrow> bytes list \<Rightarrow> 'c \<Rightarrow> void_result \<times> 'c" where
  "write_each wr [] c = (Inr (), c)"
| "write_each wr (m # ms) c =
     (case wr m c of
        (Inl er, c') \<Rightarrow> (Inl er, c')
      | (Inr _, c') \<Rightarrow> write_each wr ms c')"

locale byte_channel =
  fixes wr :: "bytes \<Rightarrow> 'c \<Rightarrow> void_result \<times> 'c" and delivered :: "'c \<Rightarrow> bytes"
  assumes write_all: "wr bs c = (Inr u, c') \<Longrightarrow> delivered c' = delivered c @ bs"
    and write_part: "wr bs c = (Inl er, c') \<Longrightarrow> \<exists>k. delivered c' = delivered c @ take k bs"
begin

lemma write_each_delivers:
  assumes "write_each wr ms c = (r, c')"
  shows "(\<exists>k. delivered c' = delivered c @ take k (concat ms)) \<and> (r = Inr () \<longrightarrow> delivered c' = delivered c @ concat ms)"
  using assms
proof (induction ms arbitrary: c)
  case Nil
  then show ?case by (intro conjI exI [of _ 0]) auto
next
  case (Cons m ms)
  obtain r1 c1 where w: "wr m c = (r1, c1)" by (cases "wr m c")
  show ?case
  proof (cases r1)
    case (Inl er)
    then have "wr m c = (Inl er, c')" "r = Inl er" using w Cons.prems by auto
    moreover from write_part [OF this(1)] obtain k where "delivered c' = delivered c @ take k m" by blast
    ultimately show ?thesis by (intro conjI exI [of _ "min k (length m)"]) (auto simp: min_def)
  next
    case (Inr u)
    then have "delivered c1 = delivered c @ m" and rest: "write_each wr ms c1 = (r, c')"
      using write_all [of m c u c1] w Cons.prems by auto
    moreover from Cons.IH [OF rest] obtain k where "delivered c' = delivered c1 @ take k (concat ms)" by blast
    ultimately show ?thesis using Cons.IH [OF rest] by (intro conjI exI [of _ "length m + k"]) auto
  qed
qed

end

section \<open>Sockets\<close>

datatype SysError = Interrupted | OtherError
datatype Received = RecvFails SysError | RecvGives bytes
datatype Sent = SendFails SysError | SendTakes nat

text \<open>Calls beyond the scripts receive the end of the stream, and send everything.\<close>

record Socket =
  so_open :: bool
  so_closed :: bool
  so_recvs :: "Received list"
  so_sends :: "Sent list"
  so_delivered :: bytes

definition socket_read :: "nat \<Rightarrow> Socket \<Rightarrow> bytes result \<times> Socket" where
  "socket_read room s =
     (if \<not> so_open s then (Inl Err_Closed, s)
      else case so_recvs s of
          [] \<Rightarrow> (Inr [], s\<lparr>so_closed := True\<rparr>)
        | RecvFails Interrupted # rs \<Rightarrow> (Inr [], s\<lparr>so_recvs := rs\<rparr>)
        | RecvFails OtherError # rs \<Rightarrow> (Inl Err_IoError, s\<lparr>so_recvs := rs\<rparr>)
        | RecvGives bs # rs \<Rightarrow>
            let out = take room bs
            in (Inr out, s\<lparr>so_recvs := rs, so_closed := so_closed s \<or> out = []\<rparr>))"

fun send_loop :: "bytes \<Rightarrow> Sent list \<Rightarrow> bytes \<Rightarrow> void_result \<times> Sent list \<times> bytes" where
  "send_loop [] script d = (Inr (), script, d)"
| "send_loop bs [] d = (Inr (), [], d @ bs)"
| "send_loop bs (SendFails Interrupted # script) d = send_loop bs script d"
| "send_loop bs (SendFails OtherError # script) d = (Inl Err_IoError, script, d)"
| "send_loop bs (SendTakes k # script) d = send_loop (drop k bs) script (d @ take k bs)"

definition socket_write :: "bytes \<Rightarrow> Socket \<Rightarrow> void_result \<times> Socket" where
  "socket_write bs s =
     (if \<not> so_open s then (Inl Err_Closed, s)
      else case send_loop bs (so_sends s) (so_delivered s) of
          (r, script, d) \<Rightarrow> (r, s\<lparr>so_sends := script, so_delivered := d\<rparr>))"

definition socket_close :: "Socket \<Rightarrow> Socket" where
  "socket_close s = (if so_open s then s\<lparr>so_open := False, so_closed := True\<rparr> else s)"

definition socket_closed :: "Socket \<Rightarrow> bool" where
  "socket_closed s \<longleftrightarrow> so_closed s \<or> \<not> so_open s"

lemma send_loop_delivers:
  "send_loop bs script d = (r, script', d') \<Longrightarrow>
     (case r of Inr _ \<Rightarrow> d' = d @ bs | Inl _ \<Rightarrow> (\<exists>k. d' = d @ take k bs))"
proof (induction bs script d rule: send_loop.induct)
  case (5 b bs k script d)
  from "5.IH" "5.prems" show ?case
  proof (cases r)
    case (Inl er)
    with 5 obtain j where "d' = (d @ take k (b # bs)) @ take j (drop k (b # bs))" by auto
    then have "d' = d @ take (k + j) (b # bs)" by (simp only: append_assoc take_add)
    with Inl show ?thesis by auto
  qed auto
qed (auto intro: exI [of _ 0])

interpretation sock: byte_channel socket_write so_delivered
proof
  fix bs c u c' er
  show "so_delivered c' = so_delivered c @ bs" if "socket_write bs c = (Inr u, c')"
    using that send_loop_delivers [of bs "so_sends c" "so_delivered c"]
    by (auto simp: socket_write_def split: if_splits prod.splits)
  show "\<exists>k. so_delivered c' = so_delivered c @ take k bs" if "socket_write bs c = (Inl er, c')"
    using that send_loop_delivers [of bs "so_sends c" "so_delivered c"]
    by (auto simp: socket_write_def split: if_splits prod.splits intro: exI [of _ 0])
qed

definition soft_errors :: "Sent list \<Rightarrow> bool" where
  "soft_errors script \<longleftrightarrow> SendFails OtherError \<notin> set script"

lemma send_loop_soft:
  "soft_errors script \<Longrightarrow> send_loop bs script d = (r, script', d') \<Longrightarrow> r = Inr () \<and> soft_errors script'"
  by (induction bs script d rule: send_loop.induct) (auto simp: soft_errors_def)

lemma write_each_soft:
  assumes "so_open s" and "soft_errors (so_sends s)" and "write_each socket_write ms s = (r, s')"
  shows "r = Inr ()"
  using assms
proof (induction ms arbitrary: s)
  case (Cons m ms)
  obtain r1 script d where l: "send_loop m (so_sends s) (so_delivered s) = (r1, script, d)" by (metis prod_cases3)
  with send_loop_soft [OF Cons.prems(2) l] have "socket_write m s = (Inr (), s\<lparr>so_sends := script, so_delivered := d\<rparr>)"
    using Cons.prems(1) by (simp add: socket_write_def)
  then show ?case
    using Cons.IH [of "s\<lparr>so_sends := script, so_delivered := d\<rparr>"] Cons.prems send_loop_soft [OF Cons.prems(2) l] by simp
qed simp

text \<open>C34: messages cross a socket whole and in order. Whoever writes messages one after the other until the first failure
  delivers a prefix of their concatenation, however the kernel splits the sends and whatever calls are
  interrupted; all of it when every write reports success; and every write succeeds on an open socket on
  which no send fails for another reason than an interruption.\<close>

theorem socket_messages_delivered:
  assumes "write_each socket_write ms s = (r, s')"
  shows "(\<exists>k. so_delivered s' = so_delivered s @ take k (concat ms)) \<and>
    (r = Inr () \<longrightarrow> so_delivered s' = so_delivered s @ concat ms) \<and>
    (so_open s \<and> SendFails OtherError \<notin> set (so_sends s) \<longrightarrow> r = Inr ())"
  using sock.write_each_delivers [OF assms] write_each_soft [OF _ _ assms] by (simp add: soft_errors_def)

theorem socket_messages_delivered_witness:
  "\<exists>s'. write_each socket_write [[1, 2, 3], [4, 5]]
     \<lparr>so_open = True, so_closed = False, so_recvs = [], so_sends = [SendTakes 2, SendFails Interrupted, SendTakes 1], so_delivered = []\<rparr>
     = (Inr (), s') \<and> so_delivered s' = [1, 2, 3, 4, 5]"
proof -
  let ?s = "\<lparr>so_open = True, so_closed = False, so_recvs = [], so_sends = [SendTakes 2, SendFails Interrupted, SendTakes 1],
      so_delivered = []\<rparr>"
  obtain r s' where run: "write_each socket_write [[1, 2, 3], [4, 5]] ?s = (r, s')" by (cases "write_each socket_write [[1, 2, 3], [4, 5]] ?s")
  from socket_messages_delivered [OF run] have "r = Inr ()" "so_delivered s' = [1, 2, 3, 4, 5]" by auto
  with run show ?thesis by blast
qed

text \<open>The channels that the coordinator's and the publisher's models script are of this kind.\<close>

interpretation conn: byte_channel
  "\<lambda>bs c. case channel_write bs c of (ok, c') \<Rightarrow> (if ok then Inr () else Inl Err_IoError, c')" "\<lambda>c. concat (cn_sent c)"
proof
  fix bs :: bytes and c :: Conn and u :: unit and c' er
  show "concat (cn_sent c') = concat (cn_sent c) @ bs"
    if "(case channel_write bs c of (ok, c') \<Rightarrow> (if ok then Inr () else Inl Err_IoError, c')) = (Inr u, c')"
    using that by (auto simp: channel_write_def split: list.splits if_splits)
  show "\<exists>k. concat (cn_sent c') = concat (cn_sent c) @ take k bs"
    if "(case channel_write bs c of (ok, c') \<Rightarrow> (if ok then Inr () else Inl Err_IoError, c')) = (Inl er, c')"
    using that by (auto simp: channel_write_def split: list.splits if_splits intro: exI [of _ 0])
qed

interpretation link: byte_channel link_write "\<lambda>p. concat (li_sent (pb_link p))"
  by unfold_locales (auto simp: link_write_def Let_def split: if_splits intro: exI [of _ 0])

section \<open>Listeners\<close>

definition unix_path :: "string \<Rightarrow> string" where
  "unix_path name = ''/tmp/ncf-'' @ name @ ''.sock''"

text \<open>\<^verbatim>\<open>sizeof sun_path\<close> on Linux.\<close>

definition kSunPath :: nat where "kSunPath = 108"

text \<open>
  Who is bound to each path of the file system, and the outcomes of the coming system calls, where a missing one is a
  success. Binding to a path that exists fails.
\<close>

record Sockets =
  sk_bound :: "string \<rightharpoonup> nat"
  sk_next :: nat
  sk_calls :: "bool list"

definition system_call :: "Sockets \<Rightarrow> bool \<times> Sockets" where
  "system_call w = (case sk_calls w of [] \<Rightarrow> (True, w) | ok # rest \<Rightarrow> (ok, w\<lparr>sk_calls := rest\<rparr>))"

definition bind_path :: "string \<Rightarrow> nat \<Rightarrow> Sockets \<Rightarrow> bool \<times> Sockets" where
  "bind_path path fd w =
     (case system_call w of
        (ok, w1) \<Rightarrow> if ok \<and> sk_bound w1 path = None then (True, w1\<lparr>sk_bound := (sk_bound w1)(path \<mapsto> fd)\<rparr>) else (False, w1))"

record Listener =
  ls_endpoint :: string
  ls_fd :: nat

definition listener_create :: "string \<Rightarrow> Sockets \<Rightarrow> Listener result \<times> Sockets" where
  "listener_create name w =
     (if name = [] then (Inl Err_InvalidArgument, w)
      else
        let path = unix_path name in
        case system_call w of
          (False, w1) \<Rightarrow> (Inl Err_IoError, w1)
        | (True, w1) \<Rightarrow>
            let fd = sk_next w1; w2 = w1\<lparr>sk_next := fd + 1\<rparr> in
            if length path \<ge> kSunPath then (Inl Err_InvalidArgument, w2)
            else
              let w3 = w2\<lparr>sk_bound := (sk_bound w2)(path := None)\<rparr> in
              case bind_path path fd w3 of
                (False, w4) \<Rightarrow> (Inl Err_IoError, w4)
              | (True, w4) \<Rightarrow>
                  (case system_call w4 of
                     (False, w5) \<Rightarrow> (Inl Err_IoError, w5)
                   | (True, w5) \<Rightarrow>
                       (case system_call w5 of
                          (False, w6) \<Rightarrow> (Inl Err_IoError, w6)
                        | (True, w6) \<Rightarrow> (Inr \<lparr>ls_endpoint = name, ls_fd = fd\<rparr>, w6))))"

text \<open>
  The header promises that creation fails when the name is in use. The path is unlinked first, so the second
  listener takes the name over.
\<close>

lemma create_takes_over:
  assumes "name \<noteq> []" and "length (unix_path name) < kSunPath" and "sk_bound w (unix_path name) = Some owner" and "sk_calls w = []"
  shows "\<exists>l w'. listener_create name w = (Inr l, w') \<and> sk_bound w' (unix_path name) = Some (ls_fd l) \<and> ls_fd l = sk_next w"
  using assms by (simp add: listener_create_def system_call_def bind_path_def Let_def)

text \<open>
  The turns of the accept loop: the result of \<^verbatim>\<open>poll\<close> with the readiness of the listening socket and of the cancellation
  pipe, the value of the cancel flag, and the outcome of \<^verbatim>\<open>accept\<close>. None means that the loop still waits.
\<close>

datatype PollTurn = PollFails SysError | PollReady bool bool bool "SysError option"

fun accept_loop :: "PollTurn list \<Rightarrow> void_result option" where
  "accept_loop [] = None"
| "accept_loop (PollFails Interrupted # turns) = accept_loop turns"
| "accept_loop (PollFails OtherError # turns) = Some (Inl Err_IoError)"
| "accept_loop (PollReady listening pipe cancel outcome # turns) =
     (if cancel \<or> pipe then Some (Inl Err_Cancelled)
      else if listening then
        (case outcome of
           None \<Rightarrow> Some (Inr ())
         | Some Interrupted \<Rightarrow> accept_loop turns
         | Some OtherError \<Rightarrow> Some (Inl Err_IoError))
      else accept_loop turns)"

text \<open>A handle of 0 is a closed listener.\<close>

definition listener_accept :: "Listener \<Rightarrow> PollTurn list \<Rightarrow> void_result option" where
  "listener_accept l turns = (if ls_fd l = 0 then Some (Inl Err_Closed) else accept_loop turns)"

definition listener_valid :: "Listener \<Rightarrow> bool" where
  "listener_valid l \<longleftrightarrow> ls_fd l \<noteq> 0"

definition listener_close :: "Listener \<Rightarrow> Listener" where
  "listener_close l = l\<lparr>ls_fd := 0\<rparr>"

text \<open>Once the cancel flag is up, an accept returns with the first turn of \<^verbatim>\<open>poll\<close> that is not interrupted.\<close>

lemma cancelled_accept_returns:
  "\<forall>t \<in> set turns. case t of PollFails er \<Rightarrow> er = Interrupted | PollReady _ _ cancel _ \<Rightarrow> cancel \<Longrightarrow>
     \<exists>t \<in> set turns. \<nexists>er. t = PollFails er \<Longrightarrow>
     accept_loop turns = Some (Inl Err_Cancelled)"
  by (induction turns rule: accept_loop.induct) (auto split: option.splits SysError.splits)

section \<open>Connecting\<close>

text \<open>
  An attempt: whether the socket was made, whether it connected, and the clock after a failure, in the nanoseconds of
  \<^verbatim>\<open>steady_clock\<close>. The path is copied without a check of its length; None stands for the overflow.
\<close>

fun connect_attempts :: "u64 \<Rightarrow> u64 \<Rightarrow> (bool \<times> bool \<times> u64) list \<Rightarrow> void_result option" where
  "connect_attempts start timeout [] = None"
| "connect_attempts start timeout ((made, connected, now) # attempts) =
     (if \<not> made then Some (Inl Err_IoError)
      else if connected then Some (Inr ())
      else if timeout \<noteq> 0 \<and> now - start \<ge> timeout then Some (Inl Err_Unavailable)
      else connect_attempts start timeout attempts)"

definition connect_endpoint :: "string \<Rightarrow> u64 \<Rightarrow> u64 \<Rightarrow> (bool \<times> bool \<times> u64) list \<Rightarrow> void_result option" where
  "connect_endpoint endpoint timeout start attempts =
     (if endpoint = [] then Some (Inl Err_InvalidArgument)
      else case attempts of
          (True, _, _) # _ \<Rightarrow>
            if length (unix_path endpoint) + 1 > kSunPath then None else connect_attempts start timeout attempts
        | _ \<Rightarrow> connect_attempts start timeout attempts)"

text \<open>A budget of five million is over after five milliseconds, although the parameter is named in microseconds.\<close>

lemma budget_is_nanoseconds:
  "name \<noteq> [] \<Longrightarrow> length (unix_path name) < kSunPath \<Longrightarrow>
     connect_endpoint name 5000000 0 [(True, False, 5000000)] = Some (Inl Err_Unavailable)"
  by (simp add: connect_endpoint_def)

definition make_endpoint_name :: "string \<Rightarrow> u64 \<Rightarrow> u64 \<Rightarrow> u64 \<Rightarrow> string" where
  "make_endpoint_name stem pid clock counter =
     (if stem = [] then ''ncf'' else stem) @ ''-'' @ to_hex pid @ ''-'' @ to_hex clock @ ''-'' @ to_hex counter"

end
