(* ===== verification/NCF_Pipe.thy ===== *)
theory NCF_Pipe
  imports NCF_Channel
begin

text \<open>
  The Windows side of \<^verbatim>\<open>src/ipc/channel.cpp\<close>: overlapped reads and writes on a named pipe, the listener that replaces the
  pipe instance it hands over, and connecting, over scripted system calls. A name is its UTF-8 text; the
  conversion to UTF-16 is the system's.
\<close>

section \<open>Channels\<close>

text \<open>
  \<^verbatim>\<open>ERROR_BROKEN_PIPE\<close> and \<^verbatim>\<open>ERROR_PIPE_NOT_CONNECTED\<close> are treated alike. An overlapped call completes at once, is
  refused, or is pending; then the wait fails, or the call finishes or fails.
\<close>

datatype PipeError = OperationAborted | BrokenPipe | OtherPipeError

datatype 'a Overlapped = Immediate 'a | Refused PipeError | WaitFails | Finishes 'a | FinishFails PipeError

text \<open>Calls beyond the scripts find a broken pipe, and write everything.\<close>

record Pipe =
  pi_open :: bool
  pi_closed :: bool
  pi_reads :: "bytes Overlapped list"
  pi_writes :: "nat Overlapped list"
  pi_delivered :: bytes

definition kMaxRequest :: nat where "kMaxRequest = 0xFFFFFFFF"

definition pipe_read :: "nat \<Rightarrow> Pipe \<Rightarrow> bytes result \<times> Pipe" where
  "pipe_read room p =
     (if \<not> pi_open p then (Inl Err_Closed, p)
      else if room = 0 then (Inr [], p)
      else
        let request = min room kMaxRequest; q = p\<lparr>pi_reads := drop 1 (pi_reads p)\<rparr> in
        case (case pi_reads p of [] \<Rightarrow> Refused BrokenPipe | r # _ \<Rightarrow> r) of
          Immediate bs \<Rightarrow> (Inr (take request bs), if take request bs = [] then q\<lparr>pi_closed := True\<rparr> else q)
        | Refused er \<Rightarrow>
            (case er of
               BrokenPipe \<Rightarrow> (Inr [], q\<lparr>pi_closed := True\<rparr>)
             | OperationAborted \<Rightarrow> (Inl Err_Cancelled, q)
             | OtherPipeError \<Rightarrow> (Inl Err_IoError, q))
        | WaitFails \<Rightarrow> (Inl Err_IoError, q)
        | Finishes bs \<Rightarrow> (Inr (take request bs), q)
        | FinishFails er \<Rightarrow>
            (case er of
               OperationAborted \<Rightarrow> (Inl Err_Cancelled, q)
             | BrokenPipe \<Rightarrow> (Inr [], q\<lparr>pi_closed := True\<rparr>)
             | OtherPipeError \<Rightarrow> (Inl Err_IoError, q)))"

text \<open>What one overlapped write comes to: the number of bytes written.\<close>

definition write_step :: "nat Overlapped \<Rightarrow> nat result" where
  "write_step o' =
     (case o' of
        Immediate n \<Rightarrow> Inr n
      | Refused er \<Rightarrow> Inl (if er = OperationAborted then Err_Cancelled else Err_IoError)
      | WaitFails \<Rightarrow> Inl Err_IoError
      | Finishes n \<Rightarrow> Inr n
      | FinishFails er \<Rightarrow> Inl (if er = OperationAborted then Err_Cancelled else Err_IoError))"

fun pipe_write_loop :: "bytes \<Rightarrow> nat Overlapped list \<Rightarrow> bytes \<Rightarrow> void_result \<times> nat Overlapped list \<times> bytes" where
  "pipe_write_loop [] script d = (Inr (), script, d)"
| "pipe_write_loop bs [] d = (Inr (), [], d @ bs)"
| "pipe_write_loop bs (out # script) d =
     (case write_step out of
        Inl er \<Rightarrow> (Inl er, script, d)
      | Inr n \<Rightarrow>
          let written = min n (min (length bs) kMaxRequest) in
          if written = 0 then (Inl Err_IoError, script, d)
          else pipe_write_loop (drop written bs) script (d @ take written bs))"

definition pipe_write :: "bytes \<Rightarrow> Pipe \<Rightarrow> void_result \<times> Pipe" where
  "pipe_write bs p =
     (if \<not> pi_open p then (Inl Err_Closed, p)
      else case pipe_write_loop bs (pi_writes p) (pi_delivered p) of
          (r, script, d) \<Rightarrow> (r, p\<lparr>pi_writes := script, pi_delivered := d\<rparr>))"

definition pipe_close :: "Pipe \<Rightarrow> Pipe" where
  "pipe_close p = (if pi_open p then p\<lparr>pi_open := False, pi_closed := True\<rparr> else p)"

definition pipe_closed :: "Pipe \<Rightarrow> bool" where
  "pipe_closed p \<longleftrightarrow> pi_closed p \<or> \<not> pi_open p"

lemma pipe_write_loop_delivers:
  "pipe_write_loop bs script d = (r, script', d') \<Longrightarrow>
     (case r of Inr _ \<Rightarrow> d' = d @ bs | Inl _ \<Rightarrow> (\<exists>k. d' = d @ take k bs))"
proof (induction bs script d rule: pipe_write_loop.induct)
  case (3 b bs out script d)
  show ?case
  proof (cases "write_step out")
    case (Inl er)
    with 3 show ?thesis by (auto intro: exI [of _ 0])
  next
    case (Inr n)
    let ?w = "min n (min (length (b # bs)) kMaxRequest)"
    show ?thesis
    proof (cases "?w = 0")
      case True
      with Inr 3 show ?thesis by (auto simp: Let_def intro: exI [of _ 0])
    next
      case False
      from "3.prems" have "pipe_write_loop (drop ?w (b # bs)) script (d @ take ?w (b # bs)) = (r, script', d')"
        by (simp only: pipe_write_loop.simps(3) Inr Let_def sum.case False if_False)
      from "3.IH" [OF Inr refl False this]
      have ih: "case r of Inr _ \<Rightarrow> d' = (d @ take ?w (b # bs)) @ drop ?w (b # bs)
          | Inl _ \<Rightarrow> (\<exists>k. d' = (d @ take ?w (b # bs)) @ take k (drop ?w (b # bs)))" .
      show ?thesis
      proof (cases r)
        case (Inl er)
        with ih obtain k where "d' = (d @ take ?w (b # bs)) @ take k (drop ?w (b # bs))" by auto
        then have "d' = d @ take (?w + k) (b # bs)" by (simp only: append_assoc take_add)
        with Inl show ?thesis by auto
      next
        case (Inr u)
        with ih show ?thesis by (simp only: append_assoc append_take_drop_id sum.case)
      qed
    qed
  qed
qed (auto intro: exI [of _ 0])

text \<open>The named pipe keeps the contract that the socket keeps.\<close>

interpretation pipe: byte_channel pipe_write pi_delivered
proof
  fix bs c u c' er
  show "pi_delivered c' = pi_delivered c @ bs" if "pipe_write bs c = (Inr u, c')"
    using that pipe_write_loop_delivers [of bs "pi_writes c" "pi_delivered c"]
    by (auto simp: pipe_write_def split: if_splits prod.splits)
  show "\<exists>k. pi_delivered c' = pi_delivered c @ take k bs" if "pipe_write bs c = (Inl er, c')"
    using that pipe_write_loop_delivers [of bs "pi_writes c" "pi_delivered c"]
    by (auto simp: pipe_write_def split: if_splits prod.splits intro: exI [of _ 0])
qed

lemma pipe_messages_delivered:
  "write_each pipe_write ms p = (Inr (), p') \<Longrightarrow> pi_delivered p' = pi_delivered p @ concat ms"
  using pipe.write_each_delivers by blast

section \<open>Listeners\<close>

definition backslash :: char where "backslash = CHR 0x5C"

definition pipe_path :: "string \<Rightarrow> string" where
  "pipe_path name = [backslash, backslash, CHR ''.'', backslash] @ ''pipe'' @ [backslash] @ name"

record PipeOptions =
  no_name :: string
  no_max_instances :: nat
  no_buffer_bytes :: nat

text \<open>\<^verbatim>\<open>PIPE_UNLIMITED_INSTANCES\<close> is 255, and buffers hold at most a mebibyte.\<close>

definition instance_limit :: "PipeOptions \<Rightarrow> nat" where
  "instance_limit options = (if no_max_instances options = 0 then 255 else min (no_max_instances options) 255)"

definition instance_buffer :: "PipeOptions \<Rightarrow> nat" where
  "instance_buffer options = min (no_buffer_bytes options) 1048576"

text \<open>
  The live instances of every pipe name, the instances that a peer has connected to, whether it is still there or has gone,
  the next handle, and the outcomes of the coming system calls, where a missing one is a success. A first instance is refused
  when the name has one; a further one when the limit is reached. An instance serves one peer: nothing here disconnects it
  for another.
\<close>

datatype CreateError = NameInUse | IllegalName | CreateFails

record Pipes =
  np_instances :: "string \<Rightarrow> nat list"
  np_used :: "nat list"
  np_next :: nat
  np_calls :: "CreateError option list"

definition create_instance :: "string \<Rightarrow> PipeOptions \<Rightarrow> bool \<Rightarrow> Pipes \<Rightarrow> (CreateError + nat) \<times> Pipes" where
  "create_instance path options first w =
     (let w1 = w\<lparr>np_calls := drop 1 (np_calls w)\<rparr>; live = np_instances w path in
      case (case np_calls w of [] \<Rightarrow> None | c # _ \<Rightarrow> c) of
        Some er \<Rightarrow> (Inl er, w1)
      | None \<Rightarrow>
          if (first \<and> live \<noteq> []) \<or> length live \<ge> instance_limit options then (Inl NameInUse, w1)
          else (Inr (np_next w), w1\<lparr>np_instances := (np_instances w)(path := np_next w # live), np_next := np_next w + 1\<rparr>))"

definition close_instance :: "string \<Rightarrow> nat \<Rightarrow> Pipes \<Rightarrow> Pipes" where
  "close_instance path handle w = w\<lparr>np_instances := (np_instances w)(path := removeAll handle (np_instances w path))\<rparr>"

text \<open>A handle of 0 is a closed listener, so handles are positive.\<close>

record PipeListener =
  pl_endpoint :: string
  pl_options :: PipeOptions
  pl_handle :: nat

definition pipe_listener_valid :: "PipeListener \<Rightarrow> bool" where
  "pipe_listener_valid l \<longleftrightarrow> pl_handle l \<noteq> 0"

definition pipe_listener_close :: "PipeListener \<Rightarrow> Pipes \<Rightarrow> PipeListener \<times> Pipes" where
  "pipe_listener_close l w =
     (if pl_handle l \<noteq> 0 then (l\<lparr>pl_handle := 0\<rparr>, close_instance (pipe_path (pl_endpoint l)) (pl_handle l) w) else (l, w))"

text \<open>The flag tells whether the cancellation event can be created.\<close>

definition pipe_listener_create :: "PipeOptions \<Rightarrow> bool \<Rightarrow> Pipes \<Rightarrow> PipeListener result \<times> Pipes" where
  "pipe_listener_create options event w =
     (if no_name options = [] then (Inl Err_InvalidArgument, w)
      else case create_instance (pipe_path (no_name options)) options True w of
          (Inl NameInUse, w1) \<Rightarrow> (Inl Err_AlreadyExists, w1)
        | (Inl IllegalName, w1) \<Rightarrow> (Inl Err_InvalidArgument, w1)
        | (Inl CreateFails, w1) \<Rightarrow> (Inl Err_IoError, w1)
        | (Inr handle, w1) \<Rightarrow>
            let l = \<lparr>pl_endpoint = no_name options, pl_options = options, pl_handle = handle\<rparr> in
            if \<not> event then (Inl Err_IoError, snd (pipe_listener_close l w1)) else (Inr l, w1))"

text \<open>
  The result of \<^verbatim>\<open>ConnectNamedPipe\<close>, and the turns of the wait: what was signalled, with the value of the cancel flag. The
  first event carries the result of the connection; None at the end means that the loop still waits.
\<close>

datatype ConnectError = ConnectAborted | PeerGone | ConnectFails
datatype Connecting = Connected | ConnectPending | NotConnected ConnectError
datatype WaitTurn = ConnectionEvent "ConnectError option" | CancelEvent | WaitTimeout bool | WaitFailure bool

fun wait_connection :: "WaitTurn list \<Rightarrow> (ErrCode + ConnectError option) option" where
  "wait_connection [] = None"
| "wait_connection (ConnectionEvent outcome # turns) = Some (Inr outcome)"
| "wait_connection (CancelEvent # turns) = Some (Inl Err_Cancelled)"
| "wait_connection (WaitTimeout cancel # turns) = (if cancel then Some (Inl Err_Cancelled) else wait_connection turns)"
| "wait_connection (WaitFailure cancel # turns) = Some (Inl (if cancel then Err_Cancelled else Err_IoError))"

definition replace_instance :: "PipeListener \<Rightarrow> Pipes \<Rightarrow> void_result \<times> PipeListener \<times> Pipes" where
  "replace_instance l w =
     (let path = pipe_path (pl_endpoint l);
          options = (if no_name (pl_options l) = [] then (pl_options l)\<lparr>no_name := pl_endpoint l\<rparr> else pl_options l)
      in case create_instance path options False w of
           (Inl _, w1) \<Rightarrow>
             (case pipe_listener_close l w1 of (l1, w2) \<Rightarrow> (Inl Err_IoError, l1, w2))
         | (Inr replacement, w1) \<Rightarrow>
             (case pipe_listener_close l w1 of (l1, w2) \<Rightarrow> (Inr (), l1\<lparr>pl_handle := replacement\<rparr>, w2)))"

text \<open>The connected instance is the caller's; the listener replaces it first, and closes it when it cannot.\<close>

definition hand_over :: "PipeListener \<Rightarrow> Pipes \<Rightarrow> nat result \<times> PipeListener \<times> Pipes" where
  "hand_over l w =
     (let handle = pl_handle l in
      case replace_instance (l\<lparr>pl_handle := 0\<rparr>) w of
        (Inl er, l1, w1) \<Rightarrow> (Inl er, l1, close_instance (pipe_path (pl_endpoint l)) handle w1)
      | (Inr _, l1, w1) \<Rightarrow> (Inr handle, l1, w1))"

definition connection_failed :: "ConnectError \<Rightarrow> PipeListener \<Rightarrow> Pipes \<Rightarrow> nat result \<times> PipeListener \<times> Pipes" where
  "connection_failed er l w =
     (case er of
        ConnectAborted \<Rightarrow> (Inl Err_Cancelled, l, w)
      | PeerGone \<Rightarrow>
          (case replace_instance l w of
             (Inl e, l1, w1) \<Rightarrow> (Inl e, l1, w1)
           | (Inr _, l1, w1) \<Rightarrow> (Inl Err_Unavailable, l1, w1))
      | ConnectFails \<Rightarrow> (Inl Err_IoError, l, w))"

text \<open>
  \<^verbatim>\<open>ConnectNamedPipe\<close> on an instance that had its peer fails, as if that peer had just gone. When it ends, with a peer or with
  one that has gone again, the instance is used.
\<close>

definition connect_named_pipe :: "nat \<Rightarrow> Connecting \<Rightarrow> Pipes \<Rightarrow> Connecting" where
  "connect_named_pipe handle connecting w = (if handle \<in> set (np_used w) then NotConnected PeerGone else connecting)"

definition peer_seen :: "nat \<Rightarrow> ConnectError option \<Rightarrow> Pipes \<Rightarrow> Pipes" where
  "peer_seen handle outcome w =
     (if outcome = None \<or> outcome = Some PeerGone then w\<lparr>np_used := handle # np_used w\<rparr> else w)"

definition connection_ended :: "ConnectError option \<Rightarrow> PipeListener \<Rightarrow> Pipes \<Rightarrow> nat result \<times> PipeListener \<times> Pipes" where
  "connection_ended outcome l w =
     (let w1 = peer_seen (pl_handle l) outcome w in
      case outcome of None \<Rightarrow> hand_over l w1 | Some er \<Rightarrow> connection_failed er l w1)"

definition pipe_accept ::
  "bool \<Rightarrow> Connecting \<Rightarrow> WaitTurn list \<Rightarrow> PipeListener \<Rightarrow> Pipes \<Rightarrow> (nat result \<times> PipeListener \<times> Pipes) option" where
  "pipe_accept event connecting turns l w =
     (if pl_handle l = 0 then Some (Inl Err_Closed, l, w)
      else if \<not> event then Some (Inl Err_IoError, l, w)
      else case connect_named_pipe (pl_handle l) connecting w of
          Connected \<Rightarrow> Some (connection_ended None l w)
        | NotConnected er \<Rightarrow> Some (connection_ended (Some er) l w)
        | ConnectPending \<Rightarrow>
            (case wait_connection turns of
               None \<Rightarrow> None
             | Some (Inl er) \<Rightarrow> Some (Inl er, l, w)
             | Some (Inr outcome) \<Rightarrow> Some (connection_ended outcome l w)))"

section \<open>Connecting\<close>

text \<open>
  An attempt: opening succeeds, or fails with the error that lets the loop retry or with another, and the clock after a
  failure. Here the budget and the clock are both in microseconds.
\<close>

datatype PipeAttempt = PipeOpened | PipeBusy u64 | PipeRefused

fun pipe_attempts :: "u64 \<Rightarrow> u64 \<Rightarrow> PipeAttempt list \<Rightarrow> void_result option" where
  "pipe_attempts start timeout [] = None"
| "pipe_attempts start timeout (PipeOpened # attempts) = Some (Inr ())"
| "pipe_attempts start timeout (PipeRefused # attempts) = Some (Inl Err_IoError)"
| "pipe_attempts start timeout (PipeBusy now # attempts) =
     (if timeout \<noteq> 0 \<and> now - start \<ge> timeout then Some (Inl Err_Unavailable) else pipe_attempts start timeout attempts)"

definition pipe_connect :: "string \<Rightarrow> u64 \<Rightarrow> u64 \<Rightarrow> PipeAttempt list \<Rightarrow> void_result option" where
  "pipe_connect endpoint timeout start attempts =
     (if endpoint = [] then Some (Inl Err_InvalidArgument) else pipe_attempts start timeout attempts)"

section \<open>The listener keeps its instance\<close>

text \<open>
  A listener owns its instance: its handle, if it has one, is a live instance of its pipe, and the handles given out so far
  are positive and below the next one. It listens when moreover no peer has had the instance, so that the next one can connect.
\<close>

definition owning :: "PipeListener \<Rightarrow> Pipes \<Rightarrow> bool" where
  "owning l w \<longleftrightarrow> 0 < np_next w \<and> (\<forall>path. \<forall>h \<in> set (np_instances w path). 0 < h \<and> h < np_next w) \<and>
     (\<forall>h \<in> set (np_used w). h < np_next w) \<and>
     (pl_handle l \<noteq> 0 \<longrightarrow> pl_handle l \<in> set (np_instances w (pipe_path (pl_endpoint l))))"

definition listening :: "PipeListener \<Rightarrow> Pipes \<Rightarrow> bool" where
  "listening l w \<longleftrightarrow> owning l w \<and> (pl_handle l \<noteq> 0 \<longrightarrow> pl_handle l \<notin> set (np_used w))"

lemma created_listener_listens:
  assumes "0 < np_next w" and "\<forall>path. \<forall>h \<in> set (np_instances w path). 0 < h \<and> h < np_next w"
    and "\<forall>h \<in> set (np_used w). h < np_next w"
    and "pipe_listener_create options event w = (Inr l, w')"
  shows "listening l w' \<and> pipe_listener_valid l"
  using assms
  by (fastforce simp: pipe_listener_create_def create_instance_def listening_def owning_def pipe_listener_valid_def Let_def
      split: if_splits option.splits list.splits CreateError.splits)

lemma name_in_use_refused:
  "no_name options \<noteq> [] \<Longrightarrow> np_instances w (pipe_path (no_name options)) \<noteq> [] \<Longrightarrow> np_calls w = [] \<Longrightarrow>
     pipe_listener_create options event w = (Inl Err_AlreadyExists, w)"
  by (cases w) (simp add: pipe_listener_create_def create_instance_def Let_def)

text \<open>A replacement, whether the old instance is used or not, is a new instance of the same pipe; nothing else of the pipe changes but the handle it replaces.\<close>

lemma replace_instance_cases:
  assumes "owning l w" and "replace_instance l w = (r, l', w')"
  shows "listening l' w' \<and> pl_endpoint l' = pl_endpoint l \<and> np_next w \<le> np_next w' \<and>
    (case r of
       Inl er \<Rightarrow> pl_handle l' = 0 \<and> er = Err_IoError \<and>
         set (np_instances w' (pipe_path (pl_endpoint l))) = set (np_instances w (pipe_path (pl_endpoint l))) - {pl_handle l}
     | Inr _ \<Rightarrow> pl_handle l' = np_next w \<and>
         set (np_instances w' (pipe_path (pl_endpoint l))) = insert (np_next w) (set (np_instances w (pipe_path (pl_endpoint l))) - {pl_handle l}))"
proof -
  let ?path = "pipe_path (pl_endpoint l)"
  let ?o = "if no_name (pl_options l) = [] then (pl_options l)\<lparr>no_name := pl_endpoint l\<rparr> else pl_options l"
  obtain c w1 where c: "create_instance ?path ?o False w = (c, w1)" by (cases "create_instance ?path ?o False w")
  have fresh: "0 < np_next w" "np_next w \<notin> set (np_used w)" "np_next w \<notin> set (np_instances w ?path)" "pl_handle l < np_next w" "0 \<notin> set (np_instances w ?path)"
    using assms(1) by (auto simp: owning_def)
  show ?thesis
  proof (cases c)
    case (Inl er)
    with c have w1: "np_instances w1 = np_instances w" "np_next w1 = np_next w" "np_used w1 = np_used w"
      by (auto simp: create_instance_def Let_def split: option.splits list.splits if_splits)
    from Inl c assms(2) have "r = Inl Err_IoError" "(l', w') = pipe_listener_close l w1"
      by (auto simp: replace_instance_def Let_def split: prod.splits)
    then show ?thesis using assms(1) w1 fresh
      by (auto simp: pipe_listener_close_def close_instance_def listening_def owning_def split: if_splits) (simp_all add: fresh)
  next
    case (Inr h)
    with c have w1: "h = np_next w" "np_instances w1 = (np_instances w)(?path := np_next w # np_instances w ?path)" "np_next w1 = np_next w + 1"
      "np_used w1 = np_used w"
      by (auto simp: create_instance_def Let_def split: option.splits list.splits if_splits)
    obtain l2 w2 where closed: "pipe_listener_close l w1 = (l2, w2)" by (cases "pipe_listener_close l w1")
    with Inr c assms(2) have r: "r = Inr ()" "l' = l2\<lparr>pl_handle := h\<rparr>" "w' = w2"
      by (auto simp: replace_instance_def Let_def)
    have l2: "pl_endpoint l2 = pl_endpoint l" and next2: "np_next w2 = np_next w + 1" and used2: "np_used w2 = np_used w"
      and path2: "set (np_instances w2 ?path) = insert (np_next w) (set (np_instances w ?path) - {pl_handle l})"
      and some2: "set (np_instances w2 p) \<subseteq> insert (np_next w) (set (np_instances w p))" for p
      using closed w1 fresh by (auto simp: pipe_listener_close_def close_instance_def split: if_splits)
    have "0 < x \<and> x < np_next w2" if "x \<in> set (np_instances w2 p)" for x p
    proof (cases "x = np_next w")
      case False
      with some2 [of p] that have "x \<in> set (np_instances w p)" by blast
      with assms(1) have "0 < x \<and> x < np_next w" by (simp add: owning_def)
      with next2 show ?thesis by simp
    qed (use fresh(1) next2 in simp)
    moreover have "h < np_next w2" if "h \<in> set (np_used w2)" for h
      using that assms(1) used2 next2 by (auto simp: owning_def)
    ultimately have "listening l' w'" using r l2 next2 path2 w1(1) used2 fresh(2) by (simp add: listening_def owning_def)
    with r l2 next2 path2 w1(1) show ?thesis by simp
  qed
qed

lemma hand_over_cases:
  assumes "owning l w" and "pl_handle l \<noteq> 0" and "hand_over l w = (r, l', w')"
  shows "listening l' w' \<and>
    (case r of
       Inl er \<Rightarrow> er = Err_IoError \<and> pl_handle l' = 0
     | Inr h \<Rightarrow> h = pl_handle l \<and> h \<in> set (np_instances w' (pipe_path (pl_endpoint l))) \<and> pl_handle l' \<noteq> 0 \<and> pl_handle l' \<noteq> h)"
proof -
  let ?l = "l\<lparr>pl_handle := 0\<rparr>" and ?path = "pipe_path (pl_endpoint l)"
  obtain r1 l1 w1 where rep: "replace_instance ?l w = (r1, l1, w1)" by (cases "replace_instance ?l w")
  have h: "0 < np_next w" "pl_handle l \<in> set (np_instances w ?path)" "pl_handle l < np_next w" "0 \<notin> set (np_instances w ?path)"
    using assms(1,2) by (auto simp: owning_def)
  from assms(1) have "owning ?l w" by (simp add: owning_def)
  note c = replace_instance_cases [OF this rep]
  show ?thesis
  proof (cases r1)
    case (Inl er)
    with assms(3) rep have "r = Inl er" "l' = l1" "w' = close_instance ?path (pl_handle l) w1"
      by (auto simp: hand_over_def Let_def)
    with c Inl show ?thesis by (auto simp: listening_def owning_def close_instance_def)
  next
    case (Inr u)
    with assms(3) rep have "r = Inr (pl_handle l)" "l' = l1" "w' = w1" by (auto simp: hand_over_def Let_def)
    with c Inr h show ?thesis by auto
  qed
qed

lemma connection_failed_cases:
  assumes "owning l w" and "er = PeerGone \<or> listening l w" and "pl_handle l \<noteq> 0" and "connection_failed er l w = (r, l', w')"
  shows "listening l' w' \<and> (\<exists>e. r = Inl e \<and> (e \<in> {Err_Cancelled, Err_Unavailable} \<longrightarrow> pl_handle l' \<noteq> 0))"
proof (cases er)
  case PeerGone
  obtain r1 l1 w1 where rep: "replace_instance l w = (r1, l1, w1)" by (cases "replace_instance l w")
  have "0 < np_next w" using assms(1) by (simp add: owning_def)
  with replace_instance_cases [OF assms(1) rep] rep PeerGone assms(4)
  show ?thesis by (auto simp: connection_failed_def split: sum.splits)
qed (use assms in \<open>auto simp: connection_failed_def\<close>)

lemma connection_ended_cases:
  assumes "listening l w" and "pl_handle l \<noteq> 0" and "connection_ended outcome l w = (r, l', w')"
  shows "listening l' w' \<and>
    (case r of
       Inl er \<Rightarrow> er \<in> {Err_Cancelled, Err_Unavailable} \<longrightarrow> pl_handle l' \<noteq> 0
     | Inr h \<Rightarrow> h = pl_handle l \<and> h \<in> set (np_instances w' (pipe_path (pl_endpoint l))) \<and> pl_handle l' \<noteq> 0 \<and> pl_handle l' \<noteq> h)"
proof -
  let ?w = "peer_seen (pl_handle l) outcome w"
  have o: "owning l ?w" using assms(1,2) by (auto simp: peer_seen_def listening_def owning_def)
  show ?thesis
  proof (cases outcome)
    case None
    with assms(3) have "hand_over l ?w = (r, l', w')" by (simp add: connection_ended_def)
    from hand_over_cases [OF o assms(2) this] show ?thesis by (cases r) auto
  next
    case (Some er)
    with assms(3) have e: "connection_failed er l ?w = (r, l', w')" by (simp add: connection_ended_def)
    have "er = PeerGone \<or> listening l ?w" using assms(1) Some by (simp add: peer_seen_def)
    from connection_failed_cases [OF o this assms(2) e] show ?thesis by auto
  qed
qed

text \<open>C22: the listener is never wedged and never gives away its own instance. An instance serves one peer: after a peer has
  connected, whether it stays or has gone again, nobody can connect to it any more. Whatever the system calls of an accept return,
  the listener afterwards is closed or listens on a live instance that no peer has had; an accepted connection is a live
  instance other than the one that listens on; and after a cancelled or a benign outcome the listener is not closed.\<close>

theorem accept_keeps_listening:
  assumes "listening l w" and "pipe_accept event connecting turns l w = Some (r, l', w')"
  shows "(pipe_listener_valid l' \<longrightarrow>
      pl_handle l' \<in> set (np_instances w' (pipe_path (pl_endpoint l'))) \<and> pl_handle l' \<notin> set (np_used w')) \<and>
    listening l' w' \<and>
    (case r of
       Inr h \<Rightarrow> h \<in> set (np_instances w' (pipe_path (pl_endpoint l))) \<and> pipe_listener_valid l' \<and> h \<noteq> pl_handle l'
     | Inl er \<Rightarrow> er \<in> {Err_Cancelled, Err_Unavailable} \<longrightarrow> pipe_listener_valid l')"
proof -
  have "listening l' w' \<and>
    (case r of
       Inr h \<Rightarrow> h \<in> set (np_instances w' (pipe_path (pl_endpoint l))) \<and> pipe_listener_valid l' \<and> h \<noteq> pl_handle l'
     | Inl er \<Rightarrow> er \<in> {Err_Cancelled, Err_Unavailable} \<longrightarrow> pipe_listener_valid l')"
  proof (cases "pl_handle l = 0 \<or> \<not> event")
    case True
    with assms show ?thesis by (auto simp: pipe_accept_def split: if_splits)
  next
    case False
    have waits: "wait_connection turns = Some (Inl er) \<Longrightarrow> er \<in> {Err_Cancelled, Err_IoError}" for er
      by (induction turns rule: wait_connection.induct) (auto split: if_splits)
    have ended: ?thesis if "connection_ended outcome l w = (r, l', w')" for outcome
      using connection_ended_cases [OF assms(1) _ that] False by (cases r) (auto simp: pipe_listener_valid_def)
    show ?thesis
      using assms(2) False ended assms(1)
      by (auto simp: pipe_accept_def pipe_listener_valid_def split: Connecting.splits option.splits sum.splits)
  qed
  then show ?thesis by (auto simp: listening_def owning_def pipe_listener_valid_def)
qed

text \<open>A peer that connects and vanishes: the listener goes on with a new instance, and the next peer is accepted on it.\<close>

definition demo_listener :: PipeListener where
  "demo_listener = \<lparr>pl_endpoint = ''n'', pl_options = \<lparr>no_name = ''n'', no_max_instances = 8, no_buffer_bytes = 65536\<rparr>, pl_handle = 1\<rparr>"

definition demo_pipes :: Pipes where
  "demo_pipes = \<lparr>np_instances = (\<lambda>_. [])(pipe_path ''n'' := [1]), np_used = [], np_next = 2, np_calls = []\<rparr>"

theorem accept_keeps_listening_witness:
  "\<exists>l w l' w'. pipe_accept True (NotConnected PeerGone) [] demo_listener demo_pipes = Some (Inl Err_Unavailable, l, w) \<and>
    pl_handle l = 2 \<and> np_used w = [1] \<and> pipe_accept True Connected [] l w = Some (Inr 2, l', w') \<and>
    pl_handle l' \<in> set (np_instances w' (pipe_path ''n'')) \<and> pl_handle l' \<notin> set (np_used w')"
proof -
  note model = pipe_accept_def connection_ended_def connect_named_pipe_def peer_seen_def connection_failed_def hand_over_def
    replace_instance_def create_instance_def instance_limit_def pipe_listener_close_def close_instance_def Let_def
  have "listening demo_listener demo_pipes" by (simp add: listening_def owning_def demo_listener_def demo_pipes_def)
  note first = accept_keeps_listening [OF this]
  obtain l w where one: "pipe_accept True (NotConnected PeerGone) [] demo_listener demo_pipes = Some (Inl Err_Unavailable, l, w)"
    and l: "pl_handle l = 2" "pl_endpoint l = ''n''" "np_used w = [1]" "\<exists>l' w'. pipe_accept True Connected [] l w = Some (Inr 2, l', w') \<and> pl_endpoint l' = ''n''"
    by (simp add: model demo_listener_def demo_pipes_def)
  from l(4) obtain l' w' where two: "pipe_accept True Connected [] l w = Some (Inr 2, l', w')" and e: "pl_endpoint l' = ''n''" by blast
  from first [OF one] have "listening l w" by simp
  from accept_keeps_listening [OF this two] e have "pl_handle l' \<in> set (np_instances w' (pipe_path ''n'')) \<and> pl_handle l' \<notin> set (np_used w')"
    by (auto simp: pipe_listener_valid_def)
  with one two l show ?thesis by blast
qed

text \<open>
  At the instance limit, which the coordinator sets to eight, the next peer finds no replacement: its connection is closed
  and the listener with it, and every later accept reports that it is closed, on which the coordinator stops
  accepting.
\<close>

lemma exhausted_instances_end_accepting:
  assumes "pl_handle l \<noteq> 0" and "pl_handle l \<notin> set (np_used w)" and "np_calls w = []" and "no_name (pl_options l) \<noteq> []"
    and "length (np_instances w (pipe_path (pl_endpoint l))) \<ge> instance_limit (pl_options l)"
  shows "\<exists>l' w'. pipe_accept True Connected [] l w = Some (Inl Err_IoError, l', w') \<and>
    (\<forall>connecting turns v. pipe_accept True connecting turns l' v = Some (Inl Err_Closed, l', v))"
  using assms
  by (simp add: pipe_accept_def connection_ended_def connect_named_pipe_def peer_seen_def hand_over_def replace_instance_def create_instance_def pipe_listener_close_def Let_def)

end
