(* ===== verification/NCF_Process.thy ===== *)
theory NCF_Process
  imports NCF_Core
begin

text \<open>
  Child processes, \<^verbatim>\<open>src/ipc/process.cpp\<close>: starting one, capturing its output within a bound, waiting for it, asking
  whether it runs and killing it, over scripted system calls. The handle of a process that was moved from is one
  without a process.
\<close>

section \<open>Capturing output\<close>

text \<open>
  What a reader thread does with a chunk under the lock. The loop ends with the first read that gives nothing or fails;
  both are None here, as the end of the list is. The same code serves standard output and standard error on both
  systems.
\<close>

record Capture =
  ca_text :: bytes
  ca_dropped :: u64

definition capture_chunk :: "nat \<Rightarrow> bytes \<Rightarrow> Capture \<Rightarrow> Capture" where
  "capture_chunk max_capture chunk c =
     (let room = (if length (ca_text c) < max_capture then max_capture - length (ca_text c) else 0);
          keep = (if length chunk < room then length chunk else room)
      in \<lparr>ca_text = ca_text c @ take keep chunk,
          ca_dropped = (if keep < length chunk then ca_dropped c + of_nat (length chunk - keep) else ca_dropped c)\<rparr>)"

fun capture_loop :: "nat \<Rightarrow> bytes option list \<Rightarrow> Capture \<Rightarrow> Capture" where
  "capture_loop max_capture [] c = c"
| "capture_loop max_capture (None # reads) c = c"
| "capture_loop max_capture (Some chunk # reads) c =
     (if chunk = [] then c else capture_loop max_capture reads (capture_chunk max_capture chunk c))"

section \<open>Children\<close>

record ProcessOptions =
  pr_executable :: string
  pr_arguments :: "string list"
  pr_working_directory :: string
  pr_capture_stdout :: bool
  pr_capture_stderr :: bool
  pr_max_capture_bytes :: nat

text \<open>
  A process number of 0 stands for no process attached. The two captures run until the reads of their pipe end; joining the
  readers takes them from their reads to their results.
\<close>

record Child =
  ch_pid :: nat
  ch_reaped :: bool
  ch_exit_code :: u32
  ch_max_capture :: nat
  ch_stdout_reads :: "bytes option list"
  ch_stderr_reads :: "bytes option list"
  ch_stdout :: Capture
  ch_stderr :: Capture

definition stop_capture :: "Child \<Rightarrow> Child" where
  "stop_capture c =
     c\<lparr>ch_stdout := capture_loop (ch_max_capture c) (ch_stdout_reads c) (ch_stdout c), ch_stdout_reads := [],
       ch_stderr := capture_loop (ch_max_capture c) (ch_stderr_reads c) (ch_stderr c), ch_stderr_reads := []\<rparr>"

text \<open>The outcomes: of each pipe that is asked for, of the fork with the new process's number, and what the child will write.\<close>

definition posix_spawn ::
  "ProcessOptions \<Rightarrow> bool \<Rightarrow> bool \<Rightarrow> nat option \<Rightarrow> bytes option list \<Rightarrow> bytes option list \<Rightarrow> Child result" where
  "posix_spawn options out_pipe err_pipe forked outs errs =
     (if pr_executable options = [] then Inl Err_InvalidArgument
      else if pr_capture_stdout options \<and> \<not> out_pipe then Inl Err_IoError
      else if pr_capture_stderr options \<and> \<not> err_pipe then Inl Err_IoError
      else case forked of
          None \<Rightarrow> Inl Err_IoError
        | Some pid \<Rightarrow>
            Inr \<lparr>ch_pid = pid, ch_reaped = False, ch_exit_code = 0, ch_max_capture = pr_max_capture_bytes options,
                 ch_stdout_reads = (if pr_capture_stdout options then outs else []),
                 ch_stderr_reads = (if pr_capture_stderr options then errs else []),
                 ch_stdout = \<lparr>ca_text = [], ca_dropped = 0\<rparr>, ch_stderr = \<lparr>ca_text = [], ca_dropped = 0\<rparr>\<rparr>)"

text \<open>
  \<^verbatim>\<open>waitpid\<close>: it fails, or gives no process yet, or the status: the exit code of a process that exited, None for one that a
  signal ended. A failing call leaves the status at 0, which reads as an exit with code 0.
\<close>

datatype Waited = WaitError | StillRunning | Ended "u32 option"

definition exit_of :: "u32 option \<Rightarrow> u32" where
  "exit_of status = (case status of Some code \<Rightarrow> code | None \<Rightarrow> -1)"

definition posix_running :: "Waited \<Rightarrow> Child \<Rightarrow> bool \<times> Child" where
  "posix_running waited c =
     (if ch_pid c = 0 \<or> ch_reaped c then (False, c)
      else case waited of
          StillRunning \<Rightarrow> (True, c)
        | WaitError \<Rightarrow> (False, c\<lparr>ch_reaped := True, ch_exit_code := 0\<rparr>)
        | Ended status \<Rightarrow> (False, c\<lparr>ch_reaped := True, ch_exit_code := exit_of status\<rparr>))"

text \<open>A blocking wait has no \<^const>\<open>StillRunning\<close>; it counts as a failure here.\<close>

definition posix_wait :: "Waited \<Rightarrow> Child \<Rightarrow> u32 result \<times> Child" where
  "posix_wait waited c =
     (if ch_pid c = 0 then (Inl Err_NotReady, c)
      else if ch_reaped c then (Inr (ch_exit_code c), stop_capture c)
      else case waited of
          Ended status \<Rightarrow>
            (let d = stop_capture (c\<lparr>ch_reaped := True, ch_exit_code := exit_of status\<rparr>) in (Inr (ch_exit_code d), d))
        | _ \<Rightarrow> (Inl Err_IoError, c))"

text \<open>The result tells which process the signal goes to.\<close>

definition posix_terminate :: "Child \<Rightarrow> nat result" where
  "posix_terminate c = (if ch_pid c = 0 then Inl Err_NotReady else Inr (ch_pid c))"

definition posix_destroy :: "Child \<Rightarrow> nat option \<times> Child" where
  "posix_destroy c =
     (if ch_pid c \<noteq> 0 \<and> \<not> ch_reaped c then (Some (ch_pid c), stop_capture (c\<lparr>ch_reaped := True\<rparr>)) else (None, stop_capture c))"

section \<open>Windows\<close>

definition quote_argument :: "string \<Rightarrow> string" where
  "quote_argument argument =
     [CHR 0x22] @ concat (map (\<lambda>c. if c = CHR 0x22 then [CHR 0x5C, CHR 0x22] else [c]) argument) @ [CHR 0x22]"

definition command_line :: "ProcessOptions \<Rightarrow> string" where
  "command_line options =
     quote_argument (pr_executable options) @ concat (map (\<lambda>a. CHR '' '' # quote_argument a) (pr_arguments options))"

definition kStillActive :: u32 where "kStillActive = 259"

text \<open>The exit code of a process that has not ended is \<^const>\<open>kStillActive\<close>; None when the call fails.\<close>

definition windows_running :: "u32 option \<Rightarrow> Child \<Rightarrow> bool" where
  "windows_running code c \<longleftrightarrow> ch_pid c \<noteq> 0 \<and> code = Some kStillActive"

definition windows_wait :: "bool \<Rightarrow> u32 option \<Rightarrow> Child \<Rightarrow> u32 result \<times> Child" where
  "windows_wait waited code c =
     (if ch_pid c = 0 then (Inl Err_NotReady, c)
      else if \<not> waited then (Inl Err_IoError, c)
      else case code of
          None \<Rightarrow> (Inl Err_IoError, c)
        | Some k \<Rightarrow> (let d = stop_capture (c\<lparr>ch_reaped := True, ch_exit_code := k\<rparr>) in (Inr (ch_exit_code d), d)))"

text \<open>The call succeeds, is denied, which a process that has ended answers, or fails.\<close>

datatype Terminated = TerminateDone | TerminateDenied | TerminateFails

definition windows_terminate :: "Terminated \<Rightarrow> Child \<Rightarrow> void_result" where
  "windows_terminate outcome c =
     (if ch_pid c = 0 then Inl Err_NotReady else if outcome = TerminateFails then Inl Err_IoError else Inr ())"

section \<open>Sleeping\<close>

definition windows_sleep_millis :: "Tick \<Rightarrow> u32" where
  "windows_sleep_millis micros = ucast ((micros + 999) div 1000)"

definition posix_sleep_micros :: "Tick \<Rightarrow> u32" where
  "posix_sleep_micros micros = ucast micros"

section \<open>Properties\<close>

lemma capture_chunk_text:
  "ca_text c = take m xs \<Longrightarrow> ca_text (capture_chunk m chunk c) = take m (xs @ chunk)"
  by (auto simp: capture_chunk_def Let_def min_def)

lemma capture_chunk_dropped:
  "ca_text c = take m xs \<Longrightarrow> ca_dropped c = of_nat (length xs - m) \<Longrightarrow>
     ca_dropped (capture_chunk m chunk c) = of_nat (length (xs @ chunk) - m)"
  by (auto simp: capture_chunk_def Let_def min_def of_nat_diff)

lemma capture_loop_exact:
  assumes "ca_text c = take m xs" and "ca_dropped c = of_nat (length xs - m)" and "[] \<notin> set chunks"
  shows "capture_loop m (map Some chunks) c = \<lparr>ca_text = take m (xs @ concat chunks), ca_dropped = of_nat (length (xs @ concat chunks) - m)\<rparr>"
  using assms
proof (induction chunks arbitrary: c xs)
  case (Cons chunk chunks)
  from Cons.IH [OF capture_chunk_text [OF Cons.prems(1)] capture_chunk_dropped [OF Cons.prems(1,2)]] Cons.prems(3)
  show ?case by auto
qed (cases c, simp)

text \<open>Captured output is the beginning of what the child wrote, cut at the bound, and the count of dropped bytes makes up
  for the rest, however the writes are split into reads.\<close>

theorem capture_accounts_for_output:
  assumes "posix_spawn options out_pipe err_pipe forked (map Some outs) (map Some errs) = Inr c"
    and "pr_capture_stdout options" and "[] \<notin> set outs" and "posix_wait waited c = (Inr code, d)"
  shows "ca_text (ch_stdout d) = take (pr_max_capture_bytes options) (concat outs) \<and>
    ca_dropped (ch_stdout d) = of_nat (length (concat outs) - pr_max_capture_bytes options) \<and>
    fst (posix_wait waited' d) = Inr code"
proof -
  have c: "ch_stdout_reads c = map Some outs" "ch_stdout c = \<lparr>ca_text = [], ca_dropped = 0\<rparr>"
      "ch_max_capture c = pr_max_capture_bytes options" "\<not> ch_reaped c"
    using assms(1,2) by (auto simp: posix_spawn_def split: if_splits option.splits)
  obtain status where "waited = Ended status" "ch_pid c \<noteq> 0" "code = exit_of status"
      "d = stop_capture (c\<lparr>ch_reaped := True, ch_exit_code := exit_of status\<rparr>)"
    using assms(4) c(4) by (auto simp: posix_wait_def Let_def stop_capture_def split: if_splits Waited.splits)
  then show ?thesis
    using c capture_loop_exact [of "\<lparr>ca_text = [], ca_dropped = 0\<rparr>" "pr_max_capture_bytes options" "[]" outs] assms(3)
    by (simp add: stop_capture_def posix_wait_def Let_def)
qed

theorem capture_accounts_for_output_witness:
  "\<exists>c d. posix_spawn \<lparr>pr_executable = ''x'', pr_arguments = [], pr_working_directory = [], pr_capture_stdout = True,
        pr_capture_stderr = False, pr_max_capture_bytes = 3\<rparr> True True (Some 7) (map Some [[1, 2], [3, 4]]) (map Some []) = Inr c \<and>
     posix_wait (Ended (Some 5)) c = (Inr 5, d) \<and> ca_text (ch_stdout d) = [1, 2, 3] \<and> ca_dropped (ch_stdout d) = 1"
proof -
  let ?o = "\<lparr>pr_executable = ''x'', pr_arguments = [], pr_working_directory = [], pr_capture_stdout = True,
        pr_capture_stderr = False, pr_max_capture_bytes = 3\<rparr>"
  obtain c where c: "posix_spawn ?o True True (Some 7) (map Some [[1, 2], [3, 4]]) (map Some []) = Inr c" "ch_pid c = 7" "\<not> ch_reaped c"
    by (simp add: posix_spawn_def)
  then obtain d where d: "posix_wait (Ended (Some 5)) c = (Inr 5, d)"
    by (auto simp: posix_wait_def exit_of_def stop_capture_def Let_def)
  from capture_accounts_for_output [OF c(1) _ _ d, of StillRunning] c(1) d show ?thesis by auto
qed

text \<open>
  A failing \<^verbatim>\<open>waitpid\<close> is reported as an exit with code 0, and a process that was reaped can still be sent the signal, when its
  number may be another's.
\<close>

lemma failed_poll_reads_as_success:
  "ch_pid c \<noteq> 0 \<Longrightarrow> \<not> ch_reaped c \<Longrightarrow> fst (posix_wait waited (snd (posix_running WaitError c))) = Inr 0"
  by (simp add: posix_running_def posix_wait_def)

lemma reaped_process_signalled:
  "posix_wait waited c = (Inr code, d) \<Longrightarrow> posix_terminate d = Inr (ch_pid c)"
  by (auto simp: posix_wait_def posix_terminate_def stop_capture_def Let_def split: if_splits Waited.splits)

text \<open>A process that exits with code 259 runs for ever.\<close>

lemma exit_code_reads_as_running: "ch_pid c \<noteq> 0 \<Longrightarrow> windows_running (Some 259) c"
  by (simp add: windows_running_def kStillActive_def)

end
