(* ===== verification/NCF_Args.thy ===== *)
theory NCF_Args
  imports NCF_Explanation
begin

text \<open>
  The command line, \<^verbatim>\<open>src/cli/args.cpp\<close>: the split into role, positionals and options, the look-ups, and the numbers,
  which are read by \<^verbatim>\<open>strtoull\<close> and \<^verbatim>\<open>strtoll\<close> of the C library. Arguments hold no zero byte.
\<close>

section \<open>Numbers of the C library\<close>

definition is_space :: "char \<Rightarrow> bool" where
  "is_space c \<longleftrightarrow> (let n = of_char c :: nat in n = 32 \<or> 9 \<le> n \<and> n \<le> 13)"

definition digit_in :: "nat \<Rightarrow> char \<Rightarrow> nat option" where
  "digit_in base c =
     (case hex_digit_value c of None \<Rightarrow> None | Some d \<Rightarrow> if unat d < base then Some (unat d) else None)"

fun scan_digits :: "nat \<Rightarrow> nat \<Rightarrow> string \<Rightarrow> nat \<times> string" where
  "scan_digits base acc [] = (acc, [])"
| "scan_digits base acc (c # cs) =
     (case digit_in base c of None \<Rightarrow> (acc, c # cs) | Some d \<Rightarrow> scan_digits base (acc * base + d) cs)"

definition split_sign :: "string \<Rightarrow> bool \<times> string" where
  "split_sign s =
     (case s of
        [] \<Rightarrow> (False, [])
      | c # cs \<Rightarrow> if c = CHR ''-'' then (True, cs) else if c = CHR ''+'' then (False, cs) else (False, s))"

text \<open>Base 0 reads the base off the text; a lone \<^verbatim>\<open>0x\<close> is the number 0 followed by an \<^verbatim>\<open>x\<close>.\<close>

definition detect_base :: "nat \<Rightarrow> string \<Rightarrow> nat \<times> string" where
  "detect_base base s =
     (if base \<noteq> 0 then (base, s)
      else if length s > 2 \<and> s ! 0 = CHR ''0'' \<and> (s ! 1 = CHR ''x'' \<or> s ! 1 = CHR ''X'') \<and> digit_in 16 (s ! 2) \<noteq> None
      then (16, drop 2 s)
      else if s \<noteq> [] \<and> s ! 0 = CHR ''0'' then (8, s)
      else (10, s))"

text \<open>The sign, the magnitude and what follows the number; the whole text where there is none.\<close>

definition scan_number :: "nat \<Rightarrow> string \<Rightarrow> bool \<times> nat \<times> string" where
  "scan_number base text =
     (case split_sign (dropWhile is_space text) of
        (negative, body) \<Rightarrow>
          (case detect_base base body of
             (b, ds) \<Rightarrow>
               if ds = [] \<or> digit_in b (hd ds) = None then (False, 0, text)
               else case scan_digits b 0 ds of (magnitude, rest) \<Rightarrow> (negative, magnitude, rest)))"

text \<open>Values out of range saturate; a negative unsigned number wraps around.\<close>

definition strtoull :: "nat \<Rightarrow> string \<Rightarrow> u64 \<times> string" where
  "strtoull base text =
     (case scan_number base text of
        (negative, magnitude, rest) \<Rightarrow>
          (if magnitude \<ge> 2 ^ 64 then kMaxU64 else if negative then - of_nat magnitude else of_nat magnitude, rest))"

definition strtoll :: "nat \<Rightarrow> string \<Rightarrow> u64 \<times> string" where
  "strtoll base text =
     (case scan_number base text of
        (negative, magnitude, rest) \<Rightarrow>
          (if negative then - of_nat (min magnitude (2 ^ 63)) else of_nat (min magnitude (2 ^ 63 - 1)), rest))"

section \<open>Arguments\<close>

record Args =
  ar_role :: string
  ar_positionals :: "string list"
  ar_options :: "(string \<times> string) list"

definition add_option :: "string \<Rightarrow> string \<Rightarrow> Args \<Rightarrow> Args" where
  "add_option name v a = a\<lparr>ar_options := ar_options a @ [(name, v)]\<rparr>"

definition is_option :: "string \<Rightarrow> bool" where
  "is_option token \<longleftrightarrow> length token > 2 \<and> token ! 0 = CHR ''-'' \<and> token ! 1 = CHR ''-''"

text \<open>What may follow an option as its value: anything but a dash that is not the sign of a number.\<close>

definition is_value :: "string \<Rightarrow> bool" where
  "is_value token \<longleftrightarrow>
     length token < 2 \<or> token ! 0 \<noteq> CHR ''-'' \<or> (let n = of_char (token ! 1) :: nat in 48 \<le> n \<and> n \<le> 57)"

definition split_equals :: "string \<Rightarrow> (string \<times> string) option" where
  "split_equals name =
     (let n = length (takeWhile (\<lambda>c. c \<noteq> CHR ''='') name) in
      if n < length name then Some (take n name, drop (n + 1) name) else None)"

fun parse_tokens :: "string list \<Rightarrow> Args \<Rightarrow> Args" where
  "parse_tokens [] a = a"
| "parse_tokens (token # rest) a =
     (if is_option token then
        (case split_equals (drop 2 token) of
           Some (name, v) \<Rightarrow> parse_tokens rest (add_option name v a)
         | None \<Rightarrow>
             if rest \<noteq> [] \<and> is_value (hd rest) then parse_tokens (tl rest) (add_option (drop 2 token) (hd rest) a)
             else parse_tokens rest (add_option (drop 2 token) [] a))
      else if ar_role a = [] then parse_tokens rest (a\<lparr>ar_role := token\<rparr>)
      else parse_tokens rest (a\<lparr>ar_positionals := ar_positionals a @ [token]\<rparr>))"

definition parse_args :: "string list \<Rightarrow> Args" where
  "parse_args argv = parse_tokens (drop 1 argv) \<lparr>ar_role = [], ar_positionals = [], ar_options = []\<rparr>"

definition args_has :: "Args \<Rightarrow> string \<Rightarrow> bool" where
  "args_has a name \<longleftrightarrow> (\<exists>e \<in> set (ar_options a). fst e = name)"

definition args_value :: "Args \<Rightarrow> string \<Rightarrow> string option" where
  "args_value a name = map_of (ar_options a) name"

definition value_or :: "Args \<Rightarrow> string \<Rightarrow> string \<Rightarrow> string" where
  "value_or a name fallback = (case args_value a name of Some v \<Rightarrow> v | None \<Rightarrow> fallback)"

text \<open>The last argument and the second component of the result are the flag \<^verbatim>\<open>ok\<close>.\<close>

definition u64_or :: "Args \<Rightarrow> string \<Rightarrow> u64 \<Rightarrow> bool \<Rightarrow> u64 \<times> bool" where
  "u64_or a name fallback ok =
     (case args_value a name of
        None \<Rightarrow> (fallback, ok)
      | Some text \<Rightarrow>
          if text = [] then (fallback, ok)
          else case strtoull 10 text of (parsed, rest) \<Rightarrow> if rest \<noteq> [] then (fallback, False) else (parsed, ok))"

definition i64_or :: "Args \<Rightarrow> string \<Rightarrow> u64 \<Rightarrow> bool \<Rightarrow> u64 \<times> bool" where
  "i64_or a name fallback ok =
     (case args_value a name of
        None \<Rightarrow> (fallback, ok)
      | Some text \<Rightarrow>
          if text = [] then (fallback, ok)
          else case strtoll 10 text of (parsed, rest) \<Rightarrow> if rest \<noteq> [] then (fallback, False) else (parsed, ok))"

text \<open>The characters of the list, closed by a comma as the loop's last turn supplies one.\<close>

fun id_list_loop :: "string \<Rightarrow> string \<Rightarrow> u64 list \<Rightarrow> u64 list option" where
  "id_list_loop [] current out = Some out"
| "id_list_loop (c # cs) current out =
     (if c = CHR '','' then
        (if current = [] then id_list_loop cs [] out
         else case strtoull 0 current of
             (parsed, rest) \<Rightarrow> if rest \<noteq> [] then None else id_list_loop cs [] (out @ [parsed]))
      else id_list_loop cs (current @ [c]) out)"

definition id_list :: "Args \<Rightarrow> string \<Rightarrow> bool \<Rightarrow> u64 list \<times> bool" where
  "id_list a name ok =
     (case args_value a name of
        None \<Rightarrow> ([], ok)
      | Some text \<Rightarrow>
          if text = [] then ([], ok)
          else case id_list_loop (text @ [CHR '','']) [] [] of None \<Rightarrow> ([], False) | Some out \<Rightarrow> (out, ok))"

section \<open>What a number written in decimal reads as\<close>

lemma digit_in_ten: "d < 10 \<Longrightarrow> digit_in 10 (char_of (48 + d)) = Some d"
  by (simp add: digit_in_def hex_digit_value_def Let_def unat_of_nat)

lemma scan_digits_append:
  "\<forall>c \<in> set xs. digit_in base c \<noteq> None \<Longrightarrow>
     scan_digits base acc (xs @ ys) = scan_digits base (fst (scan_digits base acc xs)) ys"
  by (induction xs arbitrary: acc) (auto split: option.splits)

lemma decimal_chars: "c \<in> set (decimal n) \<Longrightarrow> \<exists>d < 10. c = char_of (48 + d :: nat)"
proof (induction n rule: decimal.induct)
  case (1 n)
  then show ?case
    by (subst (asm) (2) decimal.simps) (auto split: if_splits intro: exI [of _ n] exI [of _ "n mod 10"])
qed

lemma decimal_digits: "c \<in> set (decimal n) \<Longrightarrow> digit_in 10 c \<noteq> None"
  using decimal_chars [of c n] digit_in_ten by auto

lemma scan_decimal: "scan_digits 10 0 (decimal n) = (n, [])"
proof (induction n rule: decimal.induct)
  case (1 n)
  show ?case
  proof (cases "n < 10")
    case True
    then show ?thesis by (subst decimal.simps) (simp add: digit_in_ten)
  next
    case False
    with 1 have "scan_digits 10 0 (decimal (n div 10)) = (n div 10, [])" by simp
    then show ?thesis using False
      by (subst decimal.simps) (simp add: scan_digits_append decimal_digits digit_in_ten)
  qed
qed

lemma decimal_nonempty: "decimal n \<noteq> []"
  by (subst decimal.simps) simp

lemma decimal_zero_head: "hd (decimal n) = CHR ''0'' \<Longrightarrow> n = 0"
proof (induction n rule: decimal.induct)
  case (1 n)
  show ?case
  proof (cases "n < 10")
    case True
    with 1 have "char_of (48 + n) = CHR ''0''" by (subst (asm) (2) decimal.simps) simp
    then have "(of_char (char_of (48 + n) :: char) :: nat) = of_char (CHR ''0'')" by simp
    with True show ?thesis by simp
  next
    case False
    have "decimal n = decimal (n div 10) @ [char_of (48 + n mod 10)]" using False by (subst decimal.simps) simp
    with 1 False decimal_nonempty [of "n div 10"] have "n div 10 = 0" by simp
    with False show ?thesis by simp
  qed
qed

text \<open>The head of a decimal number is neither space nor sign, so both bases read the number.\<close>

lemma decimal_head:
  obtains d where "d < 10" and "hd (decimal n) = char_of (48 + d :: nat)"
  using decimal_chars [of "hd (decimal n)" n] decimal_nonempty [of n] by auto

lemma decimal_digit_char:
  assumes "d < 10"
  shows "\<not> is_space (char_of (48 + d :: nat))" and "char_of (48 + d :: nat) \<noteq> CHR ''-''"
    and "char_of (48 + d :: nat) \<noteq> CHR ''+''" and "char_of (48 + d :: nat) \<noteq> CHR '',''"
proof -
  have c: "(of_char (char_of (48 + d :: nat) :: char) :: nat) = 48 + d" using assms by simp
  show "\<not> is_space (char_of (48 + d :: nat))" using c by (simp add: is_space_def)
  show "char_of (48 + d :: nat) \<noteq> CHR ''-''" "char_of (48 + d :: nat) \<noteq> CHR ''+''" "char_of (48 + d :: nat) \<noteq> CHR '',''"
    using c by (auto dest: arg_cong [where f = "of_char :: char \<Rightarrow> nat"])
qed

lemma scan_number_decimal:
  assumes "base = 0 \<or> base = 10"
  shows "scan_number base (decimal n) = (False, n, [])"
proof -
  from decimal_head [of n] obtain d where d: "d < 10" "hd (decimal n) = char_of (48 + d :: nat)" by blast
  then obtain c cs where dec: "decimal n = c # cs" "c = char_of (48 + d :: nat)"
    using decimal_nonempty [of n] by (cases "decimal n") auto
  have sign: "split_sign (dropWhile is_space (decimal n)) = (False, decimal n)"
    using dec decimal_digit_char [OF d(1)] by (simp add: split_sign_def)
  show ?thesis
  proof (cases "base = 10 \<or> n \<noteq> 0")
    case True
    then have "detect_base base (decimal n) = (10, decimal n)"
      using assms dec decimal_zero_head [of n] by (auto simp: detect_base_def)
    then show ?thesis
      using sign dec d digit_in_ten scan_decimal [of n] by (simp add: scan_number_def)
  next
    case False
    have "decimal 0 = ''0''" by (subst decimal.simps) (simp add: char_of_eq_iff)
    with False assms show ?thesis
      by (simp add: scan_number_def is_space_def split_sign_def detect_base_def digit_in_def hex_digit_value_def)
  qed
qed

lemma strtoull_number:
  "base = 0 \<or> base = 10 \<Longrightarrow> strtoull base (number v) = (v, [])"
  using unat_64_less [of v] by (simp add: strtoull_def number_def scan_number_decimal)

lemma number_chars: "c \<in> set (number v) \<Longrightarrow> c \<noteq> CHR '',''"
  using decimal_chars [of c "unat v"] decimal_digit_char by (auto simp: number_def)

lemma number_nonempty: "number v \<noteq> []"
  by (simp add: number_def decimal_nonempty)

lemma number_is_value: "is_value (number v @ rest)"
proof -
  from decimal_head [of "unat v"] obtain d where "d < 10" "hd (decimal (unat v)) = char_of (48 + d :: nat)" by blast
  then have "(number v @ rest) ! 0 \<noteq> CHR ''-''"
    using decimal_digit_char decimal_nonempty [of "unat v"] by (simp add: number_def nth_append hd_conv_nth)
  then show ?thesis by (simp add: is_value_def)
qed

fun comma_list :: "u64 list \<Rightarrow> string" where
  "comma_list [] = []"
| "comma_list (v # vs) = number v @ concat (map (\<lambda>w. CHR '','' # number w) vs)"

lemma comma_list_value: "is_value (comma_list vs)"
  by (cases vs) (simp_all add: number_is_value, simp add: is_value_def)

lemma comma_list_closed: "vs \<noteq> [] \<Longrightarrow> comma_list vs @ [CHR '',''] = concat (map (\<lambda>v. number v @ [CHR '','']) vs)"
proof (induction vs)
  case (Cons v vs)
  have "concat (map (\<lambda>w. CHR '','' # number w) ws) @ [CHR '',''] = CHR '','' # concat (map (\<lambda>v. number v @ [CHR '','']) ws)" for ws
    by (induction ws) auto
  then show ?case by simp
qed simp

lemma id_list_loop_skip:
  "\<forall>c \<in> set ds. c \<noteq> CHR '','' \<Longrightarrow> id_list_loop (ds @ rest) current out = id_list_loop rest (current @ ds) out"
  by (induction ds arbitrary: current) auto

lemma id_list_loop_numbers: "id_list_loop (concat (map (\<lambda>v. number v @ [CHR '','']) vs)) [] out = Some (out @ vs)"
proof (induction vs arbitrary: out)
  case (Cons v vs)
  then show ?case
    using number_chars [of _ v] number_nonempty [of v]
    by (simp add: id_list_loop_skip strtoull_number)
qed simp

lemma id_list_comma_list: "args_value a name = Some (comma_list vs) \<Longrightarrow> id_list a name ok = (vs, ok)"
  using id_list_loop_numbers [of vs "[]"] comma_list_closed [of vs]
  by (cases vs) (auto simp: id_list_def number_nonempty)

lemma u64_or_number: "args_value a name = Some (number v) \<Longrightarrow> u64_or a name fallback ok = (v, ok)"
  by (simp add: u64_or_def number_nonempty strtoull_number)

section \<open>What a caller writes\<close>

text \<open>
  The items of a command line: an option with its value in the next argument or behind an equals sign, a flag, and a word, which is the
  role or a positional argument. A value must not look like an option; what follows a flag must.
\<close>

datatype Item = Valued string string | Joined string string | Flag string | Word string

fun argv_of :: "Item list \<Rightarrow> string list" where
  "argv_of [] = []"
| "argv_of (Valued name v # items) = (''--'' @ name) # v # argv_of items"
| "argv_of (Joined name v # items) = (''--'' @ name @ CHR ''='' # v) # argv_of items"
| "argv_of (Flag name # items) = (''--'' @ name) # argv_of items"
| "argv_of (Word w # items) = w # argv_of items"

fun words_of :: "Item list \<Rightarrow> string list" where
  "words_of [] = []"
| "words_of (Word w # items) = w # words_of items"
| "words_of (item # items) = words_of items"

fun options_of :: "Item list \<Rightarrow> (string \<times> string) list" where
  "options_of [] = []"
| "options_of (Valued name v # items) = (name, v) # options_of items"
| "options_of (Joined name v # items) = (name, v) # options_of items"
| "options_of (Flag name # items) = (name, []) # options_of items"
| "options_of (Word w # items) = options_of items"

fun well_written :: "Item list \<Rightarrow> bool" where
  "well_written [] \<longleftrightarrow> True"
| "well_written (Valued name v # items) \<longleftrightarrow> name \<noteq> [] \<and> CHR ''='' \<notin> set name \<and> is_value v \<and> well_written items"
| "well_written (Joined name v # items) \<longleftrightarrow> CHR ''='' \<notin> set name \<and> well_written items"
| "well_written (Flag name # items) \<longleftrightarrow> name \<noteq> [] \<and> CHR ''='' \<notin> set name \<and>
     (argv_of items \<noteq> [] \<longrightarrow> \<not> is_value (hd (argv_of items))) \<and> well_written items"
| "well_written (Word w # items) \<longleftrightarrow> w \<noteq> [] \<and> \<not> is_option w \<and> well_written items"

lemma split_equals_none: "CHR ''='' \<notin> set name \<Longrightarrow> split_equals name = None"
proof -
  assume "CHR ''='' \<notin> set name"
  then have "takeWhile (\<lambda>c. c \<noteq> CHR ''='') name = name" by (auto simp: takeWhile_eq_all_conv)
  then show ?thesis by (simp only: split_equals_def Let_def if_not_P less_irrefl not_False_eq_True)
qed

lemma split_equals_some: "CHR ''='' \<notin> set name \<Longrightarrow> split_equals (name @ CHR ''='' # v) = Some (name, v)"
proof -
  assume "CHR ''='' \<notin> set name"
  then have "takeWhile (\<lambda>c. c \<noteq> CHR ''='') (name @ CHR ''='' # v) = name" by (subst takeWhile_append2) auto
  then show ?thesis by (simp add: split_equals_def)
qed

lemma parse_written:
  "well_written items \<Longrightarrow> parse_tokens (argv_of items) a =
     \<lparr>ar_role = (if ar_role a \<noteq> [] then ar_role a else case words_of items of [] \<Rightarrow> [] | w # _ \<Rightarrow> w),
      ar_positionals = ar_positionals a @ drop (if ar_role a \<noteq> [] then 0 else 1) (words_of items),
      ar_options = ar_options a @ options_of items\<rparr>"
proof (induction items arbitrary: a rule: argv_of.induct)
  case (2 name v items)
  have "is_option (''--'' @ name)" using "2.prems" by (cases name) (simp_all add: is_option_def)
  with 2 show ?case by (simp add: split_equals_none add_option_def)
next
  case (3 name v items)
  have "is_option (''--'' @ name @ CHR ''='' # v)" by (cases name) (simp_all add: is_option_def)
  with 3 show ?case by (simp add: split_equals_some add_option_def)
next
  case (4 name items)
  have "is_option (''--'' @ name)" using "4.prems" by (cases name) (simp_all add: is_option_def)
  with 4 show ?case by (auto simp: split_equals_none add_option_def)
qed simp_all



text \<open>
  The usage gives the publisher's and the domain's identities in hexadecimal, and \<^verbatim>\<open>u64_or\<close> reads base 10. A number out
  of range saturates and a negative one wraps, both accepted. A flag takes the role that follows it as its value.
\<close>

lemma hexadecimal_identity_refused: "u64_or (parse_args [program, ''publisher'', ''--domain'', ''ff'']) ''domain'' 1 True = (1, False)"
  by (simp add: parse_args_def is_option_def split_equals_def add_option_def is_value_def u64_or_def args_value_def strtoull_def
      scan_number_def is_space_def split_sign_def detect_base_def digit_in_def hex_digit_value_def)

lemma negative_number_accepted: "u64_or (parse_args [program, ''coordinator'', ''--paths'', ''-1'']) ''paths'' 1 True = (kMaxU64, True)"
  by (simp add: parse_args_def is_option_def split_equals_def add_option_def is_value_def u64_or_def args_value_def strtoull_def
      scan_number_def is_space_def split_sign_def detect_base_def digit_in_def hex_digit_value_def kMaxU64_def)

lemma flag_swallows_role: "ar_role (parse_args [program, ''--no-durability'', ''coordinator'']) = []"
  by (simp add: parse_args_def is_option_def split_equals_def add_option_def is_value_def)

end
