(* ===== verification/NCF_Cli.thy ===== *)
theory NCF_Cli
  imports NCF_Args NCF_Channel
begin

text \<open>
  The command-line programs, \<^verbatim>\<open>src/cli/ncf_node_main.cpp\<close> and \<^verbatim>\<open>src/cli/ncf_ctl_main.cpp\<close>: the synthetic topology, the policy and
  the denials a coordinator is started with, its start, the publisher's script, and the read-only inspection of a
  state directory. What is printed, the watcher thread and the watched stop file are not modelled.
\<close>

section \<open>The synthetic topology\<close>

definition kSyntheticCapacity :: u64 where "kSyntheticCapacity = 100000000000"

text \<open>\<^verbatim>\<open>PathFlags::Alternate\<close>.\<close>

definition kPathAlternate :: u32 where "kPathAlternate = 2"

definition synthetic_resource :: "DomainId \<Rightarrow> u64 \<Rightarrow> ResourceRecord" where
  "synthetic_resource domain index =
     \<lparr>rr_id = index, rr_domain = domain, rr_parent = 0, rr_serving_class = 0, rr_kind = RK_Port, rr_depth = 0,
      rr_nominal_capacity_bps = kSyntheticCapacity, rr_flags = 0\<rparr>"

definition synthetic_link :: "u64 \<Rightarrow> LinkRecord" where
  "synthetic_link index =
     \<lparr>lk_id = index, lk_from = index, lk_to = index + 1, lk_capacity_bps = kSyntheticCapacity, lk_latency_micros = 10, lk_weight = 1\<rparr>"

definition synthetic_path :: "u64 \<Rightarrow> u64 \<Rightarrow> PathRecord" where
  "synthetic_path resources index =
     (let first = (index - 1) mod resources + 1; second = index mod resources + 1 in
      \<lparr>pa_id = index, pa_hops = first # (if second \<noteq> first then [second] else []), pa_capacity_bps = kSyntheticCapacity,
       pa_flags = kPathAlternate\<rparr>)"

text \<open>The loops count from 1 up to their bound, included for the resources and the paths.\<close>

definition build_topology :: "u64 \<Rightarrow> u64 \<Rightarrow> DomainId \<Rightarrow> TopologySnapshot result" where
  "build_topology resources paths domain =
     (if resources = 0 then Inl Err_InvalidArgument
      else if unat resources > kMaxResourcesPerDomain then Inl Err_LimitExceeded
      else
        let t = \<lparr>ts_id = 1, ts_generation = 1, ts_epoch = 1, ts_observed_tick = kNoTick,
              ts_resources = map (\<lambda>i. synthetic_resource domain (of_nat i)) [1..<unat resources + 1],
              ts_links = map (\<lambda>i. synthetic_link (of_nat i)) [1..<unat resources],
              ts_paths = map (\<lambda>i. synthetic_path resources (of_nat i)) [1..<unat paths + 1], ts_fingerprint = 0\<rparr>
        in Inr (t\<lparr>ts_fingerprint := fingerprint_topology t\<rparr>))"

section \<open>Policy and denials\<close>

definition contradiction_mode :: "string \<Rightarrow> ContradictionMode option" where
  "contradiction_mode mode =
     (if mode = ''reject'' then Some CM_Reject
      else if mode = ''newest'' then Some CM_PreferNewest
      else if mode = ''priority'' then Some CM_PreferHighestPriority
      else None)"

text \<open>Numbers are cut to 32 bits where the field has them; an invalid option leaves the flag down.\<close>

definition policy_hysteresis :: "Args \<Rightarrow> HysteresisPolicy \<Rightarrow> bool \<Rightarrow> HysteresisPolicy \<times> bool" where
  "policy_hysteresis args h ok0 =
     (let (escalate, ok1) = u64_or args ''escalate-samples'' (ucast (hp_escalate_samples h)) ok0;
          (deescalate, ok2) = u64_or args ''deescalate-samples'' (ucast (hp_deescalate_samples h)) ok1;
          (margin, ok3) = u64_or args ''downgrade-margin-ppm'' (ucast (hp_downgrade_margin_ppm h)) ok2
      in (h\<lparr>hp_escalate_samples := ucast escalate, hp_deescalate_samples := ucast deescalate,
            hp_downgrade_margin_ppm := ucast margin\<rparr>, ok3))"

definition policy_freshness :: "Args \<Rightarrow> FreshnessPolicy \<Rightarrow> bool \<Rightarrow> FreshnessPolicy \<times> bool" where
  "policy_freshness args fp ok0 =
     (let (age, ok1) = u64_or args ''freshness-us'' (fp_default_max_age_ticks fp) ok0
      in (fp\<lparr>fp_default_max_age_ticks := age,
             fp_max_future_skew_ticks := (if fp_max_future_skew_ticks fp > age then age else fp_max_future_skew_ticks fp)\<rparr>, ok1))"

definition build_policy :: "Args \<Rightarrow> bool \<Rightarrow> CongestionPolicy \<times> bool" where
  "build_policy args ok0 =
     (let p0 = make_default_policy;
          p1 = (if args_has args ''no-propagation'' then p0\<lparr>po_propagation := (po_propagation p0)\<lparr>pp_enabled := False\<rparr>\<rparr> else p0);
          (gate, ok1) = u64_or args ''severity-gate-congested'' (ucast (po_min_agreeing_rules_for_congested p1)) ok0;
          p2 = p1\<lparr>po_min_agreeing_rules_for_congested := ucast gate, po_min_agreeing_rules_for_severe := ucast gate\<rparr>;
          (h, ok2) = policy_hysteresis args (po_hysteresis p2) ok1;
          (improved, ok3) = u64_or args ''recovery-samples'' (ucast (rp_min_improved_samples (po_recovery p2))) ok2;
          p3 = p2\<lparr>po_hysteresis := h,
                po_recovery := (po_recovery p2)\<lparr>rp_min_improved_samples := ucast improved,
                  rp_allow_single_sample := args_has args ''allow-single-sample-recovery''\<rparr>\<rparr>;
          (fp, ok4) = policy_freshness args (po_freshness p3) ok3;
          p4 = p3\<lparr>po_freshness := fp\<rparr>;
          (p5, ok5) = (if args_has args ''min-dwell-ms''
                       then (case u64_or args ''min-dwell-ms'' 0 ok4 of
                               (dwell, ok) \<Rightarrow> (p4\<lparr>po_hysteresis := (po_hysteresis p4)\<lparr>hp_min_dwell_ticks := dwell * 1000\<rparr>\<rparr>, ok))
                       else (p4, ok4));
          (p6, ok6) = (case contradiction_mode (value_or args ''contradiction-mode'' ''reject'') of
                         Some mode \<Rightarrow> (p5\<lparr>po_contradiction := (po_contradiction p5)\<lparr>cp_mode := mode\<rparr>\<rparr>, ok5)
                       | None \<Rightarrow> (p5, False));
          (p7, ok7) = (if args_has args ''tolerance-ppm''
                       then (case u64_or args ''tolerance-ppm'' 0 ok6 of
                               (tolerance, ok) \<Rightarrow>
                                 (p6\<lparr>po_contradiction := (po_contradiction p6)\<lparr>cp_relative_tolerance_ppm := ucast tolerance\<rparr>\<rparr>, ok))
                       else (p6, ok6));
          (p8, ok8) = (if args_has args ''policy-version''
                       then (case u64_or args ''policy-version'' (ucast (po_version p7)) ok7 of
                               (version, ok) \<Rightarrow> (p7\<lparr>po_version := ucast version\<rparr>, ok))
                       else (p7, ok7));
          p9 = p8\<lparr>po_id := fingerprint_policy p8\<rparr>
      in case validate_policy p9 of Inl _ \<Rightarrow> (p9, False) | Inr p \<Rightarrow> (p, ok8))"

definition kDenialNames :: "(string \<times> Authority) list" where
  "kDenialNames =
     [(''reduce-admissible-budget'', Auth_ReduceAdmissibleBudget), (''request-reroute'', Auth_RequestReroute),
      (''request-pacing'', Auth_RequestPacing), (''request-backpressure'', Auth_RequestBackpressure),
      (''enter-degraded-mode'', Auth_EnterDegradedMode), (''protect-critical-classes'', Auth_ProtectCriticalClasses),
      (''make-recovery-plan-eligible'', Auth_MakeRecoveryPlanEligible), (''evaluate'', Auth_Evaluate)]"

fun denial_loop :: "string \<Rightarrow> string \<Rightarrow> AuthoritySet \<Rightarrow> bool \<Rightarrow> AuthoritySet \<times> bool" where
  "denial_loop [] current denied ok = (denied, ok)"
| "denial_loop (c # cs) current denied ok =
     (if c \<noteq> CHR '','' then denial_loop cs (current @ [c]) denied ok
      else case map_of kDenialNames current of
          Some a \<Rightarrow> denial_loop cs [] (aset_grant a denied) ok
        | None \<Rightarrow> denial_loop cs [] denied False)"

definition parse_denials :: "Args \<Rightarrow> bool \<Rightarrow> AuthoritySet \<times> bool" where
  "parse_denials args ok =
     (case args_value args ''deny'' of
        None \<Rightarrow> (aset_none, ok)
      | Some text \<Rightarrow> if text = [] then (aset_none, ok) else denial_loop (text @ [CHR '','']) [] aset_none ok)"

section \<open>Starting a coordinator\<close>

text \<open>
  \<^verbatim>\<open>CoordinatorNode::start\<close>: the listener, the fabric, the report file. The fresh name is \<^verbatim>\<open>make_endpoint_name\<close>'s, and the last
  flag tells whether the report file can be opened.
\<close>

definition coordinator_start ::
  "CoordinatorOptions \<Rightarrow> FabricOptions \<Rightarrow> string \<Rightarrow> string \<Rightarrow> string \<Rightarrow> bool \<Rightarrow> Sockets \<Rightarrow> Env \<Rightarrow> Node result \<times> Sockets \<times> Env" where
  "coordinator_start options fo endpoint fresh report opens w e =
     (case listener_create (if endpoint = [] then fresh else endpoint) w of
        (Inl er, w1) \<Rightarrow> (Inl er, w1, e)
      | (Inr _, w1) \<Rightarrow>
          (case fabric_open fo e of
             (Inl er, e1) \<Rightarrow> (Inl er, w1, e1)
           | (Inr f, e1) \<Rightarrow>
               if report = [] then (Inr (started_node options False f e1), w1, e1)
               else if \<not> opens then (Inl Err_IoError, w1, e1)
               else (Inr (started_node options True f e1), w1, e1)))"

definition coordinator_fabric_options :: "Args \<Rightarrow> AuthoritySet \<Rightarrow> FabricOptions" where
  "coordinator_fabric_options args denied =
     (let dir = value_or args ''state-dir'' [] in
      default_fabric_options\<lparr>fo_persist := \<not> args_has args ''no-durability'' \<and> dir \<noteq> [], fo_state_directory := dir,
        fo_local_denied := denied\<rparr>)"

text \<open>
  \<^verbatim>\<open>run_coordinator\<close> up to the call of \<^verbatim>\<open>run\<close>: the exit code of a refusal, or the node that goes on to serve.
\<close>

definition install_policy :: "Args \<Rightarrow> Fabric \<Rightarrow> Env \<Rightarrow> (nat + Fabric) \<times> Env" where
  "install_policy args f e =
     (if \<not> args_has args ''policy'' then (Inr f, e)
      else case build_policy args True of
          (policy, False) \<Rightarrow> (Inl 2, e)
        | (policy, True) \<Rightarrow>
            (case fabric_set_policy policy f e of (Inl _, _, e1) \<Rightarrow> (Inl 1, e1) | (Inr _, f1, e1) \<Rightarrow> (Inr f1, e1)))"

definition run_coordinator :: "Args \<Rightarrow> string \<Rightarrow> bool \<Rightarrow> Sockets \<Rightarrow> Env \<Rightarrow> (nat + Node) \<times> Sockets \<times> Env" where
  "run_coordinator args fresh opens w e =
     (let (domain, ok1) = u64_or args ''domain'' 1 True;
          (resources, ok2) = u64_or args ''resources'' 4 ok1;
          (paths, ok3) = u64_or args ''paths'' 1 ok2;
          (run_ms, ok4) = u64_or args ''run-ms'' 0 ok3;
          (period, ok5) = u64_or args ''eval-interval-ms'' 25 ok4
      in if \<not> ok5 then (Inl 2, w, e)
         else case parse_denials args ok5 of
             (denied, False) \<Rightarrow> (Inl 2, w, e)
           | (denied, True) \<Rightarrow>
               (case coordinator_start default_coordinator_options (coordinator_fabric_options args denied)
                       (value_or args ''endpoint'' []) fresh (value_or args ''report'' []) opens w e of
                  (Inl _, w1, e1) \<Rightarrow> (Inl 1, w1, e1)
                | (Inr n, w1, e1) \<Rightarrow>
                    (case build_topology resources paths domain of
                       Inl _ \<Rightarrow> (Inl 1, w1, e1)
                     | Inr t \<Rightarrow>
                         (case fabric_set_topology t (nd_fabric n) e1 of
                            (Inl _, _, e2) \<Rightarrow> (Inl 1, w1, e2)
                          | (Inr _, f2, e2) \<Rightarrow>
                              (case install_policy args f2 e2 of
                                 (Inl code, e3) \<Rightarrow> (Inl code, w1, e3)
                               | (Inr f3, e3) \<Rightarrow> (Inr (n\<lparr>nd_fabric := f3, nd_env := e3\<rparr>), w1, e3))))))"

section \<open>Starting a publisher\<close>

definition publisher_script :: "Args \<Rightarrow> PublisherOptions \<times> PublisherScript \<times> bool" where
  "publisher_script args =
     (let (publisher, k1) = u64_or args ''publisher'' 1 True;
          (boot, k2) = u64_or args ''boot'' 1 k1;
          (timeout, k3) = u64_or args ''connect-timeout-us'' 5000000 k2;
          (domain, k4) = u64_or args ''domain'' 1 k3;
          (resources, k5) = id_list args ''resources'' k4;
          (samples, k6) = u64_or args ''samples'' 1 k5;
          (repeats, k7) = u64_or args ''repeats'' 1 k6;
          (interval, k8) = u64_or args ''interval-ms'' 0 k7;
          (utilization, k9) = u64_or args ''utilization-ppm'' 0 k8;
          (queue, k10) = u64_or args ''queue-ppm'' 0 k9;
          (buffer, k11) = u64_or args ''buffer-ppm'' 0 k10;
          (loss, k12) = u64_or args ''loss-ppm'' 0 k11;
          (latency, k13) = u64_or args ''latency-us'' 0 k12;
          (jitter, k14) = u64_or args ''jitter-us'' 0 k13;
          (residual, k15) = u64_or args ''residual-bps'' 0 k14;
          (egress, k16) = u64_or args ''egress-bps'' 0 k15;
          (util_step, k17) = i64_or args ''util-step-ppm'' 0 k16;
          (loss_step, k18) = i64_or args ''loss-step-ppm'' 0 k17;
          (queue_step, k19) = i64_or args ''queue-step-ppm'' 0 k18;
          (generation, k20) = u64_or args ''generation'' 1 k19
      in (\<lparr>pu_endpoint = value_or args ''endpoint'' [], pu_publisher = publisher, pu_boot = boot, pu_agent = ''ncf-publisher''\<rparr>,
          \<lparr>sc_domain = domain, sc_resources = resources, sc_samples = samples, sc_utilization_ppm = utilization,
           sc_queue_ppm = queue, sc_buffer_ppm = buffer, sc_loss_ppm = loss, sc_latency_micros = latency,
           sc_jitter_micros = jitter, sc_residual_bps = residual, sc_egress_bps = egress,
           sc_utilization_step_ppm = util_step, sc_loss_step_ppm = loss_step, sc_queue_step_ppm = queue_step,
           sc_generation_start = generation, sc_send_hello = True, sc_send_goodbye = \<not> args_has args ''no-goodbye'',
           sc_request_full_authority = True, sc_repeats = repeats, sc_skip_handshake = args_has args ''skip-handshake''\<rparr>, k20))"

text \<open>The exit code of the publisher role, given the link that connecting yields.\<close>

definition publisher_main :: "Args \<Rightarrow> Link \<Rightarrow> nat \<times> Link" where
  "publisher_main args link =
     (case publisher_script args of
        (options, script, ok) \<Rightarrow>
          if \<not> ok then (2, link)
          else if pu_endpoint options = [] \<or> sc_resources script = [] then (2, link)
          else case NCF_Publisher.run_publisher options script link of
              (Inl _, link') \<Rightarrow> (1, link')
            | (Inr report, link') \<Rightarrow> (if rp_errors report = 0 then 0 else 3, link'))"

definition run_selfcheck :: nat where
  "run_selfcheck = (case validate_policy make_default_policy of Inl _ \<Rightarrow> 1 | Inr _ \<Rightarrow> 0)"

section \<open>Inspection\<close>

definition read_only_options :: StoreOptions where
  "read_only_options = default_store_options\<lparr>sp_read_only := True, sp_tolerate_corrupt_snapshot := True\<rparr>"

definition open_read_only :: "string \<Rightarrow> World \<Rightarrow> Store result \<times> World" where
  "open_read_only directory w = store_open directory read_only_options w"

definition run_inspect :: "string \<Rightarrow> World \<Rightarrow> nat \<times> World" where
  "run_inspect directory w = (case open_read_only directory w of (Inl _, w') \<Rightarrow> (1, w') | (Inr _, w') \<Rightarrow> (0, w'))"

definition run_verify :: "string \<Rightarrow> World \<Rightarrow> nat \<times> World" where
  "run_verify directory w =
     (case open_read_only directory w of
        (Inl _, w') \<Rightarrow> (1, w')
      | (Inr st, w') \<Rightarrow>
          (if \<not> sr_integrity_failure (st_report st) \<and> \<not> sr_snapshot_corrupt (st_report st) then 0 else 1, w'))"

definition ctl_main :: "string list \<Rightarrow> World \<Rightarrow> nat \<times> World" where
  "ctl_main argv w =
     (let args = parse_args argv; role = ar_role args; directory = value_or args ''state-dir'' [] in
      if role = ''version'' \<or> role = [] then (if role = [] then 2 else 0, w)
      else if directory = [] \<and> (role = ''inspect'' \<or> role = ''verify'') then (2, w)
      else if role = ''inspect'' then run_inspect directory w
      else if role = ''verify'' then run_verify directory w
      else (2, w))"

section \<open>What the programs start from is accepted\<close>

lemma small_of_nat: "i < 2 ^ 64 \<Longrightarrow> unat (of_nat i :: u64) = i"
  by (simp add: unat_of_nat take_bit_nat_eq_self)

lemma of_nat_upto:
  assumes "n < 2 ^ 64"
  shows "x \<in> of_nat ` {1..n} \<longleftrightarrow> x \<noteq> (0::u64) \<and> unat x \<le> n"
proof
  assume "x \<in> of_nat ` {1..n}"
  then show "x \<noteq> 0 \<and> unat x \<le> n" using assms by (auto simp: small_of_nat unat_eq_0 [symmetric])
next
  assume "x \<noteq> 0 \<and> unat x \<le> n"
  then have "unat x \<in> {1..n}" by (simp add: unat_gt_0 Suc_le_eq)
  moreover have "x = of_nat (unat x)" by simp
  ultimately show "x \<in> of_nat ` {1..n}" by (metis imageI)
qed

lemma synthetic_capacity_plausible:
  "kSyntheticCapacity \<le> metric_plausible_max MK_LinkCapacityBps" "kSyntheticCapacity \<le> metric_plausible_max MK_PathCapacityBps"
  "(10::u64) \<le> metric_plausible_max MK_LatencyMicros"
  by (simp_all add: kSyntheticCapacity_def metric_plausible_max_def metric_descriptor_def kMetricTable_def metric_row_def kMaxRateBps_def kMaxLatencyMicros_def)

lemma synthetic_resources_accepted:
  assumes "id_valid domain" and "\<forall>i \<in> set is. 0 < i \<and> i < 2 ^ 64" and "distinct is" and "of_nat ` set is \<inter> set seen = {}"
  shows "\<exists>ids. validate_resources seen (map (\<lambda>i. synthetic_resource domain (of_nat i)) is) = Inr ids \<and> set ids = of_nat ` set is \<union> set seen"
  using assms
proof (induction "is" arbitrary: seen)
  case (Cons i "is")
  have "(of_nat i :: u64) \<noteq> of_nat k" if "k \<in> set is" for k
    using Cons.prems(2,3) that by (metis distinct.simps(2) list.set_intros small_of_nat)
  then have "of_nat ` set is \<inter> set (of_nat i # seen) = {}" using Cons.prems(4) by auto
  with Cons.IH [of "of_nat i # seen"] Cons.prems
  obtain ids where "validate_resources (of_nat i # seen) (map (\<lambda>i. synthetic_resource domain (of_nat i)) is) = Inr ids"
      "set ids = of_nat ` set is \<union> set (of_nat i # seen)"
    by auto
  moreover have "id_valid (of_nat i)" using Cons.prems(2) small_of_nat [of i] by (auto simp: id_valid_def)
  moreover have "of_nat i \<notin> set seen" using Cons.prems(4) by auto
  ultimately show ?case using Cons.prems(1)
    using synthetic_capacity_plausible(1) by (simp add: synthetic_resource_def not_less)
qed simp

lemma synthetic_containment_accepted:
  "validate_containment by_id (map (\<lambda>i. synthetic_resource domain (of_nat i)) is) = Inr ()"
  by (induction "is") (simp_all add: synthetic_resource_def id_valid_def)

lemma synthetic_links_accepted:
  assumes "\<forall>i \<in> set is. 0 < i \<and> i < 2 ^ 64 \<and> of_nat i \<in> set ids \<and> of_nat (Suc i) \<in> set ids" and "0 \<notin> set ids"
    and "distinct is" and "of_nat ` set is \<inter> set seen = {}"
  shows "validate_links ids seen (map (\<lambda>i. synthetic_link (of_nat i)) is) = Inr ()"
  using assms
proof (induction "is" arbitrary: seen)
  case (Cons i "is")
  have "(of_nat i :: u64) \<noteq> of_nat k" if "k \<in> set is" for k
    using Cons.prems(1,3) that by (metis distinct.simps(2) list.set_intros small_of_nat)
  then have "of_nat ` set is \<inter> set (of_nat i # seen) = {}" using Cons.prems(4) by auto
  with Cons.IH [of "of_nat i # seen"] Cons.prems
  have "validate_links ids (of_nat i # seen) (map (\<lambda>i. synthetic_link (of_nat i)) is) = Inr ()" by auto
  moreover have "id_valid (of_nat i)" "id_valid (of_nat i + 1)" "of_nat i + 1 \<in> set ids" "of_nat i \<in> set ids" "of_nat i \<notin> set seen"
    using Cons.prems(1,2,4) by (auto simp: id_valid_def add.commute)
  ultimately show ?case
    using synthetic_capacity_plausible by (simp add: synthetic_link_def not_less)
qed simp

lemma cycle_in_range:
  assumes "resources \<noteq> (0::u64)"
  shows "i mod resources + 1 \<noteq> 0" and "unat (i mod resources + 1) \<le> unat resources"
proof -
  have lt: "unat (i mod resources) < unat resources"
    using assms by (simp add: unat_mod unat_gt_0)
  then have "unat (i mod resources + 1) = unat (i mod resources) + 1"
    using unat_64_less [of resources] by (simp add: unat_word_ariths)
  with lt show "i mod resources + 1 \<noteq> 0" "unat (i mod resources + 1) \<le> unat resources" by (auto simp: unat_eq_0 [symmetric])
qed

lemma synthetic_paths_accepted:
  assumes "\<forall>i \<in> set is. 0 < i \<and> i < 2 ^ 64" and "distinct is" and "of_nat ` set is \<inter> set seen = {}"
    and "resources \<noteq> 0" and "\<forall>x. x \<noteq> 0 \<and> unat x \<le> unat resources \<longrightarrow> x \<in> set ids"
  shows "validate_paths ids seen (map (\<lambda>i. synthetic_path resources (of_nat i)) is) = Inr ()"
  using assms
proof (induction "is" arbitrary: seen)
  case (Cons i "is")
  have "(of_nat i :: u64) \<noteq> of_nat k" if "k \<in> set is" for k
    using Cons.prems(1,2) that by (metis distinct.simps(2) list.set_intros small_of_nat)
  then have "of_nat ` set is \<inter> set (of_nat i # seen) = {}" using Cons.prems(3) by auto
  with Cons.IH [of "of_nat i # seen"] Cons.prems
  have "validate_paths ids (of_nat i # seen) (map (\<lambda>i. synthetic_path resources (of_nat i)) is) = Inr ()" by auto
  moreover have "id_valid (of_nat i)" "of_nat i \<notin> set seen"
    using Cons.prems(1,3) small_of_nat [of i] by (auto simp: id_valid_def)
  moreover have "j mod resources + 1 \<in> set ids" for j
    using Cons.prems(4,5) cycle_in_range [of resources j] by blast
  ultimately show ?case
    using synthetic_capacity_plausible by (simp add: synthetic_path_def Let_def kMaxResourcesPerPath_def not_less)
qed simp

lemma synthetic_topology_accepted:
  assumes "build_topology resources paths domain = Inr t" and "id_valid domain" and "unat paths \<le> kMaxPathsPerTopology"
  shows "validate_topology t = Inr ()"
proof -
  let ?n = "unat resources"
  have n: "resources \<noteq> 0" "?n \<le> kMaxResourcesPerDomain" using assms(1) by (auto simp: build_topology_def split: if_splits)
  then have big: "?n < 2 ^ 64" "?n \<le> kMaxResourcesPerFabric" "?n \<le> kMaxLinksPerTopology" "0 < ?n"
    by (simp_all add: kMaxResourcesPerDomain_def kMaxResourcesPerFabric_def kMaxLinksPerTopology_def unat_gt_0)
  obtain ids where ids: "validate_resources [] (map (\<lambda>i. synthetic_resource domain (of_nat i)) [1..<?n + 1]) = Inr ids"
      "set ids = of_nat ` {1..?n}"
  proof -
    have set_upto: "set [1..<?n + 1] = {1..?n}" by auto
    have "\<exists>ids. validate_resources [] (map (\<lambda>i. synthetic_resource domain (of_nat i)) [1..<?n + 1]) = Inr ids \<and>
        set ids = of_nat ` set [1..<?n + 1] \<union> set []"
      by (rule synthetic_resources_accepted [OF assms(2)]) (use big(1) set_upto in \<open>auto simp del: upt_Suc\<close>)
    then show ?thesis using that by (auto simp only: set_upto list.set Un_empty_right)
  qed
  have in_ids: "x \<in> set ids \<longleftrightarrow> x \<noteq> 0 \<and> unat x \<le> ?n" for x using ids(2) of_nat_upto [OF big(1)] by simp
  have "validate_links ids [] (map (\<lambda>i. synthetic_link (of_nat i)) [1..<?n]) = Inr ()"
  proof (rule synthetic_links_accepted)
    have mem: "of_nat k \<in> set ids" if "0 < k" "k \<le> ?n" for k
      unfolding ids(2) using that by (intro imageI) simp
    show "\<forall>i \<in> set [1..<?n]. 0 < i \<and> i < 2 ^ 64 \<and> of_nat i \<in> set ids \<and> of_nat (Suc i) \<in> set ids"
      using big(1) mem by (auto simp del: of_nat_Suc)
    show "0 \<notin> set ids" using in_ids by simp
  qed simp_all
  moreover have "validate_paths ids [] (map (\<lambda>i. synthetic_path resources (of_nat i)) [1..<unat paths + 1]) = Inr ()"
  proof (rule synthetic_paths_accepted)
    show "\<forall>i \<in> set [1..<unat paths + 1]. 0 < i \<and> i < 2 ^ 64" using unat_64_less [of paths] by (auto simp del: upt_Suc)
    show "\<forall>x. x \<noteq> 0 \<and> unat x \<le> ?n \<longrightarrow> x \<in> set ids" using in_ids by blast
  qed (use n(1) in \<open>simp_all del: upt_Suc\<close>)
  moreover have "ts_resources t = map (\<lambda>i. synthetic_resource domain (of_nat i)) [1..<?n + 1]"
      "ts_links t = map (\<lambda>i. synthetic_link (of_nat i)) [1..<?n]"
      "ts_paths t = map (\<lambda>i. synthetic_path resources (of_nat i)) [1..<unat paths + 1]"
    using assms(1) by (auto simp: build_topology_def Let_def split: if_splits)
  ultimately show ?thesis
    using assms(3) big ids(1) synthetic_containment_accepted [of _ domain "[1..<?n + 1]"]
    by (simp add: validate_topology_def andThen_def del: upt_Suc)
qed

section \<open>Inspection changes no file\<close>

lemma outcome_keeps_files: "wd_files (snd (take_outcome w)) = wd_files w"
  by (simp add: take_outcome_def split: list.splits)

lemma reading_keeps_files:
  "wd_files (snd (fopen p Mode_rb w)) = wd_files w" "wd_files (snd (ftell sm w)) = wd_files w"
  "wd_files (snd (fseek_end sm w)) = wd_files w" "wd_files (snd (fseek_set pos sm w)) = wd_files w"
  "wd_files (snd (fread n sm w)) = wd_files w" "wd_files (snd (fs_exists p w)) = wd_files w"
  "wd_files (snd (fs_create_directories w)) = wd_files w"
  using outcome_keeps_files [of w]
  by (cases "take_outcome w", simp add: fopen_def ftell_def fseek_end_def fseek_set_def fread_def fs_exists_def
      fs_create_directories_def)+

lemma files_after [elim]:
  "fopen p Mode_rb w = (a, w') \<Longrightarrow> wd_files w' = wd_files w" "ftell sm w = (b, w') \<Longrightarrow> wd_files w' = wd_files w"
  "fseek_end sm w = (c, w') \<Longrightarrow> wd_files w' = wd_files w" "fseek_set pos sm w = (c, w') \<Longrightarrow> wd_files w' = wd_files w"
  "fread n sm w = (d, w') \<Longrightarrow> wd_files w' = wd_files w" "fs_exists p w = (e, w') \<Longrightarrow> wd_files w' = wd_files w"
  "fs_create_directories w = (f, w') \<Longrightarrow> wd_files w' = wd_files w"
  by (metis reading_keeps_files snd_conv)+

lemma stream_size_files: "stream_size sm w = (r, w') \<Longrightarrow> wd_files w' = wd_files w"
  by (auto simp: stream_size_def split: option.splits prod.splits dest!: files_after)

lemma read_file_keeps_files: "read_file p limit w = (r, w') \<Longrightarrow> wd_files w' = wd_files w"
  by (auto simp: read_file_def Let_def split: option.splits prod.splits sum.splits if_splits dest!: files_after stream_size_files)

lemma load_snapshot_files: "load_snapshot p opts w = (r, w') \<Longrightarrow> wd_files w' = wd_files w"
  by (auto simp: load_snapshot_def read_snapshot_def Let_def split: option.splits prod.splits sum.splits if_splits bool.splits
      dest!: files_after read_file_keeps_files)

lemma journal_replay_files: "journal_replay j w = (r, w') \<Longrightarrow> wd_files w' = wd_files w"
  by (auto simp: journal_replay_def split: prod.splits sum.splits if_splits dest!: read_file_keeps_files)

lemma journal_open_files:
  assumes "jo_read_only opts" and "journal_open p opts w = (r, w')"
  shows "wd_files w' = wd_files w"
  using assms
  by (auto simp: journal_open_def Let_def split: prod.splits sum.splits option.splits if_splits dest!: files_after stream_size_files)

lemma store_open_files:
  assumes "sp_read_only opts" and "store_open directory opts w = (r, w')"
  shows "wd_files w' = wd_files w"
proof -
  have ro: "jo_read_only (store_journal_options opts)" using assms(1) by (simp add: store_journal_options_def)
  have cut: "cut_torn_tail opts rp j rep v = (q, v') \<Longrightarrow> wd_files v' = wd_files v" for rp j rep v q v'
    using assms(1) by (simp add: cut_torn_tail_def Let_def split: if_splits)
  obtain made w1 where w1: "fs_create_directories w = (made, w1)" "wd_files w1 = wd_files w" using files_after(7) by (metis surj_pair)
  obtain r2 w2 where w2: "load_snapshot (directory @ ''/ncf.snapshot'') opts w1 = (r2, w2)" "wd_files w2 = wd_files w"
    using load_snapshot_files w1(2) by (metis surj_pair)
  obtain r3 w3 where w3: "journal_open (directory @ ''/ncf.journal'') (store_journal_options opts) w2 = (r3, w3)" "wd_files w3 = wd_files w"
    using journal_open_files [OF ro] w2(2) by (metis surj_pair)
  have w4: "\<exists>r4 w4. journal_replay j w3 = (r4, w4) \<and> wd_files w4 = wd_files w" for j
    using journal_replay_files w3(2) by (metis surj_pair)
  have w5: "wd_files (snd (cut_torn_tail opts rp j rep v)) = wd_files v" for rp j rep v
    using assms(1) by (simp add: cut_torn_tail_def Let_def)
  show ?thesis
  proof (cases "directory = [] \<or> \<not> made")
    case True
    then show ?thesis using assms(2) w1 by (cases "directory = []") (auto simp: store_open_def)
  next
    case False
    show ?thesis
    proof (cases r2)
      case (Inl er)
      then show ?thesis using assms(2) False w1 w2 by (simp add: store_open_def)
    next
      case (Inr loaded)
      obtain d rep where loaded: "loaded = (d, rep)" by (cases loaded)
      show ?thesis
      proof (cases r3)
        case (Inl er)
        then show ?thesis using assms(2) False w1 w2 w3 Inr loaded by (simp add: store_open_def)
      next
        case j: (Inr j)
        obtain r4 w4 where w4: "journal_replay j w3 = (r4, w4)" "wd_files w4 = wd_files w" using w4 by blast
        show ?thesis
        proof (cases r4)
          case (Inl er)
          then show ?thesis using assms(2) False w1 w2 w3 w4 Inr loaded j by (simp add: store_open_def)
        next
          case rp: (Inr rp)
          let ?rc = "recover (jr_records rp) d (rep\<lparr>sr_journal_present := True, sr_journal_status := jr_status rp\<rparr>)"
          let ?j = "resume_sequence (dd_last_sequence (rc_document ?rc) + 1) j"
          obtain r5 v where v: "cut_torn_tail opts rp ?j (rc_report ?rc) w4 = (r5, v)" "wd_files v = wd_files w"
            using w5 w4(2) by (metis surj_pair snd_conv)
          show ?thesis
          proof (cases "jr_status rp = Rs_Corrupt")
            case True
            then show ?thesis using assms(2) False w1 w2 w3 w4 Inr loaded j rp by (simp add: store_open_def)
          next
            case sound: False
            show ?thesis using assms(2) False w1(1) w2(1) w3(1) w4(1) Inr loaded j rp sound v
              by (cases r5) (auto simp: store_open_def Let_def simp del: not_None_eq)
          qed
        qed
      qed
    qed
  qed
qed

text \<open>C35: the inspection program changes no file, whatever its arguments, the damage it finds and the faults of the
  calls it makes.\<close>

theorem inspection_changes_no_file:
  "wd_files (snd (ctl_main argv w)) = wd_files w"
proof -
  have files: "wd_files (snd (open_read_only directory w)) = wd_files w" for directory
    using store_open_files [of read_only_options directory w "fst (open_read_only directory w)" "snd (open_read_only directory w)"]
    by (simp add: open_read_only_def read_only_options_def)
  have "wd_files (snd (run_inspect directory w)) = wd_files w" "wd_files (snd (run_verify directory w)) = wd_files w" for directory
    using files [of directory] unfolding run_inspect_def run_verify_def
    by (cases "open_read_only directory w"; cases "fst (open_read_only directory w)"; simp)+
  then show ?thesis
    unfolding ctl_main_def Let_def if_distrib [of snd] if_distrib [of wd_files] by (simp only: snd_conv if_cancel)
qed

end
