(* ===== verification/NCF_Bench.thy ===== *)
theory NCF_Bench
  imports NCF_Planner
begin

text \<open>
  The benchmark, \<^verbatim>\<open>src/cli/ncf_bench_main.cpp\<close>: the synthetic scenarios, their topology, policy and evidence, and the run that counts
  completed evaluations. Times and printing are not modelled.
\<close>

section \<open>Scenarios\<close>

record Scenario =
  bs_name :: string
  bs_resources :: u64
  bs_metrics :: u64
  bs_paths :: u64
  bs_domains :: u64
  bs_intervention_rules :: u64
  bs_evaluations :: u64

record ScenarioResult =
  br_iterations :: u64
  br_evaluations :: u64
  br_transitions :: u64
  br_authorized :: u64
  br_suppressed :: u64

definition bench_scenario :: "string \<Rightarrow> u64 \<Rightarrow> u64 \<Rightarrow> u64 \<Rightarrow> u64 \<Rightarrow> u64 \<Rightarrow> u64 \<Rightarrow> Scenario" where
  "bench_scenario name resources metrics paths domains rules scale =
     \<lparr>bs_name = name, bs_resources = resources, bs_metrics = metrics, bs_paths = paths, bs_domains = domains,
      bs_intervention_rules = rules, bs_evaluations = scale\<rparr>"

definition bench_scenarios :: "u64 \<Rightarrow> Scenario list" where
  "bench_scenarios scale =
     map (\<lambda>n. bench_scenario ''resource-count'' n 4 8 1 5 scale) [16, 256, 2048] @
     map (\<lambda>n. bench_scenario ''metric-fan-in'' 256 n 8 1 5 scale) [2, 8, 20] @
     map (\<lambda>n. bench_scenario ''path-count'' 256 4 n 1 5 scale) [0, 64, 512] @
     map (\<lambda>n. bench_scenario ''domain-count'' 256 4 8 n 5 scale) [1, 8, 64] @
     map (\<lambda>n. bench_scenario ''intervention-complexity'' 256 4 8 1 n scale) [1, 5, 12]"

section \<open>Evidence\<close>

definition kMetricPool :: "MetricKind list" where
  "kMetricPool =
     [MK_UtilizationPpm, MK_QueueOccupancyPpm, MK_LossRatePpm, MK_LatencyMicros, MK_BufferUtilizationPpm, MK_JitterMicros,
      MK_QueueDepthPackets, MK_EgressRateBps, MK_IngressRateBps, MK_ResidualCapacityBps, MK_AdmissibleRateBps,
      MK_MarkedFractionPpm, MK_DeliveryRatioPpm, MK_DiscardCount, MK_QueueDelayMicros, MK_LinkCapacityBps,
      MK_PathCapacityBps, MK_TopologyVersion, MK_CapacityVersion, MK_Unknown]"

definition severity_level :: "u64 \<Rightarrow> u64" where
  "severity_level iteration = (let phase = iteration mod 64 in if phase < 32 then phase else 63 - phase)"

definition metric_value_for :: "MetricKind \<Rightarrow> u64 \<Rightarrow> u64" where
  "metric_value_for kind index =
     (let level = severity_level index in
      if kind = MK_UtilizationPpm then 150000 + level * 26000
      else if kind = MK_QueueOccupancyPpm then 1000 + level * 29000
      else if kind = MK_BufferUtilizationPpm then 50000 + level * 24000
      else if kind = MK_LossRatePpm then 10 + level * 10000
      else if kind = MK_LatencyMicros then 200 + level * 1800
      else if kind = MK_JitterMicros then 50 + (index mod 10) * 30
      else if kind = MK_QueueDepthPackets then 1000 + (index mod 64) * 40
      else if kind = MK_DiscardCount then 10 + (index mod 8)
      else if kind = MK_EgressRateBps then 40000000000 + (index mod 16) * 1000000000
      else if kind = MK_IngressRateBps then 42000000000 + (index mod 16) * 1000000000
      else if kind = MK_ResidualCapacityBps then 50000000000 - (index mod 32) * 1000000000
      else if kind = MK_AdmissibleRateBps then 30000000000 + (index mod 16) * 1000000000
      else if kind = MK_MarkedFractionPpm then 1000 + (index mod 32) * 500
      else if kind = MK_DeliveryRatioPpm then 1000000 - (index mod 64) * 5000
      else if kind = MK_QueueDelayMicros then 100 + (index mod 40) * 200
      else if kind = MK_LinkCapacityBps then 100000000000
      else if kind = MK_PathCapacityBps then 100000000000
      else if kind = MK_TopologyVersion then 1 + (index mod 4)
      else if kind = MK_CapacityVersion then 1 + (index mod 4)
      else 0)"

definition bench_metrics :: "u64 \<Rightarrow> u64 \<Rightarrow> MetricSet" where
  "bench_metrics metrics iteration =
     fold (\<lambda>kind ms. if kind = MK_Unknown then ms
             else case ms_set kind (metric_value_for kind iteration) ms of Inl _ \<Rightarrow> ms | Inr ms' \<Rightarrow> ms')
       (take (unat (min metrics 20)) kMetricPool) []"

definition bench_sample :: "Scenario \<Rightarrow> u64 \<Rightarrow> Tick \<Rightarrow> ResourceId \<Rightarrow> EvidenceSample" where
  "bench_sample sc iteration now resource =
     (let s = \<lparr>es_resource = resource, es_queue = 0, es_metrics = bench_metrics (bs_metrics sc) iteration, es_publisher = 1,
           es_publisher_boot = 1, es_epoch = 1, es_generation = 1 + iteration, es_sequence = 1 + iteration,
           es_observed_tick = now, es_received_tick = kNoTick, es_provenance = 0, es_snapshot = 0, es_flags = 0\<rparr>
      in s\<lparr>es_snapshot := compute_snapshot_id s\<rparr>)"

section \<open>Topology and policy\<close>

definition bench_resource :: "Scenario \<Rightarrow> u64 \<Rightarrow> ResourceRecord" where
  "bench_resource sc index =
     (let per_domain = bs_resources sc div bs_domains sc in
      \<lparr>rr_id = index, rr_domain = (index - 1) div (if per_domain = 0 then 1 else per_domain) + 1, rr_parent = 0,
       rr_serving_class = 0, rr_kind = RK_Port, rr_depth = ucast (index mod 8), rr_nominal_capacity_bps = 100000000000,
       rr_flags = 0\<rparr>)"

definition bench_link :: "u64 \<Rightarrow> LinkRecord" where
  "bench_link index =
     \<lparr>lk_id = index, lk_from = index, lk_to = index + 1, lk_capacity_bps = 100000000000, lk_latency_micros = 10, lk_weight = 1\<rparr>"

definition bench_path :: "Scenario \<Rightarrow> u64 \<Rightarrow> PathRecord" where
  "bench_path sc index =
     (let first = (index - 1) mod bs_resources sc + 1; second = index mod bs_resources sc + 1 in
      \<lparr>pa_id = index, pa_hops = first # (if second \<noteq> first then [second] else []), pa_capacity_bps = 100000000000, pa_flags = 0\<rparr>)"

definition make_topology :: "Scenario \<Rightarrow> TopologySnapshot" where
  "make_topology sc =
     (let t = \<lparr>ts_id = 1, ts_generation = 1, ts_epoch = 1, ts_observed_tick = kNoTick,
           ts_resources = map (\<lambda>i. bench_resource sc (of_nat i)) [1..<unat (bs_resources sc) + 1],
           ts_links = map (\<lambda>i. bench_link (of_nat i)) [1..<unat (bs_resources sc)],
           ts_paths = map (\<lambda>i. bench_path sc (of_nat i)) [1..<unat (bs_paths sc) + 1], ts_fingerprint = 0\<rparr>
      in t\<lparr>ts_fingerprint := fingerprint_topology t\<rparr>)"

definition kInterventionPool :: "InterventionKind list" where
  "kInterventionPool =
     [IK_ReduceAdmissibleBudget, IK_RequestRateReduction, IK_RequestPacing, IK_RequestReroute, IK_RequestRebalance,
      IK_RequestBackpressure, IK_ProtectCriticalClasses, IK_EnterDegradedMode]"

definition bench_rule :: "nat \<Rightarrow> InterventionRule" where
  "bench_rule index =
     \<lparr>ir_at_least = Sev_Congested, ir_kind = kInterventionPool ! (index mod 8), ir_target_class = 0, ir_target_domain = 0,
      ir_require_fresh_evidence = True, ir_require_authoritative_state = True, ir_parameter_min = 0,
      ir_parameter_max = 1000000, ir_parameter_default = 100000, ir_priority = of_nat (100 + index),
      ir_min_repeat_interval_ticks = 0\<rparr>"

text \<open>The verdict of the validation is ignored; on success it has set the fingerprint.\<close>

definition make_policy :: "Scenario \<Rightarrow> CongestionPolicy" where
  "make_policy sc =
     (let p0 = make_default_policy;
          n = unat (bs_intervention_rules sc);
          rules = take n (po_interventions p0 @ map bench_rule [0..<n - length (po_interventions p0)]);
          p1 = p0\<lparr>po_interventions := rules\<rparr>;
          p2 = p1\<lparr>po_id := fingerprint_policy p1\<rparr>
      in case validate_policy p2 of Inl _ \<Rightarrow> p2 | Inr p \<Rightarrow> p)"

section \<open>The run\<close>

record Bench =
  bn_result :: ScenarioResult
  bn_prior :: DomainState

definition bench_context :: "CongestionPolicy \<Rightarrow> TopologyIndex \<Rightarrow> Tick \<Rightarrow> EvaluationContext" where
  "bench_context policy index now =
     \<lparr>cx_policy = Some policy, cx_topology = Some index, cx_capacity = None, cx_epoch = 1,
      cx_authority = empty_av\<lparr>av_epoch := 1, av_generation := 1, av_policy := po_id policy,
        av_policy_fingerprint := po_fingerprint policy, av_granted := aset_all\<rparr>,
      cx_now = now, cx_max_samples_per_batch = of_nat kMaxEvidencePerBatch\<rparr>"

definition bench_batch :: "EvidenceSample list \<Rightarrow> EvidenceBatch" where
  "bench_batch samples =
     (let b = \<lparr>eb_id = 0, eb_epoch = 1, eb_provenance = 0, eb_submitted_tick = kNoTick, eb_samples = samples\<rparr>
      in b\<lparr>eb_id := compute_batch_id b\<rparr>)"

text \<open>
  One turn of the inner loop; None when the evaluation fails, which ends the run. The prior state is one variable of the run,
  whatever the domain. The batch is the previous one with other samples, so its old identity enters the new one only
  if the hash reads it, which it does not.
\<close>

definition bench_domain :: "Scenario \<Rightarrow> CongestionPolicy \<Rightarrow> TopologyIndex \<Rightarrow> u64 \<Rightarrow> Tick \<Rightarrow> DomainId \<Rightarrow> Bench \<Rightarrow> Bench option" where
  "bench_domain sc policy index iteration now domain b =
     (let context = bench_context policy index now;
          batch = bench_batch (map (bench_sample sc iteration now) (ti_domain_members index domain));
          request = \<lparr>rq_domain = domain, rq_evidence = batch, rq_epoch = 1, rq_authority = cx_authority context, rq_now = now,
             rq_only_resource = 0\<rparr>
      in case evaluate request (bn_prior b) context of
           Inl _ \<Rightarrow> None
         | Inr outcome \<Rightarrow>
             let r = bn_result b;
                 r1 = r\<lparr>br_evaluations := br_evaluations r + 1,
                        br_transitions := br_transitions r + (if eo_transitioned outcome then 1 else 0)\<rparr>;
                 r2 = (if domain \<noteq> 1 then r1
                       else case plan outcome \<lparr>pc_policy = Some policy, pc_topology = Some index, pc_now = now, pc_epoch = 1,
                                  pc_authority = cx_authority context\<rparr> [] of
                           Inl _ \<Rightarrow> r1
                         | Inr p \<Rightarrow> r1\<lparr>br_authorized := br_authorized r1 + of_nat (length (ip_authorized p)),
                                       br_suppressed := br_suppressed r1 + of_nat (length (ip_suppressed p))\<rparr>)
             in Some \<lparr>bn_result = r2, bn_prior = eo_updated outcome\<rparr>)"

text \<open>The results, with the flag whether every evaluation completed.\<close>

fun bench_domains ::
  "Scenario \<Rightarrow> CongestionPolicy \<Rightarrow> TopologyIndex \<Rightarrow> u64 \<Rightarrow> Tick \<Rightarrow> DomainId list \<Rightarrow> Bench \<Rightarrow> bool \<times> Bench" where
  "bench_domains sc policy index iteration now [] b = (True, b)"
| "bench_domains sc policy index iteration now (d # ds) b =
     (case bench_domain sc policy index iteration now d b of
        None \<Rightarrow> (False, b)
      | Some b' \<Rightarrow> bench_domains sc policy index iteration now ds b')"

fun bench_iterations :: "Scenario \<Rightarrow> CongestionPolicy \<Rightarrow> TopologyIndex \<Rightarrow> nat list \<Rightarrow> Tick \<Rightarrow> Bench \<Rightarrow> bool \<times> Bench" where
  "bench_iterations sc policy index [] now b = (True, b)"
| "bench_iterations sc policy index (i # is) now b =
     (let b0 = b\<lparr>bn_result := (bn_result b)\<lparr>br_iterations := br_iterations (bn_result b) + 1\<rparr>\<rparr> in
      case bench_domains sc policy index (of_nat i) now (map of_nat [1..<unat (bs_domains sc) + 1]) b0 of
        (False, b1) \<Rightarrow> (False, b1)
      | (True, b1) \<Rightarrow> bench_iterations sc policy index is (now + 1000) b1)"

definition run_scenario :: "Scenario \<Rightarrow> bool \<times> ScenarioResult" where
  "run_scenario sc =
     (let r0 = \<lparr>br_iterations = 0, br_evaluations = 0, br_transitions = 0, br_authorized = 0, br_suppressed = 0\<rparr> in
      case topology_build (make_topology sc) of
        Inl _ \<Rightarrow> (False, r0)
      | Inr index \<Rightarrow>
          (case bench_iterations sc (make_policy sc) index [0..<unat (bs_evaluations sc)] 1000
                  \<lparr>bn_result = r0, bn_prior = initial_domain_state\<lparr>ds_domain := 1\<rparr>\<rparr> of
             (completed, b) \<Rightarrow> (completed, bn_result b)))"

section \<open>What the counters mean\<close>

lemma bench_domain_counts:
  "bench_domain sc policy index iteration now d b = Some b' \<Longrightarrow>
     br_evaluations (bn_result b') = br_evaluations (bn_result b) + 1 \<and> br_iterations (bn_result b') = br_iterations (bn_result b)"
  by (auto simp: bench_domain_def Let_def split: sum.splits if_splits)

lemma bench_domains_count:
  "bench_domains sc policy index iteration now ds b = (True, b') \<Longrightarrow>
     br_evaluations (bn_result b') = br_evaluations (bn_result b) + of_nat (length ds) \<and>
     br_iterations (bn_result b') = br_iterations (bn_result b)"
proof (induction ds arbitrary: b)
  case (Cons d ds)
  then obtain b1 where b1: "bench_domain sc policy index iteration now d b = Some b1"
      "bench_domains sc policy index iteration now ds b1 = (True, b')"
    by (auto split: option.splits)
  from Cons.IH [OF b1(2)] bench_domain_counts [OF b1(1)] show ?case by simp
qed simp

lemma bench_iterations_count:
  "bench_iterations sc policy index is now b = (True, b') \<Longrightarrow>
     br_iterations (bn_result b') = br_iterations (bn_result b) + of_nat (length is) \<and>
     br_evaluations (bn_result b') = br_evaluations (bn_result b) + of_nat (length is) * bs_domains sc"
proof (induction "is" arbitrary: now b)
  case (Cons i "is")
  let ?b0 = "b\<lparr>bn_result := (bn_result b)\<lparr>br_iterations := br_iterations (bn_result b) + 1\<rparr>\<rparr>"
  obtain b1 where b1: "bench_domains sc policy index (of_nat i) now (map of_nat [1..<unat (bs_domains sc) + 1]) ?b0 = (True, b1)"
      "bench_iterations sc policy index is (now + 1000) b1 = (True, b')"
    using Cons.prems by (auto simp: Let_def simp del: upt_Suc split: prod.splits bool.splits)
  from Cons.IH [OF b1(2)] bench_domains_count [OF b1(1)] show ?case by (simp add: algebra_simps del: upt_Suc)
qed simp

text \<open>
  Only completed evaluations are counted: a run that completes has evaluated every domain in every iteration.
\<close>

lemma completed_run_counts:
  "run_scenario sc = (True, r) \<Longrightarrow>
     br_iterations r = bs_evaluations sc \<and> br_evaluations r = bs_evaluations sc * bs_domains sc"
  by (auto simp: run_scenario_def Let_def split: sum.splits prod.splits dest!: bench_iterations_count)

end
