(* ===== verification/Spec2Isabelle.thy ===== *)
theory Spec2Isabelle
  imports NCF_Core NCF_Enums NCF_Evidence NCF_Authority NCF_Policy NCF_Topology NCF_Hysteresis
    NCF_Propagation NCF_Evaluator NCF_Planner NCF_Codec NCF_Frame NCF_Io NCF_Journal NCF_StoreCodec NCF_Snapshot NCF_Store NCF_Recovery NCF_Compaction
    NCF_Fabric NCF_FabricInvariant NCF_FabricOpening NCF_FabricRuns NCF_Restart NCF_Explanation NCF_Coordinator NCF_Node NCF_Session NCF_Publisher
    NCF_Threads NCF_Channel NCF_Pipe NCF_Process NCF_Args NCF_Cli NCF_Bench
begin

text \<open>
  A verification development for the Network Congestion Fabric.

  \<^bold>\<open>The program.\<close> Publishers observe queues, links and ports and send samples of metrics to a coordinator. The
  coordinator's fabric keeps a window of fresh evidence, classifies it against a policy, commits one congestion state for each domain
  with hysteresis, and plans interventions: requests to other systems, each checked against the authority of the
  coordinator's epoch. Everything that must survive a crash is committed to a journal with snapshots. An
  incarnation of a publisher that misbehaves or vanishes is fenced, and a restarted coordinator trusts nothing of what it
  believed before.

  \<^bold>\<open>The parts, from the bottom.\<close> Sources are under \<^verbatim>\<open>src/\<close> and \<^verbatim>\<open>include/ncf/\<close> of the repository.

  \<^item> NCF_Prelude: the shared collections of facts and lemmas on lists, words and ordered maps.
  \<^item> NCF_Core (\<^verbatim>\<open>core/\<close>): error codes and results, limits, saturating and checked arithmetic, ticks, FNV digests, CRC-32C,
    strong identities. NCF_Enums (\<^verbatim>\<open>model/enums\<close>): the vocabularies with their tables and names.
  \<^item> NCF_Evidence, NCF_Authority, NCF_Policy, NCF_Topology (\<^verbatim>\<open>model/\<close>): samples, metric sets and batches; authority sets and
    vectors, registrations and fences; rules, classification, validation and the default policy; topology and
    capacity snapshots, validation and the adjacency index.
  \<^item> NCF_Hysteresis, NCF_Propagation, NCF_Evaluator, NCF_Planner (\<^verbatim>\<open>eval/\<close>): the state of a domain and its step, pressure along
    links and paths, admission and assessment of evidence up to the outcome of an evaluation, and the plan of an
    outcome.
  \<^item> NCF_Codec, NCF_Frame (\<^verbatim>\<open>internal/codec\<close>, \<^verbatim>\<open>transport/\<close>): byte readers and writers, frames with two checksums, the stream
    decoder, the messages and the replay window.
  \<^item> NCF_Io, NCF_Journal, NCF_StoreCodec, NCF_Snapshot, NCF_Store (\<^verbatim>\<open>internal/io\<close>, \<^verbatim>\<open>durability/\<close>): files, the journal, the payload
    codecs of the durable document, the snapshot container, the commit protocol, recovery and checkpoints.
  \<^item> NCF_Fabric (\<^verbatim>\<open>fabric/\<close>): every entry point of the fabric over the state the mutex guards. NCF_Explanation
    (\<^verbatim>\<open>model/explanation\<close>): the rendered explanation.
  \<^item> NCF_Coordinator, NCF_Threads, NCF_Publisher (\<^verbatim>\<open>runtime/\<close>): the loop of a connection with its handlers, the registry and
    the shutdown of the threads, and the whole of a publisher's run.
  \<^item> NCF_Channel, NCF_Pipe, NCF_Process (\<^verbatim>\<open>ipc/\<close>): sockets and named pipes with their listeners, child processes.
  \<^item> NCF_Args, NCF_Cli, NCF_Bench (\<^verbatim>\<open>cli/\<close>): the command line, the node and inspection programs, the benchmark.

  The theories without sources of their own hold what spans components. NCF_Recovery and NCF_Compaction: crashes of the store.
  NCF_FabricInvariant, NCF_FabricOpening, NCF_FabricRuns: runs of the fabric. NCF_Restart: a crash between two openings. NCF_Node: a
  coordinator with its connections as a transition system. NCF_Session: the byte stream of one connection.

  \<^bold>\<open>Data and state.\<close> A struct is a record with a prefix of its own, a C++ enumeration a datatype around the integer it is
  stored as (values outside the enumerators included, for a decoder can meet them), identities and ticks are \<open>64 word\<close>, other integers
  keep their width, and wrap-around is the word's. A \<^verbatim>\<open>Result\<close> is a sum with the error code on the left; message texts are kept
  where the program stores or sends them. An ordered map is a sorted association list, an unordered one that is only looked up a
  partial function. Bytes are \<open>8 word\<close>, text is a \<open>string\<close> of bytes. Each operation is one definition that takes the state
  and returns it, with the guards and early returns in the order of the code; loops are recursion on their data.

  \<^bold>\<open>The environment.\<close> What the program asks of the system is scripted. A file \<open>World\<close> holds the bytes of each file, how many of
  them are synced, and the outcomes of the coming calls: success, failure, a short transfer; \<open>crashes_to\<close> keeps of each
  file a prefix not shorter than what is synced; a rename is durable when it returns, as in the Windows branch of
  \<^verbatim>\<open>atomic_replace\<close>. The fabric's \<open>Env\<close> adds the clock and the answers of the cancellation
  token; channels have the outcomes of their reads and writes, and a pipe listener the answers to its system calls. A script that is exhausted continues with the quiet outcome, and
  theorems quantify over all scripts. There is no fuel: the decoder and the reply loops end because each turn consumes
  pending bytes, the connection loop because the script of reads ends or the connection does, the accept and connect loops yield None while
  they still wait.

  \<^bold>\<open>Concurrency.\<close> The mutex of the fabric makes each entry point a critical section, so NCF_FabricRuns proves its invariants
  over arbitrary sequences of sections with arbitrary faults. NCF_Node interleaves reads, frames, ends of
  connections, sweeps and accepts of any number of connections. A frame is one step there although other threads may enter
  between two calls of its handler into the fabric: the invariants are those of the sections, and are not affected. NCF_Threads models
  the threads themselves: a move is one critical section of the registry mutex, one blocking call or one action between two of
  them, a thread blocked in a read or a write moves only when its peer acts or its channel is cancelled, and a run is fair when
  every one of the coordinator's threads that can move at every later time moves. Peers owe nothing.

  \<^bold>\<open>What is shown.\<close>
  \<^item> Evaluation: only fresh readings classified by a rule are bound; severities are corroborated; contradiction ends in Conflict; a
    transition needs its streak of observations, and enough of them do cause it; propagation stays within its bounds.
  \<^item> Planning: every authorized intent is justified by a rule and every check of it; nothing is authorized on an
    indeterminate or non-authoritative state.
  \<^item> Fabric: in every run the live state belongs to the current epoch and nothing fenced is usable; ingest is idempotent; a
    cancelled evaluation leaves no trace; an opening restores no authority; an acknowledged fence survives a crash.
  \<^item> Durability: codecs round-trip; the journal and the snapshot survive a crash at any byte; recovery yields the document of the
    acknowledged mutations (a refinement of mutations as updates of the document); a checkpoint loses nothing.
  \<^item> Transport: frames arrive in order under any chunking, bursts are detected, messages round-trip; serving a stream is serving its
    frames one by one (the coordinator refines a fold over the frames), and the publisher's stream is served so, with its evidence under one epoch,
    that of a HelloAck it has accepted.
  \<^item> Connections: an incarnation whose connection drops stays out, a fenced or unregistered peer changes nothing; once the stop flag is set every
    fair run returns with all threads joined, also with silent peers; the listener is closed or listens on an instance no peer has
    used; messages cross a channel whole.
  \<^item> Programs: a command line parses to the options and words it was written from, the synthetic topology is
    accepted, inspection changes no file, the benchmark counts completed evaluations.

  Interfaces are locales, interpreted on the model's definitions where they are provided; \<open>byte_channel\<close>, for example,
  is the contract of a channel, which sockets, pipes and both scripted ends keep. Behaviour that departs from a comment or
  from the evident intent is stated as a lemma next to the definition it is about (among them:
  \<open>exhausted_instances_end_accepting\<close>, \<open>cancel_uses_destroyed_channel\<close>, \<open>create_takes_over\<close>, \<open>budget_is_nanoseconds\<close>,
  \<open>second_hello_forgets_the_first\<close>, \<open>evidence_dropped_silently\<close>, \<open>single_rule_ignores_plan_bound\<close>).

  \<^bold>\<open>Not modelled.\<close> Message texts that are only printed; the wall clock recorded in provenance beyond its value; the pauses of
  loops; the FILE of the evaluation report beyond its lines; moving handles and the plumbing of pipes to child
  processes; the conversion of names to UTF-16; the stop file and the watcher thread of the node program; the times of the
  benchmark. The tests are not part of the model. Getters that return a field are that field.
\<close>

end
